(* ===== verification/Prelude.thy ===== *)
theory Prelude
  imports Main
begin

text \<open>
  What every component shares: instants, the exceptions the handlers raise, the result type of a
  fallible call, the relational reading of the database queries the code issues, and the
  conditional update ("claim") contract that the workflows of the portal are built on.

  A table is the list of its rows. The query methods of the object-relational client that the
  sources call (\<open>findFirst\<close>, \<open>findMany\<close>, \<open>count\<close>, \<open>updateMany\<close>, \<open>deleteMany\<close>) are read with their
  documented meaning: a filter is the conjunction of the conditions of its \<open>where\<close> clause,
  \<open>orderBy\<close> sorts, \<open>take\<close> cuts, \<open>updateMany\<close> changes the rows that match and counts them.
\<close>

section \<open>Instants and errors\<close>

text \<open>Milliseconds since the epoch, what \<open>Date.getTime\<close> returns.\<close>

type_synonym time = int

text \<open>The exceptions of the framework, with the message the source gives them. \<open>ApprovalRequired\<close> is
  the conflict that carries the identifier of the pending approval.\<close>

datatype http_error =
    BadRequest string
  | Unauthorized string
  | Forbidden string
  | NotFound
  | Conflict string
  | ApprovalRequired string
  | ServiceUnavailable string
  | InternalError string

type_synonym 'a outcome = "http_error + 'a"

section \<open>Tables\<close>

definition count_rows :: "('r \<Rightarrow> bool) \<Rightarrow> 'r list \<Rightarrow> nat" where
  "count_rows p rows = length (filter p rows)"

definition update_rows :: "('r \<Rightarrow> bool) \<Rightarrow> ('r \<Rightarrow> 'r) \<Rightarrow> 'r list \<Rightarrow> 'r list" where
  "update_rows p f rows = map (\<lambda>r. if p r then f r else r) rows"

definition delete_rows :: "('r \<Rightarrow> bool) \<Rightarrow> 'r list \<Rightarrow> 'r list" where
  "delete_rows p rows = filter (\<lambda>r. \<not> p r) rows"

definition find_first :: "('r \<Rightarrow> bool) \<Rightarrow> 'r list \<Rightarrow> 'r option" where
  "find_first p rows = List.find p rows"

definition find_first_by :: "('r \<Rightarrow> 'k::linorder) \<Rightarrow> ('r \<Rightarrow> bool) \<Rightarrow> 'r list \<Rightarrow> 'r option" where
  "find_first_by key p rows = List.find p (sort_key key rows)"

definition find_many :: "('r \<Rightarrow> 'k::linorder) \<Rightarrow> nat \<Rightarrow> ('r \<Rightarrow> bool) \<Rightarrow> 'r list \<Rightarrow> 'r list" where
  "find_many key n p rows = take n (sort_key key (filter p rows))"

text \<open>Values of an optional column: \<open>column: null\<close> or a comparison in a \<open>where\<close> clause. A comparison
  with a null column does not match.\<close>

definition null_or :: "('a \<Rightarrow> bool) \<Rightarrow> 'a option \<Rightarrow> bool" where
  "null_or p v = (case v of None \<Rightarrow> True | Some x \<Rightarrow> p x)"

definition some_and :: "('a \<Rightarrow> bool) \<Rightarrow> 'a option \<Rightarrow> bool" where
  "some_and p v = (case v of None \<Rightarrow> False | Some x \<Rightarrow> p x)"

named_theorems table_simps "reading the result of a query off the table it is run on"

lemma null_or_simps [simp]: "null_or p None" "null_or p (Some x) = p x"
  by (simp_all add: null_or_def)

lemma some_and_simps [simp]: "\<not> some_and p None" "some_and p (Some x) = p x"
  by (simp_all add: some_and_def)

lemma some_and_iff: "some_and p v \<longleftrightarrow> (\<exists>x. v = Some x \<and> p x)"
  by (cases v) auto

lemma count_rows_Nil [simp]: "count_rows p [] = 0"
  by (simp add: count_rows_def)

lemma count_rows_Cons [simp]:
  "count_rows p (r # rows) = (if p r then Suc (count_rows p rows) else count_rows p rows)"
  by (simp add: count_rows_def)

lemma count_rows_append [simp]: "count_rows p (xs @ ys) = count_rows p xs + count_rows p ys"
  by (simp add: count_rows_def)

lemma count_rows_0_iff [table_simps]: "count_rows p rows = 0 \<longleftrightarrow> (\<forall>r\<in>set rows. \<not> p r)"
  by (induction rows) auto

lemma count_rows_pos_iff [table_simps]: "0 < count_rows p rows \<longleftrightarrow> (\<exists>r\<in>set rows. p r)"
  using count_rows_0_iff [of p rows] by auto

lemma update_rows_Nil [simp]: "update_rows p f [] = []"
  by (simp add: update_rows_def)

lemma update_rows_Cons [simp]:
  "update_rows p f (r # rows) = (if p r then f r else r) # update_rows p f rows"
  by (simp add: update_rows_def)

lemma update_rows_append [simp]:
  "update_rows p f (xs @ ys) = update_rows p f xs @ update_rows p f ys"
  by (simp add: update_rows_def)

lemma length_update_rows [simp]: "length (update_rows p f rows) = length rows"
  by (simp add: update_rows_def)

lemma set_update_rows [table_simps]:
  "set (update_rows p f rows) = (\<lambda>r. if p r then f r else r) ` set rows"
  by (simp add: update_rows_def)

lemma update_rows_origin:
  assumes "r \<in> set (update_rows p f rows)"
  obtains x where "x \<in> set rows" and "r = (if p x then f x else x)"
  using assms by (auto simp: update_rows_def)

lemma update_rows_frame: "r \<in> set rows \<Longrightarrow> \<not> p r \<Longrightarrow> r \<in> set (update_rows p f rows)"
  by (force simp: update_rows_def)

lemma update_rows_none [table_simps]: "\<forall>r\<in>set rows. \<not> p r \<Longrightarrow> update_rows p f rows = rows"
  by (induction rows) auto

lemma map_update_rows [table_simps]:
  "(\<And>r. p r \<Longrightarrow> key (f r) = key r) \<Longrightarrow> map key (update_rows p f rows) = map key rows"
  by (simp add: update_rows_def)

lemma set_delete_rows [table_simps]: "set (delete_rows p rows) = {r \<in> set rows. \<not> p r}"
  by (auto simp: delete_rows_def)

lemma find_first_Nil [simp]: "find_first p [] = None"
  by (simp add: find_first_def)

lemma find_first_Cons [simp]:
  "find_first p (r # rows) = (if p r then Some r else find_first p rows)"
  by (simp add: find_first_def)

lemma find_first_Some: "find_first p rows = Some r \<Longrightarrow> r \<in> set rows \<and> p r"
  by (auto simp: find_first_def find_Some_iff)

lemma find_first_None_iff [table_simps]: "find_first p rows = None \<longleftrightarrow> (\<forall>r\<in>set rows. \<not> p r)"
  by (auto simp: find_first_def find_None_iff)

lemma find_first_by_Some: "find_first_by key p rows = Some r \<Longrightarrow> r \<in> set rows \<and> p r"
  unfolding find_first_by_def find_Some_iff by (metis nth_mem set_sort)

lemma find_first_by_None_iff [table_simps]:
  "find_first_by key p rows = None \<longleftrightarrow> (\<forall>r\<in>set rows. \<not> p r)"
  by (auto simp: find_first_by_def find_None_iff)

lemma find_first_by_least:
  assumes "find_first_by key p rows = Some r" and "x \<in> set rows" and "p x"
  shows "key r \<le> key x"
proof -
  have "sorted (map key ys) \<Longrightarrow> List.find p ys = Some r \<Longrightarrow> x \<in> set ys \<Longrightarrow> key r \<le> key x" for ys
    using assms(3) by (induction ys) (auto split: if_splits)
  from this [of "sort_key key rows"] assms(1,2) show ?thesis by (simp add: find_first_by_def)
qed

lemma set_find_many: "set (find_many key n p rows) \<subseteq> {r \<in> set rows. p r}"
  by (auto simp: find_many_def dest: in_set_takeD)

lemma length_find_many: "length (find_many key n p rows) \<le> n"
  by (simp add: find_many_def)

lemma find_many_all:
  "count_rows p rows \<le> n \<Longrightarrow> set (find_many key n p rows) = {r \<in> set rows. p r}"
  by (auto simp: find_many_def count_rows_def)

text \<open>Under a key without duplicates a filter on the key matches one row at most.\<close>

lemma count_rows_key_le_1:
  assumes "distinct (map key rows)"
  shows "count_rows (\<lambda>r. key r = k \<and> p r) rows \<le> 1"
  using assms
proof (induction rows)
  case Nil
  then show ?case by simp
next
  case (Cons r rows)
  have "key r = k \<Longrightarrow> count_rows (\<lambda>r. key r = k \<and> p r) rows = 0"
    using Cons.prems unfolding count_rows_0_iff by (metis distinct.simps(2) imageI list.set_map list.simps(9))
  with Cons show ?case by auto
qed

lemma key_unique:
  "distinct (map key rows) \<Longrightarrow> r \<in> set rows \<Longrightarrow> s \<in> set rows \<Longrightarrow> key r = key s \<Longrightarrow> r = s"
  by (auto simp: distinct_map inj_on_def)

lemma count_rows_key_pos:
  "distinct (map key rows) \<Longrightarrow> r \<in> set rows \<Longrightarrow>
     0 < count_rows (\<lambda>x. key x = key r \<and> p x) rows \<longleftrightarrow> p r"
  unfolding count_rows_pos_iff by (metis key_unique)

lemma find_first_key:
  assumes "distinct (map key rows)" and "r \<in> set rows" and "p r"
  shows "find_first (\<lambda>x. key x = key r \<and> p x) rows = Some r"
proof (cases "find_first (\<lambda>x. key x = key r \<and> p x) rows")
  case None
  with assms show ?thesis by (auto simp: find_first_None_iff)
next
  case (Some s)
  then have "s \<in> set rows" "key s = key r" by (auto dest: find_first_Some)
  with assms Some show ?thesis by (auto dest: key_unique)
qed

section \<open>Conditional updates\<close>

text \<open>
  The workflows of the portal (reviews, approvals, signatures, reminders, destructions) close a row
  with an \<open>updateMany\<close> whose \<open>where\<close> clause asks for the identifier and for the row still being open,
  and then test that one row was changed. The contract: a closing decision makes an open row not
  open, and every decision keeps the identifier. Then a closing claim succeeds at most once.
\<close>

definition claim :: "('r \<Rightarrow> bool) \<Rightarrow> ('r \<Rightarrow> 'r) \<Rightarrow> 'r list \<Rightarrow> 'r list option" where
  "claim p f rows = (if count_rows p rows = 1 then Some (update_rows p f rows) else None)"

lemma claim_Some_iff:
  "claim p f rows = Some rows' \<longleftrightarrow> count_rows p rows = 1 \<and> rows' = update_rows p f rows"
  by (auto simp: claim_def)

lemma claim_row:
  assumes "claim p f rows = Some rows'"
  obtains r where "r \<in> set rows" "p r" "f r \<in> set rows'"
proof -
  have "0 < count_rows p rows" using assms by (simp add: claim_Some_iff)
  then obtain r where "r \<in> set rows" "p r" by (auto simp: count_rows_pos_iff)
  moreover from this have "f r \<in> set rows'" using assms by (force simp: claim_Some_iff set_update_rows)
  ultimately show thesis using that by blast
qed

lemma claim_origin:
  "claim p f rows = Some rows' \<Longrightarrow> r \<in> set rows' \<Longrightarrow> \<exists>x\<in>set rows. r = (if p x then f x else x)"
  by (auto simp: claim_Some_iff update_rows_def)

locale claim_once =
  fixes key :: "'r \<Rightarrow> 'k"
    and is_open :: "'r \<Rightarrow> bool"
    and closing :: "'a \<Rightarrow> bool"
    and decide_row :: "'a \<Rightarrow> 'r \<Rightarrow> 'r"
  assumes close_closes: "closing a \<Longrightarrow> is_open r \<Longrightarrow> \<not> is_open (decide_row a r)"
    and close_key: "key (decide_row a r) = key r"
begin

lemma claim_keeps_keys:
  "claim (\<lambda>r. key r = k \<and> is_open r) (decide_row a) rows = Some rows' \<Longrightarrow> map key rows' = map key rows"
  by (auto simp: claim_Some_iff intro: map_update_rows close_key)

lemma claim_leaves_closed:
  assumes "closing a" and "claim (\<lambda>r. key r = k \<and> is_open r) (decide_row a) rows = Some rows'"
    and "r \<in> set rows'" and "key r = k"
  shows "\<not> is_open r"
proof -
  obtain x where "x \<in> set rows" and x: "r = (if key x = k \<and> is_open x then decide_row a x else x)"
    using claim_origin [OF assms(2,3)] by blast
  show ?thesis
    using x assms(4) close_closes [OF assms(1), of x] by (cases "key x = k \<and> is_open x") auto
qed

lemma second_claim_fails:
  assumes "closing a" and "claim (\<lambda>r. key r = k \<and> is_open r) (decide_row a) rows = Some rows'"
  shows "claim (\<lambda>r. key r = k \<and> is_open r) g rows' = None"
proof -
  have "count_rows (\<lambda>r. key r = k \<and> is_open r) rows' = 0"
    unfolding count_rows_0_iff using claim_leaves_closed [OF assms] by blast
  then show ?thesis by (simp add: claim_def)
qed

lemma claim_opens_nothing:
  assumes "closing a" and "claim (\<lambda>r. key r = k \<and> is_open r) (decide_row a) rows = Some rows'"
    and "r \<in> set rows'" and "is_open r"
  shows "r \<in> set rows \<and> key r \<noteq> k"
proof -
  obtain x where "x \<in> set rows" and x: "r = (if key x = k \<and> is_open x then decide_row a x else x)"
    using claim_origin [OF assms(2,3)] by blast
  with assms(4) close_closes [OF assms(1), of x] show ?thesis by (cases "key x = k \<and> is_open x") auto
qed

lemma claim_frame:
  assumes "claim (\<lambda>r. key r = k \<and> is_open r) (decide_row a) rows = Some rows'"
    and "r \<in> set rows" and "key r \<noteq> k"
  shows "r \<in> set rows'"
  using assms by (force simp: claim_Some_iff set_update_rows)

end

end
