(* ===== verification/Js_Dates.thy ===== *)
theory Js_Dates
  imports Js_Runtime
begin

text \<open>
  Reading back what the program prints: \<open>Date.parse\<close> of a date that \<open>toISOString\<close> wrote gives the instant
  again, for the years 0 to 9999, and \<open>Number\<close> of a decimal numeral. The components that keep an
  instant in a JSON setting (alert cool-downs, reminders) rely on the first.
\<close>

section \<open>The calendar\<close>

lemma doe_split:
  fixes doe :: int
  assumes "0 \<le> doe" "doe < 146097"
  defines "c \<equiv> min 3 (doe div 36524)"
  defines "r \<equiv> doe - 36524 * c"
  defines "q \<equiv> min 24 (r div 1461)"
  defines "t \<equiv> r - 1461 * q"
  defines "n \<equiv> min 3 (t div 365)"
  shows "0 \<le> c" "c \<le> 3" "0 \<le> q" "q \<le> 24" "0 \<le> n" "n \<le> 3" "0 \<le> t - 365 * n" "t - 365 * n \<le> 365"
proof -
  show c: "0 \<le> c" "c \<le> 3" using assms(1) by (auto simp: c_def)
  have "36524 * (doe div 36524) \<le> doe" "doe < 36524 * (doe div 36524) + 36524" by auto
  with assms(1,2) have r: "0 \<le> r" "r \<le> 36524" by (auto simp: r_def c_def)
  then show q: "0 \<le> q" "q \<le> 24" by (auto simp: q_def)
  have "1461 * (r div 1461) \<le> r" "r < 1461 * (r div 1461) + 1461" by auto
  with r have t: "0 \<le> t" "t \<le> 1460" by (auto simp: t_def q_def)
  then show n: "0 \<le> n" "n \<le> 3" by (auto simp: n_def)
  have "365 * (t div 365) \<le> t" "t < 365 * (t div 365) + 365" by auto
  with t show "0 \<le> t - 365 * n" "t - 365 * n \<le> 365" by (auto simp: n_def)
qed

lemma days_from_civil_from_days:
  "(case civil_from_days z of (y, m, d) \<Rightarrow> days_from_civil y m d) = z"
proof -
  define era doe where "era = (z + 719468) div 146097" and "doe = (z + 719468) mod 146097"
  have z: "z = era * 146097 + doe - 719468" by (simp add: era_def doe_def)
  have doe: "0 \<le> doe" "doe < 146097" by (simp_all add: doe_def)
  define c where "c = min 3 (doe div 36524)"
  define q where "q = min 24 ((doe - 36524 * c) div 1461)"
  define n where "n = min 3 ((doe - 36524 * c - 1461 * q) div 365)"
  define doy where "doy = doe - 36524 * c - 1461 * q - 365 * n"
  define mp where "mp = (5 * doy + 2) div 153"
  define yoe where "yoe = 100 * c + 4 * q + n"
  note b = doe_split [OF doe, folded c_def, folded q_def, folded n_def, folded doy_def]
  have yoe: "0 \<le> yoe" "yoe < 400" "yoe div 4 = 25 * c + q" "yoe div 100 = c"
    using b by (auto simp: yoe_def)
  have mp: "0 \<le> mp" "mp \<le> 11" using b by (auto simp: mp_def)
  have civil: "civil_from_days z =
     (if mp < 10 then yoe + era * 400 else yoe + era * 400 + 1, if mp < 10 then mp + 3 else mp - 9,
      doy - (153 * mp + 2) div 5 + 1)"
    unfolding civil_from_days_def Let_def era_def [symmetric] doe_def [symmetric] c_def [symmetric]
      q_def [symmetric] n_def [symmetric] doy_def [symmetric] mp_def [symmetric] yoe_def [symmetric]
    using mp by auto
  have "yoe * 365 + yoe div 4 - yoe div 100 + doy = doe"
    unfolding yoe(3,4) by (simp add: yoe_def doy_def)
  with mp yoe(1,2) have "(case civil_from_days z of (y, m, d) \<Rightarrow> days_from_civil y m d) =
      era * 146097 + doe - 719468"
    unfolding civil prod.case by (auto simp: days_from_civil_def Let_def)
  with z show ?thesis by simp
qed

section \<open>Numerals\<close>

text \<open>The value of a string of decimal digits.\<close>

definition digits_value :: "string \<Rightarrow> nat" where
  "digits_value ds = foldl (\<lambda>a c. 10 * a + (of_char c - 48)) 0 ds"

text \<open>\<open>Number\<close> of a string in plain decimal notation, as mantissa and number of decimals; the empty
  string is zero, anything else \<open>NaN\<close>. Exponents, hexadecimal and \<open>Infinity\<close> are not read.\<close>

definition js_number :: "string \<Rightarrow> (int \<times> nat) option" where
  "js_number s =
     (let t = trim s;
          neg = startsWith t ''-'';
          u = (if neg \<or> startsWith t ''+'' then tl t else t);
          parts = split_on (\<lambda>c. c = CHR ''.'') u;
          sign = (\<lambda>n. if neg then - int n else int n)
      in if t = [] then Some (0, 0)
         else (case parts of
             [w] \<Rightarrow> if w \<noteq> [] \<and> list_all is_digit w then Some (sign (digits_value w), 0) else None
           | [w, f] \<Rightarrow>
               if w @ f \<noteq> [] \<and> list_all is_digit (w @ f)
               then Some (sign (digits_value (w @ f)), length f) else None
           | _ \<Rightarrow> None))"

text \<open>\<open>Date.parse\<close> on the format that \<open>toISOString\<close> writes; any other text reads as \<open>NaN\<close>.\<close>

definition date_parse :: "string \<Rightarrow> time option" where
  "date_parse s =
     (let part = (\<lambda>i n. take n (drop i s));
          num = (\<lambda>i n. int (digits_value (part i n)))
      in if length s = 24 \<and> part 4 1 = ''-'' \<and> part 7 1 = ''-'' \<and> part 10 1 = ''T'' \<and>
            part 13 1 = '':'' \<and> part 16 1 = '':'' \<and> part 19 1 = ''.'' \<and> part 23 1 = ''Z'' \<and>
            list_all is_digit (part 0 4 @ part 5 2 @ part 8 2 @ part 11 2 @ part 14 2 @ part 17 2 @ part 20 3)
         then Some (days_from_civil (num 0 4) (num 5 2) (num 8 2) * day_ms + num 11 2 * 3600000 +
                    num 14 2 * 60000 + num 17 2 * 1000 + num 20 3)
         else None)"

lemma digit_char:
  "d < 10 \<Longrightarrow> of_char (char_of (48 + d) :: char) = (48 + d :: nat)"
  by (simp add: of_char_of)

lemma digits_value_append_digit:
  "d < 10 \<Longrightarrow> digits_value (ds @ [char_of (48 + d)]) = 10 * digits_value ds + d"
  by (simp add: digits_value_def digit_char)

lemma digits_value_string_of_nat [simp]: "digits_value (string_of_nat n) = n"
proof (induction n rule: string_of_nat.induct)
  case (1 n)
  show ?case
  proof (cases "n < 10")
    case True
    then show ?thesis
      using digits_value_append_digit [of n "[]"] by (subst string_of_nat.simps) (simp add: digits_value_def)
  next
    case False
    then show ?thesis
      using 1 by (subst string_of_nat.simps) (simp add: digits_value_append_digit)
  qed
qed

lemma is_digit_char_of: "d < 10 \<Longrightarrow> is_digit (char_of (48 + d :: nat))"
  by (simp add: is_digit_def less_eq_char_def of_char_of)

lemma list_all_digits_string_of_nat [simp]: "list_all is_digit (string_of_nat n)"
proof (induction n rule: string_of_nat.induct)
  case (1 n)
  then show ?case
    by (subst string_of_nat.simps) (simp add: is_digit_char_of)
qed

lemma length_string_of_nat: "n < 10 ^ k \<Longrightarrow> 0 < k \<Longrightarrow> length (string_of_nat n) \<le> k"
proof (induction k arbitrary: n)
  case 0
  then show ?case by simp
next
  case (Suc k)
  show ?case
  proof (cases "n < 10")
    case True
    then show ?thesis by (subst string_of_nat.simps) simp
  next
    case False
    with Suc.prems have k: "n div 10 < 10 ^ k" "0 < k" by (auto intro: Nat.gr0I)
    with Suc.IH [OF k] False show ?thesis by (subst string_of_nat.simps) simp
  qed
qed

lemma digits_value_zeros: "digits_value (replicate n CHR ''0'' @ ds) = digits_value ds"
  by (induction n) (simp_all add: digits_value_def)

lemma padded_digits:
  assumes "0 \<le> i" "i < 10 ^ k" "0 < k"
  defines "w \<equiv> padStart k CHR ''0'' (string_of_int i)"
  shows "length w = k" "list_all is_digit w" "int (digits_value w) = i"
proof -
  have "nat i < 10 ^ k" using assms(1,2) by (simp add: nat_less_iff)
  note len = length_string_of_nat [OF this assms(3)]
  have zero: "is_digit CHR ''0''" by (simp add: is_digit_def)
  have digits: "is_digit c" if "c \<in> set (string_of_nat n)" for c n
    using that list_all_digits_string_of_nat [of n] by (simp add: list_all_iff)
  show "length w = k" "list_all is_digit w" "int (digits_value w) = i"
    using assms(1) len zero
    by (auto simp: w_def padStart_def string_of_int_def digits_value_zeros list_all_iff dest: digits)
qed

lemma civil_bounds:
  assumes "civil_from_days z = (y, m, d)"
  shows "1 \<le> m" "m \<le> 12" "1 \<le> d" "d \<le> 31"
proof -
  define doe where "doe = (z + 719468) mod 146097"
  have doe: "0 \<le> doe" "doe < 146097" by (simp_all add: doe_def)
  define c where "c = min 3 (doe div 36524)"
  define q where "q = min 24 ((doe - 36524 * c) div 1461)"
  define n where "n = min 3 ((doe - 36524 * c - 1461 * q) div 365)"
  define doy where "doy = doe - 36524 * c - 1461 * q - 365 * n"
  define mp where "mp = (5 * doy + 2) div 153"
  note b = doe_split [OF doe, folded c_def, folded q_def, folded n_def, folded doy_def]
  have md: "m = (if mp < 10 then mp + 3 else mp - 9)" "d = doy - (153 * mp + 2) div 5 + 1"
    using assms unfolding civil_from_days_def Let_def doe_def [symmetric] c_def [symmetric]
      q_def [symmetric] n_def [symmetric] doy_def [symmetric] mp_def [symmetric] by auto
  have mp: "0 \<le> mp" "mp \<le> 11" "153 * mp \<le> 5 * doy + 2" "5 * doy + 2 < 153 * mp + 153"
    using b by (auto simp: mp_def)
  then show "1 \<le> m" "m \<le> 12" "1 \<le> d" "d \<le> 31"
    by (auto simp: md)
qed

lemma date_parse_layout:
  assumes "length y = 4" "length mo = 2" "length d = 2" "length h = 2" "length mi = 2"
    "length sec = 2" "length ms = 3"
    and "list_all is_digit y" "list_all is_digit mo" "list_all is_digit d" "list_all is_digit h"
    "list_all is_digit mi" "list_all is_digit sec" "list_all is_digit ms"
  shows "date_parse (y @ ''-'' @ mo @ ''-'' @ d @ ''T'' @ h @ '':'' @ mi @ '':'' @ sec @ ''.'' @ ms @ ''Z'') =
     Some (days_from_civil (int (digits_value y)) (int (digits_value mo)) (int (digits_value d)) * day_ms +
       int (digits_value h) * 3600000 + int (digits_value mi) * 60000 + int (digits_value sec) * 1000 +
       int (digits_value ms))"
  using assms by (simp add: date_parse_def Let_def)

lemma date_parse_toISOString:
  assumes "civil_from_days (t div day_ms) = (y, m, d)" and "0 \<le> y" and "y \<le> 9999"
  shows "date_parse (toISOString t) = Some t"
proof -
  let ?ms = "t mod day_ms"
  have ms: "0 \<le> ?ms" "?ms < 86400000" by (simp_all add: day_ms_def)
  have p2: "length (pad2 i) = 2" "list_all is_digit (pad2 i)" "int (digits_value (pad2 i)) = i"
    if "0 \<le> i" "i < 100" for i
    unfolding pad2_def using padded_digits [of i 2] that by simp_all
  have p4: "length (padStart 4 CHR ''0'' (string_of_int y)) = 4"
    "list_all is_digit (padStart 4 CHR ''0'' (string_of_int y))"
    "int (digits_value (padStart 4 CHR ''0'' (string_of_int y))) = y"
    using padded_digits [of y 4] assms(2,3) by simp_all
  have p3: "length (padStart 3 CHR ''0'' (string_of_int (?ms mod 1000))) = 3"
    "list_all is_digit (padStart 3 CHR ''0'' (string_of_int (?ms mod 1000)))"
    "int (digits_value (padStart 3 CHR ''0'' (string_of_int (?ms mod 1000)))) = ?ms mod 1000"
    using padded_digits [of "?ms mod 1000" 3] by simp_all
  have b: "0 \<le> m" "m < 100" "0 \<le> d" "d < 100" "0 \<le> ?ms div 3600000" "?ms div 3600000 < 100"
    "0 \<le> ?ms div 60000 mod 60" "?ms div 60000 mod 60 < 100" "0 \<le> ?ms div 1000 mod 60"
    "?ms div 1000 mod 60 < 100"
    using civil_bounds [OF assms(1)] ms by auto
  have parts: "x div 3600000 * 3600000 + x div 60000 mod 60 * 60000 + x div 1000 mod 60 * 1000 +
      x mod 1000 = x" for x :: int
  proof -
    have e: "x div 60000 = x div 1000 div 60" "x div 3600000 = x div 1000 div 60 div 60"
      by (simp_all add: zdiv_zmult2_eq [symmetric])
    have "x div 1000 * 1000 + x mod 1000 = x" "x div 1000 div 60 * 60 + x div 1000 mod 60 = x div 1000"
      "x div 1000 div 60 div 60 * 60 + x div 1000 div 60 mod 60 = x div 1000 div 60"
      by simp_all
    then show ?thesis unfolding e by linarith
  qed
  have "days_from_civil y m d * day_ms + ?ms = t"
    using days_from_civil_from_days [of "t div day_ms"] assms(1) by simp
  with parts [of ?ms] show ?thesis
    by (simp only: toISOString_def assms(1) Let_def case_prod_conv)
      (subst date_parse_layout, simp_all only: p2 p3 p4 b, simp)
qed

end
