(* ===== verification/Schema.thy ===== *)
theory Schema
  imports Js_Dates
begin

text \<open>
  The persistent state of the portal, after \<^verbatim>\<open>apps/api/prisma/schema.prisma\<close>: one record per table,
  with the columns that the modelled code reads or writes, and the database as the record of its
  tables. A nullable column is an option; a string column that only takes listed values is a
  datatype. What a handler takes from its surroundings (the clock, generated identifiers, digests)
  is the record \<open>env\<close>; the request with the identity attached to it is \<open>request\<close>.
\<close>

section \<open>Spaces, categories, groups and rules\<close>

record space_row =
  sp_id :: string
  sp_slug :: string
  sp_nameFr :: string
  sp_ownerGroupId :: "string option"
  sp_deletedAt :: "time option"

record category_row =
  cat_id :: string
  cat_slug :: string
  cat_spaceId :: string
  cat_parentId :: "string option"
  cat_deletedAt :: "time option"

record group_row =
  grp_id :: string
  grp_name :: string
  grp_active :: bool

record rule_row =
  ar_id :: string
  ar_groupId :: string
  ar_spaceId :: string
  ar_categoryId :: "string option"
  ar_showMenu :: bool
  ar_read :: bool
  ar_search :: bool
  ar_preview :: bool
  ar_download :: bool
  ar_upload :: bool
  ar_edit :: bool
  ar_publish :: bool
  ar_archive :: bool
  ar_validFrom :: "time option"
  ar_validUntil :: "time option"
  ar_lifetime :: bool
  ar_lastCertifiedAt :: "time option"
  ar_lastCertifiedBy :: "string option"
  ar_certificationDueAt :: "time option"
  ar_justification :: "string option"

record grant_row =
  tg_id :: string
  tg_requestId :: string
  tg_groupId :: string
  tg_spaceId :: string
  tg_validUntil :: time
  tg_createdBy :: string

section \<open>Documents\<close>

datatype doc_status = DRAFT | PUBLISHED | ARCHIVED | QUARANTINED

datatype watermark_position = HEADER | CENTER | FOOTER

record document_row =
  doc_id :: string
  doc_slug :: string
  doc_spaceId :: string
  doc_categoryId :: "string option"
  doc_status :: doc_status
  doc_sensitive :: bool
  doc_metadata :: json
  doc_publishedAt :: "time option"
  doc_lockedBy :: "string option"
  doc_lockedAt :: "time option"
  doc_lockExpiresAt :: "time option"
  doc_destroyedAt :: "time option"
  doc_deletedAt :: "time option"
  doc_viewCount :: int
  doc_downloadCount :: int
  doc_externalUrl :: "string option"
  doc_suppressEmails :: bool
  doc_watermarkPosition :: watermark_position
  doc_thumbnail :: "string option"

record translation_row =
  tr_documentId :: string
  tr_locale :: string
  tr_title :: string

record version_row =
  ver_id :: string
  ver_documentId :: string
  ver_locale :: string
  ver_version :: int
  ver_storedFileId :: string
  ver_distributedStoredFileId :: "string option"
  ver_createdAt :: time
  ver_annualReviewDueAt :: "time option"
  ver_annualReviewNotifiedAt :: "time option"
  ver_annualReviewReminderAt :: "time option"
  ver_annualReviewOverdueAt :: "time option"
  ver_changeSummary :: "string option"
  ver_changeDetails :: "json option"
  ver_versionMajor :: int
  ver_versionMinor :: int

datatype scan_status = ScanPending | ScanClean | ScanInfected | ScanError

record scan_row =
  sc_storedFileId :: string
  sc_status :: scan_status
  sc_scannedAt :: time

record file_row =
  sf_id :: string
  sf_objectKey :: string
  sf_originalName :: string
  sf_mimeType :: string
  sf_size :: int
  sf_sha256 :: string
  sf_purgedAt :: "time option"
  sf_createdAt :: time

datatype content_status = CoPending | CoProcessing | CoDone | CoSkipped | CoFailed

record content_row =
  vc_versionId :: string
  vc_status :: content_status
  vc_text :: "string option"
  vc_ocr :: bool
  vc_attempts :: int
  vc_error :: "string option"
  vc_extractedAt :: "time option"
  vc_createdAt :: time
  vc_updatedAt :: time

record link_row =
  ln_id :: string
  ln_sourceId :: string
  ln_targetId :: string
  ln_type :: string
  ln_createdBy :: string
  ln_createdAt :: time

record comment_row =
  cm_id :: string
  cm_documentId :: string
  cm_versionId :: "string option"
  cm_page :: "int option"
  cm_author :: string
  cm_body :: string
  cm_createdAt :: time
  cm_deletedAt :: "time option"

record filestamp_row =
  ft_storedFileId :: string
  ft_sha256 :: string
  ft_token :: string
  ft_genTime :: "time option"
  ft_tsaUrl :: string

record activity_row =
  ua_identity :: string
  ua_documentId :: string
  ua_action :: string
  ua_occurredAt :: time

text \<open>A person and a document: the rows of the follows and of the favourites.\<close>

record subscription_row =
  sub_identity :: string
  sub_documentId :: string

record doctype_row =
  dt_id :: string
  dt_slug :: string
  dt_nameFr :: string
  dt_nameEn :: string
  dt_requiredFields :: "string list"
  dt_referencePrefix :: "string option"
  dt_nextNumber :: int
  dt_deletedAt :: "time option"

section \<open>Workflows\<close>

datatype review_status = RvPending | RvInReview | RvApproved | RvRejected | RvCancelled

record review_row =
  rv_id :: string
  rv_documentId :: string
  rv_versionId :: "string option"
  rv_owner :: string
  rv_reviewer :: string
  rv_approver :: string
  rv_status :: review_status
  rv_dueAt :: time
  rv_decisionComment :: "string option"
  rv_decidedBy :: "string option"
  rv_decidedAt :: "time option"
  rv_automaticAnnual :: bool
  rv_automaticPublication :: bool
  rv_createdAt :: time
  rv_evidenceObjectKey :: "string option"
  rv_evidenceOriginalName :: "string option"
  rv_evidenceMimeType :: "string option"
  rv_evidenceSize :: "int option"
  rv_evidenceSha256 :: "string option"

datatype approval_status = ApPending | ApApproved | ApRejected | ApExecuted

record approval_row =
  ap_id :: string
  ap_operation :: string
  ap_targetType :: string
  ap_targetId :: string
  ap_requestedBy :: string
  ap_reason :: string
  ap_status :: approval_status
  ap_approvedBy :: "string option"
  ap_approvedAt :: "time option"
  ap_createdAt :: time

datatype destruction_status =
  DsNone | DsDue | DsRequested | DsApproved | DsRejected | DsDestroying | DsDestroyed

record retention_row =
  rp_id :: string
  rp_documentId :: string
  rp_retentionUntil :: "time option"
  rp_legalHold :: bool
  rp_reason :: string
  rp_status :: destruction_status
  rp_requestedBy :: "string option"
  rp_requestedAt :: "time option"
  rp_approvedBy :: "string option"
  rp_approvedAt :: "time option"
  rp_destroyedAt :: "time option"
  rp_updatedAt :: time

datatype signature_status = SrOpen | SrCompleted | SrDeclined | SrCancelled

record signature_row =
  sr_id :: string
  sr_documentId :: string
  sr_versionId :: string
  sr_requestedBy :: string
  sr_message :: "string option"
  sr_status :: signature_status
  sr_createdAt :: time
  sr_completedAt :: "time option"

datatype entry_status = SePending | SeSigned | SeDeclined

record entry_row =
  se_id :: string
  se_requestId :: string
  se_signer :: string
  se_position :: nat
  se_status :: entry_status
  se_decidedAt :: "time option"
  se_comment :: "string option"
  se_ipAddress :: "string option"
  se_evidenceHash :: "string option"
  se_token :: "string option"
  se_genTime :: "time option"

record sharelink_row =
  sl_id :: string
  sl_documentId :: string
  sl_versionId :: string
  sl_tokenHash :: string
  sl_createdBy :: string
  sl_createdAt :: time
  sl_expiresAt :: time
  sl_maxDownloads :: "int option"
  sl_downloadCount :: int
  sl_lastAccessAt :: "time option"
  sl_revokedAt :: "time option"

record depositor_row =
  sd_id :: string
  sd_identity :: string
  sd_displayName :: "string option"
  sd_addedBy :: string
  sd_createdAt :: time
  sd_revokedAt :: "time option"

record share_row =
  ss_id :: string
  ss_documentId :: string
  ss_recipient :: string
  ss_createdBy :: string
  ss_createdAt :: time
  ss_expiresAt :: "time option"
  ss_revokedAt :: "time option"
  ss_reminderSentAt :: "time option"

section \<open>Audit, notifications, settings\<close>

datatype audit_result = Success | Failure | Denied

record audit_row =
  ae_id :: string
  ae_occurredAt :: time
  ae_identity :: string
  ae_ipAddress :: string
  ae_action :: string
  ae_resource :: string
  ae_result :: audit_result
  ae_correlationId :: string
  ae_details :: "json option"
  ae_chainIndex :: "int option"
  ae_prevHash :: "string option"
  ae_chainHash :: "string option"

record seal_row =
  au_id :: string
  au_lastChainIndex :: int
  au_chainHash :: string
  au_eventCount :: int
  au_token :: "string option"
  au_genTime :: "time option"
  au_tsaUrl :: "string option"
  au_createdAt :: time

record job =
  jb_action :: string
  jb_resource :: string
  jb_actor :: string
  jb_at :: string

record outbox_row =
  ob_id :: string
  ob_payload :: job
  ob_nextAttemptAt :: time
  ob_queuedAt :: "time option"
  ob_attempts :: nat

record notice_row =
  un_identity :: string
  un_title :: string
  un_message :: string
  un_resourceType :: "string option"
  un_resourceId :: "string option"
  un_mandatory :: bool

record setting_row =
  st_key :: string
  st_value :: json

section \<open>Accounts and sessions\<close>

datatype account_source = LOCAL | DIRECTORY

datatype account_role = ADMIN | MODERATOR

record account_row =
  ac_id :: string
  ac_username :: string
  ac_displayName :: string
  ac_source :: account_source
  ac_passwordHash :: "string option"
  ac_profilePhoto :: "string option"
  ac_mfaSecret :: "string option"
  ac_mfaEnabled :: bool
  ac_active :: bool
  ac_primary :: bool
  ac_role :: account_role
  ac_canManageDocuments :: bool
  ac_canPublishDocuments :: bool
  ac_canDeleteDocuments :: bool
  ac_justification :: "string option"
  ac_validFrom :: "time option"
  ac_validUntil :: "time option"
  ac_lastAuthorizedAt :: "time option"
  ac_lastReviewedAt :: "time option"
  ac_reviewDueAt :: "time option"
  ac_failedLoginCount :: int
  ac_lockedUntil :: "time option"

record admingroup_row =
  ag_id :: string
  ag_name :: string
  ag_distinguishedName :: string
  ag_active :: bool
  ag_role :: account_role
  ag_canManageDocuments :: bool
  ag_canPublishDocuments :: bool
  ag_canDeleteDocuments :: bool
  ag_justification :: string
  ag_validFrom :: "time option"
  ag_validUntil :: "time option"
  ag_lastAuthorizedAt :: "time option"
  ag_lastReviewedAt :: "time option"
  ag_reviewDueAt :: "time option"

record adminsession_row =
  as_id :: string
  as_tokenHash :: string
  as_adminAccountId :: string
  as_expiresAt :: time
  as_lastUsedAt :: time
  as_sourceIp :: "string option"
  as_userAgent :: "string option"

record dirsession_row =
  ds_id :: string
  ds_tokenHash :: string
  ds_username :: string
  ds_displayName :: string
  ds_groups :: "string list"
  ds_directoryConnectionId :: string
  ds_expiresAt :: time
  ds_lastUsedAt :: time

record preference_row =
  up_identity :: string
  up_adminDisplayName :: "string option"
  up_adminProfilePhoto :: "string option"

section \<open>The database\<close>

record db =
  spaces :: "space_row list"
  categories :: "category_row list"
  groups :: "group_row list"
  rules :: "rule_row list"
  grants :: "grant_row list"
  documents :: "document_row list"
  titles :: "translation_row list"
  versions :: "version_row list"
  storedfiles :: "file_row list"
  filestamps :: "filestamp_row list"
  scans :: "scan_row list"
  contents :: "content_row list"
  links :: "link_row list"
  comments :: "comment_row list"
  subscriptions :: "subscription_row list"
  activities :: "activity_row list"
  favorites :: "subscription_row list"
  doctypes :: "doctype_row list"
  reviews :: "review_row list"
  approvals :: "approval_row list"
  retentions :: "retention_row list"
  signatures :: "signature_row list"
  entries :: "entry_row list"
  sharelinks :: "sharelink_row list"
  depositors :: "depositor_row list"
  shares :: "share_row list"
  audits :: "audit_row list"
  seals :: "seal_row list"
  outbox :: "outbox_row list"
  notices :: "notice_row list"
  settings :: "setting_row list"
  accounts :: "account_row list"
  admingroups :: "admingroup_row list"
  adminsessions :: "adminsession_row list"
  dirsessions :: "dirsession_row list"
  preferences :: "preference_row list"
  queue :: "(string \<times> job) list"
  alertlog :: "(string \<times> string \<times> string) list"
  removedobjects :: "string list"
  uuid_next :: nat

definition empty_db :: db where
  "empty_db = \<lparr>
     spaces = [], categories = [], groups = [], rules = [], grants = [], documents = [],
     titles = [], versions = [], storedfiles = [], filestamps = [], scans = [], contents = [], links = [],
     comments = [], subscriptions = [], activities = [], favorites = [], doctypes = [], reviews = [], approvals = [],
     retentions = [], signatures = [], entries = [], sharelinks = [], depositors = [],
     shares = [], audits = [], seals = [], outbox = [], notices = [], settings = [],
     accounts = [], admingroups = [], adminsessions = [], dirsessions = [], preferences = [],
     queue = [], alertlog = [], removedobjects = [], uuid_next = 0\<rparr>"

section \<open>Surroundings and requests\<close>

text \<open>\<open>uuid n\<close> is the \<open>n\<close>-th identifier that the database or the runtime generates; \<open>sha256\<close> is the
  hexadecimal digest of \<open>node:crypto\<close>. One clock reading serves a whole handler.
  \<open>queue_ok\<close> says whether the message queue accepts a job under an identifier, \<open>alert_ok\<close> whether a
  message sent over an alert channel is delivered; the calls made are kept in the fields \<open>queue\<close> and
  \<open>alertlog\<close> of the state, the keys removed from the object store in \<open>removedobjects\<close>.\<close>

record env =
  now :: time
  uuid :: "nat \<Rightarrow> string"
  sha256 :: "string \<Rightarrow> string"
  queue_ok :: "string \<Rightarrow> bool"
  alert_ok :: "string \<Rightarrow> bool"

datatype identity_source = TrustedProxy | DirectorySession | LocalAdmin | Anonymous | System

record identity =
  id_username :: string
  id_displayName :: string
  id_groups :: "string list"
  id_source :: identity_source
  id_sessionExpiresAt :: "time option"
  id_profilePhoto :: "string option"

record request =
  rq_identity :: identity
  rq_ip :: "string option"
  rq_correlationId :: string

abbreviation rq_username :: "request \<Rightarrow> string" where
  "rq_username req \<equiv> id_username (rq_identity req)"

abbreviation rq_groups :: "request \<Rightarrow> string list" where
  "rq_groups req \<equiv> id_groups (rq_identity req)"

text \<open>The next generated identifier.\<close>

definition fresh :: "env \<Rightarrow> db \<Rightarrow> string \<times> db" where
  "fresh E s = (uuid E (uuid_next s), s\<lparr>uuid_next := Suc (uuid_next s)\<rparr>)"

text \<open>Fields a handler does not write keep their value: the tables other than the counter.\<close>

lemma fresh_simps [simp]:
  "fst (fresh E s) = uuid E (uuid_next s)"
  "snd (fresh E s) = s\<lparr>uuid_next := Suc (uuid_next s)\<rparr>"
  by (simp_all add: fresh_def)

text \<open>The latest antivirus verdict of a stored file: \<open>scans\<close> ordered by \<open>scannedAt\<close>, newest first.\<close>

definition latest_scan :: "db \<Rightarrow> string \<Rightarrow> scan_status option" where
  "latest_scan s fid =
     map_option sc_status
       (find_first_by (\<lambda>r. - sc_scannedAt r) (\<lambda>r. sc_storedFileId r = fid) (scans s))"

definition find_file :: "db \<Rightarrow> string \<Rightarrow> file_row option" where
  "find_file s fid = find_first (\<lambda>f. sf_id f = fid) (storedfiles s)"

text \<open>The boolean columns of a rule, by the name of the permission.\<close>

datatype permission =
  ShowMenu | Read | Search | Preview | Download | Upload | Edit | Publish | Archive

instantiation permission :: enum
begin

definition "enum_permission = [ShowMenu, Read, Search, Preview, Download, Upload, Edit, Publish, Archive]"

definition "enum_all_permission P = list_all P [ShowMenu, Read, Search, Preview, Download, Upload, Edit, Publish, Archive]"

definition "enum_ex_permission P = list_ex P [ShowMenu, Read, Search, Preview, Download, Upload, Edit, Publish, Archive]"

instance
proof
  show "UNIV = set (Enum.enum :: permission list)"
    by (auto simp: enum_permission_def intro: permission.exhaust)
  show "distinct (Enum.enum :: permission list)"
    by (simp add: enum_permission_def)
  fix P :: "permission \<Rightarrow> bool"
  show "Enum.enum_all P \<longleftrightarrow> Ball UNIV P"
    by (auto simp: enum_all_permission_def) (metis permission.exhaust)
  show "Enum.enum_ex P \<longleftrightarrow> Bex UNIV P"
    by (auto simp: enum_ex_permission_def) (metis permission.exhaust)
qed

end

fun rule_perm :: "rule_row \<Rightarrow> permission \<Rightarrow> bool" where
  "rule_perm r ShowMenu = ar_showMenu r"
| "rule_perm r Read = ar_read r"
| "rule_perm r Search = ar_search r"
| "rule_perm r Preview = ar_preview r"
| "rule_perm r Download = ar_download r"
| "rule_perm r Upload = ar_upload r"
| "rule_perm r Edit = ar_edit r"
| "rule_perm r Publish = ar_publish r"
| "rule_perm r Archive = ar_archive r"

end
