(* ===== verification/Samples.thy ===== *)
theory Samples
  imports Schema
begin

text \<open>
  A small portal, used by the witnesses: one space \<open>s1\<close> with a root category \<open>c1\<close> and a child \<open>c2\<close>,
  a directory group whose rule lets its members read and edit, a published document and a draft.
  Nothing here models code.
\<close>

definition sample_env :: env where
  "sample_env = \<lparr>now = 1000, uuid = (\<lambda>n. ''id'' @ string_of_nat n), sha256 = (\<lambda>t. t),
     queue_ok = (\<lambda>_. True), alert_ok = (\<lambda>_. True)\<rparr>"

definition sample_space :: space_row where
  "sample_space = \<lparr>sp_id = ''s1'', sp_slug = ''policies'', sp_nameFr = ''P'', sp_ownerGroupId = None, sp_deletedAt = None\<rparr>"

definition sample_category :: category_row where
  "sample_category = \<lparr>cat_id = ''c1'', cat_slug = ''top'', cat_spaceId = ''s1'', cat_parentId = None,
     cat_deletedAt = None\<rparr>"

definition sample_subcategory :: category_row where
  "sample_subcategory = \<lparr>cat_id = ''c2'', cat_slug = ''sub'', cat_spaceId = ''s1'',
     cat_parentId = Some ''c1'', cat_deletedAt = None\<rparr>"

definition sample_group :: group_row where
  "sample_group = \<lparr>grp_id = ''g1'', grp_name = ''Staff'', grp_active = True\<rparr>"

definition sample_rule :: rule_row where
  "sample_rule = \<lparr>ar_id = ''r1'', ar_groupId = ''g1'', ar_spaceId = ''s1'', ar_categoryId = None,
     ar_showMenu = True, ar_read = True, ar_search = True, ar_preview = True, ar_download = False,
     ar_upload = False, ar_edit = True, ar_publish = False, ar_archive = False,
     ar_validFrom = None, ar_validUntil = Some 5000, ar_lifetime = False, ar_lastCertifiedAt = None,
     ar_lastCertifiedBy = None, ar_certificationDueAt = None, ar_justification = None\<rparr>"

definition sample_document :: document_row where
  "sample_document = \<lparr>doc_id = ''d1'', doc_slug = ''policy'', doc_spaceId = ''s1'',
     doc_categoryId = None, doc_status = PUBLISHED, doc_sensitive = False, doc_metadata = JObj [],
     doc_publishedAt = None, doc_lockedBy = None, doc_lockedAt = None, doc_lockExpiresAt = None,
     doc_destroyedAt = None, doc_deletedAt = None, doc_viewCount = 0, doc_downloadCount = 0,
     doc_externalUrl = None, doc_suppressEmails = False, doc_watermarkPosition = CENTER, doc_thumbnail = None\<rparr>"

definition sample_version :: version_row where
  "sample_version = \<lparr>ver_id = ''v1'', ver_documentId = ''d1'', ver_locale = ''fr'', ver_version = 1,
     ver_storedFileId = ''f1'', ver_distributedStoredFileId = None, ver_createdAt = 10,
     ver_annualReviewDueAt = None, ver_annualReviewNotifiedAt = None,
     ver_annualReviewReminderAt = None, ver_annualReviewOverdueAt = None,
     ver_changeSummary = None, ver_changeDetails = None, ver_versionMajor = 0, ver_versionMinor = 1\<rparr>"

definition sample_file :: file_row where
  "sample_file = \<lparr>sf_id = ''f1'', sf_objectKey = ''k1'', sf_originalName = ''policy.pdf'', sf_mimeType = ''application/pdf'', sf_size = 10,
     sf_sha256 = ''ab'', sf_purgedAt = None, sf_createdAt = 10\<rparr>"

definition sample_scan :: scan_row where
  "sample_scan = \<lparr>sc_storedFileId = ''f1'', sc_status = ScanClean, sc_scannedAt = 11\<rparr>"

definition sample_db :: db where
  "sample_db = empty_db\<lparr>spaces := [sample_space], categories := [sample_category, sample_subcategory],
     groups := [sample_group], rules := [sample_rule], documents := [sample_document],
     versions := [sample_version], storedfiles := [sample_file], scans := [sample_scan]\<rparr>"

definition sample_identity :: "string \<Rightarrow> string list \<Rightarrow> identity" where
  "sample_identity name gs = \<lparr>id_username = name, id_displayName = name, id_groups = gs,
     id_source = DirectorySession, id_sessionExpiresAt = None, id_profilePhoto = None\<rparr>"

definition sample_request :: "string \<Rightarrow> string list \<Rightarrow> request" where
  "sample_request name gs =
     \<lparr>rq_identity = sample_identity name gs, rq_ip = None, rq_correlationId = ''c''\<rparr>"

lemmas sample_defs = sample_env_def sample_space_def sample_category_def sample_subcategory_def
  sample_group_def sample_rule_def sample_document_def sample_version_def sample_file_def
  sample_scan_def sample_db_def sample_identity_def sample_request_def empty_db_def

end
