(* ===== verification/Alerts.thy ===== *)
theory Alerts
  imports Samples
begin

text \<open>
  Operational alerts: the settings table, the alert policy and its two evaluations
  (\<^verbatim>\<open>apps/api/src/alert-delivery.service.ts\<close>, from \<open>documentAlertPolicy\<close> on), the health snapshot
  and its incidents (\<^verbatim>\<open>health-alerts.ts\<close>) and the health test of the worker (\<^verbatim>\<open>worker-health.ts\<close>).
  Delivering a message is outside the program: \<open>alert_ok\<close> of the surroundings says whether it works.
\<close>

section \<open>Settings\<close>

definition get_setting :: "db \<Rightarrow> string \<Rightarrow> json option" where
  "get_setting s k = map_option st_value (find_first (\<lambda>r. st_key r = k) (settings s))"

text \<open>\<open>applicationSetting.upsert\<close>.\<close>

definition put_setting :: "db \<Rightarrow> string \<Rightarrow> json \<Rightarrow> db" where
  "put_setting s k v =
     (if \<exists>r\<in>set (settings s). st_key r = k
      then s\<lparr>settings := update_rows (\<lambda>r. st_key r = k) (\<lambda>r. r\<lparr>st_value := v\<rparr>) (settings s)\<rparr>
      else s\<lparr>settings := settings s @ [\<lparr>st_key = k, st_value = v\<rparr>]\<rparr>)"

lemma find_first_append_None:
  "find_first p xs = None \<Longrightarrow> find_first p (xs @ ys) = find_first p ys"
  by (induction xs) (auto split: if_splits)

lemma find_first_update_rows:
  "(\<And>r. q (f r) = q r) \<Longrightarrow>
     find_first q (update_rows p f rows) = map_option (\<lambda>r. if p r then f r else r) (find_first q rows)"
  by (induction rows) auto

lemma get_put_setting [simp]: "get_setting (put_setting s k v) k = Some v"
proof (cases "\<exists>r\<in>set (settings s). st_key r = k")
  case True
  then obtain r where r: "find_first (\<lambda>r. st_key r = k) (settings s) = Some r"
    by (cases "find_first (\<lambda>r. st_key r = k) (settings s)") (auto simp: find_first_None_iff)
  then have "st_key r = k" by (auto dest: find_first_Some)
  with r True show ?thesis
    by (simp add: get_setting_def put_setting_def find_first_update_rows)
next
  case False
  then have "find_first (\<lambda>r. st_key r = k) (settings s) = None" by (auto simp: find_first_None_iff)
  with False show ?thesis
    by (simp add: get_setting_def put_setting_def find_first_append_None)
qed

lemma find_first_append_other:
  "\<not> p x \<Longrightarrow> find_first p (xs @ [x]) = find_first p xs"
  by (induction xs) auto

lemma get_put_setting_other [simp]:
  assumes "k' \<noteq> k"
  shows "get_setting (put_setting s k v) k' = get_setting s k'"
proof -
  have "map_option (\<lambda>r. if st_key r = k then r\<lparr>st_value := v\<rparr> else r)
      (find_first (\<lambda>r. st_key r = k') (settings s)) = find_first (\<lambda>r. st_key r = k') (settings s)"
    using assms by (cases "find_first (\<lambda>r. st_key r = k') (settings s)") (auto dest: find_first_Some)
  then show ?thesis
    using assms by (simp add: get_setting_def put_setting_def find_first_update_rows find_first_append_other)
qed

section \<open>Truth and numbers of settings\<close>

fun json_truthy :: "json option \<Rightarrow> bool" where
  "json_truthy (Some (JBool b)) = b"
| "json_truthy (Some (JNum n)) = (n \<noteq> 0)"
| "json_truthy (Some (JStr t)) = (t \<noteq> [])"
| "json_truthy (Some (JArr _)) = True"
| "json_truthy (Some (JObj _)) = True"
| "json_truthy _ = False"

text \<open>\<open>Number(value || fallback)\<close>.\<close>

fun json_number :: "json \<Rightarrow> (int \<times> nat) option" where
  "json_number (JNum n) = Some (n, 0)"
| "json_number (JStr t) = js_number t"
| "json_number (JBool b) = Some (if b then 1 else 0, 0)"
| "json_number JNull = Some (0, 0)"
| "json_number _ = None"

definition number_or :: "json option \<Rightarrow> int \<Rightarrow> (int \<times> nat) option" where
  "number_or v fallback = (if json_truthy v then json_number (the v) else Some (fallback, 0))"

text \<open>\<open>a / b \<ge> n\<close> for a numeral \<open>n\<close>, with \<open>b > 0\<close>; a comparison with \<open>NaN\<close> is false.\<close>

definition ratio_ge :: "int \<Rightarrow> int \<Rightarrow> (int \<times> nat) option \<Rightarrow> bool" where
  "ratio_ge a b n = (case n of None \<Rightarrow> False | Some (m, k) \<Rightarrow> m * b \<le> a * 10 ^ k)"

text \<open>\<open>Math.round\<close>.\<close>

definition round_number :: "int \<times> nat \<Rightarrow> int" where
  "round_number n = (case n of (m, k) \<Rightarrow> (2 * m + 10 ^ k) div (2 * 10 ^ k))"

section \<open>Policies\<close>

definition alert_policy_key :: string where
  "alert_policy_key = ''observability.alert-policy''"

record DocumentAlertPolicy =
  dp_enabled :: bool
  dp_documentAdded :: bool
  dp_documentUpdated :: bool
  dp_documentModified :: bool
  dp_documentDeleted :: bool
  dp_documentVersionOverdue :: bool
  dp_documentVersionMaxAgeDays :: int

definition documentAlertPolicy :: "db \<Rightarrow> DocumentAlertPolicy" where
  "documentAlertPolicy s =
     (let v = get_setting s alert_policy_key;
          policy = (if json_truthy v then the v else JObj []);
          flag = (\<lambda>k. json_truthy (json_get k policy))
      in \<lparr>dp_enabled = flag ''enabled'',
          dp_documentAdded = flag ''documentAdded'',
          dp_documentUpdated = flag ''documentUpdated'',
          dp_documentModified = flag ''documentModified'',
          dp_documentDeleted = flag ''documentDeleted'',
          dp_documentVersionOverdue = flag ''documentVersionOverdue'',
          dp_documentVersionMaxAgeDays =
            (case number_or (json_get ''documentVersionMaxAgeDays'' policy) 365 of
               None \<Rightarrow> 365
             | Some n \<Rightarrow> min 3650 (max 1 (round_number n)))\<rparr>)"

definition documentEventEnabled :: "db \<Rightarrow> string \<Rightarrow> bool" where
  "documentEventEnabled s action =
     (let policy = documentAlertPolicy s
      in if action = ''document.upload'' then dp_enabled policy \<and> dp_documentAdded policy
         else if action = ''document.version.upload'' then dp_enabled policy \<and> dp_documentUpdated policy
         else if action = ''document.metadata.update'' then dp_enabled policy \<and> dp_documentModified policy
         else if action = ''document.delete'' then dp_enabled policy \<and> dp_documentDeleted policy
         else True)"

definition alert_channels :: "string list" where
  "alert_channels = [''graph'', ''email'', ''teams'', ''teams-graph'', ''slack'', ''webhook'']"

text \<open>The channel of an enabled policy: the guard at the start of both evaluations.\<close>

definition policy_channel :: "json option \<Rightarrow> string option" where
  "policy_channel policy =
     (case policy of
        None \<Rightarrow> None
      | Some v \<Rightarrow>
          if \<not> json_truthy (json_get ''enabled'' v) then None
          else (case json_get ''channel'' v of
              Some (JStr c) \<Rightarrow> if c \<in> set alert_channels then Some c else None
            | _ \<Rightarrow> None))"

definition json_string_or :: "json option \<Rightarrow> string" where
  "json_string_or v = (case v of Some (JStr t) \<Rightarrow> t | _ \<Rightarrow> [])"

definition cooldown_ms :: int where
  "cooldown_ms = 15 * 60000"

text \<open>\<open>Number.isFinite(last) && Date.now() - last < 15 * 60000\<close>.\<close>

definition cooling :: "time \<Rightarrow> time option \<Rightarrow> bool" where
  "cooling t sent = some_and (\<lambda>l. t - l < cooldown_ms) sent"

section \<open>Alerts on refused and failed requests\<close>

definition alert_last_sent_key :: string where
  "alert_last_sent_key = ''observability.alert-last-sent''"

definition thresholdReached :: "env \<Rightarrow> db \<Rightarrow> json \<Rightarrow> bool" where
  "thresholdReached E s policy =
     (let recent = (\<lambda>p. int (count_rows (\<lambda>e. now E - 60000 \<le> ae_occurredAt e \<and> p e) (audits s)));
          total = recent (\<lambda>e. True);
          denied = recent (\<lambda>e. ae_result e = Denied);
          failed = recent (\<lambda>e. ae_result e = Failure)
      in ratio_ge denied 1 (number_or (json_get ''deniedPerMinute'' policy) 20) \<or>
         0 < total \<and> ratio_ge (failed * 100) total (number_or (json_get ''fiveXxPercent'' policy) 5))"

definition alert_message :: "env \<Rightarrow> db \<Rightarrow> string" where
  "alert_message E s =
     string_of_nat (count_rows (\<lambda>e. now E - 60000 \<le> ae_occurredAt e \<and> ae_result e = Failure) (audits s)) @
     '' failed requests and '' @
     string_of_nat (count_rows (\<lambda>e. now E - 60000 \<le> ae_occurredAt e \<and> ae_result e = Denied) (audits s)) @
     '' access denials recorded during the last minute.''"

definition last_alert :: "db \<Rightarrow> time option" where
  "last_alert s =
     date_parse (json_string_or (Option.bind (get_setting s alert_last_sent_key) (json_get ''at'')))"

text \<open>\<open>evaluate\<close>; a failed delivery raises, which the caller catches, so nothing is stored.\<close>

definition evaluate :: "env \<Rightarrow> db \<Rightarrow> audit_result \<Rightarrow> db" where
  "evaluate E s result =
     (if result = Success then s
      else (case policy_channel (get_setting s alert_policy_key) of
          None \<Rightarrow> s
        | Some channel \<Rightarrow>
            if \<not> thresholdReached E s (the (get_setting s alert_policy_key)) then s
            else if cooling (now E) (last_alert s) then s
            else (let s' = s\<lparr>alertlog := alertlog s @
                       [(channel, ''[ISMS Portal] Service alert'', alert_message E s)]\<rparr>
                  in if alert_ok E channel
                     then put_setting s' alert_last_sent_key
                       (JObj [(''at'', JDate (now E)), (''channel'', JStr channel)])
                     else s')))"

section \<open>Alerts on the health of the services\<close>

record HealthSnapshot =
  hs_services :: "(string \<times> bool) list"
  hs_disk :: "(int \<times> int) option"

text \<open>What the two probes answer: the readiness response (\<open>ok\<close>, the status of its body, its checks)
  and the sizes of the file system (available, total), or nothing when a probe fails.\<close>

record ready_response =
  rr_ok :: bool
  rr_status :: string
  rr_checks :: "string list"

definition collectHealthSnapshot :: "ready_response option \<Rightarrow> (int \<times> int) option \<Rightarrow> HealthSnapshot" where
  "collectHealthSnapshot ready disk =
     \<lparr>hs_services =
        [(''api'', some_and (\<lambda>r. rr_ok r \<and> rr_status r = ''ok'') ready)] @
        (case ready of
           None \<Rightarrow> []
         | Some r \<Rightarrow> map (\<lambda>name. (name, name \<in> set (rr_checks r)))
             [''postgres'', ''redis'', ''documentStorage'', ''clamav'']) @
        [(''storageMetrics'', some_and (\<lambda>(available, total). 0 < total) disk)],
      hs_disk = disk\<rparr>"

definition healthIncidents :: "HealthSnapshot \<Rightarrow> string list" where
  "healthIncidents snapshot =
     (let incidents = sort (map (\<lambda>(name, healthy). ''Service unavailable: '' @ name)
            (filter (\<lambda>(name, healthy). \<not> healthy) (hs_services snapshot)))
      in if some_and (\<lambda>(available, total). 0 < total \<and> 0 \<le> available) (hs_disk snapshot)
         then (if some_and (\<lambda>(available, total). available * 10 < total) (hs_disk snapshot)
               then incidents @ [''Document storage has less than 10% free space.''] else incidents)
         else if ''Service unavailable: storageMetrics'' \<notin> set incidents
         then incidents @ [''Document storage capacity could not be checked.'']
         else incidents)"

definition health_state_key :: string where
  "health_state_key = ''observability.health-alert-state''"

text \<open>\<open>evaluateHealth\<close>; the result says whether the delivery raised.\<close>

definition evaluateHealth :: "env \<Rightarrow> db \<Rightarrow> HealthSnapshot \<Rightarrow> db \<times> unit outcome" where
  "evaluateHealth E s snapshot =
     (case policy_channel (get_setting s alert_policy_key) of
        None \<Rightarrow> (s, Inr ())
      | Some channel \<Rightarrow>
          (let signature = join [CHR 0x0A] (healthIncidents snapshot);
               state = get_setting s health_state_key;
               old = Option.bind state (json_get ''signature'')
           in if signature = [] \<and> \<not> json_truthy old then (s, Inr ())
              else if old = Some (JStr signature) \<and>
                      Option.bind state (json_get ''channel'') = Some (JStr channel) \<and>
                      cooling (now E) (date_parse (json_string_or (Option.bind state (json_get ''at''))))
              then (s, Inr ())
              else (let subject = (if signature \<noteq> [] then ''[ISMS Portal] Infrastructure alert''
                                   else ''[ISMS Portal] Infrastructure recovered'');
                        message = (if signature \<noteq> [] then signature
                                   else ''The previously reported services and document storage capacity are healthy again.'');
                        s' = s\<lparr>alertlog := alertlog s @ [(channel, subject, message)]\<rparr>
                    in if alert_ok E channel
                       then (put_setting s' health_state_key
                         (JObj [(''signature'', JStr signature), (''at'', JDate (now E)),
                                (''channel'', JStr channel)]), Inr ())
                       else (s', Inl (InternalError ''delivery failed'')))))"

text \<open>\<open>healthyWorker\<close>.\<close>

definition healthyWorker :: "json \<Rightarrow> time \<Rightarrow> bool" where
  "healthyWorker v t =
     ((case json_get ''checkedAt'' v of Some (JNum c) \<Rightarrow> c \<le> t \<and> t - c < 180000 | _ \<Rightarrow> False) \<and>
      json_get ''mailRunning'' v = Some (JBool True) \<and>
      json_get ''directoryRunning'' v = Some (JBool True))"

section \<open>Correctness\<close>

lemma policy_channel_Some: "policy_channel v = Some c \<Longrightarrow> c \<in> set alert_channels \<and> v \<noteq> None"
  by (auto simp: policy_channel_def split: option.splits if_splits json.splits)

lemma evaluate_Success [simp]: "evaluate E s Success = s"
  by (simp add: evaluate_def)

lemma get_setting_alertlog [simp]: "get_setting (s\<lparr>alertlog := l\<rparr>) k = get_setting s k"
  by (simp add: get_setting_def)

text \<open>An instant whose year \<open>toISOString\<close> writes with four digits.\<close>

definition common_era :: "time \<Rightarrow> bool" where
  "common_era t = (case civil_from_days (t div day_ms) of (y, m, d) \<Rightarrow> 0 \<le> y \<and> y \<le> 9999)"

lemma date_parse_JDate: "common_era t \<Longrightarrow> date_parse (toISOString t) = Some t"
  by (cases "civil_from_days (t div day_ms)") (auto simp: common_era_def date_parse_toISOString)

lemma evaluate_stores:
  assumes "settings (evaluate E s result) \<noteq> settings s" and "common_era (now E)"
  shows "last_alert (evaluate E s result) = Some (now E)"
proof -
  obtain c l where "evaluate E s result = put_setting (s\<lparr>alertlog := l\<rparr>) alert_last_sent_key
      (JObj [(''at'', JDate (now E)), (''channel'', JStr c)])"
    using assms(1) by (auto simp: evaluate_def Let_def split: option.splits if_splits)
  then show ?thesis
    using date_parse_JDate [OF assms(2)]
    by (simp add: last_alert_def json_get_def json_string_or_def)
qed

text \<open>Alerts are not repeated. Once an alert on refused or failed requests has been delivered and
  stored, no further alert is sent during the next fifteen minutes, whatever is audited meanwhile and
  however the policy is changed, as long as the stored instant stands.\<close>

theorem evaluate_cooldown:
  assumes "settings (evaluate E s result) \<noteq> settings s" and "common_era (now E)"
    and "get_setting s' alert_last_sent_key = get_setting (evaluate E s result) alert_last_sent_key"
    and "now E' < now E + cooldown_ms"
  shows "evaluate E' s' result' = s'"
proof -
  have "last_alert s' = Some (now E)"
    using evaluate_stores [OF assms(1,2)] assms(3) by (simp add: last_alert_def)
  with assms(4) show ?thesis
    by (simp add: evaluate_def cooling_def split: option.splits)
qed

definition denied_event :: audit_row where
  "denied_event = \<lparr>ae_id = ''e'', ae_occurredAt = 900, ae_identity = ''u'', ae_ipAddress = ''i'',
     ae_action = ''document.read'', ae_resource = ''r'', ae_result = Denied, ae_correlationId = ''c'',
     ae_details = None, ae_chainIndex = None, ae_prevHash = None, ae_chainHash = None\<rparr>"

definition alert_db :: db where
  "alert_db = empty_db\<lparr>audits := [denied_event], settings :=
     [\<lparr>st_key = alert_policy_key, st_value = JObj [(''enabled'', JBool True), (''channel'', JStr ''email''),
         (''fiveXxPercent'', JStr ''2.5''), (''deniedPerMinute'', JStr ''1'')]\<rparr>]\<rparr>"

theorem evaluate_cooldown_witness:
  "evaluate (sample_env\<lparr>now := 2000\<rparr>) (evaluate sample_env alert_db Denied) Denied =
     evaluate sample_env alert_db Denied \<and>
   length (alertlog (evaluate sample_env alert_db Denied)) = 1"
proof
  have "settings (evaluate sample_env alert_db Denied) \<noteq> settings alert_db"
    "common_era (now sample_env)" by code_simp+
  then show "evaluate (sample_env\<lparr>now := 2000\<rparr>) (evaluate sample_env alert_db Denied) Denied =
      evaluate sample_env alert_db Denied"
    by (rule evaluate_cooldown) (simp_all add: cooldown_ms_def sample_env_def)
  show "length (alertlog (evaluate sample_env alert_db Denied)) = 1" by code_simp
qed

lemma disk_incident_nonempty:
  "healthIncidents h = [] \<longleftrightarrow>
     (\<forall>(name, healthy)\<in>set (hs_services h). healthy) \<and>
     some_and (\<lambda>(available, total). 0 < total \<and> 0 \<le> available \<and> total \<le> available * 10) (hs_disk h)"
proof (cases "\<forall>(name, healthy)\<in>set (hs_services h). healthy")
  case True
  then have "filter (\<lambda>(name, healthy). \<not> healthy) (hs_services h) = []"
    by (auto simp: filter_empty_conv)
  with True show ?thesis
    by (cases "hs_disk h") (auto simp: healthIncidents_def Let_def not_less)
next
  case False
  then have "filter (\<lambda>(name, healthy). \<not> healthy) (hs_services h) \<noteq> []"
    by (auto simp: filter_empty_conv)
  then have "sort (map (\<lambda>(name, healthy). ''Service unavailable: '' @ name)
      (filter (\<lambda>(name, healthy). \<not> healthy) (hs_services h))) \<noteq> []"
    by (metis (no_types, lifting) length_0_conv length_map length_sort)
  with False show ?thesis by (simp add: healthIncidents_def Let_def)
qed

text \<open>The health report is complete. The list of incidents is empty exactly when the readiness
  probe answered with status \<open>ok\<close> and all four dependencies up, and the file system was measured with
  at least a tenth of it free.\<close>

theorem healthIncidents_complete:
  "healthIncidents (collectHealthSnapshot ready disk) = [] \<longleftrightarrow>
     (\<exists>r. ready = Some r \<and> rr_ok r \<and> rr_status r = ''ok'' \<and>
        {''postgres'', ''redis'', ''documentStorage'', ''clamav''} \<subseteq> set (rr_checks r)) \<and>
     (\<exists>available total. disk = Some (available, total) \<and> 0 < total \<and> total \<le> available * 10)"
  unfolding disk_incident_nonempty
  by (cases ready; cases disk) (auto simp: collectHealthSnapshot_def)

lemma evaluateHealth_cases:
  obtains "evaluateHealth E s h = (s, Inr ())"
  | c where "alertlog (fst (evaluateHealth E s h)) \<noteq> alertlog s"
      "policy_channel (get_setting s alert_policy_key) = Some c"
      "alert_ok E c \<Longrightarrow> get_setting (fst (evaluateHealth E s h)) health_state_key =
         Some (JObj [(''signature'', JStr (join [CHR 0x0A] (healthIncidents h))), (''at'', JDate (now E)),
                     (''channel'', JStr c)])"
proof (cases "policy_channel (get_setting s alert_policy_key)")
  case None
  with that(1) show thesis by (simp add: evaluateHealth_def)
next
  case (Some c)
  have a [simp]: "alertlog (put_setting x k v) = alertlog x" for x k v by (simp add: put_setting_def)
  show thesis
  proof (cases "evaluateHealth E s h = (s, Inr ())")
    case True
    with that(1) show thesis .
  next
    case False
    with Some show thesis
      by (intro that(2) [of c]) (auto simp: evaluateHealth_def Let_def split: if_splits)
  qed
qed

text \<open>Health alerts report changes once. After an alert was delivered, the same incidents over the
  same channel stay silent for fifteen minutes, and no alert at all is sent while everything is
  healthy and was healthy at the last report.\<close>

theorem evaluateHealth_no_repeat:
  assumes "alertlog (fst (evaluateHealth E s h)) \<noteq> alertlog s" and "snd (evaluateHealth E s h) = Inr ()"
    and "common_era (now E)" and "now E' < now E + cooldown_ms"
    and "get_setting s' health_state_key = get_setting (fst (evaluateHealth E s h)) health_state_key"
    and "policy_channel (get_setting s' alert_policy_key) = policy_channel (get_setting s alert_policy_key)"
    and "healthIncidents h' = healthIncidents h"
  shows "evaluateHealth E' s' h' = (s', Inr ())"
proof (cases rule: evaluateHealth_cases [of E s h])
  case 1
  with assms(1) show ?thesis by simp
next
  case (2 c)
  have "alert_ok E c"
    using assms(1,2) 2(2) by (auto simp: evaluateHealth_def Let_def split: if_splits)
  with 2(3) assms(5) have "get_setting s' health_state_key =
      Some (JObj [(''signature'', JStr (join [CHR 0x0A] (healthIncidents h))), (''at'', JDate (now E)),
                  (''channel'', JStr c)])" by simp
  moreover have "policy_channel (get_setting s' alert_policy_key) = Some c" using assms(6) 2(2) by simp
  ultimately show ?thesis
    using assms(4,7) date_parse_JDate [OF assms(3)]
    by (simp add: evaluateHealth_def Let_def json_get_def json_string_or_def cooling_def)
qed

theorem evaluateHealth_no_repeat_witness:
  "let h = collectHealthSnapshot None None; (s, r) = evaluateHealth sample_env alert_db h
   in evaluateHealth (sample_env\<lparr>now := 2000\<rparr>) s h = (s, Inr ()) \<and> length (alertlog s) = 1"
proof -
  define h where "h = collectHealthSnapshot None None"
  define s where "s = fst (evaluateHealth sample_env alert_db h)"
  have "alertlog s \<noteq> alertlog alert_db" "snd (evaluateHealth sample_env alert_db h) = Inr ()"
    "policy_channel (get_setting s alert_policy_key) = policy_channel (get_setting alert_db alert_policy_key)"
    "length (alertlog s) = 1" "common_era (now sample_env)"
    unfolding s_def h_def by code_simp+
  moreover from this have "evaluateHealth (sample_env\<lparr>now := 2000\<rparr>) s h = (s, Inr ())"
    using evaluateHealth_no_repeat [of sample_env alert_db h "sample_env\<lparr>now := 2000\<rparr>" s h]
    by (simp add: s_def cooldown_ms_def sample_env_def)
  ultimately show ?thesis
    by (simp add: h_def [symmetric] s_def case_prod_beta)
qed

end
