(* ===== verification/Audit_Event.thy ===== *)
theory Audit_Event
  imports Alerts
begin

text \<open>
  Auditing (\<^verbatim>\<open>apps/api/src/audit-event.ts\<close>, \<^verbatim>\<open>audit.service.ts\<close>), the labels of the notified
  actions and \<open>enqueue\<close> (\<^verbatim>\<open>notification.service.ts\<close>), and the transactional outbox with its
  dispatcher and the history maintenance (\<^verbatim>\<open>notification-outbox.ts\<close>). Texts outside ASCII are
  spelled as their UTF-8 bytes.
\<close>

section \<open>Labels\<close>

definition notificationLabels :: "(string \<times> string) list" where
  "notificationLabels =
     [(''document.publish'', ''Document published''),
      (''document.published'', ''Document published''),
      (''document.publication.digest'', ''Publication summary''),
      (''document.upload'', ''Document awaiting publication''),
      (''document.version.upload'', ''New version awaiting publication''),
      (''document.metadata.update'', ''Document updated''),
      (''document.delete'', ''Document deleted''),
      (''document.version.overdue'', ''Document version overdue''),
      (''document.review.annual'', ''Annual document review due''),
      (''document.review.reminder'', ''Annual document review reminder''),
      (''document.review.overdue'', ''Annual document review overdue''),
      (''document-report.create'', ''Document issue reported''),
      (''document-report.resolve'', ''Document report resolved''),
      (''security-report.create'', ''Security report submitted''),
      (''security-report.resolve'', ''Security report resolved''),
      (''access-request.create'', ''Access request submitted''),
      (''access-request.review'', ''Access request decision''),
      (''document-review.create'', ''Document review assigned''),
      (''document-review.decision'', ''Document review decision''),
      (''document-review.overdue'', ''Publication reviews overdue''),
      (''sensitive-approval.request'', ''Approval required''),
      (''sensitive-approval.decision'', ''Approval decision''),
      (''risk-exception.create'', ''Risk exception submitted''),
      (''risk-exception.decision'', ''Risk exception decision''),
      (''incident-case.create'', ''Incident assigned''),
      (''corrective-action.create'', ''Corrective action assigned'')]"

definition notified_action :: "string \<Rightarrow> bool" where
  "notified_action action = (map_of notificationLabels action \<noteq> None)"

section \<open>Events\<close>

definition notifySubscribers :: "db \<Rightarrow> string \<Rightarrow> string \<Rightarrow> string \<Rightarrow> string \<Rightarrow> db" where
  "notifySubscribers s documentId actor title message =
     (let subs = take 1000 (filter (\<lambda>r. sub_documentId r = documentId \<and> sub_identity r \<noteq> actor)
            (subscriptions s));
          name = (case find_first_by tr_locale (\<lambda>t. tr_documentId t = documentId) (titles s) of
              None \<Rightarrow> documentId
            | Some t \<Rightarrow> if tr_title t = [] then documentId else tr_title t)
      in s\<lparr>notices := notices s @
           map (\<lambda>r. \<lparr>un_identity = sub_identity r, un_title = title, un_message = message @ '' : '' @ name,
                     un_resourceType = Some ''document'', un_resourceId = Some documentId,
                     un_mandatory = False\<rparr>) subs\<rparr>)"

definition audit_event ::
    "env \<Rightarrow> db \<Rightarrow> request \<Rightarrow> string \<Rightarrow> string \<Rightarrow> audit_result \<Rightarrow> json option \<Rightarrow> audit_row" where
  "audit_event E s req action resource result details =
     \<lparr>ae_id = uuid E (uuid_next s), ae_occurredAt = now E, ae_identity = rq_username req,
      ae_ipAddress = (case rq_ip req of None \<Rightarrow> ''unknown'' | Some ip \<Rightarrow> if ip = [] then ''unknown'' else ip),
      ae_action = action, ae_resource = resource, ae_result = result,
      ae_correlationId = rq_correlationId req, ae_details = details,
      ae_chainIndex = None, ae_prevHash = None, ae_chainHash = None\<rparr>"

definition followed_title :: string where
  "followed_title = ''Document suivi publi'' @ [CHR 0xC3, CHR 0xA9]"

definition followed_message :: string where
  "followed_message = ''Une nouvelle version est publi'' @ [CHR 0xC3, CHR 0xA9] @ ''e''"

text \<open>The first conditional of \<open>persistAudit\<close>: followers hear of a publication.\<close>

definition notify_publication :: "db \<Rightarrow> audit_row \<Rightarrow> db" where
  "notify_publication s event =
     (if ae_result event = Success \<and> ae_action event \<in> {''document.publish'', ''document.published''} \<and>
         startsWith (ae_resource event) ''document:''
      then notifySubscribers s (drop (length ''document:'') (ae_resource event)) (ae_identity event)
             followed_title followed_message
      else s)"

definition persistAudit ::
    "env \<Rightarrow> db \<Rightarrow> request \<Rightarrow> string \<Rightarrow> string \<Rightarrow> audit_result \<Rightarrow> json option \<Rightarrow> bool \<Rightarrow>
     db \<times> audit_row" where
  "persistAudit E s req action resource result details notify =
     (let event = audit_event E s req action resource result details;
          s1 = s\<lparr>audits := audits s @ [event], uuid_next := Suc (uuid_next s)\<rparr>;
          s2 = notify_publication s1 event;
          s3 = (if result = Success \<and> notify \<and> notified_action action
                then s2\<lparr>outbox := outbox s2 @
                  [\<lparr>ob_id = ae_id event,
                    ob_payload = \<lparr>jb_action = action, jb_resource = resource,
                      jb_actor = ae_identity event, jb_at = toISOString (ae_occurredAt event)\<rparr>,
                    ob_nextAttemptAt = now E, ob_queuedAt = None, ob_attempts = 0\<rparr>]\<rparr>
                else s2)
      in (s3, event))"

text \<open>\<open>AuditService.record\<close>: the transaction, then the evaluation of the alert policy.\<close>

definition record_audit ::
    "env \<Rightarrow> db \<Rightarrow> request \<Rightarrow> string \<Rightarrow> string \<Rightarrow> audit_result \<Rightarrow> json option \<Rightarrow> db" where
  "record_audit E s req action resource result details =
     evaluate E (fst (persistAudit E s req action resource result details True)) result"

definition record_quiet ::
    "env \<Rightarrow> db \<Rightarrow> request \<Rightarrow> string \<Rightarrow> string \<Rightarrow> audit_result \<Rightarrow> json option \<Rightarrow> db" where
  "record_quiet E s req action resource result details =
     evaluate E (fst (persistAudit E s req action resource result details False)) result"

section \<open>The queue and the outbox\<close>

text \<open>\<open>NotificationService.enqueue\<close>: whether it returned, and the call it made.\<close>

definition enqueue :: "env \<Rightarrow> db \<Rightarrow> job \<Rightarrow> string \<Rightarrow> db \<times> bool" where
  "enqueue E s event eventId =
     (if \<not> notified_action (jb_action event) then (s, True)
      else if \<not> documentEventEnabled s (jb_action event) then (s, True)
      else if queue_ok E eventId then (s\<lparr>queue := queue s @ [(eventId, event)]\<rparr>, True)
      else (s, False))"

definition retry_delay :: "nat \<Rightarrow> int" where
  "retry_delay attempts = min 3600000 (30000 * 2 ^ min attempts 7)"

fun dispatch_loop :: "env \<Rightarrow> db \<Rightarrow> outbox_row list \<Rightarrow> db" where
  "dispatch_loop E s [] = s"
| "dispatch_loop E s (entry # rest) =
     (case enqueue E s (ob_payload entry) (ob_id entry) of
        (s', True) \<Rightarrow>
          dispatch_loop E (s'\<lparr>outbox := update_rows (\<lambda>r. ob_id r = ob_id entry)
            (\<lambda>r. r\<lparr>ob_queuedAt := Some (now E), ob_attempts := Suc (ob_attempts r)\<rparr>) (outbox s')\<rparr>) rest
      | (s', False) \<Rightarrow>
          s'\<lparr>outbox := update_rows (\<lambda>r. ob_id r = ob_id entry)
            (\<lambda>r. r\<lparr>ob_attempts := Suc (ob_attempts r),
                  ob_nextAttemptAt := now E + retry_delay (ob_attempts entry)\<rparr>) (outbox s')\<rparr>)"

definition pending_outbox :: "env \<Rightarrow> db \<Rightarrow> outbox_row list" where
  "pending_outbox E s =
     take 100 (sort_key ob_nextAttemptAt (sort_key ob_id
       (filter (\<lambda>r. ob_queuedAt r = None \<and> ob_nextAttemptAt r \<le> now E) (outbox s))))"

definition dispatchOutbox :: "env \<Rightarrow> db \<Rightarrow> db \<times> nat" where
  "dispatchOutbox E s =
     (let pending = pending_outbox E s in (dispatch_loop E s pending, length pending))"

text \<open>\<open>maintainHistory\<close>; \<open>days\<close> is the configured retention when it is a safe integer, else 0.\<close>

definition maintainHistory :: "env \<Rightarrow> db \<Rightarrow> int \<Rightarrow> db" where
  "maintainHistory E s days =
     (let old = (if 0 < days
                 then find_many ae_occurredAt 1000 (\<lambda>e. ae_occurredAt e < now E - days * day_ms) (audits s)
                 else []);
          s1 = (if old \<noteq> [] then s\<lparr>audits := delete_rows (\<lambda>e. ae_id e \<in> ae_id ` set old) (audits s)\<rparr> else s);
          queued = take 1000 (filter (\<lambda>r. some_and (\<lambda>t. t < now E - 30 * day_ms) (ob_queuedAt r)) (outbox s1))
      in if queued \<noteq> [] then s1\<lparr>outbox := delete_rows (\<lambda>r. ob_id r \<in> ob_id ` set queued) (outbox s1)\<rparr> else s1)"

section \<open>What an audit changes\<close>

lemma notifySubscribers_frame [simp]:
  "audits (notifySubscribers s d a t m) = audits s" "outbox (notifySubscribers s d a t m) = outbox s"
  "settings (notifySubscribers s d a t m) = settings s" "queue (notifySubscribers s d a t m) = queue s"
  "documents (notifySubscribers s d a t m) = documents s" "reviews (notifySubscribers s d a t m) = reviews s"
  "versions (notifySubscribers s d a t m) = versions s" "approvals (notifySubscribers s d a t m) = approvals s"
  "uuid_next (notifySubscribers s d a t m) = uuid_next s"
  by (simp_all add: notifySubscribers_def Let_def)

lemma notifySubscribers_notices:
  "\<exists>new. notices (notifySubscribers s d a t m) = notices s @ new \<and>
     (\<forall>n\<in>set new. un_identity n \<noteq> a \<and> un_resourceId n = Some d \<and>
        (\<exists>r\<in>set (subscriptions s). sub_documentId r = d \<and> sub_identity r = un_identity n))"
  unfolding notifySubscribers_def Let_def by (auto dest!: in_set_takeD)

lemma notify_publication_frame [simp]:
  "audits (notify_publication s e) = audits s" "outbox (notify_publication s e) = outbox s"
  by (simp_all add: notify_publication_def)

lemma notify_publication_notices:
  "\<exists>new. notices (notify_publication s e) = notices s @ new \<and>
     (\<forall>n\<in>set new. ae_result e = Success \<and> ae_action e \<in> {''document.publish'', ''document.published''} \<and>
        un_identity n \<noteq> ae_identity e \<and>
        (\<exists>f\<in>set (subscriptions s). sub_identity f = un_identity n \<and>
           ae_resource e = ''document:'' @ sub_documentId f))"
proof (cases "ae_result e = Success \<and> ae_action e \<in> {''document.publish'', ''document.published''} \<and>
    startsWith (ae_resource e) ''document:''")
  case False
  then show ?thesis by (auto simp: notify_publication_def)
next
  case True
  then have res: "ae_resource e = ''document:'' @ drop (length ''document:'') (ae_resource e)"
    unfolding startsWith_def by (metis append_take_drop_id)
  let ?d = "drop (length ''document:'') (ae_resource e)"
  obtain new where new: "notices (notifySubscribers s ?d (ae_identity e) followed_title followed_message) =
      notices s @ new"
    "\<forall>n\<in>set new. un_identity n \<noteq> ae_identity e \<and>
       (\<exists>r\<in>set (subscriptions s). sub_documentId r = ?d \<and> sub_identity r = un_identity n)"
    using notifySubscribers_notices [of s ?d "ae_identity e" followed_title followed_message] by blast
  have "notices (notify_publication s e) = notices s @ new"
    unfolding notify_publication_def if_P [OF True] by (rule new(1))
  moreover have "\<exists>f\<in>set (subscriptions s). sub_identity f = un_identity n \<and>
      ae_resource e = ''document:'' @ sub_documentId f" if "n \<in> set new" for n
    using new(2) that res by metis
  ultimately show ?thesis using new(2) True by blast
qed

text \<open>The tables an audit does not touch; every handler relies on them.\<close>

definition audit_only :: "db \<Rightarrow> db \<Rightarrow> bool" where
  "audit_only s s' \<longleftrightarrow>
     s' = s\<lparr>audits := audits s', outbox := outbox s', notices := notices s', settings := settings s',
           alertlog := alertlog s', uuid_next := uuid_next s'\<rparr>"

lemma persistAudit_only: "audit_only s (fst (persistAudit E s req a r res d n))"
  by (simp add: audit_only_def persistAudit_def Let_def notify_publication_def notifySubscribers_def)

lemma put_setting_only: "audit_only s (put_setting s k v)"
  by (simp add: audit_only_def put_setting_def)

lemma audit_only_trans: "audit_only s t \<Longrightarrow> audit_only t u \<Longrightarrow> audit_only s u"
  by (cases s; cases t; cases u) (simp add: audit_only_def)

lemma evaluate_only: "audit_only s (evaluate E s res)"
proof -
  have "audit_only s (s\<lparr>alertlog := l\<rparr>)" for l by (simp add: audit_only_def)
  moreover have "audit_only s s" by (simp add: audit_only_def)
  ultimately show ?thesis
    unfolding evaluate_def Let_def
    by (auto split: option.splits intro: audit_only_trans [OF _ put_setting_only])
qed

lemma record_audit_only: "audit_only s (record_audit E s req a r res d)"
  unfolding record_audit_def by (rule audit_only_trans [OF persistAudit_only evaluate_only])

lemma record_quiet_only: "audit_only s (record_quiet E s req a r res d)"
  unfolding record_quiet_def by (rule audit_only_trans [OF persistAudit_only evaluate_only])

lemma audit_onlyE:
  assumes "audit_only s s'"
  obtains a b n st l u where "s' = s\<lparr>audits := a, outbox := b, notices := n, settings := st,
    alertlog := l, uuid_next := u\<rparr>"
  using assms unfolding audit_only_def by blast

lemma audit_only_tables:
  assumes "audit_only s s'"
  shows "documents s' = documents s" "versions s' = versions s" "reviews s' = reviews s"
    "approvals s' = approvals s" "retentions s' = retentions s" "signatures s' = signatures s"
    "entries s' = entries s" "sharelinks s' = sharelinks s" "depositors s' = depositors s"
    "shares s' = shares s" "comments s' = comments s" "links s' = links s" "contents s' = contents s"
    "storedfiles s' = storedfiles s" "scans s' = scans s" "spaces s' = spaces s"
    "categories s' = categories s" "groups s' = groups s" "rules s' = rules s" "grants s' = grants s"
    "accounts s' = accounts s" "admingroups s' = admingroups s" "adminsessions s' = adminsessions s"
    "dirsessions s' = dirsessions s" "doctypes s' = doctypes s" "titles s' = titles s"
    "subscriptions s' = subscriptions s" "seals s' = seals s" "preferences s' = preferences s"
    "queue s' = queue s" "filestamps s' = filestamps s" "activities s' = activities s" "favorites s' = favorites s"
    "removedobjects s' = removedobjects s"
  using assms by (elim audit_onlyE, simp)+

lemmas persistAudit_tables [simp] = audit_only_tables [OF persistAudit_only]

lemmas record_audit_tables [simp] = audit_only_tables [OF record_audit_only]

lemmas record_quiet_tables [simp] = audit_only_tables [OF record_quiet_only]

lemma persistAudit_audits [simp]:
  "audits (fst (persistAudit E s req a r res d n)) = audits s @ [snd (persistAudit E s req a r res d n)]"
  "snd (persistAudit E s req a r res d n) = audit_event E s req a r res d"
  by (simp_all add: persistAudit_def Let_def)

lemma audit_event_simps [simp]:
  "ae_id (audit_event E s req a r res d) = uuid E (uuid_next s)"
  "ae_occurredAt (audit_event E s req a r res d) = now E"
  "ae_identity (audit_event E s req a r res d) = rq_username req"
  "ae_action (audit_event E s req a r res d) = a"
  "ae_resource (audit_event E s req a r res d) = r"
  "ae_result (audit_event E s req a r res d) = res"
  "ae_details (audit_event E s req a r res d) = d"
  by (simp_all add: audit_event_def)

lemma persistAudit_outbox:
  "map ob_id (outbox (fst (persistAudit E s req a r res d n))) = map ob_id (outbox s) @
     (if res = Success \<and> n \<and> notified_action a then [uuid E (uuid_next s)] else [])"
  by (simp add: persistAudit_def Let_def)

lemma persistAudit_notices:
  "notices (fst (persistAudit E s req a r res d n)) =
     notices (notify_publication (s\<lparr>audits := audits s @ [audit_event E s req a r res d],
       uuid_next := Suc (uuid_next s)\<rparr>) (audit_event E s req a r res d))"
  by (simp add: persistAudit_def Let_def)

lemma evaluate_audits [simp]: "audits (evaluate E s res) = audits s"
  by (auto simp: evaluate_def Let_def put_setting_def split: option.splits)

lemma record_audit_audits [simp]:
  "audits (record_audit E s req a r res d) = audits s @ [audit_event E s req a r res d]"
  by (simp add: record_audit_def)

text \<open>An audit leaves one trace and notifies the right people. It appends exactly one event that
  carries the caller, the action, the resource and the result; it queues a notification exactly when
  the action succeeded, has a label and notification was asked for; and the in-app notices it adds go
  to followers of the published document other than the caller.\<close>

theorem persistAudit_effect:
  "let (s', ev) = persistAudit E s req a r res d notify
   in audits s' = audits s @ [ev] \<and> ae_identity ev = rq_username req \<and> ae_action ev = a \<and>
      ae_resource ev = r \<and> ae_result ev = res \<and> ae_occurredAt ev = now E \<and>
      map ob_id (outbox s') = map ob_id (outbox s) @
        (if res = Success \<and> notify \<and> notified_action a then [ae_id ev] else []) \<and>
      (\<exists>new. notices s' = notices s @ new \<and>
        (\<forall>n\<in>set new. res = Success \<and> a \<in> {''document.publish'', ''document.published''} \<and>
           un_identity n \<noteq> rq_username req \<and>
           (\<exists>f\<in>set (subscriptions s). sub_identity f = un_identity n \<and> r = ''document:'' @ sub_documentId f)))"
  using notify_publication_notices [of "s\<lparr>audits := audits s @ [audit_event E s req a r res d],
      uuid_next := Suc (uuid_next s)\<rparr>" "audit_event E s req a r res d"]
  by (simp add: case_prod_beta persistAudit_outbox persistAudit_notices)

definition followed_db :: db where
  "followed_db = sample_db\<lparr>subscriptions := [\<lparr>sub_identity = ''ann'', sub_documentId = ''d1''\<rparr>,
     \<lparr>sub_identity = ''bob'', sub_documentId = ''d1''\<rparr>]\<rparr>"

theorem persistAudit_effect_witness:
  "let (s', ev) = persistAudit sample_env followed_db (sample_request ''ann'' []) ''document.publish''
     ''document:d1'' Success None True
   in map ob_id (outbox s') = [ae_id ev] \<and> map un_identity (notices s') = [''bob'']"
proof -
  obtain s' ev where a: "persistAudit sample_env followed_db (sample_request ''ann'' []) ''document.publish''
      ''document:d1'' Success None True = (s', ev)" by fastforce
  have "notified_action ''document.publish''" "outbox followed_db = []"
    "map un_identity (notices (fst (persistAudit sample_env followed_db (sample_request ''ann'' [])
       ''document.publish'' ''document:d1'' Success None True))) = [''bob'']"
    by code_simp+
  with a persistAudit_effect [of sample_env followed_db "sample_request ''ann'' []" "''document.publish''"
      "''document:d1''" Success None True]
  show ?thesis by simp
qed

section \<open>The outbox delivers\<close>

lemma documentEventEnabled_settings:
  "settings s' = settings s \<Longrightarrow> documentEventEnabled s' = documentEventEnabled s"
  by (rule ext) (simp add: documentEventEnabled_def documentAlertPolicy_def get_setting_def)

text \<open>The two updates of the loop, which rows are to be handed to the queue, and which pass \<open>enqueue\<close>.\<close>

definition marked :: "env \<Rightarrow> outbox_row \<Rightarrow> outbox_row" where
  "marked E r = r\<lparr>ob_queuedAt := Some (now E), ob_attempts := Suc (ob_attempts r)\<rparr>"

definition put_off :: "env \<Rightarrow> outbox_row \<Rightarrow> outbox_row" where
  "put_off E r = r\<lparr>ob_attempts := Suc (ob_attempts r), ob_nextAttemptAt := now E + retry_delay (ob_attempts r)\<rparr>"

definition to_notify :: "db \<Rightarrow> outbox_row \<Rightarrow> bool" where
  "to_notify s r \<longleftrightarrow> notified_action (jb_action (ob_payload r)) \<and> documentEventEnabled s (jb_action (ob_payload r))"

definition accepted :: "env \<Rightarrow> db \<Rightarrow> outbox_row \<Rightarrow> bool" where
  "accepted E s r \<longleftrightarrow> queue_ok E (ob_id r) \<or> \<not> to_notify s r"

definition settled_row :: "env \<Rightarrow> outbox_row list \<Rightarrow> outbox_row list \<Rightarrow> outbox_row \<Rightarrow> outbox_row" where
  "settled_row E good bad r =
     (if ob_id r \<in> ob_id ` set good then marked E r
      else if bad \<noteq> [] \<and> ob_id r = ob_id (hd bad) then put_off E r else r)"

lemma marked_simps [simp]:
  "ob_id (marked E r) = ob_id r" "ob_payload (marked E r) = ob_payload r"
  "ob_queuedAt (marked E r) = Some (now E)"
  by (simp_all add: marked_def)

lemma put_off_simps [simp]:
  "ob_id (put_off E r) = ob_id r" "ob_payload (put_off E r) = ob_payload r"
  "ob_queuedAt (put_off E r) = ob_queuedAt r"
  by (simp_all add: put_off_def)

lemma enqueue_accepted:
  "accepted E s r \<Longrightarrow> enqueue E s (ob_payload r) (ob_id r) =
     (s\<lparr>queue := queue s @ (if to_notify s r then [(ob_id r, ob_payload r)] else [])\<rparr>, True)"
  by (auto simp: enqueue_def accepted_def to_notify_def)

lemma enqueue_refused: "\<not> accepted E s r \<Longrightarrow> enqueue E s (ob_payload r) (ob_id r) = (s, False)"
  by (auto simp: enqueue_def accepted_def to_notify_def)

lemma accepted_settings:
  assumes "settings s' = settings s"
  shows "to_notify s' = to_notify s" and "accepted E s' = accepted E s"
proof -
  show t: "to_notify s' = to_notify s"
    by (rule ext) (simp add: to_notify_def documentEventEnabled_settings [OF assms])
  show "accepted E s' = accepted E s" by (rule ext) (simp add: accepted_def t)
qed

text \<open>The loop marks the rows up to the first one that the queue refuses, puts that one off and leaves the others.\<close>

lemma dispatch_loop_exact:
  assumes "distinct (map ob_id (outbox s))" and "set es \<subseteq> set (outbox s)" and "distinct (map ob_id es)"
  shows "outbox (dispatch_loop E s es) =
      map (settled_row E (takeWhile (accepted E s) es) (dropWhile (accepted E s) es)) (outbox s) \<and>
    queue (dispatch_loop E s es) =
      queue s @ map (\<lambda>r. (ob_id r, ob_payload r)) (filter (to_notify s) (takeWhile (accepted E s) es))"
  using assms
proof (induction es arbitrary: s)
  case Nil
  show ?case by (simp add: settled_row_def)
next
  case (Cons e es)
  have uniq: "r = e" if "r \<in> set (outbox s)" "ob_id r = ob_id e" for r
    using key_unique [OF Cons.prems(1) that(1) _ that(2)] Cons.prems(2) by simp
  show ?case
  proof (cases "accepted E s e")
    case False
    then have "dispatch_loop E s (e # es) = s\<lparr>outbox := update_rows (\<lambda>r. ob_id r = ob_id e)
        (\<lambda>r. r\<lparr>ob_attempts := Suc (ob_attempts r), ob_nextAttemptAt := now E + retry_delay (ob_attempts e)\<rparr>) (outbox s)\<rparr>"
      by (simp add: enqueue_refused)
    moreover have "update_rows (\<lambda>r. ob_id r = ob_id e)
        (\<lambda>r. r\<lparr>ob_attempts := Suc (ob_attempts r), ob_nextAttemptAt := now E + retry_delay (ob_attempts e)\<rparr>) (outbox s) =
        map (settled_row E [] (e # es)) (outbox s)"
      using uniq by (auto simp: update_rows_def settled_row_def put_off_def)
    ultimately show ?thesis using False by simp
  next
    case True
    define s1 where "s1 = s\<lparr>queue := queue s @ (if to_notify s e then [(ob_id e, ob_payload e)] else []),
      outbox := update_rows (\<lambda>r. ob_id r = ob_id e) (marked E) (outbox s)\<rparr>"
    have step: "dispatch_loop E s (e # es) = dispatch_loop E s1 es"
      using enqueue_accepted [OF True] by (simp add: s1_def marked_def [abs_def])
    have same: "settings s1 = settings s" by (simp add: s1_def)
    have keys: "map ob_id (outbox s1) = map ob_id (outbox s)" by (simp add: s1_def map_update_rows)
    have ne: "r \<in> set es \<Longrightarrow> ob_id r \<noteq> ob_id e" for r using Cons.prems(3) by (auto simp: image_iff)
    have "set es \<subseteq> set (outbox s1)"
      using Cons.prems(2) ne by (auto simp: s1_def set_update_rows intro!: image_eqI)
    from Cons.IH [OF _ this] Cons.prems(1,3) keys
    have IH: "outbox (dispatch_loop E s1 es) =
        map (settled_row E (takeWhile (accepted E s) es) (dropWhile (accepted E s) es)) (outbox s1)"
      "queue (dispatch_loop E s1 es) =
        queue s1 @ map (\<lambda>r. (ob_id r, ob_payload r)) (filter (to_notify s) (takeWhile (accepted E s) es))"
      by (simp_all add: accepted_settings [OF same])
    have "settled_row E (takeWhile (accepted E s) es) (dropWhile (accepted E s) es) (if ob_id r = ob_id e then marked E r else r) =
        settled_row E (e # takeWhile (accepted E s) es) (dropWhile (accepted E s) es) r" for r
    proof (cases "ob_id r = ob_id e")
      case True
      moreover have "ob_id e \<notin> ob_id ` set (takeWhile (accepted E s) es)"
        using ne by (fastforce dest: set_takeWhileD)
      moreover have "ob_id e \<noteq> ob_id (hd (dropWhile (accepted E s) es))" if "dropWhile (accepted E s) es \<noteq> []"
        using ne [of "hd (dropWhile (accepted E s) es)"] hd_in_set [OF that] set_dropWhileD by fastforce
      ultimately show ?thesis by (auto simp: settled_row_def)
    qed (simp add: settled_row_def)
    then show ?thesis
      unfolding step IH using True by (simp add: s1_def update_rows_def)
  qed
qed

lemma set_pending_outbox:
  "set (pending_outbox E s) \<subseteq> {r \<in> set (outbox s). ob_queuedAt r = None \<and> ob_nextAttemptAt r \<le> now E}"
  unfolding pending_outbox_def by (auto dest!: in_set_takeD)

lemma distinct_pending_outbox:
  assumes "distinct (map ob_id (outbox s))"
  shows "distinct (map ob_id (pending_outbox E s))"
proof -
  have "distinct (map ob_id (filter (\<lambda>r. ob_queuedAt r = None \<and> ob_nextAttemptAt r \<le> now E) (outbox s)))"
    using assms by (rule distinct_map_filter)
  then have "distinct (map ob_id (sort_key ob_nextAttemptAt (sort_key ob_id
      (filter (\<lambda>r. ob_queuedAt r = None \<and> ob_nextAttemptAt r \<le> now E) (outbox s)))))"
    by (simp add: distinct_map)
  then show ?thesis unfolding pending_outbox_def by (simp add: take_map [symmetric])
qed

lemma dispatchOutbox_exact:
  assumes "distinct (map ob_id (outbox s))"
  shows "outbox (fst (dispatchOutbox E s)) =
      map (settled_row E (takeWhile (accepted E s) (pending_outbox E s)) (dropWhile (accepted E s) (pending_outbox E s))) (outbox s)"
    and "queue (fst (dispatchOutbox E s)) =
      queue s @ map (\<lambda>r. (ob_id r, ob_payload r)) (filter (to_notify s) (takeWhile (accepted E s) (pending_outbox E s)))"
proof -
  have "set (pending_outbox E s) \<subseteq> set (outbox s)" using set_pending_outbox by blast
  from dispatch_loop_exact [OF assms this distinct_pending_outbox [OF assms], of E]
  show "outbox (fst (dispatchOutbox E s)) =
      map (settled_row E (takeWhile (accepted E s) (pending_outbox E s)) (dropWhile (accepted E s) (pending_outbox E s))) (outbox s)"
    "queue (fst (dispatchOutbox E s)) =
      queue s @ map (\<lambda>r. (ob_id r, ob_payload r)) (filter (to_notify s) (takeWhile (accepted E s) (pending_outbox E s)))"
    by (simp_all add: dispatchOutbox_def Let_def)
qed

lemma retry_delay_bounds: "30000 \<le> retry_delay n" "retry_delay n \<le> 3600000"
  using one_le_power [of "2::int" "min n 7"] by (simp_all add: retry_delay_def)

text \<open>C25: no notification is lost. A run of the dispatcher takes the due rows in order up to the first one that the queue
  refuses. Of these it hands exactly those to the queue, with their payload and in order, whose action is
  notified and not switched off by the alert policy, and it marks exactly these rows as queued. The refused row
  stays pending, with one more attempt and the next one between thirty seconds and one hour later. Every other
  row stays as it is.\<close>

theorem dispatchOutbox_no_loss:
  assumes "distinct (map ob_id (outbox s))"
  shows "\<exists>good bad. pending_outbox E s = good @ bad \<and>
    (\<forall>r\<in>set good. queue_ok E (ob_id r) \<or> \<not> to_notify s r) \<and>
    (bad = [] \<or> to_notify s (hd bad) \<and> \<not> queue_ok E (ob_id (hd bad))) \<and>
    queue (fst (dispatchOutbox E s)) = queue s @ map (\<lambda>r. (ob_id r, ob_payload r)) (filter (to_notify s) good) \<and>
    (\<exists>d. 30000 \<le> d \<and> d \<le> 3600000 \<and>
      outbox (fst (dispatchOutbox E s)) =
        map (\<lambda>r. if r \<in> set good then r\<lparr>ob_queuedAt := Some (now E), ob_attempts := Suc (ob_attempts r)\<rparr>
                 else if bad \<noteq> [] \<and> r = hd bad then r\<lparr>ob_attempts := Suc (ob_attempts r), ob_nextAttemptAt := now E + d\<rparr>
                 else r) (outbox s))"
proof -
  let ?good = "takeWhile (accepted E s) (pending_outbox E s)" and ?bad = "dropWhile (accepted E s) (pending_outbox E s)"
  let ?d = "retry_delay (ob_attempts (hd ?bad))"
  have sub: "set ?good \<subseteq> set (outbox s)" "set ?bad \<subseteq> set (outbox s)"
    using set_pending_outbox [of E s] by (auto dest: set_takeWhileD set_dropWhileD)
  have same: "x \<in> set (outbox s) \<Longrightarrow> y \<in> set (outbox s) \<Longrightarrow> ob_id x = ob_id y \<longleftrightarrow> x = y" for x y
    using key_unique [OF assms] by blast
  have hd: "?bad \<noteq> [] \<Longrightarrow> hd ?bad \<in> set (outbox s)" using sub(2) hd_in_set by blast
  have "settled_row E ?good ?bad r =
      (if r \<in> set ?good then r\<lparr>ob_queuedAt := Some (now E), ob_attempts := Suc (ob_attempts r)\<rparr>
       else if ?bad \<noteq> [] \<and> r = hd ?bad then r\<lparr>ob_attempts := Suc (ob_attempts r), ob_nextAttemptAt := now E + ?d\<rparr> else r)"
    if r: "r \<in> set (outbox s)" for r
  proof -
    have "ob_id r \<in> ob_id ` set ?good \<longleftrightarrow> r \<in> set ?good" using same [OF r] sub(1) by (auto simp: image_iff)
    moreover have "?bad \<noteq> [] \<and> ob_id r = ob_id (hd ?bad) \<longleftrightarrow> ?bad \<noteq> [] \<and> r = hd ?bad" using same [OF r] hd by blast
    ultimately show ?thesis by (simp only: settled_row_def marked_def put_off_def) simp
  qed
  then have "outbox (fst (dispatchOutbox E s)) =
      map (\<lambda>r. if r \<in> set ?good then r\<lparr>ob_queuedAt := Some (now E), ob_attempts := Suc (ob_attempts r)\<rparr>
               else if ?bad \<noteq> [] \<and> r = hd ?bad then r\<lparr>ob_attempts := Suc (ob_attempts r), ob_nextAttemptAt := now E + ?d\<rparr>
               else r) (outbox s)"
    unfolding dispatchOutbox_exact(1) [OF assms] by (intro map_cong refl)
  moreover have "\<forall>r\<in>set ?good. queue_ok E (ob_id r) \<or> \<not> to_notify s r"
    by (auto dest!: set_takeWhileD simp: accepted_def)
  moreover have "?bad = [] \<or> to_notify s (hd ?bad) \<and> \<not> queue_ok E (ob_id (hd ?bad))"
    using hd_dropWhile [of "accepted E s" "pending_outbox E s"] by (auto simp: accepted_def)
  ultimately show ?thesis
    using dispatchOutbox_exact(2) [OF assms, of E] retry_delay_bounds [of "ob_attempts (hd ?bad)"]
    by (intro exI [of _ ?good] exI [of _ ?bad] conjI exI [of _ ?d]) simp_all
qed

definition outbox_db :: db where
  "outbox_db = empty_db\<lparr>outbox :=
     [\<lparr>ob_id = ''o1'', ob_payload = \<lparr>jb_action = ''document.publish'', jb_resource = ''document:d1'',
        jb_actor = ''u'', jb_at = ''t''\<rparr>, ob_nextAttemptAt = 5, ob_queuedAt = None, ob_attempts = 9\<rparr>]\<rparr>"

theorem dispatchOutbox_no_loss_witness:
  "\<exists>r'\<in>set (outbox (fst (dispatchOutbox (sample_env\<lparr>queue_ok := \<lambda>_. False\<rparr>) outbox_db))).
     ob_queuedAt r' = None \<and> ob_attempts r' = 10 \<and> 1000 + 30000 \<le> ob_nextAttemptAt r'"
proof -
  let ?E = "sample_env\<lparr>queue_ok := \<lambda>_. False\<rparr>"
  define x where "x = hd (outbox outbox_db)"
  have rows: "outbox outbox_db = [x]" "pending_outbox ?E outbox_db = [x]" "to_notify outbox_db x" unfolding x_def by code_simp+
  have "distinct (map ob_id (outbox outbox_db))" by code_simp
  from dispatchOutbox_no_loss [OF this, of ?E] obtain good bad d where
    g: "pending_outbox ?E outbox_db = good @ bad" "\<forall>r\<in>set good. queue_ok ?E (ob_id r) \<or> \<not> to_notify outbox_db r" "30000 \<le> d"
      "outbox (fst (dispatchOutbox ?E outbox_db)) =
        map (\<lambda>r. if r \<in> set good then r\<lparr>ob_queuedAt := Some (now ?E), ob_attempts := Suc (ob_attempts r)\<rparr>
                 else if bad \<noteq> [] \<and> r = hd bad then r\<lparr>ob_attempts := Suc (ob_attempts r), ob_nextAttemptAt := now ?E + d\<rparr>
                 else r) (outbox outbox_db)"
    by blast
  have "good = []" using g(1,2) rows(2,3) by (cases good) auto
  moreover from this have "bad = [x]" using g(1) rows(2) by simp
  ultimately have "outbox (fst (dispatchOutbox ?E outbox_db)) =
      [x\<lparr>ob_attempts := Suc (ob_attempts x), ob_nextAttemptAt := now ?E + d\<rparr>]" using g(4) rows(1) by simp
  with g(3) show ?thesis by (simp add: x_def outbox_db_def sample_env_def)
qed

text \<open>The dispatcher makes progress. While the queue accepts jobs and at most a hundred rows are
  due, one run leaves no due row behind.\<close>

theorem dispatchOutbox_drains:
  assumes "distinct (map ob_id (outbox s))"
    and "\<And>r. r \<in> set (outbox s) \<Longrightarrow> queue_ok E (ob_id r)"
    and "count_rows (\<lambda>r. ob_queuedAt r = None \<and> ob_nextAttemptAt r \<le> now E) (outbox s) \<le> 100"
    and "r' \<in> set (outbox (fst (dispatchOutbox E s)))" and "ob_queuedAt r' = None"
  shows "now E < ob_nextAttemptAt r'"
proof -
  have ok: "\<forall>e\<in>set (pending_outbox E s). accepted E s e"
    using set_pending_outbox assms(2) by (fastforce simp: accepted_def)
  have rows: "outbox (fst (dispatchOutbox E s)) = map (settled_row E (pending_outbox E s) []) (outbox s)"
  proof -
    have "takeWhile (accepted E s) (pending_outbox E s) = pending_outbox E s" "dropWhile (accepted E s) (pending_outbox E s) = []"
      using ok by (simp_all add: takeWhile_eq_all_conv dropWhile_eq_Nil_conv)
    with dispatchOutbox_exact(1) [OF assms(1), of E] show ?thesis by (simp only:)
  qed
  have pend: "set (pending_outbox E s) =
      {r \<in> set (outbox s). ob_queuedAt r = None \<and> ob_nextAttemptAt r \<le> now E}"
    using assms(3) by (simp add: pending_outbox_def count_rows_def)
  from assms(4) rows obtain r where r: "r \<in> set (outbox s)" "r' = settled_row E (pending_outbox E s) [] r" by auto
  show ?thesis
  proof (cases "ob_id r \<in> ob_id ` set (pending_outbox E s)")
    case True
    with r assms(5) show ?thesis by (simp add: settled_row_def)
  next
    case False
    with r have "r' = r" "r \<notin> set (pending_outbox E s)" by (auto simp: settled_row_def)
    with r(1) assms(5) pend show ?thesis by auto
  qed
qed

definition later_row :: outbox_row where
  "later_row = (hd (outbox outbox_db))\<lparr>ob_id := ''o2'', ob_nextAttemptAt := 9000\<rparr>"

theorem dispatchOutbox_drains_witness:
  "map ob_queuedAt (outbox (fst (dispatchOutbox sample_env (outbox_db\<lparr>outbox := outbox outbox_db @ [later_row]\<rparr>)))) =
     [Some 1000, None] \<and> now sample_env < ob_nextAttemptAt later_row"
proof
  let ?s = "outbox_db\<lparr>outbox := outbox outbox_db @ [later_row]\<rparr>"
  show "map ob_queuedAt (outbox (fst (dispatchOutbox sample_env ?s))) = [Some 1000, None]" by code_simp
  have "distinct (map ob_id (outbox ?s))" "queue_ok sample_env i" "ob_queuedAt later_row = None" for i
    by (simp_all add: outbox_db_def sample_env_def later_row_def)
  moreover have "count_rows (\<lambda>r. ob_queuedAt r = None \<and> ob_nextAttemptAt r \<le> now sample_env) (outbox ?s) \<le> 100"
    "later_row \<in> set (outbox (fst (dispatchOutbox sample_env ?s)))" by code_simp+
  ultimately show "now sample_env < ob_nextAttemptAt later_row"
    using dispatchOutbox_drains [of ?s sample_env later_row] by blast
qed

lemma old_events_prefix:
  assumes "old = find_many ae_occurredAt n p xs" and "e \<in> set old" and "f \<in> set xs" and "p f"
    and "f \<notin> set old"
  shows "ae_occurredAt e \<le> ae_occurredAt f"
proof -
  let ?ys = "sort_key ae_occurredAt (filter p xs)"
  have srt: "sorted (map ae_occurredAt ?ys)" by simp
  have split: "?ys = take n ?ys @ drop n ?ys" by simp
  have "f \<in> set ?ys" using assms(3,4) by simp
  then have "f \<in> set (drop n ?ys)"
    using assms(1,5) unfolding find_many_def by (metis Un_iff set_append split)
  moreover have "e \<in> set (take n ?ys)" using assms(1,2) by (simp add: find_many_def)
  moreover have "sorted (map ae_occurredAt (take n ?ys) @ map ae_occurredAt (drop n ?ys))"
    using srt by (metis map_append split)
  ultimately show ?thesis by (auto simp: sorted_append)
qed

text \<open>The retention of the journal is honoured. Maintenance deletes no event younger than the
  configured number of days, none at all without a positive configuration, the oldest events first,
  and no notification that has not been queued thirty days ago.\<close>

theorem maintainHistory_keeps:
  "e \<in> set (audits s) \<Longrightarrow> distinct (map ae_id (audits s)) \<Longrightarrow> distinct (map ob_id (outbox s)) \<Longrightarrow>
     (days \<le> 0 \<or> now E - days * day_ms \<le> ae_occurredAt e \<longrightarrow> e \<in> set (audits (maintainHistory E s days))) \<and>
     (e \<notin> set (audits (maintainHistory E s days)) \<longrightarrow>
        (\<forall>f\<in>set (audits (maintainHistory E s days)).
           ae_occurredAt f < now E - days * day_ms \<longrightarrow> ae_occurredAt e \<le> ae_occurredAt f)) \<and>
     (\<forall>r\<in>set (outbox s). \<not> some_and (\<lambda>t. t < now E - 30 * day_ms) (ob_queuedAt r) \<longrightarrow>
        r \<in> set (outbox (maintainHistory E s days)))"
proof -
  assume e: "e \<in> set (audits s)" and da: "distinct (map ae_id (audits s))"
    and ob: "distinct (map ob_id (outbox s))"
  let ?p = "\<lambda>e. ae_occurredAt e < now E - days * day_ms"
  let ?q = "\<lambda>r. some_and (\<lambda>t. t < now E - 30 * day_ms) (ob_queuedAt r)"
  define old where "old = (if 0 < days then find_many ae_occurredAt 1000 ?p (audits s) else [])"
  define queued where "queued = take 1000 (filter ?q (outbox s))"
  have old: "set old \<subseteq> {e \<in> set (audits s). ?p e}"
    using set_find_many [of ae_occurredAt 1000 ?p "audits s"] by (auto simp: old_def)
  have queued: "set queued \<subseteq> {r \<in> set (outbox s). ?q r}"
    by (auto simp: queued_def dest: in_set_takeD)
  have id0: "delete_rows (\<lambda>x. False) xs = xs" for xs :: "'x list" by (simp add: delete_rows_def)
  have au: "audits (maintainHistory E s days) = delete_rows (\<lambda>e. ae_id e \<in> ae_id ` set old) (audits s)"
    by (cases "old = []") (simp_all add: maintainHistory_def Let_def id0 flip: old_def)
  have out: "outbox (maintainHistory E s days) = delete_rows (\<lambda>r. ob_id r \<in> ob_id ` set queued) (outbox s)"
    by (cases "old = []"; cases "filter ?q (outbox s) = []")
      (simp_all add: maintainHistory_def Let_def id0 queued_def flip: old_def)
  have kept: "f \<in> set (audits (maintainHistory E s days)) \<longleftrightarrow> f \<notin> set old" if "f \<in> set (audits s)" for f
    using key_unique [OF da that] old that by (auto simp: au set_delete_rows)
  have "r \<in> set (outbox (maintainHistory E s days))" if "r \<in> set (outbox s)" "\<not> ?q r" for r
    using key_unique [OF ob that(1)] queued that by (auto simp: out set_delete_rows)
  moreover have "e \<notin> set old" if "days \<le> 0 \<or> now E - days * day_ms \<le> ae_occurredAt e"
    using that old by (auto simp: old_def split: if_splits)
  moreover have "ae_occurredAt e \<le> ae_occurredAt f"
    if "e \<in> set old" "f \<in> set (audits (maintainHistory E s days))" "?p f" for f
  proof -
    from that(2) have f: "f \<in> set (audits s)" by (simp add: au set_delete_rows)
    with kept that(2) have "f \<notin> set old" by simp
    moreover have "old = find_many ae_occurredAt 1000 ?p (audits s)"
      using that(1) by (auto simp: old_def split: if_splits)
    ultimately show ?thesis using old_events_prefix that(1,3) f by blast
  qed
  ultimately show ?thesis using kept [OF e] by blast
qed

definition history_db :: db where
  "history_db = alert_db\<lparr>audits := [denied_event, denied_event\<lparr>ae_id := ''e2'', ae_occurredAt := - 900000000\<rparr>]\<rparr>"

theorem maintainHistory_keeps_witness:
  "denied_event \<in> set (audits (maintainHistory sample_env history_db 1)) \<and>
   length (audits (maintainHistory sample_env history_db 1)) = 1"
proof
  show "denied_event \<in> set (audits (maintainHistory sample_env history_db 1))"
    using maintainHistory_keeps [of denied_event history_db 1 sample_env]
    by (simp add: history_db_def denied_event_def alert_db_def empty_db_def sample_env_def day_ms_def)
  show "length (audits (maintainHistory sample_env history_db 1)) = 1" by code_simp
qed

end
