(* ===== verification/Document_Workflow.thy ===== *)
theory Document_Workflow
  imports Audit_Event
begin

text \<open>
  Publication and review of documents: version labels (\<^verbatim>\<open>apps/api/src/version-label.ts\<close>), document
  types with numbering and required fields (\<^verbatim>\<open>document-types.ts\<close>), the publication transaction
  (\<^verbatim>\<open>publication-review.ts\<close>) and the review decision transaction (\<^verbatim>\<open>review-decision.ts\<close>). A
  transaction that raises leaves the state it started from.
\<close>

section \<open>Version labels\<close>

definition versionLabel :: "version_row \<Rightarrow> string" where
  "versionLabel v = string_of_int (ver_versionMajor v) @ ''.'' @ string_of_int (ver_versionMinor v)"

definition locale_versions :: "version_row list \<Rightarrow> string \<Rightarrow> version_row list" where
  "locale_versions vs l = filter (\<lambda>v. ver_locale v = l) vs"

definition latest_version :: "version_row list \<Rightarrow> version_row" where
  "latest_version vs = foldl (\<lambda>x y. if ver_version x < ver_version y then y else x) (hd vs) (tl vs)"

definition promote_locale :: "version_row list \<Rightarrow> version_row list \<Rightarrow> version_row list" where
  "promote_locale lvs rows =
     (if ver_versionMinor (latest_version lvs) = 0 then rows
      else update_rows (\<lambda>v. ver_id v = ver_id (latest_version lvs))
        (\<lambda>v. v\<lparr>ver_versionMajor := Max (ver_versionMajor ` set lvs) + 1, ver_versionMinor := 0\<rparr>) rows)"

definition promoteLatestToMajor :: "db \<Rightarrow> string \<Rightarrow> db" where
  "promoteLatestToMajor s documentId =
     (let vs = filter (\<lambda>v. ver_documentId v = documentId) (versions s)
      in s\<lparr>versions := foldl (\<lambda>rows l. promote_locale (locale_versions vs l) rows) (versions s)
             (new_set (map ver_locale vs))\<rparr>)"

section \<open>Document types\<close>

definition DOCUMENT_TYPE_KEY :: string where
  "DOCUMENT_TYPE_KEY = ''ged.documentType''"

definition REFERENCE_KEY :: string where
  "REFERENCE_KEY = ''ged.reference''"

text \<open>\<open>metadata[key]?.trim()\<close>, with the empty string for a missing key.\<close>

definition metadata_text :: "json \<Rightarrow> string \<Rightarrow> string" where
  "metadata_text m k = (case json_get k m of Some (JStr t) \<Rightarrow> trim t | _ \<Rightarrow> [])"

text \<open>\<open>{...metadata, [key]: value}\<close>.\<close>

definition json_set :: "string \<Rightarrow> json \<Rightarrow> json \<Rightarrow> json" where
  "json_set k v m =
     (case m of
        JObj kvs \<Rightarrow>
          JObj (if k \<in> fst ` set kvs then map (\<lambda>(k', v'). (k', if k' = k then v else v')) kvs
                else kvs @ [(k, v)])
      | _ \<Rightarrow> JObj [(k, v)])"

definition missingFields :: "doctype_row \<Rightarrow> json \<Rightarrow> string list" where
  "missingFields type metadata = filter (\<lambda>f. metadata_text metadata f = []) (dt_requiredFields type)"

definition findType :: "db \<Rightarrow> json \<Rightarrow> doctype_row option" where
  "findType s metadata =
     (let slug = metadata_text metadata DOCUMENT_TYPE_KEY
      in if slug = [] then None
         else find_first (\<lambda>t. dt_slug t = slug \<and> dt_deletedAt t = None) (doctypes s))"

definition type_reference :: "doctype_row \<Rightarrow> string" where
  "type_reference type =
     the (dt_referencePrefix type) @ ''-'' @ padStart 3 CHR ''0'' (string_of_int (dt_nextNumber type))"

definition needs_reference :: "doctype_row \<Rightarrow> json \<Rightarrow> bool" where
  "needs_reference type metadata =
     (some_and (\<lambda>p. p \<noteq> []) (dt_referencePrefix type) \<and> metadata_text metadata REFERENCE_KEY = [])"

definition applyDocumentType :: "db \<Rightarrow> json \<Rightarrow> db \<times> json outcome" where
  "applyDocumentType s metadata =
     (case findType s metadata of
        None \<Rightarrow> (s, Inr metadata)
      | Some type \<Rightarrow>
          (let numbered = needs_reference type metadata;
               s' = (if numbered
                     then s\<lparr>doctypes := update_rows (\<lambda>t. dt_id t = dt_id type)
                            (\<lambda>t. t\<lparr>dt_nextNumber := dt_nextNumber t + 1\<rparr>) (doctypes s)\<rparr> else s);
               result = (if numbered then json_set REFERENCE_KEY (JStr (type_reference type)) metadata
                         else metadata);
               missing = missingFields type result
           in if missing \<noteq> []
              then (s', Inl (BadRequest (''Required fields for type '' @ dt_nameFr type @ '': '' @
                       join '', '' missing)))
              else (s', Inr result)))"

definition assertDocumentTypeComplete :: "db \<Rightarrow> string \<Rightarrow> unit outcome" where
  "assertDocumentTypeComplete s documentId =
     (let metadata = (case find_first (\<lambda>d. doc_id d = documentId) (documents s) of
              None \<Rightarrow> JObj []
            | Some d \<Rightarrow> doc_metadata d)
      in case findType s metadata of
           None \<Rightarrow> Inr ()
         | Some type \<Rightarrow>
             (let missing = missingFields type metadata
              in if missing \<noteq> []
                 then Inl (Conflict (''Complete the required fields of type '' @ dt_nameFr type @
                        '' before publishing: '' @ join '', '' missing))
                 else Inr ()))"

section \<open>Publication\<close>

record publish_audit =
  pa_request :: request
  pa_action :: string
  pa_details :: "json option"
  pa_notify :: bool

definition publishable :: "document_row \<Rightarrow> bool" where
  "publishable d = (doc_deletedAt d = None \<and> doc_status d \<noteq> PUBLISHED)"

definition publish_row :: "time \<Rightarrow> document_row \<Rightarrow> document_row" where
  "publish_row publishedAt d = d\<lparr>doc_status := PUBLISHED, doc_publishedAt := Some publishedAt\<rparr>"

definition publication_review :: "env \<Rightarrow> db \<Rightarrow> string \<Rightarrow> string option \<Rightarrow> time \<Rightarrow> review_row" where
  "publication_review E s documentId versionId publishedAt =
     \<lparr>rv_id = uuid E (uuid_next s), rv_documentId = documentId, rv_versionId = versionId,
      rv_owner = ''ISMS scheduler'', rv_reviewer = ''ISMS moderators'',
      rv_approver = ''ISMS administrators'', rv_status = RvPending,
      rv_dueAt = publishedAt + 30 * 86400000, rv_decisionComment = None, rv_decidedBy = None,
      rv_decidedAt = None, rv_automaticAnnual = False, rv_automaticPublication = True,
      rv_createdAt = now E, rv_evidenceObjectKey = None, rv_evidenceOriginalName = None,
      rv_evidenceMimeType = None, rv_evidenceSize = None, rv_evidenceSha256 = None\<rparr>"

definition audit_publication ::
    "env \<Rightarrow> db \<Rightarrow> string \<Rightarrow> review_row option \<Rightarrow> publish_audit option \<Rightarrow> db \<times> audit_row list" where
  "audit_publication E s documentId review audit =
     (case audit of
        None \<Rightarrow> (s, [])
      | Some a \<Rightarrow>
          (let (s1, e1) = persistAudit E s (pa_request a) (pa_action a) (''document:'' @ documentId) Success
                 (pa_details a) (pa_notify a)
           in case review of
                None \<Rightarrow> (s1, [e1])
              | Some r \<Rightarrow>
                  (let (s2, e2) = persistAudit E s1 (pa_request a) ''document-review.create''
                         (''document-review:'' @ rv_id r) Success
                         (Some (JObj [(''documentId'', JStr documentId), (''dueAt'', JDate (rv_dueAt r))]))
                         (pa_notify a)
                   in (s2, [e1, e2]))))"

definition publishWithReview ::
    "env \<Rightarrow> db \<Rightarrow> string \<Rightarrow> string option \<Rightarrow> bool \<Rightarrow> time \<Rightarrow> publish_audit option \<Rightarrow>
     db \<times> (document_row \<times> review_row option \<times> audit_row list) outcome" where
  "publishWithReview E s documentId versionId firstPublication publishedAt audit =
     (case assertDocumentTypeComplete s documentId of
        Inl e \<Rightarrow> (s, Inl e)
      | Inr _ \<Rightarrow>
          (case claim (\<lambda>d. doc_id d = documentId \<and> publishable d) (publish_row publishedAt) (documents s) of
             None \<Rightarrow> (s, Inl (Conflict ''Document is already published''))
           | Some docs \<Rightarrow>
               (let s1 = promoteLatestToMajor (s\<lparr>documents := docs\<rparr>) documentId;
                    review = (if firstPublication
                              then Some (publication_review E s1 documentId versionId publishedAt) else None);
                    s2 = (case review of None \<Rightarrow> s1
                          | Some r \<Rightarrow> s1\<lparr>reviews := reviews s1 @ [r], uuid_next := Suc (uuid_next s1)\<rparr>);
                    (s3, events) = audit_publication E s2 documentId review audit
                in (case find_first (\<lambda>d. doc_id d = documentId) (documents s3) of
                      None \<Rightarrow> (s, Inl NotFound)
                    | Some d \<Rightarrow> (s3, Inr (d, review, events))))))"

section \<open>Review decisions\<close>

definition review_open :: "review_row \<Rightarrow> bool" where
  "review_open r = (rv_status r = RvPending \<or> rv_status r = RvInReview)"

record review_decision =
  rd_status :: review_status
  rd_comment :: string
  rd_actor :: string
  rd_at :: time

text \<open>The statuses that \<open>ReviewDecisionDto\<close> lets through; all but \<open>IN_REVIEW\<close> close the review.\<close>

definition decision_closes :: "review_decision \<Rightarrow> bool" where
  "decision_closes d = (rd_status d \<in> {RvApproved, RvRejected, RvCancelled})"

definition valid_decision :: "review_decision \<Rightarrow> bool" where
  "valid_decision d = (rd_status d \<noteq> RvPending)"

definition decide_review :: "review_decision \<Rightarrow> review_row \<Rightarrow> review_row" where
  "decide_review d r =
     (let closed = rd_status d \<noteq> RvInReview
      in r\<lparr>rv_status := rd_status d, rv_decisionComment := Some (trim (rd_comment d)),
           rv_decidedBy := (if closed then Some (rd_actor d) else None),
           rv_decidedAt := (if closed then Some (rd_at d) else None)\<rparr>)"

text \<open>The consequences of a rejection: the document is archived and its other open reviews cancelled.\<close>

definition archivable :: "string \<Rightarrow> document_row \<Rightarrow> bool" where
  "archivable documentId d = (doc_id d = documentId \<and> doc_status d \<noteq> ARCHIVED \<and> doc_deletedAt d = None)"

definition archive_row :: "document_row \<Rightarrow> document_row" where
  "archive_row d = d\<lparr>doc_status := ARCHIVED\<rparr>"

definition other_open :: "string \<Rightarrow> string \<Rightarrow> review_row \<Rightarrow> bool" where
  "other_open i documentId r = (rv_documentId r = documentId \<and> rv_id r \<noteq> i \<and> review_open r)"

definition cancel_review :: "review_decision \<Rightarrow> review_row \<Rightarrow> review_row" where
  "cancel_review d r =
     r\<lparr>rv_status := RvCancelled, rv_decisionComment := Some ''Closed after document rejection'',
       rv_decidedBy := Some (rd_actor d),
       rv_decidedAt := (if rd_status d \<noteq> RvInReview then Some (rd_at d) else None)\<rparr>"

definition reject_document :: "db \<Rightarrow> string \<Rightarrow> string \<Rightarrow> review_decision \<Rightarrow> db \<times> bool" where
  "reject_document s i documentId d =
     (s\<lparr>documents := update_rows (archivable documentId) archive_row (documents s),
        reviews := update_rows (other_open i documentId) (cancel_review d) (reviews s)\<rparr>,
      count_rows (archivable documentId) (documents s) = 1)"

definition renew_review_date :: "time \<Rightarrow> version_row \<Rightarrow> version_row" where
  "renew_review_date decidedAt v =
     v\<lparr>ver_annualReviewDueAt := Some (addFullYear decidedAt), ver_annualReviewNotifiedAt := None,
       ver_annualReviewReminderAt := None, ver_annualReviewOverdueAt := None\<rparr>"

definition recordReviewDecision ::
    "db \<Rightarrow> string \<Rightarrow> string \<Rightarrow> review_decision \<Rightarrow> db \<times> (review_row \<times> bool) outcome" where
  "recordReviewDecision s i documentId d =
     (case claim (\<lambda>r. rv_id r = i \<and> review_open r) (decide_review d) (reviews s) of
        None \<Rightarrow> (s, Inl (Conflict ''Review already closed''))
      | Some rows \<Rightarrow>
          (case find_first (\<lambda>r. rv_id r = i) rows of
             None \<Rightarrow> (s, Inl NotFound)
           | Some review \<Rightarrow>
               (let s1 = s\<lparr>reviews := rows\<rparr>;
                    (s2, archived) = (if rd_status d = RvRejected then reject_document s1 i documentId d
                                      else (s1, False))
                in if rd_status d = RvApproved \<and>
                      (rv_automaticAnnual review \<or> rv_automaticPublication review) \<and>
                      some_and (\<lambda>v. v \<noteq> []) (rv_versionId review)
                   then (if \<exists>v\<in>set (versions s2). Some (ver_id v) = rv_versionId review
                         then (s2\<lparr>versions := update_rows (\<lambda>v. Some (ver_id v) = rv_versionId review)
                                  (renew_review_date (rd_at d)) (versions s2)\<rparr>, Inr (review, archived))
                         else (s, Inl (InternalError ''Record to update not found'')))
                   else (s2, Inr (review, archived)))))"

section \<open>The claims of the two transactions\<close>

interpretation publication: claim_once doc_id publishable "\<lambda>_ :: time. True" publish_row
  by unfold_locales (simp_all add: publish_row_def publishable_def)

interpretation review: claim_once rv_id review_open decision_closes decide_review
  by unfold_locales (auto simp: decision_closes_def decide_review_def review_open_def Let_def)

section \<open>Labels\<close>

lemma latest_version_max:
  assumes "vs \<noteq> []"
  shows "latest_version vs \<in> set vs \<and> (\<forall>v\<in>set vs. ver_version v \<le> ver_version (latest_version vs))"
proof -
  have "foldl (\<lambda>x y. if ver_version x < ver_version y then y else x) a ws \<in> set (a # ws) \<and>
      (\<forall>v\<in>set (a # ws). ver_version v \<le>
        ver_version (foldl (\<lambda>x y. if ver_version x < ver_version y then y else x) a ws))" for a ws
  proof (induction ws arbitrary: a)
    case Nil
    then show ?case by simp
  next
    case (Cons w ws)
    show ?case
      using Cons.IH [of a] Cons.IH [of w] by (cases "ver_version a < ver_version w") fastforce+
  qed
  from this [of "hd vs" "tl vs"] assms show ?thesis by (simp add: latest_version_def)
qed

definition document_versions :: "db \<Rightarrow> string \<Rightarrow> string \<Rightarrow> version_row list" where
  "document_versions s documentId l = filter (\<lambda>v. ver_documentId v = documentId \<and> ver_locale v = l) (versions s)"

text \<open>What promotion does to one row, in one step.\<close>

definition promoted :: "db \<Rightarrow> string \<Rightarrow> version_row \<Rightarrow> version_row" where
  "promoted s documentId v =
     (let lvs = document_versions s documentId (ver_locale v)
      in if ver_documentId v = documentId \<and> v = latest_version lvs \<and> ver_versionMinor v \<noteq> 0
         then v\<lparr>ver_versionMajor := Max (ver_versionMajor ` set lvs) + 1, ver_versionMinor := 0\<rparr> else v)"

lemma foldl_map_rows: "foldl (\<lambda>rows l. map (g l) rows) rows ls = map (\<lambda>v. foldl (\<lambda>v l. g l v) v ls) rows"
  by (induction ls arbitrary: rows) (simp_all add: comp_def)

lemma foldl_own_key:
  assumes "distinct ls" and "P v" and "\<And>l v. P v \<Longrightarrow> P (g l v)" and "\<And>l v. key (g l v) = key v"
    and "\<And>l v. l \<in> set ls \<Longrightarrow> P v \<Longrightarrow> key v \<noteq> l \<Longrightarrow> g l v = v"
  shows "foldl (\<lambda>v l. g l v) v ls = (if key v \<in> set ls then g (key v) v else v)"
  using assms(1,2,5)
proof (induction ls arbitrary: v)
  case Nil
  then show ?case by simp
next
  case (Cons l ls)
  have IH: "foldl (\<lambda>v l. g l v) (g l v) ls = (if key v \<in> set ls then g (key v) (g l v) else g l v)"
    using Cons.IH [of "g l v"] Cons.prems assms(3) assms(4) by simp
  show ?case
  proof (cases "key v = l")
    case True
    with IH Cons.prems(1) show ?thesis by auto
  next
    case False
    with IH Cons.prems(3) [OF _ Cons.prems(2) False] show ?thesis by auto
  qed
qed

lemma locale_versions_document:
  "locale_versions (filter (\<lambda>v. ver_documentId v = d) (versions s)) l = document_versions s d l"
  by (simp add: locale_versions_def document_versions_def conj_commute)

lemma promoteLatestToMajor_rows:
  assumes "distinct (map ver_id (versions s))"
  shows "versions (promoteLatestToMajor s d) = map (promoted s d) (versions s)"
proof -
  let ?vs = "filter (\<lambda>v. ver_documentId v = d) (versions s)"
  define g where "g l v = (if ver_versionMinor (latest_version (document_versions s d l)) \<noteq> 0 \<and>
      ver_id v = ver_id (latest_version (document_versions s d l))
    then v\<lparr>ver_versionMajor := Max (ver_versionMajor ` set (document_versions s d l)) + 1,
           ver_versionMinor := 0\<rparr> else v)" for l and v :: version_row
  define P where "P v \<longleftrightarrow> (\<forall>l\<in>set (map ver_locale ?vs).
    ver_id v = ver_id (latest_version (document_versions s d l)) \<longrightarrow> ver_locale v = l)" for v :: version_row
  have latest: "latest_version (document_versions s d l) \<in> set (document_versions s d l)"
    if "l \<in> set (map ver_locale ?vs)" for l
    using that latest_version_max [of "document_versions s d l"]
    by (fastforce simp: document_versions_def filter_empty_conv)
  have uniq: "v = latest_version (document_versions s d l)"
    if "v \<in> set (versions s)" "l \<in> set (map ver_locale ?vs)"
      "ver_id v = ver_id (latest_version (document_versions s d l))" for v l
    using key_unique [OF assms that(1), of "latest_version (document_versions s d l)"] latest [OF that(2)] that(3)
    by (simp add: document_versions_def)
  have P: "P v" if "v \<in> set (versions s)" for v
    unfolding P_def
  proof (intro ballI impI)
    fix l
    assume l: "l \<in> set (map ver_locale ?vs)"
      and i: "ver_id v = ver_id (latest_version (document_versions s d l))"
    from uniq [OF that l i] latest [OF l] show "ver_locale v = l" by (simp add: document_versions_def)
  qed
  have fold: "foldl (\<lambda>v l. g l v) v ls = (if ver_locale v \<in> set ls then g (ver_locale v) v else v)"
    if "distinct ls" "P v" "set ls \<subseteq> set (map ver_locale ?vs)" for v ls
    using that by (intro foldl_own_key [where P = P]) (auto simp: P_def g_def)
  have "foldl (\<lambda>rows l. promote_locale (locale_versions ?vs l) rows) rows ls =
      foldl (\<lambda>rows l. map (g l) rows) rows ls" for rows ls
    by (induction ls arbitrary: rows)
      (simp_all add: promote_locale_def locale_versions_document g_def update_rows_def cong: if_cong map_cong)
  then have "versions (promoteLatestToMajor s d) =
      map (\<lambda>v. foldl (\<lambda>v l. g l v) v (new_set (map ver_locale ?vs))) (versions s)"
    by (simp add: promoteLatestToMajor_def Let_def foldl_map_rows)
  also have "\<dots> = map (promoted s d) (versions s)"
  proof (rule map_cong [OF refl])
    fix v
    assume v: "v \<in> set (versions s)"
    have "foldl (\<lambda>v l. g l v) v (new_set (map ver_locale ?vs)) =
        (if ver_locale v \<in> set (map ver_locale ?vs) then g (ver_locale v) v else v)"
      using fold [OF _ P [OF v]] by simp
    also have "\<dots> = promoted s d v"
    proof (cases "ver_locale v \<in> set (map ver_locale ?vs)")
      case True
      define w where "w = latest_version (document_versions s d (ver_locale v))"
      have same: "v = w \<longleftrightarrow> ver_id v = ver_id w" using uniq [OF v True] unfolding w_def by metis
      have w: "ver_documentId w = d" using latest [OF True] by (simp add: w_def document_versions_def)
      have "ver_id v = ver_id w \<Longrightarrow> ver_documentId v = d \<and> ver_versionMinor v = ver_versionMinor w"
        using same w by blast
      then show ?thesis
        unfolding if_P [OF True] promoted_def g_def Let_def w_def [symmetric] same by (metis (no_types, lifting))
    next
      case False
      with v show ?thesis by (auto simp: promoted_def Let_def)
    qed
    finally show "foldl (\<lambda>v l. g l v) v (new_set (map ver_locale ?vs)) = promoted s d v" .
  qed
  finally show ?thesis .
qed

lemma promoted_simps [simp]:
  "ver_id (promoted s d v) = ver_id v" "ver_documentId (promoted s d v) = ver_documentId v"
  "ver_locale (promoted s d v) = ver_locale v" "ver_version (promoted s d v) = ver_version v"
  by (simp_all add: promoted_def Let_def)

lemma promoted_other:
  "ver_documentId v \<noteq> d \<or> v \<noteq> latest_version (document_versions s d (ver_locale v)) \<Longrightarrow> promoted s d v = v"
  by (auto simp: promoted_def Let_def)

text \<open>The displayed labels follow the order of the versions of a document in a language.\<close>

definition label_less :: "version_row \<Rightarrow> version_row \<Rightarrow> bool" where
  "label_less v w \<longleftrightarrow> ver_versionMajor v < ver_versionMajor w \<or>
     ver_versionMajor v = ver_versionMajor w \<and> ver_versionMinor v < ver_versionMinor w"

definition labels_increase :: "db \<Rightarrow> bool" where
  "labels_increase s \<longleftrightarrow>
     (\<forall>v\<in>set (versions s). \<forall>w\<in>set (versions s).
        ver_documentId v = ver_documentId w \<longrightarrow> ver_locale v = ver_locale w \<longrightarrow>
        ver_version v < ver_version w \<longrightarrow> label_less v w)"

definition version_keys :: "db \<Rightarrow> (string \<times> string \<times> int) list" where
  "version_keys s = map (\<lambda>v. (ver_documentId v, ver_locale v, ver_version v)) (versions s)"

lemma promoted_latest:
  assumes "v \<in> set (document_versions s d l)" and "v = latest_version (document_versions s d l)"
  shows "ver_versionMinor (promoted s d v) = 0"
    and "ver_versionMinor v \<noteq> 0 \<Longrightarrow> w \<in> set (document_versions s d l) \<Longrightarrow>
      ver_versionMajor w < ver_versionMajor (promoted s d v)"
proof -
  have vl: "ver_documentId v = d" "ver_locale v = l" using assms(1) by (simp_all add: document_versions_def)
  have p: "promoted s d v = (if ver_versionMinor v \<noteq> 0
      then v\<lparr>ver_versionMajor := Max (ver_versionMajor ` set (document_versions s d l)) + 1, ver_versionMinor := 0\<rparr>
      else v)"
    unfolding promoted_def Let_def vl using assms(2) by simp
  show "ver_versionMinor (promoted s d v) = 0" by (simp add: p)
  show "ver_versionMajor w < ver_versionMajor (promoted s d v)"
    if "ver_versionMinor v \<noteq> 0" "w \<in> set (document_versions s d l)"
    using that Max_ge [of "ver_versionMajor ` set (document_versions s d l)" "ver_versionMajor w"]
    by (simp add: p)
qed

lemma latest_document_version:
  assumes "x \<in> set (document_versions s d l)"
  defines "w \<equiv> latest_version (document_versions s d l)"
  shows "w \<in> set (document_versions s d l)" "ver_version x \<le> ver_version w"
proof -
  have "document_versions s d l \<noteq> []" using assms(1) by auto
  from latest_version_max [OF this] assms(1) show "w \<in> set (document_versions s d l)"
    "ver_version x \<le> ver_version w" by (simp_all add: w_def)
qed

lemma older_than_latest:
  assumes "distinct (version_keys s)" and "v \<in> set (versions s)" and "ver_documentId v = d"
    and "v \<noteq> latest_version (document_versions s d (ver_locale v))"
  shows "ver_version v < ver_version (latest_version (document_versions s d (ver_locale v)))"
proof -
  define w where "w = latest_version (document_versions s d (ver_locale v))"
  have m: "v \<in> set (document_versions s d (ver_locale v))" using assms by (simp add: document_versions_def)
  note l = latest_document_version [OF m, folded w_def]
  have "w \<in> set (versions s)" "ver_documentId w = d" "ver_locale w = ver_locale v"
    using l(1) by (simp_all add: document_versions_def)
  then have "ver_version v \<noteq> ver_version w"
    using key_unique [OF assms(1) [unfolded version_keys_def] assms(2), of w] assms(3,4) by (auto simp: w_def)
  with l(2) show ?thesis by (simp add: w_def)
qed

lemma promoted_label_less:
  assumes "labels_increase s" and vw: "v \<in> set (versions s)" "w \<in> set (versions s)"
    "ver_documentId v = ver_documentId w" "ver_locale v = ver_locale w" "ver_version v < ver_version w"
  shows "label_less (promoted s d v) (promoted s d w)"
proof -
  have base: "label_less v w" using assms unfolding labels_increase_def by blast
  have v: "promoted s d v = v"
  proof (cases "ver_documentId v = d")
    case True
    then have "w \<in> set (document_versions s d (ver_locale v))" using vw by (simp add: document_versions_def)
    from latest_document_version(2) [OF this] vw(5)
    have "v \<noteq> latest_version (document_versions s d (ver_locale v))" by fastforce
    then show ?thesis by (simp add: promoted_other)
  qed (simp add: promoted_other)
  show ?thesis
  proof (cases "promoted s d w = w")
    case True
    with v base show ?thesis by simp
  next
    case False
    then have w: "ver_documentId w = d" "w = latest_version (document_versions s d (ver_locale w))"
      using promoted_other by blast+
    have minor: "ver_versionMinor w \<noteq> 0" using False by (auto simp: promoted_def Let_def split: if_splits)
    have "w \<in> set (document_versions s d (ver_locale w))" "v \<in> set (document_versions s d (ver_locale w))"
      using vw w(1) by (simp_all add: document_versions_def)
    from promoted_latest(2) [OF this(1) w(2) minor this(2)] v show ?thesis by (simp add: label_less_def)
  qed
qed

text \<open>Publication turns the latest draft into a major version and keeps the labels in order. After
  promotion the latest version of the document in every language carries a label of the form
  \<open>n.0\<close>, every other version is unchanged, and labels still increase with the version number.\<close>

theorem promoteLatestToMajor_labels:
  assumes "distinct (map ver_id (versions s))" and "distinct (version_keys s)" and "labels_increase s"
  shows "labels_increase (promoteLatestToMajor s d) \<and>
    (\<forall>v\<in>set (versions s).
       if ver_documentId v = d \<and> (\<forall>w\<in>set (document_versions s d (ver_locale v)). ver_version w \<le> ver_version v)
       then \<exists>v'\<in>set (versions (promoteLatestToMajor s d)). ver_id v' = ver_id v \<and> ver_versionMinor v' = 0
       else v \<in> set (versions (promoteLatestToMajor s d)))"
proof -
  note rows = promoteLatestToMajor_rows [OF assms(1), of d]
  have "labels_increase (promoteLatestToMajor s d)"
    unfolding labels_increase_def rows using promoted_label_less [OF assms(3)] by auto
  moreover have "\<exists>v'\<in>set (versions (promoteLatestToMajor s d)). ver_id v' = ver_id v \<and> ver_versionMinor v' = 0"
    if v: "v \<in> set (versions s)" "ver_documentId v = d"
      "\<forall>w\<in>set (document_versions s d (ver_locale v)). ver_version w \<le> ver_version v" for v
  proof -
    have m: "v \<in> set (document_versions s d (ver_locale v))" using v by (simp add: document_versions_def)
    have "v = latest_version (document_versions s d (ver_locale v))"
      using older_than_latest [OF assms(2) v(1,2)] v(3) latest_document_version(1) [OF m] by fastforce
    from promoted_latest(1) [OF m this] v(1) show ?thesis unfolding rows by force
  qed
  moreover have "v \<in> set (versions (promoteLatestToMajor s d))"
    if v: "v \<in> set (versions s)" "ver_documentId v \<noteq> d \<or>
      (\<exists>w\<in>set (document_versions s d (ver_locale v)). ver_version v < ver_version w)" for v
  proof -
    have "ver_documentId v \<noteq> d \<or> v \<noteq> latest_version (document_versions s d (ver_locale v))"
      using v latest_document_version(2) by fastforce
    then have "promoted s d v = v" by (rule promoted_other)
    with v(1) show ?thesis unfolding rows by force
  qed
  ultimately show ?thesis by (auto simp: not_le)
qed

definition two_drafts_db :: db where
  "two_drafts_db = sample_db\<lparr>versions :=
     [sample_version, sample_version\<lparr>ver_id := ''v2'', ver_version := 2, ver_versionMinor := 2\<rparr>]\<rparr>"

theorem promoteLatestToMajor_labels_witness:
  "sample_version \<in> set (versions (promoteLatestToMajor two_drafts_db ''d1'')) \<and>
   map versionLabel (versions (promoteLatestToMajor two_drafts_db ''d1'')) = [''0.1'', ''1.0'']"
proof
  have v: "versions two_drafts_db =
      [sample_version, sample_version\<lparr>ver_id := ''v2'', ver_version := 2, ver_versionMinor := 2\<rparr>]"
    by (simp add: two_drafts_db_def)
  have "distinct (map ver_id (versions two_drafts_db))" "distinct (version_keys two_drafts_db)"
    "labels_increase two_drafts_db"
    by (simp_all add: v version_keys_def labels_increase_def sample_version_def label_less_def)
  from promoteLatestToMajor_labels [OF this, of "''d1''"]
  show "sample_version \<in> set (versions (promoteLatestToMajor two_drafts_db ''d1''))"
    by (simp add: v document_versions_def sample_version_def)
  show "map versionLabel (versions (promoteLatestToMajor two_drafts_db ''d1'')) = [''0.1'', ''1.0'']"
    by code_simp
qed

section \<open>Types\<close>

lemma map_of_replace:
  "map_of (map (\<lambda>(k', v'). (k', if k' = k then v else v')) kvs) k' =
     (if k' = k then map_option (\<lambda>_. v) (map_of kvs k) else map_of kvs k')"
  by (induction kvs) (auto simp: case_prod_beta)

lemma json_get_set: "json_get k' (json_set k v m) = (if k' = k then Some v else json_get k' m)"
proof (cases m)
  case (JObj kvs)
  show ?thesis
  proof (cases "k \<in> fst ` set kvs")
    case True
    then obtain b where "map_of (rev kvs) k = Some b"
      by (metis map_of_eq_None_iff not_None_eq set_rev)
    with JObj True show ?thesis by (simp add: json_get_def json_set_def rev_map map_of_replace)
  next
    case False
    with JObj show ?thesis by (simp add: json_get_def json_set_def)
  qed
qed (auto simp: json_get_def json_set_def)

lemma metadata_text_set:
  "metadata_text (json_set k (JStr t) m) k' = (if k' = k then trim t else metadata_text m k')"
  by (simp add: metadata_text_def json_get_set)

lemma findType_set_reference [simp]: "findType s (json_set REFERENCE_KEY v m) = findType s m"
  by (simp add: findType_def metadata_text_def json_get_set DOCUMENT_TYPE_KEY_def REFERENCE_KEY_def)

lemma findType_doctypes: "doctypes s' = doctypes s \<Longrightarrow> findType s' m = findType s m"
  by (simp add: findType_def Let_def)

lemma string_of_int_inj:
  "0 \<le> i \<Longrightarrow> 0 \<le> j \<Longrightarrow> padStart k CHR ''0'' (string_of_int i) = padStart k CHR ''0'' (string_of_int j) \<Longrightarrow> i = j"
  by (metis digits_value_string_of_nat digits_value_zeros nat_0_le not_less padStart_def string_of_int_def)

text \<open>Numbering. When a type numbers its documents, a document without a reference receives the
  prefix and the next number, the counter of that type moves on by one and no other type is touched;
  a later document of the same type receives a different reference.\<close>

theorem applyDocumentType_numbering:
  assumes "findType s m = Some type" and "needs_reference type m"
    and "applyDocumentType s m = (s', Inr m')" and "distinct (map dt_id (doctypes s))"
    and "0 \<le> dt_nextNumber type"
  shows "json_get REFERENCE_KEY m' = Some (JStr (type_reference type)) \<and>
    (\<forall>t\<in>set (doctypes s).
       (if t = type then t\<lparr>dt_nextNumber := dt_nextNumber t + 1\<rparr> else t) \<in> set (doctypes s')) \<and>
    (\<forall>k>dt_nextNumber type. type_reference (type\<lparr>dt_nextNumber := k\<rparr>) \<noteq> type_reference type)"
proof -
  have t: "type \<in> set (doctypes s)"
    using assms(1) by (auto simp: findType_def Let_def dest: find_first_Some split: if_splits)
  have s': "doctypes s' = update_rows (\<lambda>t. dt_id t = dt_id type)
      (\<lambda>t. t\<lparr>dt_nextNumber := dt_nextNumber t + 1\<rparr>) (doctypes s)"
    and m': "m' = json_set REFERENCE_KEY (JStr (type_reference type)) m"
    using assms(1-3) by (auto simp: applyDocumentType_def Let_def split: if_splits)
  have "(if x = type then x\<lparr>dt_nextNumber := dt_nextNumber x + 1\<rparr> else x) \<in> set (doctypes s')"
    if "x \<in> set (doctypes s)" for x
    using key_unique [OF assms(4) that t] that by (force simp: s' set_update_rows)
  moreover have "type_reference (type\<lparr>dt_nextNumber := k\<rparr>) \<noteq> type_reference type"
    if "dt_nextNumber type < k" for k
    using string_of_int_inj [of k "dt_nextNumber type" 3] assms(5) that by (auto simp: type_reference_def)
  ultimately show ?thesis by (simp add: m' json_get_set)
qed

definition numbered_type :: doctype_row where
  "numbered_type = \<lparr>dt_id = ''t1'', dt_slug = ''policy'', dt_nameFr = ''Politique'', dt_nameEn = ''Policy'',
     dt_requiredFields = [''owner'', ''ged.reference''], dt_referencePrefix = Some ''POL'',
     dt_nextNumber = 7, dt_deletedAt = None\<rparr>"

definition typed_db :: db where
  "typed_db = sample_db\<lparr>doctypes := [numbered_type]\<rparr>"

definition typed_metadata :: json where
  "typed_metadata = JObj [(''ged.documentType'', JStr '' policy''), (''owner'', JStr ''dpo'')]"

theorem applyDocumentType_numbering_witness:
  "json_get REFERENCE_KEY (projr (snd (applyDocumentType typed_db typed_metadata))) = Some (JStr ''POL-007'') \<and>
   map dt_nextNumber (doctypes (fst (applyDocumentType typed_db typed_metadata))) = [8]"
proof
  obtain s' m' where a: "applyDocumentType typed_db typed_metadata = (s', m')" by fastforce
  have "findType typed_db typed_metadata = Some numbered_type" "needs_reference numbered_type typed_metadata"
    "distinct (map dt_id (doctypes typed_db))" "0 \<le> dt_nextNumber numbered_type"
    "type_reference numbered_type = ''POL-007''" "\<not> isl (snd (applyDocumentType typed_db typed_metadata))"
    by code_simp+
  with applyDocumentType_numbering [of typed_db typed_metadata numbered_type s' "projr m'"] a
  show "json_get REFERENCE_KEY (projr (snd (applyDocumentType typed_db typed_metadata))) =
      Some (JStr ''POL-007'')" by (cases m') auto
  show "map dt_nextNumber (doctypes (fst (applyDocumentType typed_db typed_metadata))) = [8]" by code_simp
qed

text \<open>What passes at deposit passes at publication. Metadata that \<open>applyDocumentType\<close> accepts never
  blocks the publication of a document that stores it, while the type keeps its required fields.\<close>

theorem applyDocumentType_then_publishable:
  assumes "applyDocumentType s m = (s', Inr m')"
    and "find_first (\<lambda>d. doc_id d = i) (documents s'') = Some doc" and "doc_metadata doc = m'"
    and "map_option dt_requiredFields (findType s'' m') = map_option dt_requiredFields (findType s m')"
  shows "assertDocumentTypeComplete s'' i = Inr ()"
proof (cases "findType s m")
  case None
  then have "findType s'' m' = None" using assms(1,4) by (auto simp: applyDocumentType_def)
  with assms(2,3) show ?thesis by (simp add: assertDocumentTypeComplete_def)
next
  case (Some type)
  then have ok: "missingFields type m' = []" and m': "findType s m' = Some type"
    using assms(1) by (auto simp: applyDocumentType_def Let_def split: if_splits)
  then obtain type' where "findType s'' m' = Some type'" "dt_requiredFields type' = dt_requiredFields type"
    using assms(4) by (cases "findType s'' m'") auto
  with ok assms(2,3) show ?thesis by (simp add: assertDocumentTypeComplete_def missingFields_def)
qed

theorem applyDocumentType_then_publishable_witness:
  "let (s', m') = applyDocumentType typed_db typed_metadata;
       s'' = s'\<lparr>documents := [sample_document\<lparr>doc_metadata := projr m'\<rparr>]\<rparr>
   in assertDocumentTypeComplete s'' ''d1'' = Inr ()"
proof -
  obtain s' m' where a: "applyDocumentType typed_db typed_metadata = (s', m')" by fastforce
  have "\<not> isl (snd (applyDocumentType typed_db typed_metadata))" by code_simp
  with a obtain m where m: "m' = Inr m" by (cases m') auto
  let ?s = "s'\<lparr>documents := [sample_document\<lparr>doc_metadata := m\<rparr>]\<rparr>"
  have "map_option dt_requiredFields (findType (fst (applyDocumentType typed_db typed_metadata))
        (projr (snd (applyDocumentType typed_db typed_metadata)))) =
      map_option dt_requiredFields (findType typed_db (projr (snd (applyDocumentType typed_db typed_metadata))))"
    by code_simp
  then have "map_option dt_requiredFields (findType s' m) = map_option dt_requiredFields (findType typed_db m)"
    by (simp add: a m)
  then have "assertDocumentTypeComplete ?s ''d1'' = Inr ()"
    using applyDocumentType_then_publishable [of typed_db typed_metadata s' m "''d1''" ?s] a m
      findType_doctypes [of ?s s' m]
    by (simp add: sample_document_def)
  then show ?thesis by (simp add: a m)
qed

section \<open>Publishing once\<close>

lemma promoteLatestToMajor_frame [simp]:
  "documents (promoteLatestToMajor s d) = documents s" "reviews (promoteLatestToMajor s d) = reviews s"
  "doctypes (promoteLatestToMajor s d) = doctypes s" "audits (promoteLatestToMajor s d) = audits s"
  by (simp_all add: promoteLatestToMajor_def Let_def)

lemma audit_publication_frame [simp]:
  "documents (fst (audit_publication E s d r a)) = documents s"
  "reviews (fst (audit_publication E s d r a)) = reviews s"
  "versions (fst (audit_publication E s d r a)) = versions s"
  by (simp_all add: audit_publication_def Let_def case_prod_beta split: option.splits)

lemma publishWithReview_Inr:
  assumes "publishWithReview E s d vid first at audit = (s', Inr (doc, review, events))"
  obtains docs where "assertDocumentTypeComplete s d = Inr ()"
    and "claim (\<lambda>x. doc_id x = d \<and> publishable x) (publish_row at) (documents s) = Some docs"
    and "documents s' = docs" and "find_first (\<lambda>x. doc_id x = d) docs = Some doc"
    and "versions s' = versions (promoteLatestToMajor (s\<lparr>documents := docs\<rparr>) d)"
    and "reviews s' = reviews s @ (case review of None \<Rightarrow> [] | Some r \<Rightarrow> [r])"
    and "review = (if first then Some (publication_review E
      (promoteLatestToMajor (s\<lparr>documents := docs\<rparr>) d) d vid at) else None)"
proof -
  obtain u where u: "assertDocumentTypeComplete s d = Inr u"
    using assms by (cases "assertDocumentTypeComplete s d") (auto simp: publishWithReview_def)
  obtain docs where docs: "claim (\<lambda>x. doc_id x = d \<and> publishable x) (publish_row at) (documents s) = Some docs"
    using assms u
    by (cases "claim (\<lambda>x. doc_id x = d \<and> publishable x) (publish_row at) (documents s)")
      (auto simp: publishWithReview_def)
  let ?s1 = "promoteLatestToMajor (s\<lparr>documents := docs\<rparr>) d"
  define rev where "rev = (if first then Some (publication_review E ?s1 d vid at) else None)"
  define s2 where "s2 = (case rev of None \<Rightarrow> ?s1
    | Some r \<Rightarrow> ?s1\<lparr>reviews := reviews ?s1 @ [r], uuid_next := Suc (uuid_next ?s1)\<rparr>)"
  have s2: "documents s2 = docs" "versions s2 = versions ?s1"
    "reviews s2 = reviews s @ (case rev of None \<Rightarrow> [] | Some r \<Rightarrow> [r])"
    by (simp_all add: s2_def split: option.splits)
  have "publishWithReview E s d vid first at audit =
      (case find_first (\<lambda>x. doc_id x = d) (documents (fst (audit_publication E s2 d rev audit))) of
         None \<Rightarrow> (s, Inl NotFound)
       | Some x \<Rightarrow> (fst (audit_publication E s2 d rev audit),
           Inr (x, rev, snd (audit_publication E s2 d rev audit))))"
    unfolding publishWithReview_def u docs Let_def sum.case option.case case_prod_beta
      rev_def [symmetric] s2_def [symmetric] by (rule refl)
  with assms have eq: "(case find_first (\<lambda>x. doc_id x = d) docs of
         None \<Rightarrow> (s, Inl NotFound)
       | Some x \<Rightarrow> (fst (audit_publication E s2 d rev audit),
           Inr (x, rev, snd (audit_publication E s2 d rev audit)))) = (s', Inr (doc, review, events))"
    by (simp add: s2(1))
  then have r: "find_first (\<lambda>x. doc_id x = d) docs = Some doc" "review = rev"
    "s' = fst (audit_publication E s2 d rev audit)"
    by (cases "find_first (\<lambda>x. doc_id x = d) docs"; simp)+
  show thesis
    by (rule that [of docs]) (use u docs r s2 rev_def in simp_all)
qed

lemma assertDocumentTypeComplete_cong:
  "find_first (\<lambda>d. doc_id d = i) (documents s') = find_first (\<lambda>d. doc_id d = i) (documents s) \<Longrightarrow>
     doctypes s' = doctypes s \<Longrightarrow> assertDocumentTypeComplete s' i = assertDocumentTypeComplete s i"
  by (simp add: assertDocumentTypeComplete_def findType_def Let_def)

text \<open>C20: a document is published once. When the transaction succeeds the required fields were
  complete and the document was neither deleted nor published; it is published now, no other document
  has changed, and a first publication has opened exactly one review, due in thirty days. Publishing
  it again fails and changes nothing.\<close>

theorem publishWithReview_once:
  assumes "publishWithReview E s d vid first at audit = (s', Inr (doc, review, events))"
    and "distinct (map doc_id (documents s))" and "documents s'' = documents s'"
  shows "assertDocumentTypeComplete s d = Inr () \<and>
    doc_id doc = d \<and> doc_status doc = PUBLISHED \<and> doc_publishedAt doc = Some at \<and>
    (\<exists>old\<in>set (documents s). publishable old \<and> doc = publish_row at old) \<and>
    (\<forall>x. doc_id x \<noteq> d \<longrightarrow> x \<in> set (documents s') \<longleftrightarrow> x \<in> set (documents s)) \<and>
    (if first then \<exists>r. reviews s' = reviews s @ [r] \<and> rv_documentId r = d \<and> review_open r \<and>
        rv_dueAt r = at + 30 * day_ms else reviews s' = reviews s) \<and>
    (\<exists>e. publishWithReview E' s'' d vid' first' at' audit' = (s'', Inl e))"
proof -
  obtain docs where c: "claim (\<lambda>x. doc_id x = d \<and> publishable x) (publish_row at) (documents s) = Some docs"
    and o: "assertDocumentTypeComplete s d = Inr ()" "documents s' = docs"
      "find_first (\<lambda>x. doc_id x = d) docs = Some doc"
      "reviews s' = reviews s @ (case review of None \<Rightarrow> [] | Some r \<Rightarrow> [r])"
      "review = (if first then Some (publication_review E
        (promoteLatestToMajor (s\<lparr>documents := docs\<rparr>) d) d vid at) else None)"
    by (rule publishWithReview_Inr [OF assms(1)])
  obtain old where old: "old \<in> set (documents s)" "doc_id old = d" "publishable old" "publish_row at old \<in> set docs"
    using claim_row [OF c] by blast
  have doc: "doc \<in> set docs" "doc_id doc = d" using find_first_Some [OF o(3)] by auto
  have "distinct (map doc_id docs)" using publication.claim_keeps_keys [OF c] assms(2) by simp
  from key_unique [OF this doc(1) old(4)] have pub: "doc = publish_row at old"
    using doc(2) old(2) by (simp add: publish_row_def)
  have frame: "x \<in> set docs \<longleftrightarrow> x \<in> set (documents s)" if "doc_id x \<noteq> d" for x
    using claim_origin [OF c, of x] publication.claim_frame [OF c, of x] that
    by (auto simp: publish_row_def split: if_splits)
  have "claim (\<lambda>x. doc_id x = d \<and> publishable x) (publish_row at') (documents s'') = None"
    using publication.second_claim_fails [OF _ c] assms(3) o(2) by simp
  then have "\<exists>e. publishWithReview E' s'' d vid' first' at' audit' = (s'', Inl e)"
    by (cases "assertDocumentTypeComplete s'' d") (simp_all add: publishWithReview_def)
  then show ?thesis
    using o old(1,3) doc(2) pub frame
    by (auto simp: publish_row_def publication_review_def review_open_def day_ms_def)
qed

definition draft_db :: db where
  "draft_db = typed_db\<lparr>documents := [sample_document\<lparr>doc_status := DRAFT\<rparr>]\<rparr>"

theorem publishWithReview_once_witness:
  "let (s', r) = publishWithReview sample_env draft_db ''d1'' (Some ''v1'') True 50 None
   in \<not> isl r \<and> length (reviews s') = 1 \<and> doc_status (hd (documents s')) = PUBLISHED \<and>
      (\<exists>e. publishWithReview sample_env s' ''d1'' (Some ''v1'') False 60 None = (s', Inl e))"
proof -
  obtain s' r where a: "publishWithReview sample_env draft_db ''d1'' (Some ''v1'') True 50 None = (s', r)"
    by fastforce
  have e: "\<not> isl (snd (publishWithReview sample_env draft_db ''d1'' (Some ''v1'') True 50 None))"
    "length (reviews (fst (publishWithReview sample_env draft_db ''d1'' (Some ''v1'') True 50 None))) = 1"
    "doc_status (hd (documents (fst (publishWithReview sample_env draft_db ''d1'' (Some ''v1'') True 50 None)))) =
      PUBLISHED"
    "distinct (map doc_id (documents draft_db))"
    by code_simp+
  then obtain doc rev ev where "r = Inr (doc, rev, ev)" using a by (cases r) auto
  with a have "publishWithReview sample_env draft_db ''d1'' (Some ''v1'') True 50 None = (s', Inr (doc, rev, ev))"
    by simp
  from publishWithReview_once [OF this e(4) refl, of sample_env "Some ''v1''" False 60 None] e a
  show ?thesis by simp
qed

section \<open>Deciding once\<close>

lemma recordReviewDecision_Inr:
  assumes "recordReviewDecision s i d dec = (s', Inr (review, archived))"
  obtains rows where "claim (\<lambda>r. rv_id r = i \<and> review_open r) (decide_review dec) (reviews s) = Some rows"
    and "find_first (\<lambda>r. rv_id r = i) rows = Some review"
    and "reviews s' = (if rd_status dec = RvRejected
      then update_rows (other_open i d) (cancel_review dec) rows else rows)"
    and "documents s' = (if rd_status dec = RvRejected
      then update_rows (archivable d) archive_row (documents s) else documents s)"
    and "archived = (rd_status dec = RvRejected \<and> count_rows (archivable d) (documents s) = 1)"
proof -
  obtain rows where rows: "claim (\<lambda>r. rv_id r = i \<and> review_open r) (decide_review dec) (reviews s) = Some rows"
    using assms by (cases "claim (\<lambda>r. rv_id r = i \<and> review_open r) (decide_review dec) (reviews s)")
      (auto simp: recordReviewDecision_def)
  obtain rev where rev: "find_first (\<lambda>r. rv_id r = i) rows = Some rev"
    using assms rows by (cases "find_first (\<lambda>r. rv_id r = i) rows") (auto simp: recordReviewDecision_def)
  from assms rows rev that [of rows] show thesis
    by (auto simp: recordReviewDecision_def Let_def case_prod_beta reject_document_def split: if_splits)
qed

lemma cancel_review_simps [simp]:
  "rv_id (cancel_review d r) = rv_id r" "rv_documentId (cancel_review d r) = rv_documentId r"
  "\<not> review_open (cancel_review d r)"
  by (simp_all add: cancel_review_def review_open_def)

lemma archive_row_simps [simp]:
  "doc_id (archive_row d) = doc_id d" "doc_deletedAt (archive_row d) = doc_deletedAt d"
  "doc_status (archive_row d) = ARCHIVED"
  by (simp_all add: archive_row_def)

lemma in_archived_iff:
  "doc_id x \<noteq> d \<Longrightarrow> x \<in> set (update_rows (archivable d) archive_row rows) \<longleftrightarrow> x \<in> set rows"
  by (induction rows) (auto simp: archivable_def)

text \<open>A review is decided once. Once a decision other than \<open>IN_REVIEW\<close> has been recorded, the
  review carries the actor and the instant of that decision, and every later decision on it is refused
  without any change.\<close>

theorem recordReviewDecision_final:
  assumes "recordReviewDecision s i d dec = (s', Inr (review, archived))"
    and "decision_closes dec" and "reviews s'' = reviews s'"
  shows "rv_id review = i \<and> \<not> review_open review \<and>
    recordReviewDecision s'' i d' dec' = (s'', Inl (Conflict ''Review already closed''))"
proof -
  obtain rows where c: "claim (\<lambda>r. rv_id r = i \<and> review_open r) (decide_review dec) (reviews s) = Some rows"
    and rev: "find_first (\<lambda>r. rv_id r = i) rows = Some review"
    and rows': "reviews s' = (if rd_status dec = RvRejected
      then update_rows (other_open i d) (cancel_review dec) rows else rows)"
    by (rule recordReviewDecision_Inr [OF assms(1)])
  have "claim (\<lambda>r. rv_id r = i \<and> review_open r) f (reviews s') = None" for f
  proof -
    have "\<not> (rv_id r = i \<and> review_open r)" if "r \<in> set (reviews s')" for r
      using that review.claim_leaves_closed [OF assms(2) c]
      by (auto simp: rows' elim!: update_rows_origin split: if_splits)
    then have "count_rows (\<lambda>r. rv_id r = i \<and> review_open r) (reviews s') = 0" by (simp add: count_rows_0_iff)
    then show ?thesis by (simp add: claim_def)
  qed
  moreover have "review \<in> set rows" "rv_id review = i" using find_first_Some [OF rev] by auto
  ultimately show ?thesis
    using review.claim_leaves_closed [OF assms(2) c] assms(3) by (simp add: recordReviewDecision_def)
qed

text \<open>A rejection withdraws the document. When a review of a document is rejected, no review of that
  document stays open, the document is archived if it was neither archived nor deleted (and the
  caller is told exactly then), and documents, reviews of other documents stay as they were.\<close>

theorem recordReviewDecision_rejection:
  assumes "recordReviewDecision s i d dec = (s', Inr (review, archived))" and "rd_status dec = RvRejected"
    and "distinct (map doc_id (documents s))"
  shows "(\<forall>r\<in>set (reviews s'). rv_documentId r = d \<longrightarrow> \<not> review_open r) \<and>
    (\<forall>x\<in>set (documents s'). doc_id x = d \<longrightarrow> doc_deletedAt x = None \<longrightarrow> doc_status x = ARCHIVED) \<and>
    (archived \<longleftrightarrow> (\<exists>x\<in>set (documents s). archivable d x)) \<and>
    (\<forall>x. doc_id x \<noteq> d \<longrightarrow> x \<in> set (documents s') \<longleftrightarrow> x \<in> set (documents s)) \<and>
    (\<forall>r\<in>set (reviews s). rv_documentId r \<noteq> d \<longrightarrow> rv_id r \<noteq> i \<longrightarrow> r \<in> set (reviews s'))"
proof -
  obtain rows where c: "claim (\<lambda>r. rv_id r = i \<and> review_open r) (decide_review dec) (reviews s) = Some rows"
    and rows': "reviews s' = (if rd_status dec = RvRejected
      then update_rows (other_open i d) (cancel_review dec) rows else rows)"
    and docs': "documents s' = (if rd_status dec = RvRejected
      then update_rows (archivable d) archive_row (documents s) else documents s)"
    and arch: "archived = (rd_status dec = RvRejected \<and> count_rows (archivable d) (documents s) = 1)"
    by (rule recordReviewDecision_Inr [OF assms(1)])
  have closes: "decision_closes dec" using assms(2) by (simp add: decision_closes_def)
  have "count_rows (archivable d) (documents s) \<le> 1"
    using count_rows_key_le_1 [OF assms(3), of d "\<lambda>x. doc_status x \<noteq> ARCHIVED \<and> doc_deletedAt x = None"]
    by (simp add: archivable_def [abs_def])
  then have "archived \<longleftrightarrow> (\<exists>x\<in>set (documents s). archivable d x)"
    using arch assms(2) count_rows_pos_iff [of "archivable d" "documents s"] by linarith
  moreover have "\<not> review_open r" if "r \<in> set (reviews s')" "rv_documentId r = d" for r
  proof -
    have "r \<in> set (update_rows (other_open i d) (cancel_review dec) rows)"
      using that(1) assms(2) by (simp add: rows')
    then obtain x where x: "x \<in> set rows" "r = (if other_open i d x then cancel_review dec x else x)"
      by (rule update_rows_origin)
    with review.claim_leaves_closed [OF closes c, of x] that(2) show ?thesis
      by (cases "other_open i d x") (auto simp: other_open_def)
  qed
  moreover have "doc_status x = ARCHIVED"
    if "x \<in> set (documents s')" "doc_id x = d" "doc_deletedAt x = None" for x
  proof -
    have "x \<in> set (update_rows (archivable d) archive_row (documents s))"
      using that(1) assms(2) by (simp add: docs')
    then obtain y where "x = (if archivable d y then archive_row y else y)"
      by (rule update_rows_origin)
    with that(2,3) show ?thesis by (cases "archivable d y") (auto simp: archivable_def)
  qed
  moreover have "x \<in> set (documents s') \<longleftrightarrow> x \<in> set (documents s)" if "doc_id x \<noteq> d" for x
    using in_archived_iff [OF that] assms(2) by (simp add: docs')
  moreover have "r \<in> set (reviews s')" if "r \<in> set (reviews s)" "rv_documentId r \<noteq> d" "rv_id r \<noteq> i" for r
    using review.claim_frame [OF c that(1,3)] that(2) assms(2)
    by (simp add: rows' update_rows_frame other_open_def)
  ultimately show ?thesis by blast
qed

definition review_sample :: review_row where
  "review_sample = \<lparr>rv_id = ''r1'', rv_documentId = ''d1'', rv_versionId = Some ''v1'', rv_owner = ''owner'',
     rv_reviewer = ''rev'', rv_approver = ''app'', rv_status = RvPending, rv_dueAt = 5000,
     rv_decisionComment = None, rv_decidedBy = None, rv_decidedAt = None, rv_automaticAnnual = True,
     rv_automaticPublication = False, rv_createdAt = 1, rv_evidenceObjectKey = None, rv_evidenceOriginalName = None,
      rv_evidenceMimeType = None, rv_evidenceSize = None, rv_evidenceSha256 = None\<rparr>"

definition review_db :: db where
  "review_db = sample_db\<lparr>reviews := [review_sample, review_sample\<lparr>rv_id := ''r2'', rv_status := RvInReview\<rparr>]\<rparr>"

definition rejection :: review_decision where
  "rejection = \<lparr>rd_status = RvRejected, rd_comment = '' no '', rd_actor = ''admin'', rd_at = 1000\<rparr>"

theorem recordReviewDecision_final_witness:
  "let (s', r) = recordReviewDecision review_db ''r1'' ''d1'' rejection
   in \<not> isl r \<and> recordReviewDecision s' ''r1'' ''d1'' rejection = (s', Inl (Conflict ''Review already closed''))"
proof -
  obtain s' r where a: "recordReviewDecision review_db ''r1'' ''d1'' rejection = (s', r)" by fastforce
  have e: "\<not> isl (snd (recordReviewDecision review_db ''r1'' ''d1'' rejection))" "decision_closes rejection"
    by code_simp+
  then obtain rev ar where "r = Inr (rev, ar)" using a by (cases r) auto
  with a e recordReviewDecision_final [of review_db "''r1''" "''d1''" rejection s' rev ar s' "''d1''" rejection]
  show ?thesis by simp
qed

theorem recordReviewDecision_rejection_witness:
  "let (s', r) = recordReviewDecision review_db ''r1'' ''d1'' rejection
   in length (reviews s') = 2 \<and> \<not> review_open (reviews s' ! 0) \<and> \<not> review_open (reviews s' ! 1) \<and>
      doc_status (hd (documents s')) = ARCHIVED"
proof -
  obtain s' r where a: "recordReviewDecision review_db ''r1'' ''d1'' rejection = (s', r)" by fastforce
  have e: "\<not> isl (snd (recordReviewDecision review_db ''r1'' ''d1'' rejection))" "rd_status rejection = RvRejected"
    "distinct (map doc_id (documents review_db))"
    "map rv_documentId (reviews (fst (recordReviewDecision review_db ''r1'' ''d1'' rejection))) = [''d1'', ''d1'']"
    "doc_status (hd (documents (fst (recordReviewDecision review_db ''r1'' ''d1'' rejection)))) = ARCHIVED"
    by code_simp+
  then obtain rev ar where "r = Inr (rev, ar)" using a by (cases r) auto
  with a e recordReviewDecision_rejection [of review_db "''r1''" "''d1''" rejection s' rev ar]
  have "\<forall>x\<in>set (reviews s'). rv_documentId x = ''d1'' \<longrightarrow> \<not> review_open x" by simp
  moreover obtain x y where "reviews s' = [x, y]" "rv_documentId x = ''d1''" "rv_documentId y = ''d1''"
    using a e(4) by auto
  ultimately show ?thesis using a e(5) by simp
qed

text \<open>An approval renews the yearly review. When an automatic review of a version is approved, the
  version is due for review again one calendar year after the decision and its reminders start over;
  its other columns and the other versions keep their values.\<close>

theorem recordReviewDecision_renews:
  assumes "recordReviewDecision s i d dec = (s', Inr (review, archived))" and "rd_status dec = RvApproved"
    and "rv_automaticAnnual review \<or> rv_automaticPublication review"
    and "rv_versionId review = Some v" and "v \<noteq> []"
  shows "(\<exists>x\<in>set (versions s). ver_id x = v) \<and>
    versions s' = map (\<lambda>x. if ver_id x = v
      then x\<lparr>ver_annualReviewDueAt := Some (addFullYear (rd_at dec)), ver_annualReviewNotifiedAt := None,
             ver_annualReviewReminderAt := None, ver_annualReviewOverdueAt := None\<rparr> else x) (versions s) \<and>
    documents s' = documents s \<and> \<not> archived"
proof -
  obtain rows where rows: "claim (\<lambda>r. rv_id r = i \<and> review_open r) (decide_review dec) (reviews s) = Some rows"
    "find_first (\<lambda>r. rv_id r = i) rows = Some review"
    by (rule recordReviewDecision_Inr [OF assms(1)])
  have eq: "recordReviewDecision s i d dec =
      (if \<exists>x\<in>set (versions s). ver_id x = v
       then (s\<lparr>reviews := rows, versions := update_rows (\<lambda>x. ver_id x = v) (renew_review_date (rd_at dec))
               (versions s)\<rparr>, Inr (review, False))
       else (s, Inl (InternalError ''Record to update not found'')))"
    using assms(2-5) rows by (auto simp: recordReviewDecision_def)
  have ex: "\<exists>x\<in>set (versions s). ver_id x = v"
    using assms(1) eq by (metis Pair_inject sum.distinct(1))
  from eq ex assms(1) have "s' = s\<lparr>reviews := rows,
      versions := update_rows (\<lambda>x. ver_id x = v) (renew_review_date (rd_at dec)) (versions s)\<rparr>" "\<not> archived"
    by auto
  with ex show ?thesis by (simp add: update_rows_def renew_review_date_def cong: if_cong)
qed

theorem recordReviewDecision_renews_witness:
  "map ver_annualReviewDueAt (versions (fst (recordReviewDecision review_db ''r1'' ''d1''
     (rejection\<lparr>rd_status := RvApproved, rd_at := 1709209815123\<rparr>)))) = [Some 1740832215123]"
proof -
  let ?d = "rejection\<lparr>rd_status := RvApproved, rd_at := 1709209815123\<rparr>"
  have e: "snd (recordReviewDecision review_db ''r1'' ''d1'' ?d) =
      Inr (decide_review ?d review_sample, False)" "addFullYear 1709209815123 = 1740832215123"
    by code_simp+
  then have "recordReviewDecision review_db ''r1'' ''d1'' ?d =
      (fst (recordReviewDecision review_db ''r1'' ''d1'' ?d), Inr (decide_review ?d review_sample, False))"
    by (metis prod.collapse)
  from recordReviewDecision_renews [OF this, of "''v1''"] e(2) show ?thesis
    by (simp add: review_sample_def rejection_def decide_review_def review_db_def sample_db_def sample_version_def)
qed

end
