(* ===== verification/Security.thy ===== *)
theory Security
  imports Schema
begin

text \<open>
  \<^verbatim>\<open>apps/api/src/security.ts\<close>: the portal groups that make an administrator or a moderator, what a
  moderator may do, and the guard that admits a request to a route marked \<open>@AdminOnly()\<close> or
  \<open>@ApproverOnly()\<close>.
\<close>

definition isAdminIdentity :: "string list \<Rightarrow> bool" where
  "isAdminIdentity gs = (''ISMS-LOCAL-ADMINS'' \<in> set gs)"

definition isModeratorIdentity :: "string list \<Rightarrow> bool" where
  "isModeratorIdentity gs = (''ISMS-MODERATOR-MANAGE'' \<in> set gs)"

definition moderatorCan :: "string list \<Rightarrow> permission \<Rightarrow> bool" where
  "moderatorCan gs p =
     (if isAdminIdentity gs then True
      else if \<not> isModeratorIdentity gs then False
      else if p = Publish then ''ISMS-MODERATOR-PUBLISH'' \<in> set gs
      else if p = Archive then ''ISMS-MODERATOR-ARCHIVE'' \<in> set gs
      else True)"

text \<open>The metadata a decorator leaves on a handler or a controller class; \<open>getAllAndOverride\<close> takes
  the first value that is set, the handler's before the class's.\<close>

record route_metadata =
  md_admin :: "bool option"
  md_approver :: "bool option"

definition AdminOnly :: route_metadata where
  "AdminOnly = \<lparr>md_admin = Some True, md_approver = None\<rparr>"

definition ApproverOnly :: route_metadata where
  "ApproverOnly = \<lparr>md_admin = Some False, md_approver = Some True\<rparr>"

definition no_metadata :: route_metadata where
  "no_metadata = \<lparr>md_admin = None, md_approver = None\<rparr>"

definition getAllAndOverride :: "bool option \<Rightarrow> bool option \<Rightarrow> bool" where
  "getAllAndOverride handler cls =
     (case handler of Some b \<Rightarrow> b | None \<Rightarrow> (case cls of Some b \<Rightarrow> b | None \<Rightarrow> False))"

definition canActivate :: "route_metadata \<Rightarrow> route_metadata \<Rightarrow> string list \<Rightarrow> bool outcome" where
  "canActivate handler cls gs =
     (if getAllAndOverride (md_admin handler) (md_admin cls) \<and> \<not> isAdminIdentity gs
      then Inl (Forbidden '''')
      else if getAllAndOverride (md_approver handler) (md_approver cls) \<and>
              \<not> isAdminIdentity gs \<and> \<not> isModeratorIdentity gs
      then Inl (Forbidden '''')
      else Inr True)"

lemmas guard_defs = canActivate_def getAllAndOverride_def AdminOnly_def ApproverOnly_def
  no_metadata_def

lemma moderatorCan_admin [simp]: "isAdminIdentity gs \<Longrightarrow> moderatorCan gs p"
  by (simp add: moderatorCan_def)

lemma moderatorCan_moderator: "moderatorCan gs p \<Longrightarrow> isAdminIdentity gs \<or> isModeratorIdentity gs"
  by (simp add: moderatorCan_def split: if_splits)

lemma no_groups_no_role [simp]:
  "\<not> isAdminIdentity []" "\<not> isModeratorIdentity []" "\<not> moderatorCan [] p"
  by (simp_all add: isAdminIdentity_def isModeratorIdentity_def moderatorCan_def)

lemma guard_unmarked: "canActivate no_metadata no_metadata gs = Inr True"
  by (simp add: guard_defs)

lemma guard_admin_class:
  "canActivate no_metadata AdminOnly gs = (if isAdminIdentity gs then Inr True else Inl (Forbidden ''''))"
  by (simp add: guard_defs)

lemma guard_approver_handler:
  "canActivate ApproverOnly cls gs =
     (if isAdminIdentity gs \<or> isModeratorIdentity gs then Inr True else Inl (Forbidden ''''))"
  by (simp add: guard_defs)

end
