(* ===== verification/Category_Permissions.thy ===== *)
theory Category_Permissions
  imports Schema
begin

text \<open>
  \<^verbatim>\<open>apps/api/src/category-permissions.ts\<close>: the categories of a space a caller may use. A rule on a
  category replaces what the category would inherit, for the whole branch below it; a category
  without a rule takes its parent's answer, a root category the space's. Branches that do not reach
  a root (a cycle, a parent that is gone) are refused.
\<close>

record category_scope =
  cs_id :: string
  cs_aclRoot :: "bool option"
  cs_aclCategories :: "string list option"

definition truthy :: "string option \<Rightarrow> bool" where
  "truthy v = (v \<noteq> None \<and> v \<noteq> Some [])"

definition categoryAllowed :: "category_scope option \<Rightarrow> string option \<Rightarrow> bool" where
  "categoryAllowed scope categoryId =
     (case scope of
        None \<Rightarrow> False
      | Some sc \<Rightarrow>
          (case cs_aclCategories sc of
             None \<Rightarrow> True
           | Some cs \<Rightarrow>
               if truthy categoryId then the categoryId \<in> set cs else cs_aclRoot sc = Some True))"

text \<open>The \<open>where\<close> clause as the predicate on documents it stands for.\<close>

definition categoryDocumentWhere :: "category_scope list \<Rightarrow> document_row \<Rightarrow> bool" where
  "categoryDocumentWhere scopes d =
     list_ex (\<lambda>sc. doc_spaceId d = cs_id sc \<and>
       (case cs_aclCategories sc of
          None \<Rightarrow> True
        | Some cs \<Rightarrow>
            cs_aclRoot sc = Some True \<and> doc_categoryId d = None \<or>
            some_and (\<lambda>c. c \<in> set cs) (doc_categoryId d))) scopes"

text \<open>\<open>new Map(categories.map(...))\<close>: the last node with an identifier wins. \<open>parentId || null\<close>.\<close>

definition node_of :: "(string \<times> string option) list \<Rightarrow> string \<Rightarrow> string option option" where
  "node_of cats c = map_of (rev cats) c"

definition parent_or_null :: "string option \<Rightarrow> string option" where
  "parent_or_null v = (if truthy v then v else None)"

fun overrides_of :: "(string option \<times> bool) list \<Rightarrow> (string \<Rightarrow> bool option) \<Rightarrow> (string \<Rightarrow> bool option)" where
  "overrides_of [] m = m"
| "overrides_of ((cid, allowed) # rs) m =
     overrides_of rs
       (if truthy cid
        then m(the cid := Some ((case m (the cid) of Some b \<Rightarrow> b | None \<Rightarrow> False) \<or> allowed))
        else m)"

lemma node_of_Some: "node_of cats c = Some p \<Longrightarrow> c \<in> set (map fst cats)"
  unfolding node_of_def by (drule map_of_SomeD) force

lemma node_of_None_iff: "node_of cats c = None \<longleftrightarrow> c \<notin> set (map fst cats)"
  unfolding node_of_def by (simp add: map_of_eq_None_iff)

text \<open>The \<open>while (current)\<close> loop of the filter.\<close>

function walk ::
    "(string \<times> string option) list \<Rightarrow> (string \<Rightarrow> bool option) \<Rightarrow> bool \<Rightarrow> string list \<Rightarrow>
     string option \<Rightarrow> bool" where
  "walk cats ov inherited visited current =
     (case current of
        None \<Rightarrow> inherited
      | Some c \<Rightarrow>
          if c = [] then inherited
          else if c \<in> set visited then False
          else (case node_of cats c of
                  None \<Rightarrow> False
                | Some parent \<Rightarrow>
                    (case ov c of
                       Some b \<Rightarrow> b
                     | None \<Rightarrow> walk cats ov inherited (c # visited) (parent_or_null parent))))"
  by pat_completeness auto

termination
proof (relation "measure (\<lambda>(cats, ov, inh, visited, cur). card (set (map fst cats) - set visited))",
    goal_cases)
  case 1
  show ?case by simp
next
  case (2 cats ov inherited visited current c parent)
  then have "c \<in> set (map fst cats) - set visited" by (auto dest: node_of_Some)
  moreover have "set (map fst cats) - set (c # visited) = (set (map fst cats) - set visited) - {c}"
    by auto
  ultimately show ?case by (simp only: in_measure case_prod_conv) (metis List.finite_set card_Diff1_less finite_Diff)
qed

declare walk.simps [simp del]

definition resolveCategories ::
    "(string \<times> string option) list \<Rightarrow> (string option \<times> bool) list \<Rightarrow> bool \<Rightarrow> string list" where
  "resolveCategories cats rls inherited =
     map fst (filter (\<lambda>c. walk cats (overrides_of rls (\<lambda>_. None)) inherited [] (Some (fst c))) cats)"

section \<open>Rules on one category add up\<close>

lemma overrides_of_eq:
  "overrides_of rs m c =
     (if \<exists>b. (Some c, b) \<in> set rs \<and> c \<noteq> []
      then Some (m c = Some True \<or> (Some c, True) \<in> set rs) else m c)"
proof (induction rs arbitrary: m)
  case Nil
  then show ?case by simp
next
  case (Cons r rs)
  obtain cid allowed where r: "r = (cid, allowed)" by fastforce
  show ?case
    unfolding r overrides_of.simps Cons.IH
    by (cases cid) (auto simp: truthy_def split: option.splits)
qed

section \<open>The nearest rule decides\<close>

text \<open>What the code means, without the bookkeeping of the loop: \<open>decided n c b\<close> says that the branch
  from category \<open>c\<close> meets its first rule, or the root, \<open>n\<close> steps up and that the answer is \<open>b\<close>.\<close>

inductive decided ::
    "(string \<times> string option) list \<Rightarrow> (string \<Rightarrow> bool option) \<Rightarrow> bool \<Rightarrow> nat \<Rightarrow> string \<Rightarrow> bool \<Rightarrow> bool"
  for cats ov inherited where
  explicit: "node_of cats c = Some p \<Longrightarrow> ov c = Some b \<Longrightarrow> decided cats ov inherited 0 c b"
| root: "node_of cats c = Some p \<Longrightarrow> ov c = None \<Longrightarrow> parent_or_null p = None \<Longrightarrow>
    decided cats ov inherited 0 c inherited"
| inherit: "node_of cats c = Some p \<Longrightarrow> ov c = None \<Longrightarrow> parent_or_null p = Some q \<Longrightarrow>
    decided cats ov inherited n q b \<Longrightarrow> decided cats ov inherited (Suc n) c b"

lemma decided_fun:
  "decided cats ov inherited n c b \<Longrightarrow> decided cats ov inherited m c b' \<Longrightarrow> n = m \<and> b = b'"
proof (induction arbitrary: m b' rule: decided.induct)
  case (explicit c p b)
  from explicit.prems explicit.hyps show ?case by (cases rule: decided.cases) auto
next
  case (root c p)
  from root.prems root.hyps show ?case by (cases rule: decided.cases) auto
next
  case (inherit c p q n b)
  from inherit.prems show ?case
  proof (cases rule: decided.cases)
    case (inherit p' q' n')
    with inherit.hyps have "decided cats ov inherited n' q b'" by simp
    then have "n = n' \<and> b = b'" by (rule inherit.IH)
    with inherit show ?thesis by simp
  qed (use inherit.hyps in simp_all)
qed

lemma decided_category: "decided cats ov inherited n c b \<Longrightarrow> c \<in> fst ` set cats"
  by (cases rule: decided.cases) (auto dest!: node_of_Some)

lemma parent_or_null_Some: "parent_or_null p = Some q \<Longrightarrow> q \<noteq> []"
  by (auto simp: parent_or_null_def truthy_def split: if_splits)

lemma walk_complete:
  "decided cats ov inherited n c b \<Longrightarrow> c \<noteq> [] \<Longrightarrow>
   (\<forall>v\<in>set visited. \<exists>m>n. decided cats ov inherited m v b) \<Longrightarrow>
   walk cats ov inherited visited (Some c) = b"
proof (induction arbitrary: visited rule: decided.induct)
  case (explicit c p b)
  from explicit.hyps have "decided cats ov inherited 0 c b" by (rule decided.explicit)
  with explicit.prems(2) have "c \<notin> set visited" by (auto dest: decided_fun)
  with explicit show ?case by (simp add: walk.simps [of _ _ _ _ "Some c"])
next
  case (root c p)
  from root.hyps have "decided cats ov inherited 0 c inherited" by (rule decided.root)
  with root.prems(2) have "c \<notin> set visited" by (auto dest: decided_fun)
  with root show ?case
    by (simp add: walk.simps [of _ _ _ _ "Some c"] walk.simps [of _ _ _ _ None])
next
  case (inherit c p q n b)
  have c: "decided cats ov inherited (Suc n) c b"
    using inherit.hyps by (rule decided.inherit)
  with inherit.prems(2) have "c \<notin> set visited" by (auto dest: decided_fun)
  moreover have "\<forall>v\<in>set (c # visited). \<exists>m>n. decided cats ov inherited m v b"
    using c inherit.prems(2) by (auto dest: Suc_lessD)
  ultimately show ?case
    using inherit parent_or_null_Some [OF inherit.hyps(3)]
    by (simp add: walk.simps [of _ _ _ _ "Some c"])
qed

lemma walk_sound:
  "walk cats ov inherited visited (Some c) \<Longrightarrow> c \<noteq> [] \<Longrightarrow> \<exists>n. decided cats ov inherited n c True"
proof (induction cats ov inherited visited "Some c" arbitrary: c rule: walk.induct)
  case (1 cats ov inherited visited)
  then obtain p where c: "c \<notin> set visited" "node_of cats c = Some p"
    by (auto simp: walk.simps [of _ _ _ _ "Some c"] split: if_splits option.splits)
  show ?case
  proof (cases "ov c")
    case (Some b)
    with 1 c show ?thesis
      by (auto simp: walk.simps [of _ _ _ _ "Some c"] intro: decided.explicit)
  next
    case None
    show ?thesis
    proof (cases "parent_or_null p")
      case None': None
      with None 1 c show ?thesis
        by (auto simp: walk.simps [of _ _ _ _ "Some c"] walk.simps [of _ _ _ _ None]
            intro: decided.root)
    next
      case (Some q)
      with None 1 c parent_or_null_Some [OF Some]
      have "\<exists>n. decided cats ov inherited n q True"
        by (auto simp: walk.simps [of _ _ _ _ "Some c"])
      with None Some c show ?thesis by (blast intro: decided.inherit)
    qed
  qed
qed

lemma resolveCategories_iff:
  assumes "c \<noteq> []"
  shows "c \<in> set (resolveCategories cats rls inherited) \<longleftrightarrow>
     (\<exists>n. decided cats (overrides_of rls (\<lambda>_. None)) inherited n c True)"
proof
  assume "c \<in> set (resolveCategories cats rls inherited)"
  then have "walk cats (overrides_of rls (\<lambda>_. None)) inherited [] (Some c)"
    by (auto simp: resolveCategories_def)
  then show "\<exists>n. decided cats (overrides_of rls (\<lambda>_. None)) inherited n c True"
    using assms by (rule walk_sound)
next
  assume "\<exists>n. decided cats (overrides_of rls (\<lambda>_. None)) inherited n c True"
  then obtain n where d: "decided cats (overrides_of rls (\<lambda>_. None)) inherited n c True" ..
  then have "c \<in> fst ` set cats" by (rule decided_category)
  then show "c \<in> set (resolveCategories cats rls inherited)"
    using walk_complete [OF d assms, of "[]"] by (force simp: resolveCategories_def)
qed

text \<open>C17: the loop computes the nearest rule. A category is resolved exactly when it exists and the
  first category of its branch that carries a rule (or, without any, the space) allows it; a branch
  that loops or leaves the space is never resolved.\<close>

theorem resolveCategories_nearest_rule:
  assumes "c \<noteq> []"
  shows "c \<in> set (resolveCategories cats rls inherited) \<longleftrightarrow>
     (\<exists>n. decided cats (overrides_of rls (\<lambda>_. None)) inherited n c True)"
  using assms by (rule resolveCategories_iff)

theorem resolveCategories_nearest_rule_witness:
  "''b'' \<in> set (resolveCategories [(''a'', None), (''b'', Some ''a'')] [(Some ''a'', True)] False)"
proof -
  have "decided [(''a'', None), (''b'', Some ''a'')] (overrides_of [(Some ''a'', True)] (\<lambda>_. None))
     False (Suc 0) ''b'' True"
    by (rule decided.inherit [of _ _ "Some ''a''" _ "''a''"])
      (auto simp: node_of_def parent_or_null_def truthy_def intro!: decided.explicit)
  then show ?thesis
    using resolveCategories_nearest_rule
      [of "''b''" "[(''a'', None), (''b'', Some ''a'')]" "[(Some ''a'', True)]" False] by blast
qed

lemma resolveCategories_subset: "set (resolveCategories cats rls inherited) \<subseteq> set (map fst cats)"
  by (auto simp: resolveCategories_def)

lemma walk_none_allowed:
  "(\<forall>c. ov c \<noteq> Some True) \<Longrightarrow> \<not> walk cats ov False visited current"
  by (induction cats ov "False" visited current rule: walk.induct)
    (subst walk.simps, auto split: option.splits)

text \<open>Without inheritance and without an allowing rule nothing is resolved.\<close>

lemma resolveCategories_deny:
  "\<forall>r\<in>set rls. \<not> snd r \<Longrightarrow> resolveCategories cats rls False = []"
  unfolding resolveCategories_def
  by (subst filter_False) (auto intro!: walk_none_allowed simp: overrides_of_eq split: if_splits, force)

text \<open>The clause that lists documents and the test of one document agree: a document is in the
  list of a caller's scopes exactly when the scope of its space allows its category. Category
  identifiers are never empty.\<close>

theorem categoryDocumentWhere_iff_categoryAllowed:
  assumes "distinct (map cs_id scopes)" and "doc_categoryId d \<noteq> Some []"
  shows "categoryDocumentWhere scopes d \<longleftrightarrow>
     categoryAllowed (find_first (\<lambda>sc. cs_id sc = doc_spaceId d) scopes) (doc_categoryId d)"
  using assms
proof (induction scopes)
  case Nil
  then show ?case by (simp add: categoryDocumentWhere_def categoryAllowed_def)
next
  case (Cons sc scopes)
  have other: "doc_spaceId d = cs_id sc \<Longrightarrow> \<not> categoryDocumentWhere scopes d"
    using Cons.prems(1) by (auto simp: categoryDocumentWhere_def list_ex_iff)
  have split: "categoryDocumentWhere (sc # scopes) d \<longleftrightarrow>
     categoryDocumentWhere [sc] d \<or> categoryDocumentWhere scopes d"
    by (simp add: categoryDocumentWhere_def)
  show ?case
  proof (cases "doc_spaceId d = cs_id sc")
    case True
    with Cons.prems(2) other split show ?thesis
      by (cases "doc_categoryId d")
        (auto simp: categoryDocumentWhere_def categoryAllowed_def truthy_def split: option.splits)
  next
    case False
    with Cons split show ?thesis by (auto simp: categoryDocumentWhere_def)
  qed
qed

theorem categoryDocumentWhere_iff_categoryAllowed_witness:
  "\<exists>d. doc_categoryId d = Some ''k'' \<and>
     categoryDocumentWhere [\<lparr>cs_id = ''s'', cs_aclRoot = Some False, cs_aclCategories = Some [''k'']\<rparr>] d"
proof -
  let ?sc = "\<lparr>cs_id = ''s'', cs_aclRoot = Some False, cs_aclCategories = Some [''k'']\<rparr>"
  let ?d = "\<lparr>doc_id = ''d'', doc_slug = ''d'', doc_spaceId = ''s'', doc_categoryId = Some ''k'',
     doc_status = PUBLISHED, doc_sensitive = False, doc_metadata = JObj [], doc_publishedAt = None,
     doc_lockedBy = None, doc_lockedAt = None, doc_lockExpiresAt = None, doc_destroyedAt = None,
     doc_deletedAt = None, doc_viewCount = 0, doc_downloadCount = 0,
     doc_externalUrl = None, doc_suppressEmails = False, doc_watermarkPosition = CENTER, doc_thumbnail = None\<rparr>"
  have "categoryDocumentWhere [?sc] ?d"
    using categoryDocumentWhere_iff_categoryAllowed [of "[?sc]" ?d]
    by (simp add: categoryAllowed_def truthy_def)
  then show ?thesis by (intro exI [of _ ?d]) simp
qed

end
