(* ===== verification/Authorization.thy ===== *)
theory Authorization
  imports Security Category_Permissions Samples
begin

text \<open>
  \<^verbatim>\<open>apps/api/src/authorization.service.ts\<close>: which spaces and categories the groups of a caller open,
  for each of the nine permissions. The nested \<open>where\<close> clauses are read over the tables; a group name
  matches without regard to case.
\<close>

section \<open>The clauses\<close>

definition name_in :: "string list \<Rightarrow> string \<Rightarrow> bool" where
  "name_in gs name = list_ex (\<lambda>g. toLowerCase g = toLowerCase name) gs"

definition find_group :: "db \<Rightarrow> string \<Rightarrow> group_row option" where
  "find_group s gid = find_first (\<lambda>g. grp_id g = gid) (groups s)"

definition groupFilter :: "string list \<Rightarrow> group_row \<Rightarrow> bool" where
  "groupFilter gs g = (grp_active g \<and> name_in gs (grp_name g))"

definition rule_valid :: "time \<Rightarrow> rule_row \<Rightarrow> bool" where
  "rule_valid t r = (null_or (\<lambda>v. v \<le> t) (ar_validFrom r) \<and> null_or (\<lambda>v. t < v) (ar_validUntil r))"

text \<open>\<open>temporaryGrantPermissions\<close>.\<close>

definition temporaryGrantPermissions :: "permission list" where
  "temporaryGrantPermissions = [ShowMenu, Read, Search, Preview]"

text \<open>The rules of a space that the query includes: those of active groups, valid now, of any caller.\<close>

definition included_rules :: "env \<Rightarrow> db \<Rightarrow> space_row \<Rightarrow> rule_row list" where
  "included_rules E s sp =
     filter (\<lambda>r. ar_spaceId r = sp_id sp \<and> some_and grp_active (find_group s (ar_groupId r)) \<and>
                 rule_valid (now E) r) (rules s)"

definition included_grants :: "env \<Rightarrow> db \<Rightarrow> string list \<Rightarrow> space_row \<Rightarrow> grant_row list" where
  "included_grants E s gs sp =
     filter (\<lambda>g. tg_spaceId g = sp_id sp \<and>
                 (isAdminIdentity gs \<or>
                  some_and (groupFilter gs) (find_group s (tg_groupId g)) \<and> now E < tg_validUntil g))
       (grants s)"

definition ownerGroup :: "db \<Rightarrow> space_row \<Rightarrow> group_row option" where
  "ownerGroup s sp = Option.bind (sp_ownerGroupId sp) (find_group s)"

definition included_categories :: "db \<Rightarrow> space_row \<Rightarrow> category_row list" where
  "included_categories s sp =
     sort_key cat_slug
       (filter (\<lambda>c. cat_spaceId c = sp_id sp \<and> cat_deletedAt c = None) (categories s))"

definition published_count :: "db \<Rightarrow> string \<Rightarrow> nat" where
  "published_count s cid =
     count_rows (\<lambda>d. doc_categoryId d = Some cid \<and> doc_deletedAt d = None \<and> doc_status d = PUBLISHED)
       (documents s)"

text \<open>The \<open>where\<close> clause of the query on spaces.\<close>

definition space_selected :: "env \<Rightarrow> db \<Rightarrow> string list \<Rightarrow> string option \<Rightarrow> space_row \<Rightarrow> bool" where
  "space_selected E s gs spaceId sp =
     (sp_deletedAt sp = None \<and>
      (truthy spaceId \<longrightarrow> spaceId = Some (sp_id sp)) \<and>
      (isAdminIdentity gs \<or> isModeratorIdentity gs \<or>
       list_ex (\<lambda>r. ar_spaceId r = sp_id sp \<and> rule_valid (now E) r \<and>
                    some_and (groupFilter gs) (find_group s (ar_groupId r))) (rules s) \<or>
       list_ex (\<lambda>g. tg_spaceId g = sp_id sp \<and> now E < tg_validUntil g \<and>
                    some_and (groupFilter gs) (find_group s (tg_groupId g))) (grants s) \<or>
       some_and (groupFilter gs) (ownerGroup s sp)))"

section \<open>Permitted spaces\<close>

record permitted_space =
  ps_space :: space_row
  ps_rules :: "rule_row list"
  ps_categories :: "(category_row \<times> nat) list"
  ps_aclRoot :: bool
  ps_aclCategories :: "string list"

definition scope_of :: "permitted_space \<Rightarrow> category_scope" where
  "scope_of ps = \<lparr>cs_id = sp_id (ps_space ps), cs_aclRoot = Some (ps_aclRoot ps),
                  cs_aclCategories = Some (ps_aclCategories ps)\<rparr>"

definition matches :: "db \<Rightarrow> string list \<Rightarrow> rule_row \<Rightarrow> bool" where
  "matches s gs r =
     (case find_group s (ar_groupId r) of None \<Rightarrow> True | Some g \<Rightarrow> name_in gs (grp_name g))"

definition space_owner :: "db \<Rightarrow> string list \<Rightarrow> permission \<Rightarrow> space_row \<Rightarrow> bool" where
  "space_owner s gs p sp =
     (p \<noteq> Download \<and> some_and (\<lambda>g. grp_active g \<and> name_in gs (grp_name g)) (ownerGroup s sp))"

definition aclRoot :: "env \<Rightarrow> db \<Rightarrow> string list \<Rightarrow> permission \<Rightarrow> space_row \<Rightarrow> bool" where
  "aclRoot E s gs p sp =
     (isAdminIdentity gs \<or> moderatorCan gs p \<or> space_owner s gs p sp \<or>
      list_ex (\<lambda>r. \<not> truthy (ar_categoryId r) \<and> matches s gs r \<and> rule_perm r p)
        (included_rules E s sp) \<or>
      p \<in> set temporaryGrantPermissions \<and> 0 < length (included_grants E s gs sp))"

definition aclCategories :: "env \<Rightarrow> db \<Rightarrow> string list \<Rightarrow> permission \<Rightarrow> space_row \<Rightarrow> string list" where
  "aclCategories E s gs p sp =
     (if isAdminIdentity gs \<or> moderatorCan gs p \<or> space_owner s gs p sp
      then map cat_id (included_categories s sp)
      else resolveCategories
             (map (\<lambda>c. (cat_id c, cat_parentId c)) (included_categories s sp))
             (map (\<lambda>r. (ar_categoryId r, matches s gs r \<and> rule_perm r p)) (included_rules E s sp))
             (aclRoot E s gs p sp))"

definition permitted_space_of ::
    "env \<Rightarrow> db \<Rightarrow> string list \<Rightarrow> permission \<Rightarrow> space_row \<Rightarrow> permitted_space" where
  "permitted_space_of E s gs p sp =
     \<lparr>ps_space = sp,
      ps_rules = filter (matches s gs) (included_rules E s sp),
      ps_categories = map (\<lambda>c. (c, published_count s (cat_id c))) (included_categories s sp),
      ps_aclRoot = aclRoot E s gs p sp,
      ps_aclCategories = aclCategories E s gs p sp\<rparr>"

definition permittedSpacesFor ::
    "env \<Rightarrow> db \<Rightarrow> string list \<Rightarrow> permission list \<Rightarrow> string option \<Rightarrow>
     permission \<Rightarrow> permitted_space list option" where
  "permittedSpacesFor E s gs ps spaceId p =
     (if p \<notin> set ps then None
      else if gs = [] then Some []
      else Some (filter (\<lambda>x. ps_aclRoot x \<or> 0 < length (ps_aclCategories x))
        (map (permitted_space_of E s gs p)
          (sort_key sp_slug (filter (space_selected E s gs spaceId) (spaces s))))))"

text \<open>The loop that makes the ancestors of a visible category visible. \<open>categories\<close> as a map from the
  identifier to the parent.\<close>

function ancestors :: "(string \<times> string option) list \<Rightarrow> string list \<Rightarrow> string option \<Rightarrow> string list" where
  "ancestors cats visited parent =
     (case parent of
        None \<Rightarrow> visited
      | Some p \<Rightarrow>
          if p = [] \<or> p \<in> set visited then visited
          else (case node_of cats p of
                  None \<Rightarrow> p # visited
                | Some q \<Rightarrow> ancestors cats (p # visited) q))"
  by pat_completeness auto
termination
proof (relation "measure (\<lambda>(cats, visited, p). card (set (map fst cats) - set visited))", goal_cases)
  case 1
  show ?case by simp
next
  case (2 cats visited parent p q)
  then have "p \<in> set (map fst cats) - set visited" by (auto dest: node_of_Some)
  moreover have "set (map fst cats) - set (p # visited) = (set (map fst cats) - set visited) - {p}"
    by auto
  ultimately show ?case
    by (simp only: in_measure case_prod_conv) (metis List.finite_set card_Diff1_less finite_Diff)
qed

declare ancestors.simps [simp del]

definition menu_visible :: "(string \<times> string option) list \<Rightarrow> string list \<Rightarrow> string list" where
  "menu_visible cats acl =
     acl @ concat (map (\<lambda>c. ancestors cats [] (Option.bind (node_of cats c) id)) acl)"

definition menu_space :: "permitted_space list \<Rightarrow> permitted_space \<Rightarrow> permitted_space" where
  "menu_space readables ps =
     (let readable = map_option scope_of
            (find_first (\<lambda>r. sp_id (ps_space r) = sp_id (ps_space ps)) readables);
          visible = menu_visible (map (\<lambda>(c, n). (cat_id c, cat_parentId c)) (ps_categories ps))
            (ps_aclCategories ps)
      in ps\<lparr>ps_categories :=
           map (\<lambda>(c, n). (c, if categoryAllowed readable (Some (cat_id c)) then n else 0))
             (filter (\<lambda>(c, n). cat_id c \<in> set visible) (ps_categories ps))\<rparr>)"

definition permittedSpaces :: "env \<Rightarrow> db \<Rightarrow> string list \<Rightarrow> permission \<Rightarrow> permitted_space list" where
  "permittedSpaces E s gs p =
     (let perms = permittedSpacesFor E s gs (if p = ShowMenu then [p, Read] else [p]) None;
          sps = the (perms p)
      in if p \<noteq> ShowMenu then sps
         else map (menu_space (case perms Read of None \<Rightarrow> [] | Some rs \<Rightarrow> rs)) sps)"

section \<open>The decision\<close>

text \<open>The optional argument \<open>categoryId\<close>: left out, or given as null or an identifier.\<close>

datatype category_arg = NoCategory | InCategory "string option"

definition can :: "env \<Rightarrow> db \<Rightarrow> string list \<Rightarrow> string \<Rightarrow> permission \<Rightarrow> category_arg \<Rightarrow> bool" where
  "can E s gs spaceId p arg =
     (if isAdminIdentity gs \<or> moderatorCan gs p then True
      else if gs = [] then False
      else (case arg of
        InCategory cid \<Rightarrow>
          categoryAllowed
            (map_option scope_of (find_first (\<lambda>x. sp_id (ps_space x) = spaceId)
              (the (permittedSpacesFor E s gs [p] (Some spaceId) p)))) cid
      | NoCategory \<Rightarrow>
          (let administrator = isAdminIdentity gs \<or> isModeratorIdentity gs
           in 0 < count_rows (\<lambda>sp. sp_id sp = spaceId \<and> sp_deletedAt sp = None \<and>
                (\<not> administrator \<and> p \<noteq> Download \<and> some_and (groupFilter gs) (ownerGroup s sp) \<or>
                 list_ex (\<lambda>r. ar_spaceId r = sp_id sp \<and> ar_categoryId r = None \<and>
                              some_and (groupFilter gs) (find_group s (ar_groupId r)) \<and>
                              rule_perm r p \<and> rule_valid (now E) r) (rules s) \<or>
                 \<not> administrator \<and> p \<in> set temporaryGrantPermissions \<and>
                 list_ex (\<lambda>g. tg_spaceId g = sp_id sp \<and>
                              some_and (groupFilter gs) (find_group s (tg_groupId g)) \<and>
                              now E < tg_validUntil g) (grants s)))
              (spaces s))))"

section \<open>Library\<close>

lemma groupFilter_nonempty: "groupFilter gs g \<Longrightarrow> gs \<noteq> []"
  by (auto simp: groupFilter_def name_in_def)

lemma set_included_rules:
  "r \<in> set (included_rules E s sp) \<longleftrightarrow>
     r \<in> set (rules s) \<and> ar_spaceId r = sp_id sp \<and> some_and grp_active (find_group s (ar_groupId r)) \<and>
     rule_valid (now E) r"
  by (auto simp: included_rules_def)

lemma included_rule_matches:
  "r \<in> set (included_rules E s sp) \<Longrightarrow>
     matches s gs r = some_and (groupFilter gs) (find_group s (ar_groupId r))"
  by (cases "find_group s (ar_groupId r)")
    (auto simp: set_included_rules matches_def groupFilter_def)

lemma space_owner_eq:
  "space_owner s gs p sp \<longleftrightarrow> p \<noteq> Download \<and> some_and (groupFilter gs) (ownerGroup s sp)"
  by (cases "ownerGroup s sp") (simp_all add: space_owner_def groupFilter_def)

lemma included_grants_pos:
  "\<not> isAdminIdentity gs \<Longrightarrow> 0 < length (included_grants E s gs sp) \<longleftrightarrow>
     (\<exists>g\<in>set (grants s). tg_spaceId g = sp_id sp \<and> now E < tg_validUntil g \<and>
        some_and (groupFilter gs) (find_group s (tg_groupId g)))"
  by (auto simp: included_grants_def filter_empty_conv)

lemma aclRoot_sources:
  assumes "\<not> isAdminIdentity gs" and "\<not> moderatorCan gs p"
  shows "aclRoot E s gs p sp \<longleftrightarrow>
     p \<noteq> Download \<and> some_and (groupFilter gs) (ownerGroup s sp) \<or>
     (\<exists>r\<in>set (included_rules E s sp). \<not> truthy (ar_categoryId r) \<and>
        some_and (groupFilter gs) (find_group s (ar_groupId r)) \<and> rule_perm r p) \<or>
     p \<in> set temporaryGrantPermissions \<and>
     (\<exists>g\<in>set (grants s). tg_spaceId g = sp_id sp \<and> now E < tg_validUntil g \<and>
        some_and (groupFilter gs) (find_group s (tg_groupId g)))"
  unfolding aclRoot_def space_owner_eq included_grants_pos [OF assms(1)] list_ex_iff
  using assms by (auto simp: included_rule_matches)

lemma decided_True_source:
  "decided cats ov inherited n c b \<Longrightarrow> b \<Longrightarrow> inherited \<or> (\<exists>d. ov d = Some True)"
  by (induction rule: decided.induct) auto

lemma walk_True_source:
  "walk cats ov inherited visited cur \<Longrightarrow> inherited \<or> (\<exists>d. ov d = Some True)"
  using walk_none_allowed [of ov cats visited cur] by (cases inherited) auto

lemma aclCategories_sources:
  assumes "c \<in> set (aclCategories E s gs p sp)"
    and "\<not> isAdminIdentity gs" and "\<not> moderatorCan gs p"
  shows "aclRoot E s gs p sp \<or>
     (\<exists>r\<in>set (included_rules E s sp).
        some_and (groupFilter gs) (find_group s (ar_groupId r)) \<and> rule_perm r p)"
proof (cases "space_owner s gs p sp")
  case True
  then show ?thesis by (simp add: aclRoot_def)
next
  case False
  with assms obtain v where "walk (map (\<lambda>c. (cat_id c, cat_parentId c)) (included_categories s sp))
      (overrides_of (map (\<lambda>r. (ar_categoryId r, matches s gs r \<and> rule_perm r p))
        (included_rules E s sp)) (\<lambda>_. None)) (aclRoot E s gs p sp) [] v"
    by (auto simp: aclCategories_def resolveCategories_def)
  from walk_True_source [OF this] show ?thesis
    by (auto simp: overrides_of_eq included_rule_matches split: if_splits)
qed

text \<open>Whoever a space opens for holds, through an active group, a valid rule for the permission on
  that space, or owns the space, or has a running temporary grant.\<close>

definition entitled :: "env \<Rightarrow> db \<Rightarrow> string list \<Rightarrow> permission \<Rightarrow> space_row \<Rightarrow> bool" where
  "entitled E s gs p sp \<longleftrightarrow>
     (\<exists>r\<in>set (rules s). ar_spaceId r = sp_id sp \<and> rule_valid (now E) r \<and> rule_perm r p \<and>
        some_and (groupFilter gs) (find_group s (ar_groupId r))) \<or>
     (p \<noteq> Download \<and> some_and (groupFilter gs) (ownerGroup s sp)) \<or>
     (p \<in> set temporaryGrantPermissions \<and>
      (\<exists>g\<in>set (grants s). tg_spaceId g = sp_id sp \<and> now E < tg_validUntil g \<and>
         some_and (groupFilter gs) (find_group s (tg_groupId g))))"

lemma permitted_entitled:
  assumes "\<not> isAdminIdentity gs" and "\<not> moderatorCan gs p"
    and "aclRoot E s gs p sp \<or> aclCategories E s gs p sp \<noteq> []"
  shows "entitled E s gs p sp"
proof -
  have root: "aclRoot E s gs p sp \<Longrightarrow> ?thesis"
    unfolding aclRoot_sources [OF assms(1,2)] entitled_def by (auto simp: set_included_rules)
  moreover have "c \<in> set (aclCategories E s gs p sp) \<Longrightarrow> ?thesis" for c
    using aclCategories_sources [OF _ assms(1,2), of c E s sp] root
    by (auto simp: entitled_def set_included_rules)
  ultimately show ?thesis using assms(3) by (cases "aclCategories E s gs p sp") auto
qed

lemma entitled_selected:
  "entitled E s gs p sp \<Longrightarrow> sp_deletedAt sp = None \<Longrightarrow>
     (truthy spaceId \<longrightarrow> spaceId = Some (sp_id sp)) \<Longrightarrow> space_selected E s gs spaceId sp"
  unfolding entitled_def space_selected_def list_ex_iff by blast

lemma permittedSpacesFor_Some:
  "p \<in> set ps \<Longrightarrow> \<exists>xs. permittedSpacesFor E s gs ps spaceId p = Some xs"
  by (simp add: permittedSpacesFor_def)

lemma in_permittedSpacesFor:
  "p \<in> set ps \<Longrightarrow> x \<in> set (the (permittedSpacesFor E s gs ps spaceId p)) \<longleftrightarrow>
     gs \<noteq> [] \<and> (\<exists>sp\<in>set (spaces s). space_selected E s gs spaceId sp \<and>
        x = permitted_space_of E s gs p sp \<and>
        (aclRoot E s gs p sp \<or> aclCategories E s gs p sp \<noteq> []))"
  by (auto simp: permittedSpacesFor_def permitted_space_of_def)

lemma permitted_space_of_simps [simp]:
  "ps_space (permitted_space_of E s gs p sp) = sp"
  "ps_aclRoot (permitted_space_of E s gs p sp) = aclRoot E s gs p sp"
  "ps_aclCategories (permitted_space_of E s gs p sp) = aclCategories E s gs p sp"
  by (simp_all add: permitted_space_of_def)

lemma in_permittedSpacesFor_one:
  assumes "x \<in> set (the (permittedSpacesFor E s gs [p] spaceId p))"
  obtains sp where "sp \<in> set (spaces s)" "space_selected E s gs spaceId sp"
    "x = permitted_space_of E s gs p sp" "aclRoot E s gs p sp \<or> aclCategories E s gs p sp \<noteq> []"
  using assms in_permittedSpacesFor [of p "[p]" x E s gs spaceId] by auto

section \<open>Properties\<close>

text \<open>The pre-selection of spaces in the database query never changes the result. Asking for a
  permission gives exactly the spaces that are not deleted and whose root or some category is open
  to the caller, although the query already drops every space without a rule, a grant or an owner
  group of the caller.\<close>

theorem permittedSpacesFor_preselection_redundant:
  assumes "p \<in> set ps" and "gs \<noteq> []" and "\<not> isAdminIdentity gs" and "\<not> isModeratorIdentity gs"
  shows "set (the (permittedSpacesFor E s gs ps None p)) =
     permitted_space_of E s gs p `
       {sp \<in> set (spaces s). sp_deletedAt sp = None \<and>
          (aclRoot E s gs p sp \<or> aclCategories E s gs p sp \<noteq> [])}"
proof -
  have nm: "\<not> moderatorCan gs p" using assms(3,4) moderatorCan_moderator by blast
  have "space_selected E s gs None sp \<longleftrightarrow> sp_deletedAt sp = None"
    if "aclRoot E s gs p sp \<or> aclCategories E s gs p sp \<noteq> []" for sp
    using entitled_selected [OF permitted_entitled [OF assms(3) nm that], of None]
    by (auto simp: truthy_def space_selected_def)
  then show ?thesis
    using assms(2) unfolding set_eq_iff in_permittedSpacesFor [OF assms(1)] by blast
qed

lemma can_InCategory_D:
  assumes "can E s gs spaceId p (InCategory cid)"
    and "\<not> isAdminIdentity gs" and "\<not> moderatorCan gs p"
  obtains sp where "sp \<in> set (spaces s)" "sp_id sp = spaceId" "sp_deletedAt sp = None"
    "aclRoot E s gs p sp \<or> aclCategories E s gs p sp \<noteq> []"
proof -
  from assms obtain x where
    "find_first (\<lambda>x. sp_id (ps_space x) = spaceId)
       (the (permittedSpacesFor E s gs [p] (Some spaceId) p)) = Some x"
    by (auto simp: can_def categoryAllowed_def split: if_splits option.splits)
  then have "x \<in> set (the (permittedSpacesFor E s gs [p] (Some spaceId) p))"
    "sp_id (ps_space x) = spaceId"
    by (auto dest: find_first_Some)
  then show thesis
    using that by (elim in_permittedSpacesFor_one) (simp add: space_selected_def)
qed

lemma groupFilter_active: "some_and (groupFilter gs) v \<Longrightarrow> some_and grp_active v"
  by (cases v) (auto simp: groupFilter_def)

lemma can_entitled:
  assumes "can E s gs spaceId p arg" and "\<not> isAdminIdentity gs" and nm: "\<not> moderatorCan gs p"
  shows "\<exists>sp\<in>set (spaces s). sp_id sp = spaceId \<and> sp_deletedAt sp = None \<and> entitled E s gs p sp"
proof (cases arg)
  case (InCategory cid)
  with assms obtain sp where "sp \<in> set (spaces s)" "sp_id sp = spaceId" "sp_deletedAt sp = None"
    "aclRoot E s gs p sp \<or> aclCategories E s gs p sp \<noteq> []"
    by (auto elim: can_InCategory_D)
  with permitted_entitled [OF assms(2) nm] show ?thesis by blast
next
  case NoCategory
  with assms show ?thesis
    unfolding can_def entitled_def Let_def
    by (simp add: count_rows_pos_iff list_ex_iff split: if_splits) blast
qed

text \<open>C1: deny by default. Whoever is allowed something in a space is in the group of the
  administrators; or is in the group of the moderators, and to publish or to archive also in the group
  of the moderators who may publish or archive; or the space exists, is not deleted, and one of the
  caller's groups, being active, is entitled to it: by a rule that grants this permission and is inside
  its validity period, by owning the space (never for a download), or by a temporary grant that has not
  ended (for menu, read, search and preview only).\<close>

theorem can_deny_by_default:
  assumes "can E s gs spaceId p arg"
  shows "''ISMS-LOCAL-ADMINS'' \<in> set gs \<or>
    (''ISMS-MODERATOR-MANAGE'' \<in> set gs \<and>
     (p = Publish \<longrightarrow> ''ISMS-MODERATOR-PUBLISH'' \<in> set gs) \<and>
     (p = Archive \<longrightarrow> ''ISMS-MODERATOR-ARCHIVE'' \<in> set gs)) \<or>
    (\<exists>sp\<in>set (spaces s). sp_id sp = spaceId \<and> sp_deletedAt sp = None \<and> entitled E s gs p sp)"
proof (cases "moderatorCan gs p")
  case True
  then show ?thesis
    by (auto simp: moderatorCan_def isAdminIdentity_def isModeratorIdentity_def split: if_splits)
next
  case False
  with can_entitled [OF assms _ this] show ?thesis by (auto simp: isAdminIdentity_def)
qed

text \<open>A member of a group without a role, and a moderator who may not publish.\<close>

theorem can_deny_by_default_witness:
  "can sample_env sample_db [''staff''] ''s1'' Read (InCategory None) \<and>
   entitled sample_env sample_db [''staff''] Read sample_space \<and>
   can sample_env sample_db [''ISMS-MODERATOR-MANAGE''] ''s1'' Read NoCategory \<and>
   \<not> can sample_env sample_db [''ISMS-MODERATOR-MANAGE''] ''s1'' Publish NoCategory"
proof -
  have c: "can sample_env sample_db [''staff''] ''s1'' Read (InCategory None)"
    by code_simp
  have m: "can sample_env sample_db [''ISMS-MODERATOR-MANAGE''] ''s1'' Read NoCategory" by code_simp
  have "\<not> entitled sample_env sample_db [''ISMS-MODERATOR-MANAGE''] Publish sample_space" by code_simp
  with can_deny_by_default [where E = sample_env and s = sample_db and gs = "[''ISMS-MODERATOR-MANAGE'']"
      and spaceId = "''s1''" and p = Publish and arg = NoCategory]
  have "\<not> can sample_env sample_db [''ISMS-MODERATOR-MANAGE''] ''s1'' Publish NoCategory"
    by (auto simp: sample_db_def)
  moreover have "entitled sample_env sample_db [''staff''] Read sample_space"
    using can_deny_by_default [OF c] by (auto simp: sample_db_def)
  ultimately show ?thesis using c m by blast
qed

theorem permittedSpacesFor_preselection_redundant_witness:
  "permitted_space_of sample_env sample_db [''staff''] Read sample_space
     \<in> set (the (permittedSpacesFor sample_env sample_db [''staff''] [Read] None Read))"
proof -
  have "aclRoot sample_env sample_db [''staff''] Read sample_space"
    by code_simp
  then show ?thesis
    using permittedSpacesFor_preselection_redundant
      [of Read "[Read]" "[''staff'']" sample_env sample_db]
    by (simp add: isAdminIdentity_def isModeratorIdentity_def)
      (simp add: sample_db_def sample_space_def)
qed

lemma find_permitted:
  assumes "distinct (map sp_id (spaces s))" and "gs \<noteq> []"
    and "sp \<in> set (spaces s)" and "sp_id sp = i" and "i \<noteq> []"
  shows "find_first (\<lambda>x. sp_id (ps_space x) = i) (the (permittedSpacesFor E s gs [p] (Some i) p)) =
     (if space_selected E s gs (Some i) sp \<and> (aclRoot E s gs p sp \<or> aclCategories E s gs p sp \<noteq> [])
      then Some (permitted_space_of E s gs p sp) else None)"
    (is "find_first ?q ?xs = (if ?c then Some ?x else None)")
proof (cases ?c)
  case True
  then have "?x \<in> set ?xs" using assms(2,3) by (auto simp: in_permittedSpacesFor)
  moreover have "?q ?x" using assms(4) by simp
  ultimately obtain y where y: "find_first ?q ?xs = Some y"
    by (cases "find_first ?q ?xs") (auto simp: find_first_None_iff)
  then have "y \<in> set ?xs" "?q y" by (auto dest: find_first_Some)
  then obtain sp' where "sp' \<in> set (spaces s)" "y = permitted_space_of E s gs p sp'" "sp_id sp' = i"
    by (elim in_permittedSpacesFor_one) simp
  with key_unique [OF assms(1), of sp' sp] assms(3,4) have "y = ?x" by simp
  with y True show ?thesis by simp
next
  case False
  have "\<not> ?q x" if "x \<in> set ?xs" for x
  proof
    assume "?q x"
    with that obtain sp' where "sp' \<in> set (spaces s)" "sp_id sp' = i"
      "space_selected E s gs (Some i) sp'" "aclRoot E s gs p sp' \<or> aclCategories E s gs p sp' \<noteq> []"
      by (elim in_permittedSpacesFor_one) simp
    with key_unique [OF assms(1), of sp' sp] assms(3,4) False show False by simp
  qed
  then have "find_first ?q ?xs = None" by (simp add: find_first_None_iff)
  with False show ?thesis by simp
qed

lemma can_InCategory_eq:
  assumes "distinct (map sp_id (spaces s))" and "sp \<in> set (spaces s)" and "sp_id sp = i" and "i \<noteq> []"
    and "\<not> isAdminIdentity gs" and "\<not> moderatorCan gs p"
  shows "can E s gs i p (InCategory cid) \<longleftrightarrow>
     gs \<noteq> [] \<and> sp_deletedAt sp = None \<and>
     (if truthy cid then the cid \<in> set (aclCategories E s gs p sp) else aclRoot E s gs p sp)"
proof (cases "gs = []")
  case True
  then show ?thesis using assms(5,6) by (simp add: can_def)
next
  case False
  have del: "space_selected E s gs (Some i) sp \<Longrightarrow> sp_deletedAt sp = None"
    by (simp add: space_selected_def)
  have sel: "aclRoot E s gs p sp \<or> aclCategories E s gs p sp \<noteq> [] \<Longrightarrow>
      sp_deletedAt sp = None \<Longrightarrow> space_selected E s gs (Some i) sp"
    using entitled_selected [OF permitted_entitled [OF assms(5,6)], of E s sp "Some i"] assms(3) by simp
  have "can E s gs i p (InCategory cid) \<longleftrightarrow>
     categoryAllowed (map_option scope_of
       (if space_selected E s gs (Some i) sp \<and> (aclRoot E s gs p sp \<or> aclCategories E s gs p sp \<noteq> [])
        then Some (permitted_space_of E s gs p sp) else None)) cid"
    using False assms by (simp add: can_def find_permitted [OF assms(1) _ assms(2,3,4)])
  also have "\<dots> \<longleftrightarrow> space_selected E s gs (Some i) sp \<and>
     (if truthy cid then the cid \<in> set (aclCategories E s gs p sp) else aclRoot E s gs p sp)"
    by (auto simp: categoryAllowed_def scope_of_def)
  finally show ?thesis
    using sel del False by (cases "aclCategories E s gs p sp") (auto split: if_splits)
qed

text \<open>Inside a space, the nearest rule decides. For a caller without a role who does not own the
  space, being allowed in a category means that the space is live and that walking up from the
  category the first rules found, those of every group added up, allow it; only where no category
  of the branch carries a rule does the answer for the whole space count.\<close>

theorem can_category_nearest_rule:
  assumes "distinct (map sp_id (spaces s))" and "sp \<in> set (spaces s)" and "sp_id sp = i" and "i \<noteq> []"
    and "\<not> isAdminIdentity gs" and "\<not> moderatorCan gs p" and "\<not> space_owner s gs p sp" and "c \<noteq> []"
  shows "can E s gs i p (InCategory (Some c)) \<longleftrightarrow>
     gs \<noteq> [] \<and> sp_deletedAt sp = None \<and>
     (\<exists>n. decided (map (\<lambda>c. (cat_id c, cat_parentId c)) (included_categories s sp))
        (overrides_of (map (\<lambda>r. (ar_categoryId r, matches s gs r \<and> rule_perm r p))
           (included_rules E s sp)) (\<lambda>_. None))
        (aclRoot E s gs p sp) n c True)"
  unfolding can_InCategory_eq [OF assms(1-6)]
  using assms(5-8) by (simp add: truthy_def aclCategories_def resolveCategories_iff)

theorem can_category_nearest_rule_witness:
  "can sample_env sample_db [''staff''] ''s1'' Read (InCategory (Some ''c2''))"
proof -
  let ?cats = "map (\<lambda>c. (cat_id c, cat_parentId c)) (included_categories sample_db sample_space)"
  let ?ov = "overrides_of (map (\<lambda>r. (ar_categoryId r, matches sample_db [''staff''] r \<and> rule_perm r Read))
     (included_rules sample_env sample_db sample_space)) (\<lambda>_. None)"
  have "decided ?cats ?ov True 0 ''c1'' True"
  proof (rule decided.root)
    show "node_of ?cats ''c1'' = Some None" by code_simp
    show "?ov ''c1'' = None" by code_simp
    show "parent_or_null None = None" by code_simp
  qed
  moreover have "node_of ?cats ''c2'' = Some (Some ''c1'')" by code_simp
  moreover have "?ov ''c2'' = None" by code_simp
  moreover have "parent_or_null (Some ''c1'') = Some ''c1''" by code_simp
  ultimately have d: "decided ?cats ?ov True (Suc 0) ''c2'' True" by (blast intro: decided.inherit)
  have hyps: "distinct (map sp_id (spaces sample_db))" "sample_space \<in> set (spaces sample_db)"
    "sp_id sample_space = ''s1''" "''s1'' \<noteq> []" "\<not> isAdminIdentity [''staff'']"
    "\<not> moderatorCan [''staff''] Read" "\<not> space_owner sample_db [''staff''] Read sample_space"
    "''c2'' \<noteq> []"
    by (simp_all add: sample_db_def sample_space_def isAdminIdentity_def moderatorCan_def
        isModeratorIdentity_def space_owner_def ownerGroup_def)
  have "aclRoot sample_env sample_db [''staff''] Read sample_space" by code_simp
  then show ?thesis
    unfolding can_category_nearest_rule [OF hyps, of sample_env]
    using d by (simp add: sample_space_def) blast
qed

text \<open>The two ways of asking about a whole space agree. For a caller without a role, leaving out
  the category and passing null give the same answer, although one counts spaces in the database
  and the other goes through the permitted spaces. Rule and space identifiers are not empty.\<close>

theorem can_without_category_eq_null_category:
  assumes "distinct (map sp_id (spaces s))" and "i \<noteq> []"
    and "\<not> isAdminIdentity gs" and "\<not> isModeratorIdentity gs"
    and "\<forall>r\<in>set (rules s). ar_categoryId r \<noteq> Some []"
  shows "can E s gs i p NoCategory \<longleftrightarrow> can E s gs i p (InCategory None)"
proof (cases "\<exists>sp\<in>set (spaces s). sp_id sp = i")
  case False
  then have "\<not> can E s gs i p arg" for arg
    using can_entitled [OF _ assms(3)] moderatorCan_moderator assms(3,4) by blast
  then show ?thesis by simp
next
  case True
  then obtain sp where sp: "sp \<in> set (spaces s)" "sp_id sp = i" by blast
  have nm: "\<not> moderatorCan gs p" using assms(3,4) moderatorCan_moderator by blast
  have cat: "r \<in> set (rules s) \<Longrightarrow> (ar_categoryId r = None) = (\<not> truthy (ar_categoryId r))" for r
    using assms(5) by (auto simp: truthy_def)
  have rl: "(\<exists>r\<in>set (included_rules E s sp). \<not> truthy (ar_categoryId r) \<and>
        some_and (groupFilter gs) (find_group s (ar_groupId r)) \<and> rule_perm r p) \<longleftrightarrow>
     (\<exists>r\<in>set (rules s). ar_spaceId r = sp_id sp \<and> ar_categoryId r = None \<and>
        some_and (groupFilter gs) (find_group s (ar_groupId r)) \<and> rule_perm r p \<and> rule_valid (now E) r)"
    unfolding Bex_def set_included_rules using cat groupFilter_active by blast
  have "can E s gs i p NoCategory \<longleftrightarrow> gs \<noteq> [] \<and> sp_deletedAt sp = None \<and> aclRoot E s gs p sp"
    unfolding aclRoot_sources [OF assms(3) nm] rl can_def sp(2) [symmetric]
    using assms(3,4) nm by (auto simp: count_rows_key_pos [OF assms(1) sp(1)] list_ex_iff)
  also have "\<dots> \<longleftrightarrow> can E s gs i p (InCategory None)"
    using can_InCategory_eq [OF assms(1) sp assms(2,3) nm] by (simp add: truthy_def)
  finally show ?thesis .
qed

theorem can_without_category_eq_null_category_witness:
  "can sample_env sample_db [''staff''] ''s1'' Edit NoCategory"
proof -
  have "can sample_env sample_db [''staff''] ''s1'' Edit (InCategory None)" by code_simp
  then show ?thesis
    using can_without_category_eq_null_category
      [of sample_db "''s1''" "[''staff'']" sample_env Edit]
    by (simp add: sample_db_def sample_space_def sample_rule_def isAdminIdentity_def
        isModeratorIdentity_def)
qed

definition owned_db :: db where
  "owned_db = sample_db\<lparr>spaces := [sample_space\<lparr>sp_ownerGroupId := Some ''g1''\<rparr>]\<rparr>"

text \<open>For moderators the two ways of asking differ. A moderator without the publication right who
  is in the owner group of a space may publish when the (null) category of the document is passed,
  as every document route does, and may not when the category is left out, where ownership is
  deliberately not counted for moderators.\<close>

theorem can_moderator_owner_divergence:
  "isModeratorIdentity [''ISMS-MODERATOR-MANAGE'', ''Staff''] \<and>
   \<not> moderatorCan [''ISMS-MODERATOR-MANAGE'', ''Staff''] Publish \<and>
   can sample_env owned_db [''ISMS-MODERATOR-MANAGE'', ''Staff''] ''s1'' Publish (InCategory None) \<and>
   \<not> can sample_env owned_db [''ISMS-MODERATOR-MANAGE'', ''Staff''] ''s1'' Publish NoCategory"
  by code_simp

section \<open>The menu\<close>

definition parent_closed :: "(string \<times> string option) list \<Rightarrow> string set \<Rightarrow> bool" where
  "parent_closed cats V \<longleftrightarrow>
     (\<forall>v\<in>V. \<forall>q. node_of cats v = Some (Some q) \<longrightarrow> q \<noteq> [] \<longrightarrow> q \<in> V)"

lemma ancestors_closed:
  "(\<forall>v\<in>set visited. \<forall>q. node_of cats v = Some (Some q) \<longrightarrow> q \<noteq> [] \<longrightarrow>
      q \<in> set visited \<or> parent = Some q) \<Longrightarrow>
   parent_closed cats (set (ancestors cats visited parent)) \<and>
   set visited \<subseteq> set (ancestors cats visited parent) \<and>
   (\<forall>q. parent = Some q \<longrightarrow> q \<noteq> [] \<longrightarrow> q \<in> set (ancestors cats visited parent))"
proof (induction cats visited parent rule: ancestors.induct)
  case (1 cats visited parent)
  show ?case
  proof (cases "parent = None \<or> parent = Some [] \<or> the parent \<in> set visited")
    case True
    then have a: "ancestors cats visited parent = visited"
      by (auto simp: ancestors.simps [of cats visited parent] split: option.splits)
    have "q \<in> set visited" if "v \<in> set visited" "node_of cats v = Some (Some q)" "q \<noteq> []" for v q
      using "1.prems" that True by force
    with True show ?thesis unfolding a parent_closed_def by force
  next
    case False
    then obtain p where p: "parent = Some p" "p \<noteq> []" "p \<notin> set visited"
      by (cases parent) auto
    show ?thesis
    proof (cases "node_of cats p")
      case None
      with p have a: "ancestors cats visited parent = p # visited"
        by (simp add: ancestors.simps [of cats visited "Some p"])
      with 1 p None show ?thesis by (auto simp: parent_closed_def)
    next
      case (Some q)
      with p have a: "ancestors cats visited parent = ancestors cats (p # visited) q"
        by (simp add: ancestors.simps [of cats visited "Some p"])
      have "parent_closed cats (set (ancestors cats (p # visited) q)) \<and>
         set (p # visited) \<subseteq> set (ancestors cats (p # visited) q) \<and>
         (\<forall>r. q = Some r \<longrightarrow> r \<noteq> [] \<longrightarrow> r \<in> set (ancestors cats (p # visited) q))"
        by (rule 1) (use p Some "1.prems" in auto)
      with a p show ?thesis by auto
    qed
  qed
qed

lemma menu_visible_closed: "parent_closed cats (set (menu_visible cats acl))"
proof -
  let ?A = "\<lambda>c. set (ancestors cats [] (Option.bind (node_of cats c) id))"
  have "parent_closed cats (?A c)" "\<And>q. node_of cats c = Some (Some q) \<Longrightarrow> q \<noteq> [] \<Longrightarrow> q \<in> ?A c" for c
    using ancestors_closed [of "[]" cats "Option.bind (node_of cats c) id"] by auto
  note anc = this
  show ?thesis
    unfolding parent_closed_def
  proof (intro ballI allI impI)
    fix v q
    assume v: "v \<in> set (menu_visible cats acl)" and q: "node_of cats v = Some (Some q)" "q \<noteq> []"
    then consider "v \<in> set acl" | c where "c \<in> set acl" "v \<in> ?A c"
      by (auto simp: menu_visible_def)
    then have "\<exists>c\<in>set acl. q \<in> ?A c"
    proof cases
      case 1
      with anc(2) q show ?thesis by blast
    next
      case (2 c)
      with anc(1) [of c] q show ?thesis unfolding parent_closed_def by blast
    qed
    then show "q \<in> set (menu_visible cats acl)" by (auto simp: menu_visible_def)
  qed
qed

text \<open>The menu is a tree. Whenever a category is shown in the menu of a space, so is its parent
  category if it belongs to the space, so that every entry hangs below its ancestors.\<close>

theorem menu_shows_parents:
  assumes "ps \<in> set (permittedSpaces E s gs ShowMenu)"
    and "c \<in> set (map fst (ps_categories ps))" and "cat_parentId c = Some q" and "q \<noteq> []"
    and "p \<in> set (included_categories s (ps_space ps))" and "cat_id p = q"
    and "distinct (map cat_id (included_categories s (ps_space ps)))"
  shows "p \<in> set (map fst (ps_categories ps))"
proof -
  obtain rs x where x: "x \<in> set (the (permittedSpacesFor E s gs [ShowMenu, Read] None ShowMenu))"
    and ps: "ps = menu_space rs x"
    using assms(1) by (auto simp: permittedSpaces_def Let_def)
  then obtain sp where sp: "x = permitted_space_of E s gs ShowMenu sp"
    by (auto simp: in_permittedSpacesFor)
  let ?cats = "map (\<lambda>c. (cat_id c, cat_parentId c)) (included_categories s sp)"
  let ?V = "set (menu_visible ?cats (aclCategories E s gs ShowMenu sp))"
  have space: "ps_space ps = sp" by (simp add: ps sp menu_space_def Let_def)
  have shown: "set (map fst (ps_categories ps)) = {c \<in> set (included_categories s sp). cat_id c \<in> ?V}"
    by (auto simp: ps sp menu_space_def Let_def permitted_space_of_def comp_def image_iff)
  have "map_of (rev ?cats) (cat_id c) = Some (cat_parentId c)"
    using assms(2,7) unfolding shown space
    by (intro map_of_is_SomeI) (auto simp: rev_map comp_def distinct_map)
  then have "node_of ?cats (cat_id c) = Some (Some q)" by (simp add: node_of_def assms(3))
  with menu_visible_closed [of ?cats] assms(2,4) have "q \<in> ?V"
    unfolding shown parent_closed_def by blast
  with assms(5,6) show ?thesis unfolding shown space by simp
qed

theorem menu_shows_parents_witness:
  "\<exists>ps\<in>set (permittedSpaces sample_env sample_db [''staff''] ShowMenu).
     sample_category \<in> set (map fst (ps_categories ps))"
proof -
  let ?ps = "hd (permittedSpaces sample_env sample_db [''staff''] ShowMenu)"
  have ps: "?ps \<in> set (permittedSpaces sample_env sample_db [''staff''] ShowMenu)"
    "sample_subcategory \<in> set (map fst (ps_categories ?ps))"
    "sample_category \<in> set (included_categories sample_db (ps_space ?ps))"
    "distinct (map cat_id (included_categories sample_db (ps_space ?ps)))"
    by code_simp+
  have "sample_category \<in> set (map fst (ps_categories ?ps))"
    using menu_shows_parents [OF ps(1,2) _ _ ps(3) _ ps(4), of "''c1''"]
    by (simp add: sample_category_def sample_subcategory_def)
  with ps(1) show ?thesis by blast
qed

section \<open>What the clients rely on\<close>

text \<open>The contract of the decision towards the document workflows: administrators are never refused,
  a caller without groups always is, and a moderator is refused nothing but publication and
  archiving.\<close>

locale access_control =
  fixes permits :: "string list \<Rightarrow> string \<Rightarrow> permission \<Rightarrow> category_arg \<Rightarrow> bool"
  assumes admin_permitted: "isAdminIdentity gs \<Longrightarrow> permits gs i p arg"
    and anonymous_refused: "\<not> permits [] i p arg"
    and moderator_permitted:
      "isModeratorIdentity gs \<Longrightarrow> p \<noteq> Publish \<Longrightarrow> p \<noteq> Archive \<Longrightarrow> permits gs i p arg"

interpretation acl: access_control "can E s" for E s
  by unfold_locales (auto simp: can_def moderatorCan_def)

end
