(* ===== verification/Approvals.thy ===== *)
theory Approvals
  imports Document_Workflow Authorization
begin

text \<open>
  The two-person rule on sensitive operations and the review inbox: \<^verbatim>\<open>apps/api/src/approvals.controller.ts\<close>
  and \<^verbatim>\<open>sensitive-approval.service.ts\<close>; and the permanent deletion of a space with its requests
  (\<^verbatim>\<open>controllers.ts\<close>), the other writer of the table.
\<close>

section \<open>Periods\<close>

definition number_integer :: "(int \<times> nat) option \<Rightarrow> int option" where
  "number_integer n =
     (case n of None \<Rightarrow> None | Some (m, k) \<Rightarrow> if m mod 10 ^ k = 0 then Some (m div 10 ^ k) else None)"

definition date_utc :: "int \<Rightarrow> int \<Rightarrow> int \<Rightarrow> time" where
  "date_utc y m d = days_from_civil y m d * day_ms"

text \<open>The half-open period of creation instants, or no restriction.\<close>

definition periodWhere :: "string option \<Rightarrow> string option \<Rightarrow> (time \<times> time) option outcome" where
  "periodWhere year month =
     (if \<not> truthy year then Inr None
      else (let parsedYear = number_integer (js_number (the year));
                parsedMonth = number_integer (js_number (the month))
            in if \<not> some_and (\<lambda>y. 2020 \<le> y \<and> y \<le> 2100) parsedYear \<or>
                  truthy month \<and> \<not> some_and (\<lambda>m. 1 \<le> m \<and> m \<le> 12) parsedMonth
               then Inl (BadRequest ''Invalid approval period'')
               else (let y = the parsedYear; m = the parsedMonth
                     in if truthy month
                        then Inr (Some (date_utc y m 1,
                               date_utc (if m = 12 then y + 1 else y) (if m = 12 then 1 else m + 1) 1))
                        else Inr (Some (date_utc y 1 1, date_utc (y + 1) 1 1)))))"

definition in_period :: "(time \<times> time) option \<Rightarrow> time \<Rightarrow> bool" where
  "in_period p t = (case p of None \<Rightarrow> True | Some (a, b) \<Rightarrow> a \<le> t \<and> t < b)"

section \<open>Sensitive operations\<close>

definition same_identity :: "string \<Rightarrow> string \<Rightarrow> bool" where
  "same_identity a b = (toLowerCase a = toLowerCase b)"

definition list_approvals ::
    "db \<Rightarrow> request \<Rightarrow> string option \<Rightarrow> string option \<Rightarrow> (approval_row \<times> bool) list outcome" where
  "list_approvals s req year month =
     (if \<not> isAdminIdentity (rq_groups req) then Inr []
      else (case periodWhere year month of
          Inl e \<Rightarrow> Inl e
        | Inr p \<Rightarrow> Inr (map (\<lambda>a. (a, \<not> same_identity (ap_requestedBy a) (rq_username req)))
            (find_many (\<lambda>a. - ap_createdAt a) 300 (\<lambda>a. in_period p (ap_createdAt a)) (approvals s)))))"

record approval_decision =
  ad_status :: approval_status
  ad_by :: string
  ad_at :: time

definition approval_pending :: "approval_row \<Rightarrow> bool" where
  "approval_pending a = (ap_status a = ApPending)"

definition decide_approval_row :: "approval_decision \<Rightarrow> approval_row \<Rightarrow> approval_row" where
  "decide_approval_row d a =
     a\<lparr>ap_status := ad_status d, ap_approvedBy := Some (ad_by d), ap_approvedAt := Some (ad_at d)\<rparr>"

definition approval_closes :: "approval_decision \<Rightarrow> bool" where
  "approval_closes d = (ad_status d \<noteq> ApPending)"

definition decided_title :: string where
  "decided_title = ''Demande d'' @ [CHR 0xE2, CHR 0x80, CHR 0x99] @ ''approbation trait'' @ [CHR 0xC3, CHR 0xA9] @ ''e''"

text \<open>The status of the request body: \<open>None\<close> is any value other than the two that are accepted.\<close>

definition approval_status_text :: "approval_status \<Rightarrow> string" where
  "approval_status_text st =
     (case st of ApPending \<Rightarrow> ''PENDING'' | ApApproved \<Rightarrow> ''APPROVED'' | ApRejected \<Rightarrow> ''REJECTED''
      | ApExecuted \<Rightarrow> ''EXECUTED'')"

definition parse_decision :: "string option \<Rightarrow> approval_status option" where
  "parse_decision v =
     (if v = Some ''APPROVED'' then Some ApApproved
      else if v = Some ''REJECTED'' then Some ApRejected else None)"

definition announce_approval :: "env \<Rightarrow> db \<Rightarrow> request \<Rightarrow> approval_row \<Rightarrow> approval_status \<Rightarrow> db" where
  "announce_approval E s req item st =
     (let s1 = s\<lparr>notices := notices s @
            [\<lparr>un_identity = ap_requestedBy item, un_title = decided_title,
              un_message = ap_operation item @ '' : '' @ approval_status_text st @ '' par '' @ rq_username req,
              un_resourceType = Some ''sensitive-approval'', un_resourceId = Some (ap_id item),
              un_mandatory = True\<rparr>]\<rparr>
      in record_audit E s1 req ''sensitive-approval.decision'' (''sensitive-approval:'' @ ap_id item) Success
           (Some (JObj [(''status'', JStr (approval_status_text st)),
                        (''requestedBy'', JStr (ap_requestedBy item))])))"

definition decide_approval ::
    "env \<Rightarrow> db \<Rightarrow> request \<Rightarrow> string \<Rightarrow> string option \<Rightarrow> db \<times> approval_row outcome" where
  "decide_approval E s req i body_status =
     (if \<not> isAdminIdentity (rq_groups req)
      then (s, Inl (Forbidden ''An administrator must decide privileged operations''))
      else (case parse_decision body_status of
          None \<Rightarrow> (s, Inl (BadRequest ''Approval status must be APPROVED or REJECTED''))
        | Some st \<Rightarrow>
            (case find_first (\<lambda>a. ap_id a = i) (approvals s) of
               None \<Rightarrow> (s, Inl NotFound)
             | Some existing \<Rightarrow>
                 if \<not> approval_pending existing then (s, Inl (Conflict ''Approval already decided''))
                 else if same_identity (ap_requestedBy existing) (rq_username req)
                 then (s, Inl (Conflict ''A requester cannot approve their own request''))
                 else (case claim (\<lambda>a. ap_id a = i \<and> approval_pending a)
                         (decide_approval_row \<lparr>ad_status = st, ad_by = rq_username req, ad_at = now E\<rparr>)
                         (approvals s) of
                     None \<Rightarrow> (s, Inl (Conflict ''Approval already decided''))
                   | Some rows \<Rightarrow>
                       (case find_first (\<lambda>a. ap_id a = i) rows of
                          None \<Rightarrow> (s\<lparr>approvals := rows\<rparr>, Inl NotFound)
                        | Some item \<Rightarrow> (announce_approval E (s\<lparr>approvals := rows\<rparr>) req item st, Inr item))))))"

section \<open>Asking for an approval\<close>

definition account_valid :: "env \<Rightarrow> account_row \<Rightarrow> bool" where
  "account_valid E a =
     (null_or (\<lambda>t. t \<le> now E) (ac_validFrom a) \<and> null_or (\<lambda>t. now E < t) (ac_validUntil a))"

definition approvers :: "env \<Rightarrow> db \<Rightarrow> approval_row \<Rightarrow> string list" where
  "approvers E s approval =
     filter (\<lambda>u. \<not> same_identity u (ap_requestedBy approval))
       (new_set (map ac_username
         (filter (\<lambda>a. ac_active a \<and> ac_role a = ADMIN \<and> account_valid E a) (accounts s))))"

definition notifyApprovers :: "env \<Rightarrow> db \<Rightarrow> approval_row \<Rightarrow> db" where
  "notifyApprovers E s approval =
     (let s1 = s\<lparr>notices := notices s @
            map (\<lambda>u. \<lparr>un_identity = u, un_title = ''Approval required'',
                      un_message = ap_requestedBy approval @ '' requested approval.'',
                      un_resourceType = Some ''sensitive-approval'', un_resourceId = Some (ap_id approval),
                      un_mandatory = True\<rparr>) (approvers E s approval)\<rparr>
      in fst (enqueue E s1
           \<lparr>jb_action = ''sensitive-approval.request'', jb_resource = ''sensitive-approval:'' @ ap_id approval,
            jb_actor = ap_requestedBy approval, jb_at = toISOString (ap_createdAt approval)\<rparr>
           (''approval-'' @ ap_id approval)))"

definition approval_for :: "string \<Rightarrow> string \<Rightarrow> string \<Rightarrow> string \<Rightarrow> approval_status \<Rightarrow> approval_row \<Rightarrow> bool" where
  "approval_for operation targetType targetId requester st a =
     (ap_operation a = operation \<and> ap_targetType a = targetType \<and> ap_targetId a = targetId \<and>
      ap_requestedBy a = requester \<and> ap_status a = st)"

text \<open>\<open>orderBy: { approvedAt: "desc" }\<close>, nulls first.\<close>

definition desc_key :: "time option \<Rightarrow> time list" where
  "desc_key v = (case v of None \<Rightarrow> [] | Some t \<Rightarrow> [- t])"

definition new_approval :: "env \<Rightarrow> db \<Rightarrow> request \<Rightarrow> string \<Rightarrow> string \<Rightarrow> string \<Rightarrow> string \<Rightarrow> approval_row" where
  "new_approval E s req operation targetType targetId reason =
     \<lparr>ap_id = uuid E (uuid_next s), ap_operation = operation, ap_targetType = targetType,
      ap_targetId = targetId, ap_requestedBy = rq_username req, ap_reason = reason,
      ap_status = ApPending, ap_approvedBy = None, ap_approvedAt = None, ap_createdAt = now E\<rparr>"

definition sole_administrator :: "db \<Rightarrow> bool" where
  "sole_administrator s = (count_rows ac_active (accounts s) + count_rows ag_active (admingroups s) \<le> 1)"

definition require_approval ::
    "env \<Rightarrow> db \<Rightarrow> request \<Rightarrow> string \<Rightarrow> string \<Rightarrow> string \<Rightarrow> string \<Rightarrow> db \<times> string outcome" where
  "require_approval E s req operation targetType targetId reason =
     (if operation = ''BROAD_PRIVILEGE'' \<and> sole_administrator s then (s, Inr [])
      else (case find_first_by (\<lambda>a. desc_key (ap_approvedAt a))
                   (approval_for operation targetType targetId (rq_username req) ApApproved) (approvals s) of
          Some approved \<Rightarrow> (s, Inr (ap_id approved))
        | None \<Rightarrow>
            (case find_first (approval_for operation targetType targetId (rq_username req) ApPending) (approvals s) of
               Some pending \<Rightarrow> (s, Inl (ApprovalRequired (ap_id pending)))
             | None \<Rightarrow>
                 (let approval = new_approval E s req operation targetType targetId reason;
                      s1 = s\<lparr>approvals := approvals s @ [approval], uuid_next := Suc (uuid_next s)\<rparr>
                  in (notifyApprovers E s1 approval, Inl (ApprovalRequired (ap_id approval)))))))"

definition execute_approval :: "db \<Rightarrow> string \<Rightarrow> db \<times> unit outcome" where
  "execute_approval s i =
     (if i = [] then (s, Inr ())
      else if \<exists>a\<in>set (approvals s). ap_id a = i
      then (s\<lparr>approvals := update_rows (\<lambda>a. ap_id a = i) (\<lambda>a. a\<lparr>ap_status := ApExecuted\<rparr>) (approvals s)\<rparr>, Inr ())
      else (s, Inl (InternalError ''Record to update not found'')))"

section \<open>Requests and decisions of the governance page\<close>

text \<open>The routes of \<^verbatim>\<open>governance.controller.ts\<close> on the same table: a request is refused while anybody's request for the same
  operation on the same target is pending.\<close>

definition requestSensitiveApproval ::
    "env \<Rightarrow> db \<Rightarrow> request \<Rightarrow> string \<Rightarrow> string \<Rightarrow> string \<Rightarrow> string \<Rightarrow> db \<times> approval_row outcome" where
  "requestSensitiveApproval E s req operation targetType targetId reason =
     (if \<exists>a\<in>set (approvals s). ap_operation a = operation \<and> ap_targetType a = targetType \<and> ap_targetId a = targetId \<and> ap_status a = ApPending
      then (s, Inl (Conflict ''Approval already pending''))
      else (let item = new_approval E s req operation targetType targetId (trim reason)
            in (record_audit E (s\<lparr>approvals := approvals s @ [item], uuid_next := Suc (uuid_next s)\<rparr>) req
                  ''sensitive-approval.request'' (''sensitive-approval:'' @ ap_id item) Success
                  (Some (JObj [(''operation'', JStr operation), (''targetType'', JStr targetType), (''targetId'', JStr targetId)])), Inr item)))"

definition decideSensitiveApproval ::
    "env \<Rightarrow> db \<Rightarrow> request \<Rightarrow> string \<Rightarrow> bool \<Rightarrow> db \<times> approval_row outcome" where
  "decideSensitiveApproval E s req i approve =
     (let st = (if approve then ApApproved else ApRejected)
      in case find_first (\<lambda>a. ap_id a = i) (approvals s) of
           None \<Rightarrow> (s, Inl NotFound)
         | Some existing \<Rightarrow>
             if \<not> approval_pending existing then (s, Inl (Conflict ''Approval already decided''))
             else if same_identity (ap_requestedBy existing) (rq_username req)
             then (s, Inl (Conflict ''A second administrator is required''))
             else (case claim (\<lambda>a. ap_id a = i \<and> approval_pending a)
                     (decide_approval_row \<lparr>ad_status = st, ad_by = rq_username req, ad_at = now E\<rparr>) (approvals s) of
                 None \<Rightarrow> (s, Inl (Conflict ''Approval already decided''))
               | Some rows \<Rightarrow>
                   (case find_first (\<lambda>a. ap_id a = i) rows of
                      None \<Rightarrow> (s\<lparr>approvals := rows\<rparr>, Inl NotFound)
                    | Some item \<Rightarrow>
                        (record_audit E (s\<lparr>approvals := rows\<rparr>) req ''sensitive-approval.decision'' (''sensitive-approval:'' @ i) Success
                           (Some (JObj [(''status'', JStr (approval_status_text st))])), Inr item))))"

section \<open>Removing an empty space\<close>

text \<open>\<open>permanentlyDeleteSpace\<close> of \<^verbatim>\<open>controllers.ts\<close>: one transaction removes the row of the space, with which the
  database removes its temporary grants, and every request to delete it permanently.\<close>

definition permanentlyDeleteSpace :: "env \<Rightarrow> db \<Rightarrow> request \<Rightarrow> string \<Rightarrow> db \<times> unit outcome" where
  "permanentlyDeleteSpace E s req i =
     (case find_first (\<lambda>sp. sp_id sp = i) (spaces s) of
        None \<Rightarrow> (s, Inl NotFound)
      | Some existing \<Rightarrow>
          if 0 < count_rows (\<lambda>d. doc_spaceId d = i) (documents s) \<or>
             0 < count_rows (\<lambda>c. cat_spaceId c = i) (categories s) \<or>
             0 < count_rows (\<lambda>r. ar_spaceId r = i) (rules s)
          then (s, Inl (Conflict ''Document space must be empty before it can be permanently deleted''))
          else (record_audit E
                  (s\<lparr>spaces := delete_rows (\<lambda>sp. sp_id sp = i) (spaces s),
                     grants := delete_rows (\<lambda>g. tg_spaceId g = i) (grants s),
                     approvals := delete_rows (\<lambda>a. ap_operation a = ''PERMANENT_DELETE'' \<and>
                        ap_targetType a = ''DOCUMENT_SPACE'' \<and> ap_targetId a = i) (approvals s)\<rparr>)
                  req ''space.delete'' (''space:'' @ i) Success
                  (Some (JObj [(''slug'', JStr (sp_slug existing))])), Inr ()))"

section \<open>The review inbox\<close>

definition may_close_review :: "request \<Rightarrow> review_row \<Rightarrow> bool" where
  "may_close_review req r =
     (isAdminIdentity (rq_groups req) \<or>
      isModeratorIdentity (rq_groups req) \<and>
      (rv_automaticAnnual r \<or> rv_automaticPublication r \<or> same_identity (rv_approver r) (rq_username req)))"

definition review_visible :: "request \<Rightarrow> review_row \<Rightarrow> bool" where
  "review_visible req r =
     (let named = same_identity (rv_owner r) (rq_username req) \<or>
            same_identity (rv_reviewer r) (rq_username req) \<or> same_identity (rv_approver r) (rq_username req)
      in if isAdminIdentity (rq_groups req) then True
         else if isModeratorIdentity (rq_groups req)
         then rv_automaticAnnual r \<or> rv_automaticPublication r \<or> named
         else named)"

definition canDecide :: "request \<Rightarrow> review_row \<Rightarrow> bool" where
  "canDecide req r = (\<not> same_identity (rv_owner r) (rq_username req) \<and> may_close_review req r)"

definition list_reviews ::
    "db \<Rightarrow> request \<Rightarrow> string option \<Rightarrow> string option \<Rightarrow> (review_row \<times> bool) list outcome" where
  "list_reviews s req year month =
     (case periodWhere year month of
        Inl e \<Rightarrow> Inl e
      | Inr p \<Rightarrow> Inr (map (\<lambda>r. (r, canDecide req r))
          (find_many (\<lambda>r. - rv_createdAt r) 200
            (\<lambda>r. in_period p (rv_createdAt r) \<and> review_visible req r) (reviews s))))"

definition review_status_text :: "review_status \<Rightarrow> string" where
  "review_status_text st =
     (case st of RvPending \<Rightarrow> ''PENDING'' | RvInReview \<Rightarrow> ''IN_REVIEW'' | RvApproved \<Rightarrow> ''APPROVED''
      | RvRejected \<Rightarrow> ''REJECTED'' | RvCancelled \<Rightarrow> ''CANCELLED'')"

definition review_notices :: "string \<Rightarrow> review_row \<Rightarrow> review_status \<Rightarrow> string \<Rightarrow> notice_row list" where
  "review_notices i item st comment =
     map (\<lambda>u. \<lparr>un_identity = u, un_title = ''Document review decision'',
               un_message = review_status_text st @ '': '' @ trim comment,
               un_resourceType = Some ''document-review'', un_resourceId = Some i,
               un_mandatory = (st = RvRejected)\<rparr>)
       (new_set [rv_owner item, rv_reviewer item, rv_approver item])"

definition decide_inbox_review ::
    "env \<Rightarrow> db \<Rightarrow> request \<Rightarrow> string \<Rightarrow> review_status \<Rightarrow> string \<Rightarrow> db \<times> review_row outcome" where
  "decide_inbox_review E s req i st comment =
     (case find_first (\<lambda>r. rv_id r = i) (reviews s) of
        None \<Rightarrow> (s, Inl NotFound)
      | Some item \<Rightarrow>
          if \<not> (may_close_review req item \<or> st = RvInReview \<and> same_identity (rv_reviewer item) (rq_username req))
          then (s, Inl (Forbidden []))
          else if same_identity (rq_username req) (rv_owner item)
          then (s, Inl (Forbidden ''The owner cannot approve their own review''))
          else (case recordReviewDecision s i (rv_documentId item)
                  \<lparr>rd_status = st, rd_comment = comment, rd_actor = rq_username req, rd_at = now E\<rparr> of
              (s1, Inl e) \<Rightarrow> (s1, Inl e)
            | (s1, Inr (review, archived)) \<Rightarrow>
                (let s2 = (if st \<noteq> RvInReview
                           then s1\<lparr>notices := notices s1 @ review_notices i item st comment\<rparr> else s1);
                     s3 = record_audit E s2 req ''document-review.decision'' (''document-review:'' @ i) Success
                            (Some (JObj [(''before'', JStr (review_status_text (rv_status item))),
                                         (''after'', JStr (review_status_text st))]));
                     s4 = (if archived
                           then record_audit E s3 req ''document.archive'' (''document:'' @ rv_documentId item) Success
                                  (Some (JObj [(''reason'', JStr ''review.rejected''), (''reviewId'', JStr i)]))
                           else s3)
                 in (s4, Inr review))))"

section \<open>Claims\<close>

interpretation approval: claim_once ap_id approval_pending approval_closes decide_approval_row
  by unfold_locales (simp_all add: approval_pending_def approval_closes_def decide_approval_row_def)

section \<open>The two-person rule\<close>

lemma enqueue_approvals [simp]: "approvals (fst (enqueue E s j i)) = approvals s"
  by (simp add: enqueue_def)

lemma notifyApprovers_approvals [simp]: "approvals (notifyApprovers E s a) = approvals s"
  by (simp add: notifyApprovers_def Let_def)

lemma announce_approval_approvals [simp]: "approvals (announce_approval E s req a st) = approvals s"
  by (simp add: announce_approval_def Let_def)

text \<open>Every decided request was decided by somebody other than the requester.\<close>

definition second_person :: "approval_row \<Rightarrow> bool" where
  "second_person a \<longleftrightarrow>
     (ap_status a \<noteq> ApPending \<longrightarrow> (\<exists>b. ap_approvedBy a = Some b \<and> \<not> same_identity b (ap_requestedBy a)))"

lemma same_identity_sym: "same_identity a b = same_identity b a"
  by (auto simp: same_identity_def)

lemma decided_rows:
  assumes "distinct (map ap_id (approvals s))" and "find_first (\<lambda>a. ap_id a = i) (approvals s) = Some ex"
    and "\<not> same_identity (ap_requestedBy ex) by_whom"
    and "claim (\<lambda>a. ap_id a = i \<and> approval_pending a) (decide_approval_row \<lparr>ad_status = st, ad_by = by_whom, ad_at = t\<rparr>) (approvals s) = Some rows"
    and "r \<in> set rows"
  shows "r \<in> set (approvals s) \<or> ap_approvedBy r = Some by_whom \<and> \<not> same_identity by_whom (ap_requestedBy r)"
proof -
  obtain x where x: "x \<in> set (approvals s)" "r = (if ap_id x = i \<and> approval_pending x
      then decide_approval_row \<lparr>ad_status = st, ad_by = by_whom, ad_at = t\<rparr> x else x)"
    using claim_origin [OF assms(4)] assms(5) by blast
  have e: "ex \<in> set (approvals s)" "ap_id ex = i" using find_first_Some [OF assms(2)] by auto
  have "ap_id x = i \<Longrightarrow> x = ex" using key_unique [OF assms(1) x(1) e(1)] e(2) by simp
  with x assms(3) show ?thesis
    by (cases "ap_id x = i \<and> approval_pending x") (auto simp: decide_approval_row_def same_identity_def)
qed

lemma decide_approval_rows:
  assumes "distinct (map ap_id (approvals s))" and "r \<in> set (approvals (fst (decide_approval E s req i st)))"
  shows "r \<in> set (approvals s) \<or>
    ap_approvedBy r = Some (rq_username req) \<and> \<not> same_identity (rq_username req) (ap_requestedBy r) \<and>
    isAdminIdentity (rq_groups req)"
proof (cases "approvals (fst (decide_approval E s req i st)) = approvals s")
  case True
  with assms(2) show ?thesis by simp
next
  case False
  then obtain st' ex rows where adm: "isAdminIdentity (rq_groups req)"
    and ex: "find_first (\<lambda>a. ap_id a = i) (approvals s) = Some ex"
      "\<not> same_identity (ap_requestedBy ex) (rq_username req)"
    and c: "claim (\<lambda>a. ap_id a = i \<and> approval_pending a)
      (decide_approval_row \<lparr>ad_status = st', ad_by = rq_username req, ad_at = now E\<rparr>) (approvals s) = Some rows"
    and rows: "approvals (fst (decide_approval E s req i st)) = rows"
    by (auto simp: decide_approval_def split: if_splits option.splits)
  have "r \<in> set (approvals s) \<or> ap_approvedBy r = Some (rq_username req) \<and> \<not> same_identity (rq_username req) (ap_requestedBy r)"
    using decided_rows [OF assms(1) ex(1,2) c] assms(2) rows by simp
  with adm show ?thesis by blast
qed

lemma require_approval_rows:
  "approvals (fst (require_approval E s req op tt ti reason)) = approvals s \<or>
     approvals (fst (require_approval E s req op tt ti reason)) =
       approvals s @ [new_approval E s req op tt ti reason]"
  by (auto simp: require_approval_def Let_def split: option.splits)

lemma require_approval_Inr:
  assumes "require_approval E s req op tt ti reason = (s', Inr i)"
  obtains "s' = s" "i = []" "op = ''BROAD_PRIVILEGE''" "sole_administrator s"
  | a where "s' = s" "a \<in> set (approvals s)" "ap_id a = i" "approval_for op tt ti (rq_username req) ApApproved a"
  using assms
  by (auto simp: require_approval_def Let_def dest!: find_first_by_Some split: if_splits option.splits)

text \<open>The states the handlers reach: requests are created, decided and executed, on the page of approvals or
  of governance, and deleted with the space they are about, in any order and by anybody; an execution follows the call of \<open>require\<close> that returned the approval, and what lies
  between leaves the requests alone. Identifiers are those of the database, without repetition.\<close>

inductive approvals_reachable :: "db \<Rightarrow> bool" where
  start: "approvals s = [] \<Longrightarrow> approvals_reachable s"
| decide: "approvals_reachable s \<Longrightarrow> approvals_reachable (fst (decide_approval E s req i st))"
| require: "approvals_reachable s \<Longrightarrow> uuid E (uuid_next s) \<notin> ap_id ` set (approvals s) \<Longrightarrow>
    approvals_reachable (fst (require_approval E s req op tt ti reason))"
| execute: "approvals_reachable s \<Longrightarrow> require_approval E s req op tt ti reason = (s1, Inr i) \<Longrightarrow>
    approvals s2 = approvals s1 \<Longrightarrow> approvals_reachable (fst (execute_approval s2 i))"
| request: "approvals_reachable s \<Longrightarrow> uuid E (uuid_next s) \<notin> ap_id ` set (approvals s) \<Longrightarrow>
    approvals_reachable (fst (requestSensitiveApproval E s req op tt ti reason))"
| decide_governance: "approvals_reachable s \<Longrightarrow> approvals_reachable (fst (decideSensitiveApproval E s req i approve))"
| remove_space: "approvals_reachable s \<Longrightarrow> approvals_reachable (fst (permanentlyDeleteSpace E s req i))"
| other: "approvals_reachable s \<Longrightarrow> approvals s' = approvals s \<Longrightarrow> approvals_reachable s'"

lemma permanentlyDeleteSpace_approvals:
  "\<exists>P. approvals (fst (permanentlyDeleteSpace E s req i)) = delete_rows P (approvals s)"
proof (cases "approvals (fst (permanentlyDeleteSpace E s req i)) = approvals s")
  case True
  then show ?thesis by (intro exI [of _ "\<lambda>_. False"]) (simp add: delete_rows_def)
next
  case False
  then show ?thesis by (auto simp: permanentlyDeleteSpace_def split: option.splits if_splits)
qed

lemma decide_approval_ids: "map ap_id (approvals (fst (decide_approval E s req i st))) = map ap_id (approvals s)"
proof (cases "approvals (fst (decide_approval E s req i st)) = approvals s")
  case False
  then obtain st' rows where "claim (\<lambda>a. ap_id a = i \<and> approval_pending a)
      (decide_approval_row \<lparr>ad_status = st', ad_by = rq_username req, ad_at = now E\<rparr>) (approvals s) = Some rows"
    and "approvals (fst (decide_approval E s req i st)) = rows"
    by (auto simp: decide_approval_def split: if_splits option.splits)
  with approval.claim_keeps_keys show ?thesis by blast
qed simp

lemma decideSensitiveApproval_cases:
  assumes "approvals (fst (decideSensitiveApproval E s req i approve)) \<noteq> approvals s"
  obtains ex st rows where "find_first (\<lambda>a. ap_id a = i) (approvals s) = Some ex" and "\<not> same_identity (ap_requestedBy ex) (rq_username req)"
    and "claim (\<lambda>a. ap_id a = i \<and> approval_pending a) (decide_approval_row \<lparr>ad_status = st, ad_by = rq_username req, ad_at = now E\<rparr>) (approvals s) = Some rows"
    and "approvals (fst (decideSensitiveApproval E s req i approve)) = rows"
  using assms by (auto simp: decideSensitiveApproval_def Let_def split: if_splits option.splits)

lemma execute_approval_rows:
  "approvals (fst (execute_approval s i)) = (if i = [] then approvals s
     else update_rows (\<lambda>a. ap_id a = i) (\<lambda>a. a\<lparr>ap_status := ApExecuted\<rparr>) (approvals s))"
  by (auto simp: execute_approval_def update_rows_none)

lemma approvals_invariant:
  "approvals_reachable s \<Longrightarrow> distinct (map ap_id (approvals s)) \<and> (\<forall>a\<in>set (approvals s). second_person a)"
proof (induction rule: approvals_reachable.induct)
  case (decide s E req i st)
  then show ?case
    using decide_approval_rows [of s _ E req i st] decide_approval_ids [of E s req i st]
    by (auto simp: second_person_def)
next
  case (require s E req op tt ti reason)
  then show ?case
    using require_approval_rows [of E s req op tt ti reason]
    by (elim disjE) (auto simp: second_person_def new_approval_def)
next
  case (request s E req op tt ti reason)
  then show ?case by (auto simp: requestSensitiveApproval_def Let_def second_person_def new_approval_def)
next
  case (decide_governance s E req i approve)
  show ?case
  proof (cases "approvals (fst (decideSensitiveApproval E s req i approve)) = approvals s")
    case False
    then obtain ex st rows where d: "find_first (\<lambda>a. ap_id a = i) (approvals s) = Some ex" "\<not> same_identity (ap_requestedBy ex) (rq_username req)"
      "claim (\<lambda>a. ap_id a = i \<and> approval_pending a) (decide_approval_row \<lparr>ad_status = st, ad_by = rq_username req, ad_at = now E\<rparr>) (approvals s) = Some rows"
      "approvals (fst (decideSensitiveApproval E s req i approve)) = rows" by (rule decideSensitiveApproval_cases)
    have "second_person r" if "r \<in> set rows" for r
      using decided_rows [OF _ d(1-3) that] decide_governance.IH by (auto simp: second_person_def)
    moreover have "map ap_id rows = map ap_id (approvals s)" using approval.claim_keeps_keys [OF d(3)] .
    ultimately show ?thesis using decide_governance.IH d(4) by simp
  qed (use decide_governance.IH in simp)
next
  case (remove_space s E req i)
  then show ?case using permanentlyDeleteSpace_approvals [of E s req i] by (auto simp: delete_rows_def distinct_map_filter)
next
  case (execute s E req op tt ti reason s1 i s2)
  have dist: "distinct (map ap_id (approvals (fst (execute_approval s2 i))))"
    using execute require_approval_Inr [OF execute.hyps(2)]
    by (auto simp: execute_approval_rows map_update_rows)
  from execute.hyps(2) show ?case
  proof (cases rule: require_approval_Inr)
    case 1
    with execute show ?thesis by (auto simp: execute_approval_rows)
  next
    case (2 a)
    have "second_person r" if "r \<in> set (approvals (fst (execute_approval s2 i)))" for r
    proof (cases "i = []")
      case False
      then have "r \<in> set (update_rows (\<lambda>a. ap_id a = i) (\<lambda>a. a\<lparr>ap_status := ApExecuted\<rparr>) (approvals s))"
        using that 2(1) execute.hyps(3) by (simp add: execute_approval_rows)
      then obtain x where x: "x \<in> set (approvals s)" "r = (if ap_id x = i then x\<lparr>ap_status := ApExecuted\<rparr> else x)"
        by (rule update_rows_origin)
      have "ap_id x = i \<Longrightarrow> x = a"
        using key_unique [of ap_id "approvals s" x a] execute.IH x(1) 2(2,3) by simp
      moreover have "second_person a" "second_person x" using execute.IH x(1) 2(2) by simp_all
      ultimately show ?thesis using x(2) 2(4)
        by (cases "ap_id x = i") (auto simp: second_person_def approval_for_def)
    qed (use that execute 2 in \<open>auto simp: execute_approval_rows\<close>)
    with dist show ?thesis by blast
  qed
qed (auto simp: second_person_def)

text \<open>C4: the two-person rule. In every reachable state, whenever \<open>require\<close> lets an operation proceed,
  either it is a grant of broad privileges in an installation with a single administrator, or a
  request by this caller for this very operation and target has the status APPROVED (it is neither pending,
  rejected nor already executed), and the approver is somebody else, letter case apart.\<close>

theorem two_person_rule:
  assumes "approvals_reachable s" and "require_approval E s req op tt ti reason = (s', Inr i)"
  shows "op = ''BROAD_PRIVILEGE'' \<and> sole_administrator s \<or>
    (\<exists>a\<in>set (approvals s). ap_id a = i \<and> ap_operation a = op \<and> ap_targetType a = tt \<and> ap_targetId a = ti \<and>
       ap_requestedBy a = rq_username req \<and> ap_status a = ApApproved \<and>
       (\<exists>b. ap_approvedBy a = Some b \<and> \<not> same_identity b (rq_username req)))"
  using assms(2)
proof (cases rule: require_approval_Inr)
  case (2 a)
  moreover have "second_person a" using approvals_invariant [OF assms(1)] 2(2) by blast
  ultimately show ?thesis by (auto simp: second_person_def approval_for_def)
qed auto

definition admin_request :: "string \<Rightarrow> request" where
  "admin_request name = sample_request name [''ISMS-LOCAL-ADMINS'']"

definition approval_trace :: db where
  "approval_trace =
     (let s1 = fst (require_approval sample_env empty_db (admin_request ''ann'') ''PERMANENT_DELETE'' ''document'' ''d1'' ''x'')
      in fst (decide_approval sample_env s1 (admin_request ''bob'') ''id0'' (Some ''APPROVED'')))"

theorem two_person_rule_witness:
  "require_approval sample_env approval_trace (admin_request ''ann'') ''PERMANENT_DELETE'' ''document'' ''d1'' ''x'' =
     (approval_trace, Inr ''id0'') \<and>
   (\<exists>a\<in>set (approvals approval_trace). ap_id a = ''id0'' \<and> ap_status a = ApApproved \<and>
      (\<exists>b. ap_approvedBy a = Some b \<and> \<not> same_identity b ''ann''))"
proof -
  have start: "approvals_reachable empty_db" by (rule approvals_reachable.start) (simp add: empty_db_def)
  have "uuid sample_env (uuid_next empty_db) \<notin> ap_id ` set (approvals empty_db)" by (simp add: empty_db_def)
  then have reach: "approvals_reachable approval_trace"
    unfolding approval_trace_def Let_def by (intro approvals_reachable.decide approvals_reachable.require start)
  have "snd (require_approval sample_env approval_trace (admin_request ''ann'') ''PERMANENT_DELETE'' ''document'' ''d1'' ''x'')
      = Inr ''id0''" by code_simp
  then obtain s' where r: "require_approval sample_env approval_trace (admin_request ''ann'') ''PERMANENT_DELETE''
      ''document'' ''d1'' ''x'' = (s', Inr ''id0'')" by (metis prod.collapse)
  then have "s' = approval_trace" by (cases rule: require_approval_Inr) auto
  with r two_person_rule [OF reach r] show ?thesis
    by (auto simp: admin_request_def sample_request_def sample_identity_def)
qed

text \<open>An approval serves one execution. After the approved operation has been executed, asking again
  for the same operation on the same target is refused until a new request has been approved, and the
  new request is pending.\<close>

theorem approval_single_use:
  assumes "approvals_reachable s" and "require_approval E s req op tt ti reason = (s1, Inr i)" and "i \<noteq> []"
    and "approvals s2 = approvals s1" and "accounts s2 = accounts s1" and "admingroups s2 = admingroups s1"
    and "\<And>a. a \<in> set (approvals s) \<Longrightarrow> approval_for op tt ti (rq_username req) ApApproved a \<Longrightarrow> ap_id a = i"
  shows "\<exists>s3 k. require_approval E' (fst (execute_approval s2 i)) req op tt ti reason' = (s3, Inl (ApprovalRequired k)) \<and>
    (\<exists>a\<in>set (approvals s3). ap_id a = k \<and> approval_for op tt ti (rq_username req) ApPending a)"
proof -
  let ?s = "fst (execute_approval s2 i)"
  have s1: "s1 = s" using assms(2,3) by (cases rule: require_approval_Inr) auto
  have rows: "approvals ?s = update_rows (\<lambda>a. ap_id a = i) (\<lambda>a. a\<lparr>ap_status := ApExecuted\<rparr>) (approvals s)"
    using assms(3,4) s1 by (simp add: execute_approval_rows)
  have none: "\<not> approval_for op tt ti (rq_username req) ApApproved a" if "a \<in> set (approvals ?s)" for a
  proof -
    from that obtain x where x: "x \<in> set (approvals s)" "a = (if ap_id x = i then x\<lparr>ap_status := ApExecuted\<rparr> else x)"
      unfolding rows by (rule update_rows_origin)
    with assms(7) [OF x(1)] show ?thesis by (cases "ap_id x = i") (auto simp: approval_for_def)
  qed
  have tables: "accounts ?s = accounts s" "admingroups ?s = admingroups s"
    using assms(5,6) s1 by (simp_all add: execute_approval_def)
  have "\<not> (op = ''BROAD_PRIVILEGE'' \<and> sole_administrator s)"
    using assms(2,3) by (auto simp: require_approval_def)
  then have guard: "\<not> (op = ''BROAD_PRIVILEGE'' \<and> sole_administrator ?s)"
    using tables by (simp add: sole_administrator_def)
  have "find_first_by (\<lambda>a. desc_key (ap_approvedAt a)) (approval_for op tt ti (rq_username req) ApApproved)
      (approvals ?s) = None" using none by (simp add: find_first_by_None_iff)
  then have eq: "require_approval E' ?s req op tt ti reason' =
      (case find_first (approval_for op tt ti (rq_username req) ApPending) (approvals ?s) of
         Some pending \<Rightarrow> (?s, Inl (ApprovalRequired (ap_id pending)))
       | None \<Rightarrow> (notifyApprovers E' (?s\<lparr>approvals := approvals ?s @ [new_approval E' ?s req op tt ti reason'],
              uuid_next := Suc (uuid_next ?s)\<rparr>) (new_approval E' ?s req op tt ti reason'),
            Inl (ApprovalRequired (ap_id (new_approval E' ?s req op tt ti reason')))))"
    unfolding require_approval_def Let_def if_not_P [OF guard] by simp
  show ?thesis
  proof (cases "find_first (approval_for op tt ti (rq_username req) ApPending) (approvals ?s)")
    case None
    then show ?thesis unfolding eq by (simp add: approval_for_def new_approval_def)
  next
    case (Some a)
    then show ?thesis unfolding eq using find_first_Some [OF Some] by auto
  qed
qed

theorem approval_single_use_witness:
  "let s = fst (execute_approval approval_trace ''id0'')
   in \<exists>s3 k. require_approval sample_env s (admin_request ''ann'') ''PERMANENT_DELETE'' ''document'' ''d1'' ''again'' =
        (s3, Inl (ApprovalRequired k))"
proof -
  have start: "approvals_reachable empty_db" by (rule approvals_reachable.start) (simp add: empty_db_def)
  have "uuid sample_env (uuid_next empty_db) \<notin> ap_id ` set (approvals empty_db)" by (simp add: empty_db_def)
  then have reach: "approvals_reachable approval_trace"
    unfolding approval_trace_def Let_def by (intro approvals_reachable.decide approvals_reachable.require start)
  have "snd (require_approval sample_env approval_trace (admin_request ''ann'') ''PERMANENT_DELETE'' ''document'' ''d1'' ''x'')
      = Inr ''id0''" "map ap_id (approvals approval_trace) = [''id0'']" by code_simp+
  moreover from this obtain s' where r: "require_approval sample_env approval_trace (admin_request ''ann'')
      ''PERMANENT_DELETE'' ''document'' ''d1'' ''x'' = (s', Inr ''id0'')" by (metis prod.collapse)
  moreover from r have "s' = approval_trace" by (cases rule: require_approval_Inr) auto
  ultimately show ?thesis
    using approval_single_use [OF reach r, of approval_trace sample_env "''again''"] by auto
qed

section \<open>Decisions on requests and reviews\<close>

text \<open>A request is decided once, by an administrator, and on the record. When a decision succeeds the
  caller is an administrator other than the requester, the request was pending and now carries the
  decision, the journal has one more event and the requester one more notice; any further decision on
  it is refused and changes nothing.\<close>

theorem decide_approval_once:
  assumes "decide_approval E s req i st = (s', Inr item)" and "distinct (map ap_id (approvals s))"
    and "approvals s'' = approvals s'"
  shows "isAdminIdentity (rq_groups req) \<and> ap_id item = i \<and> \<not> approval_pending item \<and>
    ap_approvedBy item = Some (rq_username req) \<and> \<not> same_identity (ap_requestedBy item) (rq_username req) \<and>
    item \<in> set (approvals s') \<and>
    map ae_action (audits s') = map ae_action (audits s) @ [''sensitive-approval.decision''] \<and>
    (\<exists>e. decide_approval E' s'' req' i st' = (s'', Inl e))"
proof -
  obtain v ex rows where adm: "isAdminIdentity (rq_groups req)" and v: "parse_decision st = Some v"
    and ex: "find_first (\<lambda>a. ap_id a = i) (approvals s) = Some ex" "approval_pending ex"
      "\<not> same_identity (ap_requestedBy ex) (rq_username req)"
    and c: "claim (\<lambda>a. ap_id a = i \<and> approval_pending a)
      (decide_approval_row \<lparr>ad_status = v, ad_by = rq_username req, ad_at = now E\<rparr>) (approvals s) = Some rows"
    and item: "find_first (\<lambda>a. ap_id a = i) rows = Some item"
    and s': "s' = announce_approval E (s\<lparr>approvals := rows\<rparr>) req item v"
    using assms(1) by (auto simp: decide_approval_def split: if_splits option.splits)
  let ?d = "\<lparr>ad_status = v, ad_by = rq_username req, ad_at = now E\<rparr>"
  have closes: "approval_closes ?d"
    using v by (auto simp: parse_decision_def approval_closes_def split: if_splits)
  have mem: "item \<in> set rows" "ap_id item = i" using find_first_Some [OF item] by auto
  have e: "ex \<in> set (approvals s)" "ap_id ex = i" using find_first_Some [OF ex(1)] by auto
  obtain x where x: "x \<in> set (approvals s)"
    "item = (if ap_id x = i \<and> approval_pending x then decide_approval_row ?d x else x)"
    using claim_origin [OF c mem(1)] by blast
  have "ap_id x = i" using x(2) mem(2) by (auto simp: decide_approval_row_def split: if_splits)
  then have "x = ex" using key_unique [OF assms(2) x(1) e(1)] e(2) by simp
  then have it: "item = decide_approval_row ?d ex" using x(2) ex(2) e(2) by simp
  have closed: "\<not> approval_pending a" if "a \<in> set rows" "ap_id a = i" for a
    using approval.claim_leaves_closed [OF closes c that] .
  have "\<exists>e. decide_approval E' s'' req' i st' = (s'', Inl e)"
    using assms(3) s' item closed [OF mem] by (auto simp: decide_approval_def split: option.splits)
  moreover have "map ae_action (audits s') = map ae_action (audits s) @ [''sensitive-approval.decision'']"
    by (simp add: s' announce_approval_def Let_def)
  ultimately show ?thesis
    using adm mem closed [OF mem] s' ex(3) by (simp add: it decide_approval_row_def)
qed

theorem decide_approval_once_witness:
  "let s = fst (require_approval sample_env empty_db (admin_request ''ann'') ''PERMANENT_DELETE'' ''document'' ''d1'' ''x'');
       (s', r) = decide_approval sample_env s (admin_request ''bob'') ''id0'' (Some ''REJECTED'')
   in \<not> isl r \<and> (\<exists>e. decide_approval sample_env s' (admin_request ''bob'') ''id0'' (Some ''APPROVED'') = (s', Inl e))"
proof -
  define s where "s = fst (require_approval sample_env empty_db (admin_request ''ann'') ''PERMANENT_DELETE'' ''document'' ''d1'' ''x'')"
  obtain s' r where a: "decide_approval sample_env s (admin_request ''bob'') ''id0'' (Some ''REJECTED'') = (s', r)" by fastforce
  have "\<not> isl (snd (decide_approval sample_env s (admin_request ''bob'') ''id0'' (Some ''REJECTED'')))"
    "distinct (map ap_id (approvals s))" unfolding s_def by code_simp+
  with a decide_approval_once [of sample_env s "admin_request ''bob''" "''id0''" "Some ''REJECTED''" s' "projr r" s']
  show ?thesis by (cases r) (auto simp: s_def Let_def)
qed

lemma recordReviewDecision_not_forbidden: "snd (recordReviewDecision s i d dec) \<noteq> Inl (Forbidden m)"
  by (auto simp: recordReviewDecision_def Let_def case_prod_beta split: option.splits)

text \<open>The inbox tells the truth. For every review a caller is shown, the flag that offers the decision
  is set exactly when closing that review is not forbidden to the caller.\<close>

theorem review_inbox_flag:
  assumes "list_reviews s req year month = Inr rows" and "(r, flag) \<in> set rows"
    and "distinct (map rv_id (reviews s))" and "st \<noteq> RvInReview"
  shows "flag \<longleftrightarrow> (\<nexists>m. snd (decide_inbox_review E s req (rv_id r) st comment) = Inl (Forbidden m))"
proof -
  have r: "r \<in> set (reviews s)" and flag: "flag = canDecide req r"
    using assms(1,2) set_find_many by (fastforce simp: list_reviews_def split: sum.splits)+
  have ff: "find_first (\<lambda>x. rv_id x = rv_id r) (reviews s) = Some r"
    using find_first_key [OF assms(3) r, of "\<lambda>_. True"] by simp
  show ?thesis
    unfolding flag canDecide_def decide_inbox_review_def ff option.case
    using assms(4) recordReviewDecision_not_forbidden
    by (auto simp: same_identity_sym Let_def case_prod_beta split: sum.splits prod.splits)
qed

theorem review_inbox_flag_witness:
  "(\<exists>r. list_reviews review_db (admin_request ''bob'') None None = Inr r \<and> map snd r = [True, True]) \<and>
   (\<nexists>m. snd (decide_inbox_review sample_env review_db (admin_request ''bob'') ''r1'' RvApproved ''fine'') =
      Inl (Forbidden m))"
proof
  let ?l = "list_reviews review_db (admin_request ''bob'') None None"
  have l: "?l = Inr [(review_sample, True), (review_sample\<lparr>rv_id := ''r2'', rv_status := RvInReview\<rparr>, True)]"
    "distinct (map rv_id (reviews review_db))"
    by code_simp+
  then show "\<exists>r. ?l = Inr r \<and> map snd r = [True, True]" by simp
  show "\<nexists>m. snd (decide_inbox_review sample_env review_db (admin_request ''bob'') ''r1'' RvApproved ''fine'') =
      Inl (Forbidden m)"
    using review_inbox_flag [OF l(1) _ l(2), of review_sample True RvApproved sample_env "''fine''"]
    by (simp add: review_sample_def)
qed

end
