(* ===== verification/Audit_Chain.thy ===== *)
theory Audit_Chain
  imports Audit_Event
begin

text \<open>
  The tamper-evident journal, \<^verbatim>\<open>apps/api/src/audit-chain.ts\<close>: chaining of settled events by SHA-256,
  periodic seals, their time stamps, and the verification of the whole chain. The digest is the
  parameter \<open>sha256\<close> of the surroundings; the time-stamping service is an argument.
\<close>

section \<open>Serialisation and digest\<close>

definition GENESIS_HASH :: string where
  "GENESIS_HASH = replicate 64 CHR ''0''"

definition SETTLE_MS :: int where
  "SETTLE_MS = 5 * 60000"

definition BATCH :: nat where
  "BATCH = 2000"

function stable :: "json \<Rightarrow> string" where
  "stable JNull = ''null''"
| "stable (JBool b) = (if b then ''true'' else ''false'')"
| "stable (JNum n) = string_of_int n"
| "stable (JStr t) = json_string t"
| "stable (JArr vs) = ''['' @ join '','' (map stable vs) @ '']''"
| "stable (JObj kvs) =
     ''{'' @ join '','' (map (\<lambda>(k, t). json_string k @ '':'' @ t)
       (sort_key fst (map (\<lambda>kv. (fst kv, stable (snd kv))) kvs))) @ ''}''"
  by pat_completeness auto
termination
proof (relation "measure size", goal_cases)
  case 1
  show ?case by simp
next
  case (2 vs x)
  then show ?case by (induction vs) auto
next
  case (3 kvs x)
  then show ?case by (induction kvs) (auto simp: case_prod_beta)
qed

definition result_text :: "audit_result \<Rightarrow> string" where
  "result_text r = (case r of Success \<Rightarrow> ''success'' | Failure \<Rightarrow> ''failure'' | Denied \<Rightarrow> ''denied'')"

definition chained_fields :: "audit_row \<Rightarrow> json" where
  "chained_fields e =
     JArr [JStr (ae_id e), JStr (toISOString (ae_occurredAt e)), JStr (ae_identity e), JStr (ae_ipAddress e),
           JStr (ae_action e), JStr (ae_resource e), JStr (result_text (ae_result e)),
           JStr (ae_correlationId e), json_opt (\<lambda>d. d) (ae_details e)]"

definition auditEventHash :: "env \<Rightarrow> string \<Rightarrow> audit_row \<Rightarrow> string" where
  "auditEventHash E previous e = sha256 E (previous @ stable (chained_fields e))"

section \<open>Chaining\<close>

text \<open>The index of a chained event.\<close>

definition chain_idx :: "audit_row \<Rightarrow> int" where
  "chain_idx e = (case ae_chainIndex e of None \<Rightarrow> 0 | Some i \<Rightarrow> i)"

lemma chain_idx_Some [simp]: "ae_chainIndex e = Some i \<Longrightarrow> chain_idx e = i"
  by (simp add: chain_idx_def)

text \<open>\<open>orderBy: { chainIndex: "desc" }\<close> among the chained events.\<close>

definition last_chained :: "db \<Rightarrow> audit_row option" where
  "last_chained s =
     find_first_by (\<lambda>e. - chain_idx e) (\<lambda>e. ae_chainIndex e \<noteq> None) (audits s)"

definition settled_events :: "env \<Rightarrow> db \<Rightarrow> audit_row list" where
  "settled_events E s =
     take BATCH (sort_key ae_occurredAt (sort_key ae_id
       (filter (\<lambda>e. ae_chainIndex e = None \<and> ae_occurredAt e < now E - SETTLE_MS) (audits s))))"

fun chain_loop :: "env \<Rightarrow> audit_row list \<Rightarrow> int \<Rightarrow> string \<Rightarrow> audit_row list \<Rightarrow> audit_row list \<times> int \<times> string" where
  "chain_loop E rows index previous [] = (rows, index, previous)"
| "chain_loop E rows index previous (e # es) =
     (let h = auditEventHash E previous e
      in chain_loop E
           (update_rows (\<lambda>r. ae_id r = ae_id e)
             (\<lambda>r. r\<lparr>ae_chainIndex := Some (index + 1), ae_prevHash := Some previous, ae_chainHash := Some h\<rparr>) rows)
           (index + 1) h es)"

definition chainAuditEvents :: "env \<Rightarrow> db \<Rightarrow> db \<times> nat \<times> int \<times> string" where
  "chainAuditEvents E s =
     (let index = (case last_chained s of None \<Rightarrow> 0 | Some e \<Rightarrow> chain_idx e);
          previous = (case last_chained s of None \<Rightarrow> GENESIS_HASH
            | Some e \<Rightarrow> (case ae_chainHash e of None \<Rightarrow> GENESIS_HASH | Some h \<Rightarrow> h));
          events = settled_events E s;
          (rows, index', previous') = chain_loop E (audits s) index previous events
      in (s\<lparr>audits := rows\<rparr>, length events, index', previous'))"

section \<open>Sealing\<close>

definition last_seal :: "db \<Rightarrow> seal_row option" where
  "last_seal s = find_first_by (\<lambda>x. - au_createdAt x) (\<lambda>x. True) (seals s)"

text \<open>\<open>configured\<close> is the interval in minutes read from the environment of the process.\<close>

definition sealAuditChain :: "env \<Rightarrow> db \<Rightarrow> int \<Rightarrow> db \<times> seal_row option" where
  "sealAuditChain E s configured =
     (let intervalMinutes = max 5 configured
      in case last_chained s of
           None \<Rightarrow> (s, None)
         | Some e \<Rightarrow>
             (case ae_chainHash e of
                None \<Rightarrow> (s, None)
              | Some h \<Rightarrow>
                  (let i = chain_idx e
                   in if i = 0 \<or> h = [] then (s, None)
                      else if some_and (\<lambda>x. i \<le> au_lastChainIndex x) (last_seal s) then (s, None)
                      else if some_and (\<lambda>x. now E - au_createdAt x < intervalMinutes * 60000) (last_seal s)
                      then (s, None)
                      else (let seal = \<lparr>au_id = uuid E (uuid_next s), au_lastChainIndex = i, au_chainHash = h,
                                  au_eventCount = i - (case last_seal s of None \<Rightarrow> 0 | Some x \<Rightarrow> au_lastChainIndex x),
                                  au_token = None, au_genTime = None, au_tsaUrl = None,
                                  au_createdAt = now E\<rparr>
                            in (s\<lparr>seals := seals s @ [seal], uuid_next := Suc (uuid_next s)\<rparr>, Some seal)))))"

text \<open>The answer of the time-stamping authority for a digest: token, instant and address.\<close>

type_synonym stamping = "string \<Rightarrow> (string \<times> time option \<times> string) option"

fun stamp_loop :: "stamping \<Rightarrow> db \<Rightarrow> seal_row list \<Rightarrow> nat \<Rightarrow> db \<times> nat" where
  "stamp_loop stamp s [] n = (s, n)"
| "stamp_loop stamp s (x # xs) n =
     (case stamp (au_chainHash x) of
        None \<Rightarrow> (s, n)
      | Some (token, genTime, url) \<Rightarrow>
          stamp_loop stamp (s\<lparr>seals := update_rows (\<lambda>r. au_id r = au_id x)
            (\<lambda>r. r\<lparr>au_token := Some token, au_genTime := genTime, au_tsaUrl := Some url\<rparr>) (seals s)\<rparr>) xs (Suc n))"

definition timestampAuditSeals :: "env \<Rightarrow> db \<Rightarrow> stamping option \<Rightarrow> db \<times> nat" where
  "timestampAuditSeals E s config =
     (case config of
        None \<Rightarrow> (s, 0)
      | Some stamp \<Rightarrow>
          stamp_loop stamp s
            (find_many au_createdAt 5 (\<lambda>x. au_token x = None \<and> now E - 7 * day_ms < au_createdAt x) (seals s)) 0)"

section \<open>Verification\<close>

datatype chain_fault = MissingEvents | LinkMismatch | ContentAltered

record walk_state =
  ws_previous :: "(int \<times> string) option"
  ws_broken :: "(int \<times> chain_fault) list"
  ws_checked :: nat
  ws_first :: "int option"

definition prev_or_genesis :: "audit_row \<Rightarrow> string" where
  "prev_or_genesis e =
     (case ae_prevHash e of None \<Rightarrow> GENESIS_HASH | Some p \<Rightarrow> if p = [] then GENESIS_HASH else p)"

definition verify_event :: "env \<Rightarrow> walk_state \<Rightarrow> audit_row \<Rightarrow> walk_state" where
  "verify_event E w e =
     (let index = chain_idx e;
          follows = some_and (\<lambda>(i, h). i + 1 = index) (ws_previous w);
          expectedPrevious = (if follows then map_option snd (ws_previous w) else ae_prevHash e);
          b1 = (if ws_previous w \<noteq> None \<and> \<not> follows then [(index, MissingEvents)]
                else if ae_prevHash e \<noteq> expectedPrevious then [(index, LinkMismatch)] else []);
          b2 = (if Some (auditEventHash E (prev_or_genesis e) e) \<noteq> ae_chainHash e
                then [(index, ContentAltered)] else [])
      in \<lparr>ws_previous = Some (index, case ae_chainHash e of None \<Rightarrow> [] | Some h \<Rightarrow> h),
          ws_broken = ws_broken w @ b1 @ b2,
          ws_checked = Suc (ws_checked w),
          ws_first = (if ws_first w = None then Some index else ws_first w)\<rparr>)"

definition verify_batch :: "db \<Rightarrow> int \<Rightarrow> audit_row list" where
  "verify_batch s cursor =
     find_many (\<lambda>e. chain_idx e) 5000 (\<lambda>e. some_and (\<lambda>i. cursor < i) (ae_chainIndex e)) (audits s)"

lemma verify_batch_mem:
  "e \<in> set (verify_batch s cursor) \<Longrightarrow> e \<in> set (audits s) \<and> (\<exists>i. ae_chainIndex e = Some i \<and> cursor < i)"
  using set_find_many [of "\<lambda>e. chain_idx e" 5000 "\<lambda>e. some_and (\<lambda>i. cursor < i) (ae_chainIndex e)" "audits s"]
  by (auto simp: verify_batch_def some_and_iff)

lemma count_rows_decreases:
  "(\<And>r. q r \<Longrightarrow> p r) \<Longrightarrow> x \<in> set rows \<Longrightarrow> p x \<Longrightarrow> \<not> q x \<Longrightarrow> count_rows q rows < count_rows p rows"
proof (induction rows)
  case (Cons r rows)
  have "count_rows q rows \<le> count_rows p rows" using Cons.prems(1) by (induction rows) auto
  with Cons show ?case by (cases "x = r") auto
qed simp

function verify_loop :: "env \<Rightarrow> db \<Rightarrow> int \<Rightarrow> walk_state \<Rightarrow> walk_state" where
  "verify_loop E s cursor w =
     (let events = verify_batch s cursor
      in if events = [] then w
         else verify_loop E s (chain_idx (last events)) (foldl (verify_event E) w events))"
  by pat_completeness auto
termination
proof (relation "measure (\<lambda>(E, s, cursor, w). count_rows (\<lambda>e. some_and (\<lambda>i. cursor < i) (ae_chainIndex e)) (audits s))",
    goal_cases)
  case 1
  show ?case by simp
next
  case (2 E s cursor w events)
  then have "last events \<in> set (verify_batch s cursor)" by simp
  from verify_batch_mem [OF this] obtain i where i: "last events \<in> set (audits s)"
    "ae_chainIndex (last events) = Some i" "cursor < i" by auto
  have "count_rows (\<lambda>e. some_and (\<lambda>k. i < k) (ae_chainIndex e)) (audits s) <
      count_rows (\<lambda>e. some_and (\<lambda>k. cursor < k) (ae_chainIndex e)) (audits s)"
    by (rule count_rows_decreases [of _ _ "last events"]) (use i in \<open>auto simp: some_and_iff\<close>)
  with i(2) show ?case by simp
qed

declare verify_loop.simps [simp del]

definition start_walk :: walk_state where
  "start_walk = \<lparr>ws_previous = None, ws_broken = [], ws_checked = 0, ws_first = None\<rparr>"

record chain_report =
  cr_valid :: bool
  cr_checked :: nat
  cr_pending :: nat
  cr_firstIndex :: "int option"
  cr_lastIndex :: "int option"
  cr_broken :: "(int \<times> chain_fault) list"
  cr_sealsTotal :: nat
  cr_sealsTimestamped :: nat
  cr_sealsMismatched :: nat
  cr_lastSealAt :: "time option"
  cr_lastTimestampAt :: "time option"

definition event_at :: "db \<Rightarrow> int \<Rightarrow> audit_row option" where
  "event_at s i = find_first (\<lambda>e. ae_chainIndex e = Some i) (audits s)"

definition seal_mismatched :: "db \<Rightarrow> seal_row \<Rightarrow> bool" where
  "seal_mismatched s x =
     some_and (\<lambda>e. ae_chainHash e \<noteq> Some (au_chainHash x)) (event_at s (au_lastChainIndex x))"

definition verifyAuditChain :: "env \<Rightarrow> db \<Rightarrow> chain_report" where
  "verifyAuditChain E s =
     (let w = verify_loop E s 0 start_walk;
          recent = find_many (\<lambda>x. - au_createdAt x) 500 (\<lambda>x. True) (seals s);
          sealMismatches = count_rows (seal_mismatched s) recent
      in \<lparr>cr_valid = (ws_broken w = [] \<and> sealMismatches = 0),
          cr_checked = ws_checked w,
          cr_pending = count_rows (\<lambda>e. ae_chainIndex e = None) (audits s),
          cr_firstIndex = ws_first w,
          cr_lastIndex = map_option fst (ws_previous w),
          cr_broken = take 20 (ws_broken w),
          cr_sealsTotal = length recent,
          cr_sealsTimestamped = count_rows (\<lambda>x. au_token x \<noteq> None) recent,
          cr_sealsMismatched = sealMismatches,
          cr_lastSealAt = map_option au_createdAt (case recent of [] \<Rightarrow> None | x # _ \<Rightarrow> Some x),
          cr_lastTimestampAt = Option.bind (find_first (\<lambda>x. au_genTime x \<noteq> None) recent) au_genTime\<rparr>)"

section \<open>The walk over the chain\<close>

text \<open>The chained events after a cursor, in the order of the chain.\<close>

definition chain_after :: "db \<Rightarrow> int \<Rightarrow> audit_row list" where
  "chain_after s cursor =
     sort_key chain_idx (filter (\<lambda>e. some_and (\<lambda>i. cursor < i) (ae_chainIndex e)) (audits s))"

text \<open>\<open>chainIndex BigInt? @unique\<close>.\<close>

definition unique_indices :: "db \<Rightarrow> bool" where
  "unique_indices s \<longleftrightarrow> distinct (map ae_chainIndex (filter (\<lambda>e. ae_chainIndex e \<noteq> None) (audits s)))"

lemma in_chain_after:
  "e \<in> set (chain_after s c) \<longleftrightarrow> e \<in> set (audits s) \<and> (\<exists>i. ae_chainIndex e = Some i \<and> c < i)"
  by (auto simp: chain_after_def some_and_iff)

lemma unique_indices_eq:
  "unique_indices s \<Longrightarrow> e \<in> set (audits s) \<Longrightarrow> f \<in> set (audits s) \<Longrightarrow> ae_chainIndex e = Some i \<Longrightarrow>
     ae_chainIndex f = Some i \<Longrightarrow> e = f"
  unfolding unique_indices_def distinct_map inj_on_def by auto

lemma distinct_chain_after:
  assumes "unique_indices s"
  shows "distinct (map chain_idx (chain_after s c))"
proof -
  let ?q = "\<lambda>e. some_and (\<lambda>i. c < i) (ae_chainIndex e)"
  have "filter ?q (filter (\<lambda>e. ae_chainIndex e \<noteq> None) (audits s)) = filter ?q (audits s)"
    by (auto simp: some_and_iff intro!: filter_cong)
  then have "distinct (map ae_chainIndex (filter ?q (audits s)))"
    using assms unfolding unique_indices_def by (metis distinct_map_filter)
  then have "distinct (map chain_idx (filter ?q (audits s)))"
    by (auto simp: distinct_map inj_on_def some_and_iff)
  then show ?thesis by (simp add: chain_after_def distinct_map)
qed

lemma sorted_split_filter:
  fixes f :: "'a \<Rightarrow> int"
  assumes "sorted (map f xs)" and "distinct (map f xs)" and "take n xs \<noteq> []"
  shows "filter (\<lambda>x. f (last (take n xs)) < f x) xs = drop n xs"
proof -
  let ?k = "f (last (take n xs))"
  have split: "xs = take n xs @ drop n xs" by simp
  have srt: "sorted (map f (take n xs) @ map f (drop n xs))" "distinct (map f (take n xs) @ map f (drop n xs))"
    using assms(1,2) by (metis map_append split)+
  have lastm: "?k \<in> set (map f (take n xs))" using assms(3) by simp
  have low: "f x \<le> ?k" if "x \<in> set (take n xs)" for x
  proof -
    have t: "sorted (map f (take n xs))" using assms(1) sorted_wrt_take [of "(\<le>)" "map f xs" n] by (simp add: take_map)
    have e: "butlast (take n xs) @ [last (take n xs)] = take n xs" using assms(3) by (rule append_butlast_last_id)
    have "sorted (map f (butlast (take n xs) @ [last (take n xs)]))" unfolding e by (rule t)
    then have "\<forall>y\<in>set (butlast (take n xs)). f y \<le> ?k" unfolding map_append sorted_append by simp
    moreover have "x \<in> set (butlast (take n xs) @ [last (take n xs)])" unfolding e by (rule that)
    ultimately show ?thesis by auto
  qed
  have high: "?k < f x" if "x \<in> set (drop n xs)" for x
  proof -
    have x: "f x \<in> set (map f (drop n xs))" using that by simp
    then have "?k \<le> f x" using srt(1) lastm unfolding sorted_append by blast
    moreover have "?k \<noteq> f x"
    proof
      assume "?k = f x"
      then have "?k \<in> set (map f (take n xs)) \<inter> set (map f (drop n xs))" using lastm x by (intro IntI) simp_all
      with srt(2) show False unfolding distinct_append by simp
    qed
    ultimately show ?thesis by simp
  qed
  have "filter (\<lambda>x. ?k < f x) (take n xs) = []" using low by (auto simp: filter_empty_conv not_less)
  moreover have "filter (\<lambda>x. ?k < f x) (drop n xs) = drop n xs" using high by simp
  ultimately have "filter (\<lambda>x. ?k < f x) (take n xs @ drop n xs) = drop n xs" by (simp only: filter_append append.simps)
  then show ?thesis by simp
qed

lemma chain_after_later:
  assumes "c \<le> k"
  shows "chain_after s k = filter (\<lambda>e. k < chain_idx e) (chain_after s c)"
proof -
  have "filter (\<lambda>e. some_and (\<lambda>i. k < i) (ae_chainIndex e)) (audits s) =
      filter (\<lambda>e. k < chain_idx e) (filter (\<lambda>e. some_and (\<lambda>i. c < i) (ae_chainIndex e)) (audits s))"
    using assms by (auto simp: some_and_iff intro!: filter_cong)
  then show ?thesis by (simp add: chain_after_def filter_sort)
qed

lemma verify_batch_take: "verify_batch s c = take 5000 (chain_after s c)"
  by (simp add: verify_batch_def chain_after_def find_many_def)

lemma verify_loop_eq:
  assumes "unique_indices s"
  shows "verify_loop E s c w = foldl (verify_event E) w (chain_after s c)"
  using assms
proof (induction E s c w rule: verify_loop.induct)
  case (1 E s c w)
  let ?L = "chain_after s c"
  let ?k = "chain_idx (last (take 5000 ?L))"
  show ?case
  proof (cases "verify_batch s c = []")
    case True
    then have "?L = []" by (simp add: verify_batch_take)
    with True show ?thesis by (simp add: verify_loop.simps [of E s c w])
  next
    case False
    then have ne: "take 5000 ?L \<noteq> []" by (simp add: verify_batch_take)
    then have "last (take 5000 ?L) \<in> set ?L" by (meson in_set_takeD last_in_set)
    then have ck: "c \<le> ?k" by (auto simp: in_chain_after)
    have "chain_after s ?k = drop 5000 ?L"
      unfolding chain_after_later [OF ck]
      using ne distinct_chain_after [OF 1(2)] by (intro sorted_split_filter) (simp_all add: chain_after_def)
    moreover have "verify_loop E s c w = verify_loop E s ?k (foldl (verify_event E) w (take 5000 ?L))"
      using False by (simp add: verify_loop.simps [of E s c w] verify_batch_take Let_def)
    moreover have "verify_loop E s ?k (foldl (verify_event E) w (take 5000 ?L)) =
        foldl (verify_event E) (foldl (verify_event E) w (take 5000 ?L)) (chain_after s ?k)"
      using 1(1) [OF refl False 1(2)] by (simp add: verify_batch_take)
    ultimately show ?thesis by (metis append_take_drop_id foldl_append)
  qed
qed

definition chain_hash_text :: "audit_row \<Rightarrow> string" where
  "chain_hash_text e = (case ae_chainHash e of None \<Rightarrow> [] | Some h \<Rightarrow> h)"

fun linked_from :: "env \<Rightarrow> (int \<times> string) option \<Rightarrow> audit_row list \<Rightarrow> bool" where
  "linked_from E p [] = True"
| "linked_from E p (e # es) =
     ((case p of None \<Rightarrow> True | Some (i, h) \<Rightarrow> chain_idx e = i + 1 \<and> ae_prevHash e = Some h) \<and>
      ae_chainHash e = Some (auditEventHash E (prev_or_genesis e) e) \<and>
      linked_from E (Some (chain_idx e, chain_hash_text e)) es)"

lemma verify_event_broken:
  "ws_broken (verify_event E w e) = [] \<longleftrightarrow>
     ws_broken w = [] \<and>
     (case ws_previous w of None \<Rightarrow> True | Some (i, h) \<Rightarrow> chain_idx e = i + 1 \<and> ae_prevHash e = Some h) \<and>
     ae_chainHash e = Some (auditEventHash E (prev_or_genesis e) e)"
  by (auto simp: verify_event_def Let_def split: option.splits)

lemma verify_event_previous [simp]:
  "ws_previous (verify_event E w e) = Some (chain_idx e, chain_hash_text e)"
  by (simp add: verify_event_def Let_def chain_hash_text_def)

lemma verify_walk_broken:
  "ws_broken (foldl (verify_event E) w es) = [] \<longleftrightarrow> ws_broken w = [] \<and> linked_from E (ws_previous w) es"
  by (induction es arbitrary: w) (auto simp: verify_event_broken)

lemma verify_walk_first:
  "ws_first (foldl (verify_event E) w es) =
     (if ws_first w \<noteq> None then ws_first w else case es of [] \<Rightarrow> None | e # _ \<Rightarrow> Some (chain_idx e))"
proof (induction es arbitrary: w)
  case (Cons e es)
  have "ws_first (verify_event E w e) = (if ws_first w = None then Some (chain_idx e) else ws_first w)"
    by (simp add: verify_event_def Let_def)
  with Cons.IH [of "verify_event E w e"] show ?case by auto
qed simp

definition recent_seals :: "db \<Rightarrow> seal_row list" where
  "recent_seals s = find_many (\<lambda>x. - au_createdAt x) 500 (\<lambda>x. True) (seals s)"

lemma verifyAuditChain_simps:
  assumes "unique_indices s"
  shows "cr_valid (verifyAuditChain E s) \<longleftrightarrow> linked_from E None (chain_after s 0) \<and>
      (\<forall>x\<in>set (recent_seals s). \<not> seal_mismatched s x)"
    and "cr_firstIndex (verifyAuditChain E s) =
      (case chain_after s 0 of [] \<Rightarrow> None | e # _ \<Rightarrow> Some (chain_idx e))"
  by (simp_all add: verifyAuditChain_def Let_def verify_loop_eq [OF assms] verify_walk_broken
      verify_walk_first start_walk_def count_rows_0_iff recent_seals_def split: list.splits)

lemma linked_from_append:
  "linked_from E p (xs @ ys) \<longleftrightarrow> linked_from E p xs \<and>
     linked_from E (if xs = [] then p else Some (chain_idx (last xs), chain_hash_text (last xs))) ys"
  by (induction xs arbitrary: p) auto

lemma linked_from_nth:
  assumes "linked_from E p xs" and "j < length xs"
  shows "ae_chainHash (xs ! j) = Some (auditEventHash E (prev_or_genesis (xs ! j)) (xs ! j))"
    and "0 < j \<Longrightarrow> chain_idx (xs ! j) = chain_idx (xs ! (j - 1)) + 1 \<and>
      ae_prevHash (xs ! j) = ae_chainHash (xs ! (j - 1))"
proof -
  have split: "xs = take j xs @ xs ! j # drop (Suc j) xs" using assms(2) by (simp add: id_take_nth_drop)
  then have l: "linked_from E (if take j xs = [] then p
      else Some (chain_idx (last (take j xs)), chain_hash_text (last (take j xs)))) (xs ! j # drop (Suc j) xs)"
    and t: "linked_from E p (take j xs)"
    using assms(1) linked_from_append by metis+
  then show "ae_chainHash (xs ! j) = Some (auditEventHash E (prev_or_genesis (xs ! j)) (xs ! j))" by simp
  show "chain_idx (xs ! j) = chain_idx (xs ! (j - 1)) + 1 \<and> ae_prevHash (xs ! j) = ae_chainHash (xs ! (j - 1))"
    if "0 < j"
  proof -
    have ne: "take j xs \<noteq> []" using that assms(2) by auto
    then have la: "last (take j xs) = xs ! (j - 1)"
      using that assms(2) by (simp add: last_conv_nth min_def)
    obtain ys where "take j xs = ys @ [xs ! (j - 1)]" using ne la by (metis append_butlast_last_id)
    with t have "ae_chainHash (xs ! (j - 1)) \<noteq> None" by (auto simp: linked_from_append)
    with l la ne show ?thesis by (auto simp: chain_hash_text_def)
  qed
qed

lemma linked_from_idx:
  assumes "linked_from E p xs" and "j < length xs"
  shows "chain_idx (xs ! j) = chain_idx (hd xs) + int j"
  using assms(2)
proof (induction j)
  case 0
  then show ?case by (simp add: hd_conv_nth)
next
  case (Suc j)
  then show ?case using linked_from_nth(2) [OF assms(1) Suc.prems] by simp
qed

section \<open>The digest covers the event\<close>

lemma hex_digit_inj: "m < 16 \<Longrightarrow> n < 16 \<Longrightarrow> hex_digit m = hex_digit n \<Longrightarrow> m = n"
proof -
  assume "m < 16" "n < 16" "hex_digit m = hex_digit n"
  then have "(of_char (hex_digit m) :: nat) = of_char (hex_digit n)" by simp
  with \<open>m < 16\<close> \<open>n < 16\<close> show "m = n"
    by (auto simp: hex_digit_def of_char_of split: if_splits)
qed

definition control_escape :: "char \<Rightarrow> string" where
  "control_escape c = [CHR 0x5C, CHR ''u'', CHR ''0'', CHR ''0'', hex_digit (of_char c div 16), hex_digit (of_char c mod 16)]"

text \<open>The escape of a character by its kind: a named escape, a numeric one, or the character.\<close>

definition named_escapes :: "(char \<times> char) list" where
  "named_escapes = [(CHR 0x22, CHR 0x22), (CHR 0x5C, CHR 0x5C), (CHR 0x08, CHR ''b''), (CHR 0x0C, CHR ''f''),
     (CHR 0x0A, CHR ''n''), (CHR 0x0D, CHR ''r''), (CHR 0x09, CHR ''t'')]"

lemma json_escape_cases:
  "json_escape c =
     (case map_of named_escapes c of
        Some d \<Rightarrow> [CHR 0x5C, d]
      | None \<Rightarrow> if (of_char c :: nat) < 32 then control_escape c else [c])"
  by (auto simp: json_escape_def named_escapes_def control_escape_def)

lemma named_escapes_inj:
  "map_of named_escapes c = Some d \<Longrightarrow> map_of named_escapes c' = Some d \<Longrightarrow> c = c'"
  by (auto simp: named_escapes_def split: if_splits)

lemma named_escapes_not_u: "map_of named_escapes c \<noteq> Some CHR ''u''"
  by (auto simp: named_escapes_def split: if_splits)

lemma not_named: "map_of named_escapes c = None \<Longrightarrow> c \<noteq> CHR 0x5C \<and> c \<noteq> CHR 0x22"
  by (auto simp: named_escapes_def split: if_splits)

lemma control_escape_inj:
  assumes "control_escape c @ u = control_escape d @ v" and "(of_char c :: nat) < 32" and "(of_char d :: nat) < 32"
  shows "c = d \<and> u = v"
proof -
  have "hex_digit (of_char c div 16) = hex_digit (of_char d div 16)"
    "hex_digit (of_char c mod 16) = hex_digit (of_char d mod 16)" "u = v"
    using assms(1) by (simp_all add: control_escape_def)
  then have "(of_char c :: nat) div 16 = of_char d div 16" "(of_char c :: nat) mod 16 = of_char d mod 16"
    using assms(2,3) hex_digit_inj by auto
  then have "(of_char c :: nat) = of_char d" by (metis div_mod_decomp)
  with \<open>u = v\<close> show ?thesis by simp
qed

lemma json_escape_inj:
  assumes "json_escape c @ u = json_escape d @ v"
  shows "c = d \<and> u = v"
proof -
  consider (nn) x y where "map_of named_escapes c = Some x" "map_of named_escapes d = Some y"
    | (no) x where "map_of named_escapes c = Some x" "map_of named_escapes d = None"
    | (on) y where "map_of named_escapes c = None" "map_of named_escapes d = Some y"
    | (oo) "map_of named_escapes c = None" "map_of named_escapes d = None"
    by (cases "map_of named_escapes c"; cases "map_of named_escapes d") auto
  then show ?thesis
  proof cases
    case nn
    with assms named_escapes_inj show ?thesis by (auto simp: json_escape_cases)
  next
    case no
    with assms not_named [of d] named_escapes_not_u [of c] show ?thesis
      by (auto simp: json_escape_cases control_escape_def split: if_splits)
  next
    case on
    with assms not_named [of c] named_escapes_not_u [of d] show ?thesis
      by (auto simp: json_escape_cases control_escape_def split: if_splits)
  next
    case oo
    show ?thesis
    proof (cases "(of_char c :: nat) < 32 \<and> (of_char d :: nat) < 32")
      case True
      with oo assms control_escape_inj [of c u d v] show ?thesis by (simp add: json_escape_cases)
    next
      case False
      with oo assms not_named [of c] not_named [of d] show ?thesis
        by (auto simp: json_escape_cases control_escape_def split: if_splits)
    qed
  qed
qed

lemma json_escape_head: "\<exists>x xs. json_escape c = x # xs \<and> x \<noteq> CHR 0x22"
  using not_named [of c]
  by (cases "map_of named_escapes c") (auto simp: json_escape_cases control_escape_def)

lemma json_string_inj:
  assumes "json_string a @ u = json_string b @ v"
  shows "a = b \<and> u = v"
proof -
  have "concat (map json_escape a) @ CHR 0x22 # u = concat (map json_escape b) @ CHR 0x22 # v \<Longrightarrow> a = b \<and> u = v"
  proof (induction a arbitrary: b)
    case Nil
    then show ?case using json_escape_head [of "hd b"] by (cases b) auto
  next
    case (Cons c a)
    show ?case
    proof (cases b)
      case Nil
      with Cons.prems json_escape_head [of c] show ?thesis by auto
    next
      case (Cons d b')
      with Cons.prems have "json_escape c @ (concat (map json_escape a) @ CHR 0x22 # u) =
          json_escape d @ (concat (map json_escape b') @ CHR 0x22 # v)" by simp
      from json_escape_inj [OF this] Cons.IH [of b'] Cons show ?thesis by simp
    qed
  qed
  with assms show ?thesis by (simp add: json_string_def)
qed

text \<open>What the digest of an event determines: every column but the details, and the details up to the
  order of the keys of objects.\<close>

definition same_content :: "audit_row \<Rightarrow> audit_row \<Rightarrow> bool" where
  "same_content e f \<longleftrightarrow>
     ae_id e = ae_id f \<and> toISOString (ae_occurredAt e) = toISOString (ae_occurredAt f) \<and>
     ae_identity e = ae_identity f \<and> ae_ipAddress e = ae_ipAddress f \<and> ae_action e = ae_action f \<and>
     ae_resource e = ae_resource f \<and> ae_result e = ae_result f \<and> ae_correlationId e = ae_correlationId f \<and>
     stable (json_opt (\<lambda>d. d) (ae_details e)) = stable (json_opt (\<lambda>d. d) (ae_details f))"

lemma stable_chained_fields:
  "stable (chained_fields e) = ''['' @ json_string (ae_id e) @ '','' @ json_string (toISOString (ae_occurredAt e)) @
     '','' @ json_string (ae_identity e) @ '','' @ json_string (ae_ipAddress e) @ '','' @ json_string (ae_action e) @
     '','' @ json_string (ae_resource e) @ '','' @ json_string (result_text (ae_result e)) @ '','' @
     json_string (ae_correlationId e) @ '','' @ stable (json_opt (\<lambda>d. d) (ae_details e)) @ '']''"
  by (simp add: chained_fields_def join_def)

lemma json_string_comma_inj:
  "json_string a @ '','' @ u = json_string b @ '','' @ v \<Longrightarrow> a = b \<and> u = v"
  using json_string_inj [of a "'','' @ u" b "'','' @ v"] by simp

lemma result_text_inj: "result_text r = result_text r' \<Longrightarrow> r = r'"
  by (cases r; cases r') (simp_all add: result_text_def)

lemma stable_chained_fields_inj:
  assumes "stable (chained_fields e) = stable (chained_fields f)"
  shows "same_content e f"
proof -
  note eq = assms [unfolded stable_chained_fields]
  have s0: "json_string (ae_id e) @ '','' @ json_string (toISOString (ae_occurredAt e)) @
     '','' @ json_string (ae_identity e) @ '','' @ json_string (ae_ipAddress e) @ '','' @ json_string (ae_action e) @
     '','' @ json_string (ae_resource e) @ '','' @ json_string (result_text (ae_result e)) @ '','' @
     json_string (ae_correlationId e) @ '','' @ stable (json_opt (\<lambda>d. d) (ae_details e)) @ '']'' =
     json_string (ae_id f) @ '','' @ json_string (toISOString (ae_occurredAt f)) @
     '','' @ json_string (ae_identity f) @ '','' @ json_string (ae_ipAddress f) @ '','' @ json_string (ae_action f) @
     '','' @ json_string (ae_resource f) @ '','' @ json_string (result_text (ae_result f)) @ '','' @
     json_string (ae_correlationId f) @ '','' @ stable (json_opt (\<lambda>d. d) (ae_details f)) @ '']''"
    using eq by (simp only: same_append_eq)
  note s1 = json_string_comma_inj [OF s0]
  note s2 = json_string_comma_inj [OF s1 [THEN conjunct2]]
  note s3 = json_string_comma_inj [OF s2 [THEN conjunct2]]
  note s4 = json_string_comma_inj [OF s3 [THEN conjunct2]]
  note s5 = json_string_comma_inj [OF s4 [THEN conjunct2]]
  note s6 = json_string_comma_inj [OF s5 [THEN conjunct2]]
  note s7 = json_string_comma_inj [OF s6 [THEN conjunct2]]
  note s8 = json_string_comma_inj [OF s7 [THEN conjunct2]]
  show ?thesis
    unfolding same_content_def
    using s1 s2 s3 s4 s5 s6 s7 s8 result_text_inj [of "ae_result e" "ae_result f"] by simp
qed

section \<open>Tampering is evident\<close>

lemma event_at_Some:
  "event_at s i = Some e \<Longrightarrow> e \<in> set (audits s) \<and> ae_chainIndex e = Some i"
  by (auto simp: event_at_def dest: find_first_Some)

lemma event_at_unique:
  assumes "unique_indices s" and "e \<in> set (audits s)" and "ae_chainIndex e = Some i"
  shows "event_at s i = Some e"
proof (cases "event_at s i")
  case None
  with assms(2,3) show ?thesis by (auto simp: event_at_def find_first_None_iff)
next
  case (Some f)
  with event_at_Some [OF Some] unique_indices_eq [OF assms(1,2) _ assms(3)] show ?thesis by auto
qed

lemma chain_predecessor:
  assumes "unique_indices s" and "linked_from E None (chain_after s 0)" and "event_at s i = Some e"
    and "chain_idx (hd (chain_after s 0)) < i" and "0 < i"
  obtains p where "event_at s (i - 1) = Some p" and "ae_prevHash e = ae_chainHash p"
    and "ae_chainHash p = Some (auditEventHash E (prev_or_genesis p) p)"
    and "ae_chainHash e = Some (auditEventHash E (prev_or_genesis e) e)" and "0 < i - 1"
proof -
  let ?L = "chain_after s 0"
  have "e \<in> set ?L" using event_at_Some [OF assms(3)] assms(5) by (auto simp: in_chain_after)
  then obtain j where j: "j < length ?L" "?L ! j = e" by (auto simp: in_set_conv_nth)
  have i: "i = chain_idx (hd ?L) + int j"
    using linked_from_idx [OF assms(2) j(1)] j(2) event_at_Some [OF assms(3)] by simp
  with assms(4) have j0: "0 < j" by simp
  have j1: "j - 1 < length ?L" using j(1) by simp
  let ?p = "?L ! (j - 1)"
  have p: "?p \<in> set (audits s)" "\<exists>k. ae_chainIndex ?p = Some k \<and> 0 < k"
    using nth_mem [OF j1] by (auto simp: in_chain_after)
  have "chain_idx ?p = i - 1" using linked_from_nth(2) [OF assms(2) j(1) j0] j(2) event_at_Some [OF assms(3)] by simp
  with p have "ae_chainIndex ?p = Some (i - 1)" "0 < i - 1" by auto
  then show thesis
    using that [of ?p] event_at_unique [OF assms(1) p(1)] linked_from_nth [OF assms(2) j(1)] j0 j(2)
      linked_from_nth(1) [OF assms(2) j1] by simp
qed

text \<open>The text whose digest an event carries: the digest before it, or that of the beginning, and its
  fields as canonical JSON. Two journals exhibit a collision at an index when their events there carry
  one digest for two different texts.\<close>

definition hashed_text :: "audit_row \<Rightarrow> string" where
  "hashed_text e =
     prev_or_genesis e @ stable (JArr [JStr (ae_id e), JStr (toISOString (ae_occurredAt e)), JStr (ae_identity e),
       JStr (ae_ipAddress e), JStr (ae_action e), JStr (ae_resource e), JStr (result_text (ae_result e)),
       JStr (ae_correlationId e), json_opt (\<lambda>d. d) (ae_details e)])"

definition collision_at :: "env \<Rightarrow> db \<Rightarrow> db \<Rightarrow> int \<Rightarrow> bool" where
  "collision_at E s s' i \<longleftrightarrow>
     (\<exists>x y. event_at s i = Some x \<and> event_at s' i = Some y \<and> hashed_text x \<noteq> hashed_text y \<and>
        sha256 E (hashed_text x) = sha256 E (hashed_text y))"

lemma auditEventHash_text: "auditEventHash E (prev_or_genesis e) e = sha256 E (hashed_text e)"
  by (simp add: auditEventHash_def hashed_text_def chained_fields_def)

lemma same_text_content:
  assumes "hashed_text e = hashed_text f" and "length (prev_or_genesis e) = length (prev_or_genesis f)"
  shows "prev_or_genesis e = prev_or_genesis f \<and> same_content e f"
proof -
  have "prev_or_genesis e @ stable (chained_fields e) = prev_or_genesis f @ stable (chained_fields f)"
    using assms(1) by (simp add: hashed_text_def chained_fields_def)
  with assms(2) stable_chained_fields_inj show ?thesis by (simp add: append_eq_append_conv)
qed

text \<open>Agreement at one index carries over to the index before it.\<close>

lemma same_hash_step:
  assumes "unique_indices s" and "unique_indices s'"
    and link: "linked_from E None (chain_after s 0)" "linked_from E None (chain_after s' 0)"
    and len: "\<And>x. length (sha256 E x) = 64"
    and at: "event_at s i = Some g" "event_at s' i = Some h"
    and first: "chain_idx (hd (chain_after s 0)) < i" "chain_idx (hd (chain_after s' 0)) < i" "0 < i"
    and eq: "ae_chainHash g = ae_chainHash h"
  shows "collision_at E s s' i \<or> same_content g h \<and>
    (\<exists>p q. event_at s (i - 1) = Some p \<and> event_at s' (i - 1) = Some q \<and> ae_chainHash p = ae_chainHash q)"
proof -
  obtain p where p: "event_at s (i - 1) = Some p" "ae_prevHash g = ae_chainHash p"
    "ae_chainHash p = Some (auditEventHash E (prev_or_genesis p) p)"
    "ae_chainHash g = Some (auditEventHash E (prev_or_genesis g) g)"
    by (rule chain_predecessor [OF assms(1) link(1) at(1) first(1,3)])
  obtain q where q: "event_at s' (i - 1) = Some q" "ae_prevHash h = ae_chainHash q"
    "ae_chainHash q = Some (auditEventHash E (prev_or_genesis q) q)"
    "ae_chainHash h = Some (auditEventHash E (prev_or_genesis h) h)"
    by (rule chain_predecessor [OF assms(2) link(2) at(2) first(2,3)])
  have l: "length (auditEventHash E x y) = 64" for x y by (simp add: auditEventHash_def len)
  then have nonempty: "auditEventHash E x y \<noteq> []" for x y by (metis list.size(3) zero_neq_numeral)
  have prev: "prev_or_genesis g = auditEventHash E (prev_or_genesis p) p"
    "prev_or_genesis h = auditEventHash E (prev_or_genesis q) q"
    using p(2,3) q(2,3) nonempty by (simp_all add: prev_or_genesis_def [of g] prev_or_genesis_def [of h])
  then have "length (prev_or_genesis g) = length (prev_or_genesis h)" by (simp add: l)
  moreover have "sha256 E (hashed_text g) = sha256 E (hashed_text h)"
    using p(4) q(4) eq by (simp add: auditEventHash_text)
  ultimately show ?thesis
    using same_text_content [of g h] at p(1-3) q(1-3) prev
    by (cases "hashed_text g = hashed_text h") (auto simp: collision_at_def)
qed

text \<open>C5: tampering with the journal is evident. Take two journals that both pass the verification and
  agree on the digest at one index, for instance at a sealed one. Then they agree on the content of every
  event between the first retained ones (exclusive) and that index: no event there was altered, inserted or
  exchanged; or else the two journals themselves show, at an index in between, two different texts with the
  same SHA-256 digest. A digest is assumed to have 64 hexadecimal digits.\<close>

theorem journal_tamper_evident:
  assumes "unique_indices s" and "unique_indices s'"
    and "cr_valid (verifyAuditChain E s)" and "cr_valid (verifyAuditChain E s')"
    and "\<And>x. length (sha256 E x) = 64"
    and "cr_firstIndex (verifyAuditChain E s) = Some a" and "cr_firstIndex (verifyAuditChain E s') = Some b"
    and "event_at s n = Some e" and "event_at s' n = Some f" and "ae_chainHash e = ae_chainHash f"
    and "a < m" and "b < m" and "m \<le> n"
  shows "(\<exists>g h. event_at s m = Some g \<and> event_at s' m = Some h \<and> same_content g h) \<or>
    (\<exists>i. m \<le> i \<and> i \<le> n \<and> collision_at E s s' i)"
proof (rule disjCI)
  assume "\<nexists>i. m \<le> i \<and> i \<le> n \<and> collision_at E s s' i"
  then have free: "m \<le> i \<Longrightarrow> i \<le> n \<Longrightarrow> \<not> collision_at E s s' i" for i by blast
  let ?L = "chain_after s 0" and ?L' = "chain_after s' 0"
  have link: "linked_from E None ?L" "linked_from E None ?L'"
    using assms(3,4) verifyAuditChain_simps(1) [OF assms(1)] verifyAuditChain_simps(1) [OF assms(2)] by blast+
  have ne: "?L \<noteq> []" "chain_idx (hd ?L) = a" "?L' \<noteq> []" "chain_idx (hd ?L') = b"
    using assms(6,7) verifyAuditChain_simps(2) [OF assms(1)] verifyAuditChain_simps(2) [OF assms(2)]
    by (auto split: list.splits)
  then have a: "0 < a" using hd_in_set [OF ne(1)] by (auto simp: in_chain_after)
  note step = same_hash_step [OF assms(1,2) link assms(5)]
  have down: "\<exists>g h. event_at s (n - int k) = Some g \<and> event_at s' (n - int k) = Some h \<and>
      ae_chainHash g = ae_chainHash h" if "m \<le> n - int k" for k
    using that
  proof (induction k)
    case 0
    with assms(8-10) show ?case by simp
  next
    case (Suc k)
    have e: "n - int (Suc k) = n - int k - 1" by simp
    from Suc obtain g h where "event_at s (n - int k) = Some g" "event_at s' (n - int k) = Some h"
      "ae_chainHash g = ae_chainHash h" by auto
    with step [of "n - int k" g h] free [of "n - int k"] Suc.prems assms(11,12) ne a show ?case
      unfolding e by auto
  qed
  have "m = n - int (nat (n - m))" using assms(13) by simp
  with down [of "nat (n - m)"] obtain g h where "event_at s m = Some g"
    "event_at s' m = Some h" "ae_chainHash g = ae_chainHash h" by auto
  with step [of m g h] free [of m] assms(11-13) ne a
  show "\<exists>g h. event_at s m = Some g \<and> event_at s' m = Some h \<and> same_content g h" by auto
qed

section \<open>Chaining keeps the chain\<close>

text \<open>The journal is in order: identifiers and indices are unique, indices are positive, and every event
  carries the digest of its content and of its predecessor.\<close>

definition journal_ok :: "env \<Rightarrow> db \<Rightarrow> bool" where
  "journal_ok E s \<longleftrightarrow>
     distinct (map ae_id (audits s)) \<and> unique_indices s \<and>
     (\<forall>e\<in>set (audits s). \<forall>i. ae_chainIndex e = Some i \<longrightarrow> 0 < i) \<and>
     linked_from E None (chain_after s 0)"

fun chain_new :: "env \<Rightarrow> int \<Rightarrow> string \<Rightarrow> audit_row list \<Rightarrow> audit_row list" where
  "chain_new E index previous [] = []"
| "chain_new E index previous (e # es) =
     (let h = auditEventHash E previous e
      in e\<lparr>ae_chainIndex := Some (index + 1), ae_prevHash := Some previous, ae_chainHash := Some h\<rparr> #
         chain_new E (index + 1) h es)"

lemma chain_new_ids [simp]: "map ae_id (chain_new E i p es) = map ae_id es"
  by (induction es arbitrary: i p) (simp_all add: Let_def)

lemma chain_new_idx: "map ae_chainIndex (chain_new E i p es) = map (\<lambda>k. Some (i + 1 + int k)) [0..<length es]"
proof (induction es arbitrary: i p)
  case (Cons e es)
  have "map (\<lambda>k. Some (i + 1 + int k)) [0..<length (e # es)] =
      Some (i + 1) # map (\<lambda>k. Some (i + 1 + 1 + int k)) [0..<length es]"
    by (simp add: upt_conv_Cons map_Suc_upt [symmetric] comp_def add.assoc del: upt_Suc)
  with Cons.IH show ?case by (simp add: Let_def)
qed simp

lemma chain_loop_ids: "map ae_id (fst (chain_loop E rows i p es)) = map ae_id rows"
  by (induction es arbitrary: rows i p) (simp_all add: Let_def map_update_rows)

lemma set_update_one:
  assumes "distinct (map key rows)" and "e \<in> set rows" and "\<And>r. key (f r) = key r"
  shows "set (update_rows (\<lambda>r. key r = key e) f rows) = insert (f e) (set rows - {e})"
proof -
  have "key r = key e \<longleftrightarrow> r = e" if "r \<in> set rows" for r using key_unique [OF assms(1) that assms(2)] by auto
  with assms(2) show ?thesis by (auto simp: set_update_rows)
qed

lemma chain_loop_rows:
  assumes "distinct (map ae_id rows)" and "set es \<subseteq> set rows" and "distinct (map ae_id es)"
  shows "set (fst (chain_loop E rows i p es)) = (set rows - set es) \<union> set (chain_new E i p es)"
  using assms
proof (induction es arbitrary: rows i p)
  case (Cons e es)
  define h where "h = auditEventHash E p e"
  define f where "f r = r\<lparr>ae_chainIndex := Some (i + 1), ae_prevHash := Some p, ae_chainHash := Some h\<rparr>"
    for r :: audit_row
  define rows' where "rows' = update_rows (\<lambda>r. ae_id r = ae_id e) f rows"
  have fid: "ae_id (f r) = ae_id r" for r by (simp add: f_def)
  have set': "set rows' = insert (f e) (set rows - {e})"
    unfolding rows'_def using Cons.prems(1,2) fid by (intro set_update_one) auto
  have ids: "map ae_id rows' = map ae_id rows" unfolding rows'_def by (rule map_update_rows) (simp add: fid)
  have notin: "e \<notin> set es" "f e \<notin> set es" using Cons.prems(3) fid [of e] by (auto simp: image_iff)
  have sub: "set es \<subseteq> set rows'" using Cons.prems(2) notin(1) set' by auto
  have "set (fst (chain_loop E rows i p (e # es))) = (set rows' - set es) \<union> set (chain_new E (i + 1) h es)"
    using Cons.IH [OF _ sub, of "i + 1" h] Cons.prems(1,3) ids
    by (simp add: h_def [symmetric] f_def [abs_def, symmetric] rows'_def [symmetric])
  also have "\<dots> = (set rows - set (e # es)) \<union> set (chain_new E i p (e # es))"
    using set' notin by (auto simp: h_def [symmetric] f_def)
  finally show ?case .
qed simp

lemma linked_chain_new:
  assumes "p \<noteq> []" and "\<And>x. sha256 E x \<noteq> []"
  shows "linked_from E (Some (i, p)) (chain_new E i p es)"
    and "linked_from E None (chain_new E i p es)"
proof -
  have h: "auditEventHash E q (e\<lparr>ae_chainIndex := a, ae_prevHash := b, ae_chainHash := c\<rparr>) = auditEventHash E q e"
    for q e a b c by (simp add: auditEventHash_def chained_fields_def)
  have ne: "auditEventHash E q e \<noteq> []" for q e by (simp add: auditEventHash_def assms(2))
  show main: "linked_from E (Some (i, p)) (chain_new E i p es)"
    using assms(1)
    by (induction es arbitrary: i p)
      (simp_all add: Let_def h ne prev_or_genesis_def chain_idx_def chain_hash_text_def)
  show "linked_from E None (chain_new E i p es)"
    using main by (cases es) (simp_all add: Let_def)
qed

lemma sorted_key_unique:
  fixes f :: "'a \<Rightarrow> int"
  assumes "sorted (map f xs)" "distinct (map f xs)" "sorted (map f ys)" "distinct (map f ys)" "set xs = set ys"
  shows "xs = ys"
proof -
  have "map f xs = map f ys" using assms by (intro sorted_distinct_set_unique) simp_all
  moreover have "inj_on f (set xs \<union> set ys)" using assms(2,5) by (simp add: distinct_map)
  ultimately show ?thesis using map_inj_on by blast
qed

lemma last_chained_last:
  assumes "unique_indices s" and "\<forall>e\<in>set (audits s). \<forall>i. ae_chainIndex e = Some i \<longrightarrow> 0 < i"
  shows "last_chained s = (if chain_after s 0 = [] then None else Some (last (chain_after s 0)))"
proof -
  let ?L = "chain_after s 0"
  have mem: "e \<in> set ?L \<longleftrightarrow> e \<in> set (audits s) \<and> ae_chainIndex e \<noteq> None" for e
    using assms(2) by (auto simp: in_chain_after)
  show ?thesis
  proof (cases "last_chained s")
    case None
    then have n: "\<forall>e\<in>set (audits s). ae_chainIndex e = None"
      by (simp add: last_chained_def find_first_by_None_iff)
    have "e \<notin> set ?L" for e
    proof
      assume "e \<in> set ?L"
      with mem [of e] have "e \<in> set (audits s)" "ae_chainIndex e \<noteq> None" by blast+
      with bspec [OF n, of e] show False by simp
    qed
    then have "?L = []" by (metis list.set_intros(1) neq_Nil_conv)
    with None show ?thesis by simp
  next
    case (Some e)
    then have e: "e \<in> set ?L"
      using find_first_by_Some [OF Some [unfolded last_chained_def]] by (intro mem [THEN iffD2])
    then have ne: "?L \<noteq> []" by auto
    let ?l = "last ?L"
    have l: "?l \<in> set ?L" using ne by simp
    have "chain_idx ?l \<le> chain_idx e"
      using find_first_by_least [OF Some [unfolded last_chained_def], of ?l] mem l by simp
    moreover have "chain_idx e \<le> chain_idx ?l"
    proof -
      have "sorted (map chain_idx (butlast ?L @ [?l]))"
        unfolding append_butlast_last_id [OF ne] by (simp add: chain_after_def)
      then have "\<forall>y\<in>set (butlast ?L). chain_idx y \<le> chain_idx ?l" unfolding map_append sorted_append by simp
      moreover have "e \<in> set (butlast ?L @ [?l])" unfolding append_butlast_last_id [OF ne] by (rule e)
      ultimately show ?thesis by auto
    qed
    ultimately have "chain_idx e = chain_idx ?l" by simp
    with key_unique [OF distinct_chain_after [OF assms(1)] e l] Some ne show ?thesis by simp
  qed
qed

lemma settled_events_facts:
  assumes "distinct (map ae_id (audits s))"
  shows "set (settled_events E s) \<subseteq> {e \<in> set (audits s). ae_chainIndex e = None}"
    and "distinct (map ae_id (settled_events E s))"
proof -
  let ?es = "sort_key ae_occurredAt (sort_key ae_id
    (filter (\<lambda>e. ae_chainIndex e = None \<and> ae_occurredAt e < now E - SETTLE_MS) (audits s)))"
  show "set (settled_events E s) \<subseteq> {e \<in> set (audits s). ae_chainIndex e = None}"
    unfolding settled_events_def by (auto dest!: in_set_takeD)
  have "distinct (map ae_id ?es)"
    using distinct_map_filter [OF assms] by (simp add: distinct_map)
  then show "distinct (map ae_id (settled_events E s))"
    unfolding settled_events_def by (simp add: take_map [symmetric])
qed

definition chain_end :: "db \<Rightarrow> int \<times> string" where
  "chain_end s =
     (if chain_after s 0 = [] then (0, GENESIS_HASH)
      else (chain_idx (last (chain_after s 0)), chain_hash_text (last (chain_after s 0))))"

lemma linked_last_hash:
  assumes "linked_from E p xs" and "xs \<noteq> []"
  shows "ae_chainHash (last xs) = Some (chain_hash_text (last xs))"
    and "chain_hash_text (last xs) = auditEventHash E (prev_or_genesis (last xs)) (last xs)"
  using linked_from_nth(1) [OF assms(1), of "length xs - 1"] assms(2)
  by (simp_all add: last_conv_nth chain_hash_text_def)

lemma chainAuditEvents_eq:
  assumes "journal_ok E s"
  shows "fst (chainAuditEvents E s) =
    s\<lparr>audits := fst (chain_loop E (audits s) (fst (chain_end s)) (snd (chain_end s)) (settled_events E s))\<rparr>"
proof -
  have last: "last_chained s = (if chain_after s 0 = [] then None else Some (last (chain_after s 0)))"
    using assms by (intro last_chained_last) (simp_all add: journal_ok_def)
  show ?thesis
  proof (cases "chain_after s 0 = []")
    case True
    with last show ?thesis by (simp add: chainAuditEvents_def Let_def case_prod_beta chain_end_def)
  next
    case False
    then have "last (chain_after s 0) \<in> set (chain_after s 0)" by simp
    then obtain i where "ae_chainIndex (last (chain_after s 0)) = Some i" by (auto simp: in_chain_after)
    with False last linked_last_hash(1) [of E None "chain_after s 0"] assms
    show ?thesis by (simp add: chainAuditEvents_def Let_def case_prod_beta chain_end_def journal_ok_def)
  qed
qed

lemma chain_order:
  assumes "unique_indices s'" and "set xs = set (chain_after s' 0)" and "sorted (map chain_idx xs)"
    and "distinct (map chain_idx xs)"
  shows "chain_after s' 0 = xs"
  using sorted_key_unique [of chain_idx "chain_after s' 0" xs] assms distinct_chain_after [OF assms(1)]
  by (simp add: chain_after_def)

lemma chain_new_chain_idx: "map chain_idx (chain_new E i p es) = map (\<lambda>k. i + 1 + int k) [0..<length es]"
proof (induction es arbitrary: i p)
  case (Cons e es)
  have "map (\<lambda>k. i + 1 + int k) [0..<length (e # es)] =
      (i + 1) # map (\<lambda>k. i + 1 + 1 + int k) [0..<length es]"
    by (simp add: upt_conv_Cons map_Suc_upt [symmetric] comp_def add.assoc del: upt_Suc)
  with Cons.IH show ?case by (simp add: Let_def)
qed simp

lemma chain_after_le_end: "e \<in> set (chain_after s 0) \<Longrightarrow> chain_idx e \<le> fst (chain_end s)"
proof -
  assume e: "e \<in> set (chain_after s 0)"
  let ?L = "chain_after s 0"
  have ne: "?L \<noteq> []" using e by auto
  have "sorted (map chain_idx (butlast ?L @ [last ?L]))"
    unfolding append_butlast_last_id [OF ne] by (simp add: chain_after_def)
  then have "\<forall>y\<in>set (butlast ?L). chain_idx y \<le> chain_idx (last ?L)" unfolding map_append sorted_append by simp
  moreover have "e \<in> set (butlast ?L) \<or> e = last ?L"
    using e append_butlast_last_id [OF ne] by (metis in_set_butlast_appendI rotate1.simps(2) set_ConsD set_rotate1)
  ultimately show ?thesis using ne by (auto simp: chain_end_def)
qed

lemma chain_new_index:
  assumes "e \<in> set (chain_new E i p es)"
  shows "\<exists>k. ae_chainIndex e = Some k \<and> i < k"
proof -
  have "ae_chainIndex e \<in> set (map (\<lambda>k. Some (i + 1 + int k)) [0..<length es])"
    unfolding chain_new_idx [of E i p es, symmetric] using assms by simp
  then show ?thesis by auto
qed

lemma unique_indicesI:
  assumes "distinct (map ae_id (audits s))"
    and "\<And>e f i. e \<in> set (audits s) \<Longrightarrow> f \<in> set (audits s) \<Longrightarrow> ae_chainIndex e = Some i \<Longrightarrow>
      ae_chainIndex f = Some i \<Longrightarrow> e = f"
  shows "unique_indices s"
proof -
  have "distinct (audits s)" using assms(1) distinct_map by blast
  moreover have "inj_on ae_chainIndex (set (filter (\<lambda>e. ae_chainIndex e \<noteq> None) (audits s)))"
    using assms(2) by (intro inj_onI) auto
  ultimately show ?thesis by (simp add: unique_indices_def distinct_map)
qed

lemma chain_after_chainAuditEvents:
  assumes "journal_ok E s"
  defines "s' \<equiv> fst (chainAuditEvents E s)"
    and "new \<equiv> chain_new E (fst (chain_end s)) (snd (chain_end s)) (settled_events E s)"
  shows "unique_indices s'" and "chain_after s' 0 = chain_after s 0 @ new"
    and "set (audits s') = (set (audits s) - set (settled_events E s)) \<union> set new"
    and "map ae_id (audits s') = map ae_id (audits s)"
    and "\<forall>e\<in>set (audits s'). \<forall>i. ae_chainIndex e = Some i \<longrightarrow> 0 < i"
proof -
  let ?L = "chain_after s 0" and ?i = "fst (chain_end s)"
  have ok: "distinct (map ae_id (audits s))" "unique_indices s"
    "\<forall>e\<in>set (audits s). \<forall>i. ae_chainIndex e = Some i \<longrightarrow> 0 < i"
    using assms(1) by (simp_all add: journal_ok_def)
  note settled = settled_events_facts [OF ok(1), of E]
  show set': "set (audits s') = (set (audits s) - set (settled_events E s)) \<union> set new"
    unfolding s'_def new_def chainAuditEvents_eq [OF assms(1)]
    using chain_loop_rows [OF ok(1), of "settled_events E s"] settled by auto
  show ids: "map ae_id (audits s') = map ae_id (audits s)"
    unfolding s'_def chainAuditEvents_eq [OF assms(1)] by (simp add: chain_loop_ids)
  have ni: "sorted (map chain_idx new)" "distinct (map chain_idx new)"
    unfolding new_def chain_new_chain_idx by (simp_all add: sorted_iff_nth_mono distinct_map inj_on_def)
  have origin: "e \<in> set ?L \<and> chain_idx e \<le> ?i \<or> e \<in> set new \<and> ?i < chain_idx e"
    if "e \<in> set (audits s')" "ae_chainIndex e \<noteq> None" for e
  proof (cases "e \<in> set new")
    case True
    with chain_new_index [OF True [unfolded new_def]] show ?thesis by auto
  next
    case False
    with that set' have "e \<in> set (audits s)" by auto
    with ok(3) that(2) have "e \<in> set ?L" by (auto simp: in_chain_after)
    with chain_after_le_end show ?thesis by blast
  qed
  have end0: "0 \<le> ?i"
    using ok(3) last_in_set [of ?L] by (fastforce simp: chain_end_def in_chain_after intro: less_imp_le)
  show pos: "\<forall>e\<in>set (audits s'). \<forall>i. ae_chainIndex e = Some i \<longrightarrow> 0 < i"
  proof (intro ballI allI impI)
    fix e i
    assume "e \<in> set (audits s')" "ae_chainIndex e = Some i"
    with origin [of e] end0 show "0 < i" by (auto simp: in_chain_after)
  qed
  show uniq: "unique_indices s'"
  proof (rule unique_indicesI)
    show "distinct (map ae_id (audits s'))" using ids ok(1) by simp
    fix e f i
    assume ef: "e \<in> set (audits s')" "f \<in> set (audits s')" "ae_chainIndex e = Some i" "ae_chainIndex f = Some i"
    then have "e \<in> set ?L \<and> f \<in> set ?L \<or> e \<in> set new \<and> f \<in> set new"
      using origin [of e] origin [of f] by auto
    then show "e = f"
      using key_unique [OF ni(2), of e f] key_unique [OF distinct_chain_after [OF ok(2), of 0], of e f] ef(3,4) by auto
  qed
  have old: "set ?L \<subseteq> set (audits s')"
  proof
    fix e
    assume "e \<in> set ?L"
    then have "e \<in> set (audits s)" "ae_chainIndex e \<noteq> None" by (auto simp: in_chain_after)
    moreover have "e \<notin> set (settled_events E s)" using subsetD [OF settled(1), of e] calculation(2) by auto
    ultimately show "e \<in> set (audits s')" by (simp add: set')
  qed
  have new0: "\<exists>k. ae_chainIndex e = Some k \<and> 0 < k" if "e \<in> set new" for e
    using chain_new_index [OF that [unfolded new_def]] end0 by (auto intro: le_less_trans)
  show "chain_after s' 0 = ?L @ new"
  proof (rule chain_order [OF uniq])
    show "set (?L @ new) = set (chain_after s' 0)"
    proof
      show "set (?L @ new) \<subseteq> set (chain_after s' 0)"
        using old new0 set' by (auto simp: in_chain_after)
      show "set (chain_after s' 0) \<subseteq> set (?L @ new)"
      proof
        fix e
        assume "e \<in> set (chain_after s' 0)"
        with origin [of e] show "e \<in> set (?L @ new)" by (auto simp: in_chain_after [of _ s'])
      qed
    qed
    have cross: "chain_idx x < chain_idx y" if "x \<in> set ?L" "y \<in> set new" for x y
      using chain_after_le_end [OF that(1)] chain_new_index [OF that(2) [unfolded new_def]] by auto
    show "sorted (map chain_idx (?L @ new))"
      using ni(1) cross by (fastforce simp: sorted_append chain_after_def)
    show "distinct (map chain_idx (?L @ new))"
      using ni(2) distinct_chain_after [OF ok(2), of 0] cross by (fastforce simp: disjoint_iff)
  qed
qed

lemma chain_end_nonempty:
  assumes "journal_ok E s" and "\<And>x. sha256 E x \<noteq> []"
  shows "snd (chain_end s) \<noteq> []"
  using assms linked_last_hash(2) [of E None "chain_after s 0"]
  by (auto simp: chain_end_def journal_ok_def GENESIS_HASH_def auditEventHash_def)

lemma journal_ok_chain:
  assumes "journal_ok E s" and "\<And>x. sha256 E x \<noteq> []"
  shows "journal_ok E (fst (chainAuditEvents E s))"
proof -
  note c = chain_after_chainAuditEvents [OF assms(1)]
  note new = linked_chain_new [OF chain_end_nonempty [OF assms] assms(2), of "fst (chain_end s)" "settled_events E s"]
  have "linked_from E None (chain_after (fst (chainAuditEvents E s)) 0)"
    unfolding c(2) linked_from_append using new assms(1) by (auto simp: journal_ok_def chain_end_def)
  moreover have "distinct (map ae_id (audits (fst (chainAuditEvents E s))))"
    using c(4) assms(1) by (simp add: journal_ok_def)
  ultimately show ?thesis using c(1,5) by (simp add: journal_ok_def)
qed

lemma chain_end_same:
  assumes "chain_after s' 0 = chain_after s 0"
  shows "chain_end s' = chain_end s"
  by (simp add: chain_end_def assms)

text \<open>Chaining is append-only. A run extends a sound journal by the settled events and nothing else:
  the events that were chained keep their place and their digests, each newly chained event keeps its
  content and gets the next index, and no event is added or lost.\<close>

theorem chainAuditEvents_append_only:
  assumes "journal_ok E s" and "\<And>x. sha256 E x \<noteq> []"
  shows "journal_ok E (fst (chainAuditEvents E s)) \<and>
    (\<exists>new. chain_after (fst (chainAuditEvents E s)) 0 = chain_after s 0 @ new \<and>
       map ae_id new = map ae_id (settled_events E s) \<and>
       map ae_chainIndex new = map (\<lambda>k. Some (fst (chain_end s) + 1 + int k)) [0..<length new]) \<and>
    map ae_id (audits (fst (chainAuditEvents E s))) = map ae_id (audits s)"
proof -
  note c = chain_after_chainAuditEvents [OF assms(1)]
  let ?new = "chain_new E (fst (chain_end s)) (snd (chain_end s)) (settled_events E s)"
  have "length ?new = length (settled_events E s)" by (metis chain_new_ids length_map)
  then show ?thesis
    using journal_ok_chain [OF assms] c(2,4) chain_new_ids chain_new_idx
    by (intro conjI exI [of _ ?new]) simp_all
qed

text \<open>A digest of 64 characters for the examples; it has collisions, like every digest.\<close>

definition sample_digest :: "string \<Rightarrow> string" where
  "sample_digest t = take 64 (rev t @ replicate 64 CHR ''0'')"

definition chain_env :: env where
  "chain_env = sample_env\<lparr>now := 10000000, sha256 := sample_digest\<rparr>"

definition journal_db :: db where
  "journal_db = empty_db\<lparr>audits := [denied_event, denied_event\<lparr>ae_id := ''e2'', ae_action := ''document.edit''\<rparr>]\<rparr>"

definition chained_db :: db where
  "chained_db = fst (chainAuditEvents chain_env journal_db)"

lemma journal_db_ok: "journal_ok chain_env journal_db"
  by (simp add: journal_ok_def unique_indices_def journal_db_def denied_event_def chain_after_def)

lemma chain_digest: "length (sha256 chain_env x) = 64" "sha256 chain_env x \<noteq> []"
  by (simp_all add: chain_env_def sample_digest_def)

theorem chainAuditEvents_append_only_witness:
  "journal_ok chain_env chained_db \<and> map ae_id (audits chained_db) = [''e'', ''e2'']"
  using chainAuditEvents_append_only [OF journal_db_ok chain_digest(2)]
  by (simp add: chained_db_def) (simp add: journal_db_def denied_event_def)

theorem journal_tamper_evident_witness:
  "cr_valid (verifyAuditChain chain_env chained_db) \<and>
   (\<exists>g h. event_at chained_db 2 = Some g \<and> event_at chained_db 2 = Some h \<and> same_content g h)"
proof -
  have ok: "journal_ok chain_env chained_db"
    unfolding chained_db_def by (rule journal_ok_chain [OF journal_db_ok chain_digest(2)])
  then have c: "unique_indices chained_db" and l: "linked_from chain_env None (chain_after chained_db 0)"
    by (simp_all add: journal_ok_def)
  have "recent_seals chained_db = []" "map chain_idx (chain_after chained_db 0) = [1, 2]" by code_simp+
  with l have v: "cr_valid (verifyAuditChain chain_env chained_db)"
    "cr_firstIndex (verifyAuditChain chain_env chained_db) = Some 1"
    by (auto simp: verifyAuditChain_simps [OF c])
  have "event_at chained_db 2 \<noteq> None" by code_simp
  then obtain e where e: "event_at chained_db 2 = Some e" by blast
  from journal_tamper_evident [OF c c v(1) v(1) chain_digest(1) v(2) v(2) e e refl, of 2] v(1) show ?thesis
    by (auto simp: collision_at_def)
qed

end
