(* ===== verification/Audit_Journal.thy ===== *)
theory Audit_Journal
  imports Audit_Chain
begin

text \<open>
  The journal over time: auditing, chaining, sealing, time stamping and retention, in any order, keep a
  journal that the verification of \<^verbatim>\<open>apps/api/src/audit-chain.ts\<close> accepts; what happens when
  retention removes the whole chain.
\<close>

section \<open>Seals match the chain\<close>

definition seals_match :: "db \<Rightarrow> bool" where
  "seals_match s \<longleftrightarrow>
     (\<forall>x\<in>set (seals s). au_lastChainIndex x \<le> fst (chain_end s) \<and>
        (\<forall>e\<in>set (audits s). ae_chainIndex e = Some (au_lastChainIndex x) \<longrightarrow>
           ae_chainHash e = Some (au_chainHash x)))"

lemma auditEventHash_cong: "sha256 E' = sha256 E \<Longrightarrow> auditEventHash E' = auditEventHash E"
  by (intro ext) (simp add: auditEventHash_def)

lemma linked_from_cong:
  assumes "sha256 E' = sha256 E"
  shows "linked_from E' p xs = linked_from E p xs"
  by (induction xs arbitrary: p) (simp_all only: linked_from.simps auditEventHash_cong [OF assms])

lemma journal_ok_cong: "sha256 E' = sha256 E \<Longrightarrow> journal_ok E' s = journal_ok E s"
  unfolding journal_ok_def by (simp only: linked_from_cong [of E' E])

lemma journal_ok_same:
  "journal_ok E s \<Longrightarrow> audits s' = audits s \<Longrightarrow> journal_ok E s'"
  by (simp add: journal_ok_def unique_indices_def chain_after_def)

lemma chain_after_append_unchained:
  assumes "audits s' = audits s @ [e]" and "ae_chainIndex e = None"
  shows "chain_after s' c = chain_after s c" and "unique_indices s' = unique_indices s"
  using assms by (simp_all add: chain_after_def unique_indices_def)

lemma journal_ok_audit:
  assumes "journal_ok E s" and "audits s' = audits s @ [e]" and "ae_chainIndex e = None"
    and "ae_id e \<notin> ae_id ` set (audits s)"
  shows "journal_ok E s'"
  using assms chain_after_append_unchained [OF assms(2,3)] by (auto simp: journal_ok_def)

lemma seals_match_audit:
  assumes "seals_match s" and "audits s' = audits s @ [e]" and "ae_chainIndex e = None" and "seals s' = seals s"
  shows "seals_match s'"
  using assms chain_end_same [of s' s] chain_after_append_unchained [OF assms(2,3)]
  by (auto simp: seals_match_def)

lemma seals_match_chain:
  assumes "journal_ok E s" and "seals_match s"
  shows "seals_match (fst (chainAuditEvents E s))"
proof -
  let ?s = "fst (chainAuditEvents E s)"
  let ?new = "chain_new E (fst (chain_end s)) (snd (chain_end s)) (settled_events E s)"
  note c = chain_after_chainAuditEvents [OF assms(1)]
  have seals: "seals ?s = seals s" by (simp add: chainAuditEvents_eq [OF assms(1)])
  have mono: "fst (chain_end s) \<le> fst (chain_end ?s)"
  proof (cases "?new = []")
    case True
    then show ?thesis using c(2) chain_end_same [of ?s s] by simp
  next
    case n: False
    then have "last ?new \<in> set ?new" by simp
    from chain_new_index [OF this] n c(2) show ?thesis by (auto simp: chain_end_def [of ?s])
  qed
  show ?thesis
    unfolding seals_match_def seals
  proof (intro ballI conjI impI)
    fix x
    assume x: "x \<in> set (seals s)"
    then have le: "au_lastChainIndex x \<le> fst (chain_end s)" using assms(2) by (simp add: seals_match_def)
    with mono show "au_lastChainIndex x \<le> fst (chain_end ?s)" by simp
    fix e
    assume e: "e \<in> set (audits ?s)" "ae_chainIndex e = Some (au_lastChainIndex x)"
    have "e \<notin> set ?new"
    proof
      assume "e \<in> set ?new"
      from chain_new_index [OF this] e(2) le show False by auto
    qed
    with e(1) c(3) have "e \<in> set (audits s)" by simp
    with assms(2) x e(2) show "ae_chainHash e = Some (au_chainHash x)" by (simp add: seals_match_def)
  qed
qed

lemma sealAuditChain_cases:
  assumes "journal_ok E s"
  obtains "sealAuditChain E' s c = (s, None)"
  | x where "sealAuditChain E' s c = (s\<lparr>seals := seals s @ [x], uuid_next := Suc (uuid_next s)\<rparr>, Some x)"
      "au_lastChainIndex x = fst (chain_end s)" "au_chainHash x = snd (chain_end s)"
      "chain_after s 0 \<noteq> []" "au_createdAt x = now E'"
      "\<forall>l. last_seal s = Some l \<longrightarrow> au_lastChainIndex l < au_lastChainIndex x \<and>
         au_eventCount x = au_lastChainIndex x - au_lastChainIndex l \<and> au_createdAt l + 300000 \<le> now E'"
proof -
  have last: "last_chained s = (if chain_after s 0 = [] then None else Some (last (chain_after s 0)))"
    using assms by (intro last_chained_last) (simp_all add: journal_ok_def)
  show thesis
  proof (cases "snd (sealAuditChain E' s c)")
    case None
    then have "sealAuditChain E' s c = (s, None)"
      by (auto simp: sealAuditChain_def Let_def split: option.splits if_splits)
    with that(1) show thesis .
  next
    case (Some x)
    then have ne: "chain_after s 0 \<noteq> []" using last by (auto simp: sealAuditChain_def Let_def)
    have "last (chain_after s 0) \<in> set (chain_after s 0)" using ne by simp
    then obtain i where i: "ae_chainIndex (last (chain_after s 0)) = Some i" by (auto simp: in_chain_after)
    have h: "ae_chainHash (last (chain_after s 0)) = Some (snd (chain_end s))"
      using linked_last_hash(1) [of E None "chain_after s 0"] assms ne by (simp add: journal_ok_def chain_end_def)
    have fst: "fst (chain_end s) = i" using ne i by (simp add: chain_end_def)
    let ?seal = "\<lparr>au_id = uuid E' (uuid_next s), au_lastChainIndex = i, au_chainHash = snd (chain_end s),
      au_eventCount = i - (case last_seal s of None \<Rightarrow> 0 | Some x \<Rightarrow> au_lastChainIndex x),
      au_token = None, au_genTime = None, au_tsaUrl = None, au_createdAt = now E'\<rparr>"
    have eq: "sealAuditChain E' s c =
       (if i = 0 \<or> snd (chain_end s) = [] then (s, None)
        else if some_and (\<lambda>x. i \<le> au_lastChainIndex x) (last_seal s) then (s, None)
        else if some_and (\<lambda>x. now E' - au_createdAt x < max 5 c * 60000) (last_seal s) then (s, None)
        else (s\<lparr>seals := seals s @ [?seal], uuid_next := Suc (uuid_next s)\<rparr>, Some ?seal))"
      using last ne i h by (simp add: sealAuditChain_def Let_def)
    have n: "\<not> some_and (\<lambda>x. i \<le> au_lastChainIndex x) (last_seal s)"
      "\<not> some_and (\<lambda>x. now E' - au_createdAt x < max 5 c * 60000) (last_seal s)"
      "sealAuditChain E' s c = (s\<lparr>seals := seals s @ [?seal], uuid_next := Suc (uuid_next s)\<rparr>, Some ?seal)"
      using Some unfolding eq by (auto split: if_splits)
    show thesis
    proof (rule that(2) [OF n(3)])
      show "\<forall>l. last_seal s = Some l \<longrightarrow> au_lastChainIndex l < au_lastChainIndex ?seal \<and>
          au_eventCount ?seal = au_lastChainIndex ?seal - au_lastChainIndex l \<and> au_createdAt l + 300000 \<le> now E'"
        using n(1,2) by auto
    qed (use fst ne in simp_all)
  qed
qed

lemma event_at_end:
  assumes "journal_ok E s" and "chain_after s 0 \<noteq> []" and "e \<in> set (audits s)"
    and "ae_chainIndex e = Some (fst (chain_end s))"
  shows "ae_chainHash e = Some (snd (chain_end s))"
proof -
  let ?l = "last (chain_after s 0)"
  have "?l \<in> set (chain_after s 0)" using assms(2) by simp
  then have "?l \<in> set (audits s)" "ae_chainIndex ?l = Some (fst (chain_end s))"
    using assms(2) by (auto simp: in_chain_after chain_end_def)
  with assms(3,4) have "e = ?l" using unique_indices_eq assms(1) by (auto simp: journal_ok_def)
  then show ?thesis
    using linked_last_hash(1) [of E None "chain_after s 0"] assms(1,2) by (simp add: journal_ok_def chain_end_def)
qed

lemma seals_match_seal:
  assumes "journal_ok E s" and "seals_match s"
  shows "seals_match (fst (sealAuditChain E' s c))" and "audits (fst (sealAuditChain E' s c)) = audits s"
proof -
  have "seals_match (fst (sealAuditChain E' s c)) \<and> audits (fst (sealAuditChain E' s c)) = audits s"
  proof (cases rule: sealAuditChain_cases [OF assms(1), of E' c])
    case 1
    with assms(2) show ?thesis by simp
  next
    case (2 x)
    let ?s = "fst (sealAuditChain E' s c)"
    have same: "audits ?s = audits s" "seals ?s = seals s @ [x]" using 2(1) by simp_all
    then have "chain_end ?s = chain_end s" by (intro chain_end_same) (simp add: chain_after_def)
    with same assms(2) 2(2,3) event_at_end [OF assms(1) 2(4)] show ?thesis
      unfolding seals_match_def by auto
  qed
  then show "seals_match (fst (sealAuditChain E' s c))" "audits (fst (sealAuditChain E' s c)) = audits s" by simp_all
qed

lemma stamp_loop_frame:
  "audits (fst (stamp_loop stamp s xs n)) = audits s \<and>
   map (\<lambda>x. (au_lastChainIndex x, au_chainHash x)) (seals (fst (stamp_loop stamp s xs n))) =
     map (\<lambda>x. (au_lastChainIndex x, au_chainHash x)) (seals s)"
proof (induction xs arbitrary: s n)
  case (Cons x xs)
  show ?case
    using Cons.IH by (cases "stamp (au_chainHash x)") (auto simp: map_update_rows)
qed simp

lemma seals_match_stamp:
  assumes "seals_match s"
  shows "seals_match (fst (timestampAuditSeals E s config))"
    and "audits (fst (timestampAuditSeals E s config)) = audits s"
proof -
  let ?s = "fst (timestampAuditSeals E s config)"
  have f: "audits ?s = audits s" "map (\<lambda>x. (au_lastChainIndex x, au_chainHash x)) (seals ?s) =
      map (\<lambda>x. (au_lastChainIndex x, au_chainHash x)) (seals s)"
    using stamp_loop_frame by (simp_all add: timestampAuditSeals_def split: option.splits)
  then show "audits ?s = audits s" by simp
  have "chain_end ?s = chain_end s" using f(1) by (intro chain_end_same) (simp add: chain_after_def)
  moreover have "\<exists>y\<in>set (seals s). au_lastChainIndex x = au_lastChainIndex y \<and> au_chainHash x = au_chainHash y"
    if "x \<in> set (seals ?s)" for x
  proof -
    have "(au_lastChainIndex x, au_chainHash x) \<in> set (map (\<lambda>x. (au_lastChainIndex x, au_chainHash x)) (seals s))"
      unfolding f(2) [symmetric] using that by simp
    then show ?thesis by auto
  qed
  ultimately show "seals_match ?s"
    using assms f(1) unfolding seals_match_def by (metis (no_types, lifting))
qed

section \<open>Retention\<close>

text \<open>Chained events are in chronological order, without ties.\<close>

definition chronological :: "db \<Rightarrow> bool" where
  "chronological s \<longleftrightarrow>
     (\<forall>e\<in>set (audits s). \<forall>f\<in>set (audits s). \<forall>i j. ae_chainIndex e = Some i \<longrightarrow> ae_chainIndex f = Some j \<longrightarrow>
        i < j \<longrightarrow> ae_occurredAt e < ae_occurredAt f)"

lemma maintainHistory_audits:
  assumes "distinct (map ae_id (audits s))"
  obtains old where "audits (maintainHistory E s days) = filter (\<lambda>e. e \<notin> set old) (audits s)"
    and "set old \<subseteq> set (audits s)"
    and "\<forall>e\<in>set old. \<forall>f\<in>set (audits s). f \<notin> set old \<longrightarrow> ae_occurredAt e \<le> ae_occurredAt f"
proof -
  let ?p = "\<lambda>e. ae_occurredAt e < now E - days * day_ms"
  define old where "old = (if 0 < days then find_many ae_occurredAt 1000 ?p (audits s) else [])"
  have sub: "set old \<subseteq> {e \<in> set (audits s). ?p e}"
    using set_find_many [of ae_occurredAt 1000 ?p "audits s"] by (auto simp: old_def)
  have au: "audits (maintainHistory E s days) = delete_rows (\<lambda>e. ae_id e \<in> ae_id ` set old) (audits s)"
    by (cases "old = []") (simp_all add: maintainHistory_def Let_def delete_rows_def flip: old_def)
  have "ae_id e \<in> ae_id ` set old \<longleftrightarrow> e \<in> set old" if "e \<in> set (audits s)" for e
  proof
    assume "ae_id e \<in> ae_id ` set old"
    then obtain f where "f \<in> set old" "ae_id e = ae_id f" by auto
    with key_unique [OF assms that, of f] sub show "e \<in> set old" by auto
  qed simp
  then have "audits (maintainHistory E s days) = filter (\<lambda>e. e \<notin> set old) (audits s)"
    unfolding au delete_rows_def by (auto intro: filter_cong)
  moreover have "ae_occurredAt e \<le> ae_occurredAt f"
    if "e \<in> set old" "f \<in> set (audits s)" "f \<notin> set old" for e f
  proof (cases "?p f")
    case True
    have "old = find_many ae_occurredAt 1000 ?p (audits s)" using that(1) by (auto simp: old_def split: if_splits)
    with True that show ?thesis
      by (intro old_events_prefix [of old 1000 ?p "audits s"]) auto
  next
    case False
    moreover have "?p e" using sub that(1) by blast
    ultimately show ?thesis by simp
  qed
  ultimately show thesis using sub that [of old] by blast
qed

lemma filter_upward_closed:
  "sorted_wrt (\<lambda>x y. P x \<longrightarrow> P y) xs \<Longrightarrow> filter P xs = dropWhile (\<lambda>x. \<not> P x) xs"
  by (induction xs) (auto intro: filter_True)

lemma linked_from_suffix: "linked_from E p (xs @ ys) \<Longrightarrow> linked_from E None ys"
  by (cases ys) (auto simp: linked_from_append)

lemma retention_keeps_suffix:
  assumes "journal_ok E s" and "chronological s"
  obtains pre where "chain_after s 0 = pre @ chain_after (maintainHistory E' s days) 0"
proof -
  have ids: "distinct (map ae_id (audits s))" using assms(1) by (simp add: journal_ok_def)
  obtain old where au: "audits (maintainHistory E' s days) = filter (\<lambda>e. e \<notin> set old) (audits s)"
    and sub: "set old \<subseteq> set (audits s)"
    and order: "\<forall>e\<in>set old. \<forall>f\<in>set (audits s). f \<notin> set old \<longrightarrow> ae_occurredAt e \<le> ae_occurredAt f"
    by (rule maintainHistory_audits [OF ids, of E' days])
  let ?L = "chain_after s 0"
  have "chain_after (maintainHistory E' s days) 0 = filter (\<lambda>e. e \<notin> set old) ?L"
    by (simp add: chain_after_def au filter_sort conj_commute)
  moreover have "sorted_wrt (\<lambda>x y. x \<notin> set old \<longrightarrow> y \<notin> set old) ?L"
  proof -
    have "sorted_wrt (<) (map chain_idx ?L)"
      using distinct_chain_after [of s 0] assms(1) by (simp add: strict_sorted_iff journal_ok_def chain_after_def)
    then have "sorted_wrt (\<lambda>x y. chain_idx x < chain_idx y) ?L" by (simp add: sorted_wrt_map)
    then show ?thesis
    proof (rule sorted_wrt_mono_rel [rotated], intro impI notI)
      fix x y
      assume x: "x \<in> set ?L" "x \<notin> set old" and y: "y \<in> set ?L" "y \<in> set old" and lt: "chain_idx x < chain_idx y"
      then have "ae_occurredAt x < ae_occurredAt y"
        using assms(2) unfolding chronological_def by (auto simp: in_chain_after)
      moreover have "x \<in> set (audits s)" using x(1) by (simp add: in_chain_after)
      ultimately show False using order x(2) y(2) by (meson not_less)
    qed
  qed
  ultimately have "chain_after (maintainHistory E' s days) 0 = dropWhile (\<lambda>x. \<not> x \<notin> set old) ?L"
    by (simp only: filter_upward_closed)
  then have "?L = takeWhile (\<lambda>x. \<not> x \<notin> set old) ?L @ chain_after (maintainHistory E' s days) 0"
    by (simp only: takeWhile_dropWhile_id)
  then show thesis by (rule that)
qed

lemma maintainHistory_seals [simp]: "seals (maintainHistory E s days) = seals s"
  by (simp add: maintainHistory_def Let_def)

lemma retention_keeps_journal:
  assumes "journal_ok E s" and "chronological s" and "seals_match s"
    and "chain_after s 0 \<noteq> [] \<Longrightarrow> chain_after (maintainHistory E' s days) 0 \<noteq> []"
  shows "journal_ok E (maintainHistory E' s days)" and "seals_match (maintainHistory E' s days)"
proof -
  let ?s = "maintainHistory E' s days"
  obtain pre where pre: "chain_after s 0 = pre @ chain_after ?s 0" by (rule retention_keeps_suffix [OF assms(1,2)])
  have ids: "distinct (map ae_id (audits s))" using assms(1) by (simp add: journal_ok_def)
  obtain old where au: "audits ?s = filter (\<lambda>e. e \<notin> set old) (audits s)" and "set old \<subseteq> set (audits s)"
    and "\<forall>e\<in>set old. \<forall>f\<in>set (audits s). f \<notin> set old \<longrightarrow> ae_occurredAt e \<le> ae_occurredAt f"
    by (rule maintainHistory_audits [OF ids, of E' days])
  have "linked_from E None (pre @ chain_after ?s 0)" using assms(1) pre by (simp add: journal_ok_def)
  then have "linked_from E None (chain_after ?s 0)" by (rule linked_from_suffix)
  moreover have d: "distinct (map ae_id (audits ?s))" using distinct_map_filter [OF ids] by (simp add: au)
  moreover have "unique_indices ?s"
    using unique_indices_eq [of s] assms(1) by (intro unique_indicesI [OF d]) (simp add: au journal_ok_def)
  ultimately show "journal_ok E ?s" using assms(1) by (auto simp: journal_ok_def au)
  have "chain_end ?s = chain_end s"
    using assms(4) pre by (cases "chain_after s 0 = []") (simp_all add: chain_end_def)
  then show "seals_match ?s" using assms(3) by (auto simp: seals_match_def au)
qed

section \<open>A journal that only the portal writes always verifies\<close>

text \<open>The writers of the journal and of its seals. Retention is admitted on a chain whose times are strictly
  increasing and if it does not empty the chain.\<close>

inductive journal_reachable :: "(string \<Rightarrow> string) \<Rightarrow> db \<Rightarrow> bool" for H where
  start: "audits s = [] \<Longrightarrow> seals s = [] \<Longrightarrow> journal_reachable H s"
| audit: "journal_reachable H s \<Longrightarrow> uuid E (uuid_next s) \<notin> ae_id ` set (audits s) \<Longrightarrow>
    journal_reachable H (record_audit E s req a r res d)"
| chain: "journal_reachable H s \<Longrightarrow> sha256 E = H \<Longrightarrow> journal_reachable H (fst (chainAuditEvents E s))"
| seal: "journal_reachable H s \<Longrightarrow> journal_reachable H (fst (sealAuditChain E s c))"
| stamp: "journal_reachable H s \<Longrightarrow> journal_reachable H (fst (timestampAuditSeals E s config))"
| retain: "journal_reachable H s \<Longrightarrow> chronological s \<Longrightarrow>
    (chain_after s 0 \<noteq> [] \<Longrightarrow> chain_after (maintainHistory E s days) 0 \<noteq> []) \<Longrightarrow>
    journal_reachable H (maintainHistory E s days)"
| other: "journal_reachable H s \<Longrightarrow> audits s' = audits s \<Longrightarrow> seals s' = seals s \<Longrightarrow> journal_reachable H s'"

lemma journal_invariant:
  assumes "journal_reachable H s" and "\<And>x. H x \<noteq> []" and "sha256 E = H"
  shows "journal_ok E s \<and> seals_match s"
  using assms(1)
proof (induction rule: journal_reachable.induct)
  case (start s)
  then show ?case by (simp add: journal_ok_def seals_match_def unique_indices_def chain_after_def)
next
  case (audit s E' req a r res d)
  have "ae_chainIndex (audit_event E' s req a r res d) = None" by (simp add: audit_event_def)
  then show ?case
    using audit journal_ok_audit [of E s "record_audit E' s req a r res d"]
      seals_match_audit [of s "record_audit E' s req a r res d"] by simp
next
  case (chain s E')
  have eq: "sha256 E' = sha256 E" using chain(2) assms(3) by simp
  then have ok: "journal_ok E' s" using chain.IH journal_ok_cong [of E' E] by simp
  have "\<And>x. sha256 E' x \<noteq> []" using chain(2) assms(2) by simp
  from journal_ok_chain [OF ok this] have "journal_ok E (fst (chainAuditEvents E' s))"
    using journal_ok_cong [OF eq] by simp
  with seals_match_chain [OF ok] chain.IH show ?case by simp
next
  case (seal s E' c)
  with seals_match_seal [of E s E' c] journal_ok_same show ?case by blast
next
  case (stamp s E' config)
  with seals_match_stamp [of s E' config] journal_ok_same show ?case by blast
next
  case (retain s E' days)
  with retention_keeps_journal [of E s E' days] show ?case by blast
next
  case (other s s')
  then have "chain_end s' = chain_end s" by (intro chain_end_same) (simp add: chain_after_def)
  with other journal_ok_same show ?case by (auto simp: seals_match_def)
qed

text \<open>C6: the verification raises no false alarm as long as retention is careful. In every journal that the portal itself
  has written, by auditing, chaining, sealing, time stamping and retention, the verification of the chain and of all
  seals succeeds, provided that whenever retention ran the times of the chained events were strictly increasing
  along the chain and a chain that was not empty kept at least one event. Without the second condition it fails:
  see \<open>chain_restart_contradicts_seals\<close> below.\<close>

theorem journal_always_verifies:
  assumes "journal_reachable (sha256 E) s" and "\<And>x. sha256 E x \<noteq> []"
  shows "cr_valid (verifyAuditChain E s)"
proof -
  have ok: "journal_ok E s" "seals_match s" using journal_invariant [OF assms refl] by simp_all
  have "\<not> seal_mismatched s x" if "x \<in> set (recent_seals s)" for x
  proof -
    have "x \<in> set (seals s)"
      using that set_find_many [of "\<lambda>x. - au_createdAt x" 500 "\<lambda>x. True" "seals s"] by (auto simp: recent_seals_def)
    with ok(2) have hash: "e \<in> set (audits s) \<Longrightarrow> ae_chainIndex e = Some (au_lastChainIndex x) \<Longrightarrow>
        ae_chainHash e = Some (au_chainHash x)" for e by (simp add: seals_match_def)
    show ?thesis
    proof (cases "event_at s (au_lastChainIndex x)")
      case (Some e)
      with hash [of e] event_at_Some [OF Some] show ?thesis by (simp add: seal_mismatched_def)
    qed (simp add: seal_mismatched_def)
  qed
  with ok(1) show ?thesis using verifyAuditChain_simps(1) [of s E] by (simp add: journal_ok_def)
qed

theorem journal_always_verifies_witness:
  "let s1 = record_audit chain_env empty_db (sample_request ''u'' []) ''document.read'' ''r'' Success None;
       E2 = chain_env\<lparr>now := 20000000\<rparr>;
       s2 = fst (chainAuditEvents E2 s1);
       s3 = fst (sealAuditChain E2 s2 60)
   in cr_valid (verifyAuditChain chain_env s3)"
proof -
  define s1 where "s1 = record_audit chain_env empty_db (sample_request ''u'' []) ''document.read'' ''r'' Success None"
  define E2 where "E2 = chain_env\<lparr>now := 20000000\<rparr>"
  have "journal_reachable (sha256 chain_env) empty_db" by (rule journal_reachable.start) (simp_all add: empty_db_def)
  then have "journal_reachable (sha256 chain_env) s1"
    unfolding s1_def by (rule journal_reachable.audit) (simp add: empty_db_def)
  then have "journal_reachable (sha256 chain_env) (fst (sealAuditChain E2 (fst (chainAuditEvents E2 s1)) 60))"
    by (intro journal_reachable.seal journal_reachable.chain) (simp_all add: E2_def)
  from journal_always_verifies [OF this chain_digest(2)] show ?thesis
    by (simp add: Let_def s1_def E2_def)
qed

section \<open>When retention empties the chain\<close>

text \<open>The chain restarts under old seals. When no chained event is left but seals are kept, chaining
  starts again at index one from the genesis digest. As soon as the new chain reaches the index of a
  recent seal, the verification succeeds only if the new event there happens to have the digest of the
  deleted one: a journal nobody has tampered with is reported as broken.\<close>

theorem chain_restart_contradicts_seals:
  assumes "journal_ok E s" and "chain_after s 0 = []" and "x \<in> set (recent_seals s)"
    and "1 \<le> au_lastChainIndex x" and "au_lastChainIndex x \<le> int (length (settled_events E s))"
  shows "\<exists>e. event_at (fst (chainAuditEvents E s)) (au_lastChainIndex x) = Some e \<and>
    ae_id e = ae_id (settled_events E s ! nat (au_lastChainIndex x - 1)) \<and>
    (cr_valid (verifyAuditChain E (fst (chainAuditEvents E s))) \<longrightarrow> ae_chainHash e = Some (au_chainHash x))"
proof -
  let ?s = "fst (chainAuditEvents E s)" and ?k = "nat (au_lastChainIndex x - 1)"
  let ?new = "chain_new E 0 GENESIS_HASH (settled_events E s)"
  note c = chain_after_chainAuditEvents [OF assms(1)]
  have new: "chain_after ?s 0 = ?new" using c(2) assms(2) by (simp add: chain_end_def)
  have len: "length ?new = length (settled_events E s)" by (metis chain_new_ids length_map)
  have k: "?k < length ?new" using assms(4,5) len by simp
  have "?new ! ?k \<in> set (chain_after ?s 0)" using new k by simp
  then have mem: "?new ! ?k \<in> set (audits ?s)" by (simp add: in_chain_after)
  have "map ae_chainIndex ?new ! ?k = Some (au_lastChainIndex x)"
    unfolding chain_new_idx using k len assms(4) by simp
  then have idx: "ae_chainIndex (?new ! ?k) = Some (au_lastChainIndex x)" using k by simp
  have at: "event_at ?s (au_lastChainIndex x) = Some (?new ! ?k)" by (rule event_at_unique [OF c(1) mem idx])
  have "map ae_id ?new ! ?k = map ae_id (settled_events E s) ! ?k" by simp
  then have "ae_id (?new ! ?k) = ae_id (settled_events E s ! ?k)" using k len by (metis nth_map)
  moreover have "recent_seals ?s = recent_seals s"
    by (simp add: recent_seals_def chainAuditEvents_eq [OF assms(1)])
  ultimately show ?thesis
    using at assms(3) verifyAuditChain_simps(1) [OF c(1)]
    by (intro exI [of _ "?new ! ?k"]) (auto simp: seal_mismatched_def)
qed

definition restarted_db :: db where
  "restarted_db = journal_db\<lparr>seals := [\<lparr>au_id = ''s'', au_lastChainIndex = 2, au_chainHash = ''old'', au_eventCount = 2,
     au_token = None, au_genTime = None, au_tsaUrl = None, au_createdAt = 5\<rparr>]\<rparr>"

theorem chain_restart_contradicts_seals_witness:
  "\<not> cr_valid (verifyAuditChain chain_env (fst (chainAuditEvents chain_env restarted_db)))"
proof -
  let ?x = "hd (seals restarted_db)" and ?s = "fst (chainAuditEvents chain_env restarted_db)"
  have ok: "journal_ok chain_env restarted_db"
    using journal_ok_same [OF journal_db_ok] by (simp add: restarted_db_def)
  have e: "chain_after restarted_db 0 = []"
    by (simp add: chain_after_def restarted_db_def journal_db_def denied_event_def)
  have x: "?x \<in> set (recent_seals restarted_db)" "au_lastChainIndex ?x = 2" "au_chainHash ?x = ''old''"
    by (simp_all add: recent_seals_def restarted_db_def find_many_def)
  have "length (settled_events chain_env restarted_db) = 2" by code_simp
  then obtain e where at: "event_at ?s 2 = Some e"
    and v: "cr_valid (verifyAuditChain chain_env ?s) \<longrightarrow> ae_chainHash e = Some ''old''"
    using chain_restart_contradicts_seals [OF ok e x(1)] x(2,3) by auto
  have "linked_from chain_env None (chain_after ?s 0)"
    using journal_ok_chain [OF ok chain_digest(2)] by (simp add: journal_ok_def)
  moreover have "e \<in> set (chain_after ?s 0)" using event_at_Some [OF at] by (auto simp: in_chain_after)
  ultimately obtain y where "ae_chainHash e = Some (auditEventHash chain_env y e)"
    using linked_from_nth(1) by (metis in_set_conv_nth)
  then have "length (the (ae_chainHash e)) = 64" by (simp add: auditEventHash_def chain_digest(1))
  with v show ?thesis by auto
qed

end
