(* ===== verification/Mail.thy ===== *)
theory Mail
  imports Audit_Event
begin

text \<open>
  Outgoing mail: links to the portal and the HTML body of a notification
  (\<^verbatim>\<open>apps/api/src/notification-email.ts\<close>), delivery to explicit recipients over Microsoft Graph and
  over the first configured channel (\<^verbatim>\<open>alert-delivery.service.ts\<close>, \<open>sendPreferredTo\<close>,
  \<open>sendPreferred\<close>). The network calls and the directory are the record \<open>mailer\<close>: whether Graph takes a
  message for the recipients, whether a channel takes a message, and the addresses that the directory
  gives for identities (nothing when the search raises).
\<close>

section \<open>Text\<close>

definition escape_char :: "char \<Rightarrow> string" where
  "escape_char c =
     (if c = CHR ''&'' then ''&amp;''
      else if c = CHR ''<'' then ''&lt;''
      else if c = CHR ''>'' then ''&gt;''
      else if c = CHR 0x22 then ''&quot;''
      else if c = CHR 0x27 then ''&#39;''
      else [c])"

definition escapeHtml :: "string \<Rightarrow> string" where
  "escapeHtml s = concat (map escape_char s)"

definition uri_unreserved :: "char \<Rightarrow> bool" where
  "uri_unreserved c =
     (CHR ''A'' \<le> c \<and> c \<le> CHR ''Z'' \<or> CHR ''a'' \<le> c \<and> c \<le> CHR ''z'' \<or> is_digit c \<or>
      c \<in> {CHR ''-'', CHR ''_'', CHR ''.'', CHR ''!'', CHR ''~'', CHR ''*'', CHR 0x27, CHR ''('', CHR '')''})"

definition hex_upper :: "nat \<Rightarrow> char" where
  "hex_upper n = (if n < 10 then char_of (48 + n) else char_of (55 + n))"

definition encodeURIComponent :: "string \<Rightarrow> string" where
  "encodeURIComponent s =
     concat (map (\<lambda>c. if uri_unreserved c then [c]
       else [CHR ''%'', hex_upper (of_char c div 16), hex_upper (of_char c mod 16)]) s)"

text \<open>\<open>/^[^\s@]+@[^\s@]+\.[^\s@]+$/\<close>.\<close>

definition is_email :: "string \<Rightarrow> bool" where
  "is_email t =
     (list_all (\<lambda>c. \<not> is_space c) t \<and>
      (case split_on (\<lambda>c. c = CHR ''@'') t of
         [l, d] \<Rightarrow> l \<noteq> [] \<and> CHR ''.'' \<in> set (butlast (tl d))
       | _ \<Rightarrow> False))"

fun normalize_newlines :: "string \<Rightarrow> string" where
  "normalize_newlines [] = []"
| "normalize_newlines (c # cs) =
     (if c = CHR 0x0D
      then CHR 0x0A # (case cs of d # ds \<Rightarrow> if d = CHR 0x0A then normalize_newlines ds else normalize_newlines cs
                                | [] \<Rightarrow> [])
      else c # normalize_newlines cs)"

text \<open>\<open>split("\n\n")\<close>.\<close>

fun split_paragraphs :: "string \<Rightarrow> string list" where
  "split_paragraphs (a # b # cs) =
     (if a = CHR 0x0A \<and> b = CHR 0x0A then [] # split_paragraphs cs
      else (case split_paragraphs (b # cs) of w # ws \<Rightarrow> (a # w) # ws | [] \<Rightarrow> [[a]]))"
| "split_paragraphs cs = [cs]"

section \<open>Links\<close>

record url =
  url_protocol :: string
  url_origin :: string
  url_path :: string

definition href :: "url \<Rightarrow> string" where
  "href u = url_origin u @ url_path u"

text \<open>\<open>process.env.PUBLIC_URL\<close>: missing, not an address, or an address.\<close>

datatype public_url = NoUrl | BadUrl | PublicUrl url

record mailer =
  ml_publicUrl :: public_url
  ml_emails :: "string list \<Rightarrow> string list option"
  ml_graph :: "string list \<Rightarrow> bool"
  ml_channel :: "string \<Rightarrow> bool"

definition portalLink :: "mailer \<Rightarrow> string \<Rightarrow> url outcome" where
  "portalLink M path =
     (case ml_publicUrl M of
        NoUrl \<Rightarrow> Inl (InternalError ''PUBLIC_URL is required for notification links'')
      | BadUrl \<Rightarrow> Inl (InternalError ''Invalid URL'')
      | PublicUrl origin \<Rightarrow>
          if url_protocol origin \<noteq> ''https:'' then Inl (InternalError ''PUBLIC_URL must use HTTPS'')
          else Inr (origin\<lparr>url_path := path\<rparr>))"

section \<open>The HTML body\<close>

datatype EmailTemplate =
  TmDocument | TmApproval | TmReport | TmAccess | TmGovernance | TmSensitive | TmService

record template_copy =
  tc_header :: string
  tc_action :: string
  tc_footer :: string
  tc_color :: string

fun templateCopy :: "EmailTemplate \<Rightarrow> template_copy" where
  "templateCopy TmDocument = \<lparr>tc_header = ''Document control'', tc_action = ''Open document'',
     tc_footer = ''This document notification was sent by ISMS Portal. Access permissions still apply.'',
     tc_color = ''#0866d9''\<rparr>"
| "templateCopy TmApproval = \<lparr>tc_header = ''Action required'', tc_action = ''Open approvals'',
     tc_footer = ''Open ISMS Portal to review the request and record an authenticated decision. Do not reply to this automated message.'',
     tc_color = ''#7a5100''\<rparr>"
| "templateCopy TmReport = \<lparr>tc_header = ''Report notification'', tc_action = ''Open report'',
     tc_footer = ''Use ISMS Portal to review or manage this report. Do not reply to this automated message.'',
     tc_color = ''#b42318''\<rparr>"
| "templateCopy TmAccess = \<lparr>tc_header = ''Access management'', tc_action = ''Review access request'',
     tc_footer = ''Use ISMS Portal to review this access request. Do not reply to this automated message.'',
     tc_color = ''#5b3ea8''\<rparr>"
| "templateCopy TmGovernance = \<lparr>tc_header = ''ISMS governance'', tc_action = ''Open ISMS Portal'',
     tc_footer = ''Use ISMS Portal to review the assigned action. Do not reply to this automated message.'',
     tc_color = ''#005f73''\<rparr>"
| "templateCopy TmSensitive = \<lparr>tc_header = ''Sensitive document'', tc_action = ''Open sensitive document'',
     tc_footer = ''This sensitive document is confidential. Sign in to ISMS Portal to read it; access is personal, logged and watermarked. Do not forward this message or the content. Do not reply to this automated message.'',
     tc_color = ''#a11a1a''\<rparr>"
| "templateCopy TmService = \<lparr>tc_header = ''ISMS service alert'', tc_action = ''Open ISMS Portal'',
     tc_footer = ''This is an automated ISMS Portal service notification.'',
     tc_color = ''#b54708''\<rparr>"

definition lineBreaks :: "string \<Rightarrow> string" where
  "lineBreaks t = concat (map (\<lambda>c. if c = CHR 0x0A then ''<br>'' else [c]) (escapeHtml t))"

definition paragraphs :: "string \<Rightarrow> string" where
  \<open>paragraphs t =
     concat (map (\<lambda>p. ''<p style="margin:0 0 14px">'' @ lineBreaks p @ ''</p>'') (split_paragraphs t))\<close>

definition upper_char :: "char \<Rightarrow> char" where
  "upper_char c =
     (if CHR ''a'' \<le> c \<and> c \<le> CHR ''z'' then char_of (of_char c - (32::nat)) else c)"

text \<open>\<open>subject.replace(/^\[ISMS Portal\]\s*/, "")\<close>.\<close>

definition bare_subject :: "string \<Rightarrow> string" where
  "bare_subject subject =
     (if startsWith subject ''[ISMS Portal]''
      then dropWhile is_space (drop (length ''[ISMS Portal]'') subject) else subject)"

definition nl :: string where
  "nl = [CHR 0x0A]"

definition emailFrame :: "string \<Rightarrow> string \<Rightarrow> string \<Rightarrow> string \<Rightarrow> string \<Rightarrow> string" where
  \<open>emailFrame subject heading color contentHtml footerHtml =
     ''<!doctype html>'' @ nl @
     ''<html lang="en"><head><meta charset="utf-8"><meta name="viewport" content="width=device-width,initial-scale=1"><title>'' @
     escapeHtml subject @ ''</title></head>'' @ nl @
     ''<body style="margin:0;padding:0;background:#f3f6fa;font-family:Arial,Helvetica,sans-serif;color:#172b4d">'' @ nl @
     ''<table role="presentation" width="100%" cellpadding="0" cellspacing="0"><tr><td align="center" style="padding:24px 12px">'' @ nl @
     ''<!--[if mso]><table role="presentation" width="600"><tr><td><![endif]-->'' @ nl @
     ''<table role="presentation" width="100%" cellpadding="0" cellspacing="0" style="max-width:600px;font-family:Arial,Helvetica,sans-serif;background:#fff;border:1px solid #d9e2ef;border-radius:8px;table-layout:fixed">'' @ nl @
     ''<tr><td style="padding:20px 24px;border-bottom:4px solid '' @ color @
     '';font-size:13px;font-weight:bold;letter-spacing:0;word-break:break-word">'' @ escapeHtml heading @ ''</td></tr>'' @ nl @
     ''<tr><td style="padding:24px;word-wrap:break-word;overflow-wrap:anywhere"><h1 style="font-size:24px;line-height:1.3;margin:0 0 18px">'' @
     escapeHtml (bare_subject subject) @ ''</h1>'' @ contentHtml @ ''</td></tr>'' @ nl @
     ''<tr><td style="padding:18px 24px;background:#edf3fa;font-size:12px;line-height:1.6;color:#52677f">'' @ footerHtml @ ''</td></tr>'' @ nl @
     ''</table><!--[if mso]></td></tr></table><![endif]-->'' @ nl @
     ''</td></tr></table></body></html>''\<close>

text \<open>The text before and after the last line \<open>---\<close>.\<close>

definition separator :: string where
  "separator = nl @ ''---'' @ nl"

fun last_separator :: "string \<Rightarrow> (string \<times> string) option" where
  "last_separator [] = None"
| "last_separator (c # cs) =
     (case last_separator cs of
        Some (body, meta) \<Rightarrow> Some (c # body, meta)
      | None \<Rightarrow> if startsWith (c # cs) separator then Some ([], drop (length separator) (c # cs)) else None)"

definition word_char :: "char \<Rightarrow> bool" where
  "word_char c = (CHR ''A'' \<le> c \<and> c \<le> CHR ''Z'' \<or> CHR ''a'' \<le> c \<and> c \<le> CHR ''z'' \<or> is_digit c \<or> c = CHR ''_'')"

text \<open>\<open>/\b(approved|rejected|decision)\b/iu.test(subject)\<close>: one of the words of the subject. (The three
  words hold no letter that has another case-insensitive equivalent.)\<close>

definition is_decision :: "string \<Rightarrow> bool" where
  "is_decision subject =
     list_ex (\<lambda>w. toLowerCase w \<in> {''approved'', ''rejected'', ''decision''}) (split_on (\<lambda>c. \<not> word_char c) subject)"

definition approval_html :: "string \<Rightarrow> string \<Rightarrow> string \<Rightarrow> template_copy \<Rightarrow> string \<Rightarrow> string" where
  \<open>approval_html subject body meta copy link =
     (let decision = is_decision subject;
          action = (if decision then ''Open decision'' else ''Review request'');
          description = (if decision
            then ''A decision has been recorded. Open ISMS Portal for the full history.''
            else ''Your action is required. Open ISMS Portal to review the request and record an authenticated decision.'')
      in emailFrame subject
           (''[ISMS Portal] | '' @ (if decision then ''DECISION RECORDED'' else ''ACTION REQUIRED''))
           (tc_color copy)
           (''<p style="font-size:14px;line-height:1.6;margin:0 0 20px;color:#52677f">'' @ escapeHtml description @ ''</p>'' @ nl @
            ''<div style="font-size:15px;line-height:1.65">'' @ paragraphs body @ ''</div>'' @ nl @
            ''<table role="presentation" cellpadding="0" cellspacing="0" style="margin-top:22px"><tr><td bgcolor="'' @ tc_color copy @
            ''" style="border-radius:6px"><a href="'' @ link @
            ''" style="display:inline-block;padding:13px 18px;color:#fff;font-size:15px;font-weight:bold;text-decoration:none">'' @ action @
            ''</a></td></tr></table>'' @ nl @
            ''<p style="font-size:12px;color:#52677f;margin:20px 0 0">'' @ escapeHtml (tc_footer copy) @ ''</p>'')
           (lineBreaks meta))\<close>

definition document_html :: "string \<Rightarrow> string \<Rightarrow> string \<Rightarrow> template_copy \<Rightarrow> string \<Rightarrow> string" where
  \<open>document_html subject body meta copy link =
     emailFrame subject subject (tc_color copy)
       (''<p style="font-size:14px;line-height:1.6;margin:0 0 14px;color:#52677f">Automated notification from ISMS Portal. You are receiving this message because your organisation account has access to this document.</p>'' @ nl @
        ''<p style="font-size:15px;line-height:1.7;margin:0 0 22px">Click <a href="'' @ link @ ''" style="color:'' @ tc_color copy @
        '';font-weight:bold">here to open the document</a>.</p>'' @ nl @
        ''<div style="font-size:15px;line-height:1.7">'' @ paragraphs body @ ''</div>'')
       (lineBreaks meta)\<close>

definition plain_html :: "string \<Rightarrow> string \<Rightarrow> template_copy \<Rightarrow> string \<Rightarrow> string" where
  \<open>plain_html subject body copy link =
     emailFrame subject (''ISMS PORTAL | '' @ map upper_char (tc_header copy)) (tc_color copy)
       (''<div style="font-size:15px;line-height:1.7">'' @ paragraphs body @ ''</div>'' @ nl @
        ''<table role="presentation" cellpadding="0" cellspacing="0" style="margin-top:24px"><tr><td bgcolor="'' @ tc_color copy @
        ''" style="border-radius:6px"><a href="'' @ link @
        ''" style="display:inline-block;padding:14px 20px;color:#fff;font-size:15px;font-weight:bold;text-decoration:none">'' @ escapeHtml (tc_action copy) @
        ''</a></td></tr></table>'' @ nl @
        ''<p style="font-size:12px;color:#52677f;margin-top:22px">'' @ escapeHtml (tc_footer copy) @ ''</p>'' @ nl @
        ''<p style="font-size:12px;word-break:break-all"><a href="'' @ link @ ''">'' @ link @ ''</a></p>'')
       ''Automated notification from ISMS Portal.''\<close>

definition notificationHtml :: "mailer \<Rightarrow> string \<Rightarrow> string \<Rightarrow> url \<Rightarrow> EmailTemplate \<Rightarrow> string outcome" where
  "notificationHtml M subject text url template =
     (if url_protocol url \<noteq> ''https:'' then Inl (InternalError ''Invalid notification link'')
      else (case portalLink M ''/'' of
        Inl e \<Rightarrow> Inl e
      | Inr home \<Rightarrow>
          if url_origin url \<noteq> url_origin home then Inl (InternalError ''Invalid notification link'')
          else (let copy = templateCopy template;
                    link = escapeHtml (href url);
                    text' = normalize_newlines text;
                    structured = (if startsWith subject ''[ISMS Portal] '' then last_separator text' else None)
                in Inr (case structured of
                     Some (body, meta) \<Rightarrow>
                       if template = TmApproval then approval_html subject body meta copy link
                       else if template = TmDocument then document_html subject body meta copy link
                       else plain_html subject text' copy link
                   | None \<Rightarrow> plain_html subject text' copy link))))"

section \<open>Delivery\<close>

definition channels_key :: string where
  "channels_key = ''observability.alert-channels''"

definition stored_channels :: "db \<Rightarrow> json" where
  "stored_channels s =
     (let v = get_setting s channels_key in if json_truthy v then the v else JObj [])"

definition configured :: "json \<Rightarrow> string \<Rightarrow> bool" where
  "configured config k = json_truthy (json_get k config)"

record message =
  mg_to :: "string list"
  mg_subject :: string
  mg_text :: string
  mg_html :: string

definition graph_message :: "mailer \<Rightarrow> json \<Rightarrow> message \<Rightarrow> message outcome" where
  "graph_message M config m =
     (if \<not> list_all (configured config) [''graphTenantId'', ''graphClientId'', ''graphSender'',
           ''graphCertificatePemEncrypted'', ''graphPrivateKeyPemEncrypted'']
      then Inl (BadRequest ''Microsoft Graph is incomplete'')
      else if mg_to m = [] then Inl (BadRequest ''No Graph recipients configured'')
      else if ml_graph M (mg_to m) then Inr m
      else Inl (InternalError ''Graph sendMail failed''))"

definition sendPreferredTo ::
    "mailer \<Rightarrow> db \<Rightarrow> string list \<Rightarrow> string \<Rightarrow> string \<Rightarrow> url \<Rightarrow> EmailTemplate \<Rightarrow> message outcome" where
  "sendPreferredTo M s recipients subject text link template =
     (let valid = new_set (filter is_email (map (\<lambda>r. toLowerCase (trim r)) recipients));
          config = stored_channels s
      in if valid = [] then Inl (BadRequest ''No eligible mail recipients'')
         else if \<not> list_all (configured config) [''graphTenantId'', ''graphClientId'',
                   ''graphCertificatePemEncrypted'', ''graphPrivateKeyPemEncrypted'']
         then Inl (BadRequest ''Microsoft Graph is not configured'')
         else (case notificationHtml M subject text link template of
             Inl e \<Rightarrow> Inl e
           | Inr html \<Rightarrow>
               graph_message M config \<lparr>mg_to = valid, mg_subject = subject, mg_text = text, mg_html = html\<rparr>))"

text \<open>\<open>sendPreferred\<close>: the configured channels in order, until one takes the message. The errors that
  are collected are named by their channel.\<close>

definition preferred_candidates :: "json \<Rightarrow> string list" where
  "preferred_candidates config =
     (if configured config ''smtpHost'' \<and> configured config ''smtpFrom'' \<and>
         (case json_get ''smtpRecipients'' config of Some (JArr rs) \<Rightarrow> rs \<noteq> [] | _ \<Rightarrow> False)
      then [''email''] else []) @
     (if configured config ''teamsWebhookUrlEncrypted'' then [''teams''] else []) @
     (if configured config ''slackWebhookUrlEncrypted'' then [''slack''] else []) @
     (if configured config ''genericWebhookUrlEncrypted'' then [''webhook''] else [])"

record PreferredDelivery =
  pd_delivered :: bool
  pd_channel :: "string option"
  pd_attempted :: "string list"

fun try_channels :: "mailer \<Rightarrow> string list \<Rightarrow> string list \<Rightarrow> PreferredDelivery outcome" where
  "try_channels M attempted [] =
     (if attempted \<noteq> [] then Inl (InternalError (join ''; '' attempted))
      else Inr \<lparr>pd_delivered = False, pd_channel = None, pd_attempted = attempted\<rparr>)"
| "try_channels M attempted (c # cs) =
     (if ml_channel M c
      then Inr \<lparr>pd_delivered = True, pd_channel = Some c, pd_attempted = attempted @ [c]\<rparr>
      else try_channels M (attempted @ [c]) cs)"

definition sendPreferred :: "mailer \<Rightarrow> db \<Rightarrow> PreferredDelivery outcome" where
  "sendPreferred M s = try_channels M [] (preferred_candidates (stored_channels s))"

section \<open>Text stays text\<close>

text \<open>The markup of a page: the characters inside its tags, delimiters included. \<open>tag_state\<close> says whether
  the end of a fragment is inside a tag.\<close>

fun markup :: "bool \<Rightarrow> string \<Rightarrow> string" where
  "markup b [] = []"
| "markup b (c # cs) =
     (if b then c # markup (c \<noteq> CHR ''>'') cs
      else if c = CHR ''<'' then c # markup True cs else markup False cs)"

fun tag_state :: "bool \<Rightarrow> string \<Rightarrow> bool" where
  "tag_state b [] = b"
| "tag_state b (c # cs) = tag_state (if b then c \<noteq> CHR ''>'' else c = CHR ''<'') cs"

lemma tag_state_append [simp]: "tag_state b (xs @ ys) = tag_state (tag_state b xs) ys"
  by (induction xs arbitrary: b) simp_all

lemma markup_append [simp]: "markup b (xs @ ys) = markup b xs @ markup (tag_state b xs) ys"
  by (induction xs arbitrary: b) simp_all

text \<open>A fragment without angle brackets stays where it is.\<close>

definition inert :: "string \<Rightarrow> bool" where
  "inert s \<longleftrightarrow> CHR ''<'' \<notin> set s \<and> CHR ''>'' \<notin> set s"

lemma inert_outside: "inert s \<Longrightarrow> markup False s = [] \<and> \<not> tag_state False s"
  by (induction s) (auto simp: inert_def)

lemma inert_inside: "inert s \<Longrightarrow> markup True s = s \<and> tag_state True s"
  by (induction s) (auto simp: inert_def)

lemma escape_char_inert: "inert (escape_char c)"
  by (auto simp: escape_char_def inert_def)

lemma escapeHtml_inert [simp]: "inert (escapeHtml s)"
  using escape_char_inert unfolding escapeHtml_def inert_def by fastforce

lemmas escaped [simp] =
  inert_outside [OF escapeHtml_inert, THEN conjunct1] inert_outside [OF escapeHtml_inert, THEN conjunct2]
  inert_inside [OF escapeHtml_inert, THEN conjunct1] inert_inside [OF escapeHtml_inert, THEN conjunct2, simplified]

definition newlines :: "string \<Rightarrow> nat" where
  "newlines s = length (filter (\<lambda>c. c = CHR 0x0A) s)"

lemma newlines_simps [simp]:
  "newlines [] = 0" "newlines (c # cs) = (if c = CHR 0x0A then Suc (newlines cs) else newlines cs)"
  "newlines (xs @ ys) = newlines xs + newlines ys"
  by (simp_all add: newlines_def)

lemma newlines_escapeHtml [simp]: "newlines (escapeHtml s) = newlines s"
  by (induction s) (simp_all add: escapeHtml_def escape_char_def)

lemma markup_breaks:
  "inert s \<Longrightarrow> markup False (concat (map (\<lambda>c. if c = CHR 0x0A then ''<br>'' else [c]) s)) = concat (replicate (newlines s) ''<br>'')
     \<and> \<not> tag_state False (concat (map (\<lambda>c. if c = CHR 0x0A then ''<br>'' else [c]) s))"
  by (induction s) (auto simp: inert_def)

lemma markup_lineBreaks [simp]:
  "markup False (lineBreaks t) = concat (replicate (newlines t) ''<br>'')" "\<not> tag_state False (lineBreaks t)"
  using markup_breaks [OF escapeHtml_inert, of t] by (simp_all add: lineBreaks_def)

definition paragraph_markup :: "nat \<Rightarrow> string" where
  \<open>paragraph_markup n = ''<p style="margin:0 0 14px">'' @ concat (replicate n ''<br>'') @ ''</p>''\<close>

lemma markup_paragraphs [simp]:
  "markup False (paragraphs t) = concat (map (\<lambda>p. paragraph_markup (newlines p)) (split_paragraphs t))"
  "\<not> tag_state False (paragraphs t)"
proof -
  let ?h = \<open>\<lambda>ps. concat (map (\<lambda>p. ''<p style="margin:0 0 14px">'' @ lineBreaks p @ ''</p>'') ps)\<close>
  have "markup False (?h ps) = concat (map (\<lambda>p. paragraph_markup (newlines p)) ps) \<and> \<not> tag_state False (?h ps)" for ps
    by (induction ps) (simp_all add: paragraph_markup_def)
  then show "markup False (paragraphs t) = concat (map (\<lambda>p. paragraph_markup (newlines p)) (split_paragraphs t))"
    "\<not> tag_state False (paragraphs t)" by (simp_all add: paragraphs_def)
qed

lemma markup_emailFrame:
  assumes "inert color" and "\<not> tag_state False ch" and "\<not> tag_state False ch'"
    and "markup False ch = markup False ch'" and "markup False fh = markup False fh'"
    and "\<not> tag_state False fh" and "\<not> tag_state False fh'"
  shows "markup False (emailFrame sub head color ch fh) = markup False (emailFrame sub' head' color ch' fh')"
  using inert_inside [OF assms(1)] assms(2-)
  unfolding emailFrame_def nl_def markup_append tag_state_append
  by (simp del: markup.simps)

lemma color_inert [simp]: "inert (tc_color (templateCopy t))"
  by (cases t) (simp_all add: inert_def)

declare templateCopy.simps [simp del]

lemmas color_state [simp] =
  inert_inside [OF color_inert, THEN conjunct1] inert_inside [OF color_inert, THEN conjunct2, simplified]

lemma markup_plain:
  assumes "map newlines (split_paragraphs t) = map newlines (split_paragraphs t')"
  shows "markup False (plain_html sub t (templateCopy k) (escapeHtml l)) =
    markup False (plain_html sub' t' (templateCopy k) (escapeHtml l))"
proof -
  have eq: "map (\<lambda>p. paragraph_markup (newlines p)) (split_paragraphs t) = map (\<lambda>p. paragraph_markup (newlines p)) (split_paragraphs t')"
    using arg_cong [OF assms, of "map paragraph_markup"] by (simp add: comp_def)
  show ?thesis unfolding plain_html_def nl_def
    by (rule markup_emailFrame; (unfold markup_append tag_state_append)?; simp add: eq del: markup.simps)
qed

lemma markup_approval:
  assumes "map newlines (split_paragraphs t) = map newlines (split_paragraphs t')" and "newlines m = newlines m'"
  shows "markup False (approval_html sub t m (templateCopy k) (escapeHtml l)) =
    markup False (approval_html sub' t' m' (templateCopy k) (escapeHtml l))"
proof -
  have eq: "map (\<lambda>p. paragraph_markup (newlines p)) (split_paragraphs t) = map (\<lambda>p. paragraph_markup (newlines p)) (split_paragraphs t')"
    using arg_cong [OF assms(1), of "map paragraph_markup"] by (simp add: comp_def)
  have act: "markup False ''Open decision'' = []" "markup False ''Review request'' = []" by simp_all
  show ?thesis unfolding approval_html_def Let_def nl_def
    by (rule markup_emailFrame; (unfold markup_append tag_state_append)?; simp add: eq act assms(2) del: markup.simps)
qed

lemma markup_document:
  assumes "map newlines (split_paragraphs t) = map newlines (split_paragraphs t')" and "newlines m = newlines m'"
  shows "markup False (document_html sub t m (templateCopy k) (escapeHtml l)) =
    markup False (document_html sub' t' m' (templateCopy k) (escapeHtml l))"
proof -
  have eq: "map (\<lambda>p. paragraph_markup (newlines p)) (split_paragraphs t) = map (\<lambda>p. paragraph_markup (newlines p)) (split_paragraphs t')"
    using arg_cong [OF assms(1), of "map paragraph_markup"] by (simp add: comp_def)
  show ?thesis unfolding document_html_def Let_def nl_def
    by (rule markup_emailFrame; (unfold markup_append tag_state_append)?; simp add: eq assms(2) del: markup.simps)
qed

text \<open>The division of a message into paragraphs and lines, and into body and metadata.\<close>

definition layout :: "EmailTemplate \<Rightarrow> string \<Rightarrow> string \<Rightarrow> nat option \<times> nat list" where
  "layout template subject text =
     (let text' = normalize_newlines text
      in case (if startsWith subject ''[ISMS Portal] '' \<and> template \<in> {TmApproval, TmDocument}
               then last_separator text' else None) of
           Some (body, meta) \<Rightarrow> (Some (newlines meta), map newlines (split_paragraphs body))
         | None \<Rightarrow> (None, map newlines (split_paragraphs text')))"

text \<open>C26: no text of a notification becomes markup. Two messages built from the same template with the
  same link and the same division into paragraphs and lines have the same tags and attributes, letter
  for letter, whatever their subjects and texts are.\<close>

theorem notificationHtml_no_injection:
  assumes "notificationHtml M sub t url k = Inr h" and "notificationHtml M sub' t' url k = Inr h'"
    and "layout k sub t = layout k sub' t'"
  shows "markup False h = markup False h'"
  using assms
  by (auto simp: notificationHtml_def layout_def Let_def split: if_splits sum.splits option.splits
      intro: markup_plain markup_approval markup_document)


definition mail_setup :: mailer where
  "mail_setup = \<lparr>ml_publicUrl = PublicUrl \<lparr>url_protocol = ''https:'', url_origin = ''https://p'', url_path = ''/''\<rparr>,
     ml_emails = (\<lambda>_. Some []), ml_graph = (\<lambda>_. True), ml_channel = (\<lambda>_. True)\<rparr>"

definition mail_link :: url where
  "mail_link = \<lparr>url_protocol = ''https:'', url_origin = ''https://p'', url_path = ''/documents/x''\<rparr>"

theorem notificationHtml_no_injection_witness:
  "\<exists>h h'. notificationHtml mail_setup ''a'' ''ok'' mail_link TmService = Inr h \<and>
     notificationHtml mail_setup ''a'' ''<script>alert(1)</script>'' mail_link TmService = Inr h' \<and>
     markup False h = markup False h'"
proof -
  obtain h h' where h: "notificationHtml mail_setup ''a'' ''ok'' mail_link TmService = Inr h"
    "notificationHtml mail_setup ''a'' ''<script>alert(1)</script>'' mail_link TmService = Inr h'"
    by (simp add: notificationHtml_def portalLink_def mail_setup_def mail_link_def Let_def)
  have "layout TmService ''a'' ''ok'' = layout TmService ''a'' ''<script>alert(1)</script>''" by code_simp
  with h notificationHtml_no_injection [OF h] show ?thesis by blast
qed

end
