(* ===== verification/Sensitive_Sharing.thy ===== *)
theory Sensitive_Sharing
  imports Mail Authorization
begin

text \<open>
  Need-to-know access to sensitive documents (\<^verbatim>\<open>apps/api/src/sensitive-sharing.ts\<close>): designated
  depositors share a sensitive document with named people for a limited time or until revoked; the
  worker reminds recipients before a share expires; administrators manage the depositors and may
  revoke any share.
\<close>

section \<open>Depositors and shares\<close>

definition MAX_CUSTOM_DAYS :: int where
  "MAX_CUSTOM_DAYS = 365 * 5"

definition REMINDER_WINDOW :: int where
  "REMINDER_WINDOW = 2 * day_ms"

datatype share_duration = Day1 | Days7 | Days30 | Days90 | Lifetime | Custom

fun durationDays :: "share_duration \<Rightarrow> int" where
  "durationDays Day1 = 1"
| "durationDays Days7 = 7"
| "durationDays Days30 = 30"
| "durationDays Days90 = 90"
| "durationDays _ = 0"

definition normalizeIdentity :: "string \<Rightarrow> string" where
  "normalizeIdentity v = toLowerCase (trim v)"

definition activeShareWhere :: "string \<Rightarrow> time \<Rightarrow> share_row \<Rightarrow> bool" where
  "activeShareWhere identity t r =
     (ss_recipient r = normalizeIdentity identity \<and> ss_revokedAt r = None \<and>
      null_or (\<lambda>e. t < e) (ss_expiresAt r))"

definition isSensitiveDepositor :: "db \<Rightarrow> string \<Rightarrow> bool" where
  "isSensitiveDepositor s identity =
     (find_first (\<lambda>d. sd_identity d = normalizeIdentity identity \<and> sd_revokedAt d = None) (depositors s) \<noteq> None)"

definition assertSensitiveDepositor :: "db \<Rightarrow> string \<Rightarrow> unit outcome" where
  "assertSensitiveDepositor s identity =
     (if isSensitiveDepositor s identity then Inr ()
      else Inl (Forbidden ''Only designated users can create or share sensitive documents''))"

definition assertCanMarkSensitive :: "db \<Rightarrow> request \<Rightarrow> unit outcome" where
  "assertCanMarkSensitive s req =
     (if isAdminIdentity (rq_groups req) then Inr () else assertSensitiveDepositor s (rq_username req))"

definition hasSensitiveShare :: "env \<Rightarrow> db \<Rightarrow> string \<Rightarrow> string \<Rightarrow> bool" where
  "hasSensitiveShare E s documentId identity =
     (find_first (\<lambda>r. ss_documentId r = documentId \<and> activeShareWhere identity (now E) r) (shares s) \<noteq> None)"

section \<open>Mail about shares\<close>

text \<open>\<open>toISOString().replace("T", " ").slice(0, 16)\<close>: only the first \<open>T\<close> is replaced, the one after the
  date.\<close>

fun replace_first :: "char \<Rightarrow> string \<Rightarrow> string \<Rightarrow> string" where
  "replace_first c w [] = []"
| "replace_first c w (d # ds) = (if d = c then w @ ds else d # replace_first c w ds)"

definition expiryLabel :: "time option \<Rightarrow> string" where
  "expiryLabel expiresAt =
     (case expiresAt of
        None \<Rightarrow> ''with no expiry date (until revoked)''
      | Some t \<Rightarrow> ''until '' @ take 16 (replace_first CHR ''T'' '' '' (toISOString t)) @ '' UTC'')"

text \<open>\<open>mailFor\<close>: the address, nothing, or the exception of the directory search.\<close>

definition mailFor :: "mailer \<Rightarrow> string \<Rightarrow> string option outcome" where
  "mailFor M identity =
     (if CHR ''@'' \<in> set identity then Inr (Some identity)
      else (case ml_emails M [identity] of
          None \<Rightarrow> Inl (InternalError ''directory'')
        | Some [] \<Rightarrow> Inr None
        | Some (m # _) \<Rightarrow> Inr (or_null m)))"

text \<open>The message that was delivered; nothing stands for the result \<open>false\<close>.\<close>

definition sendSensitiveMail ::
    "mailer \<Rightarrow> db \<Rightarrow> string \<Rightarrow> string \<Rightarrow> string \<Rightarrow> url \<Rightarrow> message option" where
  "sendSensitiveMail M s identity subject text link =
     (case mailFor M identity of
        Inr (Some address) \<Rightarrow>
          (case sendPreferredTo M s [address] subject text link TmSensitive of
             Inr m \<Rightarrow> Some m
           | Inl _ \<Rightarrow> None)
      | _ \<Rightarrow> None)"

definition document_of :: "db \<Rightarrow> string \<Rightarrow> document_row option" where
  "document_of s d = find_first (\<lambda>r. doc_id r = d) (documents s)"

text \<open>\<open>translations[0]?.title || slug\<close>.\<close>

definition title_of :: "db \<Rightarrow> document_row \<Rightarrow> string" where
  "title_of s d =
     (case find_first (\<lambda>t. tr_documentId t = doc_id d) (titles s) of
        None \<Rightarrow> doc_slug d
      | Some t \<Rightarrow> if tr_title t = [] then doc_slug d else tr_title t)"

definition document_path :: "document_row \<Rightarrow> string" where
  "document_path d = ''/documents/'' @ encodeURIComponent (doc_slug d)"

section \<open>Reminders\<close>

definition reminder_open :: "share_row \<Rightarrow> bool" where
  "reminder_open r = (ss_reminderSentAt r = None)"

definition mark_reminded :: "time \<Rightarrow> share_row \<Rightarrow> share_row" where
  "mark_reminded t r = r\<lparr>ss_reminderSentAt := Some t\<rparr>"

definition reminder_due :: "env \<Rightarrow> db \<Rightarrow> share_row \<Rightarrow> bool" where
  "reminder_due E s r =
     (ss_revokedAt r = None \<and> ss_reminderSentAt r = None \<and>
      some_and (\<lambda>e. now E < e \<and> e \<le> now E + REMINDER_WINDOW) (ss_expiresAt r) \<and>
      some_and (\<lambda>d. doc_deletedAt d = None) (document_of s (ss_documentId r)))"

definition reminder_text :: "string \<Rightarrow> time option \<Rightarrow> string" where
  \<open>reminder_text title expiresAt =
     ''Your access to the sensitive document "'' @ title @ ''" expires '' @ expiryLabel expiresAt @ ''.'' @ nl @ nl @
     ''If you still need it, ask the person who shared it with you to extend your access.''\<close>

fun remind_loop :: "env \<Rightarrow> mailer \<Rightarrow> db \<Rightarrow> message list \<Rightarrow> share_row list \<Rightarrow> db \<times> message list \<times> unit outcome" where
  "remind_loop E M s sent [] = (s, sent, Inr ())"
| "remind_loop E M s sent (share # rest) =
     (case claim (\<lambda>r. ss_id r = ss_id share \<and> reminder_open r) (mark_reminded (now E)) (shares s) of
        None \<Rightarrow> remind_loop E M s sent rest
      | Some rows \<Rightarrow>
          (let s' = s\<lparr>shares := rows\<rparr>
           in case document_of s (ss_documentId share) of
                None \<Rightarrow> remind_loop E M s' sent rest
              | Some d \<Rightarrow>
                  (case portalLink M (document_path d) of
                     Inl e \<Rightarrow> (s', sent, Inl e)
                   | Inr link \<Rightarrow>
                       (case sendSensitiveMail M s' (ss_recipient share)
                               ''[ISMS Portal] Sensitive document access expires soon''
                               (reminder_text (title_of s d) (ss_expiresAt share)) link of
                          Some m \<Rightarrow> remind_loop E M s' (sent @ [m]) rest
                        | None \<Rightarrow> remind_loop E M s' sent rest))))"

text \<open>The result is the number of delivered messages, here the messages themselves.\<close>

definition remindExpiringSensitiveShares :: "env \<Rightarrow> mailer \<Rightarrow> db \<Rightarrow> db \<times> message list \<times> unit outcome" where
  "remindExpiringSensitiveShares E M s =
     remind_loop E M s [] (take 50 (filter (reminder_due E s) (shares s)))"

section \<open>Sharing\<close>

text \<open>\<open>ShareDto\<close>; the expiry is the value of \<open>new Date\<close> on the validated string: missing, invalid or an
  instant.\<close>

record ShareDto =
  sh_recipient :: string
  sh_duration :: share_duration
  sh_expiresAt :: "time option option"

definition resolveExpiry :: "env \<Rightarrow> ShareDto \<Rightarrow> time option outcome" where
  "resolveExpiry E body =
     (if sh_duration body = Lifetime then Inr None
      else if sh_duration body = Custom
      then (case sh_expiresAt body of
          Some (Some date) \<Rightarrow>
            if date \<le> now E then Inl (BadRequest ''A future expiry date is required'')
            else if now E + MAX_CUSTOM_DAYS * day_ms < date
            then Inl (BadRequest ''Expiry date is too far in the future'')
            else Inr (Some date)
        | _ \<Rightarrow> Inl (BadRequest ''A future expiry date is required''))
      else Inr (Some (now E + durationDays (sh_duration body) * day_ms)))"

datatype share_state = StRevoked | StExpired | StActive

record share_view =
  sv_id :: string
  sv_recipient :: string
  sv_createdBy :: string
  sv_createdAt :: time
  sv_expiresAt :: "time option"
  sv_state :: share_state

definition shareRow :: "env \<Rightarrow> share_row \<Rightarrow> share_view" where
  "shareRow E share =
     \<lparr>sv_id = ss_id share, sv_recipient = ss_recipient share, sv_createdBy = ss_createdBy share,
      sv_createdAt = ss_createdAt share, sv_expiresAt = ss_expiresAt share,
      sv_state = (if ss_revokedAt share \<noteq> None then StRevoked
                  else if some_and (\<lambda>e. e \<le> now E) (ss_expiresAt share) then StExpired else StActive)\<rparr>"

definition me :: "db \<Rightarrow> request \<Rightarrow> bool \<times> bool" where
  "me s req =
     (let depositor = isSensitiveDepositor s (rq_username req)
      in (depositor, depositor \<or> isAdminIdentity (rq_groups req)))"

record directory_user =
  du_displayName :: string
  du_email :: "string option"

text \<open>\<open>directory-users\<close>, over the search of the directory.\<close>

definition directoryUsers ::
    "(string \<Rightarrow> directory_user list) \<Rightarrow> db \<Rightarrow> request \<Rightarrow> string \<Rightarrow> directory_user list outcome" where
  "directoryUsers searchUsers s req q =
     (case assertSensitiveDepositor s (rq_username req) of
        Inl e \<Rightarrow> Inl e
      | Inr _ \<Rightarrow>
          if length (trim q) < 2 then Inr []
          else Inr (take 8 (filter (\<lambda>u. truthy (du_email u)) (searchUsers q))))"

definition sharedWithMe :: "env \<Rightarrow> db \<Rightarrow> request \<Rightarrow> (share_row \<times> document_row) list" where
  "sharedWithMe E s req =
     map (\<lambda>r. (r, the (document_of s (ss_documentId r))))
       (find_many (\<lambda>r. - ss_createdAt r) 50
         (\<lambda>r. activeShareWhere (rq_username req) (now E) r \<and>
              some_and (\<lambda>d. doc_deletedAt d = None \<and> doc_status d = PUBLISHED \<and> doc_sensitive d)
                (document_of s (ss_documentId r)))
         (shares s))"

definition sharableDocument :: "env \<Rightarrow> db \<Rightarrow> request \<Rightarrow> string \<Rightarrow> document_row outcome" where
  "sharableDocument E s req i =
     (case assertSensitiveDepositor s (rq_username req) of
        Inl e \<Rightarrow> Inl e
      | Inr _ \<Rightarrow>
          (case find_first (\<lambda>d. doc_id d = i \<and> doc_deletedAt d = None \<and> doc_sensitive d \<and>
                  doc_status d = PUBLISHED) (documents s) of
             None \<Rightarrow> Inl NotFound
           | Some d \<Rightarrow>
               if can E s (rq_groups req) (doc_spaceId d) Preview (InCategory (doc_categoryId d))
               then Inr d else Inl NotFound))"

definition list_shares :: "env \<Rightarrow> db \<Rightarrow> request \<Rightarrow> string \<Rightarrow> share_view list outcome" where
  "list_shares E s req i =
     (case sharableDocument E s req i of
        Inl e \<Rightarrow> Inl e
      | Inr _ \<Rightarrow>
          Inr (map (shareRow E) (find_many (\<lambda>r. - ss_createdAt r) 200 (\<lambda>r. ss_documentId r = i) (shares s))))"

definition share_open :: "share_row \<Rightarrow> bool" where
  "share_open r = (ss_revokedAt r = None)"

definition revoke_row :: "time \<Rightarrow> share_row \<Rightarrow> share_row" where
  "revoke_row t r = r\<lparr>ss_revokedAt := Some t\<rparr>"

definition new_share :: "env \<Rightarrow> db \<Rightarrow> request \<Rightarrow> string \<Rightarrow> string \<Rightarrow> time option \<Rightarrow> share_row" where
  "new_share E s req documentId recipient expiresAt =
     \<lparr>ss_id = uuid E (uuid_next s), ss_documentId = documentId, ss_recipient = recipient,
      ss_createdBy = rq_username req, ss_createdAt = now E, ss_expiresAt = expiresAt,
      ss_revokedAt = None, ss_reminderSentAt = None\<rparr>"

text \<open>The transaction of \<open>share\<close>.\<close>

definition replace_share :: "env \<Rightarrow> db \<Rightarrow> request \<Rightarrow> string \<Rightarrow> string \<Rightarrow> time option \<Rightarrow> db \<times> share_row" where
  "replace_share E s req i recipient expiresAt =
     (let row = new_share E s req i recipient expiresAt
      in (s\<lparr>shares := update_rows (\<lambda>r. ss_documentId r = i \<and> ss_recipient r = recipient \<and> share_open r)
               (revoke_row (now E)) (shares s) @ [row],
            uuid_next := Suc (uuid_next s)\<rparr>, row))"

definition share_text :: "string \<Rightarrow> string \<Rightarrow> time option \<Rightarrow> string" where
  \<open>share_text sender title expiresAt =
     sender @ '' gave you read-only access to the sensitive document "'' @ title @ ''", '' @ expiryLabel expiresAt @ ''.'' @ nl @ nl @
     ''Sign in to ISMS Portal with your own account to read it. Your access is personal, logged and watermarked: do not copy, forward or share the content.''\<close>

definition sender_name :: "request \<Rightarrow> string" where
  "sender_name req =
     (if id_displayName (rq_identity req) \<noteq> [] then id_displayName (rq_identity req) else rq_username req)"

definition share ::
    "env \<Rightarrow> mailer \<Rightarrow> db \<Rightarrow> request \<Rightarrow> string \<Rightarrow> ShareDto \<Rightarrow> db \<times> (share_view \<times> message option) outcome" where
  "share E M s req i body =
     (case sharableDocument E s req i of
        Inl e \<Rightarrow> (s, Inl e)
      | Inr document \<Rightarrow>
          (let recipient = normalizeIdentity (sh_recipient body)
           in if list_ex is_space recipient then (s, Inl (BadRequest ''Invalid recipient''))
              else if recipient = normalizeIdentity (rq_username req)
              then (s, Inl (BadRequest ''You already have access to this document''))
              else (case resolveExpiry E body of
                  Inl e \<Rightarrow> (s, Inl e)
                | Inr expiresAt \<Rightarrow>
                    (let (s1, row) = replace_share E s req i recipient expiresAt;
                         s2 = record_audit E s1 req ''sensitive.share.create'' (''document:'' @ i) Success
                           (Some (JObj [(''recipient'', JStr recipient),
                              (''expiresAt'', case expiresAt of None \<Rightarrow> JStr ''lifetime'' | Some t \<Rightarrow> JDate t)]))
                     in case portalLink M (document_path document) of
                          Inl e \<Rightarrow> (s2, Inl e)
                        | Inr link \<Rightarrow>
                            (s2, Inr (shareRow E row,
                               sendSensitiveMail M s2 recipient
                                 (''[ISMS Portal] '' @ sender_name req @ '' shared a sensitive document with you'')
                                 (share_text (sender_name req) (title_of s document) expiresAt) link))))))"

definition revoke_share :: "env \<Rightarrow> db \<Rightarrow> request \<Rightarrow> share_row \<Rightarrow> string \<Rightarrow> db" where
  "revoke_share E s req row shareId =
     record_audit E
       (s\<lparr>shares := update_rows (\<lambda>r. ss_id r = ss_id row \<and> share_open r) (revoke_row (now E)) (shares s)\<rparr>)
       req ''sensitive.share.revoke'' (''document:'' @ ss_documentId row) Success
       (Some (JObj [(''shareId'', JStr shareId)]))"

definition revoke :: "env \<Rightarrow> db \<Rightarrow> request \<Rightarrow> string \<Rightarrow> db \<times> unit outcome" where
  "revoke E s req shareId =
     (case assertSensitiveDepositor s (rq_username req) of
        Inl e \<Rightarrow> (s, Inl e)
      | Inr _ \<Rightarrow>
          (case find_first (\<lambda>r. ss_id r = shareId) (shares s) of
             None \<Rightarrow> (s, Inl NotFound)
           | Some row \<Rightarrow> (revoke_share E s req row shareId, Inr ())))"

section \<open>Administration\<close>

text \<open>The routes of the class marked \<open>@AdminOnly()\<close>.\<close>

definition admin_guard :: "request \<Rightarrow> bool outcome" where
  "admin_guard req = canActivate no_metadata AdminOnly (rq_groups req)"

definition list_depositors :: "db \<Rightarrow> depositor_row list" where
  "list_depositors s = find_many (\<lambda>d. - sd_createdAt d) 500 (\<lambda>d. sd_revokedAt d = None) (depositors s)"

record DepositorDto =
  dd_identity :: string
  dd_displayName :: "string option"

definition trimmed_name :: "string option \<Rightarrow> string option" where
  "trimmed_name v = Option.bind v (\<lambda>n. or_null (trim n))"

definition upsert_depositor :: "env \<Rightarrow> db \<Rightarrow> request \<Rightarrow> string \<Rightarrow> string option \<Rightarrow> db \<times> depositor_row" where
  "upsert_depositor E s req identity name =
     (case find_first (\<lambda>d. sd_identity d = identity) (depositors s) of
        Some d \<Rightarrow>
          (let d' = d\<lparr>sd_revokedAt := None,
                      sd_displayName := (case name of None \<Rightarrow> sd_displayName d | Some n \<Rightarrow> Some n)\<rparr>
           in (s\<lparr>depositors := update_rows (\<lambda>x. sd_identity x = identity) (\<lambda>_. d') (depositors s)\<rparr>, d'))
      | None \<Rightarrow>
          (let d = \<lparr>sd_id = uuid E (uuid_next s), sd_identity = identity, sd_displayName = name,
                    sd_addedBy = rq_username req, sd_createdAt = now E, sd_revokedAt = None\<rparr>
           in (s\<lparr>depositors := depositors s @ [d], uuid_next := Suc (uuid_next s)\<rparr>, d)))"

definition welcome_text :: string where
  "welcome_text =
     ''An ISMS administrator authorised you to create sensitive documents and to share them with named colleagues in ISMS Portal.'' @ nl @ nl @
     ''You choose who can read each document and for how long: a fixed period, a precise date, or for life. You can revoke access at any time. Every access is logged and watermarked.'' @ nl @ nl @
     ''Handle these documents carefully and only share them with people who need to know.''"

definition addDepositor ::
    "env \<Rightarrow> mailer \<Rightarrow> db \<Rightarrow> request \<Rightarrow> DepositorDto \<Rightarrow> db \<times> (depositor_row \<times> message option) outcome" where
  "addDepositor E M s req body =
     (case admin_guard req of
        Inl e \<Rightarrow> (s, Inl e)
      | Inr _ \<Rightarrow>
          (let identity = normalizeIdentity (dd_identity body)
           in if list_ex is_space identity then (s, Inl (BadRequest ''Invalid identity''))
              else (let (s1, d) = upsert_depositor E s req identity (trimmed_name (dd_displayName body));
                        s2 = record_audit E s1 req ''sensitive.depositor.add''
                          (''sensitive-depositor:'' @ sd_id d) Success (Some (JObj [(''identity'', JStr identity)]))
                    in case portalLink M ''/'' of
                         Inl e \<Rightarrow> (s2, Inl e)
                       | Inr link \<Rightarrow>
                           (s2, Inr (d, sendSensitiveMail M s2 identity
                              ''[ISMS Portal] You can now create and share sensitive documents'' welcome_text link)))))"

definition depositor_open :: "depositor_row \<Rightarrow> bool" where
  "depositor_open d = (sd_revokedAt d = None)"

definition revoke_depositor :: "time \<Rightarrow> depositor_row \<Rightarrow> depositor_row" where
  "revoke_depositor t d = d\<lparr>sd_revokedAt := Some t\<rparr>"

definition removeDepositor :: "env \<Rightarrow> db \<Rightarrow> request \<Rightarrow> string \<Rightarrow> db \<times> unit outcome" where
  "removeDepositor E s req i =
     (case admin_guard req of
        Inl e \<Rightarrow> (s, Inl e)
      | Inr _ \<Rightarrow>
          (case claim (\<lambda>d. sd_id d = i \<and> depositor_open d) (revoke_depositor (now E)) (depositors s) of
             None \<Rightarrow> (s, Inl NotFound)
           | Some rows \<Rightarrow>
               (record_audit E (s\<lparr>depositors := rows\<rparr>) req ''sensitive.depositor.remove''
                  (''sensitive-depositor:'' @ i) Success None, Inr ())))"

definition admin_shares :: "env \<Rightarrow> db \<Rightarrow> request \<Rightarrow> (share_view \<times> string \<times> string) list outcome" where
  "admin_shares E s req =
     (case admin_guard req of
        Inl e \<Rightarrow> Inl e
      | Inr _ \<Rightarrow>
          Inr (map (\<lambda>r. let d = the (document_of s (ss_documentId r)) in (shareRow E r, doc_id d, title_of s d))
            (find_many (\<lambda>r. - ss_createdAt r) 500
              (\<lambda>r. ss_revokedAt r = None \<and> null_or (\<lambda>e. now E < e) (ss_expiresAt r)) (shares s))))"

definition admin_revoke :: "env \<Rightarrow> db \<Rightarrow> request \<Rightarrow> string \<Rightarrow> db \<times> unit outcome" where
  "admin_revoke E s req i =
     (case admin_guard req of
        Inl e \<Rightarrow> (s, Inl e)
      | Inr _ \<Rightarrow>
          (case find_first (\<lambda>r. ss_id r = i) (shares s) of
             None \<Rightarrow> (s, Inl NotFound)
           | Some row \<Rightarrow> (revoke_share E s req row i, Inr ())))"

section \<open>Claims\<close>

interpretation reminder: claim_once ss_id reminder_open "\<lambda>_ :: time. True" mark_reminded
  by unfold_locales (simp_all add: reminder_open_def mark_reminded_def)

interpretation depositor: claim_once sd_id depositor_open "\<lambda>_ :: time. True" revoke_depositor
  by unfold_locales (simp_all add: depositor_open_def revoke_depositor_def)

section \<open>The states of the component\<close>

lemma count_open_revoked:
  "count_rows (\<lambda>r. p r \<and> share_open r) (update_rows q (revoke_row t) rows) =
     count_rows (\<lambda>r. p r \<and> share_open r \<and> \<not> q r) rows"
  by (induction rows) (auto simp: share_open_def revoke_row_def)

lemma find_open_revoked:
  "find_first (\<lambda>r. p r \<and> share_open r) (update_rows q (revoke_row t) rows) =
     find_first (\<lambda>r. p r \<and> share_open r \<and> \<not> q r) rows"
  by (induction rows) (auto simp: share_open_def revoke_row_def)

lemma count_rows_mono: "(\<And>r. p r \<Longrightarrow> q r) \<Longrightarrow> count_rows p rows \<le> count_rows q rows"
  by (induction rows) (auto simp: le_SucI)

lemma find_first_append:
  "find_first p (xs @ ys) = (case find_first p xs of None \<Rightarrow> find_first p ys | Some r \<Rightarrow> Some r)"
  by (induction xs) auto

lemma find_first_cong:
  "(\<And>r. r \<in> set rows \<Longrightarrow> p r = q r) \<Longrightarrow> find_first p rows = find_first q rows"
  by (induction rows) auto

lemma mark_reminded_simps [simp]:
  "ss_id (mark_reminded t r) = ss_id r" "ss_documentId (mark_reminded t r) = ss_documentId r"
  "ss_recipient (mark_reminded t r) = ss_recipient r" "ss_expiresAt (mark_reminded t r) = ss_expiresAt r"
  "ss_revokedAt (mark_reminded t r) = ss_revokedAt r" "share_open (mark_reminded t r) = share_open r"
  "ss_reminderSentAt (mark_reminded t r) = Some t"
  by (simp_all add: mark_reminded_def share_open_def)

lemma revoke_row_simps [simp]:
  "ss_id (revoke_row t r) = ss_id r" "ss_documentId (revoke_row t r) = ss_documentId r"
  "ss_recipient (revoke_row t r) = ss_recipient r" "\<not> share_open (revoke_row t r)"
  by (simp_all add: revoke_row_def share_open_def)

text \<open>The invariant: identifiers do not repeat, a document has at most one share in force per person,
  and the people are stored in normal form.\<close>

definition single_share :: "share_row list \<Rightarrow> bool" where
  "single_share rows \<longleftrightarrow>
     (\<forall>d u. count_rows (\<lambda>r. (ss_documentId r = d \<and> ss_recipient r = u) \<and> share_open r) rows \<le> 1)"

definition shares_ok :: "share_row list \<Rightarrow> bool" where
  "shares_ok rows \<longleftrightarrow>
     distinct (map ss_id rows) \<and> single_share rows \<and>
     (\<forall>r\<in>set rows. normalizeIdentity (ss_recipient r) = ss_recipient r)"

text \<open>The states that the writers of the table reach: besides the operations of this theory, the removal of the mark
  of a document withdraws its shares (\<open>setSensitivity\<close> of \<^verbatim>\<open>controllers.ts\<close>), and the deletion of a document
  deletes them with it.\<close>

inductive sensitive_reachable :: "db \<Rightarrow> bool" where
  start: "shares s = [] \<Longrightarrow> sensitive_reachable s"
| other: "sensitive_reachable s \<Longrightarrow> shares s' = shares s \<Longrightarrow> sensitive_reachable s'"
| share: "sensitive_reachable s \<Longrightarrow> uuid E (uuid_next s) \<notin> ss_id ` set (shares s) \<Longrightarrow>
    sensitive_reachable (fst (share E M s req i body))"
| revoke: "sensitive_reachable s \<Longrightarrow> sensitive_reachable (fst (revoke E s req i))"
| admin_revoke: "sensitive_reachable s \<Longrightarrow> sensitive_reachable (fst (admin_revoke E s req i))"
| remind: "sensitive_reachable s \<Longrightarrow> sensitive_reachable (fst (remindExpiringSensitiveShares E M s))"
| unmark: "sensitive_reachable s \<Longrightarrow>
    shares s' = update_rows (\<lambda>r. ss_documentId r = i \<and> share_open r) (revoke_row t) (shares s) \<Longrightarrow> sensitive_reachable s'"
| cascade: "sensitive_reachable s \<Longrightarrow> shares s' = delete_rows (\<lambda>r. ss_documentId r = i) (shares s) \<Longrightarrow> sensitive_reachable s'"

lemma normalizeIdentity_idem [simp]: "normalizeIdentity (normalizeIdentity v) = normalizeIdentity v"
  by (simp add: normalizeIdentity_def trim_toLowerCase)

lemma revoked_ok:
  assumes "shares_ok rows"
  shows "shares_ok (update_rows q (revoke_row t) rows)"
proof -
  have "map ss_id (update_rows q (revoke_row t) rows) = map ss_id rows"
    by (rule map_update_rows) simp
  moreover have "single_share (update_rows q (revoke_row t) rows)"
    unfolding single_share_def count_open_revoked
  proof (intro allI)
    fix d u
    have "count_rows (\<lambda>r. (ss_documentId r = d \<and> ss_recipient r = u) \<and> share_open r \<and> \<not> q r) rows \<le>
        count_rows (\<lambda>r. (ss_documentId r = d \<and> ss_recipient r = u) \<and> share_open r) rows"
      by (rule count_rows_mono) blast
    also have "\<dots> \<le> 1" using assms unfolding shares_ok_def single_share_def by blast
    finally show "count_rows (\<lambda>r. (ss_documentId r = d \<and> ss_recipient r = u) \<and> share_open r \<and> \<not> q r) rows \<le> 1" .
  qed
  moreover have "\<forall>r\<in>set (update_rows q (revoke_row t) rows). normalizeIdentity (ss_recipient r) = ss_recipient r"
    using assms unfolding shares_ok_def by (auto elim!: update_rows_origin)
  ultimately show ?thesis using assms unfolding shares_ok_def by simp
qed

lemma count_same_open:
  "count_rows (\<lambda>r. p (ss_documentId r) (ss_recipient r) \<and> share_open r) (update_rows q (mark_reminded t) rows) =
     count_rows (\<lambda>r. p (ss_documentId r) (ss_recipient r) \<and> share_open r) rows"
  by (induction rows) simp_all

lemma reminded_ok:
  assumes "shares_ok rows" and "claim (\<lambda>r. ss_id r = i \<and> reminder_open r) (mark_reminded t) rows = Some rows'"
  shows "shares_ok rows'"
proof -
  have "map ss_id rows' = map ss_id rows" by (rule reminder.claim_keeps_keys [OF assms(2)])
  moreover have "single_share rows'"
    using assms count_same_open [where p = "\<lambda>x y. x = d \<and> y = u" for d u]
    unfolding claim_Some_iff shares_ok_def single_share_def by auto
  moreover have "normalizeIdentity (ss_recipient r) = ss_recipient r" if "r \<in> set rows'" for r
  proof -
    from claim_origin [OF assms(2) that] obtain x where x: "x \<in> set rows"
      "r = (if ss_id x = i \<and> reminder_open x then mark_reminded t x else x)" by blast
    then show ?thesis using assms(1) by (cases "ss_id x = i \<and> reminder_open x") (auto simp: shares_ok_def)
  qed
  ultimately show ?thesis using assms(1) unfolding shares_ok_def by simp
qed

text \<open>What every single claim keeps, the loop keeps.\<close>

lemma remind_loop_invariant:
  assumes step: "\<And>rows rows' i. p rows \<Longrightarrow>
      claim (\<lambda>r. ss_id r = i \<and> reminder_open r) (mark_reminded (now E)) rows = Some rows' \<Longrightarrow> p rows'"
  shows "p (shares s) \<Longrightarrow> p (shares (fst (remind_loop E M s sent due)))"
proof (induction due arbitrary: s sent)
  case (Cons sh due)
  show ?case
  proof (cases "claim (\<lambda>r. ss_id r = ss_id sh \<and> reminder_open r) (mark_reminded (now E)) (shares s)")
    case None
    with Cons show ?thesis by simp
  next
    case (Some rows)
    have "p (shares (s\<lparr>shares := rows\<rparr>))" using step [OF Cons.prems Some] by simp
    with Some Cons.IH [OF this] show ?thesis
      by (simp add: Let_def step [OF Cons.prems Some] split: option.split sum.split)
  qed
qed simp

lemma replaced_ok:
  assumes "shares_ok (shares s)" and "uuid E (uuid_next s) \<notin> ss_id ` set (shares s)"
    and "normalizeIdentity recipient = recipient"
  shows "shares_ok (shares (fst (replace_share E s req i recipient e)))"
proof -
  let ?q = "\<lambda>r. ss_documentId r = i \<and> ss_recipient r = recipient \<and> share_open r"
  let ?rows = "update_rows ?q (revoke_row (now E)) (shares s)"
  have ok: "shares_ok ?rows" by (rule revoked_ok [OF assms(1)])
  have ids: "map ss_id ?rows = map ss_id (shares s)" by (rule map_update_rows) simp
  have none: "count_rows (\<lambda>r. (ss_documentId r = i \<and> ss_recipient r = recipient) \<and> share_open r) ?rows = 0"
    unfolding count_open_revoked count_rows_0_iff by auto
  have "count_rows (\<lambda>r. (ss_documentId r = d \<and> ss_recipient r = u) \<and> share_open r)
      (?rows @ [new_share E s req i recipient e]) \<le> 1" for d u
  proof (cases "d = i \<and> u = recipient")
    case True
    with none show ?thesis by simp
  next
    case False
    then show ?thesis using ok unfolding shares_ok_def single_share_def
      by (auto simp: new_share_def)
  qed
  moreover have "distinct (map ss_id (?rows @ [new_share E s req i recipient e]))"
    using assms(1,2) ids by (auto simp: new_share_def shares_ok_def dest: arg_cong [where f = set])
  ultimately show ?thesis
    using ok assms(3) unfolding shares_ok_def single_share_def replace_share_def Let_def
    by (auto simp: new_share_def)
qed

lemma share_cases:
  "shares (fst (share E M s req i body)) = shares s \<or>
   (\<exists>e. resolveExpiry E body = Inr e \<and> shares (fst (share E M s req i body)) =
      shares (fst (replace_share E s req i (normalizeIdentity (sh_recipient body)) e)))"
  by (auto simp: share_def Let_def case_prod_beta split: sum.split)

lemma revoke_share_shares [simp]:
  "shares (revoke_share E s req row k) =
     update_rows (\<lambda>r. ss_id r = ss_id row \<and> share_open r) (revoke_row (now E)) (shares s)"
  by (simp add: revoke_share_def)

lemma deleted_ok:
  assumes "shares_ok rows"
  shows "shares_ok (delete_rows q rows)"
proof -
  have "count_rows p (delete_rows q rows) \<le> count_rows p rows" for p
    by (induction rows) (simp_all add: delete_rows_def count_rows_def)
  then have "single_share (delete_rows q rows)"
    using assms unfolding shares_ok_def single_share_def by (meson le_trans)
  then show ?thesis using assms by (auto simp: shares_ok_def delete_rows_def distinct_map_filter)
qed

lemma sensitive_invariant: "sensitive_reachable s \<Longrightarrow> shares_ok (shares s)"
proof (induction rule: sensitive_reachable.induct)
  case (share s E M req i body)
  then show ?case using share_cases [of E M s req i body] replaced_ok [of s E] by auto
qed (auto simp: shares_ok_def [of "[]"] single_share_def revoke_def admin_revoke_def remindExpiringSensitiveShares_def
  intro: revoked_ok deleted_ok remind_loop_invariant [where p = shares_ok] reminded_ok split: sum.split option.split)

section \<open>Access lists\<close>

text \<open>What the component promises: a document has an access list, a map from people to the end of their
  access (no end for a lifetime share). Sharing writes one entry, revoking removes one, and access is
  the entry not having ended.\<close>

type_synonym access_list = "string \<times> string \<Rightarrow> time option option"

definition access_of :: "db \<Rightarrow> access_list" where
  "access_of s = (\<lambda>(d, u). map_option ss_expiresAt
     (find_first (\<lambda>r. (ss_documentId r = d \<and> ss_recipient r = u) \<and> share_open r) (shares s)))"

definition may_access :: "access_list \<Rightarrow> time \<Rightarrow> string \<Rightarrow> string \<Rightarrow> bool" where
  "may_access m t d u = some_and (null_or (\<lambda>e. t < e)) (m (d, u))"

lemma single_share_unique:
  assumes "shares_ok rows" and "a \<in> set rows" and "b \<in> set rows" and "share_open a" and "share_open b"
    and "ss_documentId a = ss_documentId b" and "ss_recipient a = ss_recipient b"
  shows "a = b"
proof (rule ccontr)
  assume "a \<noteq> b"
  let ?p = "\<lambda>r. (ss_documentId r = ss_documentId a \<and> ss_recipient r = ss_recipient a) \<and> share_open r"
  have "{a, b} \<subseteq> set (filter ?p rows)" using assms by auto
  then have "card {a, b} \<le> count_rows ?p rows"
    unfolding count_rows_def by (meson List.finite_set card_length card_mono le_trans)
  moreover have "count_rows ?p rows \<le> 1" using assms(1) unfolding shares_ok_def single_share_def by blast
  ultimately show False using \<open>a \<noteq> b\<close> by simp
qed

lemma hasSensitiveShare_ex:
  "hasSensitiveShare E s d u \<longleftrightarrow> (\<exists>r\<in>set (shares s). ss_documentId r = d \<and> activeShareWhere u (now E) r)"
  unfolding hasSensitiveShare_def by (auto simp: find_first_None_iff)

lemma hasSensitiveShare_iff:
  assumes "shares_ok (shares s)"
  shows "hasSensitiveShare E s d u \<longleftrightarrow> may_access (access_of s) (now E) d (normalizeIdentity u)"
proof (cases "find_first (\<lambda>r. (ss_documentId r = d \<and> ss_recipient r = normalizeIdentity u) \<and> share_open r) (shares s)")
  case None
  then have "\<not> hasSensitiveShare E s d u"
    by (auto simp: hasSensitiveShare_def activeShareWhere_def share_open_def find_first_None_iff)
  with None show ?thesis by (simp add: may_access_def access_of_def)
next
  case (Some r)
  have r: "r \<in> set (shares s)" "ss_documentId r = d" "ss_recipient r = normalizeIdentity u" "share_open r"
    using find_first_Some [OF Some] by auto
  have uniq: "x = r" if "x \<in> set (shares s)" "ss_documentId x = d" "activeShareWhere u (now E) x" for x
    using that r single_share_unique [OF assms that(1) r(1)] by (simp add: activeShareWhere_def share_open_def)
  have "hasSensitiveShare E s d u \<longleftrightarrow> activeShareWhere u (now E) r"
  proof
    assume "hasSensitiveShare E s d u"
    then obtain x where x: "x \<in> set (shares s)" "ss_documentId x = d" "activeShareWhere u (now E) x"
      unfolding hasSensitiveShare_ex by blast
    with uniq [OF x] show "activeShareWhere u (now E) r" by simp
  qed (use r(1,2) in \<open>unfold hasSensitiveShare_ex, blast\<close>)
  also have "\<dots> \<longleftrightarrow> may_access (access_of s) (now E) d (normalizeIdentity u)"
    using r Some by (simp add: may_access_def access_of_def activeShareWhere_def share_open_def)
  finally show ?thesis .
qed

lemma access_of_replace:
  "access_of (fst (replace_share E s req i recipient e)) = (access_of s)((i, recipient) \<mapsto> e)"
proof (rule ext, clarify)
  fix d u
  let ?q = "\<lambda>r. ss_documentId r = i \<and> ss_recipient r = recipient \<and> share_open r"
  let ?p = "\<lambda>r. (ss_documentId r = d \<and> ss_recipient r = u) \<and> share_open r"
  let ?rows = "update_rows ?q (revoke_row (now E)) (shares s)"
  have "find_first ?p ?rows =
      (if (d, u) = (i, recipient) then None else find_first ?p (shares s))"
    unfolding find_open_revoked
    by (auto simp: find_first_None_iff intro!: find_first_cong)
  then show "access_of (fst (replace_share E s req i recipient e)) (d, u) = ((access_of s)((i, recipient) \<mapsto> e)) (d, u)"
    by (auto simp: access_of_def replace_share_def Let_def find_first_append new_share_def share_open_def
        split: option.split)
qed

lemma access_of_shares: "shares s' = shares s \<Longrightarrow> access_of s' = access_of s"
  by (simp add: access_of_def)

lemma access_of_revoke:
  assumes "shares_ok (shares s)" and "row \<in> set (shares s)"
  shows "access_of (revoke_share E s req row k) =
     (if share_open row then (access_of s)((ss_documentId row, ss_recipient row) := None) else access_of s)"
proof (rule ext, clarify)
  fix d u
  let ?p = "\<lambda>r. (ss_documentId r = d \<and> ss_recipient r = u) \<and> share_open r"
  have id_row: "r = row" if "r \<in> set (shares s)" "ss_id r = ss_id row" for r
    using key_unique [of ss_id "shares s" r row] assms that by (auto simp: shares_ok_def)
  have "find_first ?p (shares (revoke_share E s req row k)) =
      (if share_open row \<and> (d, u) = (ss_documentId row, ss_recipient row) then None else find_first ?p (shares s))"
  proof (cases "share_open row \<and> (d, u) = (ss_documentId row, ss_recipient row)")
    case True
    have "r = row" if "r \<in> set (shares s)" "?p r" for r
      using single_share_unique [OF assms(1) that(1) assms(2)] that(2) True by auto
    with True show ?thesis
      unfolding revoke_share_shares find_open_revoked by (auto simp: find_first_None_iff)
  next
    case False
    have "?p r \<Longrightarrow> \<not> (ss_id r = ss_id row \<and> share_open r)" if "r \<in> set (shares s)" for r
      using id_row [OF that] False by auto
    then show ?thesis
      unfolding revoke_share_shares find_open_revoked if_not_P [OF False] by (intro find_first_cong) auto
  qed
  then show "access_of (revoke_share E s req row k) (d, u) =
      (if share_open row then (access_of s)((ss_documentId row, ss_recipient row) := None) else access_of s) (d, u)"
    by (simp add: access_of_def)
qed

section \<open>Properties\<close>

lemma sharableDocument_Inr:
  assumes "sharableDocument E s req i = Inr d"
  shows "isSensitiveDepositor s (rq_username req)" "d \<in> set (documents s)" "doc_id d = i"
    "doc_sensitive d" "doc_status d = PUBLISHED" "doc_deletedAt d = None"
    "can E s (rq_groups req) (doc_spaceId d) Preview (InCategory (doc_categoryId d))"
  using assms by (auto simp: sharableDocument_def assertSensitiveDepositor_def dest!: find_first_Some
      split: if_splits option.splits)

lemma share_Inr:
  assumes "share E M s req i body = (s', Inr (v, m))"
  obtains d e where "sharableDocument E s req i = Inr d" "resolveExpiry E body = Inr e"
    "normalizeIdentity (sh_recipient body) \<noteq> normalizeIdentity (rq_username req)"
    "shares s' = shares (fst (replace_share E s req i (normalizeIdentity (sh_recipient body)) e))"
    "map ae_action (audits s') = map ae_action (audits s) @ [''sensitive.share.create'']"
  using assms
  by (auto simp: share_def Let_def case_prod_beta replace_share_def split: sum.splits if_splits)

definition sensitive_db :: db where
  "sensitive_db = sample_db\<lparr>documents := [sample_document\<lparr>doc_sensitive := True\<rparr>],
     depositors := [\<lparr>sd_id = ''p1'', sd_identity = ''ann'', sd_displayName = None, sd_addedBy = ''root'',
       sd_createdAt = 1, sd_revokedAt = None\<rparr>]\<rparr>"

definition week_for :: "string \<Rightarrow> ShareDto" where
  "week_for u = \<lparr>sh_recipient = u, sh_duration = Days7, sh_expiresAt = None\<rparr>"

definition depositor_request :: request where
  "depositor_request = sample_request ''Ann'' [''Staff'']"

definition shared_row :: share_row where
  "shared_row = \<lparr>ss_id = ''id0'', ss_documentId = ''d1'', ss_recipient = ''bob'', ss_createdBy = ''Ann'',
     ss_createdAt = 1000, ss_expiresAt = Some 604801000, ss_revokedAt = None, ss_reminderSentAt = None\<rparr>"

definition shared_db :: db where
  "shared_db = sensitive_db\<lparr>shares := [shared_row]\<rparr>"

lemma sensitive_db_reachable: "sensitive_reachable sensitive_db"
  by (rule sensitive_reachable.start) (simp add: sensitive_db_def sample_db_def empty_db_def)

lemma sample_share:
  "\<exists>s' v m. share sample_env mail_setup sensitive_db depositor_request ''d1'' (week_for ''Bob'') = (s', Inr (v, m)) \<and>
     shares s' = [shared_row]"
proof -
  have "sharableDocument sample_env sensitive_db depositor_request ''d1'' = Inr (sample_document\<lparr>doc_sensitive := True\<rparr>)"
    "resolveExpiry sample_env (week_for ''Bob'') = Inr (Some 604801000)"
    "normalizeIdentity ''Bob'' = ''bob''" "normalizeIdentity (rq_username depositor_request) = ''ann''"
    "list_ex is_space ''bob'' = False" "sh_recipient (week_for ''Bob'') = ''Bob''"
    "shares (fst (replace_share sample_env sensitive_db depositor_request ''d1'' ''bob'' (Some 604801000))) = [shared_row]"
    by code_simp+
  then show ?thesis
    by (simp add: share_def Let_def case_prod_beta portalLink_def mail_setup_def)
qed

lemma shared_db_reachable: "sensitive_reachable shared_db"
proof -
  obtain s' v m where "share sample_env mail_setup sensitive_db depositor_request ''d1'' (week_for ''Bob'') = (s', Inr (v, m))"
    "shares s' = [shared_row]" using sample_share by blast
  moreover from this have "sensitive_reachable s'"
    using sensitive_reachable.share [OF sensitive_db_reachable, of sample_env mail_setup depositor_request "''d1''" "week_for ''Bob''"]
    by (simp add: sensitive_db_def sample_db_def empty_db_def)
  ultimately show ?thesis using sensitive_reachable.other [of s' shared_db] by (simp add: shared_db_def)
qed

text \<open>C22: sharing adds exactly one entry to the access lists. When a share is created, its author is a
  designated depositor who may preview the published sensitive document, the person is somebody else,
  the event is on the record, and from then on that person, whatever the spelling of the identity, has
  access until the chosen end; every other access is as before. A share made earlier for the same
  person is replaced.\<close>

theorem share_refines_access:
  assumes "sensitive_reachable s" and "uuid E (uuid_next s) \<notin> ss_id ` set (shares s)"
    and "share E M s req i body = (s', Inr (v, m))"
  shows "isSensitiveDepositor s (rq_username req) \<and>
    (\<exists>d\<in>set (documents s). doc_id d = i \<and> doc_sensitive d \<and> doc_status d = PUBLISHED \<and>
       can E s (rq_groups req) (doc_spaceId d) Preview (InCategory (doc_categoryId d))) \<and>
    map ae_action (audits s') = map ae_action (audits s) @ [''sensitive.share.create''] \<and>
    (\<exists>e u. resolveExpiry E body = Inr e \<and> u = normalizeIdentity (sh_recipient body) \<and>
       u \<noteq> normalizeIdentity (rq_username req) \<and>
       access_of s' = (access_of s)((i, u) \<mapsto> e) \<and>
       (\<forall>E' d w. hasSensitiveShare E' s' d w \<longleftrightarrow>
          (if d = i \<and> normalizeIdentity w = u then null_or (\<lambda>x. now E' < x) e else hasSensitiveShare E' s d w)))"
  using assms(3)
proof (cases rule: share_Inr)
  case (1 d e)
  let ?u = "normalizeIdentity (sh_recipient body)"
  have acc: "access_of s' = (access_of s)((i, ?u) \<mapsto> e)"
    using access_of_shares [OF 1(4)] access_of_replace by simp
  have ok: "shares_ok (shares s)" "shares_ok (shares s')"
    using sensitive_invariant [OF assms(1)] replaced_ok [OF _ assms(2), of ?u] 1(4) by simp_all
  have "hasSensitiveShare E' s' x w \<longleftrightarrow>
      (if x = i \<and> normalizeIdentity w = ?u then null_or (\<lambda>y. now E' < y) e else hasSensitiveShare E' s x w)" for E' x w
    unfolding hasSensitiveShare_iff [OF ok(1)] hasSensitiveShare_iff [OF ok(2)] acc by (auto simp: may_access_def)
  with 1 acc sharableDocument_Inr [OF 1(1)] show ?thesis by blast
qed

theorem share_refines_access_witness:
  "\<exists>s' v m. share sample_env mail_setup sensitive_db depositor_request ''d1'' (week_for ''Bob'') = (s', Inr (v, m)) \<and>
     hasSensitiveShare sample_env s' ''d1'' '' BOB'' \<and>
     \<not> hasSensitiveShare (sample_env\<lparr>now := 604801000\<rparr>) s' ''d1'' ''bob''"
proof -
  obtain s' v m where r: "share sample_env mail_setup sensitive_db depositor_request ''d1'' (week_for ''Bob'') = (s', Inr (v, m))"
    using sample_share by blast
  have "resolveExpiry sample_env (week_for ''Bob'') = Inr (Some 604801000)"
    "normalizeIdentity ''Bob'' = ''bob''" "normalizeIdentity '' BOB'' = ''bob''" "normalizeIdentity ''bob'' = ''bob''"
    by code_simp+
  moreover have "uuid sample_env (uuid_next sensitive_db) \<notin> ss_id ` set (shares sensitive_db)"
    by (simp add: sensitive_db_def sample_db_def empty_db_def)
  ultimately show ?thesis
    using r share_refines_access [OF sensitive_db_reachable _ r] by (auto simp: week_for_def sample_env_def)
qed

text \<open>A revocation takes effect at once, whoever issues it. After a depositor or an administrator has
  revoked a share that was in force, nobody has access through it at any later time: the entry is gone
  from the access list and all other entries are kept; revoking a share that was no longer in force
  changes no access.\<close>

theorem revocation_refines_access:
  assumes "sensitive_reachable s" and "revoke E s req i = (s', Inr ()) \<or> admin_revoke E s req i = (s', Inr ())"
  shows "\<exists>r\<in>set (shares s). ss_id r = i \<and>
    access_of s' = (if share_open r then (access_of s)((ss_documentId r, ss_recipient r) := None) else access_of s) \<and>
    (\<forall>E' d w. hasSensitiveShare E' s' d w \<longleftrightarrow>
       hasSensitiveShare E' s d w \<and> \<not> (share_open r \<and> d = ss_documentId r \<and> normalizeIdentity w = ss_recipient r)) \<and>
    map ae_action (audits s') = map ae_action (audits s) @ [''sensitive.share.revoke'']"
proof -
  obtain r where f: "find_first (\<lambda>r. ss_id r = i) (shares s) = Some r" and s': "s' = revoke_share E s req r i"
    using assms(2) by (auto simp: revoke_def admin_revoke_def split: sum.splits option.splits)
  have r: "r \<in> set (shares s)" "ss_id r = i" using find_first_Some [OF f] by auto
  have ok: "shares_ok (shares s)" "shares_ok (shares s')"
    using sensitive_invariant [OF assms(1)] revoked_ok s' by auto
  note acc = access_of_revoke [OF ok(1) r(1), of E req i, folded s']
  have "hasSensitiveShare E' s' d w \<longleftrightarrow>
      hasSensitiveShare E' s d w \<and> \<not> (share_open r \<and> d = ss_documentId r \<and> normalizeIdentity w = ss_recipient r)" for E' d w
    unfolding hasSensitiveShare_iff [OF ok(1)] hasSensitiveShare_iff [OF ok(2)] acc by (auto simp: may_access_def)
  moreover have "map ae_action (audits s') = map ae_action (audits s) @ [''sensitive.share.revoke'']"
    by (simp add: s' revoke_share_def)
  ultimately show ?thesis using r acc by blast
qed

theorem revocation_refines_access_witness:
  "\<exists>s'. admin_revoke sample_env shared_db (sample_request ''root'' [''ISMS-LOCAL-ADMINS'']) ''id0'' = (s', Inr ()) \<and>
     \<not> hasSensitiveShare sample_env s' ''d1'' ''bob''"
proof -
  let ?r = "admin_revoke sample_env shared_db (sample_request ''root'' [''ISMS-LOCAL-ADMINS'']) ''id0''"
  have ev: "normalizeIdentity ''bob'' = ''bob''" "isAdminIdentity (rq_groups (sample_request ''root'' [''ISMS-LOCAL-ADMINS'']))"
    by code_simp+
  have "snd ?r = Inr ()"
    using ev(2) by (simp add: admin_revoke_def admin_guard_def guard_admin_class shared_db_def shared_row_def)
  then obtain s' where r: "?r = (s', Inr ())" by (metis prod.collapse)
  have row: "share_open r \<and> ss_documentId r = ''d1'' \<and> ss_recipient r = ''bob''" if "r \<in> set (shares shared_db)" for r
    using that by (simp add: share_open_def shared_db_def shared_row_def)
  have "revoke sample_env shared_db (sample_request ''root'' [''ISMS-LOCAL-ADMINS'']) ''id0'' = (s', Inr ()) \<or>
      admin_revoke sample_env shared_db (sample_request ''root'' [''ISMS-LOCAL-ADMINS'']) ''id0'' = (s', Inr ())"
    using r by (rule disjI2)
  from revocation_refines_access [OF shared_db_reachable this] obtain x where "x \<in> set (shares shared_db)"
    "\<forall>E' d w. hasSensitiveShare E' s' d w \<longleftrightarrow> hasSensitiveShare E' shared_db d w \<and>
       \<not> (share_open x \<and> d = ss_documentId x \<and> normalizeIdentity w = ss_recipient x)" by blast
  with row [of x] ev(1) have "\<not> hasSensitiveShare sample_env s' ''d1'' ''bob''" by simp
  with r show ?thesis by blast
qed

text \<open>The end of a share is in the future and at most five years away; only the lifetime choice has no
  end, and a custom date outside these bounds, missing or invalid is refused.\<close>

theorem resolveExpiry_bounds:
  "(case resolveExpiry E body of
      Inr None \<Rightarrow> sh_duration body = Lifetime
    | Inr (Some e) \<Rightarrow> now E < e \<and> e \<le> now E + 1825 * 86400000 \<and>
        (sh_duration body = Custom \<longrightarrow> sh_expiresAt body = Some (Some e))
    | Inl err \<Rightarrow> sh_duration body = Custom \<and>
        (\<forall>e. sh_expiresAt body = Some (Some e) \<longrightarrow> e \<le> now E \<or> now E + 1825 * 86400000 < e))"
  by (cases "sh_duration body")
    (auto simp: resolveExpiry_def MAX_CUSTOM_DAYS_def day_ms_def split: option.split)

theorem resolveExpiry_bounds_witness:
  "resolveExpiry sample_env (week_for ''bob'') = Inr (Some 604801000) \<and> (1000::int) < 604801000"
  using resolveExpiry_bounds [where E = sample_env and body = "week_for ''bob''"]
  by (simp add: week_for_def resolveExpiry_def sample_env_def day_ms_def)

section \<open>Reminders\<close>

lemma update_rows_fuse:
  assumes "distinct (map key rows)" and "\<And>x. key (f x) = key x" and "d \<in> set rows" and "key d \<notin> key ` A"
    and "A \<subseteq> set rows"
  shows "update_rows (\<lambda>r. r \<in> A) f (update_rows (\<lambda>r. key r = key d) f rows) =
     update_rows (\<lambda>r. r = d \<or> r \<in> A) f rows"
proof -
  have "(if (if key r = key d then f r else r) \<in> A then f (if key r = key d then f r else r)
      else if key r = key d then f r else r) = (if r = d \<or> r \<in> A then f r else r)" if "r \<in> set rows" for r
  proof (cases "key r = key d")
    case True
    then have "r = d" by (rule key_unique [OF assms(1) that assms(3)])
    moreover have "f d \<notin> A" using assms(2,4) by (metis imageI)
    ultimately show ?thesis by simp
  next
    case False
    then show ?thesis by auto
  qed
  then show ?thesis unfolding update_rows_def by simp
qed

lemma remind_loop_marks:
  assumes "distinct (map ss_id (shares s))" and "set ds \<subseteq> set (shares s)" and "distinct (map ss_id ds)"
    and "\<forall>d\<in>set ds. reminder_open d" and "\<forall>d\<in>set ds. document_of s (ss_documentId d) \<noteq> None"
    and "\<And>path. \<not> isl (portalLink M path)"
  shows "\<exists>msgs. remind_loop E M s sent ds =
      (s\<lparr>shares := update_rows (\<lambda>r. r \<in> set ds) (mark_reminded (now E)) (shares s)\<rparr>, sent @ msgs, Inr ()) \<and>
      length msgs \<le> length ds"
  using assms(1-5)
proof (induction ds arbitrary: s sent)
  case Nil
  then show ?case by (simp add: update_rows_none)
next
  case (Cons d ds)
  let ?p = "\<lambda>r. ss_id r = ss_id d \<and> reminder_open r"
  let ?rows = "update_rows ?p (mark_reminded (now E)) (shares s)"
  let ?s = "s\<lparr>shares := ?rows\<rparr>"
  have d: "d \<in> set (shares s)" "reminder_open d" using Cons.prems by simp_all
  have "count_rows ?p (shares s) = 1"
    using count_rows_key_le_1 [OF Cons.prems(1), of "ss_id d" reminder_open]
      count_rows_key_pos [OF Cons.prems(1) d(1), of reminder_open] d(2) by simp
  then have cl: "claim ?p (mark_reminded (now E)) (shares s) = Some ?rows" by (simp add: claim_Some_iff)
  have same: "?rows = update_rows (\<lambda>r. ss_id r = ss_id d) (mark_reminded (now E)) (shares s)"
    using key_unique [OF Cons.prems(1) _ d(1)] d(2) unfolding update_rows_def by auto
  have keys: "map ss_id (shares ?s) = map ss_id (shares s)"
    using reminder.claim_keeps_keys [OF cl] by simp
  have new: "ss_id d \<notin> ss_id ` set ds" using Cons.prems(3) by simp
  have sub: "set ds \<subseteq> set (shares ?s)"
  proof
    fix x assume x: "x \<in> set ds"
    with new have "ss_id x \<noteq> ss_id d" by (metis imageI)
    with x Cons.prems(2) show "x \<in> set (shares ?s)" by (auto intro: update_rows_frame)
  qed
  have doc: "document_of ?s = document_of s" by (rule ext) (simp add: document_of_def)
  obtain dc where dc: "document_of s (ss_documentId d) = Some dc" using Cons.prems(5) by auto
  obtain link where link: "portalLink M (document_path dc) = Inr link" using assms(6) by (metis isl_def sum.exhaust)
  have fuse: "update_rows (\<lambda>r. r \<in> set ds) (mark_reminded (now E)) ?rows =
      update_rows (\<lambda>r. r \<in> set (d # ds)) (mark_reminded (now E)) (shares s)"
    unfolding same using Cons.prems(2)
    by (subst update_rows_fuse [OF Cons.prems(1) _ d(1) new]) auto
  have IH: "\<exists>msgs. remind_loop E M ?s sent' ds =
      (s\<lparr>shares := update_rows (\<lambda>r. r \<in> set (d # ds)) (mark_reminded (now E)) (shares s)\<rparr>, sent' @ msgs, Inr ()) \<and>
      length msgs \<le> length ds" for sent'
    using Cons.IH [of ?s sent'] Cons.prems keys sub doc fuse by simp
  show ?case
  proof (cases "sendSensitiveMail M ?s (ss_recipient d) ''[ISMS Portal] Sensitive document access expires soon''
      (reminder_text (title_of s dc) (ss_expiresAt d)) link")
    case None
    with IH [of sent] show ?thesis by (auto simp: cl dc link)
  next
    case (Some m)
    from IH [of "sent @ [m]"] obtain msgs where "remind_loop E M ?s (sent @ [m]) ds =
      (s\<lparr>shares := update_rows (\<lambda>r. r \<in> set (d # ds)) (mark_reminded (now E)) (shares s)\<rparr>, sent @ m # msgs, Inr ())"
      "length msgs \<le> length ds" by auto
    with Some show ?thesis by (auto simp: cl dc link intro!: exI [of _ "m # msgs"])
  qed
qed

text \<open>Each share is reminded once. When the links to the portal can be built and at most fifty shares
  are due, one run marks every share that is due and no other, sends at most one message for each, and
  a second run at any time finds none of them due.\<close>

theorem reminders_once:
  assumes "sensitive_reachable s" and "\<And>path. \<not> isl (portalLink M path)"
    and "count_rows (reminder_due E s) (shares s) \<le> 50"
  shows "\<exists>s' msgs. remindExpiringSensitiveShares E M s = (s', msgs, Inr ()) \<and>
    shares s' = update_rows (reminder_due E s) (mark_reminded (now E)) (shares s) \<and>
    length msgs \<le> count_rows (reminder_due E s) (shares s) \<and>
    (\<forall>r\<in>set (shares s). reminder_due E s r \<longrightarrow>
       (\<forall>r'\<in>set (shares s'). ss_id r' = ss_id r \<longrightarrow> (\<forall>E' s''. \<not> reminder_due E' s'' r')))"
proof -
  let ?ds = "filter (reminder_due E s) (shares s)"
  have dist: "distinct (map ss_id (shares s))" using sensitive_invariant [OF assms(1)] by (simp add: shares_ok_def)
  have "\<exists>msgs. remind_loop E M s [] ?ds =
      (s\<lparr>shares := update_rows (\<lambda>r. r \<in> set ?ds) (mark_reminded (now E)) (shares s)\<rparr>, [] @ msgs, Inr ()) \<and>
      length msgs \<le> length ?ds"
    using dist assms(2)
    by (intro remind_loop_marks)
      (auto simp: reminder_due_def reminder_open_def some_and_iff distinct_map_filter)
  moreover have "take 50 ?ds = ?ds" using assms(3) by (simp add: count_rows_def)
  moreover have "update_rows (\<lambda>r. r \<in> set ?ds) (mark_reminded (now E)) (shares s) =
      update_rows (reminder_due E s) (mark_reminded (now E)) (shares s)"
    unfolding update_rows_def by simp
  moreover have "\<not> reminder_due E' s'' r'"
    if r: "r \<in> set (shares s)" "reminder_due E s r" "ss_id r' = ss_id r"
      and r': "r' \<in> set (update_rows (reminder_due E s) (mark_reminded (now E)) (shares s))" for r r' E' s''
  proof -
    from r' obtain x where x: "x \<in> set (shares s)" "r' = (if reminder_due E s x then mark_reminded (now E) x else x)"
      by (rule update_rows_origin)
    then have "ss_id x = ss_id r" using r(3) by (auto split: if_splits)
    then have "x = r" by (rule key_unique [OF dist x(1) r(1)])
    with x r(2) show ?thesis by (simp add: reminder_due_def)
  qed
  ultimately show ?thesis unfolding remindExpiringSensitiveShares_def count_rows_def by fastforce
qed

definition late_env :: env where
  "late_env = sample_env\<lparr>now := 500000000\<rparr>"

theorem reminders_once_witness:
  "\<exists>s' msgs. remindExpiringSensitiveShares late_env mail_setup shared_db = (s', msgs, Inr ()) \<and>
     map ss_reminderSentAt (shares s') = [Some 500000000]"
proof -
  have ev: "map (reminder_due late_env shared_db) (shares shared_db) = [True]"
    "count_rows (reminder_due late_env shared_db) (shares shared_db) \<le> 50" "now late_env = 500000000"
    by code_simp+
  have "\<not> isl (portalLink mail_setup path)" for path by (simp add: portalLink_def mail_setup_def)
  from reminders_once [OF shared_db_reachable this ev(2)] ev(1,3) show ?thesis
    by (auto simp: shared_db_def)
qed

section \<open>Depositors\<close>

text \<open>Removing a depositor takes effect at once. Only an administrator removes one; afterwards every
  request of that person, whatever the spelling of the identity, to list recipients, to list, create or
  revoke shares is refused and changes nothing, until the person is added again.\<close>

theorem removeDepositor_effective:
  assumes "removeDepositor E s req i = (s', Inr ())" and "distinct (map sd_id (depositors s))"
    and "distinct (map sd_identity (depositors s))"
  shows "isAdminIdentity (rq_groups req) \<and>
    (\<exists>d\<in>set (depositors s). sd_id d = i \<and>
       (\<forall>req' e. normalizeIdentity (rq_username req') = sd_identity d \<longrightarrow>
          e = Forbidden ''Only designated users can create or share sensitive documents'' \<longrightarrow>
          share E' M s' req' doc body = (s', Inl e) \<and> revoke E' s' req' sid = (s', Inl e) \<and>
          list_shares E' s' req' doc = Inl e \<and> directoryUsers search s' req' q = Inl e))"
proof -
  obtain rows where adm: "isAdminIdentity (rq_groups req)"
    and c: "claim (\<lambda>d. sd_id d = i \<and> depositor_open d) (revoke_depositor (now E)) (depositors s) = Some rows"
    and deps: "depositors s' = rows"
    using assms(1) by (auto simp: removeDepositor_def admin_guard_def guard_admin_class split: option.splits if_splits)
  from c obtain d where d: "d \<in> set (depositors s)" "sd_id d = i" by (rule claim_row) auto
  have "\<not> isSensitiveDepositor s' u" if u: "normalizeIdentity u = sd_identity d" for u
  proof -
    have "\<not> (sd_identity x = normalizeIdentity u \<and> sd_revokedAt x = None)" if x: "x \<in> set rows" for x
    proof
      assume a: "sd_identity x = normalizeIdentity u \<and> sd_revokedAt x = None"
      then have "depositor_open x" by (simp add: depositor_open_def)
      from depositor.claim_opens_nothing [OF _ c x this] have o: "x \<in> set (depositors s)" "sd_id x \<noteq> i" by auto
      then have "x = d" using key_unique [OF assms(3) o(1) d(1)] a u by simp
      with o d show False by simp
    qed
    then show ?thesis by (simp add: isSensitiveDepositor_def deps find_first_None_iff)
  qed
  then show ?thesis
    using adm d
    by (auto simp: share_def revoke_def list_shares_def directoryUsers_def sharableDocument_def
        assertSensitiveDepositor_def intro!: bexI [of _ d])
qed

theorem removeDepositor_effective_witness:
  "\<exists>s'. removeDepositor sample_env sensitive_db (sample_request ''root'' [''ISMS-LOCAL-ADMINS'']) ''p1'' = (s', Inr ()) \<and>
     isl (snd (share sample_env mail_setup s' depositor_request ''d1'' (week_for ''bob'')))"
proof -
  let ?r = "removeDepositor sample_env sensitive_db (sample_request ''root'' [''ISMS-LOCAL-ADMINS'']) ''p1''"
  have ev: "snd ?r = Inr ()" "map sd_identity (depositors sensitive_db) = [''ann'']"
    "distinct (map sd_id (depositors sensitive_db))" "normalizeIdentity (rq_username depositor_request) = ''ann''"
    by code_simp+
  then obtain s' where r: "?r = (s', Inr ())" by (metis prod.collapse)
  from removeDepositor_effective [OF r ev(3), of sample_env mail_setup "''d1''" "week_for ''bob''"] ev(2,4) r
  show ?thesis by (auto simp: map_eq_Cons_conv)
qed

end
