(* ===== verification/Ged_Settings.thy ===== *)
theory Ged_Settings
  imports Audit_Event
begin

text \<open>
  The options of document management (\<^verbatim>\<open>apps/api/src/ged-settings.ts\<close>): the modules an administrator
  may switch off, external sharing, and the time-stamping authority, whose password is stored
  encrypted. The fallback from the environment is \<open>environmentTimestampConfig\<close> of
  \<^verbatim>\<open>timestamp.ts\<close>. The cipher (\<^verbatim>\<open>crypto.service.ts\<close>) is the record \<open>cipher\<close>; decryption may raise.
\<close>

record cipher =
  encrypt :: "string \<Rightarrow> string"
  decrypt :: "string \<Rightarrow> string option"

record tsa_env =
  TSA_URL :: "string option"
  TSA_USERNAME :: "string option"
  TSA_PASSWORD :: "string option"
  TSA_POLICY_OID :: "string option"

record TimestampConfig =
  tsa_url :: string
  tsa_username :: "string option"
  tsa_password :: "string option"
  tsa_policyOid :: "string option"

text \<open>\<open>v || undefined\<close> of an optional string.\<close>

definition non_empty :: "string option \<Rightarrow> string option" where
  "non_empty v = Option.bind v or_null"

definition environmentTimestampConfig :: "tsa_env \<Rightarrow> TimestampConfig option" where
  "environmentTimestampConfig V =
     map_option (\<lambda>url. \<lparr>tsa_url = url, tsa_username = non_empty (TSA_USERNAME V),
         tsa_password = non_empty (TSA_PASSWORD V), tsa_policyOid = non_empty (TSA_POLICY_OID V)\<rparr>)
       (Option.bind (TSA_URL V) (\<lambda>u. or_null (trim u)))"

section \<open>Time stamping\<close>

definition TIMESTAMP_SETTING :: string where
  "TIMESTAMP_SETTING = ''ged.timestamp''"

text \<open>A string property of a stored object, nothing when it is missing or empty.\<close>

definition json_text :: "string \<Rightarrow> json \<Rightarrow> string option" where
  "json_text k v = (case json_get k v of Some (JStr t) \<Rightarrow> or_null t | _ \<Rightarrow> None)"

definition json_flag :: "string \<Rightarrow> json \<Rightarrow> bool" where
  "json_flag k v = json_truthy (json_get k v)"

datatype tsa_source = FromSettings | FromEnvironment | FromNowhere

record timestamp_view =
  tv_source :: tsa_source
  tv_enabled :: bool
  tv_url :: string
  tv_username :: string
  tv_policyOid :: string
  tv_hasPassword :: bool

abbreviation or_empty :: "string option \<Rightarrow> string" where
  "or_empty v \<equiv> case v of None \<Rightarrow> [] | Some t \<Rightarrow> t"

definition timestampSettings :: "tsa_env \<Rightarrow> db \<Rightarrow> timestamp_view" where
  "timestampSettings V s =
     (case get_setting s TIMESTAMP_SETTING of
        Some stored \<Rightarrow>
          \<lparr>tv_source = FromSettings, tv_enabled = json_flag ''enabled'' stored,
           tv_url = or_empty (json_text ''url'' stored), tv_username = or_empty (json_text ''username'' stored),
           tv_policyOid = or_empty (json_text ''policyOid'' stored),
           tv_hasPassword = (json_text ''password'' stored \<noteq> None)\<rparr>
      | None \<Rightarrow>
          (case environmentTimestampConfig V of
             None \<Rightarrow> \<lparr>tv_source = FromNowhere, tv_enabled = False, tv_url = [], tv_username = [],
                      tv_policyOid = [], tv_hasPassword = False\<rparr>
           | Some c \<Rightarrow>
               \<lparr>tv_source = FromEnvironment, tv_enabled = True, tv_url = tsa_url c,
                tv_username = or_empty (tsa_username c), tv_policyOid = or_empty (tsa_policyOid c),
                tv_hasPassword = (tsa_password c \<noteq> None)\<rparr>))"

definition loadTimestampConfig :: "tsa_env \<Rightarrow> cipher \<Rightarrow> db \<Rightarrow> TimestampConfig option outcome" where
  "loadTimestampConfig V C s =
     (case get_setting s TIMESTAMP_SETTING of
        None \<Rightarrow> Inr (environmentTimestampConfig V)
      | Some stored \<Rightarrow>
          if \<not> json_flag ''enabled'' stored \<or> json_text ''url'' stored = None then Inr None
          else (let config = (\<lambda>password. \<lparr>tsa_url = the (json_text ''url'' stored),
                      tsa_username = json_text ''username'' stored, tsa_password = password,
                      tsa_policyOid = json_text ''policyOid'' stored\<rparr>)
                in case json_text ''password'' stored of
                     None \<Rightarrow> Inr (Some (config None))
                   | Some sealed \<Rightarrow>
                       (case decrypt C sealed of
                          None \<Rightarrow> Inl (InternalError ''decrypt'')
                        | Some password \<Rightarrow> Inr (Some (config (Some password))))))"

record timestamp_input =
  ti_enabled :: bool
  ti_url :: string
  ti_username :: "string option"
  ti_policyOid :: "string option"
  ti_password :: "string option"
  ti_clearPassword :: bool

definition trimmed :: "string option \<Rightarrow> string option" where
  "trimmed v = Option.bind v (\<lambda>t. or_null (trim t))"

definition json_field :: "string \<Rightarrow> string option \<Rightarrow> (string \<times> json) list" where
  "json_field k v = (case v of None \<Rightarrow> [] | Some t \<Rightarrow> [(k, JStr t)])"

definition stored_password :: "cipher \<Rightarrow> db \<Rightarrow> timestamp_input \<Rightarrow> string option" where
  "stored_password C s input =
     (case non_empty (ti_password input) of
        Some p \<Rightarrow> Some (encrypt C p)
      | None \<Rightarrow> if ti_clearPassword input then None
                else Option.bind (get_setting s TIMESTAMP_SETTING) (json_text ''password''))"

definition saveTimestampSettings :: "tsa_env \<Rightarrow> cipher \<Rightarrow> db \<Rightarrow> timestamp_input \<Rightarrow> db \<times> timestamp_view" where
  "saveTimestampSettings V C s input =
     (let value = JObj ([(''enabled'', JBool (ti_enabled input)), (''url'', JStr (trim (ti_url input)))] @
            json_field ''username'' (trimmed (ti_username input)) @
            json_field ''policyOid'' (trimmed (ti_policyOid input)) @
            json_field ''password'' (stored_password C s input));
          s' = put_setting s TIMESTAMP_SETTING value
      in (s', timestampSettings V s'))"

section \<open>Modules and external sharing\<close>

definition FEATURES_SETTING :: string where
  "FEATURES_SETTING = ''ged.features''"

definition SHARING_SETTING :: string where
  "SHARING_SETTING = ''ged.externalSharing''"

datatype GedFeature = Links | Comments | Signatures

fun feature_name :: "GedFeature \<Rightarrow> string" where
  "feature_name Links = ''links''"
| "feature_name Comments = ''comments''"
| "feature_name Signatures = ''signatures''"

definition gedFeatures :: "db \<Rightarrow> GedFeature \<Rightarrow> bool" where
  "gedFeatures s f =
     (Option.bind (get_setting s FEATURES_SETTING) (json_get (feature_name f)) \<noteq> Some (JBool False))"

definition requireGedFeature :: "db \<Rightarrow> GedFeature \<Rightarrow> unit outcome" where
  "requireGedFeature s f = (if gedFeatures s f then Inr () else Inl NotFound)"

text \<open>\<open>Number(v) || 30\<close>, clamped between 1 and 90; a decimal number is a mantissa with its number of
  decimals.\<close>

record SharingSettings =
  xs_enabled :: bool
  xs_maxDays :: "int \<times> nat"

definition clamp_days :: "int \<times> nat \<Rightarrow> int \<times> nat" where
  "clamp_days v = (case v of (m, k) \<Rightarrow> if m < 10 ^ k then (1, 0) else if 90 * 10 ^ k < m then (90, 0) else (m, k))"

definition sharingSettings :: "db \<Rightarrow> SharingSettings" where
  "sharingSettings s =
     (let stored = get_setting s SHARING_SETTING;
          days = (case Option.bind (Option.bind stored (json_get ''maxDays'')) json_number of
              None \<Rightarrow> (30, 0)
            | Some (m, k) \<Rightarrow> if m = 0 then (30, 0) else (m, k))
      in \<lparr>xs_enabled = (Option.bind stored (json_get ''enabled'') = Some (JBool True)),
          xs_maxDays = clamp_days days\<rparr>)"

text \<open>\<open>days > maxDays\<close>.\<close>

definition exceeds :: "int \<Rightarrow> int \<times> nat \<Rightarrow> bool" where
  "exceeds days v = (case v of (m, k) \<Rightarrow> m < days * 10 ^ k)"

section \<open>Properties\<close>

lemma clamp_days_bounded: "\<not> exceeds d (clamp_days v) \<Longrightarrow> d \<le> 90"
proof (rule ccontr)
  assume a: "\<not> exceeds d (clamp_days v)" and d: "\<not> d \<le> 90"
  obtain m k where v: "v = (m, k)" by (cases v)
  have p: "0 < (10::int) ^ k" by simp
  have "90 * 10 ^ k < d * (10::int) ^ k" by (rule mult_strict_right_mono) (use d p in auto)
  note gt = this
  consider "m < 10 ^ k" | "90 * 10 ^ k < m" | "10 ^ k \<le> m" "m \<le> 90 * 10 ^ k" by linarith
  then show False
  proof cases
    case 3
    then have "d * 10 ^ k \<le> m" using a by (simp add: v exceeds_def clamp_days_def)
    with 3 gt show False by linarith
  qed (use a d in \<open>auto simp: v exceeds_def clamp_days_def split: if_splits\<close>)
qed

lemma sharing_days_bounded: "\<not> exceeds d (xs_maxDays (sharingSettings s)) \<Longrightarrow> d \<le> 90"
  unfolding sharingSettings_def Let_def SharingSettings.simps by (rule clamp_days_bounded)

lemma json_get_fields:
  "json_get k (JObj (xs @ json_field j v)) =
     (if k = j \<and> v \<noteq> None then map_option JStr v else json_get k (JObj xs))"
  by (cases v) (simp_all add: json_get_def json_field_def)

lemma trimmed_not_empty: "trimmed v \<noteq> Some []"
  by (cases v) (simp_all add: trimmed_def)

lemma json_text_fields:
  "v \<noteq> Some [] \<Longrightarrow> json_text k (JObj (xs @ json_field j v)) = (if k = j \<and> v \<noteq> None then v else json_text k (JObj xs))"
  by (cases v) (auto simp: json_text_def json_get_fields)

lemma stored_password_not_empty:
  assumes "\<And>p. encrypt C p \<noteq> []"
  shows "stored_password C s input \<noteq> Some []"
  using assms
  by (auto simp: stored_password_def json_text_def or_null_def split: option.splits json.splits Option.bind_splits if_splits)

text \<open>The time-stamping options survive storage. What is saved is what the signing code loads: the
  trimmed address, user and policy, and the password that was entered; without a new password the
  stored one stays, unless it is cleared; a switched-off option or an empty address means no time
  stamps. It rests on the cipher inverting itself.\<close>

theorem timestamp_settings_roundtrip:
  assumes "\<And>p. encrypt C p \<noteq> [] \<and> decrypt C (encrypt C p) = Some p"
  shows "loadTimestampConfig V C (fst (saveTimestampSettings V C s input)) =
    (if \<not> ti_enabled input \<or> trim (ti_url input) = [] then Inr None
     else (let config = (\<lambda>password. Inr (Some \<lparr>tsa_url = trim (ti_url input), tsa_username = trimmed (ti_username input),
                 tsa_password = password, tsa_policyOid = trimmed (ti_policyOid input)\<rparr>))
           in case non_empty (ti_password input) of
                Some p \<Rightarrow> config (Some p)
              | None \<Rightarrow>
                  if ti_clearPassword input then config None
                  else (case Option.bind (get_setting s TIMESTAMP_SETTING) (json_text ''password'') of
                      None \<Rightarrow> config None
                    | Some sealed \<Rightarrow> (case decrypt C sealed of None \<Rightarrow> Inl (InternalError ''decrypt'') | Some p \<Rightarrow> config (Some p)))))"
proof -
  have ne: "stored_password C s input \<noteq> Some []" using assms by (intro stored_password_not_empty) auto
  let ?v = "JObj ((([(''enabled'', JBool (ti_enabled input)), (''url'', JStr (trim (ti_url input)))] @
            json_field ''username'' (trimmed (ti_username input))) @
            json_field ''policyOid'' (trimmed (ti_policyOid input))) @
            json_field ''password'' (stored_password C s input))"
  have fields: "json_text ''username'' ?v = trimmed (ti_username input)" "json_text ''policyOid'' ?v = trimmed (ti_policyOid input)"
    "json_text ''password'' ?v = stored_password C s input" "json_text ''url'' ?v = or_null (trim (ti_url input))"
    "json_flag ''enabled'' ?v = ti_enabled input"
    unfolding json_text_fields [OF ne] json_text_fields [OF trimmed_not_empty] json_flag_def json_get_fields
    by (simp_all add: json_text_def json_get_def)
  have "get_setting (fst (saveTimestampSettings V C s input)) TIMESTAMP_SETTING = Some ?v"
    by (simp add: saveTimestampSettings_def Let_def)
  then show ?thesis
    unfolding loadTimestampConfig_def
    by (simp only: option.case fields)
      (simp add: stored_password_def Let_def or_null_def conjunct2 [OF assms] split: option.split)
qed

definition plain_cipher :: cipher where
  "plain_cipher = \<lparr>encrypt = (\<lambda>p. ''v1:'' @ p), decrypt = (\<lambda>c. Some (drop 3 c))\<rparr>"

definition no_tsa :: tsa_env where
  "no_tsa = \<lparr>TSA_URL = None, TSA_USERNAME = None, TSA_PASSWORD = None, TSA_POLICY_OID = None\<rparr>"

theorem timestamp_settings_roundtrip_witness:
  "loadTimestampConfig no_tsa plain_cipher (fst (saveTimestampSettings no_tsa plain_cipher empty_db
     \<lparr>ti_enabled = True, ti_url = '' https://tsa '', ti_username = Some ''u'', ti_policyOid = None,
      ti_password = Some ''pw'', ti_clearPassword = False\<rparr>)) =
   Inr (Some \<lparr>tsa_url = ''https://tsa'', tsa_username = Some ''u'', tsa_password = Some ''pw'', tsa_policyOid = None\<rparr>)"
proof -
  have "\<And>p. encrypt plain_cipher p \<noteq> [] \<and> decrypt plain_cipher (encrypt plain_cipher p) = Some p"
    by (simp add: plain_cipher_def)
  moreover have "trim '' https://tsa '' = ''https://tsa''" "trimmed (Some ''u'') = Some ''u''" "trimmed None = None"
    by code_simp+
  ultimately show ?thesis
    by (subst timestamp_settings_roundtrip) (simp_all add: non_empty_def or_null_def)
qed

end
