(* ===== verification/Document_Control.thy ===== *)
theory Document_Control
  imports Ged_Settings Mail Document_Workflow Authorization
begin

text \<open>
  Document control (\<^verbatim>\<open>apps/api/src/ged.controller.ts\<close>): who sees a document and its panel, follows,
  comments, links between documents, the edit lock, and the restoration of an earlier version.
\<close>

section \<open>Addresses\<close>

definition hex_value :: "char \<Rightarrow> nat option" where
  "hex_value c =
     (if is_digit c then Some (of_char c - 48)
      else if CHR ''A'' \<le> c \<and> c \<le> CHR ''F'' then Some (of_char c - 55)
      else if CHR ''a'' \<le> c \<and> c \<le> CHR ''f'' then Some (of_char c - 87)
      else None)"

definition hex_byte :: "char \<Rightarrow> char \<Rightarrow> nat option" where
  "hex_byte a b =
     (case (hex_value a, hex_value b) of (Some x, Some y) \<Rightarrow> Some (16 * x + y) | _ \<Rightarrow> None)"

text \<open>The continuation bytes that a lead byte of UTF-8 asks for, and the bounds of the first of them
  (no overlong form, no surrogate, nothing beyond the last code point).\<close>

definition utf8_tail :: "nat \<Rightarrow> (nat \<times> nat \<times> nat) option" where
  "utf8_tail b =
     (if b < 0xC2 then None
      else if b \<le> 0xDF then Some (1, 0x80, 0xBF)
      else if b = 0xE0 then Some (2, 0xA0, 0xBF)
      else if b = 0xED then Some (2, 0x80, 0x9F)
      else if b \<le> 0xEF then Some (2, 0x80, 0xBF)
      else if b = 0xF0 then Some (3, 0x90, 0xBF)
      else if b \<le> 0xF3 then Some (3, 0x80, 0xBF)
      else if b = 0xF4 then Some (3, 0x80, 0x8F)
      else None)"

text \<open>\<open>decodeURIComponent\<close>; nothing stands for the \<open>URIError\<close>. The first argument is the number of
  continuation bytes still to come, with the bounds of the next one.\<close>

fun decode_uri :: "nat \<times> nat \<times> nat \<Rightarrow> string \<Rightarrow> string option" where
  "decode_uri (n, lo, hi) [] = (if n = 0 then Some [] else None)"
| "decode_uri (n, lo, hi) (c # cs) =
     (if c \<noteq> CHR ''%''
      then (if n = 0 then map_option ((#) c) (decode_uri (0, 0x80, 0xBF) cs) else None)
      else (case cs of
          a # b # rest \<Rightarrow>
            (case hex_byte a b of
               None \<Rightarrow> None
             | Some v \<Rightarrow>
                 if n = 0
                 then (if v < 0x80 then map_option ((#) (char_of v)) (decode_uri (0, 0x80, 0xBF) rest)
                       else (case utf8_tail v of
                           None \<Rightarrow> None
                         | Some tail \<Rightarrow> map_option ((#) (char_of v)) (decode_uri tail rest)))
                 else if lo \<le> v \<and> v \<le> hi
                 then map_option ((#) (char_of v)) (decode_uri (n - 1, 0x80, 0xBF) rest)
                 else None)
        | _ \<Rightarrow> None))"

definition decodeURIComponent :: "string \<Rightarrow> string option" where
  "decodeURIComponent s = decode_uri (0, 0x80, 0xBF) s"

text \<open>\<open>/\/documents\/([^/?#]+)/.exec(value)?.[1]\<close>.\<close>

definition documents_prefix :: string where
  "documents_prefix = ''/documents/''"

definition path_char :: "char \<Rightarrow> bool" where
  "path_char c = (c \<notin> {CHR ''/'', CHR ''?'', CHR ''#''})"

fun slug_in_url :: "string \<Rightarrow> string option" where
  "slug_in_url [] = None"
| "slug_in_url (c # cs) =
     (let slug = takeWhile path_char (drop (length documents_prefix) (c # cs))
      in if startsWith (c # cs) documents_prefix \<and> slug \<noteq> [] then Some slug else slug_in_url cs)"

text \<open>\<open>decodeURIComponent(fromUrl || trimmed)\<close>.\<close>

definition target_key :: "string \<Rightarrow> string option" where
  "target_key v =
     decodeURIComponent (case slug_in_url (trim v) of Some w \<Rightarrow> w | None \<Rightarrow> trim v)"

definition uuidPattern :: "string \<Rightarrow> bool" where
  "uuidPattern s =
     (map length (split_on (\<lambda>c. c = CHR ''-'') s) = [8, 4, 4, 4, 12] \<and>
      list_all (\<lambda>c. c = CHR ''-'' \<or> hex_value c \<noteq> None) s)"

section \<open>Visibility\<close>

definition LOCK_MS :: int where
  "LOCK_MS = 8 * 3600000"

definition lockedByOther :: "document_row \<Rightarrow> string \<Rightarrow> time \<Rightarrow> bool" where
  "lockedByOther d identity t =
     (truthy (doc_lockedBy d) \<and> doc_lockedBy d \<noteq> Some identity \<and> some_and (\<lambda>e. t < e) (doc_lockExpiresAt d))"

definition assertNotLockedByOther :: "env \<Rightarrow> db \<Rightarrow> string \<Rightarrow> string \<Rightarrow> unit outcome" where
  "assertNotLockedByOther E s documentId identity =
     (case find_first (\<lambda>d. doc_id d = documentId) (documents s) of
        None \<Rightarrow> Inr ()
      | Some d \<Rightarrow>
          if lockedByOther d identity (now E)
          then Inl (Conflict (''Document locked for editing by '' @ the (doc_lockedBy d) @ '' until '' @
                 toISOString (the (doc_lockExpiresAt d))))
          else Inr ())"

definition can_on :: "env \<Rightarrow> db \<Rightarrow> request \<Rightarrow> document_row \<Rightarrow> permission \<Rightarrow> bool" where
  "can_on E s req d p = can E s (rq_groups req) (doc_spaceId d) p (InCategory (doc_categoryId d))"

definition visibleDocument :: "env \<Rightarrow> db \<Rightarrow> request \<Rightarrow> string \<Rightarrow> document_row option" where
  "visibleDocument E s req i =
     (case find_first (\<lambda>d. doc_id d = i \<and> doc_deletedAt d = None) (documents s) of
        None \<Rightarrow> None
      | Some d \<Rightarrow>
          if (if doc_status d = PUBLISHED then can_on E s req d Read
              else list_ex (can_on E s req d) [Edit, Publish, Archive])
          then Some d else None)"

definition requireVisible :: "env \<Rightarrow> db \<Rightarrow> request \<Rightarrow> string \<Rightarrow> document_row outcome" where
  "requireVisible E s req i =
     (case visibleDocument E s req i of None \<Rightarrow> Inl NotFound | Some d \<Rightarrow> Inr d)"

definition requireEditable :: "env \<Rightarrow> db \<Rightarrow> request \<Rightarrow> string \<Rightarrow> document_row outcome" where
  "requireEditable E s req i =
     (case requireVisible E s req i of
        Inl e \<Rightarrow> Inl e
      | Inr d \<Rightarrow> if can_on E s req d Edit then Inr d else Inl NotFound)"

section \<open>The panel\<close>

record link_view =
  lv_id :: string
  lv_type :: string
  lv_outgoing :: bool
  lv_createdAt :: time
  lv_document :: document_row
  lv_titles :: "translation_row list"

record version_view =
  vv_version :: version_row
  vv_label :: string
  vv_fileName :: string
  vv_sha256 :: string
  vv_purged :: bool
  vv_clean :: bool
  vv_timestampedAt :: "time option"
  vv_indexed :: "content_status option"
  vv_ocr :: bool

record panel_view =
  pv_features :: "GedFeature \<Rightarrow> bool"
  pv_sharing :: bool
  pv_subscribed :: bool
  pv_canEdit :: bool
  pv_isAdmin :: bool
  pv_lock :: "(string \<times> time option \<times> time \<times> bool) option"
  pv_links :: "link_view list"
  pv_comments :: "(comment_row \<times> bool) list"
  pv_versions :: "version_view list"

definition linked :: "env \<Rightarrow> db \<Rightarrow> request \<Rightarrow> bool \<Rightarrow> link_row \<Rightarrow> link_view list" where
  "linked E s req outgoing link =
     (case find_first (\<lambda>d. doc_id d = (if outgoing then ln_targetId link else ln_sourceId link)) (documents s) of
        None \<Rightarrow> []
      | Some other \<Rightarrow>
          if doc_deletedAt other = None \<and> visibleDocument E s req (doc_id other) \<noteq> None
          then [\<lparr>lv_id = ln_id link, lv_type = ln_type link, lv_outgoing = outgoing,
                 lv_createdAt = ln_createdAt link, lv_document = other,
                 lv_titles = filter (\<lambda>t. tr_documentId t = doc_id other) (titles s)\<rparr>]
          else [])"

definition view_version :: "db \<Rightarrow> version_row \<Rightarrow> version_view" where
  "view_version s v =
     (let file = the (find_file s (ver_storedFileId v));
          content = find_first (\<lambda>c. vc_versionId c = ver_id v) (contents s)
      in \<lparr>vv_version = v, vv_label = versionLabel v, vv_fileName = sf_originalName file,
          vv_sha256 = sf_sha256 file, vv_purged = (sf_purgedAt file \<noteq> None),
          vv_clean = (latest_scan s (sf_id file) = Some ScanClean),
          vv_timestampedAt = Option.bind (find_first (\<lambda>t. ft_storedFileId t = sf_id file) (filestamps s)) ft_genTime,
          vv_indexed = map_option vc_status content,
          vv_ocr = some_and vc_ocr content\<rparr>)"

definition lock_view :: "env \<Rightarrow> request \<Rightarrow> document_row \<Rightarrow> (string \<times> time option \<times> time \<times> bool) option" where
  "lock_view E req d =
     (if truthy (doc_lockedBy d) \<and> some_and (\<lambda>e. now E < e) (doc_lockExpiresAt d)
      then Some (the (doc_lockedBy d), doc_lockedAt d, the (doc_lockExpiresAt d),
                 doc_lockedBy d = Some (rq_username req))
      else None)"

definition panel :: "env \<Rightarrow> db \<Rightarrow> request \<Rightarrow> string \<Rightarrow> panel_view outcome" where
  "panel E s req i =
     (case requireVisible E s req i of
        Inl e \<Rightarrow> Inl e
      | Inr d \<Rightarrow>
          (let canEdit = can_on E s req d Edit;
               admin = isAdminIdentity (rq_groups req);
               cs = (if gedFeatures s Comments
                     then find_many (\<lambda>c. - cm_createdAt c) 200
                            (\<lambda>c. cm_documentId c = i \<and> cm_deletedAt c = None) (comments s)
                     else []);
               ls = (if gedFeatures s Links
                     then concat (map (linked E s req True) (filter (\<lambda>l. ln_sourceId l = i) (links s))) @
                          concat (map (linked E s req False) (filter (\<lambda>l. ln_targetId l = i) (links s)))
                     else []);
               vs = (if canEdit
                     then sort_key ver_locale (sort_key (\<lambda>v. - ver_version v)
                            (filter (\<lambda>v. ver_documentId v = i) (versions s)))
                     else [])
           in Inr \<lparr>pv_features = gedFeatures s, pv_sharing = xs_enabled (sharingSettings s),
                   pv_subscribed = (\<exists>r\<in>set (subscriptions s). sub_identity r = rq_username req \<and> sub_documentId r = i),
                   pv_canEdit = canEdit, pv_isAdmin = admin, pv_lock = lock_view E req d, pv_links = ls,
                   pv_comments = map (\<lambda>c. (c, admin \<or> cm_author c = rq_username req)) cs,
                   pv_versions = map (view_version s) vs\<rparr>))"

section \<open>Follows, comments and links\<close>

definition subscribe :: "env \<Rightarrow> db \<Rightarrow> request \<Rightarrow> string \<Rightarrow> bool \<Rightarrow> db \<times> bool outcome" where
  "subscribe E s req i subscribed =
     (case requireVisible E s req i of
        Inl e \<Rightarrow> (s, Inl e)
      | Inr _ \<Rightarrow>
          (let key = \<lparr>sub_identity = rq_username req, sub_documentId = i\<rparr>
           in (if subscribed
               then (if key \<in> set (subscriptions s) then s else s\<lparr>subscriptions := subscriptions s @ [key]\<rparr>)
               else s\<lparr>subscriptions := delete_rows (\<lambda>r. r = key) (subscriptions s)\<rparr>, Inr subscribed)))"

record CommentDto =
  cd_body :: string
  cd_versionId :: "string option"
  cd_page :: "int option"

definition new_comment :: "env \<Rightarrow> db \<Rightarrow> request \<Rightarrow> string \<Rightarrow> CommentDto \<Rightarrow> comment_row" where
  "new_comment E s req i body =
     \<lparr>cm_id = uuid E (uuid_next s), cm_documentId = i, cm_versionId = cd_versionId body, cm_page = cd_page body,
      cm_author = rq_username req, cm_body = trim (cd_body body), cm_createdAt = now E, cm_deletedAt = None\<rparr>"

definition display_name :: "request \<Rightarrow> string" where
  "display_name req =
     (if id_displayName (rq_identity req) \<noteq> [] then id_displayName (rq_identity req) else rq_username req)"

definition comment :: "env \<Rightarrow> db \<Rightarrow> request \<Rightarrow> string \<Rightarrow> CommentDto \<Rightarrow> db \<times> comment_row outcome" where
  "comment E s req i body =
     (case requireGedFeature s Comments of
        Inl e \<Rightarrow> (s, Inl e)
      | Inr _ \<Rightarrow>
          (case requireVisible E s req i of
             Inl e \<Rightarrow> (s, Inl e)
           | Inr _ \<Rightarrow>
               if truthy (cd_versionId body) \<and>
                  \<not> (\<exists>v\<in>set (versions s). Some (ver_id v) = cd_versionId body \<and> ver_documentId v = i)
               then (s, Inl (BadRequest ''Unknown document version''))
               else if trim (cd_body body) = [] then (s, Inl (BadRequest ''A comment is required''))
               else (let c = new_comment E s req i body;
                         s1 = s\<lparr>comments := comments s @ [c], uuid_next := Suc (uuid_next s)\<rparr>;
                         s2 = notifySubscribers s1 i (rq_username req) ''Nouveau commentaire''
                           (display_name req @ '' a comment'' @ [CHR 0xC3, CHR 0xA9])
                     in (record_quiet E s2 req ''document.comment.create'' (''document:'' @ i) Success
                           (Some (JObj [(''commentId'', JStr (cm_id c)), (''page'', json_opt JNum (cm_page c))])),
                         Inr c))))"

definition deleteComment :: "env \<Rightarrow> db \<Rightarrow> request \<Rightarrow> string \<Rightarrow> string \<Rightarrow> db \<times> unit outcome" where
  "deleteComment E s req i commentId =
     (case requireGedFeature s Comments of
        Inl e \<Rightarrow> (s, Inl e)
      | Inr _ \<Rightarrow>
          (case requireVisible E s req i of
             Inl e \<Rightarrow> (s, Inl e)
           | Inr _ \<Rightarrow>
               (case find_first (\<lambda>c. cm_id c = commentId \<and> cm_documentId c = i \<and> cm_deletedAt c = None) (comments s) of
                  None \<Rightarrow> (s, Inl NotFound)
                | Some c \<Rightarrow>
                    if cm_author c \<noteq> rq_username req \<and> \<not> isAdminIdentity (rq_groups req)
                    then (s, Inl (Forbidden ''''))
                    else (record_quiet E
                            (s\<lparr>comments := update_rows (\<lambda>c. cm_id c = commentId)
                                (\<lambda>c. c\<lparr>cm_deletedAt := Some (now E)\<rparr>) (comments s)\<rparr>)
                            req ''document.comment.delete'' (''document:'' @ i) Success
                            (Some (JObj [(''commentId'', JStr commentId)])), Inr ()))))"

definition target_matches :: "string \<Rightarrow> document_row \<Rightarrow> bool" where
  "target_matches key d =
     (doc_deletedAt d = None \<and>
      (uuidPattern key \<and> doc_id d = key \<or> doc_slug d = key \<or>
       json_get REFERENCE_KEY (doc_metadata d) = Some (JStr key)))"

definition resolveTarget :: "db \<Rightarrow> string \<Rightarrow> document_row option outcome" where
  "resolveTarget s v =
     (case target_key v of
        None \<Rightarrow> Inl (InternalError ''URI malformed'')
      | Some key \<Rightarrow> Inr (find_first (target_matches key) (documents s)))"

definition create_link ::
    "env \<Rightarrow> db \<Rightarrow> request \<Rightarrow> string \<Rightarrow> string \<Rightarrow> string \<Rightarrow> db \<times> link_row outcome" where
  "create_link E s req i target type =
     (case requireGedFeature s Links of
        Inl e \<Rightarrow> (s, Inl e)
      | Inr _ \<Rightarrow>
          (case requireEditable E s req i of
             Inl e \<Rightarrow> (s, Inl e)
           | Inr _ \<Rightarrow>
               (case resolveTarget s target of
                  Inl e \<Rightarrow> (s, Inl e)
                | Inr None \<Rightarrow> (s, Inl (BadRequest ''Target document not found''))
                | Inr (Some t) \<Rightarrow>
                    if visibleDocument E s req (doc_id t) = None
                    then (s, Inl (BadRequest ''Target document not found''))
                    else if doc_id t = i then (s, Inl (BadRequest ''A document cannot link to itself''))
                    else (case find_first (\<lambda>l. ln_sourceId l = i \<and> ln_targetId l = doc_id t \<and> ln_type l = type) (links s) of
                        Some existing \<Rightarrow> (s, Inr existing)
                      | None \<Rightarrow>
                          (let l = \<lparr>ln_id = uuid E (uuid_next s), ln_sourceId = i, ln_targetId = doc_id t, ln_type = type,
                                    ln_createdBy = rq_username req, ln_createdAt = now E\<rparr>
                           in (record_quiet E (s\<lparr>links := links s @ [l], uuid_next := Suc (uuid_next s)\<rparr>) req
                                 ''document.link.create'' (''document:'' @ i) Success
                                 (Some (JObj [(''targetId'', JStr (doc_id t)), (''type'', JStr type)])), Inr l))))))"

definition unlink :: "env \<Rightarrow> db \<Rightarrow> request \<Rightarrow> string \<Rightarrow> string \<Rightarrow> db \<times> unit outcome" where
  "unlink E s req i linkId =
     (case requireGedFeature s Links of
        Inl e \<Rightarrow> (s, Inl e)
      | Inr _ \<Rightarrow>
          (case requireEditable E s req i of
             Inl e \<Rightarrow> (s, Inl e)
           | Inr _ \<Rightarrow>
               (let p = (\<lambda>l. ln_id l = linkId \<and> ln_sourceId l = i);
                    s1 = s\<lparr>links := delete_rows p (links s)\<rparr>
                in if count_rows p (links s) \<noteq> 1 then (s1, Inl NotFound)
                   else (record_quiet E s1 req ''document.link.delete'' (''document:'' @ i) Success
                           (Some (JObj [(''linkId'', JStr linkId)])), Inr ()))))"

section \<open>The edit lock\<close>

text \<open>The documents that the check-out may take: free, expired, or already the caller's.\<close>

definition lock_free :: "string \<Rightarrow> time \<Rightarrow> document_row \<Rightarrow> bool" where
  "lock_free me t d =
     (doc_deletedAt d = None \<and>
      (doc_lockedBy d = None \<or> some_and (\<lambda>e. e \<le> t) (doc_lockExpiresAt d) \<or> doc_lockedBy d = Some me))"

definition take_lock :: "string \<Rightarrow> time \<Rightarrow> document_row \<Rightarrow> document_row" where
  "take_lock me t d =
     d\<lparr>doc_lockedBy := Some me, doc_lockedAt := Some t, doc_lockExpiresAt := Some (t + LOCK_MS)\<rparr>"

definition lock :: "env \<Rightarrow> db \<Rightarrow> request \<Rightarrow> string \<Rightarrow> db \<times> time outcome" where
  "lock E s req i =
     (case requireEditable E s req i of
        Inl e \<Rightarrow> (s, Inl e)
      | Inr _ \<Rightarrow>
          (let me = rq_username req;
               audited = (\<lambda>s1. (record_quiet E s1 req ''document.lock'' (''document:'' @ i) Success
                  (Some (JObj [(''lockExpiresAt'', JDate (now E + LOCK_MS))])), Inr (now E + LOCK_MS)))
           in case claim (\<lambda>d. doc_id d = i \<and> lock_free me (now E) d) (take_lock me (now E)) (documents s) of
                Some docs \<Rightarrow> audited (s\<lparr>documents := docs\<rparr>)
              | None \<Rightarrow>
                  (case assertNotLockedByOther E s i me of
                     Inl e \<Rightarrow> (s, Inl e)
                   | Inr _ \<Rightarrow> audited s)))"

definition free_lock :: "document_row \<Rightarrow> document_row" where
  "free_lock d = d\<lparr>doc_lockedBy := None, doc_lockedAt := None, doc_lockExpiresAt := None\<rparr>"

definition unlock :: "env \<Rightarrow> db \<Rightarrow> request \<Rightarrow> string \<Rightarrow> db \<times> unit outcome" where
  "unlock E s req i =
     (case requireEditable E s req i of
        Inl e \<Rightarrow> (s, Inl e)
      | Inr d \<Rightarrow>
          if lockedByOther d (rq_username req) (now E) \<and> \<not> isAdminIdentity (rq_groups req)
          then (s, Inl (Forbidden ''Only the lock owner or an administrator can unlock''))
          else (record_quiet E (s\<lparr>documents := update_rows (\<lambda>d. doc_id d = i) free_lock (documents s)\<rparr>) req
                  ''document.unlock'' (''document:'' @ i) Success
                  (Some (JObj [(''previousOwner'', json_opt JStr (doc_lockedBy d))])), Inr ()))"

section \<open>Restoring a version\<close>

definition restored_version ::
    "env \<Rightarrow> db \<Rightarrow> version_row \<Rightarrow> version_row option \<Rightarrow> string option \<Rightarrow> version_row" where
  "restored_version E s source latest changeSummary =
     \<lparr>ver_id = uuid E (uuid_next s), ver_documentId = ver_documentId source, ver_locale = ver_locale source,
      ver_version = (case latest of None \<Rightarrow> 0 | Some l \<Rightarrow> ver_version l) + 1,
      ver_storedFileId = ver_storedFileId source, ver_distributedStoredFileId = None, ver_createdAt = now E,
      ver_annualReviewDueAt = None, ver_annualReviewNotifiedAt = None, ver_annualReviewReminderAt = None,
      ver_annualReviewOverdueAt = None,
      ver_changeSummary = Some (case trimmed changeSummary of
          Some t \<Rightarrow> t
        | None \<Rightarrow> ''Restauration de la version '' @ versionLabel source),
      ver_changeDetails = Some (JObj [(''added'', JArr []), (''removed'', JArr []), (''modified'', JArr []),
        (''restoredFromVersion'', JNum (ver_version source))]),
      ver_versionMajor = (case latest of None \<Rightarrow> 0 | Some l \<Rightarrow> ver_versionMajor l),
      ver_versionMinor = (case latest of None \<Rightarrow> 0 | Some l \<Rightarrow> ver_versionMinor l) + 1\<rparr>"

definition copy_content :: "env \<Rightarrow> version_row \<Rightarrow> content_row option \<Rightarrow> content_row list" where
  "copy_content E created content =
     (case content of
        Some c \<Rightarrow>
          if vc_status c = CoDone
          then [\<lparr>vc_versionId = ver_id created, vc_status = CoDone, vc_text = vc_text c, vc_ocr = vc_ocr c,
                 vc_attempts = 0, vc_error = None, vc_extractedAt = Some (now E), vc_createdAt = now E,
                 vc_updatedAt = now E\<rparr>]
          else []
      | None \<Rightarrow> [])"

definition restoreVersion ::
    "env \<Rightarrow> db \<Rightarrow> request \<Rightarrow> string \<Rightarrow> string \<Rightarrow> string option \<Rightarrow> db \<times> version_row outcome" where
  "restoreVersion E s req i versionId changeSummary =
     (case requireEditable E s req i of
        Inl e \<Rightarrow> (s, Inl e)
      | Inr _ \<Rightarrow>
          (case assertNotLockedByOther E s i (rq_username req) of
             Inl e \<Rightarrow> (s, Inl e)
           | Inr _ \<Rightarrow>
               (case find_first (\<lambda>v. ver_id v = versionId \<and> ver_documentId v = i) (versions s) of
                  None \<Rightarrow> (s, Inl NotFound)
                | Some source \<Rightarrow>
                    (case find_file s (ver_storedFileId source) of
                       None \<Rightarrow> (s, Inl NotFound)
                     | Some file \<Rightarrow>
                         if sf_purgedAt file \<noteq> None \<or> latest_scan s (sf_id file) \<noteq> Some ScanClean
                         then (s, Inl (Conflict ''This version cannot be restored''))
                         else (let latest = find_first_by (\<lambda>v. - ver_version v)
                                 (\<lambda>v. ver_documentId v = i \<and> ver_locale v = ver_locale source) (versions s)
                               in if map_option ver_version latest = Some (ver_version source)
                                  then (s, Inl (Conflict ''This version is already the current one''))
                                  else (let created = restored_version E s source latest changeSummary;
                                            s1 = s\<lparr>versions := versions s @ [created], uuid_next := Suc (uuid_next s),
                                                   contents := contents s @ copy_content E created
                                                     (find_first (\<lambda>c. vc_versionId c = versionId) (contents s)),
                                                   documents := update_rows (\<lambda>d. doc_id d = i)
                                                     (\<lambda>d. d\<lparr>doc_status := DRAFT\<rparr>) (documents s)\<rparr>
                                        in (record_audit E s1 req ''document.version.restore'' (''document:'' @ i) Success
                                              (Some (JObj [(''locale'', JStr (ver_locale source)),
                                                 (''restoredFromVersion'', JNum (ver_version source)),
                                                 (''newVersion'', JNum (ver_version created)),
                                                 (''sha256'', JStr (sf_sha256 file))])),
                                            Inr created)))))))"

section \<open>Addresses come back\<close>

lemma hex_value_upper: "k < 16 \<Longrightarrow> hex_value (hex_upper k) = Some k"
  by (auto simp: hex_value_def hex_upper_def is_digit_def less_eq_char_def of_char_of)

lemma hex_byte_upper:
  assumes "n < 256"
  shows "hex_byte (hex_upper (n div 16)) (hex_upper (n mod 16)) = Some n"
proof -
  have "n div 16 < 16" "n mod 16 < 16" using assms by simp_all
  then show ?thesis by (simp add: hex_byte_def hex_value_upper)
qed

lemma unreserved_not_percent: "uri_unreserved c \<Longrightarrow> c \<noteq> CHR ''%''"
  by (auto simp: uri_unreserved_def is_digit_def less_eq_char_def)

lemma decode_encode_ascii:
  "\<forall>c\<in>set s. (of_char c :: nat) < 128 \<Longrightarrow> decode_uri (0, 128, 191) (encodeURIComponent s) = Some s"
proof (induction s)
  case (Cons c s)
  then have IH: "decode_uri (0, 128, 191) (encodeURIComponent s) = Some s" and c: "(of_char c :: nat) < 128" by auto
  then have "hex_byte (hex_upper (of_char c div 16)) (hex_upper (of_char c mod 16)) = Some (of_char c)"
    by (intro hex_byte_upper) simp
  with IH c show ?case
    using unreserved_not_percent [of c] by (cases "uri_unreserved c") (simp_all add: encodeURIComponent_def)
qed (simp add: encodeURIComponent_def)

lemma hex_upper_path: "k < 16 \<Longrightarrow> path_char (hex_upper k) \<and> \<not> is_space (hex_upper k)"
  using hex_value_upper [of k]
  by (auto simp: path_char_def is_space_def hex_value_def is_digit_def less_eq_char_def split: if_splits)

lemma unreserved_path: "uri_unreserved c \<Longrightarrow> path_char c \<and> \<not> is_space c"
  by (auto simp: path_char_def is_space_def uri_unreserved_def is_digit_def less_eq_char_def)

lemma encoded_path:
  assumes "\<forall>c\<in>set s. (of_char c :: nat) < 128"
  shows "\<forall>c\<in>set (encodeURIComponent s). path_char c \<and> \<not> is_space c"
  using assms
proof (induction s)
  case (Cons c s)
  then have "(of_char c :: nat) < 128" by simp
  then have "path_char (hex_upper (of_char c div 16)) \<and> \<not> is_space (hex_upper (of_char c div 16))"
    "path_char (hex_upper (of_char c mod 16)) \<and> \<not> is_space (hex_upper (of_char c mod 16))"
    by (intro hex_upper_path; simp)+
  moreover have "path_char (CHR ''%'') \<and> \<not> is_space (CHR ''%'')" by (simp add: path_char_def is_space_def)
  ultimately show ?case
    using Cons unreserved_path [of c] by (auto simp: encodeURIComponent_def split: if_splits)
qed (simp add: encodeURIComponent_def)

lemma encoded_Nil: "encodeURIComponent s = [] \<longleftrightarrow> s = []"
  by (cases s) (simp_all add: encodeURIComponent_def)

lemma slug_in_url_here:
  assumes "w \<noteq> []" and "\<forall>c\<in>set w. path_char c"
  shows "slug_in_url (documents_prefix @ w) = Some w"
proof -
  have tw: "takeWhile path_char w = w" using assms(2) by (simp add: takeWhile_eq_all_conv)
  show ?thesis using assms(1) by (simp add: tw documents_prefix_def startsWith_def Let_def)
qed

lemma slug_in_url_skip:
  "c \<noteq> CHR ''/'' \<Longrightarrow> slug_in_url (c # cs) = slug_in_url cs"
  by (simp add: documents_prefix_def startsWith_def Let_def)

lemma slug_in_url_host: "CHR ''/'' \<notin> set h \<Longrightarrow> slug_in_url (h @ cs) = slug_in_url cs"
  by (induction h) (auto simp: slug_in_url_skip simp del: slug_in_url.simps)

lemma prefix_of_host:
  assumes "CHR ''/'' \<notin> set h" and "h \<noteq> ''documents''"
  shows "\<not> startsWith (CHR ''/'' # h @ CHR ''/'' # t) documents_prefix"
proof
  assume "startsWith (CHR ''/'' # h @ CHR ''/'' # t) documents_prefix"
  then obtain r where "CHR ''/'' # h @ CHR ''/'' # t = documents_prefix @ r"
    unfolding startsWith_def by (metis append_take_drop_id)
  then have eq: "h @ CHR ''/'' # t = ''documents'' @ CHR ''/'' # r" by (simp add: documents_prefix_def)
  have "takeWhile (\<lambda>c. c \<noteq> CHR ''/'') (h @ CHR ''/'' # t) = h"
    using assms(1) by (simp add: takeWhile_append2 takeWhile_tail) (metis takeWhile_append2 takeWhile.simps(2) append_Nil2)
  moreover have "takeWhile (\<lambda>c. c \<noteq> CHR ''/'') (''documents'' @ CHR ''/'' # r) = ''documents''" by simp
  ultimately show False using eq assms(2) by metis
qed

lemma trim_id:
  assumes "s \<noteq> []" and "\<not> is_space (hd s)" and "\<not> is_space (last s)"
  shows "trim s = s"
proof -
  have "dropWhile is_space s = s" "dropWhile is_space (rev s) = rev s"
    using assms by (simp_all add: dropWhile_eq_self_iff hd_rev)
  then show ?thesis by (simp add: trim_def)
qed

text \<open>A link that the portal sends leads back to its document. The address built for a document with
  an ASCII slug, pasted as the target of a link between documents, is resolved to that slug, whatever
  characters had to be encoded.\<close>

theorem portal_link_resolves:
  assumes "portalLink M (''/documents/'' @ encodeURIComponent slug) = Inr u"
    and "url_origin u = ''https://'' @ host" and "CHR ''/'' \<notin> set host" and "host \<noteq> ''documents''"
    and "slug \<noteq> []" and "\<forall>c\<in>set slug. (of_char c :: nat) < 128"
  shows "resolveTarget s (href u) = Inr (find_first (target_matches slug) (documents s))"
proof -
  let ?w = "encodeURIComponent slug"
  have w: "?w \<noteq> []" "\<forall>c\<in>set ?w. path_char c \<and> \<not> is_space c"
    using assms(5) encoded_Nil encoded_path [OF assms(6)] by auto
  have "url_path u = ''/documents/'' @ ?w"
    using assms(1) by (auto simp: portalLink_def split: public_url.splits if_splits)
  then have h: "href u = ''https://'' @ host @ documents_prefix @ ?w"
    by (simp add: href_def assms(2) documents_prefix_def)
  have "trim (href u) = href u"
    using w unfolding h by (intro trim_id) (auto simp: is_space_def)
  moreover have "slug_in_url (href u) = Some ?w"
  proof -
    have "\<not> startsWith (CHR ''/'' # host @ documents_prefix @ ?w) documents_prefix"
      using prefix_of_host [OF assms(3,4), of "''documents/'' @ ?w"] by (simp add: documents_prefix_def)
    then have "slug_in_url (CHR ''/'' # host @ documents_prefix @ ?w) = slug_in_url (host @ documents_prefix @ ?w)"
      by simp
    also have "\<dots> = Some ?w"
      using slug_in_url_host [OF assms(3)] slug_in_url_here [of ?w] w by simp
    finally show ?thesis
      unfolding h by (simp add: slug_in_url_skip del: slug_in_url.simps)
        (simp add: documents_prefix_def startsWith_def Let_def)
  qed
  ultimately have "target_key (href u) = Some slug"
    using decode_encode_ascii [OF assms(6)] by (simp add: target_key_def decodeURIComponent_def)
  then show ?thesis by (simp add: resolveTarget_def)
qed

theorem portal_link_resolves_witness:
  "\<exists>u. portalLink mail_setup (''/documents/'' @ encodeURIComponent ''a b'') = Inr u \<and>
     resolveTarget sample_db (href u) = Inr None"
proof -
  let ?u = "\<lparr>url_protocol = ''https:'', url_origin = ''https://p'', url_path = ''/documents/'' @ encodeURIComponent ''a b''\<rparr>"
  have u: "portalLink mail_setup (''/documents/'' @ encodeURIComponent ''a b'') = Inr ?u"
    by (simp add: portalLink_def mail_setup_def)
  have "find_first (target_matches ''a b'') (documents sample_db) = None" by code_simp
  with portal_link_resolves [OF u, of "''p''" sample_db] u show ?thesis by simp
qed

section \<open>The lock excludes others\<close>

text \<open>A lock has an owner and an end, or neither.\<close>

definition lock_ok :: "document_row \<Rightarrow> bool" where
  "lock_ok d \<longleftrightarrow> doc_lockedBy d \<noteq> Some [] \<and> (doc_lockedBy d \<noteq> None \<longrightarrow> doc_lockExpiresAt d \<noteq> None)"

definition locks_ok :: "db \<Rightarrow> bool" where
  "locks_ok s \<longleftrightarrow> distinct (map doc_id (documents s)) \<and> (\<forall>d\<in>set (documents s). lock_ok d)"

lemma requireEditable_Inr:
  assumes "requireEditable E s req i = Inr d"
  shows "d \<in> set (documents s)" "doc_id d = i" "doc_deletedAt d = None" "can_on E s req d Edit"
  using assms
  by (auto simp: requireEditable_def requireVisible_def visibleDocument_def dest!: find_first_Some
      split: option.splits if_splits)

lemma requireEditable_error: "requireEditable E s req i = Inl e \<Longrightarrow> e = NotFound"
  by (auto simp: requireEditable_def requireVisible_def split: option.splits if_splits)

lemma locks_ok_unique:
  assumes "locks_ok s" and "d \<in> set (documents s)"
  shows "find_first (\<lambda>x. doc_id x = doc_id d) (documents s) = Some d"
  using find_first_key [of doc_id "documents s" d "\<lambda>_. True"] assms by (simp add: locks_ok_def)

lemma lock_Inr:
  assumes "lock E s req i = (s', Inr t)" and "locks_ok s"
  obtains d where "d \<in> set (documents s)" "doc_id d = i" "lock_free (rq_username req) (now E) d"
    "documents s' = update_rows (\<lambda>d. doc_id d = i \<and> lock_free (rq_username req) (now E) d)
       (take_lock (rq_username req) (now E)) (documents s)" "t = now E + LOCK_MS"
proof -
  let ?p = "\<lambda>d. doc_id d = i \<and> lock_free (rq_username req) (now E) d"
  obtain d where ed: "requireEditable E s req i = Inr d" and t: "t = now E + LOCK_MS"
    using assms(1) by (auto simp: lock_def Let_def split: sum.splits option.splits)
  note d = requireEditable_Inr [OF ed]
  have dist: "distinct (map doc_id (documents s))" using assms(2) by (simp add: locks_ok_def)
  show thesis
  proof (cases "claim ?p (take_lock (rq_username req) (now E)) (documents s)")
    case (Some docs)
    then have "docs = update_rows ?p (take_lock (rq_username req) (now E)) (documents s)" by (simp add: claim_Some_iff)
    moreover have "documents s' = docs" using assms(1) ed Some by (auto simp: lock_def Let_def)
    moreover obtain x where "x \<in> set (documents s)" "?p x" using Some by (rule claim_row)
    ultimately show thesis using that t by metis
  next
    case None
    then have "\<not> lock_free (rq_username req) (now E) d"
      using count_rows_key_le_1 [OF dist, of i "lock_free (rq_username req) (now E)"]
        count_rows_key_pos [OF dist d(1), of "lock_free (rq_username req) (now E)"] d(2)
      by (auto simp: claim_def split: if_splits)
    then have "lockedByOther d (rq_username req) (now E)"
      using assms(2) d(1,3) by (auto simp: lock_free_def lockedByOther_def truthy_def locks_ok_def lock_ok_def some_and_iff)
    moreover have "find_first (\<lambda>x. doc_id x = i) (documents s) = Some d" using locks_ok_unique [OF assms(2) d(1)] d(2) by simp
    ultimately show thesis
      using assms(1) ed None by (simp add: lock_def Let_def assertNotLockedByOther_def)
  qed
qed

lemma take_lock_simps [simp]:
  "doc_id (take_lock me t d) = doc_id d" "doc_lockedBy (take_lock me t d) = Some me"
  "doc_lockExpiresAt (take_lock me t d) = Some (t + LOCK_MS)" "doc_deletedAt (take_lock me t d) = doc_deletedAt d"
  by (simp_all add: take_lock_def)

lemma locks_ok_documents: "documents s' = documents s \<Longrightarrow> locks_ok s' = locks_ok s"
  by (simp add: locks_ok_def)

lemma locks_ok_lock:
  assumes "locks_ok s" and "rq_username req \<noteq> []"
  shows "locks_ok (fst (lock E s req i))"
proof -
  let ?p = "\<lambda>d. doc_id d = i \<and> lock_free (rq_username req) (now E) d"
  let ?docs = "update_rows ?p (take_lock (rq_username req) (now E)) (documents s)"
  have "documents (fst (lock E s req i)) = documents s \<or> documents (fst (lock E s req i)) = ?docs"
    by (auto simp: lock_def Let_def claim_def split: sum.splits option.splits)
  moreover have "map doc_id ?docs = map doc_id (documents s)" by (rule map_update_rows) simp
  moreover have "lock_ok d" if "d \<in> set ?docs" for d
  proof -
    from that obtain x where "x \<in> set (documents s)" "d = (if ?p x then take_lock (rq_username req) (now E) x else x)"
      by (rule update_rows_origin)
    then show ?thesis using assms by (cases "?p x") (auto simp: locks_ok_def lock_ok_def)
  qed
  ultimately show ?thesis using assms(1) unfolding locks_ok_def by metis
qed

lemma locks_ok_unlock: "locks_ok s \<Longrightarrow> locks_ok (fst (unlock E s req i))"
proof -
  assume ok: "locks_ok s"
  let ?docs = "update_rows (\<lambda>d. doc_id d = i) free_lock (documents s)"
  have "documents (fst (unlock E s req i)) = documents s \<or> documents (fst (unlock E s req i)) = ?docs"
    by (auto simp: unlock_def split: sum.splits)
  moreover have "map doc_id ?docs = map doc_id (documents s)" by (rule map_update_rows) (simp add: free_lock_def)
  moreover have "lock_ok d" if "d \<in> set ?docs" for d
  proof -
    from that obtain x where "x \<in> set (documents s)" "d = (if doc_id x = i then free_lock x else x)"
      by (rule update_rows_origin)
    then show ?thesis using ok by (cases "doc_id x = i") (auto simp: locks_ok_def lock_ok_def free_lock_def)
  qed
  ultimately show ?thesis using ok unfolding locks_ok_def by metis
qed

text \<open>A tombstone can neither be edited nor locked. While a document is checked out, each row of it is a tombstone
  or carries the lock of the holder, with an end not before \<open>T\<close>.\<close>

definition dead :: "document_row \<Rightarrow> bool" where
  "dead d \<longleftrightarrow> doc_deletedAt d \<noteq> None \<and> doc_destroyedAt d \<noteq> None"

definition checked_out :: "string \<Rightarrow> time \<Rightarrow> string \<Rightarrow> db \<Rightarrow> bool" where
  "checked_out me T i s \<longleftrightarrow> distinct (map doc_id (documents s)) \<and>
     (\<forall>d\<in>set (documents s). doc_id d = i \<longrightarrow> dead d \<or> doc_lockedBy d = Some me \<and> some_and (\<lambda>e. T \<le> e) (doc_lockExpiresAt d))"

lemma lock_checks_out:
  assumes "locks_ok s" and "lock E s req i = (s', Inr t)"
  shows "t = now E + LOCK_MS \<and> checked_out (rq_username req) t i s' \<and>
    (\<exists>d\<in>set (documents s'). doc_id d = i \<and> doc_lockedBy d = Some (rq_username req))"
proof -
  let ?me = "rq_username req"
  let ?p = "\<lambda>d. doc_id d = i \<and> lock_free ?me (now E) d"
  obtain d where d: "d \<in> set (documents s)" "doc_id d = i" "lock_free ?me (now E) d"
    and docs: "documents s' = update_rows ?p (take_lock ?me (now E)) (documents s)" and t: "t = now E + LOCK_MS"
    by (rule lock_Inr [OF assms(2,1)])
  have dist: "distinct (map doc_id (documents s))" using assms(1) by (simp add: locks_ok_def)
  have mem: "take_lock ?me (now E) d \<in> set (documents s')" using d docs by (force simp: set_update_rows)
  have ids: "map doc_id (documents s') = map doc_id (documents s)" by (simp add: docs map_update_rows)
  have "doc_lockedBy x = Some ?me \<and> some_and (\<lambda>e. t \<le> e) (doc_lockExpiresAt x)" if "x \<in> set (documents s')" "doc_id x = i" for x
    using key_unique [of doc_id "documents s'" x "take_lock ?me (now E) d"] that mem d(2) dist ids t by (simp add: some_and_iff)
  then have "checked_out ?me t i s'" unfolding checked_out_def ids using dist by blast
  moreover have "\<exists>d\<in>set (documents s'). doc_id d = i \<and> doc_lockedBy d = Some ?me" using mem d(2) by (intro bexI [OF _ mem]) simp
  ultimately show ?thesis using t by blast
qed

text \<open>Nobody else gets through while a document is checked out.\<close>

lemma checked_out_refuses:
  assumes "checked_out me T i s" and "me \<noteq> []" and "now E < T" and "rq_username req \<noteq> me"
  shows "(\<exists>e. lock E s req i = (s, Inl e)) \<and> (\<exists>e. restoreVersion E s req i v c = (s, Inl e)) \<and>
    (isAdminIdentity (rq_groups req) \<or> (\<exists>e. unlock E s req i = (s, Inl e)))"
proof (cases "requireEditable E s req i")
  case (Inl e)
  then show ?thesis by (simp add: lock_def restoreVersion_def unlock_def)
next
  case (Inr d)
  note d = requireEditable_Inr [OF Inr]
  have dist: "distinct (map doc_id (documents s))" using assms(1) by (simp add: checked_out_def)
  obtain e where held: "doc_lockedBy d = Some me" "doc_lockExpiresAt d = Some e" "T \<le> e"
    using assms(1) d(1-3) by (auto simp: checked_out_def dead_def some_and_iff)
  have lk: "lockedByOther d (rq_username req) (now E)"
    using assms(2-4) held by (simp add: lockedByOther_def truthy_def)
  have ff: "find_first (\<lambda>x. doc_id x = i) (documents s) = Some d"
    using find_first_key [OF dist d(1), of "\<lambda>_. True"] d(2) by simp
  have "\<not> lock_free (rq_username req) (now E) d" using assms(3,4) held by (simp add: lock_free_def)
  then have nofree: "count_rows (\<lambda>d. doc_id d = i \<and> lock_free (rq_username req) (now E) d) (documents s) \<noteq> 1"
    using count_rows_key_pos [OF dist d(1), of "lock_free (rq_username req) (now E)"] d(2) by simp
  have refused: "\<exists>e. assertNotLockedByOther E s i (rq_username req) = Inl e"
    using ff lk by (simp add: assertNotLockedByOther_def)
  have "\<exists>e. lock E s req i = (s, Inl e)"
    using refused nofree by (auto simp: lock_def Let_def claim_def split: sum.split)
  moreover have "\<exists>e. restoreVersion E s req i v c = (s, Inl e)"
    using refused by (auto simp: restoreVersion_def split: sum.split)
  moreover have "isAdminIdentity (rq_groups req) \<or> (\<exists>e. unlock E s req i = (s, Inl e))"
    using Inr lk by (simp add: unlock_def)
  ultimately show ?thesis by blast
qed

text \<open>Check-outs and releases by others leave it checked out; the holder may prolong it.\<close>

lemma lock_keeps_checked_out:
  assumes "checked_out me T i s" and "now E < T" and "T \<le> now E + LOCK_MS"
  shows "checked_out me T i (fst (lock E s req j))"
proof -
  let ?n = "rq_username req"
  let ?p = "\<lambda>d. doc_id d = j \<and> lock_free ?n (now E) d" and ?f = "take_lock ?n (now E)"
  have docs: "documents (fst (lock E s req j)) = documents s \<or> documents (fst (lock E s req j)) = update_rows ?p ?f (documents s)"
    by (auto simp: lock_def Let_def claim_def split: sum.splits option.splits)
  moreover have "map doc_id (update_rows ?p ?f (documents s)) = map doc_id (documents s)" by (simp add: map_update_rows)
  moreover have "dead d \<or> doc_lockedBy d = Some me \<and> some_and (\<lambda>e. T \<le> e) (doc_lockExpiresAt d)"
    if d: "d \<in> set (update_rows ?p ?f (documents s))" "doc_id d = i" for d
  proof -
    from d(1) obtain x where x: "x \<in> set (documents s)" "d = (if ?p x then ?f x else x)" by (rule update_rows_origin)
    then have "doc_id x = i" using d(2) by (cases "?p x") simp_all
    with x assms show ?thesis
      by (cases "?p x") (auto simp: checked_out_def dead_def lock_free_def some_and_iff)
  qed
  ultimately show ?thesis using assms(1) unfolding checked_out_def by metis
qed

lemma unlock_keeps_checked_out:
  assumes "checked_out me T i s" and "me \<noteq> []" and "now E < T"
    and "j \<noteq> i \<or> rq_username req \<noteq> me \<and> \<not> isAdminIdentity (rq_groups req)"
  shows "checked_out me T i (fst (unlock E s req j))"
proof (cases "j = i")
  case True
  then show ?thesis using checked_out_refuses [OF assms(1-3), of req] assms(1,4) by fastforce
next
  case False
  let ?docs = "update_rows (\<lambda>d. doc_id d = j) free_lock (documents s)"
  have docs: "documents (fst (unlock E s req j)) = documents s \<or> documents (fst (unlock E s req j)) = ?docs"
    by (auto simp: unlock_def split: sum.splits)
  moreover have "map doc_id ?docs = map doc_id (documents s)" by (rule map_update_rows) (simp add: free_lock_def)
  moreover have "d \<in> set (documents s)" if d: "d \<in> set ?docs" "doc_id d = i" for d
    using d False by (auto simp: free_lock_def elim!: update_rows_origin split: if_splits)
  ultimately show ?thesis using assms(1) unfolding checked_out_def by metis
qed

definition editor :: "string \<Rightarrow> request" where
  "editor name = sample_request name [''Staff'']"

lemma editor_edits: "requireEditable sample_env sample_db (editor n) ''d1'' = Inr sample_document"
proof -
  have "can sample_env sample_db [''Staff''] ''s1'' Edit (InCategory None)"
    "can sample_env sample_db [''Staff''] ''s1'' Read (InCategory None)" by code_simp+
  then show ?thesis
    by (simp add: requireEditable_def requireVisible_def visibleDocument_def can_on_def editor_def
        sample_request_def sample_identity_def sample_db_def sample_document_def)
qed

lemma editor_locks:
  "\<exists>s' t. lock sample_env sample_db (editor n) ''d1'' = (s', Inr t)"
proof -
  have "doc_id d = ''d1'' \<and> lock_free (rq_username (editor n)) (now sample_env) d" if "d \<in> set (documents sample_db)" for d
    using that by (simp add: sample_db_def sample_document_def lock_free_def)
  then have "count_rows (\<lambda>d. doc_id d = ''d1'' \<and> lock_free (rq_username (editor n)) (now sample_env) d) (documents sample_db) = 1"
    by (simp add: count_rows_def sample_db_def)
  then show ?thesis by (simp add: lock_def editor_edits claim_def Let_def)
qed

lemma sample_locks_ok: "locks_ok sample_db"
  by (simp add: locks_ok_def lock_ok_def sample_db_def sample_document_def)

section \<open>Restoring keeps the order of versions\<close>

text \<open>Restoring writes a new version and rewrites none. It takes a version of this document whose file
  is not purged and whose latest scan is clean, appends one version with the same file and language,
  whose number is above all numbers of that language and whose label follows the label of the latest
  one, and puts the document back to draft; no version that existed is touched.\<close>

theorem restoreVersion_appends:
  assumes "restoreVersion E s req i vid summary = (s', Inr v)"
  shows "\<exists>src\<in>set (versions s). ver_id src = vid \<and> ver_documentId src = i \<and>
      ver_storedFileId v = ver_storedFileId src \<and> ver_locale v = ver_locale src \<and>
      (\<exists>f. find_file s (ver_storedFileId src) = Some f \<and> sf_purgedAt f = None \<and> latest_scan s (sf_id f) = Some ScanClean) \<and>
      (\<exists>l\<in>set (versions s). ver_documentId l = i \<and> ver_locale l = ver_locale src \<and>
         ver_version v = ver_version l + 1 \<and> ver_versionMajor v = ver_versionMajor l \<and> ver_versionMinor v = ver_versionMinor l + 1) \<and>
      (\<forall>w\<in>set (versions s). ver_documentId w = i \<and> ver_locale w = ver_locale v \<longrightarrow> ver_version w < ver_version v) \<and>
      versions s' = versions s @ [v] \<and>
      (\<forall>d\<in>set (documents s'). doc_id d = i \<longrightarrow> doc_status d = DRAFT)"
proof -
  let ?q = "\<lambda>src v. ver_documentId v = i \<and> ver_locale v = ver_locale src"
  obtain src f where src: "find_first (\<lambda>v. ver_id v = vid \<and> ver_documentId v = i) (versions s) = Some src"
    and f: "find_file s (ver_storedFileId src) = Some f" "sf_purgedAt f = None" "latest_scan s (sf_id f) = Some ScanClean"
    and v: "v = restored_version E s src (find_first_by (\<lambda>v. - ver_version v) (?q src) (versions s)) summary"
    and vs: "versions s' = versions s @ [v]"
    and docs: "documents s' = update_rows (\<lambda>d. doc_id d = i) (\<lambda>d. d\<lparr>doc_status := DRAFT\<rparr>) (documents s)"
    using assms by (auto simp: restoreVersion_def Let_def split: sum.splits option.splits if_splits)
  have mem: "src \<in> set (versions s)" "ver_id src = vid" "ver_documentId src = i" using find_first_Some [OF src] by auto
  obtain l where l: "find_first_by (\<lambda>v. - ver_version v) (?q src) (versions s) = Some l"
    using mem by (cases "find_first_by (\<lambda>v. - ver_version v) (?q src) (versions s)") (auto simp: find_first_by_None_iff)
  have lv: "l \<in> set (versions s)" "?q src l" using find_first_by_Some [OF l] by auto
  have "ver_version w \<le> ver_version l" if "w \<in> set (versions s)" "?q src w" for w
    using find_first_by_least [OF l that] by simp
  moreover have "\<forall>d\<in>set (documents s'). doc_id d = i \<longrightarrow> doc_status d = DRAFT"
    unfolding docs by (auto elim!: update_rows_origin split: if_splits)
  ultimately show ?thesis
    using mem lv f vs by (intro bexI [of _ src]) (auto simp: v l restored_version_def intro!: bexI [of _ l])
qed

definition two_versions_db :: db where
  "two_versions_db = sample_db\<lparr>versions := [sample_version, sample_version\<lparr>ver_id := ''v2'', ver_version := 2, ver_versionMinor := 2\<rparr>]\<rparr>"

theorem restoreVersion_appends_witness:
  "\<exists>s' v. restoreVersion sample_env two_versions_db (editor ''ann'') ''d1'' ''v1'' None = (s', Inr v) \<and>
     length (versions s') = 3"
proof -
  have "requireEditable sample_env two_versions_db (editor ''ann'') ''d1'' = Inr sample_document"
    "assertNotLockedByOther sample_env two_versions_db ''d1'' (rq_username (editor ''ann'')) = Inr ()"
    "find_first (\<lambda>v. ver_id v = ''v1'' \<and> ver_documentId v = ''d1'') (versions two_versions_db) = Some sample_version"
    "find_file two_versions_db (ver_storedFileId sample_version) = Some sample_file" "sf_purgedAt sample_file = None"
    "latest_scan two_versions_db (sf_id sample_file) = Some ScanClean"
    "map_option ver_version (find_first_by (\<lambda>v. - ver_version v) (\<lambda>v. ver_documentId v = ''d1'' \<and> ver_locale v = ver_locale sample_version)
       (versions two_versions_db)) = Some 2" "ver_version sample_version = 1"
    by code_simp+
  then obtain s' v where r: "restoreVersion sample_env two_versions_db (editor ''ann'') ''d1'' ''v1'' None = (s', Inr v)"
    by (auto simp: restoreVersion_def Let_def)
  moreover have "length (versions s') = 3" using restoreVersion_appends [OF r] by (auto simp: two_versions_db_def)
  ultimately show ?thesis by blast
qed

section \<open>The panel shows what the reader may see\<close>

text \<open>The panel leaks no document. Every linked document it lists is one the caller may open, and the
  history of versions is listed for editors only.\<close>

theorem panel_shows_visible_only:
  assumes "panel E s req i = Inr v"
  shows "(\<forall>l\<in>set (pv_links v). visibleDocument E s req (doc_id (lv_document l)) \<noteq> None \<and> doc_deletedAt (lv_document l) = None) \<and>
    (pv_versions v \<noteq> [] \<longrightarrow> pv_canEdit v \<and> (\<exists>d. requireEditable E s req i = Inr d)) \<and>
    (\<forall>c\<in>set (pv_comments v). snd c \<longleftrightarrow> isAdminIdentity (rq_groups req) \<or> cm_author (fst c) = rq_username req)"
proof -
  have "l \<in> set (linked E s req b k) \<Longrightarrow>
      visibleDocument E s req (doc_id (lv_document l)) \<noteq> None \<and> doc_deletedAt (lv_document l) = None" for l b k
    by (auto simp: linked_def split: option.splits if_splits)
  then show ?thesis
    using assms by (auto simp: panel_def Let_def requireEditable_def split: sum.splits if_splits)
qed

definition linked_db :: db where
  "linked_db = sample_db\<lparr>documents := [sample_document, sample_document\<lparr>doc_id := ''d2'', doc_slug := ''b''\<rparr>,
       sample_document\<lparr>doc_id := ''d3'', doc_slug := ''c'', doc_spaceId := ''s9''\<rparr>],
     links := map (\<lambda>t. \<lparr>ln_id = t, ln_sourceId = ''d1'', ln_targetId = t, ln_type = ''RELATED'', ln_createdBy = ''u'', ln_createdAt = 1\<rparr>)
       [''d2'', ''d3'']\<rparr>"

theorem panel_shows_visible_only_witness:
  "\<exists>v. panel sample_env linked_db (editor ''ann'') ''d1'' = Inr v \<and> map (\<lambda>l. doc_id (lv_document l)) (pv_links v) = [''d2''] \<and>
     visibleDocument sample_env linked_db (editor ''ann'') ''d2'' \<noteq> None"
proof -
  have "\<not> isl (panel sample_env linked_db (editor ''ann'') ''d1'')"
    "map (\<lambda>l. doc_id (lv_document l)) (pv_links (projr (panel sample_env linked_db (editor ''ann'') ''d1''))) = [''d2'']"
    by code_simp+
  then obtain v where v: "panel sample_env linked_db (editor ''ann'') ''d1'' = Inr v"
    "map (\<lambda>l. doc_id (lv_document l)) (pv_links v) = [''d2'']" by (metis sum.collapse(2) sum.sel(2))
  then obtain l where "l \<in> set (pv_links v)" "doc_id (lv_document l) = ''d2''" by (auto simp: map_eq_Cons_conv)
  with panel_shows_visible_only [OF v(1)] v show ?thesis by metis
qed

end
