(* ===== verification/Retention.thy ===== *)
theory Retention
  imports Approvals Document_Control
begin

text \<open>
  Retention and destruction of documents: the policies and the request, approval or rejection of a
  destruction (\<^verbatim>\<open>apps/api/src/governance.controller.ts\<close>, lines 802 to 955), the flagging of ended
  periods and the execution of approved destructions by the worker (\<^verbatim>\<open>ged-worker.ts\<close>), and the permanent
  deletion by an administrator (\<^verbatim>\<open>controllers.ts\<close>, \<open>remove\<close>). Removing an object from the store may
  fail; \<open>remove_ok\<close> says for which keys it succeeds.
\<close>

section \<open>Policies\<close>

record RetentionPolicyDto =
  rd_documentId :: string
  rd_retentionUntil :: "time option"
  rd_legalHold :: bool
  rd_reason :: string

definition requireDocument :: "db \<Rightarrow> string \<Rightarrow> unit outcome" where
  "requireDocument s i =
     (if \<exists>d\<in>set (documents s). doc_id d = i \<and> doc_deletedAt d = None then Inr () else Inl NotFound)"

definition policy_guard :: "request \<Rightarrow> bool outcome" where
  "policy_guard req = canActivate no_metadata AdminOnly (rq_groups req)"

definition list_retention :: "db \<Rightarrow> request \<Rightarrow> retention_row list outcome" where
  "list_retention s req =
     (case policy_guard req of
        Inl e \<Rightarrow> Inl e
      | Inr _ \<Rightarrow>
          Inr (take 300 (sort_key (\<lambda>p. \<not> rp_legalHold p) (sort_key (\<lambda>p. rp_retentionUntil p = None)
            (sort_key (\<lambda>p. case rp_retentionUntil p of None \<Rightarrow> 0 | Some t \<Rightarrow> t) (retentions s))))))"

definition create_policy :: "env \<Rightarrow> db \<Rightarrow> RetentionPolicyDto \<Rightarrow> retention_row" where
  "create_policy E s body =
     \<lparr>rp_id = uuid E (uuid_next s), rp_documentId = rd_documentId body, rp_retentionUntil = rd_retentionUntil body,
      rp_legalHold = rd_legalHold body, rp_reason = trim (rd_reason body), rp_status = DsNone,
      rp_requestedBy = None, rp_requestedAt = None, rp_approvedBy = None, rp_approvedAt = None,
      rp_destroyedAt = None, rp_updatedAt = now E\<rparr>"

definition update_policy :: "env \<Rightarrow> RetentionPolicyDto \<Rightarrow> retention_row \<Rightarrow> retention_row" where
  "update_policy E body p =
     (let q = p\<lparr>rp_retentionUntil := rd_retentionUntil body, rp_legalHold := rd_legalHold body,
                rp_reason := trim (rd_reason body), rp_updatedAt := now E\<rparr>
      in if rd_legalHold body
         then q\<lparr>rp_status := DsNone, rp_requestedBy := None, rp_requestedAt := None,
                rp_approvedBy := None, rp_approvedAt := None\<rparr>
         else q)"

definition find_policy :: "db \<Rightarrow> string \<Rightarrow> retention_row option" where
  "find_policy s d = find_first (\<lambda>p. rp_documentId p = d) (retentions s)"

definition upsert_policy :: "env \<Rightarrow> db \<Rightarrow> RetentionPolicyDto \<Rightarrow> db \<times> retention_row" where
  "upsert_policy E s body =
     (case find_policy s (rd_documentId body) of
        None \<Rightarrow>
          (let p = create_policy E s body
           in (s\<lparr>retentions := retentions s @ [p], uuid_next := Suc (uuid_next s)\<rparr>, p))
      | Some p \<Rightarrow>
          (s\<lparr>retentions := update_rows (\<lambda>x. rp_documentId x = rd_documentId body) (update_policy E body) (retentions s)\<rparr>,
           update_policy E body p))"

text \<open>The end of \<open>saveRetention\<close>, once the gate has let the change through.\<close>

definition apply_retention :: "env \<Rightarrow> db \<Rightarrow> request \<Rightarrow> RetentionPolicyDto \<Rightarrow> string \<Rightarrow> db \<times> retention_row outcome" where
  "apply_retention E s req body approvalId =
     (let (s2, p) = upsert_policy E s body;
          s3 = record_audit E s2 req ''retention-policy.save'' (''retention-policy:'' @ rp_id p) Success
            (Some (JObj [(''documentId'', JStr (rp_documentId p)), (''legalHold'', JBool (rp_legalHold p)),
               (''retentionUntil'', json_opt JDate (rp_retentionUntil p))]))
      in (case execute_approval s3 approvalId of
            (s4, Inl e) \<Rightarrow> (s4, Inl e)
          | (s4, Inr _) \<Rightarrow> (s4, Inr p)))"

definition retention_gate :: "env \<Rightarrow> db \<Rightarrow> request \<Rightarrow> RetentionPolicyDto \<Rightarrow> db \<times> string outcome" where
  "retention_gate E s req body =
     (if find_policy s (rd_documentId body) \<noteq> None
      then require_approval E s req ''RETENTION_CHANGE'' ''DOCUMENT'' (rd_documentId body) (trim (rd_reason body))
      else (s, Inr []))"

definition saveRetention :: "env \<Rightarrow> db \<Rightarrow> request \<Rightarrow> RetentionPolicyDto \<Rightarrow> db \<times> retention_row outcome" where
  "saveRetention E s req body =
     (case policy_guard req of
        Inl e \<Rightarrow> (s, Inl e)
      | Inr _ \<Rightarrow>
          (case requireDocument s (rd_documentId body) of
             Inl e \<Rightarrow> (s, Inl e)
           | Inr _ \<Rightarrow>
               if \<not> rd_legalHold body \<and> rd_retentionUntil body = None
               then (s, Inl (BadRequest ''Retention requires a date or a legal hold''))
               else (case retention_gate E s req body of
                   (s1, Inl e) \<Rightarrow> (s1, Inl e)
                 | (s1, Inr approvalId) \<Rightarrow> apply_retention E s1 req body approvalId)))"

section \<open>Requests and decisions\<close>

datatype retention_action = ActRequest | ActApprove | ActReject

definition request_row :: "env \<Rightarrow> request \<Rightarrow> string \<Rightarrow> retention_row \<Rightarrow> retention_row" where
  "request_row E req reason p =
     p\<lparr>rp_status := DsRequested, rp_requestedBy := Some (rq_username req), rp_requestedAt := Some (now E),
       rp_reason := trim reason, rp_approvedBy := None, rp_approvedAt := None, rp_updatedAt := now E\<rparr>"

definition decide_row :: "env \<Rightarrow> request \<Rightarrow> destruction_status \<Rightarrow> retention_row \<Rightarrow> retention_row" where
  "decide_row E req st p =
     p\<lparr>rp_status := st, rp_approvedBy := Some (rq_username req), rp_approvedAt := Some (now E), rp_updatedAt := now E\<rparr>"

fun action_name :: "retention_action \<Rightarrow> string" where
  "action_name ActRequest = ''request''"
| "action_name ActApprove = ''approve''"
| "action_name ActReject = ''reject''"

definition retentionDecision ::
    "env \<Rightarrow> db \<Rightarrow> request \<Rightarrow> string \<Rightarrow> retention_action \<Rightarrow> string \<Rightarrow> db \<times> retention_row outcome" where
  "retentionDecision E s req i action reason =
     (case policy_guard req of
        Inl e \<Rightarrow> (s, Inl e)
      | Inr _ \<Rightarrow>
          (case find_first (\<lambda>p. rp_id p = i) (retentions s) of
             None \<Rightarrow> (s, Inl NotFound)
           | Some p \<Rightarrow>
               if rp_legalHold p then (s, Inl (Conflict ''Legal hold blocks every destruction request''))
               else if action = ActRequest
               then (if rp_status p \<in> {DsApproved, DsDestroying, DsDestroyed}
                     then (s, Inl (Conflict ''Destruction already approved or executed''))
                     else if some_and (\<lambda>t. now E < t) (rp_retentionUntil p)
                     then (s, Inl (Conflict ''Retention period has not ended''))
                     else (record_audit E
                             (s\<lparr>retentions := update_rows (\<lambda>x. rp_id x = i) (request_row E req reason) (retentions s)\<rparr>)
                             req ''retention-destruction.request'' (''retention-policy:'' @ i) Success None,
                           Inr (request_row E req reason p)))
               else if rp_status p \<noteq> DsRequested then (s, Inl (Conflict ''No destruction request is pending''))
               else if action = ActApprove \<and> rp_requestedBy p = Some (rq_username req)
               then (s, Inl (Conflict ''A second administrator must approve destruction''))
               else (let st = (if action = ActApprove then DsApproved else DsRejected)
                     in (record_audit E
                           (s\<lparr>retentions := update_rows (\<lambda>x. rp_id x = i) (decide_row E req st) (retentions s)\<rparr>)
                           req (''retention-destruction.'' @ action_name action) (''retention-policy:'' @ i) Success
                           (Some (JObj [(''requester'', json_opt JStr (rp_requestedBy p))])),
                         Inr (decide_row E req st p)))))"

section \<open>The worker\<close>

definition schedulerRequest :: "env \<Rightarrow> db \<Rightarrow> request" where
  "schedulerRequest E s =
     \<lparr>rq_identity = \<lparr>id_username = ''ISMS scheduler'', id_displayName = ''ISMS scheduler'', id_groups = [],
        id_source = System, id_sessionExpiresAt = None, id_profilePhoto = None\<rparr>,
      rq_ip = Some ''worker'', rq_correlationId = uuid E (uuid_next s)\<rparr>"

definition retention_due :: "env \<Rightarrow> db \<Rightarrow> retention_row \<Rightarrow> bool" where
  "retention_due E s p =
     (\<not> rp_legalHold p \<and> rp_status p = DsNone \<and> some_and (\<lambda>t. t \<le> now E) (rp_retentionUntil p) \<and>
      some_and (\<lambda>d. doc_destroyedAt d = None) (find_first (\<lambda>d. doc_id d = rp_documentId p) (documents s)))"

fun flag_loop :: "env \<Rightarrow> db \<Rightarrow> retention_row list \<Rightarrow> db" where
  "flag_loop E s [] = s"
| "flag_loop E s (p # ps) =
     (let s1 = s\<lparr>retentions := update_rows (\<lambda>x. rp_id x = rp_id p) (\<lambda>x. x\<lparr>rp_status := DsDue, rp_updatedAt := now E\<rparr>) (retentions s),
                uuid_next := Suc (uuid_next s)\<rparr>
      in flag_loop E (fst (persistAudit E s1 (schedulerRequest E s) ''retention.due'' (''retention-policy:'' @ rp_id p) Success
           (Some (JObj [(''documentId'', JStr (rp_documentId p)), (''retentionUntil'', json_opt JDate (rp_retentionUntil p))]))
           False)) ps)"

definition flagDueRetentions :: "env \<Rightarrow> db \<Rightarrow> db \<times> nat" where
  "flagDueRetentions E s =
     (let due = take 100 (filter (retention_due E s) (retentions s)) in (flag_loop E s due, length due))"

text \<open>A destruction that is left \<open>DESTROYING\<close> for thirty minutes is taken up again.\<close>

definition requeue_stale :: "env \<Rightarrow> db \<Rightarrow> db" where
  "requeue_stale E s =
     s\<lparr>retentions := update_rows (\<lambda>p. rp_status p = DsDestroying \<and> rp_updatedAt p < now E - 30 * 60000)
        (\<lambda>p. p\<lparr>rp_status := DsApproved, rp_updatedAt := now E\<rparr>) (retentions s)\<rparr>"

definition destruction_open :: "retention_row \<Rightarrow> bool" where
  "destruction_open p = (rp_status p = DsApproved \<and> \<not> rp_legalHold p)"

definition start_destruction :: "time \<Rightarrow> retention_row \<Rightarrow> retention_row" where
  "start_destruction t p = p\<lparr>rp_status := DsDestroying, rp_updatedAt := t\<rparr>"

text \<open>The files of the versions of a document, each once, and those that a version of another document
  refers to.\<close>

definition document_files :: "db \<Rightarrow> string \<Rightarrow> file_row list" where
  "document_files s d =
     List.map_filter (find_file s)
       (new_set (concat (map (\<lambda>v. ver_storedFileId v # (case ver_distributedStoredFileId v of None \<Rightarrow> [] | Some f \<Rightarrow> [f]))
         (filter (\<lambda>v. ver_documentId v = d) (versions s)))))"

definition kept :: "db \<Rightarrow> string \<Rightarrow> string \<Rightarrow> bool" where
  "kept s d f =
     list_ex (\<lambda>v. ver_documentId v \<noteq> d \<and> (ver_storedFileId v = f \<or> ver_distributedStoredFileId v = Some f)) (versions s)"

text \<open>The removal of the objects: it stops at the first failure, which the caller sees.\<close>

fun remove_objects :: "(string \<Rightarrow> bool) \<Rightarrow> string list \<Rightarrow> string list \<Rightarrow> string list \<times> bool" where
  "remove_objects remove_ok gone [] = (gone, True)"
| "remove_objects remove_ok gone (k # ks) =
     (if remove_ok k then remove_objects remove_ok (gone @ [k]) ks else (gone, False))"

definition tombstone :: "time \<Rightarrow> document_row \<Rightarrow> document_row" where
  "tombstone t d =
     d\<lparr>doc_status := ARCHIVED, doc_deletedAt := (case doc_deletedAt d of None \<Rightarrow> Some t | Some x \<Rightarrow> Some x),
       doc_destroyedAt := Some t, doc_lockedBy := None, doc_lockedAt := None, doc_lockExpiresAt := None\<rparr>"

definition destruction_record :: "env \<Rightarrow> db \<Rightarrow> retention_row \<Rightarrow> document_row \<Rightarrow> file_row list \<Rightarrow> json" where
  "destruction_record E s p d files =
     JObj [(''titles'', JArr (map (\<lambda>t. JObj [(''locale'', JStr (tr_locale t)), (''title'', JStr (tr_title t))])
              (filter (\<lambda>t. tr_documentId t = doc_id d) (titles s)))),
           (''space'', json_opt (\<lambda>sp. JStr (sp_nameFr sp)) (find_first (\<lambda>sp. sp_id sp = doc_spaceId d) (spaces s))),
           (''reason'', JStr (rp_reason p)), (''retentionUntil'', json_opt JDate (rp_retentionUntil p)),
           (''requestedBy'', json_opt JStr (rp_requestedBy p)), (''approvedBy'', json_opt JStr (rp_approvedBy p)),
           (''destroyedAt'', JDate (now E)),
           (''files'', JArr (map (\<lambda>f. JObj [(''name'', JStr (sf_originalName f)), (''sha256'', JStr (sf_sha256 f)),
              (''size'', JNum (sf_size f)), (''kept'', JBool (kept s (doc_id d) (sf_id f)))]) files))]"

text \<open>The transaction that ends a destruction.\<close>

definition finish_destruction :: "env \<Rightarrow> db \<Rightarrow> retention_row \<Rightarrow> document_row \<Rightarrow> file_row list \<Rightarrow> db" where
  "finish_destruction E s p d files =
     (let gone = filter (\<lambda>f. \<not> kept s (doc_id d) f) (map sf_id files);
          vids = map ver_id (filter (\<lambda>v. ver_documentId v = doc_id d) (versions s));
          s1 = s\<lparr>storedfiles := update_rows (\<lambda>f. sf_id f \<in> set gone) (\<lambda>f. f\<lparr>sf_purgedAt := Some (now E)\<rparr>) (storedfiles s),
                 contents := delete_rows (\<lambda>c. vc_versionId c \<in> set vids) (contents s),
                 comments := delete_rows (\<lambda>c. cm_documentId c = doc_id d) (comments s),
                 subscriptions := delete_rows (\<lambda>r. sub_documentId r = doc_id d) (subscriptions s),
                 links := delete_rows (\<lambda>l. ln_sourceId l = doc_id d \<or> ln_targetId l = doc_id d) (links s),
                 documents := update_rows (\<lambda>x. doc_id x = doc_id d) (tombstone (now E)) (documents s),
                 retentions := update_rows (\<lambda>x. rp_id x = rp_id p)
                   (\<lambda>x. x\<lparr>rp_status := DsDestroyed, rp_destroyedAt := Some (now E), rp_updatedAt := now E\<rparr>) (retentions s),
                 uuid_next := Suc (uuid_next s)\<rparr>
      in fst (persistAudit E s1 (schedulerRequest E s) ''document.destroyed'' (''document:'' @ doc_id d) Success
           (Some (destruction_record E s p d files)) False))"

definition destroy_one :: "env \<Rightarrow> (string \<Rightarrow> bool) \<Rightarrow> db \<Rightarrow> retention_row \<Rightarrow> document_row \<Rightarrow> db \<times> bool" where
  "destroy_one E remove_ok s p d =
     (let files = document_files s (doc_id d);
          keys = map sf_objectKey (filter (\<lambda>f. \<not> kept s (doc_id d) (sf_id f) \<and> sf_purgedAt f = None) files);
          (gone, ok) = remove_objects remove_ok [] keys;
          s1 = s\<lparr>removedobjects := removedobjects s @ gone\<rparr>
      in if ok then (finish_destruction E s1 p d files, True) else (s1, False))"

fun destroy_loop :: "env \<Rightarrow> (string \<Rightarrow> bool) \<Rightarrow> db \<Rightarrow> nat \<Rightarrow> retention_row list \<Rightarrow> db \<times> nat outcome" where
  "destroy_loop E remove_ok s n [] = (s, Inr n)"
| "destroy_loop E remove_ok s n (p # ps) =
     (case claim (\<lambda>x. rp_id x = rp_id p \<and> destruction_open x) (start_destruction (now E)) (retentions s) of
        None \<Rightarrow> destroy_loop E remove_ok s n ps
      | Some rows \<Rightarrow>
          (let s1 = s\<lparr>retentions := rows\<rparr>
           in case find_first (\<lambda>d. doc_id d = rp_documentId p) (documents s) of
                None \<Rightarrow> destroy_loop E remove_ok s1 n ps
              | Some d \<Rightarrow>
                  (case destroy_one E remove_ok s1 p d of
                     (s2, True) \<Rightarrow> destroy_loop E remove_ok s2 (Suc n) ps
                   | (s2, False) \<Rightarrow> (s2, Inl (InternalError ''storage'')))))"

definition executeApprovedDestructions :: "env \<Rightarrow> (string \<Rightarrow> bool) \<Rightarrow> db \<Rightarrow> db \<times> nat outcome" where
  "executeApprovedDestructions E remove_ok s =
     (let s1 = requeue_stale E s
      in destroy_loop E remove_ok s1 0 (take 10 (filter destruction_open (retentions s1))))"

section \<open>The states of the workflow\<close>

interpretation destruction: claim_once rp_id destruction_open "\<lambda>_ :: time. True" start_destruction
  by unfold_locales (simp_all add: destruction_open_def start_destruction_def)

text \<open>A destruction that is approved, running or done was requested by one person and approved by
  another; a policy under legal hold has no destruction under way.\<close>

definition two_persons :: "retention_row \<Rightarrow> bool" where
  "two_persons p \<longleftrightarrow> (\<exists>a b. rp_requestedBy p = Some a \<and> rp_approvedBy p = Some b \<and> a \<noteq> b)"

definition policy_ok :: "retention_row \<Rightarrow> bool" where
  "policy_ok p \<longleftrightarrow>
     (rp_status p \<in> {DsApproved, DsDestroying, DsDestroyed} \<longrightarrow> two_persons p) \<and>
     (rp_status p = DsRequested \<longrightarrow> rp_requestedBy p \<noteq> None) \<and>
     (rp_legalHold p \<longrightarrow> rp_status p = DsNone)"

definition policies_ok :: "retention_row list \<Rightarrow> bool" where
  "policies_ok rows \<longleftrightarrow> distinct (map rp_id rows) \<and> (\<forall>p\<in>set rows. policy_ok p)"

text \<open>The states that the writers of the table reach; the deletion of a document deletes its policy with it.\<close>

inductive retention_reachable :: "db \<Rightarrow> bool" where
  start: "retentions s = [] \<Longrightarrow> retention_reachable s"
| other: "retention_reachable s \<Longrightarrow> retentions s' = retentions s \<Longrightarrow> retention_reachable s'"
| save: "retention_reachable s \<Longrightarrow> uuid E (uuid_next s) \<notin> rp_id ` set (retentions s) \<Longrightarrow>
    retention_reachable (fst (saveRetention E s req body))"
| decide: "retention_reachable s \<Longrightarrow> retention_reachable (fst (retentionDecision E s req i action reason))"
| flag: "retention_reachable s \<Longrightarrow> retention_reachable (fst (flagDueRetentions E s))"
| execute: "retention_reachable s \<Longrightarrow> retention_reachable (fst (executeApprovedDestructions E remove_ok s))"
| cascade: "retention_reachable s \<Longrightarrow> retentions s' = delete_rows (\<lambda>p. rp_documentId p = i) (retentions s) \<Longrightarrow> retention_reachable s'"

lemma policies_ok_delete: "policies_ok rows \<Longrightarrow> policies_ok (delete_rows q rows)"
  by (auto simp: policies_ok_def delete_rows_def distinct_map_filter)

lemma policies_ok_update:
  assumes "policies_ok rows" and "\<And>x. x \<in> set rows \<Longrightarrow> q x \<Longrightarrow> policy_ok x \<Longrightarrow> policy_ok (f x)"
    and "\<And>x. rp_id (f x) = rp_id x"
  shows "policies_ok (update_rows q f rows)"
proof -
  have "map rp_id (update_rows q f rows) = map rp_id rows" by (rule map_update_rows) (rule assms(3))
  moreover have "policy_ok p" if "p \<in> set (update_rows q f rows)" for p
  proof -
    from that obtain x where x: "x \<in> set rows" "p = (if q x then f x else x)" by (rule update_rows_origin)
    moreover have "policy_ok x" using assms(1) x(1) by (simp add: policies_ok_def)
    ultimately show ?thesis using assms(2) [OF x(1)] by (cases "q x") simp_all
  qed
  ultimately show ?thesis using assms(1) by (simp add: policies_ok_def)
qed

lemma notifyApprovers_retentions [simp]:
  "retentions (notifyApprovers E s a) = retentions s" "uuid_next (notifyApprovers E s a) = uuid_next s"
  "documents (notifyApprovers E s a) = documents s"
  by (simp_all add: notifyApprovers_def enqueue_def Let_def)

lemma require_approval_retentions [simp]:
  "retentions (fst (require_approval E s req op tt ti r)) = retentions s"
  "documents (fst (require_approval E s req op tt ti r)) = documents s"
  by (simp_all add: require_approval_def Let_def split: option.split)

lemma require_approval_same: "require_approval E s req op tt ti r = (s', Inr i) \<Longrightarrow> s' = s"
  by (auto elim: require_approval_Inr)

lemma execute_approval_retentions [simp]:
  "retentions (fst (execute_approval s i)) = retentions s" "documents (fst (execute_approval s i)) = documents s"
  by (simp_all add: execute_approval_def)

lemma policy_ok_update_policy: "policy_ok p \<Longrightarrow> policy_ok (update_policy E body p)"
  by (auto simp: policy_ok_def update_policy_def two_persons_def Let_def)

lemma upsert_policy_documents: "documents (fst (upsert_policy E s body)) = documents s"
  by (simp add: upsert_policy_def Let_def split: option.split)

lemma apply_retention_tables:
  "retentions (fst (apply_retention E s req body a)) = retentions (fst (upsert_policy E s body))"
  "documents (fst (apply_retention E s req body a)) = documents s"
  by (simp_all add: apply_retention_def Let_def case_prod_beta upsert_policy_documents split: sum.split)

lemma retention_gate_Inr: "retention_gate E s req body = (s', Inr a) \<Longrightarrow> s' = s"
  by (auto simp: retention_gate_def dest: require_approval_same split: if_splits)

lemma retention_gate_retentions: "retentions (fst (retention_gate E s req body)) = retentions s"
  by (simp add: retention_gate_def)

lemma saveRetention_cases:
  "retentions (fst (saveRetention E s req body)) = retentions s \<or>
   retentions (fst (saveRetention E s req body)) = retentions (fst (upsert_policy E s body))"
proof -
  obtain s1 r where g: "retention_gate E s req body = (s1, r)" by fastforce
  then have "retentions s1 = retentions s" using retention_gate_retentions [of E s req body] by simp
  then show ?thesis
    using g retention_gate_Inr [of E s req body s1]
    by (cases r) (auto simp: saveRetention_def apply_retention_tables split: sum.split)
qed

lemma policies_ok_save:
  assumes "policies_ok (retentions s)" and "uuid E (uuid_next s) \<notin> rp_id ` set (retentions s)"
  shows "policies_ok (retentions (fst (saveRetention E s req body)))"
proof -
  have "policies_ok (retentions (fst (upsert_policy E s body)))"
  proof (cases "find_policy s (rd_documentId body)")
    case None
    then show ?thesis
      using assms by (simp add: upsert_policy_def create_policy_def Let_def policies_ok_def policy_ok_def)
  next
    case (Some p)
    then show ?thesis
      using assms(1) by (auto simp: upsert_policy_def intro!: policies_ok_update policy_ok_update_policy)
        (simp add: update_policy_def Let_def)
  qed
  then show ?thesis using saveRetention_cases [of E s req body] assms(1) by auto
qed

lemma policies_ok_decide:
  assumes "policies_ok (retentions s)"
  shows "policies_ok (retentions (fst (retentionDecision E s req i action reason)))"
proof (cases "find_first (\<lambda>p. rp_id p = i) (retentions s)")
  case None
  then show ?thesis using assms by (simp add: retentionDecision_def split: sum.split)
next
  case (Some p)
  then have p: "p \<in> set (retentions s)" "rp_id p = i" by (auto dest: find_first_Some)
  have only: "x = p" if "x \<in> set (retentions s)" "rp_id x = i" for x
    using key_unique [of rp_id "retentions s" x p] assms that p by (simp add: policies_ok_def)
  have "policies_ok (update_rows (\<lambda>x. rp_id x = i) (request_row E req reason) (retentions s))" if "\<not> rp_legalHold p"
    using that only by (intro policies_ok_update [OF assms]) (auto simp: policy_ok_def request_row_def)
  moreover have "policies_ok (update_rows (\<lambda>x. rp_id x = i) (decide_row E req st) (retentions s))"
    if "\<not> rp_legalHold p" "rp_status p = DsRequested" "st = DsRejected \<or> st = DsApproved \<and> (\<exists>a. rp_requestedBy p = Some a \<and> a \<noteq> rq_username req)" for st
    using that only by (intro policies_ok_update [OF assms]) (auto simp: policy_ok_def decide_row_def two_persons_def)
  moreover have "rp_status p = DsRequested \<Longrightarrow> \<exists>a. rp_requestedBy p = Some a"
    using assms p(1) by (auto simp: policies_ok_def policy_ok_def)
  ultimately show ?thesis
    using Some assms by (auto simp: retentionDecision_def Let_def split: sum.split)
qed

lemma flag_loop_ok:
  assumes "policies_ok (retentions s)" and "\<forall>p\<in>set due. \<not> rp_legalHold p \<and> (\<exists>x\<in>set (retentions s). rp_id x = rp_id p \<and> \<not> rp_legalHold x)"
  shows "policies_ok (retentions (flag_loop E s due))"
  using assms
proof (induction due arbitrary: s)
  case (Cons p due)
  let ?f = "\<lambda>x. x\<lparr>rp_status := DsDue, rp_updatedAt := now E\<rparr>"
  let ?rows = "update_rows (\<lambda>x. rp_id x = rp_id p) ?f (retentions s)"
  have only: "\<not> rp_legalHold x" if "x \<in> set (retentions s)" "rp_id x = rp_id p" for x
  proof -
    obtain y where y: "y \<in> set (retentions s)" "rp_id y = rp_id p" "\<not> rp_legalHold y" using Cons.prems(2) by auto
    have "distinct (map rp_id (retentions s))" using Cons.prems(1) by (simp add: policies_ok_def)
    from key_unique [OF this that(1) y(1)] that(2) y(2,3) show ?thesis by simp
  qed
  have "policies_ok ?rows"
    using only by (intro policies_ok_update [OF Cons.prems(1)]) (auto simp: policy_ok_def)
  moreover have "\<exists>x\<in>set ?rows. rp_id x = rp_id q \<and> \<not> rp_legalHold x" if q: "q \<in> set due" for q
  proof -
    obtain x where x: "x \<in> set (retentions s)" "rp_id x = rp_id q" "\<not> rp_legalHold x" using Cons.prems(2) q by auto
    from x(1) have "(if rp_id x = rp_id p then ?f x else x) \<in> set ?rows" unfolding set_update_rows by (rule imageI)
    with x show ?thesis by (intro bexI [of _ "if rp_id x = rp_id p then ?f x else x"]) simp_all
  qed
  ultimately show ?case using Cons.IH Cons.prems(2) by (simp add: Let_def)
qed simp

lemma destroyed_row_ok:
  "policy_ok p \<Longrightarrow> rp_status p = DsDestroying \<Longrightarrow> policy_ok (p\<lparr>rp_status := DsDestroyed, rp_destroyedAt := t, rp_updatedAt := u\<rparr>)"
  by (auto simp: policy_ok_def two_persons_def)

lemma finish_destruction_retentions:
  "retentions (finish_destruction E s p d files) = update_rows (\<lambda>x. rp_id x = rp_id p)
     (\<lambda>x. x\<lparr>rp_status := DsDestroyed, rp_destroyedAt := Some (now E), rp_updatedAt := now E\<rparr>) (retentions s)"
  by (simp add: finish_destruction_def Let_def)

lemma destroy_one_retentions:
  "retentions (fst (destroy_one E ok s p d)) = retentions s \<or>
   retentions (fst (destroy_one E ok s p d)) = update_rows (\<lambda>x. rp_id x = rp_id p)
     (\<lambda>x. x\<lparr>rp_status := DsDestroyed, rp_destroyedAt := Some (now E), rp_updatedAt := now E\<rparr>) (retentions s)"
  by (auto simp: destroy_one_def Let_def case_prod_beta finish_destruction_retentions)

lemma claimed_ok:
  assumes "policies_ok rows" and "claim (\<lambda>x. rp_id x = i \<and> destruction_open x) (start_destruction t) rows = Some rows'"
  shows "policies_ok rows'" and "\<forall>x\<in>set rows'. rp_id x = i \<longrightarrow> rp_status x = DsDestroying \<and> \<not> rp_legalHold x"
proof -
  have eq: "rows' = update_rows (\<lambda>x. rp_id x = i \<and> destruction_open x) (start_destruction t) rows"
    using assms(2) by (simp add: claim_Some_iff)
  show "policies_ok rows'"
    unfolding eq by (rule policies_ok_update [OF assms(1)])
      (auto simp: policy_ok_def start_destruction_def destruction_open_def two_persons_def)
  obtain r where r: "r \<in> set rows" "rp_id r = i" "destruction_open r" using assms(2) by (rule claim_row) auto
  show "\<forall>x\<in>set rows'. rp_id x = i \<longrightarrow> rp_status x = DsDestroying \<and> \<not> rp_legalHold x"
  proof (intro ballI impI)
    fix x assume "x \<in> set rows'" "rp_id x = i"
    then obtain y where y: "y \<in> set rows" "x = (if rp_id y = i \<and> destruction_open y then start_destruction t y else y)"
      unfolding eq by (auto elim: update_rows_origin)
    then have "rp_id y = i" using \<open>rp_id x = i\<close> by (auto simp: start_destruction_def split: if_splits)
    then have "y = r" using key_unique [of rp_id rows y r] assms(1) y(1) r by (simp add: policies_ok_def)
    then show "rp_status x = DsDestroying \<and> \<not> rp_legalHold x"
      using y r by (simp add: start_destruction_def destruction_open_def)
  qed
qed

lemma destroy_one_ok:
  assumes "policies_ok (retentions s)" and "\<forall>x\<in>set (retentions s). rp_id x = rp_id p \<longrightarrow> rp_status x = DsDestroying"
  shows "policies_ok (retentions (fst (destroy_one E ok s p d)))"
proof -
  have "policies_ok (update_rows (\<lambda>x. rp_id x = rp_id p)
     (\<lambda>x. x\<lparr>rp_status := DsDestroyed, rp_destroyedAt := Some (now E), rp_updatedAt := now E\<rparr>) (retentions s))"
    using assms(2) by (intro policies_ok_update [OF assms(1)] destroyed_row_ok) auto
  then show ?thesis using destroy_one_retentions [of E ok s p d] assms(1) by metis
qed

lemma destroy_loop_ok:
  "policies_ok (retentions s) \<Longrightarrow> policies_ok (retentions (fst (destroy_loop E ok s n ps)))"
proof (induction ps arbitrary: s n)
  case (Cons p ps)
  show ?case
  proof (cases "claim (\<lambda>x. rp_id x = rp_id p \<and> destruction_open x) (start_destruction (now E)) (retentions s)")
    case None
    with Cons show ?thesis by simp
  next
    case (Some rows)
    note c = claimed_ok [OF Cons.prems Some]
    let ?s = "s\<lparr>retentions := rows\<rparr>"
    have one: "policies_ok (retentions (fst (destroy_one E ok ?s p d)))" for d
      using c by (intro destroy_one_ok) auto
    show ?thesis
    proof (cases "find_first (\<lambda>d. doc_id d = rp_documentId p) (documents s)")
      case None
      with Some c(1) Cons.IH [of ?s n] show ?thesis by (simp add: Let_def)
    next
      case (Some d)
      obtain s2 b where b: "destroy_one E ok ?s p d = (s2, b)" by fastforce
      with one [of d] have "policies_ok (retentions s2)" by simp
      with Some \<open>claim _ _ _ = Some rows\<close> b Cons.IH [of s2 "Suc n"] show ?thesis by (cases b) (simp_all add: Let_def)
    qed
  qed
qed simp

lemma requeue_ok: "policies_ok (retentions s) \<Longrightarrow> policies_ok (retentions (requeue_stale E s))"
  by (auto simp: requeue_stale_def policy_ok_def two_persons_def intro!: policies_ok_update)

lemma retention_invariant: "retention_reachable s \<Longrightarrow> policies_ok (retentions s)"
proof (induction rule: retention_reachable.induct)
  case (flag s E)
  have "\<forall>p\<in>set (take 100 (filter (retention_due E s) (retentions s))). \<not> rp_legalHold p \<and>
      (\<exists>x\<in>set (retentions s). rp_id x = rp_id p \<and> \<not> rp_legalHold x)"
    by (auto simp: retention_due_def dest!: in_set_takeD)
  with flag show ?case unfolding flagDueRetentions_def Let_def fst_conv by (intro flag_loop_ok)
qed (auto simp: policies_ok_def [of "[]"] executeApprovedDestructions_def Let_def
  intro: policies_ok_delete policies_ok_save policies_ok_decide destroy_loop_ok requeue_ok)

section \<open>What a run destroys\<close>

lemma tombstone_simps [simp]:
  "doc_id (tombstone t d) = doc_id d" "doc_destroyedAt (tombstone t d) = Some t"
  "doc_status (tombstone t d) = ARCHIVED" "doc_deletedAt (tombstone t d) = Some (case doc_deletedAt d of None \<Rightarrow> t | Some x \<Rightarrow> x)"
  "tombstone t (tombstone t d) = tombstone t d"
  by (simp_all add: tombstone_def split: option.split)

lemma finish_destruction_tables:
  "documents (finish_destruction E s p d files) = update_rows (\<lambda>x. doc_id x = doc_id d) (tombstone (now E)) (documents s)"
  "versions (finish_destruction E s p d files) = versions s"
  "comments (finish_destruction E s p d files) = delete_rows (\<lambda>c. cm_documentId c = doc_id d) (comments s)"
  "subscriptions (finish_destruction E s p d files) = delete_rows (\<lambda>r. sub_documentId r = doc_id d) (subscriptions s)"
  "links (finish_destruction E s p d files) = delete_rows (\<lambda>l. ln_sourceId l = doc_id d \<or> ln_targetId l = doc_id d) (links s)"
  "contents (finish_destruction E s p d files) = delete_rows (\<lambda>c. vc_versionId c \<in>
     set (map ver_id (filter (\<lambda>v. ver_documentId v = doc_id d) (versions s)))) (contents s)"
  "storedfiles (finish_destruction E s p d files) = update_rows (\<lambda>f. sf_id f \<in>
     set (filter (\<lambda>f. \<not> kept s (doc_id d) f) (map sf_id files))) (\<lambda>f. f\<lparr>sf_purgedAt := Some (now E)\<rparr>) (storedfiles s)"
  "removedobjects (finish_destruction E s p d files) = removedobjects s"
  by (simp_all add: finish_destruction_def Let_def)

lemma destroy_one_cases:
  obtains (failed) gone where "destroy_one E ok s p d = (s\<lparr>removedobjects := removedobjects s @ gone\<rparr>, False)"
  | (finished) gone where "destroy_one E ok s p d =
      (finish_destruction E (s\<lparr>removedobjects := removedobjects s @ gone\<rparr>) p d (document_files s (doc_id d)), True)"
proof -
  let ?keys = "map sf_objectKey (filter (\<lambda>f. \<not> kept s (doc_id d) (sf_id f) \<and> sf_purgedAt f = None) (document_files s (doc_id d)))"
  obtain gone b where "remove_objects ok [] ?keys = (gone, b)" by fastforce
  then have eq: "destroy_one E ok s p d = (if b
      then (finish_destruction E (s\<lparr>removedobjects := removedobjects s @ gone\<rparr>) p d (document_files s (doc_id d)), True)
      else (s\<lparr>removedobjects := removedobjects s @ gone\<rparr>, False))"
    by (simp add: destroy_one_def)
  show thesis
  proof (cases b)
    case True
    then show thesis using that(2) [of gone] eq by simp
  next
    case False
    then show thesis using that(1) [of gone] eq by simp
  qed
qed

lemma destroy_one_documents:
  "documents (fst (destroy_one E ok s p d)) = documents s \<or>
   documents (fst (destroy_one E ok s p d)) = update_rows (\<lambda>x. doc_id x = doc_id d) (tombstone (now E)) (documents s)"
  by (rule destroy_one_cases [of E ok s p d]) (simp_all add: finish_destruction_tables)

lemma destroy_loop_documents:
  "d' \<in> set (documents (fst (destroy_loop E ok s n ps))) \<Longrightarrow>
     \<exists>d\<in>set (documents s). doc_id d' = doc_id d \<and>
       (d' = d \<or> d' = tombstone (now E) d \<and> (\<exists>p\<in>set ps. rp_documentId p = doc_id d))"
proof (induction ps arbitrary: s n)
  case (Cons p ps)
  show ?case
  proof (cases "claim (\<lambda>x. rp_id x = rp_id p \<and> destruction_open x) (start_destruction (now E)) (retentions s)")
    case None
    with Cons show ?thesis by fastforce
  next
    case c: (Some rows)
    let ?s = "s\<lparr>retentions := rows\<rparr>"
    show ?thesis
    proof (cases "find_first (\<lambda>d. doc_id d = rp_documentId p) (documents s)")
      case None
      with Cons.IH [of ?s n] Cons.prems c show ?thesis by fastforce
    next
      case (Some d)
      have dp: "doc_id d = rp_documentId p" using find_first_Some [OF Some] by simp
      obtain s2 b where b: "destroy_one E ok ?s p d = (s2, b)" by fastforce
      have step: "\<exists>y\<in>set (documents s). x = y \<or> x = tombstone (now E) y \<and> doc_id y = rp_documentId p"
        if "x \<in> set (documents s2)" for x
      proof -
        have "x \<in> set (documents s) \<or> x \<in> set (update_rows (\<lambda>y. doc_id y = doc_id d) (tombstone (now E)) (documents s))"
          using destroy_one_documents [of E ok ?s p d] that b by auto
        then show ?thesis
        proof
          assume "x \<in> set (update_rows (\<lambda>y. doc_id y = doc_id d) (tombstone (now E)) (documents s))"
          then obtain y where "y \<in> set (documents s)" "x = (if doc_id y = doc_id d then tombstone (now E) y else y)"
            by (rule update_rows_origin)
          with dp show ?thesis by (intro bexI [of _ y]) (simp_all split: if_splits)
        qed blast
      qed
      have "\<exists>x\<in>set (documents s2). doc_id d' = doc_id x \<and> (d' = x \<or> d' = tombstone (now E) x \<and> (\<exists>q\<in>set ps. rp_documentId q = doc_id x))"
        using Cons.prems Cons.IH [of s2 "Suc n"] c Some b by (cases b) auto
      then obtain x where x: "x \<in> set (documents s2)" "doc_id d' = doc_id x"
        "d' = x \<or> d' = tombstone (now E) x \<and> (\<exists>q\<in>set ps. rp_documentId q = doc_id x)" by blast
      from step [OF x(1)] obtain y where "y \<in> set (documents s)" "x = y \<or> x = tombstone (now E) y \<and> doc_id y = rp_documentId p" by blast
      with x show ?thesis by (intro bexI [of _ y]) auto
    qed
  qed
qed auto

lemma destroy_loop_ids:
  "map doc_id (documents (fst (destroy_loop E ok s n ps))) = map doc_id (documents s)"
proof (induction ps arbitrary: s n)
  case (Cons p ps)
  have "map doc_id (documents (fst (destroy_one E ok t p d))) = map doc_id (documents t)" for t d
    using destroy_one_documents [of E ok t p d] by (auto simp: map_update_rows)
  then have one: "destroy_one E ok t p d = (u, b) \<Longrightarrow> map doc_id (documents u) = map doc_id (documents t)" for t d u b
    by (metis fst_conv)
  show ?case
    using Cons.IH by (auto simp: Let_def dest: one split: option.split prod.split bool.split)
qed simp

text \<open>C10: nothing is destroyed without two people. In every reachable state, when a run of the worker
  destroys a document, its policy was approved, without legal hold, on the request of one person and
  by the decision of another.\<close>

theorem destruction_needs_two_persons:
  assumes "retention_reachable s" and "executeApprovedDestructions E remove_ok s = (s', r)"
    and "d' \<in> set (documents s')" and "d' \<notin> set (documents s)"
  shows "\<exists>p\<in>set (retentions s). rp_documentId p = doc_id d' \<and> \<not> rp_legalHold p \<and>
    rp_status p \<in> {DsApproved, DsDestroying} \<and>
    (\<exists>a b. rp_requestedBy p = Some a \<and> rp_approvedBy p = Some b \<and> a \<noteq> b)"
proof -
  let ?s = "requeue_stale E s"
  let ?ps = "take 10 (filter destruction_open (retentions ?s))"
  have "d' \<in> set (documents (fst (destroy_loop E remove_ok ?s 0 ?ps)))"
    using assms(2,3) by (simp add: executeApprovedDestructions_def Let_def)
  from destroy_loop_documents [OF this] assms(4) obtain p where p: "p \<in> set ?ps" "rp_documentId p = doc_id d'"
    by (auto simp: requeue_stale_def)
  then have mem: "p \<in> set (retentions ?s)" and op: "destruction_open p" by (auto dest: in_set_takeD)
  let ?q = "\<lambda>p. rp_status p = DsDestroying \<and> rp_updatedAt p < now E - 30 * 60000"
  let ?f = "\<lambda>p. p\<lparr>rp_status := DsApproved, rp_updatedAt := now E\<rparr>"
  have "p \<in> set (update_rows ?q ?f (retentions s))" using mem by (simp add: requeue_stale_def)
  then obtain x where x: "x \<in> set (retentions s)" "p = (if ?q x then ?f x else x)" by (rule update_rows_origin)
  have "policy_ok x" using retention_invariant [OF assms(1)] x(1) by (simp add: policies_ok_def)
  with x p(2) op show ?thesis
    by (intro bexI [of _ x]) (auto simp: destruction_open_def policy_ok_def two_persons_def split: if_splits)
qed

text \<open>What the destruction of a document leaves.\<close>

definition destroyed :: "env \<Rightarrow> db \<Rightarrow> string \<Rightarrow> bool" where
  "destroyed E s i \<longleftrightarrow>
     (\<forall>d\<in>set (documents s). doc_id d = i \<longrightarrow>
        doc_destroyedAt d = Some (now E) \<and> doc_status d = ARCHIVED \<and> doc_deletedAt d \<noteq> None) \<and>
     (\<forall>c\<in>set (comments s). cm_documentId c \<noteq> i) \<and> (\<forall>r\<in>set (subscriptions s). sub_documentId r \<noteq> i) \<and>
     (\<forall>l\<in>set (links s). ln_sourceId l \<noteq> i \<and> ln_targetId l \<noteq> i) \<and>
     (\<forall>v\<in>set (versions s). ver_documentId v = i \<longrightarrow> (\<forall>c\<in>set (contents s). vc_versionId c \<noteq> ver_id v)) \<and>
     (\<forall>v\<in>set (versions s). ver_documentId v = i \<longrightarrow> (\<forall>f\<in>set (storedfiles s).
        (ver_storedFileId v = sf_id f \<or> ver_distributedStoredFileId v = Some (sf_id f)) \<and> \<not> kept s i (sf_id f) \<longrightarrow>
        sf_purgedAt f \<noteq> None))"

lemma kept_versions: "versions s' = versions s \<Longrightarrow> kept s' = kept s"
  by (intro ext) (simp add: kept_def)

lemma document_files_ids:
  assumes "v \<in> set (versions s)" and "ver_documentId v = i" and "f \<in> set (storedfiles s)"
    and "ver_storedFileId v = sf_id f \<or> ver_distributedStoredFileId v = Some (sf_id f)"
  shows "sf_id f \<in> sf_id ` set (document_files s i)"
proof -
  obtain g where g: "find_file s (sf_id f) = Some g"
    using assms(3) by (cases "find_file s (sf_id f)") (auto simp: find_file_def find_first_None_iff)
  then have "sf_id g = sf_id f" by (auto simp: find_file_def dest: find_first_Some)
  moreover have "g \<in> set (document_files s i)"
    using assms g by (auto simp: document_files_def List.map_filter_def intro!: image_eqI [of _ _ "sf_id f"] bexI [of _ v])
  ultimately show ?thesis by (metis imageI)
qed

lemma destroyed_done:
  assumes "destroy_one E ok s p d = (s', True)"
  shows "destroyed E s' (doc_id d)"
proof (rule destroy_one_cases [of E ok s p d])
  fix gone
  assume "destroy_one E ok s p d = (finish_destruction E (s\<lparr>removedobjects := removedobjects s @ gone\<rparr>) p d (document_files s (doc_id d)), True)"
  then have s': "s' = finish_destruction E (s\<lparr>removedobjects := removedobjects s @ gone\<rparr>) p d (document_files s (doc_id d))"
    using assms by simp
  note t = finish_destruction_tables [of E "s\<lparr>removedobjects := removedobjects s @ gone\<rparr>" p d "document_files s (doc_id d)", folded s', simplified]
  have k: "kept (s\<lparr>removedobjects := removedobjects s @ gone\<rparr>) = kept s" "kept s' = kept s"
    by (rule kept_versions; simp add: t)+
  have "sf_purgedAt f \<noteq> None"
    if v: "v \<in> set (versions s)" "ver_documentId v = doc_id d" and f: "f \<in> set (storedfiles s')"
      "ver_storedFileId v = sf_id f \<or> ver_distributedStoredFileId v = Some (sf_id f)" "\<not> kept s (doc_id d) (sf_id f)" for v f
  proof -
    let ?g = "\<lambda>f. f\<lparr>sf_purgedAt := Some (now E)\<rparr>"
    let ?p = "\<lambda>f. sf_id f \<in> sf_id ` set (document_files s (doc_id d)) \<and> \<not> kept s (doc_id d) (sf_id f)"
    have "f \<in> set (update_rows ?p ?g (storedfiles s))" using f(1) t(7) k by simp
    then obtain x where x: "x \<in> set (storedfiles s)" "f = (if ?p x then ?g x else x)" by (rule update_rows_origin)
    then have id: "sf_id f = sf_id x" by simp
    have "?p x" using document_files_ids [OF v x(1)] f id by auto
    with x show ?thesis by simp
  qed
  then show ?thesis unfolding destroyed_def t k set_delete_rows
    by (auto elim!: update_rows_origin)
qed (use assms in simp)

lemma destroyed_kept:
  assumes "destroyed E s i"
  shows "destroyed E (fst (destroy_one E ok s p d)) i"
proof (rule destroy_one_cases [of E ok s p d])
  fix gone
  assume "destroy_one E ok s p d = (finish_destruction E (s\<lparr>removedobjects := removedobjects s @ gone\<rparr>) p d (document_files s (doc_id d)), True)"
  then have s': "fst (destroy_one E ok s p d) = finish_destruction E (s\<lparr>removedobjects := removedobjects s @ gone\<rparr>) p d (document_files s (doc_id d))"
    by simp
  note t = finish_destruction_tables [of E "s\<lparr>removedobjects := removedobjects s @ gone\<rparr>" p d "document_files s (doc_id d)", folded s', simplified]
  have k: "kept (fst (destroy_one E ok s p d)) = kept s" by (rule kept_versions) (simp add: t)
  have "sf_purgedAt f \<noteq> None"
    if v: "v \<in> set (versions s)" "ver_documentId v = i" and f: "f \<in> set (storedfiles (fst (destroy_one E ok s p d)))"
      "ver_storedFileId v = sf_id f \<or> ver_distributedStoredFileId v = Some (sf_id f)" "\<not> kept s i (sf_id f)" for v f
  proof -
    from f(1) obtain x q where x: "x \<in> set (storedfiles s)" "f = (if q then x\<lparr>sf_purgedAt := Some (now E)\<rparr> else x)"
      unfolding t(7) by (auto elim!: update_rows_origin)
    then have "sf_id f = sf_id x" by simp
    with assms v f x show ?thesis unfolding destroyed_def by (cases q) auto
  qed
  then show ?thesis using assms unfolding destroyed_def t k set_delete_rows
    by (auto elim!: update_rows_origin)
next
  fix gone
  assume "destroy_one E ok s p d = (s\<lparr>removedobjects := removedobjects s @ gone\<rparr>, False)"
  then show ?thesis using assms by (simp add: destroyed_def kept_def)
qed

lemma remove_objects_all: "remove_objects (\<lambda>_. True) gone ks = (gone @ ks, True)"
  by (induction ks arbitrary: gone) simp_all

lemma destroy_one_all: "snd (destroy_one E (\<lambda>_. True) s p d)"
  by (simp add: destroy_one_def remove_objects_all Let_def)

definition status_done :: "db \<Rightarrow> string \<Rightarrow> bool" where
  "status_done s j \<longleftrightarrow> (\<forall>q\<in>set (retentions s). rp_id q = j \<longrightarrow> rp_status q = DsDestroyed)"

lemma destroy_one_status:
  assumes "destroy_one E ok s p d = (s', True)"
  shows "status_done s' (rp_id p)" and "status_done s j \<Longrightarrow> status_done s' j"
    and "x \<in> set (retentions s) \<Longrightarrow> rp_id x \<noteq> rp_id p \<Longrightarrow> x \<in> set (retentions s')"
proof -
  let ?f = "\<lambda>x. x\<lparr>rp_status := DsDestroyed, rp_destroyedAt := Some (now E), rp_updatedAt := now E\<rparr>"
  have r: "retentions s' = update_rows (\<lambda>x. rp_id x = rp_id p) ?f (retentions s)"
    by (rule destroy_one_cases [of E ok s p d]) (use assms in \<open>auto simp: finish_destruction_retentions\<close>)
  show "status_done s' (rp_id p)" "status_done s j \<Longrightarrow> status_done s' j"
    unfolding status_done_def r by (auto elim!: update_rows_origin split: if_splits)
  show "x \<in> set (retentions s) \<Longrightarrow> rp_id x \<noteq> rp_id p \<Longrightarrow> x \<in> set (retentions s')"
    unfolding r by (rule update_rows_frame)
qed

lemma destroy_loop_complete:
  assumes "distinct (map rp_id ps)" and "\<forall>p\<in>set ps. p \<in> set (retentions s) \<and> destruction_open p"
    and "distinct (map rp_id (retentions s))"
    and "\<forall>p\<in>set ps. \<exists>d\<in>set (documents s). doc_id d = rp_documentId p"
  shows "\<exists>s' n'. destroy_loop E (\<lambda>_. True) s n ps = (s', Inr n') \<and>
    (\<forall>p\<in>set ps. destroyed E s' (rp_documentId p) \<and> status_done s' (rp_id p)) \<and>
    (\<forall>i. destroyed E s i \<longrightarrow> destroyed E s' i) \<and> (\<forall>j. status_done s j \<longrightarrow> status_done s' j)"
  using assms
proof (induction ps arbitrary: s n)
  case (Cons p ps)
  let ?q = "\<lambda>x. rp_id x = rp_id p \<and> destruction_open x"
  let ?rows = "update_rows ?q (start_destruction (now E)) (retentions s)"
  let ?s = "s\<lparr>retentions := ?rows\<rparr>"
  have p: "p \<in> set (retentions s)" "destruction_open p" using Cons.prems(2) by simp_all
  have "count_rows ?q (retentions s) = 1"
    using count_rows_key_le_1 [OF Cons.prems(3), of "rp_id p" destruction_open]
      count_rows_key_pos [OF Cons.prems(3) p(1), of destruction_open] p(2) by simp
  then have cl: "claim ?q (start_destruction (now E)) (retentions s) = Some ?rows" by (simp add: claim_Some_iff)
  obtain d where d: "find_first (\<lambda>d. doc_id d = rp_documentId p) (documents s) = Some d"
    using Cons.prems(4) by (cases "find_first (\<lambda>d. doc_id d = rp_documentId p) (documents s)") (auto simp: find_first_None_iff)
  then have dp: "doc_id d = rp_documentId p" by (auto dest: find_first_Some)
  obtain s2 where s2: "destroy_one E (\<lambda>_. True) ?s p d = (s2, True)"
    using destroy_one_all [of E ?s p d] by (cases "destroy_one E (\<lambda>_. True) ?s p d") simp
  have step: "destroy_loop E (\<lambda>_. True) s n (p # ps) = destroy_loop E (\<lambda>_. True) s2 (Suc n) ps"
    by (simp only: destroy_loop.simps cl option.case Let_def d s2 prod.case bool.case if_True)
  have new: "rp_id p \<notin> rp_id ` set ps" using Cons.prems(1) by simp
  have ids: "map rp_id (retentions s2) = map rp_id (retentions s)"
  proof -
    have "map rp_id ?rows = map rp_id (retentions s)" by (rule map_update_rows) (simp add: start_destruction_def)
    then show ?thesis using destroy_one_retentions [of E "\<lambda>_. True" ?s p d] s2 by (auto simp: map_update_rows)
  qed
  have rows: "\<forall>q\<in>set ps. q \<in> set (retentions s2) \<and> destruction_open q"
  proof
    fix q assume q: "q \<in> set ps"
    then have "rp_id q \<noteq> rp_id p" using new by (metis imageI)
    moreover have "q \<in> set ?rows" using q Cons.prems(2) calculation by (intro update_rows_frame) auto
    ultimately show "q \<in> set (retentions s2) \<and> destruction_open q"
      using destroy_one_status(3) [OF s2] q Cons.prems(2) by simp
  qed
  have docs: "\<forall>q\<in>set ps. \<exists>d\<in>set (documents s2). doc_id d = rp_documentId q"
  proof
    fix q assume "q \<in> set ps"
    then obtain x where x: "x \<in> set (documents s)" "doc_id x = rp_documentId q" using Cons.prems(4) by auto
    have "x \<in> set (documents s2) \<or> (if doc_id x = doc_id d then tombstone (now E) x else x) \<in> set (documents s2)"
      using destroy_one_documents [of E "\<lambda>_. True" ?s p d] s2 x(1) by (auto simp: set_update_rows)
    then show "\<exists>d\<in>set (documents s2). doc_id d = rp_documentId q" using x(2) by (metis tombstone_simps(1))
  qed
  have "destroyed E ?s i = destroyed E s i" for i by (simp add: destroyed_def kept_def)
  then have mono: "destroyed E s i \<Longrightarrow> destroyed E s2 i" for i
    using destroyed_kept [of E ?s i "\<lambda>_. True" p d] s2 by simp
  have "status_done ?s j" if fin: "status_done s j" for j
    unfolding status_done_def
  proof (intro ballI impI)
    fix y assume y: "y \<in> set (retentions ?s)" "rp_id y = j"
    then have "y \<in> set ?rows" by simp
    then obtain x where x: "x \<in> set (retentions s)" "y = (if ?q x then start_destruction (now E) x else x)"
      by (rule update_rows_origin)
    have "rp_id x = j" using x(2) y(2) by (cases "?q x") (simp_all add: start_destruction_def)
    then have "rp_status x = DsDestroyed" using fin x(1) by (simp add: status_done_def)
    then show "rp_status y = DsDestroyed" using x(2) by (simp add: destruction_open_def)
  qed
  then have smono: "status_done s j \<Longrightarrow> status_done s2 j" for j using destroy_one_status(2) [OF s2] by blast
  have "distinct (map rp_id ps)" "distinct (map rp_id (retentions s2))" using Cons.prems(1,3) ids by simp_all
  from Cons.IH [OF this(1) rows this(2) docs, of "Suc n"] step destroyed_done [OF s2] destroy_one_status(1) [OF s2] mono smono dp
  show ?case by (metis set_ConsD)
qed simp










definition policy_body :: RetentionPolicyDto where
  "policy_body = \<lparr>rd_documentId = ''d1'', rd_retentionUntil = Some 500, rd_legalHold = False, rd_reason = ''law''\<rparr>"

definition policy_states :: "retention_row list" where
  "policy_states =
     (let p0 = create_policy sample_env sample_db policy_body;
          p1 = request_row sample_env (admin_request ''ann'') ''old'' p0;
          p2 = decide_row sample_env (admin_request ''bob'') DsApproved p1
      in [p0, p1, p2])"

definition policy_db :: "nat \<Rightarrow> db" where
  "policy_db k = sample_db\<lparr>retentions := [policy_states ! k]\<rparr>"

lemma policy_db_state:
  "retention_reachable s \<Longrightarrow> retentions s = [policy_states ! k] \<Longrightarrow> retention_reachable (policy_db k)"
  by (erule retention_reachable.other) (simp add: policy_db_def)

lemma policy_db_reachable: "retention_reachable (policy_db 2)"
proof -
  have guard: "policy_guard (admin_request n) = Inr True" for n
    by (simp add: policy_guard_def guard_admin_class isAdminIdentity_def admin_request_def sample_request_def sample_identity_def)
  have "retention_reachable sample_db" by (rule retention_reachable.start) (simp add: sample_db_def empty_db_def)
  then have "retention_reachable (fst (saveRetention sample_env sample_db (admin_request ''ann'') policy_body))"
    by (rule retention_reachable.save) (simp add: sample_db_def empty_db_def)
  moreover have "retentions (fst (saveRetention sample_env sample_db (admin_request ''ann'') policy_body)) = [policy_states ! 0]"
    by (simp add: saveRetention_def guard requireDocument_def policy_body_def retention_gate_def find_policy_def
        apply_retention_tables upsert_policy_def policy_states_def sample_db_def empty_db_def sample_document_def Let_def)
  ultimately have 0: "retention_reachable (policy_db 0)"
    by (rule policy_db_state)
  have rows: "rp_id (policy_states ! 0) = ''id0''" "rp_legalHold (policy_states ! 0) = False" "rp_status (policy_states ! 0) = DsNone"
    "rp_retentionUntil (policy_states ! 0) = Some 500" "rp_id (policy_states ! 1) = ''id0''" "rp_legalHold (policy_states ! 1) = False"
    "rp_status (policy_states ! 1) = DsRequested" "rp_requestedBy (policy_states ! 1) = Some ''ann''"
    "request_row sample_env (admin_request ''ann'') ''old'' (policy_states ! 0) = policy_states ! 1"
    "decide_row sample_env (admin_request ''bob'') DsApproved (policy_states ! 1) = policy_states ! 2"
    "rq_username (admin_request ''bob'') = ''bob''" "now sample_env = 1000" by code_simp+
  have "retentions (fst (retentionDecision sample_env (policy_db 0) (admin_request ''ann'') ''id0'' ActRequest ''old'')) = [policy_states ! 1]"
    by (simp add: retentionDecision_def guard policy_db_def rows del: One_nat_def)
  from retention_reachable.decide [OF 0] this have 1: "retention_reachable (policy_db 1)"
    by (rule policy_db_state)
  have "retentions (fst (retentionDecision sample_env (policy_db 1) (admin_request ''bob'') ''id0'' ActApprove [])) = [policy_states ! 2]"
    by (simp add: retentionDecision_def guard policy_db_def rows Let_def del: One_nat_def)
  from retention_reachable.decide [OF 1] this show ?thesis by (rule policy_db_state)
qed

lemma policy_db_run:
  "\<exists>s' n. executeApprovedDestructions sample_env (\<lambda>_. True) (policy_db 2) = (s', Inr n) \<and> destroyed sample_env s' ''d1''"
proof -
  have ev: "retentions (requeue_stale sample_env (policy_db 2)) = [policy_states ! 2]" "destruction_open (policy_states ! 2)"
    "rp_documentId (policy_states ! 2) = ''d1''" "documents (requeue_stale sample_env (policy_db 2)) = [sample_document]"
    "doc_id sample_document = ''d1''"
    by code_simp+
  from destroy_loop_complete [of "[policy_states ! 2]" "requeue_stale sample_env (policy_db 2)" sample_env 0] ev
  show ?thesis by (auto simp: executeApprovedDestructions_def)
qed



theorem destruction_needs_two_persons_witness:
  "\<exists>s' n d'. executeApprovedDestructions sample_env (\<lambda>_. True) (policy_db 2) = (s', Inr n) \<and> d' \<in> set (documents s') \<and>
     (\<exists>p\<in>set (retentions (policy_db 2)). rp_documentId p = doc_id d' \<and>
        (\<exists>a b. rp_requestedBy p = Some a \<and> rp_approvedBy p = Some b \<and> a \<noteq> b))"
proof -
  obtain s' n where r: "executeApprovedDestructions sample_env (\<lambda>_. True) (policy_db 2) = (s', Inr n)"
    and gone: "destroyed sample_env s' ''d1''" using policy_db_run by blast
  have "map doc_id (documents s') = map doc_id (documents (requeue_stale sample_env (policy_db 2)))"
    using r destroy_loop_ids [of sample_env "\<lambda>_. True" "requeue_stale sample_env (policy_db 2)"]
    unfolding executeApprovedDestructions_def Let_def by (metis fst_conv)
  also have "\<dots> = [''d1'']" by (simp add: requeue_stale_def policy_db_def sample_db_def sample_document_def)
  finally have "map doc_id (documents s') = [''d1'']" .
  then obtain d' where d': "documents s' = [d']" "doc_id d' = ''d1''" by auto
  have "d' \<notin> set (documents (policy_db 2))"
    using gone d' by (auto simp: destroyed_def policy_db_def sample_db_def sample_document_def)
  with destruction_needs_two_persons [OF policy_db_reachable r, of d'] r d' show ?thesis by auto
qed

section \<open>Extending a period after the approval\<close>

text \<open>Saving a policy without legal hold keeps its destruction status, so an approval given before the
  period was extended stays in force; the worker does not look at the period again.\<close>

theorem extension_keeps_approval:
  assumes "find_policy s (rd_documentId body) = Some p" and "destruction_open p"
    and "saveRetention E s req body = (s', Inr p')" and "\<not> rd_legalHold body"
  shows "destruction_open p' \<and> rp_retentionUntil p' = rd_retentionUntil body \<and> p' \<in> set (retentions s')"
proof -
  have mem: "p \<in> set (retentions s)" "rp_documentId p = rd_documentId body"
    using assms(1) by (auto simp: find_policy_def dest: find_first_Some)
  obtain s1 a where g: "retention_gate E s req body = (s1, Inr a)" and ap: "apply_retention E s1 req body a = (s', Inr p')"
    using assms(3) by (auto simp: saveRetention_def split: sum.splits if_splits prod.splits)
  have [simp]: "s1 = s" by (rule retention_gate_Inr [OF g])
  have p': "p' = update_policy E body p"
    using ap assms(1) by (auto simp: apply_retention_def upsert_policy_def Let_def split: prod.splits sum.splits)
  have "retentions s' = update_rows (\<lambda>x. rp_documentId x = rd_documentId body) (update_policy E body) (retentions s)"
    using apply_retention_tables(1) [of E s req body a] ap assms(1) by (simp add: upsert_policy_def)
  then have "p' \<in> set (retentions s')" using mem by (force simp: p' set_update_rows)
  then show ?thesis using assms(2,4) by (simp add: p' update_policy_def Let_def destruction_open_def)
qed

lemma apply_retention_Inr:
  assumes "find_policy s (rd_documentId body) = Some p" and "a \<in> ap_id ` set (approvals s)"
  shows "snd (apply_retention E s req body a) = Inr (update_policy E body p)"
proof -
  have "approvals (fst (upsert_policy E s body)) = approvals s" "snd (upsert_policy E s body) = update_policy E body p"
    using assms(1) by (simp_all add: upsert_policy_def)
  then show ?thesis using assms(2) by (auto simp: apply_retention_def execute_approval_def Let_def case_prod_beta)
qed

definition extension_body :: RetentionPolicyDto where
  "extension_body = \<lparr>rd_documentId = ''d1'', rd_retentionUntil = Some 99999, rd_legalHold = False, rd_reason = ''longer''\<rparr>"

definition extension_db :: db where
  "extension_db = (policy_db 2)\<lparr>approvals := [\<lparr>ap_id = ''a1'', ap_operation = ''RETENTION_CHANGE'', ap_targetType = ''DOCUMENT'',
     ap_targetId = ''d1'', ap_requestedBy = ''ann'', ap_reason = ''longer'', ap_status = ApApproved, ap_approvedBy = Some ''bob'',
     ap_approvedAt = Some 900, ap_createdAt = 800\<rparr>]\<rparr>"

theorem extension_keeps_approval_witness:
  "\<exists>s' p'. saveRetention sample_env extension_db (admin_request ''ann'') extension_body = (s', Inr p') \<and>
     destruction_open p' \<and> rp_retentionUntil p' = Some 99999"
proof -
  have ev: "find_policy extension_db ''d1'' = Some (policy_states ! 2)" "destruction_open (policy_states ! 2)"
    "policy_guard (admin_request ''ann'') = Inr True" "requireDocument extension_db ''d1'' = Inr ()"
    "snd (require_approval sample_env extension_db (admin_request ''ann'') ''RETENTION_CHANGE'' ''DOCUMENT'' ''d1'' ''longer'') = Inr ''a1''"
    "map ap_id (approvals extension_db) = [''a1'']" "trim ''longer'' = ''longer''"
    by code_simp+
  have "require_approval sample_env extension_db (admin_request ''ann'') ''RETENTION_CHANGE'' ''DOCUMENT'' ''d1'' ''longer'' = (extension_db, Inr ''a1'')"
    using ev(5) by (metis prod.collapse require_approval_same)
  then obtain s' p' where r: "saveRetention sample_env extension_db (admin_request ''ann'') extension_body = (s', Inr p')"
    using ev apply_retention_Inr [of extension_db extension_body "policy_states ! 2" "''a1''" sample_env "admin_request ''ann''"]
    by (cases "apply_retention sample_env extension_db (admin_request ''ann'') extension_body ''a1''")
      (auto simp: saveRetention_def retention_gate_def extension_body_def)
  with extension_keeps_approval [OF _ ev(2) r] ev(1) show ?thesis by (simp add: extension_body_def)
qed

end
