(* ===== verification/Content_Index.thy ===== *)
theory Content_Index
  imports Ged_Settings Samples
begin

text \<open>
  The indexing of document contents and the time stamps of stored files
  (\<^verbatim>\<open>apps/api/src/ged-worker.ts\<close>, \<open>indexDocumentContents\<close> and \<open>timestampStoredFiles\<close>). Reading an
  object and extracting its text, the optical recognition and the time-stamping authority are
  parameters, with their failures.
\<close>

section \<open>Texts\<close>

definition MAX_TEXT :: nat where
  "MAX_TEXT = 1000000"

definition SCANNED_CHARS_PER_PAGE :: nat where
  "SCANNED_CHARS_PER_PAGE = 40"

text \<open>\<open>/(^|\/)mip-/\<close>.\<close>

fun protected_from :: "bool \<Rightarrow> string \<Rightarrow> bool" where
  "protected_from b [] = False"
| "protected_from b (c # cs) =
     (b \<and> startsWith (c # cs) ''mip-'' \<or> protected_from (c = CHR ''/'') cs)"

definition isProtected :: "string \<Rightarrow> bool" where
  "isProtected objectKey = protected_from True objectKey"

text \<open>\<open>path.extname\<close>: from the last dot of the last part of the path, unless that dot is its first
  character.\<close>

definition extname :: "string \<Rightarrow> string" where
  "extname name =
     (let base = last (split_on (\<lambda>c. c = CHR ''/'') name);
          parts = split_on (\<lambda>c. c = CHR ''.'') base
      in if length parts < 2 \<or> base = ''..'' \<or> length base = Suc (length (last parts)) then []
         else CHR ''.'' # last parts)"

text \<open>\<open>line.replace(/\s+/g, " ").trim()\<close> on every line; empty lines are dropped.\<close>

fun squeeze :: "bool \<Rightarrow> string \<Rightarrow> string" where
  "squeeze b [] = []"
| "squeeze b (c # cs) =
     (if is_space c then (if b then squeeze True cs else CHR '' '' # squeeze True cs) else c # squeeze False cs)"

definition clean_lines :: "string \<Rightarrow> string" where
  "clean_lines t =
     join [CHR 0x0A] (filter (\<lambda>l. l \<noteq> []) (map (\<lambda>l. trim (squeeze False l)) (split_on (\<lambda>c. c = CHR 0x0A) t)))"

section \<open>Indexing\<close>

datatype ocr_result = OcrText string | OcrUnavailable | OcrFailed string

text \<open>\<open>ex_text\<close> reads an object and extracts its text and page count, by the extension of the file; an
  exception is the left value. \<open>ex_ocr\<close> recognises the text of an image or a scanned file.\<close>

record extractor =
  ex_text :: "string \<Rightarrow> string \<Rightarrow> string + string \<times> nat"
  ex_ocr :: "string \<Rightarrow> string \<Rightarrow> ocr_result"

definition queue_versions :: "env \<Rightarrow> db \<Rightarrow> db" where
  "queue_versions E s =
     (let missing = take 500 (sort_key (\<lambda>v. - ver_createdAt v)
            (filter (\<lambda>v. \<not> (\<exists>c\<in>set (contents s). vc_versionId c = ver_id v)) (versions s)))
      in s\<lparr>contents := contents s @ map (\<lambda>v. \<lparr>vc_versionId = ver_id v, vc_status = CoPending, vc_text = None,
            vc_ocr = False, vc_attempts = 0, vc_error = None, vc_extractedAt = None, vc_createdAt = now E,
            vc_updatedAt = now E\<rparr>) missing\<rparr>)"

definition requeue_crashed :: "env \<Rightarrow> db \<Rightarrow> db" where
  "requeue_crashed E s =
     s\<lparr>contents := update_rows (\<lambda>c. vc_status c = CoProcessing \<and> vc_updatedAt c < now E - 30 * 60000)
        (\<lambda>c. c\<lparr>vc_status := CoPending, vc_updatedAt := now E\<rparr>) (contents s)\<rparr>"

definition content_pending :: "content_row \<Rightarrow> bool" where
  "content_pending c = (vc_status c = CoPending)"

definition start_content :: "time \<Rightarrow> content_row \<Rightarrow> content_row" where
  "start_content t c = c\<lparr>vc_status := CoProcessing, vc_attempts := vc_attempts c + 1, vc_updatedAt := t\<rparr>"

definition skip_content :: "env \<Rightarrow> content_row \<Rightarrow> content_row" where
  "skip_content E c = c\<lparr>vc_status := CoSkipped, vc_extractedAt := Some (now E), vc_updatedAt := now E\<rparr>"

definition finish_content :: "env \<Rightarrow> string \<Rightarrow> bool \<Rightarrow> string option \<Rightarrow> content_row \<Rightarrow> content_row" where
  "finish_content E text ocr error c =
     c\<lparr>vc_status := CoDone, vc_text := Some (take MAX_TEXT text), vc_ocr := ocr, vc_error := error,
       vc_extractedAt := Some (now E), vc_updatedAt := now E\<rparr>"

definition fail_content :: "env \<Rightarrow> string \<Rightarrow> content_row \<Rightarrow> content_row" where
  "fail_content E message c =
     c\<lparr>vc_status := (if 3 \<le> vc_attempts c then CoFailed else CoPending), vc_error := Some (take 500 message),
       vc_updatedAt := now E\<rparr>"

definition indexable :: "db \<Rightarrow> file_row \<Rightarrow> bool" where
  "indexable s f =
     (sf_purgedAt f = None \<and> \<not> isProtected (sf_objectKey f) \<and> latest_scan s (sf_id f) = Some ScanClean)"

definition is_image :: "string \<Rightarrow> bool" where
  "is_image ext = (ext \<in> {''.png'', ''.jpg'', ''.jpeg''})"

text \<open>The text that is kept, whether it was recognised, and the error of the recognition.\<close>

definition recognise :: "extractor \<Rightarrow> string \<Rightarrow> string \<Rightarrow> string \<times> nat \<Rightarrow> string \<times> bool \<times> string option" where
  "recognise X key ext extracted =
     (case extracted of (text, pages) \<Rightarrow>
        if is_image ext \<or> ext = ''.pdf'' \<and> length text < max 1 pages * SCANNED_CHARS_PER_PAGE
        then (case ex_ocr X key ext of
            OcrText raw \<Rightarrow>
              (let recognised = clean_lines raw
               in if length text < length recognised then (recognised, True, None) else (text, False, None))
          | OcrUnavailable \<Rightarrow> (text, False, Some ''OCR unavailable'')
          | OcrFailed m \<Rightarrow> (text, False, Some (''OCR failed: '' @ take 200 m)))
        else (text, False, None))"

text \<open>What one claimed version becomes.\<close>

definition index_row :: "env \<Rightarrow> extractor \<Rightarrow> db \<Rightarrow> string \<Rightarrow> content_row \<Rightarrow> content_row" where
  "index_row E X s versionId =
     (case Option.bind (find_first (\<lambda>v. ver_id v = versionId) (versions s)) (\<lambda>v. find_file s (ver_storedFileId v)) of
        None \<Rightarrow> skip_content E
      | Some file \<Rightarrow>
          if \<not> indexable s file then skip_content E
          else (let ext = toLowerCase (extname (sf_originalName file))
                in case ex_text X (sf_objectKey file) ext of
                     Inl message \<Rightarrow> fail_content E message
                   | Inr extracted \<Rightarrow>
                       (case recognise X (sf_objectKey file) ext extracted of
                          (text, ocr, error) \<Rightarrow> finish_content E text ocr error)))"

fun index_loop :: "env \<Rightarrow> extractor \<Rightarrow> db \<Rightarrow> string list \<Rightarrow> db" where
  "index_loop E X s [] = s"
| "index_loop E X s (v # vs) =
     (case claim (\<lambda>c. vc_versionId c = v \<and> content_pending c) (start_content (now E)) (contents s) of
        None \<Rightarrow> index_loop E X s vs
      | Some rows \<Rightarrow>
          index_loop E X (s\<lparr>contents := update_rows (\<lambda>c. vc_versionId c = v) (index_row E X s v) rows\<rparr>) vs)"

definition pending_contents :: "nat \<Rightarrow> db \<Rightarrow> string list" where
  "pending_contents limit s = map vc_versionId (find_many vc_createdAt limit content_pending (contents s))"

definition indexDocumentContents :: "env \<Rightarrow> extractor \<Rightarrow> db \<Rightarrow> nat \<Rightarrow> db" where
  "indexDocumentContents E X s limit =
     (let s1 = requeue_crashed E (queue_versions E s) in index_loop E X s1 (pending_contents limit s1))"

section \<open>Time stamps\<close>

text \<open>The answer of the authority for a digest: token and time, or an exception.\<close>

type_synonym authority = "string \<Rightarrow> string \<Rightarrow> (string \<times> time option) option"

definition unstamped :: "db \<Rightarrow> file_row \<Rightarrow> bool" where
  "unstamped s f = (sf_purgedAt f = None \<and> \<not> (\<exists>t\<in>set (filestamps s). ft_storedFileId t = sf_id f))"

fun stamp_loop :: "authority \<Rightarrow> TimestampConfig \<Rightarrow> db \<Rightarrow> nat \<Rightarrow> file_row list \<Rightarrow> db \<times> nat outcome" where
  "stamp_loop A config s n [] = (s, Inr n)"
| "stamp_loop A config s n (f # fs) =
     (case A (tsa_url config) (sf_sha256 f) of
        None \<Rightarrow> (s, Inl (InternalError ''time-stamp''))
      | Some (token, genTime) \<Rightarrow>
          stamp_loop A config
            (if \<exists>t\<in>set (filestamps s). ft_storedFileId t = sf_id f then s
             else s\<lparr>filestamps := filestamps s @ [\<lparr>ft_storedFileId = sf_id f, ft_sha256 = sf_sha256 f, ft_token = token,
                 ft_genTime = genTime, ft_tsaUrl = tsa_url config\<rparr>]\<rparr>) (Suc n) fs)"

definition timestampStoredFiles :: "authority \<Rightarrow> db \<Rightarrow> TimestampConfig option \<Rightarrow> nat \<Rightarrow> db \<times> nat outcome" where
  "timestampStoredFiles A s config limit =
     (case config of
        None \<Rightarrow> (s, Inr 0)
      | Some c \<Rightarrow> stamp_loop A c s 0 (find_many (\<lambda>f. - sf_createdAt f) limit (unstamped s) (storedfiles s)))"

section \<open>Properties\<close>

interpretation content: claim_once vc_versionId content_pending "\<lambda>_ :: time. True" start_content
  by unfold_locales (simp_all add: content_pending_def start_content_def)

text \<open>The outcome of an attempt on a row: done within the size limit, skipped, or counted as a failed
  attempt, of which the third is the last.\<close>

definition attempted :: "content_row \<Rightarrow> content_row \<Rightarrow> bool" where
  "attempted c c' \<longleftrightarrow>
     vc_versionId c' = vc_versionId c \<and> vc_attempts c' = vc_attempts c + 1 \<and>
     (vc_status c' = CoDone \<and> (\<exists>t. vc_text c' = Some t \<and> length t \<le> 1000000) \<or> vc_status c' = CoSkipped \<or>
      vc_status c' = CoFailed \<and> 3 \<le> vc_attempts c' \<or> vc_status c' = CoPending \<and> vc_attempts c' < 3)"

lemma index_row_key [simp]: "vc_versionId (index_row E X s v c) = vc_versionId c"
  by (auto simp: index_row_def skip_content_def fail_content_def finish_content_def Let_def
      split: option.split sum.split prod.split)

lemma index_row_attempted: "attempted c (index_row E X s v (start_content t c))"
  by (auto simp: index_row_def skip_content_def fail_content_def finish_content_def start_content_def
      attempted_def MAX_TEXT_def Let_def split: option.split sum.split prod.split)

lemma index_loop_outcome:
  assumes "distinct (map vc_versionId (contents s))" and "distinct vs"
    and "\<forall>v\<in>set vs. \<exists>c\<in>set (contents s). vc_versionId c = v \<and> content_pending c"
  shows "\<exists>f. contents (index_loop E X s vs) = map f (contents s) \<and>
    (\<forall>c\<in>set (contents s). if vc_versionId c \<in> set vs then attempted c (f c) else f c = c)"
  using assms
proof (induction vs arbitrary: s)
  case Nil
  show ?case by (intro exI [of _ id]) simp
next
  case (Cons v vs)
  let ?p = "\<lambda>c. vc_versionId c = v \<and> content_pending c"
  obtain c0 where c0: "c0 \<in> set (contents s)" "vc_versionId c0 = v" "content_pending c0" using Cons.prems(3) by auto
  have only: "c = c0" if "c \<in> set (contents s)" "vc_versionId c = v" for c
    using key_unique [OF Cons.prems(1) that(1) c0(1)] that(2) c0(2) by simp
  have "count_rows ?p (contents s) = 1"
    using count_rows_key_le_1 [OF Cons.prems(1), of v content_pending]
      count_rows_key_pos [OF Cons.prems(1) c0(1), of content_pending] c0(2,3) by simp
  then have cl: "claim ?p (start_content (now E)) (contents s) = Some (update_rows ?p (start_content (now E)) (contents s))"
    by (simp add: claim_Some_iff)
  define g where "g c = (if vc_versionId c = v then index_row E X s v (start_content (now E) c) else c)" for c
  define s2 where "s2 = s\<lparr>contents := map g (contents s)\<rparr>"
  have "update_rows (\<lambda>c. vc_versionId c = v) (index_row E X s v) (update_rows ?p (start_content (now E)) (contents s)) = map g (contents s)"
    using only c0(3) by (auto simp: update_rows_def g_def start_content_def)
  then have step: "index_loop E X s (v # vs) = index_loop E X s2 vs" by (simp add: cl s2_def)
  have gkey: "vc_versionId (g c) = vc_versionId c" for c by (simp add: g_def start_content_def)
  have ids: "map vc_versionId (contents s2) = map vc_versionId (contents s)" by (simp add: s2_def gkey)
  have "\<forall>w\<in>set vs. \<exists>c\<in>set (contents s2). vc_versionId c = w \<and> content_pending c"
  proof
    fix w assume w: "w \<in> set vs"
    then obtain c where c: "c \<in> set (contents s)" "vc_versionId c = w" "content_pending c" using Cons.prems(3) by auto
    moreover have "w \<noteq> v" using w Cons.prems(2) by auto
    ultimately have "g c = c" by (simp add: g_def)
    then have "c \<in> set (contents s2)" using c(1) unfolding s2_def by (simp add: rev_image_eqI)
    with c show "\<exists>c\<in>set (contents s2). vc_versionId c = w \<and> content_pending c" by blast
  qed
  moreover have "distinct (map vc_versionId (contents s2))" "distinct vs" using ids Cons.prems(1,2) by simp_all
  ultimately obtain f where f: "contents (index_loop E X s2 vs) = map f (contents s2)"
    "\<forall>c\<in>set (contents s2). if vc_versionId c \<in> set vs then attempted c (f c) else f c = c"
    using Cons.IH [of s2] by blast
  have "if vc_versionId c \<in> set (v # vs) then attempted c (f (g c)) else f (g c) = c" if c: "c \<in> set (contents s)" for c
  proof -
    have "g c \<in> set (contents s2)" using c by (simp add: s2_def)
    then have "if vc_versionId c \<in> set vs then attempted (g c) (f (g c)) else f (g c) = g c" using f(2) gkey by fastforce
    moreover have "vc_versionId c = v \<Longrightarrow> vc_versionId c \<notin> set vs" using Cons.prems(2) by auto
    ultimately show ?thesis using index_row_attempted [of c E X s v "now E"] by (cases "vc_versionId c = v") (auto simp: g_def)
  qed
  with f(1) step show ?case by (intro exI [of _ "f \<circ> g"]) (simp add: s2_def)
qed

lemma distinct_find_many: "distinct (map key rows) \<Longrightarrow> distinct (map key (find_many k n p rows))"
  unfolding distinct_map find_many_def
  by (auto simp: inj_on_def dest!: in_set_takeD)

text \<open>The start of a run: rows for versions that have none, and crashed rows put back.\<close>

definition requeued :: "env \<Rightarrow> content_row \<Rightarrow> content_row" where
  "requeued E c = (if vc_status c = CoProcessing \<and> vc_updatedAt c < now E - 30 * 60000
     then c\<lparr>vc_status := CoPending, vc_updatedAt := now E\<rparr> else c)"

definition fresh_rows :: "env \<Rightarrow> db \<Rightarrow> content_row list \<Rightarrow> bool" where
  "fresh_rows E s new \<longleftrightarrow>
     distinct (map vc_versionId new) \<and> set (map vc_versionId new) \<subseteq> ver_id ` set (versions s) - vc_versionId ` set (contents s) \<and>
     (length (filter (\<lambda>v. ver_id v \<notin> vc_versionId ` set (contents s)) (versions s)) \<le> 500 \<longrightarrow>
        ver_id ` set (versions s) \<subseteq> vc_versionId ` set (contents s) \<union> vc_versionId ` set new) \<and>
     (\<forall>c\<in>set new. vc_status c = CoPending \<and> vc_attempts c = 0 \<and> vc_text c = None)"

lemma requeued_key [simp]: "vc_versionId (requeued E c) = vc_versionId c"
  by (simp add: requeued_def)

lemma missing_versions:
  assumes "distinct (map ver_id vs)"
  shows "distinct (map ver_id (take 500 (sort_key k (filter p vs))))"
    and "set (take 500 (sort_key k (filter p vs))) \<subseteq> {v \<in> set vs. p v}"
    and "length (filter p vs) \<le> 500 \<Longrightarrow> set (take 500 (sort_key k (filter p vs))) = {v \<in> set vs. p v}"
proof -
  have "distinct (map ver_id (sort_key k (filter p vs)))"
    using distinct_map_filter [OF assms, of p] by (simp add: distinct_map)
  then show "distinct (map ver_id (take 500 (sort_key k (filter p vs))))"
    by (simp only: take_map [symmetric] distinct_take)
qed (auto dest: in_set_takeD)

lemma queued_rows:
  assumes "distinct (map ver_id (versions s))"
  obtains new where "contents (requeue_crashed E (queue_versions E s)) = map (requeued E) (contents s) @ new"
    and "fresh_rows E s new"
proof -
  define p where "p v \<longleftrightarrow> ver_id v \<notin> vc_versionId ` set (contents s)" for v :: version_row
  define missing where "missing = take 500 (sort_key (\<lambda>v. - ver_createdAt v) (filter p (versions s)))"
  define row where "row v = \<lparr>vc_versionId = ver_id v, vc_status = CoPending, vc_text = None, vc_ocr = False, vc_attempts = 0,
      vc_error = None, vc_extractedAt = None, vc_createdAt = now E, vc_updatedAt = now E\<rparr>" for v :: version_row
  have m: "distinct (map ver_id missing)" "set missing \<subseteq> {v \<in> set (versions s). p v}"
    "length (filter p (versions s)) \<le> 500 \<Longrightarrow> set missing = {v \<in> set (versions s). p v}"
    unfolding missing_def by (rule missing_versions [OF assms])+
  have row: "vc_versionId (row v) = ver_id v" "vc_status (row v) = CoPending" "vc_attempts (row v) = 0" "vc_text (row v) = None" for v
    by (simp_all add: row_def)
  have "set (map vc_versionId (map row missing)) \<subseteq> ver_id ` set (versions s) - vc_versionId ` set (contents s)"
    using m(2) by (auto simp: row p_def)
  moreover have "ver_id ` set (versions s) \<subseteq> vc_versionId ` set (contents s) \<union> vc_versionId ` set (map row missing)"
    if "length (filter p (versions s)) \<le> 500"
    using m(3) [OF that] by (auto simp: row p_def image_image)
  ultimately have "fresh_rows E s (map row missing)"
    using m(1) unfolding fresh_rows_def p_def [symmetric] by (simp add: row comp_def)
  moreover have "(\<lambda>v. \<forall>c\<in>set (contents s). vc_versionId c \<noteq> ver_id v) = p"
    by (rule ext) (force simp: p_def image_iff)
  then have "contents (requeue_crashed E (queue_versions E s)) = map (requeued E) (contents s) @ map row missing"
    by (simp add: requeue_crashed_def queue_versions_def update_rows_def requeued_def Let_def missing_def row_def [abs_def] comp_def)
  ultimately show thesis using that by blast
qed

text \<open>C30: indexing ends, for every version it takes up, in a decided state. A run of the worker first adds a pending row for
  every version that has none (at most 500) and puts rows back in the queue that a crashed worker left in processing for
  more than thirty minutes. Then it takes the pending rows, oldest first and at most as many as the limit, and turns each
  of them into a finished one whose text is within a million characters, a skipped one, or a failed attempt: the attempt is
  counted, the third failure is final and an earlier one leaves the row pending. No row that is taken stays in
  processing, and rows that are not taken do not change any more.\<close>

theorem indexing_decides:
  assumes "distinct (map vc_versionId (contents s))" and "distinct (map ver_id (versions s))"
  shows "\<exists>new f taken. fresh_rows E s new \<and>
    contents (indexDocumentContents E X s limit) = map f (map (requeued E) (contents s) @ new) \<and>
    taken = map vc_versionId (take limit (sort_key vc_createdAt
      (filter content_pending (map (requeued E) (contents s) @ new)))) \<and>
    (\<forall>c\<in>set (map (requeued E) (contents s) @ new).
       if vc_versionId c \<in> set taken then attempted c (f c) else f c = c)"
proof -
  let ?s = "requeue_crashed E (queue_versions E s)"
  obtain new where new: "contents ?s = map (requeued E) (contents s) @ new" "fresh_rows E s new"
    by (rule queued_rows [OF assms(2)])
  have d: "distinct (map vc_versionId (contents ?s))"
  proof -
    have "map vc_versionId (map (requeued E) (contents s)) = map vc_versionId (contents s)" by (simp add: comp_def)
    moreover have "distinct (map vc_versionId new)" "set (map vc_versionId new) \<inter> set (map vc_versionId (contents s)) = {}"
      using new(2) unfolding fresh_rows_def by auto
    ultimately show ?thesis unfolding new(1) map_append distinct_append using assms(1) by (simp only:) auto
  qed
  have dist: "distinct (pending_contents limit ?s)"
    unfolding pending_contents_def by (rule distinct_find_many [OF d])
  have pend: "\<forall>v\<in>set (pending_contents limit ?s). \<exists>c\<in>set (contents ?s). vc_versionId c = v \<and> content_pending c"
    using set_find_many [of vc_createdAt limit content_pending "contents ?s"] by (auto simp: pending_contents_def)
  obtain f where "contents (index_loop E X ?s (pending_contents limit ?s)) = map f (contents ?s)"
    "\<forall>c\<in>set (contents ?s). if vc_versionId c \<in> set (pending_contents limit ?s) then attempted c (f c) else f c = c"
    using index_loop_outcome [OF d dist pend] by blast
  with new show ?thesis
    by (intro exI [of _ new] exI [of _ f] exI [of _ "pending_contents limit ?s"])
      (simp add: indexDocumentContents_def Let_def pending_contents_def find_many_def)
qed

definition sample_extractor :: extractor where
  "sample_extractor = \<lparr>ex_text = (\<lambda>key ext. Inl ''unreadable''), ex_ocr = (\<lambda>key ext. OcrUnavailable)\<rparr>"

definition content_db :: db where
  "content_db = sample_db\<lparr>contents := [\<lparr>vc_versionId = ''v1'', vc_status = CoPending, vc_text = None, vc_ocr = False,
     vc_attempts = 2, vc_error = None, vc_extractedAt = None, vc_createdAt = 1, vc_updatedAt = 1\<rparr>]\<rparr>"

theorem indexing_decides_witness:
  "\<exists>c'\<in>set (contents (indexDocumentContents sample_env sample_extractor content_db 5)). vc_versionId c' = ''v1'' \<and> vc_attempts c' = 3"
proof -
  define x where "x = hd (contents content_db)"
  have ev: "distinct (map vc_versionId (contents content_db))" "distinct (map ver_id (versions content_db))" by code_simp+
  have x: "x \<in> set (map (requeued sample_env) (contents content_db))" "vc_versionId x = ''v1''" "content_pending x" "vc_attempts x = 2"
    "versions content_db = [sample_version]" "ver_id sample_version = ''v1''" "length (contents content_db) = 1"
    unfolding x_def by code_simp+
  obtain new f taken where r: "fresh_rows sample_env content_db new"
    "contents (indexDocumentContents sample_env sample_extractor content_db 5) =
       map f (map (requeued sample_env) (contents content_db) @ new)"
    "taken = map vc_versionId (take 5 (sort_key vc_createdAt
      (filter content_pending (map (requeued sample_env) (contents content_db) @ new))))"
    "\<forall>c\<in>set (map (requeued sample_env) (contents content_db) @ new).
       if vc_versionId c \<in> set taken then attempted c (f c) else f c = c"
    using indexing_decides [OF ev, of sample_env sample_extractor 5] by blast
  have "vc_versionId ` set (contents content_db) = {''v1''}" by code_simp
  then have "new = []" using r(1) x(5,6) unfolding fresh_rows_def by auto
  moreover from this have "vc_versionId x \<in> set taken"
    using r(3) x(1,3,7) by (auto simp: length_Suc_conv)
  ultimately have "attempted x (f x)" using r(4) x(1) by auto
  then show ?thesis using r(2) x(1,2,4) unfolding \<open>new = []\<close> by (intro bexI [of _ "f x"]) (auto simp: attempted_def)
qed

section \<open>Stamps\<close>

lemma stamp_loop_keeps:
  "\<exists>new. filestamps (fst (stamp_loop A c s n fs)) = filestamps s @ new \<and>
     (\<forall>t\<in>set new. \<exists>f\<in>set fs. ft_storedFileId t = sf_id f \<and> ft_sha256 t = sf_sha256 f \<and>
        A (ft_tsaUrl t) (ft_sha256 t) = Some (ft_token t, ft_genTime t))"
proof (induction fs arbitrary: s n)
  case (Cons f fs)
  show ?case
  proof (cases "A (tsa_url c) (sf_sha256 f)")
    case (Some r)
    obtain token g where r: "r = (token, g)" by fastforce
    define s1 where "s1 = (if \<exists>t\<in>set (filestamps s). ft_storedFileId t = sf_id f then s
      else s\<lparr>filestamps := filestamps s @ [\<lparr>ft_storedFileId = sf_id f, ft_sha256 = sf_sha256 f, ft_token = token,
                 ft_genTime = g, ft_tsaUrl = tsa_url c\<rparr>]\<rparr>)"
    have step: "stamp_loop A c s n (f # fs) = stamp_loop A c s1 (Suc n) fs" by (simp add: Some r s1_def)
    obtain new where new: "filestamps (fst (stamp_loop A c s1 (Suc n) fs)) = filestamps s1 @ new"
      "\<forall>t\<in>set new. \<exists>f\<in>set fs. ft_storedFileId t = sf_id f \<and> ft_sha256 t = sf_sha256 f \<and>
        A (ft_tsaUrl t) (ft_sha256 t) = Some (ft_token t, ft_genTime t)" using Cons.IH [of s1 "Suc n"] by blast
    show ?thesis
    proof (cases "\<exists>t\<in>set (filestamps s). ft_storedFileId t = sf_id f")
      case True
      then show ?thesis using step new by (auto simp: s1_def intro!: exI [of _ new])
    next
      case False
      then show ?thesis
        using step new Some r by (auto simp: s1_def intro!: exI [of _ "_ # new"])
    qed
  qed simp
qed simp

end
