(* ===== verification/Sign_Share.thy ===== *)
theory Sign_Share
  imports Document_Control Content_Index Audit_Chain
begin

text \<open>
  Signatures and external links (\<^verbatim>\<open>apps/api/src/ged-sign-share.controller.ts\<close>): requests for
  signatures on one version of a document, the decisions of the signers with their evidence, the
  certificate, and anonymous download links with an expiry and a limit. The answer of the
  time-stamping authority and the object store are parameters.
\<close>

record SignatureRequestDto =
  sq_versionId :: string
  sq_signers :: "string list"
  sq_message :: "string option"

datatype signing = SIGN | DECLINE

record SignatureDecisionDto =
  sn_decision :: signing
  sn_consent :: bool
  sn_comment :: "string option"

record ShareDto =
  xd_versionId :: string
  xd_expiresInDays :: int
  xd_maxDownloads :: "int option"

section \<open>Texts\<close>

text \<open>\<open>JSON.stringify\<close> of the entries of a flat object of strings, sorted as \<open>Array.sort\<close> does: by the
  text of key and value joined with a comma.\<close>

definition stable_entries :: "(string \<times> string) list \<Rightarrow> string" where
  "stable_entries kvs =
     ''{'' @ join '','' (map (\<lambda>(k, v). json_string k @ '':'' @ json_string v)
       (sort_key (\<lambda>(k, v). k @ '','' @ v) kvs)) @ ''}''"

text \<open>The characters of a text, each as the bytes of its encoding.\<close>

definition continuation :: "char \<Rightarrow> bool" where
  "continuation c = (0x80 \<le> (of_char c :: nat) \<and> (of_char c :: nat) < 0xC0)"

fun utf8_chars :: "string \<Rightarrow> string list" where
  "utf8_chars [] = []"
| "utf8_chars (c # cs) =
     (case utf8_chars cs of
        (d # w) # ws \<Rightarrow> if continuation d then (c # d # w) # ws else [c] # (d # w) # ws
      | ws \<Rightarrow> [c] # ws)"

definition printable :: "char \<Rightarrow> bool" where
  "printable c = (CHR '' '' \<le> c \<and> c \<le> CHR ''~'')"

text \<open>The characters of the standard font: printable ASCII, U+00A0 to U+00FF, and three marks.\<close>

definition pdf_char :: "string \<Rightarrow> bool" where
  "pdf_char w =
     (case w of
        [c] \<Rightarrow> printable c
      | [a, b] \<Rightarrow> a = CHR 0xC2 \<and> CHR 0xA0 \<le> b \<or> a = CHR 0xC3
      | [a, b, c] \<Rightarrow> a = CHR 0xE2 \<and> b = CHR 0x80 \<and> c \<in> {CHR 0x99, CHR 0x93, CHR 0x94}
      | _ \<Rightarrow> False)"

definition pdfText :: "string \<Rightarrow> string list" where
  "pdfText value = map (\<lambda>w. if pdf_char w then w else ''?'') (utf8_chars value)"

definition tokenHash :: "env \<Rightarrow> string \<Rightarrow> string" where
  "tokenHash E token = sha256 E token"

definition attachmentName :: "string \<Rightarrow> string" where
  "attachmentName name =
     (let ascii = concat (map (\<lambda>w. case w of [c] \<Rightarrow> if printable c \<and> c \<noteq> CHR 0x22 \<and> c \<noteq> CHR 0x5C then [c] else ''_''
                                  | _ \<Rightarrow> ''_'') (utf8_chars name))
      in ''attachment; filename='' @ [CHR 0x22] @ ascii @ [CHR 0x22] @ ''; filename*=UTF-8'' @
         [CHR 0x27, CHR 0x27] @ encodeURIComponent name)"

text \<open>\<open>/\/mip-[0-9a-f-]{36}\.(xlsx|docx)$/\<close> (\<^verbatim>\<open>mip-reader.ts\<close>).\<close>

definition isMipObjectKey :: "string \<Rightarrow> bool" where
  "isMipObjectKey key =
     (let t = drop (length key - 46) key
      in length t = 46 \<and> startsWith t ''/mip-'' \<and>
         list_all (\<lambda>c. is_digit c \<or> CHR ''a'' \<le> c \<and> c \<le> CHR ''f'' \<or> c = CHR ''-'') (take 36 (drop 5 t)) \<and>
         drop 41 t \<in> {''.xlsx'', ''.docx''})"

section \<open>Versions\<close>

definition cleanVersion :: "db \<Rightarrow> string \<Rightarrow> string \<Rightarrow> (version_row \<times> file_row) outcome" where
  "cleanVersion s documentId versionId =
     (case find_first (\<lambda>v. ver_id v = versionId \<and> ver_documentId v = documentId) (versions s) of
        None \<Rightarrow> Inl (BadRequest ''Unknown or unavailable document version'')
      | Some v \<Rightarrow>
          (case find_file s (ver_storedFileId v) of
             None \<Rightarrow> Inl (BadRequest ''Unknown or unavailable document version'')
           | Some f \<Rightarrow>
               if sf_purgedAt f \<noteq> None \<or> latest_scan s (sf_id f) \<noteq> Some ScanClean
               then Inl (BadRequest ''Unknown or unavailable document version'')
               else Inr (v, f)))"

text \<open>The guard of the routes on signatures: the module is on and the document visible.\<close>

definition signature_guard :: "env \<Rightarrow> db \<Rightarrow> request \<Rightarrow> string \<Rightarrow> document_row outcome" where
  "signature_guard E s req i =
     (case requireGedFeature s Signatures of
        Inl e \<Rightarrow> Inl e
      | Inr _ \<Rightarrow> requireVisible E s req i)"

section \<open>Requests for signatures\<close>

definition entries_of :: "db \<Rightarrow> string \<Rightarrow> entry_row list" where
  "entries_of s rid = filter (\<lambda>e. se_requestId e = rid) (entries s)"

record entry_view =
  ev_signer :: string
  ev_status :: entry_status
  ev_decidedAt :: "time option"
  ev_comment :: "string option"
  ev_timestamped :: bool
  ev_mine :: bool
  ev_canDecide :: bool

record signature_view =
  sv_id :: string
  sv_status :: signature_status
  sv_requestedBy :: string
  sv_message :: "string option"
  sv_createdAt :: time
  sv_completedAt :: "time option"
  sv_version :: "string option"
  sv_canCancel :: bool
  sv_entries :: "entry_view list"

definition upper_char :: "char \<Rightarrow> char" where
  "upper_char c = (if CHR ''a'' \<le> c \<and> c \<le> CHR ''z'' then char_of (of_char c - (32::nat)) else c)"

definition toUpperCase :: "string \<Rightarrow> string" where
  "toUpperCase s = map upper_char s"

definition version_name :: "version_row \<Rightarrow> string" where
  "version_name v = toUpperCase (ver_locale v) @ '' v'' @ versionLabel v"

definition view_entry :: "string \<Rightarrow> signature_row \<Rightarrow> entry_row \<Rightarrow> entry_view" where
  "view_entry me r e =
     \<lparr>ev_signer = se_signer e, ev_status = se_status e, ev_decidedAt = se_decidedAt e, ev_comment = se_comment e,
      ev_timestamped = (se_genTime e \<noteq> None), ev_mine = (se_signer e = me),
      ev_canDecide = (sr_status r = SrOpen \<and> se_status e = SePending \<and> se_signer e = me)\<rparr>"

definition view_signature :: "db \<Rightarrow> string \<Rightarrow> bool \<Rightarrow> signature_row \<Rightarrow> signature_view" where
  "view_signature s me admin r =
     \<lparr>sv_id = sr_id r, sv_status = sr_status r, sv_requestedBy = sr_requestedBy r, sv_message = sr_message r,
      sv_createdAt = sr_createdAt r, sv_completedAt = sr_completedAt r,
      sv_version = map_option version_name (find_first (\<lambda>v. ver_id v = sr_versionId r) (versions s)),
      sv_canCancel = (sr_status r = SrOpen \<and> (admin \<or> toLowerCase (sr_requestedBy r) = me)),
      sv_entries = map (view_entry me r) (sort_key se_position (entries_of s (sr_id r)))\<rparr>"

definition list_signatures :: "env \<Rightarrow> db \<Rightarrow> request \<Rightarrow> string \<Rightarrow> signature_view list outcome" where
  "list_signatures E s req i =
     (case signature_guard E s req i of
        Inl e \<Rightarrow> Inl e
      | Inr _ \<Rightarrow>
          Inr (map (view_signature s (toLowerCase (rq_username req)) (isAdminIdentity (rq_groups req)))
            (find_many (\<lambda>r. - sr_createdAt r) 50 (\<lambda>r. sr_documentId r = i) (signatures s))))"

definition request_signers :: "SignatureRequestDto \<Rightarrow> string list" where
  "request_signers body = filter (\<lambda>t. t \<noteq> []) (new_set (map (\<lambda>t. toLowerCase (trim t)) (sq_signers body)))"

definition new_request :: "env \<Rightarrow> db \<Rightarrow> request \<Rightarrow> string \<Rightarrow> SignatureRequestDto \<Rightarrow> signature_row" where
  "new_request E s req i body =
     \<lparr>sr_id = uuid E (uuid_next s), sr_documentId = i, sr_versionId = sq_versionId body,
      sr_requestedBy = rq_username req, sr_message = trimmed (sq_message body), sr_status = SrOpen,
      sr_createdAt = now E, sr_completedAt = None\<rparr>"

definition new_entry :: "env \<Rightarrow> db \<Rightarrow> nat \<times> string \<Rightarrow> entry_row" where
  "new_entry E s ps =
     \<lparr>se_id = uuid E (Suc (uuid_next s) + fst ps), se_requestId = uuid E (uuid_next s), se_signer = snd ps,
      se_position = fst ps, se_status = SePending, se_decidedAt = None, se_comment = None, se_ipAddress = None,
      se_evidenceHash = None, se_token = None, se_genTime = None\<rparr>"

definition signer_notice :: "request \<Rightarrow> string \<Rightarrow> string \<Rightarrow> notice_row" where
  "signer_notice req i signer =
     \<lparr>un_identity = signer, un_title = ''Signature demand'' @ [CHR 0xC3, CHR 0xA9] @ ''e'',
      un_message = display_name req @ '' vous demande de signer un document'',
      un_resourceType = Some ''document'', un_resourceId = Some i, un_mandatory = True\<rparr>"

definition requestSignatures ::
    "env \<Rightarrow> db \<Rightarrow> request \<Rightarrow> string \<Rightarrow> SignatureRequestDto \<Rightarrow> db \<times> signature_row outcome" where
  "requestSignatures E s req i body =
     (case signature_guard E s req i of
        Inl e \<Rightarrow> (s, Inl e)
      | Inr d \<Rightarrow>
          if \<not> can_on E s req d Edit then (s, Inl NotFound)
          else (case cleanVersion s i (sq_versionId body) of
              Inl e \<Rightarrow> (s, Inl e)
            | Inr _ \<Rightarrow>
                (let signers = request_signers body;
                     r = new_request E s req i body
                 in if signers = [] then (s, Inl (BadRequest ''Add at least one signer''))
                    else (record_quiet E
                            (s\<lparr>signatures := signatures s @ [r],
                               entries := entries s @ map (new_entry E s) (enumerate 0 signers),
                               notices := notices s @ map (signer_notice req i) signers,
                               uuid_next := Suc (uuid_next s + length signers)\<rparr>)
                            req ''document.signature.request'' (''document:'' @ i) Success
                            (Some (JObj [(''requestId'', JStr (sr_id r)), (''versionId'', JStr (sq_versionId body)),
                                         (''signers'', JArr (map JStr signers))])),
                          Inr r))))"

section \<open>Decisions\<close>

fun status_text :: "entry_status \<Rightarrow> string" where
  "status_text SePending = ''PENDING''"
| "status_text SeSigned = ''SIGNED''"
| "status_text SeDeclined = ''DECLINED''"

definition ip_text :: "request \<Rightarrow> string" where
  "ip_text req = (case non_empty (rq_ip req) of None \<Rightarrow> ''unknown'' | Some a \<Rightarrow> a)"

definition decided_status :: "signing \<Rightarrow> entry_status" where
  "decided_status d = (if d = SIGN then SeSigned else SeDeclined)"

text \<open>What the digest of a decision covers.\<close>

record evidence =
  vd_requestId :: string
  vd_documentId :: string
  vd_versionId :: string
  vd_fileSha256 :: string
  vd_signer :: string
  vd_status :: entry_status
  vd_decidedAt :: time
  vd_ipAddress :: string

definition evidenceHash :: "env \<Rightarrow> evidence \<Rightarrow> string" where
  "evidenceHash E v =
     sha256 E (stable_entries
       [(''requestId'', vd_requestId v), (''documentId'', vd_documentId v), (''versionId'', vd_versionId v),
        (''fileSha256'', vd_fileSha256 v), (''signer'', vd_signer v), (''status'', status_text (vd_status v)),
        (''decidedAt'', toISOString (vd_decidedAt v)), (''ipAddress'', vd_ipAddress v)])"

text \<open>The pending entry of the caller in an open request.\<close>

definition open_request :: "db \<Rightarrow> string \<Rightarrow> string \<Rightarrow> signature_row option" where
  "open_request s i requestId =
     find_first (\<lambda>r. sr_id r = requestId \<and> sr_documentId r = i \<and> sr_status r = SrOpen) (signatures s)"

definition pending_entry :: "db \<Rightarrow> string \<Rightarrow> string \<Rightarrow> entry_row option" where
  "pending_entry s requestId me =
     find_first (\<lambda>e. se_signer e = me \<and> se_status e = SePending) (entries_of s requestId)"

definition entry_open :: "entry_row \<Rightarrow> bool" where
  "entry_open e = (se_status e = SePending)"

text \<open>What the update writes: status, time, comment, address, digest and, if there is one, the time
  stamp.\<close>

record entry_decision =
  ed_status :: entry_status
  ed_at :: time
  ed_comment :: "string option"
  ed_ip :: string
  ed_hash :: string
  ed_stamp :: "(string \<times> time option) option"

definition decide_entry :: "entry_decision \<Rightarrow> entry_row \<Rightarrow> entry_row" where
  "decide_entry a e =
     (let e' = e\<lparr>se_status := ed_status a, se_decidedAt := Some (ed_at a), se_comment := ed_comment a,
                 se_ipAddress := Some (ed_ip a), se_evidenceHash := Some (ed_hash a)\<rparr>
      in case ed_stamp a of
           None \<Rightarrow> e'
         | Some (token, genTime) \<Rightarrow> e'\<lparr>se_token := Some token, se_genTime := genTime\<rparr>)"

definition request_status :: "entry_status \<Rightarrow> nat \<Rightarrow> signature_status" where
  "request_status status remaining =
     (if status = SeDeclined then SrDeclined else if remaining = 0 then SrCompleted else SrOpen)"

definition close_request :: "string \<Rightarrow> signature_status \<Rightarrow> time \<Rightarrow> signature_row list \<Rightarrow> signature_row list" where
  "close_request rid status t rows =
     (if status = SrOpen then rows
      else update_rows (\<lambda>r. sr_id r = rid) (\<lambda>r. r\<lparr>sr_status := status, sr_completedAt := Some t\<rparr>) rows)"

definition requester_notice :: "signature_row \<Rightarrow> string \<Rightarrow> string \<Rightarrow> signature_status \<Rightarrow> entry_status \<Rightarrow> notice_row list" where
  "requester_notice r i me rs status =
     (if rs = SrOpen then []
      else [\<lparr>un_identity = sr_requestedBy r,
             un_title = (if rs = SrCompleted then ''Signatures termin'' @ [CHR 0xC3, CHR 0xA9] @ ''es''
                         else ''Signature refus'' @ [CHR 0xC3, CHR 0xA9] @ ''e''),
             un_message = me @ '' : '' @ (if status = SeSigned then ''sign'' else ''refus'') @ [CHR 0xC3, CHR 0xA9],
             un_resourceType = Some ''document'', un_resourceId = Some i, un_mandatory = False\<rparr>])"

text \<open>The transaction, on the database as it is when it runs; the request, the entry and the version
  were read before.\<close>

definition decide_commit ::
    "env \<Rightarrow> db \<Rightarrow> request \<Rightarrow> string \<Rightarrow> signature_row \<Rightarrow> entry_row \<Rightarrow> version_row \<times> file_row \<Rightarrow> entry_decision \<Rightarrow>
     db \<times> (entry_status \<times> string \<times> bool) outcome" where
  "decide_commit E s req i r entry vf a =
     (case claim (\<lambda>e. se_id e = se_id entry \<and> entry_open e) (decide_entry a) (entries s) of
        None \<Rightarrow> (s, Inl (Conflict ''Already decided''))
      | Some es \<Rightarrow>
          (let remaining = count_rows (\<lambda>e. se_requestId e = sr_id r \<and> entry_open e) es;
               rs = request_status (ed_status a) remaining
           in (record_quiet E
                 (s\<lparr>entries := es, signatures := close_request (sr_id r) rs (ed_at a) (signatures s),
                    notices := notices s @ requester_notice r i (se_signer entry) rs (ed_status a)\<rparr>)
                 req (if ed_status a = SeSigned then ''document.signature.sign'' else ''document.signature.decline'')
                 (''document:'' @ i) Success
                 (Some (JObj [(''requestId'', JStr (sr_id r)), (''versionId'', JStr (ver_id (fst vf))),
                              (''fileSha256'', JStr (sf_sha256 (snd vf))), (''evidenceHash'', JStr (ed_hash a)),
                              (''timestamped'', JBool (ed_stamp a \<noteq> None))])),
               Inr (ed_status a, ed_hash a, ed_stamp a \<noteq> None))))"

text \<open>\<open>requestTimestamp\<close> of \<^verbatim>\<open>timestamp.ts\<close> for a digest; nothing when there is no authority or the
  call fails.\<close>

type_synonym stamper = "string \<Rightarrow> TimestampConfig option \<Rightarrow> (string \<times> time option) option"

definition stamp_evidence :: "tsa_env \<Rightarrow> cipher \<Rightarrow> stamper \<Rightarrow> db \<Rightarrow> string \<Rightarrow> (string \<times> time option) option" where
  "stamp_evidence V C stamp s hash =
     (case loadTimestampConfig V C s of Inl _ \<Rightarrow> None | Inr config \<Rightarrow> stamp hash config)"

definition decision_evidence ::
    "env \<Rightarrow> request \<Rightarrow> string \<Rightarrow> string \<Rightarrow> version_row \<times> file_row \<Rightarrow> signing \<Rightarrow> evidence" where
  "decision_evidence E req i requestId vf d =
     \<lparr>vd_requestId = requestId, vd_documentId = i, vd_versionId = ver_id (fst vf), vd_fileSha256 = sf_sha256 (snd vf),
      vd_signer = toLowerCase (rq_username req), vd_status = decided_status d, vd_decidedAt = now E,
      vd_ipAddress = ip_text req\<rparr>"

text \<open>What the handler does before the transaction: the guards, the open request, the caller's pending entry, the
  version with its file, the evidence and its time stamp.\<close>

definition decide_read ::
    "env \<Rightarrow> tsa_env \<Rightarrow> cipher \<Rightarrow> stamper \<Rightarrow> db \<Rightarrow> request \<Rightarrow> string \<Rightarrow> string \<Rightarrow> SignatureDecisionDto \<Rightarrow>
     (signature_row \<times> entry_row \<times> (version_row \<times> file_row) \<times> entry_decision) outcome" where
  "decide_read E V C stamp s req i requestId body =
     (case signature_guard E s req i of
        Inl e \<Rightarrow> Inl e
      | Inr _ \<Rightarrow>
          if sn_decision body = SIGN \<and> \<not> sn_consent body
          then Inl (BadRequest ''Signing requires explicit consent'')
          else (case open_request s i requestId of
              None \<Rightarrow> Inl NotFound
            | Some r \<Rightarrow>
                (case pending_entry s requestId (toLowerCase (rq_username req)) of
                   None \<Rightarrow> Inl NotFound
                 | Some entry \<Rightarrow>
                     (case cleanVersion s i (sr_versionId r) of
                        Inl e \<Rightarrow> Inl e
                      | Inr vf \<Rightarrow>
                          (let hash = evidenceHash E (decision_evidence E req i requestId vf (sn_decision body))
                           in Inr (r, entry, vf,
                                \<lparr>ed_status = decided_status (sn_decision body), ed_at = now E,
                                 ed_comment = trimmed (sn_comment body), ed_ip = ip_text req, ed_hash = hash,
                                 ed_stamp = stamp_evidence V C stamp s hash\<rparr>))))))"

definition decide ::
    "env \<Rightarrow> tsa_env \<Rightarrow> cipher \<Rightarrow> stamper \<Rightarrow> db \<Rightarrow> request \<Rightarrow> string \<Rightarrow> string \<Rightarrow> SignatureDecisionDto \<Rightarrow>
     db \<times> (entry_status \<times> string \<times> bool) outcome" where
  "decide E V C stamp s req i requestId body =
     (case decide_read E V C stamp s req i requestId body of
        Inl e \<Rightarrow> (s, Inl e)
      | Inr (r, entry, vf, a) \<Rightarrow> decide_commit E s req i r entry vf a)"

text \<open>A cancellation reads the open request and then updates it by its identifier.\<close>

definition cancel_read :: "env \<Rightarrow> db \<Rightarrow> request \<Rightarrow> string \<Rightarrow> string \<Rightarrow> unit outcome" where
  "cancel_read E s req i requestId =
     (case signature_guard E s req i of
        Inl e \<Rightarrow> Inl e
      | Inr _ \<Rightarrow>
          (case open_request s i requestId of
             None \<Rightarrow> Inl NotFound
           | Some r \<Rightarrow>
               if toLowerCase (sr_requestedBy r) \<noteq> toLowerCase (rq_username req) \<and> \<not> isAdminIdentity (rq_groups req)
               then Inl (Forbidden [])
               else Inr ()))"

definition cancel_commit :: "env \<Rightarrow> db \<Rightarrow> request \<Rightarrow> string \<Rightarrow> string \<Rightarrow> db \<times> unit outcome" where
  "cancel_commit E s req i requestId =
     (if requestId \<notin> set (map sr_id (signatures s))
      then (s, Inl (InternalError ''Record to update not found''))
      else (record_quiet E (s\<lparr>signatures := close_request requestId SrCancelled (now E) (signatures s)\<rparr>)
              req ''document.signature.cancel'' (''document:'' @ i) Success
              (Some (JObj [(''requestId'', JStr requestId)])),
            Inr ()))"

definition cancel :: "env \<Rightarrow> db \<Rightarrow> request \<Rightarrow> string \<Rightarrow> string \<Rightarrow> db \<times> unit outcome" where
  "cancel E s req i requestId =
     (case cancel_read E s req i requestId of
        Inl e \<Rightarrow> (s, Inl e)
      | Inr _ \<Rightarrow> cancel_commit E s req i requestId)"

section \<open>The certificate\<close>

text \<open>The calls that write the certificate: a line of text with its size and weight, or a gap.\<close>

datatype cert_item = Line string int bool | Gap int

record drawn_line =
  dl_page :: nat
  dl_y :: int
  dl_size :: int
  dl_strong :: bool
  dl_text :: "string list"

text \<open>The page and the height of the pen, and the lines drawn so far.\<close>

type_synonym pen = "nat \<times> int \<times> drawn_line list"

fun draw :: "pen \<Rightarrow> cert_item \<Rightarrow> pen" where
  "draw (page, y, ls) (Gap g) = (page, y - g, ls)"
| "draw (page, y, ls) (Line text pt strong) =
     (let (page', y') = (if y < 60 then (Suc page, 790) else (page, y))
      in (page', y' - (pt + 6),
          ls @ [\<lparr>dl_page = page', dl_y = y', dl_size = pt, dl_strong = strong, dl_text = take 110 (pdfText text)\<rparr>]))"

fun request_text :: "signature_status \<Rightarrow> string" where
  "request_text SrOpen = ''OPEN''"
| "request_text SrCompleted = ''COMPLETED''"
| "request_text SrDeclined = ''DECLINED''"
| "request_text SrCancelled = ''CANCELLED''"

definition optional_line :: "'a option \<Rightarrow> ('a \<Rightarrow> string) \<Rightarrow> cert_item list" where
  "optional_line v f = (case v of None \<Rightarrow> [] | Some x \<Rightarrow> [Line (f x) 10 False])"

definition entry_items :: "entry_row \<Rightarrow> cert_item list" where
  "entry_items e =
     [Line (se_signer e @ '' - '' @ status_text (se_status e)) 11 True] @
     optional_line (se_decidedAt e)
       (\<lambda>t. ''Date : '' @ toISOString t @ '' - adresse IP : '' @
          (case non_empty (se_ipAddress e) of None \<Rightarrow> ''-'' | Some a \<Rightarrow> a)) @
     optional_line (non_empty (se_evidenceHash e)) (\<lambda>h. ''Empreinte de preuve : '' @ h) @
     [Line (case se_genTime e of
              Some t \<Rightarrow> ''Horodatage RFC 3161 : '' @ toISOString t
            | None \<Rightarrow> ''Horodatage RFC 3161 : non disponible'') 10 False] @
     optional_line (non_empty (se_comment e)) (\<lambda>c. ''Commentaire : '' @ c) @
     [Gap 4]"

abbreviation e_acute :: string where
  "e_acute \<equiv> [CHR 0xC3, CHR 0xA9]"

definition cert_items ::
    "string option \<Rightarrow> signature_row \<Rightarrow> (version_row \<times> file_row) option \<Rightarrow> entry_row list \<Rightarrow> cert_item list" where
  "cert_items title r vf es =
     [Line (''Certificat de signature '' @ e_acute @ ''lectronique simple'') 16 True,
      Line ''Signature certificate - ISMS Portal'' 10 False,
      Gap 8,
      Line (''Document : '' @ (case non_empty title of None \<Rightarrow> sr_documentId r | Some t \<Rightarrow> t)) 11 True,
      Line (''Identifiant : '' @ sr_documentId r) 10 False] @
     (case vf of
        None \<Rightarrow> []
      | Some (v, f) \<Rightarrow>
          [Line (''Version : '' @ version_name v @ '' ('' @ sf_originalName f @ '')'') 10 False,
           Line (''SHA-256 du fichier : '' @ sf_sha256 f) 10 False]) @
     [Line (''Demande : '' @ sr_id r @ '' par '' @ sr_requestedBy r @ '' le '' @ toISOString (sr_createdAt r)) 10 False,
      Line (''Statut : '' @ request_text (sr_status r) @
            (case sr_completedAt r of None \<Rightarrow> [] | Some t \<Rightarrow> '' ('' @ toISOString t @ '')'')) 10 False] @
     optional_line (non_empty (sr_message r)) (\<lambda>m. ''Message : '' @ m) @
     [Gap 8] @
     concat (map entry_items es) @
     [Gap 8,
      Line (''Signature '' @ e_acute @ ''lectronique simple (eIDAS, art. 3.10) : identit'' @ e_acute @
            '' issue de l'' @ [CHR 0x27] @ ''authentification'') 8 False,
      Line (''SSO de l'' @ [CHR 0x27] @ ''entreprise, consentement explicite, preuves cha'' @ [CHR 0xC3, CHR 0xAE] @
            ''n'' @ e_acute @ ''es dans le journal d'' @ [CHR 0x27] @ ''audit scell'' @ e_acute @ ''.'') 8 False]"

definition version_and_file :: "db \<Rightarrow> string \<Rightarrow> (version_row \<times> file_row) option" where
  "version_and_file s vid =
     (case find_first (\<lambda>v. ver_id v = vid) (versions s) of
        None \<Rightarrow> None
      | Some v \<Rightarrow> map_option (Pair v) (find_file s (ver_storedFileId v)))"

definition certificate :: "env \<Rightarrow> db \<Rightarrow> request \<Rightarrow> string \<Rightarrow> string \<Rightarrow> drawn_line list outcome" where
  "certificate E s req i requestId =
     (case signature_guard E s req i of
        Inl e \<Rightarrow> Inl e
      | Inr _ \<Rightarrow>
          (case find_first (\<lambda>r. sr_id r = requestId \<and> sr_documentId r = i) (signatures s) of
             None \<Rightarrow> Inl NotFound
           | Some r \<Rightarrow>
               Inr (snd (snd (foldl draw (0, 790, [])
                 (cert_items (map_option tr_title (find_first (\<lambda>t. tr_documentId t = i) (titles s))) r
                    (version_and_file s (sr_versionId r))
                    (sort_key se_position (entries_of s requestId))))))))"

section \<open>External links\<close>

text \<open>Whether a link still has downloads left.\<close>

definition downloads_left :: "sharelink_row \<Rightarrow> bool" where
  "downloads_left l = null_or (\<lambda>m. sl_downloadCount l < m) (sl_maxDownloads l)"

definition link_active :: "time \<Rightarrow> sharelink_row \<Rightarrow> bool" where
  "link_active t l = (sl_revokedAt l = None \<and> t < sl_expiresAt l \<and> downloads_left l)"

definition can_share :: "env \<Rightarrow> db \<Rightarrow> request \<Rightarrow> document_row \<Rightarrow> bool" where
  "can_share E s req d =
     (xs_enabled (sharingSettings s) \<and> doc_status d = PUBLISHED \<and> \<not> doc_sensitive d \<and>
      can_on E s req d Edit \<and> can_on E s req d Download)"

record shares_view =
  xv_enabled :: bool
  xv_maxDays :: "int \<times> nat"
  xv_canShare :: bool
  xv_reason :: "string option"
  xv_links :: "(sharelink_row \<times> bool) list"

definition list_links :: "env \<Rightarrow> db \<Rightarrow> request \<Rightarrow> string \<Rightarrow> shares_view outcome" where
  "list_links E s req i =
     (case requireVisible E s req i of
        Inl e \<Rightarrow> Inl e
      | Inr d \<Rightarrow>
          (let x = sharingSettings s;
               ls = (if can_share E s req d \<or> can_on E s req d Edit
                     then find_many (\<lambda>l. - sl_createdAt l) 50 (\<lambda>l. sl_documentId l = i) (sharelinks s)
                     else [])
           in Inr \<lparr>xv_enabled = xs_enabled x, xv_maxDays = xs_maxDays x, xv_canShare = can_share E s req d,
                   xv_reason = (if \<not> xs_enabled x then Some ''disabled''
                                else if doc_status d \<noteq> PUBLISHED then Some ''not-published''
                                else if doc_sensitive d then Some ''sensitive'' else None),
                   xv_links = map (\<lambda>l. (l, link_active (now E) l)) ls\<rparr>))"

text \<open>A positive decimal number as a template prints it.\<close>

definition days_text :: "int \<times> nat \<Rightarrow> string" where
  "days_text v =
     (case v of (m, k) \<Rightarrow>
        (let frac = rev (dropWhile (\<lambda>c. c = CHR ''0'') (rev (padStart k CHR ''0'' (string_of_int (m mod 10 ^ k)))))
         in string_of_int (m div 10 ^ k) @ (if k = 0 \<or> frac = [] then [] else ''.'' @ frac)))"

definition new_link :: "env \<Rightarrow> db \<Rightarrow> request \<Rightarrow> string \<Rightarrow> ShareDto \<Rightarrow> string \<Rightarrow> sharelink_row" where
  "new_link E s req i body token =
     \<lparr>sl_id = uuid E (uuid_next s), sl_documentId = i, sl_versionId = xd_versionId body,
      sl_tokenHash = tokenHash E token, sl_createdBy = rq_username req, sl_createdAt = now E,
      sl_expiresAt = now E + xd_expiresInDays body * 86400000, sl_maxDownloads = xd_maxDownloads body,
      sl_downloadCount = 0, sl_lastAccessAt = None, sl_revokedAt = None\<rparr>"

text \<open>\<open>token\<close> is the random token, given back once.\<close>

definition share_link ::
    "env \<Rightarrow> db \<Rightarrow> request \<Rightarrow> string \<Rightarrow> ShareDto \<Rightarrow> string \<Rightarrow> db \<times> (sharelink_row \<times> string) outcome" where
  "share_link E s req i body token =
     (case requireVisible E s req i of
        Inl e \<Rightarrow> (s, Inl e)
      | Inr d \<Rightarrow>
          (let x = sharingSettings s
           in if \<not> xs_enabled x then (s, Inl (Forbidden ''External sharing is disabled''))
              else if \<not> can_on E s req d Edit \<or> \<not> can_on E s req d Download then (s, Inl NotFound)
              else if doc_status d \<noteq> PUBLISHED \<or> doc_sensitive d
              then (s, Inl (Conflict ''Only published, non-sensitive documents can be shared externally''))
              else if exceeds (xd_expiresInDays body) (xs_maxDays x)
              then (s, Inl (BadRequest (''Maximum duration: '' @ days_text (xs_maxDays x) @ '' days'')))
              else (case cleanVersion s i (xd_versionId body) of
                  Inl e \<Rightarrow> (s, Inl e)
                | Inr (v, f) \<Rightarrow>
                    if isMipObjectKey (sf_objectKey f)
                    then (s, Inl (Conflict ''Protected (MIP) files cannot be shared''))
                    else (let link = new_link E s req i body token
                          in (record_quiet E
                                (s\<lparr>sharelinks := sharelinks s @ [link], uuid_next := Suc (uuid_next s)\<rparr>)
                                req ''document.share.create'' (''document:'' @ i) Success
                                (Some (JObj [(''shareId'', JStr (sl_id link)), (''versionId'', JStr (ver_id v)),
                                             (''expiresAt'', JDate (sl_expiresAt link)),
                                             (''maxDownloads'', json_opt JNum (sl_maxDownloads link))])),
                              Inr (link, ''/api/public/share/'' @ token))))))"

definition link_open :: "sharelink_row \<Rightarrow> bool" where
  "link_open l = (sl_revokedAt l = None)"

definition revoke_link_row :: "time \<Rightarrow> sharelink_row \<Rightarrow> sharelink_row" where
  "revoke_link_row t l = l\<lparr>sl_revokedAt := Some t\<rparr>"

definition revoke_link :: "env \<Rightarrow> db \<Rightarrow> request \<Rightarrow> string \<Rightarrow> string \<Rightarrow> db \<times> unit outcome" where
  "revoke_link E s req i shareId =
     (case requireEditable E s req i of
        Inl e \<Rightarrow> (s, Inl e)
      | Inr _ \<Rightarrow>
          (case claim (\<lambda>l. sl_id l = shareId \<and> link_open l \<and> sl_documentId l = i) (revoke_link_row (now E)) (sharelinks s) of
             None \<Rightarrow> (s, Inl NotFound)
           | Some ls \<Rightarrow>
               (record_quiet E (s\<lparr>sharelinks := ls\<rparr>) req ''document.share.revoke'' (''document:'' @ i) Success
                  (Some (JObj [(''shareId'', JStr shareId)])),
                Inr ())))"

section \<open>Public download\<close>

text \<open>\<open>/^[A-Za-z0-9_-]{32,64}$/\<close>.\<close>

definition token_shape :: "string \<Rightarrow> bool" where
  "token_shape t =
     (32 \<le> length t \<and> length t \<le> 64 \<and>
      list_all (\<lambda>c. CHR ''A'' \<le> c \<and> c \<le> CHR ''Z'' \<or> CHR ''a'' \<le> c \<and> c \<le> CHR ''z'' \<or> is_digit c \<or>
                    c = CHR ''_'' \<or> c = CHR ''-'') t)"

definition link_valid :: "env \<Rightarrow> db \<Rightarrow> sharelink_row \<Rightarrow> document_row \<Rightarrow> (version_row \<times> file_row) option \<Rightarrow> bool" where
  "link_valid E s l d vf =
     (xs_enabled (sharingSettings s) \<and> sl_revokedAt l = None \<and> now E < sl_expiresAt l \<and>
      doc_status d = PUBLISHED \<and> doc_deletedAt d = None \<and> \<not> doc_sensitive d \<and>
      (case vf of
         None \<Rightarrow> False
       | Some (v, f) \<Rightarrow>
           sf_purgedAt f = None \<and> latest_scan s (sf_id f) = Some ScanClean \<and> \<not> isMipObjectKey (sf_objectKey f)))"

text \<open>The row that the raw update counts a download on.\<close>

definition consumable :: "string \<Rightarrow> sharelink_row \<Rightarrow> bool" where
  "consumable i l = (sl_id l = i \<and> sl_revokedAt l = None \<and> downloads_left l)"

definition consume_row :: "time \<Rightarrow> sharelink_row \<Rightarrow> sharelink_row" where
  "consume_row t l = l\<lparr>sl_downloadCount := sl_downloadCount l + 1, sl_lastAccessAt := Some t\<rparr>"

text \<open>The update of a valid link, and the number of rows it changed.\<close>

definition consume :: "env \<Rightarrow> db \<Rightarrow> sharelink_row \<Rightarrow> bool \<Rightarrow> db \<times> nat" where
  "consume E s l valid =
     (if valid
      then (s\<lparr>sharelinks := update_rows (consumable (sl_id l)) (consume_row (now E)) (sharelinks s)\<rparr>,
            count_rows (consumable (sl_id l)) (sharelinks s))
      else (s, 0))"

record served_file =
  sv_objectKey :: string
  sv_headers :: "(string \<times> string) list"

definition served :: "file_row \<Rightarrow> served_file" where
  "served f =
     \<lparr>sv_objectKey = sf_objectKey f,
      sv_headers =
        [(''Content-Type'', sf_mimeType f),
         (''Content-Disposition'',
          attachmentName (if sf_originalName f \<noteq> [] then sf_originalName f else ''document'' @ extname (sf_objectKey f))),
         (''X-Content-Type-Options'', ''nosniff''), (''Cache-Control'', ''no-store''), (''Referrer-Policy'', ''no-referrer''),
         (''Content-Security-Policy'', ''default-src '' @ [CHR 0x27] @ ''none'' @ [CHR 0x27] @ ''; sandbox'')]\<rparr>"

text \<open>\<open>object_ok\<close> tells which objects the store finds.\<close>

definition download :: "env \<Rightarrow> (string \<Rightarrow> bool) \<Rightarrow> db \<Rightarrow> request \<Rightarrow> string \<Rightarrow> db \<times> served_file outcome" where
  "download E object_ok s req token =
     (if \<not> token_shape token then (s, Inl NotFound)
      else (case find_first (\<lambda>l. sl_tokenHash l = tokenHash E token) (sharelinks s) of
          None \<Rightarrow> (s, Inl NotFound)
        | Some l \<Rightarrow>
            (case find_first (\<lambda>d. doc_id d = sl_documentId l) (documents s) of
               None \<Rightarrow> (s, Inl (InternalError ''document''))
             | Some d \<Rightarrow>
                 (let vf = version_and_file s (sl_versionId l);
                      (s1, consumed) = consume E s l (link_valid E s l d vf);
                      s2 = record_quiet E s1 req ''document.share.download'' (''document:'' @ sl_documentId l)
                             (if consumed = 1 then Success else Denied)
                             (Some (JObj [(''shareId'', JStr (sl_id l)), (''ipAddress'', JStr (ip_text req))]))
                  in (s2,
                      case vf of
                        None \<Rightarrow> Inl NotFound
                      | Some (v, f) \<Rightarrow>
                          if consumed \<noteq> 1 then Inl NotFound
                          else if object_ok (sf_objectKey f) then Inr (served f)
                          else Inl (InternalError ''storage''))))))"

section \<open>Evidence\<close>

interpretation signing: claim_once se_id entry_open "\<lambda>a. ed_status a \<noteq> SePending" decide_entry
  by unfold_locales (auto simp: entry_open_def decide_entry_def Let_def split: option.splits)

lemma decide_entry_simps [simp]:
  "se_id (decide_entry a e) = se_id e" "se_requestId (decide_entry a e) = se_requestId e"
  "se_signer (decide_entry a e) = se_signer e" "se_position (decide_entry a e) = se_position e"
  "se_status (decide_entry a e) = ed_status a" "se_evidenceHash (decide_entry a e) = Some (ed_hash a)"
  "se_decidedAt (decide_entry a e) = Some (ed_at a)"
  by (simp_all add: decide_entry_def Let_def split: option.splits)

lemma evidence_text:
  "stable_entries
     [(''requestId'', a), (''documentId'', b), (''versionId'', c), (''fileSha256'', d), (''signer'', e),
      (''status'', f), (''decidedAt'', g), (''ipAddress'', h)] =
   ''{'' @ json_string ''decidedAt'' @ '':'' @ json_string g @ '','' @ json_string ''documentId'' @ '':'' @ json_string b @ '','' @
     json_string ''fileSha256'' @ '':'' @ json_string d @ '','' @ json_string ''ipAddress'' @ '':'' @ json_string h @ '','' @
     json_string ''requestId'' @ '':'' @ json_string a @ '','' @ json_string ''signer'' @ '':'' @ json_string e @ '','' @
     json_string ''status'' @ '':'' @ json_string f @ '','' @ json_string ''versionId'' @ '':'' @ json_string c @ ''}''"
  by (simp add: stable_entries_def join_def less_eq_char_def)

lemma status_text_inj: "status_text a = status_text b \<Longrightarrow> a = b"
  by (cases a; cases b) simp_all

lemma evidence_fields_inj:
  assumes "stable_entries
     [(''requestId'', a), (''documentId'', b), (''versionId'', c), (''fileSha256'', d), (''signer'', e),
      (''status'', f), (''decidedAt'', g), (''ipAddress'', h)] =
   stable_entries
     [(''requestId'', a'), (''documentId'', b'), (''versionId'', c'), (''fileSha256'', d'), (''signer'', e'),
      (''status'', f'), (''decidedAt'', g'), (''ipAddress'', h')]"
  shows "a = a' \<and> b = b' \<and> c = c' \<and> d = d' \<and> e = e' \<and> f = f' \<and> g = g' \<and> h = h'"
proof -
  have j: "json_string x @ a # u = json_string y @ a # u' \<Longrightarrow> x = y \<and> u = u'" for x y a u u'
    using json_string_inj [of x "a # u" y "a # u'"] by simp
  have k: "json_string x = json_string y \<Longrightarrow> x = y" for x y
    using json_string_inj [of x "[]" y "[]"] by simp
  from assms show ?thesis unfolding evidence_text by (auto dest!: j k)
qed

lemma cleanVersion_Inr:
  assumes "cleanVersion s i vid = Inr (v, f)"
  shows "v \<in> set (versions s) \<and> ver_id v = vid \<and> ver_documentId v = i \<and> find_file s (ver_storedFileId v) = Some f \<and>
    sf_purgedAt f = None \<and> latest_scan s (sf_id f) = Some ScanClean"
  using assms by (auto simp: cleanVersion_def dest!: find_first_Some split: option.splits if_splits)

lemma decide_Inr:
  assumes "decide E V C stamp s req i rid body = (s', Inr (st, h, b))"
  obtains r entry v f es where "open_request s i rid = Some r"
    "pending_entry s rid (toLowerCase (rq_username req)) = Some entry" "cleanVersion s i (sr_versionId r) = Inr (v, f)"
    "h = evidenceHash E (decision_evidence E req i rid (v, f) (sn_decision body))"
    "st = decided_status (sn_decision body)" "sn_decision body = SIGN \<longrightarrow> sn_consent body"
    "claim (\<lambda>e. se_id e = se_id entry \<and> entry_open e)
       (decide_entry \<lparr>ed_status = st, ed_at = now E, ed_comment = trimmed (sn_comment body), ed_ip = ip_text req, ed_hash = h,
          ed_stamp = stamp_evidence V C stamp s h\<rparr>) (entries s) = Some es"
    "entries s' = es"
    "signatures s' = close_request rid (request_status st (count_rows (\<lambda>e. se_requestId e = rid \<and> entry_open e) es)) (now E) (signatures s)"
proof -
  from assms obtain d r entry v f where
    *: "open_request s i rid = Some r" "pending_entry s rid (toLowerCase (rq_username req)) = Some entry"
      "cleanVersion s i (sr_versionId r) = Inr (v, f)" "sn_decision body = SIGN \<longrightarrow> sn_consent body"
    and dc: "decide_commit E s req i r entry (v, f)
       \<lparr>ed_status = decided_status (sn_decision body), ed_at = now E, ed_comment = trimmed (sn_comment body), ed_ip = ip_text req,
        ed_hash = evidenceHash E (decision_evidence E req i rid (v, f) (sn_decision body)),
        ed_stamp = stamp_evidence V C stamp s (evidenceHash E (decision_evidence E req i rid (v, f) (sn_decision body)))\<rparr> =
       (s', Inr (st, h, b))"
    by (auto simp: decide_def decide_read_def Let_def split: sum.splits option.splits if_splits)
  moreover have "sr_id r = rid" using *(1) by (auto simp: open_request_def dest: find_first_Some)
  ultimately show thesis
    by (intro that [OF *(1-3) _ _ *(4)]) (auto simp: decide_commit_def Let_def split: option.splits)
qed

lemma decide_commit_Inl: "snd (decide_commit E s req i r entry vf a) = Inl e \<Longrightarrow> fst (decide_commit E s req i r entry vf a) = s"
  by (simp add: decide_commit_def Let_def split: option.splits)

lemma decide_Inl:
  assumes "snd (decide E V C stamp s req i rid body) = Inl e"
  shows "fst (decide E V C stamp s req i rid body) = s"
proof (cases "decide_read E V C stamp s req i rid body")
  case (Inr x)
  then show ?thesis using assms decide_commit_Inl by (cases x rule: prod_cases4) (simp add: decide_def)
qed (simp add: decide_def)

text \<open>C14: a recorded signature is bound to what was signed. A successful decision writes, on the caller's own
  pending entry of an open request, the digest of the request, the document, the version, the digest
  of its file, the signer, the decision, the time and the address; signing takes explicit consent, and
  the version is one of this document whose file is kept and free of viruses. The digested text is the
  canonical JSON object of exactly these eight fields, and a different value of any of them gives a
  different text.\<close>

theorem signature_evidence_binding:
  assumes "decide E V C stamp s req i rid body = (s', Inr (st, h, b))"
  shows "\<exists>r v f. open_request s i rid = Some r \<and> cleanVersion s i (sr_versionId r) = Inr (v, f) \<and>
    (sn_decision body = SIGN \<longrightarrow> sn_consent body) \<and>
    (\<exists>e\<in>set (entries s'). se_requestId e = rid \<and> se_signer e = toLowerCase (rq_username req) \<and> se_status e = st \<and>
       se_decidedAt e = Some (now E) \<and> se_evidenceHash e = Some h) \<and>
    h = sha256 E (stable_entries
       [(''requestId'', rid), (''documentId'', i), (''versionId'', ver_id v), (''fileSha256'', sf_sha256 f),
        (''signer'', toLowerCase (rq_username req)), (''status'', status_text st),
        (''decidedAt'', toISOString (now E)), (''ipAddress'', ip_text req)]) \<and>
    (\<forall>rid' i' vid' sha' signer' st' t' ip'. stable_entries
       [(''requestId'', rid'), (''documentId'', i'), (''versionId'', vid'), (''fileSha256'', sha'),
        (''signer'', signer'), (''status'', status_text st'), (''decidedAt'', toISOString t'), (''ipAddress'', ip')] =
      stable_entries
       [(''requestId'', rid), (''documentId'', i), (''versionId'', ver_id v), (''fileSha256'', sf_sha256 f),
        (''signer'', toLowerCase (rq_username req)), (''status'', status_text st),
        (''decidedAt'', toISOString (now E)), (''ipAddress'', ip_text req)] \<longrightarrow>
      rid' = rid \<and> i' = i \<and> vid' = ver_id v \<and> sha' = sf_sha256 f \<and> signer' = toLowerCase (rq_username req) \<and>
      st' = st \<and> toISOString t' = toISOString (now E) \<and> ip' = ip_text req)"
proof -
  from assms obtain r entry v f es where *: "open_request s i rid = Some r"
    "pending_entry s rid (toLowerCase (rq_username req)) = Some entry" "cleanVersion s i (sr_versionId r) = Inr (v, f)"
    "h = evidenceHash E (decision_evidence E req i rid (v, f) (sn_decision body))"
    "st = decided_status (sn_decision body)" "sn_decision body = SIGN \<longrightarrow> sn_consent body"
    "claim (\<lambda>e. se_id e = se_id entry \<and> entry_open e)
       (decide_entry \<lparr>ed_status = st, ed_at = now E, ed_comment = trimmed (sn_comment body), ed_ip = ip_text req, ed_hash = h,
          ed_stamp = stamp_evidence V C stamp s h\<rparr>) (entries s) = Some es" "entries s' = es"
    by (rule decide_Inr) (rule that, assumption+)
  let ?a = "\<lparr>ed_status = st, ed_at = now E, ed_comment = trimmed (sn_comment body), ed_ip = ip_text req, ed_hash = h,
          ed_stamp = stamp_evidence V C stamp s h\<rparr>"
  have entry: "entry \<in> set (entries s)" "se_requestId entry = rid" "se_signer entry = toLowerCase (rq_username req)" "entry_open entry"
    using *(2) by (auto simp: pending_entry_def entries_of_def entry_open_def dest!: find_first_Some)
  then have "decide_entry ?a entry \<in> set (entries s')"
    using *(7,8) by (auto simp: claim_Some_iff set_update_rows intro!: rev_image_eqI)
  then have "\<exists>e\<in>set (entries s'). se_requestId e = rid \<and> se_signer e = toLowerCase (rq_username req) \<and> se_status e = st \<and>
       se_decidedAt e = Some (now E) \<and> se_evidenceHash e = Some h"
    using entry by (intro bexI [of _ "decide_entry ?a entry"]) simp_all
  moreover have "h = sha256 E (stable_entries
       [(''requestId'', rid), (''documentId'', i), (''versionId'', ver_id v), (''fileSha256'', sf_sha256 f),
        (''signer'', toLowerCase (rq_username req)), (''status'', status_text st),
        (''decidedAt'', toISOString (now E)), (''ipAddress'', ip_text req)])"
    by (simp add: *(4,5) evidenceHash_def decision_evidence_def)
  ultimately show ?thesis
    using *(1,3,6) by (intro exI [of _ r] exI [of _ v] exI [of _ f]) (auto dest!: evidence_fields_inj status_text_inj)
qed

section \<open>The state of a request\<close>

text \<open>What the status of a request says about its entries. Of a cancelled request nothing is known, since a
  cancellation may arrive after the last decision.\<close>

fun status_fits :: "signature_status \<Rightarrow> entry_status set \<Rightarrow> bool" where
  "status_fits SrOpen sts = (SePending \<in> sts \<and> SeDeclined \<notin> sts)"
| "status_fits SrCompleted sts = (SePending \<notin> sts \<and> SeSigned \<in> sts)"
| "status_fits SrDeclined sts = (SeDeclined \<in> sts)"
| "status_fits SrCancelled sts = True"

abbreviation statuses_of :: "entry_row list \<Rightarrow> string \<Rightarrow> entry_status set" where
  "statuses_of es rid \<equiv> se_status ` {e \<in> set es. se_requestId e = rid}"

definition signatures_ok :: "signature_row list \<Rightarrow> entry_row list \<Rightarrow> bool" where
  "signatures_ok rs es \<longleftrightarrow>
     distinct (map sr_id rs) \<and> distinct (map se_id es) \<and>
     (\<forall>r\<in>set rs. status_fits (sr_status r) (statuses_of es (sr_id r)))"

text \<open>A call that has read and not yet written.\<close>

datatype signature_call =
  Deciding request string signature_row entry_row "version_row \<times> file_row" entry_decision
| Cancelling request string string

text \<open>New identifiers are unused: those of the request and of its entries, also among the calls under way.\<close>

definition unused_ids :: "env \<Rightarrow> db \<Rightarrow> bool" where
  "unused_ids E s \<longleftrightarrow>
     inj (uuid E) \<and> (\<forall>n\<ge>uuid_next s. uuid E n \<notin> sr_id ` set (signatures s) \<union> se_id ` set (entries s) \<union>
       se_requestId ` set (entries s))"

definition unused_by_calls :: "env \<Rightarrow> db \<Rightarrow> signature_call set \<Rightarrow> bool" where
  "unused_by_calls E s F \<longleftrightarrow>
     (\<forall>req i r entry vf a n. Deciding req i r entry vf a \<in> F \<longrightarrow> uuid_next s \<le> n \<longrightarrow> uuid E n \<noteq> se_id entry)"

text \<open>The states reached, with the calls under way. A decision and a cancellation read in one state and write in
  a later one; between the two anything else may happen, other decisions and cancellations of the same request
  included. Requests disappear with their document. What a transaction does is done at once.\<close>

inductive signature_run :: "db \<Rightarrow> signature_call set \<Rightarrow> bool" where
  start: "signatures s = [] \<Longrightarrow> entries s = [] \<Longrightarrow> signature_run s {}"
| other: "signature_run s F \<Longrightarrow> signatures s' = signatures s \<Longrightarrow> entries s' = entries s \<Longrightarrow> signature_run s' F"
| request: "signature_run s F \<Longrightarrow> unused_ids E s \<Longrightarrow> unused_by_calls E s F \<Longrightarrow>
    signature_run (fst (requestSignatures E s req i body)) F"
| decide_reads: "signature_run s F \<Longrightarrow> decide_read E V C stamp s req i rid body = Inr (r, entry, vf, a) \<Longrightarrow>
    signature_run s (insert (Deciding req i r entry vf a) F)"
| decide_writes: "signature_run s F \<Longrightarrow> Deciding req i r entry vf a \<in> F \<Longrightarrow>
    signature_run (fst (decide_commit E s req i r entry vf a)) (F - {Deciding req i r entry vf a})"
| cancel_reads: "signature_run s F \<Longrightarrow> cancel_read E s req i rid = Inr () \<Longrightarrow>
    signature_run s (insert (Cancelling req i rid) F)"
| cancel_writes: "signature_run s F \<Longrightarrow> Cancelling req i rid \<in> F \<Longrightarrow>
    signature_run (fst (cancel_commit E s req i rid)) (F - {Cancelling req i rid})"
| document_removed: "signature_run s F \<Longrightarrow> signatures s' = delete_rows (\<lambda>r. sr_documentId r = i) (signatures s) \<Longrightarrow>
    entries s' = delete_rows (\<lambda>e. se_requestId e \<in> set (map sr_id (filter (\<lambda>r. sr_documentId r = i) (signatures s)))) (entries s) \<Longrightarrow>
    signature_run s' F"

lemma new_entry_simps [simp]:
  "se_id (new_entry E s ps) = uuid E (Suc (uuid_next s) + fst ps)" "se_requestId (new_entry E s ps) = uuid E (uuid_next s)"
  "se_status (new_entry E s ps) = SePending"
  by (simp_all add: new_entry_def)

lemma signatures_ok_request:
  assumes ok: "signatures_ok (signatures s) (entries s)" and un: "unused_ids E s" and ne: "signers \<noteq> []"
  shows "signatures_ok (signatures s @ [new_request E s req i body]) (entries s @ map (new_entry E s) (enumerate 0 signers))"
proof -
  let ?new = "map (new_entry E s) (enumerate 0 signers)"
  have ids: "map se_id ?new = map (\<lambda>n. uuid E (Suc (uuid_next s) + n)) [0..<length signers]"
    by (rule nth_equalityI) (simp_all add: nth_enumerate_eq)
  have "inj (\<lambda>n. uuid E (Suc (uuid_next s) + n))" using un by (auto simp: unused_ids_def intro!: injI dest: injD)
  then have "distinct (map se_id ?new)" unfolding ids by (auto simp: distinct_map intro: inj_on_subset)
  moreover have "uuid E (Suc (uuid_next s + n)) \<notin> se_id ` set (entries s)" for n using un by (simp add: unused_ids_def)
  then have "set (map se_id ?new) \<inter> set (map se_id (entries s)) = {}"
    unfolding ids by (auto simp: image_iff)
  ultimately have d: "distinct (map se_id (entries s @ ?new))" using ok by (auto simp: signatures_ok_def)
  have sr: "sr_id (new_request E s req i body) = uuid E (uuid_next s)" "sr_status (new_request E s req i body) = SrOpen"
    by (simp_all add: new_request_def)
  have fresh: "\<forall>r\<in>set (signatures s). sr_id r \<noteq> uuid E (uuid_next s)" "\<forall>e\<in>set (entries s). se_requestId e \<noteq> uuid E (uuid_next s)"
    using un unfolding unused_ids_def by (metis UnCI image_eqI order_refl)+
  have own: "statuses_of (entries s @ ?new) (uuid E (uuid_next s)) = {SePending}"
  proof -
    have "{e \<in> set (entries s @ ?new). se_requestId e = uuid E (uuid_next s)} = set ?new" using fresh by auto
    then have "statuses_of (entries s @ ?new) (uuid E (uuid_next s)) = (\<lambda>p. SePending) ` set (enumerate 0 signers)"
      by (simp only:) (simp add: image_image)
    then show ?thesis using ne by (cases signers) auto
  qed
  have old: "statuses_of (entries s @ ?new) (sr_id r) = statuses_of (entries s) (sr_id r)" if "r \<in> set (signatures s)" for r
    using that fresh by auto
  show ?thesis using ok d fresh own old sr by (auto simp: signatures_ok_def)
qed

lemma statuses_decided:
  assumes dist: "distinct (map se_id es)" and entry: "entry \<in> set es" "entry_open entry"
    and cl: "claim (\<lambda>e. se_id e = se_id entry \<and> entry_open e) (decide_entry a) es = Some es'"
  shows "statuses_of es' k =
    (if k = se_requestId entry then insert (ed_status a) (se_status ` {e \<in> set es. se_requestId e = k \<and> e \<noteq> entry})
     else statuses_of es k)"
proof -
  have hit: "e \<in> set es \<Longrightarrow> se_id e = se_id entry \<and> entry_open e \<longleftrightarrow> e = entry" for e
    using key_unique [OF dist _ entry(1)] entry(2) by auto
  have es': "es' = map (\<lambda>e. if e = entry then decide_entry a entry else e) es"
    using cl hit by (auto simp: claim_Some_iff update_rows_def)
  have "{e \<in> set es'. se_requestId e = k} =
      (if k = se_requestId entry then insert (decide_entry a entry) {e \<in> set es. se_requestId e = k \<and> e \<noteq> entry}
       else {e \<in> set es. se_requestId e = k})"
    unfolding es' using entry(1) by (auto split: if_splits)
  then show ?thesis by simp
qed

lemma close_request_ids [simp]: "map sr_id (close_request rid st t rows) = map sr_id rows"
  by (auto simp: close_request_def intro: map_update_rows)

lemma close_request_origin:
  assumes "r \<in> set (close_request rid st t rows)"
  obtains x where "x \<in> set rows" "sr_id r = sr_id x" "sr_status r = (if sr_id x = rid \<and> st \<noteq> SrOpen then st else sr_status x)"
proof (cases "st = SrOpen")
  case True
  with assms show ?thesis by (intro that [of r]) (auto simp: close_request_def)
next
  case False
  with assms obtain x where "x \<in> set rows" "r = (if sr_id x = rid then x\<lparr>sr_status := st, sr_completedAt := Some t\<rparr> else x)"
    unfolding close_request_def by (auto elim: update_rows_origin)
  with False show ?thesis by (intro that [of x]) auto
qed

lemma close_request_hit:
  "r \<in> set rows \<Longrightarrow> st \<noteq> SrOpen \<Longrightarrow> r\<lparr>sr_status := st, sr_completedAt := Some t\<rparr> \<in> set (close_request (sr_id r) st t rows)"
  by (force simp: close_request_def set_update_rows)

lemma open_request_Some:
  "open_request s i rid = Some r \<Longrightarrow> r \<in> set (signatures s) \<and> sr_id r = rid \<and> sr_documentId r = i \<and> sr_status r = SrOpen"
  by (auto simp: open_request_def dest: find_first_Some)

lemma pending_entry_Some:
  "pending_entry s rid me = Some e \<Longrightarrow> e \<in> set (entries s) \<and> se_requestId e = rid \<and> se_signer e = me \<and> entry_open e"
  by (auto simp: pending_entry_def entries_of_def entry_open_def dest!: find_first_Some)

lemma decided_fits:
  assumes "status_fits x (insert SePending rest)" and "a \<noteq> SePending"
    and "n = 0 \<longleftrightarrow> SePending \<notin> insert a rest"
  shows "status_fits (if request_status a n = SrOpen then x else request_status a n) (insert a rest)"
  using assms by (cases a; cases x) (auto simp: request_status_def)

lemma signatures_ok_decide:
  assumes ok: "signatures_ok rs es" and entry: "entry \<in> set es" "entry_open entry" and a: "ed_status a \<noteq> SePending"
    and cl: "claim (\<lambda>e. se_id e = se_id entry \<and> entry_open e) (decide_entry a) es = Some es'"
    and k: "k = se_requestId entry"
  shows "signatures_ok (close_request k (request_status (ed_status a)
    (count_rows (\<lambda>e. se_requestId e = k \<and> entry_open e) es')) t rs) es'"
proof -
  let ?n = "count_rows (\<lambda>e. se_requestId e = k \<and> entry_open e) es'"
  let ?st = "request_status (ed_status a) ?n"
  let ?rest = "se_status ` {e \<in> set es. se_requestId e = k \<and> e \<noteq> entry}"
  have dist: "distinct (map se_id es)" "distinct (map sr_id rs)" using ok by (simp_all add: signatures_ok_def)
  note st = statuses_decided [OF dist(1) entry(1,2) cl]
  have own: "statuses_of es' k = insert (ed_status a) ?rest" using st [of k] k by simp
  have "{e \<in> set es. se_requestId e = k} = insert entry {e \<in> set es. se_requestId e = k \<and> e \<noteq> entry}"
    using entry k by auto
  then have before: "statuses_of es k = insert SePending ?rest" using entry(2) by (simp add: entry_open_def)
  have n: "?n = 0 \<longleftrightarrow> SePending \<notin> insert (ed_status a) ?rest"
    unfolding own [symmetric] count_rows_0_iff entry_open_def image_iff by auto
  have "status_fits (sr_status q) (statuses_of es' (sr_id q))" if "q \<in> set (close_request k ?st t rs)" for q
  proof -
    from that obtain x where x: "x \<in> set rs" "sr_id q = sr_id x" "sr_status q = (if sr_id x = k \<and> ?st \<noteq> SrOpen then ?st else sr_status x)"
      by (rule close_request_origin)
    have fits: "status_fits (sr_status x) (statuses_of es (sr_id x))" using ok x(1) by (simp add: signatures_ok_def)
    show ?thesis
    proof (cases "sr_id x = k")
      case True
      then have "status_fits (sr_status x) (insert SePending ?rest)" using fits before by simp
      from decided_fits [OF this a n] show ?thesis using x(2,3) True own by (simp split: if_splits)
    next
      case False
      then show ?thesis using x fits st [of "sr_id x"] k by auto
    qed
  qed
  moreover have "map se_id es' = map se_id es" using signing.claim_keeps_keys [OF cl] .
  ultimately show ?thesis using dist by (simp add: signatures_ok_def)
qed

lemma signatures_ok_cancel:
  assumes ok: "signatures_ok rs es"
  shows "signatures_ok (close_request k SrCancelled t rs) es"
proof -
  have "status_fits (sr_status q) (statuses_of es (sr_id q))" if "q \<in> set (close_request k SrCancelled t rs)" for q
  proof -
    from that obtain x where x: "x \<in> set rs" "sr_id q = sr_id x" "sr_status q = (if sr_id x = k \<and> SrCancelled \<noteq> SrOpen then SrCancelled else sr_status x)"
      by (rule close_request_origin)
    moreover have "status_fits (sr_status x) (statuses_of es (sr_id x))" using ok x(1) by (simp add: signatures_ok_def)
    ultimately show ?thesis by (cases "sr_id x = k") auto
  qed
  then show ?thesis using ok by (simp add: signatures_ok_def)
qed

lemma signatures_ok_removed:
  assumes ok: "signatures_ok rs es"
  shows "signatures_ok (delete_rows (\<lambda>r. sr_documentId r = i) rs)
    (delete_rows (\<lambda>e. se_requestId e \<in> set (map sr_id (filter (\<lambda>r. sr_documentId r = i) rs))) es)"
    (is "signatures_ok ?rs ?es")
proof -
  have kept: "k \<notin> X \<Longrightarrow> {e \<in> {x \<in> A. se_requestId x \<notin> X}. se_requestId e = k} = {e \<in> A. se_requestId e = k}" for k X A
    by auto
  have "statuses_of ?es (sr_id r) = statuses_of es (sr_id r)" if "r \<in> set rs" "sr_documentId r \<noteq> i" for r
  proof -
    have "sr_id r \<notin> set (map sr_id (filter (\<lambda>r. sr_documentId r = i) rs))"
      using that ok key_unique [of sr_id rs r] by (auto simp: signatures_ok_def)
    then have "{e \<in> set ?es. se_requestId e = sr_id r} = {e \<in> set es. se_requestId e = sr_id r}"
      unfolding set_delete_rows by (rule kept)
    then show ?thesis by simp
  qed
  with ok show ?thesis by (auto simp: signatures_ok_def delete_rows_def distinct_map_filter)
qed

text \<open>A decision under way is no request for another entry, and it decides.\<close>

definition calls_ok :: "signature_call set \<Rightarrow> entry_row list \<Rightarrow> bool" where
  "calls_ok F es \<longleftrightarrow>
     (\<forall>req i r entry vf a. Deciding req i r entry vf a \<in> F \<longrightarrow>
        ed_status a \<noteq> SePending \<and> (\<forall>e\<in>set es. se_id e = se_id entry \<longrightarrow> se_requestId e = sr_id r))"

lemma calls_okD:
  "calls_ok F es \<Longrightarrow> Deciding req i r entry vf a \<in> F \<Longrightarrow>
     ed_status a \<noteq> SePending \<and> (\<forall>e\<in>set es. se_id e = se_id entry \<longrightarrow> se_requestId e = sr_id r)"
  unfolding calls_ok_def by blast

lemma calls_ok_mono:
  assumes "calls_ok F es" and "F' \<subseteq> F" and "\<And>e. e \<in> set es' \<Longrightarrow> \<exists>x\<in>set es. se_id e = se_id x \<and> se_requestId e = se_requestId x"
  shows "calls_ok F' es'"
  using assms unfolding calls_ok_def by (metis in_mono)

lemma calls_ok_request:
  assumes "calls_ok F (entries s)" and "unused_by_calls E s F"
  shows "calls_ok F (entries s @ map (new_entry E s) ps)"
proof -
  have "se_id (new_entry E s p) \<noteq> se_id entry" if "Deciding req i r entry vf a \<in> F" for req i r entry vf a p
    using assms(2) [unfolded unused_by_calls_def, rule_format, OF that, of "Suc (uuid_next s) + fst p"] by simp
  then show ?thesis using assms(1) unfolding calls_ok_def by (auto simp del: new_entry_simps)
qed

lemma decide_read_Inr:
  assumes "decide_read E V C stamp s req i rid body = Inr (r, entry, vf, a)"
  shows "open_request s i rid = Some r" and "pending_entry s rid (toLowerCase (rq_username req)) = Some entry"
    and "ed_status a = decided_status (sn_decision body)"
  using assms by (auto simp: decide_read_def Let_def split: sum.splits option.splits if_splits)

lemma decide_commit_tables:
  assumes "fst (decide_commit E s req i r entry vf a) \<noteq> s"
  obtains es where "claim (\<lambda>e. se_id e = se_id entry \<and> entry_open e) (decide_entry a) (entries s) = Some es"
    and "entries (fst (decide_commit E s req i r entry vf a)) = es"
    and "signatures (fst (decide_commit E s req i r entry vf a)) =
      close_request (sr_id r) (request_status (ed_status a) (count_rows (\<lambda>e. se_requestId e = sr_id r \<and> entry_open e) es))
        (ed_at a) (signatures s)"
  using assms by (auto simp: decide_commit_def Let_def split: option.splits)

lemma signature_invariant:
  "signature_run s F \<Longrightarrow> signatures_ok (signatures s) (entries s) \<and> calls_ok F (entries s)"
proof (induction rule: signature_run.induct)
  case (start s)
  then show ?case by (simp add: signatures_ok_def calls_ok_def)
next
  case (other s F s')
  then show ?case by simp
next
  case (request s F E req i body)
  then show ?case
    using signatures_ok_request [of s E "request_signers body" req i body]
      calls_ok_request [of F s E "enumerate 0 (request_signers body)"]
    by (auto simp: requestSignatures_def Let_def split: sum.split)
next
  case (decide_reads s F E V C stamp req i rid body r entry vf a)
  note read = decide_read_Inr [OF decide_reads.hyps(2)]
  have "se_requestId e = sr_id r" if "e \<in> set (entries s)" "se_id e = se_id entry" for e
    using that key_unique [of se_id "entries s" e entry] decide_reads.IH open_request_Some [OF read(1)]
      pending_entry_Some [OF read(2)] by (auto simp: signatures_ok_def)
  moreover have "ed_status a \<noteq> SePending" using read(3) by (simp add: decided_status_def)
  ultimately show ?case using decide_reads.IH by (auto simp: calls_ok_def)
next
  case (decide_writes s F req i r entry vf a E)
  let ?s = "fst (decide_commit E s req i r entry vf a)"
  show ?case
  proof (cases "?s = s")
    case True
    have "calls_ok (F - {Deciding req i r entry vf a}) (entries s)"
      by (rule calls_ok_mono [OF conjunct2 [OF decide_writes.IH]]) auto
    with True decide_writes.IH show ?thesis by simp
  next
    case False
    then obtain es where es: "claim (\<lambda>e. se_id e = se_id entry \<and> entry_open e) (decide_entry a) (entries s) = Some es"
      "entries ?s = es" "signatures ?s = close_request (sr_id r) (request_status (ed_status a)
         (count_rows (\<lambda>e. se_requestId e = sr_id r \<and> entry_open e) es)) (ed_at a) (signatures s)"
      by (rule decide_commit_tables)
    obtain x where x: "x \<in> set (entries s)" "se_id x = se_id entry" "entry_open x"
      using claim_row [OF es(1)] by blast
    note call = calls_okD [OF conjunct2 [OF decide_writes.IH] decide_writes.hyps(2)]
    have "signatures_ok (signatures ?s) (entries ?s)"
      unfolding es(2,3)
      by (rule signatures_ok_decide [OF _ x(1,3), of "signatures s" a]) (use decide_writes.IH call x es(1) in auto)
    moreover have "calls_ok (F - {Deciding req i r entry vf a}) (entries ?s)"
    proof (rule calls_ok_mono [OF conjunct2 [OF decide_writes.IH]])
      fix e
      assume "e \<in> set (entries ?s)"
      with claim_origin [OF es(1)] es(2) obtain y where "y \<in> set (entries s)"
        "e = (if se_id y = se_id entry \<and> entry_open y then decide_entry a y else y)" by blast
      then show "\<exists>x\<in>set (entries s). se_id e = se_id x \<and> se_requestId e = se_requestId x"
        by (intro bexI [of _ y]) simp_all
    qed blast
    ultimately show ?thesis ..
  qed
next
  case (cancel_reads s F E req i rid)
  then show ?case by (auto simp: calls_ok_def)
next
  case (cancel_writes s F req i rid E)
  have "calls_ok (F - {Cancelling req i rid}) (entries s)"
    by (rule calls_ok_mono [OF conjunct2 [OF cancel_writes.IH]]) auto
  with cancel_writes.IH signatures_ok_cancel [of "signatures s" "entries s" rid "now E"] show ?case
    by (simp add: cancel_commit_def)
next
  case (document_removed s F s' i)
  have "calls_ok F (entries s')"
    by (rule calls_ok_mono [OF conjunct2 [OF document_removed.IH]]) (auto simp: document_removed.hyps(3) set_delete_rows)
  with document_removed signatures_ok_removed [of "signatures s" "entries s" i] show ?case by simp
qed

text \<open>C31: what the status of a request tells of its signers. In every state that is reached, decisions and
  cancellations overtaking one another between their reading and their transaction included: an open request
  has a signer who did not decide and none who declined; of a completed one every signer decided and one
  signed; of a declined one a signer declined.\<close>

theorem request_status_truthful:
  assumes "signature_run s F" and "r \<in> set (signatures s)"
  shows "(sr_status r = SrOpen \<longrightarrow> (\<exists>e\<in>set (entries_of s (sr_id r)). se_status e = SePending) \<and>
      (\<forall>e\<in>set (entries_of s (sr_id r)). se_status e \<noteq> SeDeclined)) \<and>
    (sr_status r = SrCompleted \<longrightarrow> (\<forall>e\<in>set (entries_of s (sr_id r)). se_status e \<noteq> SePending) \<and>
      (\<exists>e\<in>set (entries_of s (sr_id r)). se_status e = SeSigned)) \<and>
    (sr_status r = SrDeclined \<longrightarrow> (\<exists>e\<in>set (entries_of s (sr_id r)). se_status e = SeDeclined))"
proof -
  let ?S = "statuses_of (entries s) (sr_id r)"
  have "status_fits (sr_status r) ?S" using signature_invariant [OF assms(1)] assms(2) by (simp add: signatures_ok_def)
  moreover have "(\<exists>e\<in>set (entries_of s (sr_id r)). se_status e = x) \<longleftrightarrow> x \<in> ?S"
    "(\<forall>e\<in>set (entries_of s (sr_id r)). se_status e \<noteq> x) \<longleftrightarrow> x \<notin> ?S" for x
    by (auto simp: entries_of_def)
  ultimately show ?thesis by (cases "sr_status r") auto
qed

lemma decide_commit_claims:
  assumes "distinct (map se_id (entries s))" and "x \<in> set (entries s)" and "se_id x = se_id entry" and "entry_open x"
  shows "\<exists>s' y. decide_commit E s req i r entry vf a = (s', Inr y) \<and>
    entries s' = update_rows (\<lambda>e. se_id e = se_id entry \<and> entry_open e) (decide_entry a) (entries s) \<and>
    signatures s' = close_request (sr_id r) (request_status (ed_status a)
       (count_rows (\<lambda>e. se_requestId e = sr_id r \<and> entry_open e) (entries s'))) (ed_at a) (signatures s)"
proof -
  have "count_rows (\<lambda>e. se_id e = se_id entry \<and> entry_open e) (entries s) = 1"
    using count_rows_key_le_1 [OF assms(1), of "se_id entry" entry_open] count_rows_key_pos [OF assms(1,2), of entry_open] assms(3,4)
    by simp
  then have c: "claim (\<lambda>e. se_id e = se_id entry \<and> entry_open e) (decide_entry a) (entries s) =
      Some (update_rows (\<lambda>e. se_id e = se_id entry \<and> entry_open e) (decide_entry a) (entries s))" by (simp add: claim_def)
  let ?d = "decide_commit E s req i r entry vf a"
  have "entries (fst ?d) = update_rows (\<lambda>e. se_id e = se_id entry \<and> entry_open e) (decide_entry a) (entries s)"
    and "signatures (fst ?d) = close_request (sr_id r) (request_status (ed_status a)
       (count_rows (\<lambda>e. se_requestId e = sr_id r \<and> entry_open e) (entries (fst ?d)))) (ed_at a) (signatures s)"
    and "?d = (fst ?d, Inr (ed_status a, ed_hash a, ed_stamp a \<noteq> None))"
    unfolding decide_commit_def c by (simp_all add: Let_def)
  then show ?thesis by blast
qed

text \<open>A cancelled request can still be decided by a signer whose decision was being processed. The decision
  reads the request before the transaction, and the transaction checks the entry only: when the
  cancellation is committed in between, the decision is accepted and the request is no longer
  cancelled.\<close>

theorem decision_overrides_cancel:
  assumes "signature_run s F" and "open_request s i rid = Some r" and "pending_entry s rid me = Some entry"
    and "cancel E s req i rid = (s1, Inr ())" and "ed_status a = SeDeclined"
  shows "(\<forall>q\<in>set (signatures s1). sr_id q = rid \<longrightarrow> sr_status q = SrCancelled) \<and>
    (\<exists>s2 x. decide_commit E' s1 req' i r entry vf a = (s2, Inr x) \<and>
      (\<exists>q\<in>set (signatures s2). sr_id q = rid \<and> sr_status q = SrDeclined))"
proof -
  note r = open_request_Some [OF assms(2)] and e = pending_entry_Some [OF assms(3)]
  have ok: "distinct (map se_id (entries s))" using signature_invariant [OF assms(1)] by (simp add: signatures_ok_def)
  have s1: "entries s1 = entries s" "signatures s1 = close_request rid SrCancelled (now E) (signatures s)"
    using assms(4) by (auto simp: cancel_def cancel_commit_def split: sum.splits if_splits)
  have "distinct (map se_id (entries s1))" "entry \<in> set (entries s1)" using ok e s1 by simp_all
  then obtain s2 x where c: "decide_commit E' s1 req' i r entry vf a = (s2, Inr x)"
    and s2: "signatures s2 = close_request rid SrDeclined (ed_at a) (signatures s1)"
    using decide_commit_claims [of s1 entry entry E' req' i r vf a] r assms(5) e by (auto simp: request_status_def)
  have "r\<lparr>sr_status := SrCancelled, sr_completedAt := Some (now E)\<rparr> \<in> set (signatures s1)"
    unfolding s1 using close_request_hit [of r "signatures s"] r by simp
  from close_request_hit [OF this, of SrDeclined "ed_at a"]
  have "r\<lparr>sr_status := SrDeclined, sr_completedAt := Some (ed_at a)\<rparr> \<in> set (signatures s2)"
    unfolding s2 using r by simp
  moreover have "\<forall>q\<in>set (signatures s1). sr_id q = rid \<longrightarrow> sr_status q = SrCancelled"
    unfolding s1 by (auto elim!: close_request_origin)
  moreover have "sr_id (r\<lparr>sr_status := SrDeclined, sr_completedAt := Some (ed_at a)\<rparr>) = rid" using r by simp
  ultimately show ?thesis using c
    by (intro conjI exI [of _ s2] exI [of _ x] bexI [of _ "r\<lparr>sr_status := SrDeclined, sr_completedAt := Some (ed_at a)\<rparr>"]) simp_all
qed

text \<open>A refusal can be lost in the same way. Two signers remain; both decisions have read the request, one
  declines and is committed, the other signs and is committed next. The request ends as completed, although one
  of its signers declined.\<close>

theorem stale_signature_completes:
  assumes "signature_run s F" and "open_request s i rid = Some r"
    and "pending_entry s rid me = Some d" and "pending_entry s rid you = Some g" and "me \<noteq> you"
    and "\<forall>e\<in>set (entries s). se_requestId e = rid \<and> entry_open e \<longrightarrow> se_id e \<in> {se_id d, se_id g}"
    and "ed_status a = SeDeclined" and "ed_status b = SeSigned"
  shows "\<exists>s1 s2 x y. decide_commit E s req i r d vf a = (s1, Inr x) \<and> decide_commit E' s1 req' i r g vf b = (s2, Inr y) \<and>
    (\<forall>q\<in>set (signatures s2). sr_id q = rid \<longrightarrow> sr_status q = SrCompleted) \<and>
    (\<exists>e\<in>set (entries_of s2 rid). se_signer e = me \<and> se_status e = SeDeclined)"
proof -
  note r = open_request_Some [OF assms(2)] and d = pending_entry_Some [OF assms(3)] and g = pending_entry_Some [OF assms(4)]
  have ok: "distinct (map se_id (entries s))" using signature_invariant [OF assms(1)] by (simp add: signatures_ok_def)
  have ne: "se_id g \<noteq> se_id d" using key_unique [OF ok, of g d] d g assms(5) by auto
  obtain s1 x where 1: "decide_commit E s req i r d vf a = (s1, Inr x)"
    "entries s1 = update_rows (\<lambda>e. se_id e = se_id d \<and> entry_open e) (decide_entry a) (entries s)"
    using decide_commit_claims [OF ok, of d d E req i r vf a] d by blast
  have ok1: "distinct (map se_id (entries s1))" unfolding 1(2) using ok by (simp add: map_update_rows)
  have at1: "decide_entry a d \<in> set (entries s1)" "g \<in> set (entries s1)"
    unfolding 1(2) set_update_rows using d g ne by (auto intro!: image_eqI)
  obtain s2 y where 2: "decide_commit E' s1 req' i r g vf b = (s2, Inr y)"
    "entries s2 = update_rows (\<lambda>e. se_id e = se_id g \<and> entry_open e) (decide_entry b) (entries s1)"
    "signatures s2 = close_request (sr_id r) (request_status (ed_status b)
       (count_rows (\<lambda>e. se_requestId e = sr_id r \<and> entry_open e) (entries s2))) (ed_at b) (signatures s1)"
    using decide_commit_claims [OF ok1 at1(2), of g E' req' i r vf b] g by blast
  have none: "\<not> (se_requestId e = rid \<and> entry_open e)" if e: "e \<in> set (entries s2)" for e
  proof -
    from e obtain z where z: "z \<in> set (entries s)"
      "e = (let w = (if se_id z = se_id d \<and> entry_open z then decide_entry a z else z)
            in if se_id w = se_id g \<and> entry_open w then decide_entry b w else w)"
      unfolding 1(2) 2(2) set_update_rows by auto
    with assms(6-8) ne show ?thesis by (auto simp: Let_def entry_open_def split: if_splits)
  qed
  then have "count_rows (\<lambda>e. se_requestId e = sr_id r \<and> entry_open e) (entries s2) = 0"
    using r by (simp add: count_rows_0_iff)
  then have "signatures s2 = close_request rid SrCompleted (ed_at b) (signatures s1)"
    using 2(3) r assms(8) by (simp add: request_status_def)
  then have "\<forall>q\<in>set (signatures s2). sr_id q = rid \<longrightarrow> sr_status q = SrCompleted"
    by (auto elim!: close_request_origin)
  moreover have "decide_entry a d \<in> set (entries s2)"
    unfolding 2(2) set_update_rows using at1(1) ne by (auto intro!: image_eqI [of _ _ "decide_entry a d"])
  then have "\<exists>e\<in>set (entries_of s2 rid). se_signer e = me \<and> se_status e = SeDeclined"
    using d assms(7) by (intro bexI [of _ "decide_entry a d"]) (simp_all add: entries_of_def)
  ultimately show ?thesis using 1(1) 2(1) by blast
qed

section \<open>External links\<close>

interpretation link: claim_once sl_id link_open "\<lambda>_ :: time. True" revoke_link_row
  by unfold_locales (simp_all add: link_open_def revoke_link_row_def)

definition link_ok :: "sharelink_row \<Rightarrow> bool" where
  "link_ok l \<longleftrightarrow> 0 \<le> sl_downloadCount l \<and> null_or (\<lambda>m. sl_downloadCount l \<le> m) (sl_maxDownloads l) \<and>
     sl_expiresAt l \<le> sl_createdAt l + 90 * day_ms"

definition links_ok :: "sharelink_row list \<Rightarrow> bool" where
  "links_ok ls \<longleftrightarrow> distinct (map sl_id ls) \<and> distinct (map sl_tokenHash ls) \<and> (\<forall>l\<in>set ls. link_ok l)"

text \<open>The decorators of the body ask for a positive limit.\<close>

inductive link_reachable :: "db \<Rightarrow> bool" where
  start: "sharelinks s = [] \<Longrightarrow> link_reachable s"
| other: "link_reachable s \<Longrightarrow> sharelinks s' = sharelinks s \<Longrightarrow> link_reachable s'"
| share: "link_reachable s \<Longrightarrow> uuid E (uuid_next s) \<notin> sl_id ` set (sharelinks s) \<Longrightarrow>
    tokenHash E token \<notin> sl_tokenHash ` set (sharelinks s) \<Longrightarrow> null_or (\<lambda>m. 1 \<le> m) (xd_maxDownloads body) \<Longrightarrow>
    link_reachable (fst (share_link E s req i body token))"
| revoke: "link_reachable s \<Longrightarrow> link_reachable (fst (revoke_link E s req i k))"
| download: "link_reachable s \<Longrightarrow> link_reachable (fst (download E ok s req token))"

lemma links_ok_update:
  assumes "links_ok ls" and "\<And>l. sl_id (f l) = sl_id l \<and> sl_tokenHash (f l) = sl_tokenHash l"
    and "\<And>l. l \<in> set ls \<Longrightarrow> p l \<Longrightarrow> link_ok l \<Longrightarrow> link_ok (f l)"
  shows "links_ok (update_rows p f ls)"
proof -
  have "map sl_id (update_rows p f ls) = map sl_id ls" "map sl_tokenHash (update_rows p f ls) = map sl_tokenHash ls"
    using assms(2) by (intro map_update_rows; simp)+
  moreover have "link_ok l" if "l \<in> set (update_rows p f ls)" for l
  proof -
    from that obtain x where x: "x \<in> set ls" "l = (if p x then f x else x)" by (rule update_rows_origin)
    have "link_ok x" using assms(1) x(1) by (simp add: links_ok_def)
    with x assms(3) [OF x(1)] show ?thesis by (cases "p x") simp_all
  qed
  ultimately show ?thesis using assms(1) by (simp add: links_ok_def)
qed

lemma links_ok_consume:
  assumes "links_ok (sharelinks s)"
  shows "links_ok (sharelinks (fst (consume E s l b)))"
proof -
  have "links_ok (update_rows (consumable (sl_id l)) (consume_row (now E)) (sharelinks s))"
    by (rule links_ok_update [OF assms])
      (auto simp: consume_row_def consumable_def downloads_left_def link_ok_def null_or_def split: option.splits)
  with assms show ?thesis by (simp add: consume_def)
qed

lemma download_sharelinks:
  "sharelinks (fst (download E ok s req token)) = sharelinks s \<or>
   (\<exists>l b. sharelinks (fst (download E ok s req token)) = sharelinks (fst (consume E s l b)))"
  by (auto simp: download_def Let_def case_prod_beta split: option.split)

lemma new_link_ok:
  assumes "null_or (\<lambda>m. 1 \<le> m) (xd_maxDownloads body)" and "\<not> exceeds (xd_expiresInDays body) (xs_maxDays (sharingSettings s))"
  shows "link_ok (new_link E s req i body token)"
  using assms(1) sharing_days_bounded [OF assms(2)]
  by (auto simp: link_ok_def new_link_def day_ms_def null_or_def split: option.splits)

lemma link_invariant: "link_reachable s \<Longrightarrow> links_ok (sharelinks s)"
proof (induction rule: link_reachable.induct)
  case (start s)
  then show ?case by (simp add: links_ok_def)
next
  case (other s s')
  then show ?case by simp
next
  case (share s E token body req i)
  show ?case
  proof (cases "sharelinks (fst (share_link E s req i body token)) = sharelinks s")
    case True
    with share.IH show ?thesis by simp
  next
    case False
    then have "sharelinks (fst (share_link E s req i body token)) = sharelinks s @ [new_link E s req i body token]"
      "\<not> exceeds (xd_expiresInDays body) (xs_maxDays (sharingSettings s))"
      by (auto simp: share_link_def Let_def split: sum.splits if_splits prod.splits)
    with share new_link_ok [of body s E req i token] show ?thesis by (auto simp: links_ok_def new_link_def)
  qed
next
  case (revoke s E req i k)
  have "links_ok (update_rows p (revoke_link_row (now E)) (sharelinks s))" for p
    by (rule links_ok_update [OF revoke.IH]) (simp_all add: revoke_link_row_def link_ok_def)
  with revoke.IH show ?case by (auto simp: revoke_link_def claim_def split: sum.split option.split)
next
  case (download s E ok req token)
  from download_sharelinks [of E ok s req token] links_ok_consume [OF download.IH] download.IH show ?case by metis
qed

text \<open>An external link is bounded in number and in time. In every reachable state no link was used more
  often than its limit, and none lives longer than ninety days, whatever maximum is stored.\<close>

theorem links_bounded:
  assumes "link_reachable s" and "l \<in> set (sharelinks s)"
  shows "0 \<le> sl_downloadCount l \<and> null_or (\<lambda>m. sl_downloadCount l \<le> m) (sl_maxDownloads l) \<and>
    sl_expiresAt l \<le> sl_createdAt l + 90 * 86400000"
  using link_invariant [OF assms(1)] assms(2) by (auto simp: links_ok_def link_ok_def day_ms_def)

text \<open>A public download happens exactly when everything allows it. On a known link the file is served, and
  one download of this link and of no other counted, exactly when sharing is on, the link is neither
  revoked nor expired nor used up, the document is published, not deleted and not sensitive, and the
  file is kept, clean and not protected; otherwise the answer is that nothing is there, and no count
  changes. An object that the store does not find is an error after the count.\<close>

theorem download_exact:
  assumes "link_reachable s" and "l \<in> set (sharelinks s)" and "sl_tokenHash l = tokenHash E token" and "token_shape token"
    and "find_first (\<lambda>d. doc_id d = sl_documentId l) (documents s) = Some d"
    and "download E object_ok s req token = (s', r)"
  shows "if link_valid E s l d (version_and_file s (sl_versionId l)) \<and> downloads_left l
    then (\<exists>v f. version_and_file s (sl_versionId l) = Some (v, f) \<and>
            r = (if object_ok (sf_objectKey f) then Inr (served f) else Inl (InternalError ''storage''))) \<and>
         sharelinks s' = update_rows (\<lambda>x. x = l) (consume_row (now E)) (sharelinks s)
    else r = Inl NotFound \<and> sharelinks s' = sharelinks s"
proof -
  have dist: "distinct (map sl_id (sharelinks s))" "distinct (map sl_tokenHash (sharelinks s))"
    using link_invariant [OF assms(1)] by (simp_all add: links_ok_def)
  let ?vf = "version_and_file s (sl_versionId l)"
  have found: "find_first (\<lambda>x. sl_tokenHash x = tokenHash E token) (sharelinks s) = Some l"
    using find_first_key [OF dist(2) assms(2), of "\<lambda>_. True"] assms(3) by simp
  have eq: "x \<in> set (sharelinks s) \<Longrightarrow> sl_id x = sl_id l \<longleftrightarrow> x = l" for x using key_unique [OF dist(1) _ assms(2)] by auto
  have upd: "link_valid E s l d ?vf \<Longrightarrow> downloads_left l \<Longrightarrow>
      update_rows (consumable (sl_id l)) (consume_row (now E)) (sharelinks s) = update_rows (\<lambda>x. x = l) (consume_row (now E)) (sharelinks s)"
    unfolding update_rows_def by (rule map_cong) (auto simp: consumable_def link_valid_def eq)
  have le: "count_rows (consumable (sl_id l)) (sharelinks s) \<le> 1"
    unfolding consumable_def by (rule count_rows_key_le_1 [OF dist(1)])
  have pos: "0 < count_rows (consumable (sl_id l)) (sharelinks s) \<longleftrightarrow> sl_revokedAt l = None \<and> downloads_left l"
    unfolding consumable_def using count_rows_key_pos [OF dist(1) assms(2)] by simp
  have keep: "\<not> (sl_revokedAt l = None \<and> downloads_left l) \<Longrightarrow>
      update_rows (consumable (sl_id l)) (consume_row (now E)) (sharelinks s) = sharelinks s"
    using pos by (intro update_rows_none) (auto simp: count_rows_pos_iff)
  have one: "count_rows (consumable (sl_id l)) (sharelinks s) = (if sl_revokedAt l = None \<and> downloads_left l then 1 else 0)"
    using le pos by auto
  show ?thesis
  proof (cases "link_valid E s l d ?vf")
    case True
    then obtain v f where "?vf = Some (v, f)" "sl_revokedAt l = None" by (auto simp: link_valid_def split: option.splits)
    with True assms(4-6) found show ?thesis
      by (auto simp: download_def Let_def consume_def one upd keep)
  next
    case False
    with assms(4-6) found show ?thesis
      by (auto simp: download_def Let_def consume_def split: option.splits)
  qed
qed

section \<open>Examples\<close>

definition signing_body :: SignatureRequestDto where
  "signing_body = \<lparr>sq_versionId = ''v1'', sq_signers = ['' Ann'', ''ann''], sq_message = None\<rparr>"

definition signing_request :: signature_row where
  "signing_request = \<lparr>sr_id = ''id0'', sr_documentId = ''d1'', sr_versionId = ''v1'', sr_requestedBy = ''bob'', sr_message = None,
     sr_status = SrOpen, sr_createdAt = 1000, sr_completedAt = None\<rparr>"

definition signing_entry :: entry_row where
  "signing_entry = \<lparr>se_id = ''id1'', se_requestId = ''id0'', se_signer = ''ann'', se_position = 0, se_status = SePending,
     se_decidedAt = None, se_comment = None, se_ipAddress = None, se_evidenceHash = None, se_token = None, se_genTime = None\<rparr>"

definition signing_db :: db where
  "signing_db = sample_db\<lparr>signatures := [signing_request], entries := [signing_entry]\<rparr>"

definition no_authority :: tsa_env where
  "no_authority = \<lparr>TSA_URL = None, TSA_USERNAME = None, TSA_PASSWORD = None, TSA_POLICY_OID = None\<rparr>"

definition plain_cipher :: cipher where
  "plain_cipher = \<lparr>encrypt = (\<lambda>p. CHR ''x'' # p), decrypt = (\<lambda>p. Some (tl p))\<rparr>"

lemma unused_sample: "unused_ids sample_env sample_db"
proof -
  have "inj (\<lambda>n. ''id'' @ string_of_nat n)"
    by (intro injI) (metis digits_value_string_of_nat same_append_eq)
  then show ?thesis by (simp add: unused_ids_def sample_env_def sample_db_def empty_db_def)
qed

lemma signing_db_run: "signature_run signing_db {}"
proof -
  have ev: "request_signers signing_body = [''ann'']" "new_request sample_env sample_db (editor ''bob'') ''d1'' signing_body = signing_request"
    "new_entry sample_env sample_db (0, ''ann'') = signing_entry" "cleanVersion sample_db ''d1'' (sq_versionId signing_body) = Inr (sample_version, sample_file)"
    "requireGedFeature sample_db Signatures = Inr ()" by code_simp+
  have "can_on sample_env sample_db (editor ''bob'') sample_document Edit" "requireVisible sample_env sample_db (editor ''bob'') ''d1'' = Inr sample_document"
    using editor_edits [of "''bob''"] by (auto simp: requireEditable_def split: sum.splits if_splits)
  then have "signatures (fst (requestSignatures sample_env sample_db (editor ''bob'') ''d1'' signing_body)) = signatures signing_db"
    "entries (fst (requestSignatures sample_env sample_db (editor ''bob'') ''d1'' signing_body)) = entries signing_db"
    using ev by (simp_all add: requestSignatures_def signature_guard_def Let_def signing_db_def) (simp_all add: sample_db_def empty_db_def)
  moreover have "signature_run sample_db {}" by (rule signature_run.start) (simp_all add: sample_db_def empty_db_def)
  note signature_run.request [OF this unused_sample]
  ultimately show ?thesis by (metis signature_run.other unused_by_calls_def empty_iff)
qed

theorem request_status_truthful_witness:
  "signature_run signing_db {} \<and> sr_status signing_request = SrOpen \<and>
   (\<exists>e\<in>set (entries_of signing_db ''id0''). se_status e = SePending)"
proof -
  have "signing_request \<in> set (signatures signing_db)" "sr_status signing_request = SrOpen" "sr_id signing_request = ''id0''"
    by (simp_all add: signing_db_def signing_request_def)
  with request_status_truthful [OF signing_db_run, of signing_request] signing_db_run show ?thesis by auto
qed

definition consent :: SignatureDecisionDto where
  "consent = \<lparr>sn_decision = SIGN, sn_consent = True, sn_comment = None\<rparr>"

lemma visible_signing: "requireVisible sample_env signing_db (editor n) ''d1'' = Inr sample_document"
proof -
  have "visibleDocument sample_env signing_db (editor []) ''d1'' = Some sample_document" by code_simp
  moreover have "can_on sample_env signing_db (editor n) = can_on sample_env signing_db (editor [])"
    by (intro ext) (simp add: can_on_def editor_def sample_request_def sample_identity_def)
  then have "visibleDocument sample_env signing_db (editor n) ''d1'' = visibleDocument sample_env signing_db (editor []) ''d1''"
    by (simp only: visibleDocument_def)
  ultimately show ?thesis by (simp add: requireVisible_def)
qed

theorem signature_evidence_binding_witness:
  "\<exists>s' h. decide sample_env no_authority plain_cipher (\<lambda>_ _. None) signing_db (editor ''Ann'') ''d1'' ''id0'' consent =
      (s', Inr (SeSigned, h, False)) \<and>
    (\<exists>e\<in>set (entries s'). se_signer e = ''ann'' \<and> se_status e = SeSigned \<and> se_evidenceHash e = Some h)"
proof -
  have ev: "open_request signing_db ''d1'' ''id0'' = Some signing_request" "pending_entry signing_db ''id0'' ''ann'' = Some signing_entry"
    "cleanVersion signing_db ''d1'' ''v1'' = Inr (sample_version, sample_file)" "requireGedFeature signing_db Signatures = Inr ()"
    "toLowerCase ''Ann'' = ''ann''" "loadTimestampConfig no_authority plain_cipher signing_db = Inr None" by code_simp+
  have "sr_versionId signing_request = ''v1''" "rq_username (editor ''Ann'') = ''Ann''" "entries signing_db = [signing_entry]"
    "entry_open signing_entry" "sn_decision consent = SIGN" "sn_consent consent"
    by (simp_all add: signing_request_def editor_def sample_request_def sample_identity_def signing_db_def signing_entry_def entry_open_def consent_def)
  with ev visible_signing obtain s' h where
    r: "decide sample_env no_authority plain_cipher (\<lambda>_ _. None) signing_db (editor ''Ann'') ''d1'' ''id0'' consent = (s', Inr (SeSigned, h, False))"
    by (simp add: decide_def decide_read_def decide_commit_def signature_guard_def stamp_evidence_def claim_def Let_def decided_status_def)
  from signature_evidence_binding [OF r] \<open>rq_username (editor ''Ann'') = ''Ann''\<close> ev(5) r show ?thesis by auto
qed

definition sharing_db :: db where
  "sharing_db = sample_db\<lparr>settings := [\<lparr>st_key = SHARING_SETTING, st_value = JObj [(''enabled'', JBool True)]\<rparr>]\<rparr>"

definition sharer :: request where
  "sharer = sample_request ''bob'' [''ISMS-LOCAL-ADMINS'']"

definition link_body :: ShareDto where
  "link_body = \<lparr>xd_versionId = ''v1'', xd_expiresInDays = 7, xd_maxDownloads = Some 1\<rparr>"

definition link_token :: string where
  "link_token = replicate 32 CHR ''a''"

definition sample_link :: sharelink_row where
  "sample_link = \<lparr>sl_id = ''id0'', sl_documentId = ''d1'', sl_versionId = ''v1'', sl_tokenHash = link_token, sl_createdBy = ''bob'',
     sl_createdAt = 1000, sl_expiresAt = 604801000, sl_maxDownloads = Some 1, sl_downloadCount = 0, sl_lastAccessAt = None,
     sl_revokedAt = None\<rparr>"

definition link_db :: db where
  "link_db = sharing_db\<lparr>sharelinks := [sample_link]\<rparr>"

lemma link_db_reachable: "link_reachable link_db"
proof -
  have ev: "new_link sample_env sharing_db sharer ''d1'' link_body link_token = sample_link"
    "cleanVersion sharing_db ''d1'' (xd_versionId link_body) = Inr (sample_version, sample_file)" "\<not> isMipObjectKey (sf_objectKey sample_file)"
    "requireVisible sample_env sharing_db sharer ''d1'' = Inr sample_document" "xs_enabled (sharingSettings sharing_db)"
    "can_on sample_env sharing_db sharer sample_document Edit" "can_on sample_env sharing_db sharer sample_document Download"
    "\<not> exceeds (xd_expiresInDays link_body) (xs_maxDays (sharingSettings sharing_db))"
    "doc_status sample_document = PUBLISHED" "\<not> doc_sensitive sample_document" by code_simp+
  have nil: "sharelinks sharing_db = []" by (simp add: sharing_db_def sample_db_def empty_db_def)
  have "link_reachable (fst (share_link sample_env sharing_db sharer ''d1'' link_body link_token))"
    by (rule link_reachable.share [OF link_reachable.start [OF nil]]) (simp_all add: nil link_body_def)
  moreover have "sharelinks (fst (share_link sample_env sharing_db sharer ''d1'' link_body link_token)) = sharelinks link_db"
    using ev nil by (simp add: share_link_def Let_def link_db_def)
  ultimately show ?thesis by (metis link_reachable.other)
qed

lemma sample_link_in: "sample_link \<in> set (sharelinks link_db)"
  by (simp add: link_db_def)

theorem links_bounded_witness:
  "link_reachable link_db \<and> sl_downloadCount sample_link \<le> 1 \<and> sl_expiresAt sample_link \<le> sl_createdAt sample_link + 90 * 86400000"
  using links_bounded [OF link_db_reachable sample_link_in] link_db_reachable by (simp add: sample_link_def)

theorem download_exact_witness:
  "\<exists>s'. download sample_env (\<lambda>_. True) link_db sharer link_token = (s', Inr (served sample_file)) \<and>
     map sl_downloadCount (sharelinks s') = [1]"
proof -
  have ev: "sl_tokenHash sample_link = tokenHash sample_env link_token" "token_shape link_token"
    "find_first (\<lambda>d. doc_id d = sl_documentId sample_link) (documents link_db) = Some sample_document"
    "link_valid sample_env link_db sample_link sample_document (version_and_file link_db (sl_versionId sample_link))"
    "downloads_left sample_link" "version_and_file link_db (sl_versionId sample_link) = Some (sample_version, sample_file)" by code_simp+
  obtain s' r where d: "download sample_env (\<lambda>_. True) link_db sharer link_token = (s', r)" by fastforce
  from download_exact [OF link_db_reachable sample_link_in ev(1-3) d] ev(4-6) have "r = Inr (served sample_file)"
    "sharelinks s' = update_rows (\<lambda>x. x = sample_link) (consume_row (now sample_env)) (sharelinks link_db)" by auto
  with d show ?thesis by (simp add: link_db_def consume_row_def) (simp add: sample_link_def)
qed

theorem decision_overrides_cancel_witness:
  "\<exists>s1 s2 x. cancel sample_env signing_db sharer ''d1'' ''id0'' = (s1, Inr ()) \<and>
     decide_commit sample_env s1 (editor ''Ann'') ''d1'' signing_request signing_entry (sample_version, sample_file)
       \<lparr>ed_status = SeDeclined, ed_at = 1000, ed_comment = None, ed_ip = ''unknown'', ed_hash = [], ed_stamp = None\<rparr> = (s2, Inr x) \<and>
     (\<exists>q\<in>set (signatures s2). sr_id q = ''id0'' \<and> sr_status q = SrDeclined)"
proof -
  have ev: "open_request signing_db ''d1'' ''id0'' = Some signing_request" "pending_entry signing_db ''id0'' ''ann'' = Some signing_entry"
    "signature_guard sample_env signing_db sharer ''d1'' = Inr sample_document" "isAdminIdentity (rq_groups sharer)" by code_simp+
  moreover have "sr_id signing_request = ''id0''" "signing_request \<in> set (signatures signing_db)"
    by (simp_all add: signing_db_def signing_request_def)
  ultimately obtain s1 where c: "cancel sample_env signing_db sharer ''d1'' ''id0'' = (s1, Inr ())"
    by (force simp: cancel_def cancel_read_def cancel_commit_def)
  from decision_overrides_cancel [OF signing_db_run ev(1,2) c] c show ?thesis by (metis entry_decision.select_convs(1))
qed

end
