(* ===== verification/Storage.thy ===== *)
theory Storage
  imports Ged_Settings Samples
begin

text \<open>
  Where files are kept (\<^verbatim>\<open>apps/api/src/storage.service.ts\<close>, \<^verbatim>\<open>storage-targets.service.ts\<close>): object keys and
  the file paths made of them, the routing of a key to a storage target, and the configuration of
  the targets with its optimistic locking. Reading and writing files and S3 objects, and the
  parsing of an endpoint address, are left to the platform.
\<close>

section \<open>Keys and paths\<close>

definition slash_parts :: "string \<Rightarrow> string list" where
  "slash_parts = split_on (\<lambda>c. c = CHR ''/'')"

definition key_char :: "char \<Rightarrow> bool" where
  "key_char c = (is_digit c \<or> CHR ''A'' \<le> c \<and> c \<le> CHR ''Z'' \<or> CHR ''a'' \<le> c \<and> c \<le> CHR ''z'' \<or>
     c \<in> {CHR ''_'', CHR ''.'', CHR ''/'', CHR ''-''})"

definition storagePath :: "string \<Rightarrow> string outcome" where
  "storagePath v =
     (if v = [] \<or> 1024 < length v \<or> \<not> list_all key_char v \<or>
         list_ex (\<lambda>part. part = [] \<or> part = ''.'' \<or> part = ''..'') (slash_parts v)
      then Inl (BadRequest ''Invalid relative storage path'') else Inr v)"

text \<open>\<open>path.resolve\<close> of an absolute root and a key; an absolute path is the list of its parts.\<close>

fun normalise :: "string list \<Rightarrow> string list \<Rightarrow> string list" where
  "normalise acc [] = acc"
| "normalise acc (p # ps) =
     (if p = [] \<or> p = ''.'' then normalise acc ps
      else if p = ''..'' then normalise (butlast acc) ps
      else normalise (acc @ [p]) ps)"

definition path_text :: "string list \<Rightarrow> string" where
  "path_text parts = ''/'' @ join ''/'' parts"

definition resolve :: "string list \<Rightarrow> string \<Rightarrow> string list" where
  "resolve root key = normalise (if startsWith key ''/'' then [] else root) (slash_parts key)"

definition pathFor :: "string \<Rightarrow> string list \<Rightarrow> string outcome" where
  "pathFor key root =
     (case storagePath key of
        Inl e \<Rightarrow> Inl e
      | Inr _ \<Rightarrow>
          (let target = path_text (resolve root key)
           in if target \<noteq> path_text root \<and> \<not> startsWith target (path_text root @ ''/'')
              then Inl (InternalError ''Invalid document storage key'') else Inr target))"

section \<open>Targets\<close>

datatype target_type = S3 | SMB

datatype test_status = Untested | TestSuccess | TestFailure

record StorageTarget =
  tgt_id :: string
  tgt_name :: string
  tgt_type :: target_type
  tgt_enabled :: bool
  tgt_revision :: string
  tgt_testedAt :: "time option"
  tgt_testStatus :: test_status
  tgt_endpoint :: "string option"
  tgt_region :: "string option"
  tgt_bucket :: "string option"
  tgt_prefix :: "string option"
  tgt_forcePathStyle :: "bool option"
  tgt_mount :: "string option"
  tgt_credentials :: "string option"

definition lower_hex :: "char \<Rightarrow> bool" where
  "lower_hex c = (is_digit c \<or> CHR ''a'' \<le> c \<and> c \<le> CHR ''f'')"

definition storageTargetId :: "string \<Rightarrow> string outcome" where
  "storageTargetId i =
     (case split_on (\<lambda>c. c = CHR ''-'') i of
        [a, b, c, d, e] \<Rightarrow>
          if map length [a, b, c, d, e] = [8, 4, 4, 4, 12] \<and> list_all lower_hex (a @ b @ c @ d @ e) \<and>
             hd c = CHR ''4'' \<and> hd d \<in> {CHR ''8'', CHR ''9'', CHR ''a'', CHR ''b''}
          then Inr i else Inl (BadRequest ''Invalid storage target'')
      | _ \<Rightarrow> Inl (BadRequest ''Invalid storage target''))"

definition inputString :: "json \<Rightarrow> string \<Rightarrow> nat \<Rightarrow> string outcome" where
  "inputString body key limit =
     (case json_get key body of
        Some (JStr v) \<Rightarrow>
          if trim v = [] \<or> limit < length v \<or> list_ex (\<lambda>c. (of_char c :: nat) < 32) v
          then Inl (BadRequest (''Invalid '' @ key)) else Inr (trim v)
      | _ \<Rightarrow> Inl (BadRequest (''Invalid '' @ key)))"

text \<open>What is shown of a target: everything but the credentials, and whether there are any.\<close>

definition publicTarget :: "StorageTarget \<Rightarrow> StorageTarget \<times> bool" where
  "publicTarget t = (t\<lparr>tgt_credentials := None\<rparr>, non_empty (tgt_credentials t) \<noteq> None)"

definition list_targets :: "StorageTarget list \<Rightarrow> (StorageTarget \<times> bool) list" where
  "list_targets ts = map publicTarget (sort_key tgt_id ts)"

definition get_target :: "StorageTarget list \<Rightarrow> string \<Rightarrow> StorageTarget outcome" where
  "get_target ts i =
     (case storageTargetId i of
        Inl e \<Rightarrow> Inl e
      | Inr _ \<Rightarrow> (case find_first (\<lambda>t. tgt_id t = i) ts of None \<Rightarrow> Inl NotFound | Some t \<Rightarrow> Inr t))"

definition available :: "StorageTarget list \<Rightarrow> (string \<times> string \<times> target_type) list" where
  "available ts =
     map (\<lambda>(t, _). (tgt_id t, tgt_name t, tgt_type t))
       (filter (\<lambda>(t, _). tgt_enabled t \<and> tgt_testStatus t = TestSuccess) (list_targets ts))"

section \<open>Routing\<close>

definition uploadKey :: "StorageTarget list \<Rightarrow> string \<Rightarrow> string option \<Rightarrow> string outcome" where
  "uploadKey ts key targetId =
     (case storagePath key of
        Inl e \<Rightarrow> Inl e
      | Inr _ \<Rightarrow>
          if non_empty targetId = None \<or> targetId = Some ''primary'' then Inr key
          else (case get_target ts (the targetId) of
              Inl e \<Rightarrow> Inl e
            | Inr t \<Rightarrow>
                if \<not> tgt_enabled t \<or> tgt_testStatus t \<noteq> TestSuccess
                then Inl (BadRequest ''Storage target is not available for uploads'')
                else Inr (''targets/'' @ tgt_id t @ ''/'' @ key)))"

definition derivedKey :: "string \<Rightarrow> string \<Rightarrow> string outcome" where
  "derivedKey sourceKey key =
     (case storagePath key of
        Inl e \<Rightarrow> Inl e
      | Inr _ \<Rightarrow>
          if startsWith sourceKey ''targets/''
          then (case storageTargetId (slash_parts sourceKey ! 1) of
              Inl e \<Rightarrow> Inl e
            | Inr i \<Rightarrow> Inr (''targets/'' @ i @ ''/'' @ key))
          else Inr key)"

definition destination :: "StorageTarget list \<Rightarrow> string \<Rightarrow> (string \<times> StorageTarget option) outcome" where
  "destination ts objectKey =
     (case storagePath objectKey of
        Inl e \<Rightarrow> Inl e
      | Inr _ \<Rightarrow>
          if \<not> startsWith objectKey ''targets/'' then Inr (objectKey, None)
          else (let parts = slash_parts objectKey
                in case get_target ts (parts ! 1) of
                     Inl e \<Rightarrow> Inl e
                   | Inr t \<Rightarrow>
                       (case storagePath (join ''/'' (drop 2 parts)) of
                          Inl e \<Rightarrow> Inl e
                        | Inr key \<Rightarrow> Inr (key, Some t))))"

definition s3Location :: "StorageTarget \<Rightarrow> string \<Rightarrow> string option \<times> string" where
  "s3Location t key =
     (tgt_bucket t, (case non_empty (tgt_prefix t) of None \<Rightarrow> key | Some p \<Rightarrow> p @ ''/'' @ key))"

section \<open>Configuration\<close>

text \<open>The parts of an endpoint address; \<open>parse\<close> stands for the URL parser of the platform.\<close>

record endpoint_url =
  eu_protocol :: string
  eu_username :: string
  eu_password :: string
  eu_search :: string
  eu_hash :: string
  eu_pathname :: string
  eu_origin :: string

definition encryptCredentials :: "cipher \<Rightarrow> json \<Rightarrow> string outcome" where
  "encryptCredentials C body =
     (case inputString body ''accessKeyId'' 256 of
        Inl e \<Rightarrow> Inl e
      | Inr a \<Rightarrow>
          (case inputString body ''secretAccessKey'' 512 of
             Inl e \<Rightarrow> Inl e
           | Inr k \<Rightarrow>
               Inr (encrypt C (''{'' @ json_string ''accessKeyId'' @ '':'' @ json_string a @ '','' @
                 json_string ''secretAccessKey'' @ '':'' @ json_string k @ ''}''))))"

text \<open>\<open>/^[a-z0-9][a-z0-9.-]{1,61}[a-z0-9]$/\<close>.\<close>

definition bucket_shape :: "string \<Rightarrow> bool" where
  "bucket_shape b =
     (let alnum = (\<lambda>c. CHR ''a'' \<le> c \<and> c \<le> CHR ''z'' \<or> is_digit c)
      in 3 \<le> length b \<and> length b \<le> 63 \<and> alnum (hd b) \<and> alnum (last b) \<and>
         list_all (\<lambda>c. alnum c \<or> c = CHR ''.'' \<or> c = CHR ''-'') b)"

definition optional_path :: "json \<Rightarrow> string \<Rightarrow> nat \<Rightarrow> string outcome" where
  "optional_path body key limit =
     (if json_truthy (json_get key body)
      then (case inputString body key limit of Inl e \<Rightarrow> Inl e | Inr p \<Rightarrow> storagePath p) else Inr [])"

definition s3_target :: "cipher \<Rightarrow> (string \<Rightarrow> endpoint_url option) \<Rightarrow> json \<Rightarrow> StorageTarget \<Rightarrow> StorageTarget outcome" where
  "s3_target C parse body t =
     (case (case inputString body ''endpoint'' 512 of Inl _ \<Rightarrow> None | Inr u \<Rightarrow> parse u) of
        None \<Rightarrow> Inl (BadRequest ''Invalid S3 endpoint URL'')
      | Some u \<Rightarrow>
          if eu_protocol u \<noteq> ''https:'' \<or> eu_username u \<noteq> [] \<or> eu_password u \<noteq> [] \<or> eu_search u \<noteq> [] \<or> eu_hash u \<noteq> [] \<or>
             eu_pathname u \<noteq> ''/''
          then Inl (BadRequest ''S3 endpoint must be an HTTPS origin without credentials'')
          else (case inputString body ''region'' 80 of
              Inl e \<Rightarrow> Inl e
            | Inr region \<Rightarrow>
                (case inputString body ''bucket'' 63 of
                   Inl e \<Rightarrow> Inl e
                 | Inr bucket \<Rightarrow>
                     if \<not> bucket_shape bucket then Inl (BadRequest ''Invalid S3 bucket'')
                     else (case optional_path body ''prefix'' 256 of
                         Inl e \<Rightarrow> Inl e
                       | Inr prefix \<Rightarrow>
                           if \<not> (case json_get ''forcePathStyle'' body of None \<Rightarrow> True | Some (JBool _) \<Rightarrow> True | _ \<Rightarrow> False)
                           then Inl (BadRequest ''Invalid path-style option'')
                           else (case encryptCredentials C body of
                               Inl e \<Rightarrow> Inl e
                             | Inr creds \<Rightarrow>
                                 Inr (t\<lparr>tgt_endpoint := Some (eu_origin u), tgt_region := Some region, tgt_bucket := Some bucket,
                                        tgt_prefix := Some prefix,
                                        tgt_forcePathStyle := Some (json_get ''forcePathStyle'' body \<noteq> Some (JBool False)),
                                        tgt_credentials := Some creds\<rparr>))))))"

definition target_type_of :: "json \<Rightarrow> target_type option" where
  "target_type_of body =
     (if json_get ''type'' body = Some (JStr ''s3'') then Some S3
      else if json_get ''type'' body = Some (JStr ''smb'') then Some SMB else None)"

definition new_target :: "env \<Rightarrow> nat \<Rightarrow> string \<Rightarrow> target_type \<Rightarrow> StorageTarget" where
  "new_target E n name type =
     \<lparr>tgt_id = uuid E n, tgt_name = name, tgt_type = type, tgt_enabled = False, tgt_revision = uuid E (Suc n),
      tgt_testedAt = None, tgt_testStatus = Untested, tgt_endpoint = None, tgt_region = None, tgt_bucket = None,
      tgt_prefix = None, tgt_forcePathStyle = None, tgt_mount = None, tgt_credentials = None\<rparr>"

text \<open>\<open>n\<close> is the number of identifiers drawn so far.\<close>

definition create_target ::
    "env \<Rightarrow> cipher \<Rightarrow> (string \<Rightarrow> endpoint_url option) \<Rightarrow> nat \<Rightarrow> StorageTarget list \<Rightarrow> json \<Rightarrow>
     StorageTarget list \<times> (StorageTarget \<times> bool) outcome" where
  "create_target E C parse n ts body =
     (case target_type_of body of
        None \<Rightarrow> (ts, Inl (BadRequest ''Choose S3 or SMB''))
      | Some type \<Rightarrow>
          (case inputString body ''name'' 80 of
             Inl e \<Rightarrow> (ts, Inl e)
           | Inr name \<Rightarrow>
               (case (if type = S3 then s3_target C parse body (new_target E n name type)
                      else (case inputString body ''mount'' 255 of
                          Inl e \<Rightarrow> Inl e
                        | Inr p \<Rightarrow>
                            (case storagePath p of
                               Inl e \<Rightarrow> Inl e
                             | Inr m \<Rightarrow> Inr ((new_target E n name type)\<lparr>tgt_mount := Some m\<rparr>)))) of
                  Inl e \<Rightarrow> (ts, Inl e)
                | Inr t \<Rightarrow> (ts @ [t], Inr (publicTarget t)))))"

text \<open>\<open>save\<close>: the row is written only if it still has the revision that was read.\<close>

definition save_target :: "env \<Rightarrow> nat \<Rightarrow> StorageTarget list \<Rightarrow> StorageTarget \<Rightarrow> string \<Rightarrow> StorageTarget list \<times> StorageTarget outcome" where
  "save_target E n ts t revision =
     (let t' = t\<lparr>tgt_revision := uuid E n\<rparr>;
          p = (\<lambda>x. tgt_id x = tgt_id t \<and> tgt_revision x = revision)
      in if count_rows p ts = 0 then (ts, Inl (Conflict ''Storage configuration changed; refresh and retry''))
         else (update_rows p (\<lambda>_. t') ts, Inr t'))"

text \<open>What \<open>update\<close> makes of the target that it read.\<close>

definition change_name :: "json \<Rightarrow> StorageTarget \<Rightarrow> StorageTarget outcome" where
  "change_name body t =
     (if json_get ''name'' body = None then Inr t
      else (case inputString body ''name'' 80 of Inl e \<Rightarrow> Inl e | Inr name \<Rightarrow> Inr (t\<lparr>tgt_name := name\<rparr>)))"

definition change_credentials :: "cipher \<Rightarrow> json \<Rightarrow> StorageTarget \<Rightarrow> StorageTarget outcome" where
  "change_credentials C body t =
     (if \<not> json_truthy (json_get ''accessKeyId'' body) \<and> \<not> json_truthy (json_get ''secretAccessKey'' body) then Inr t
      else if tgt_type t \<noteq> S3 then Inl (BadRequest ''SMB credentials are managed on the server'')
      else (case encryptCredentials C body of
          Inl e \<Rightarrow> Inl e
        | Inr creds \<Rightarrow>
            Inr (t\<lparr>tgt_credentials := Some creds, tgt_testStatus := Untested, tgt_testedAt := None, tgt_enabled := False\<rparr>)))"

definition change_enabled :: "json \<Rightarrow> StorageTarget \<Rightarrow> StorageTarget outcome" where
  "change_enabled body t =
     (case json_get ''enabled'' body of
        None \<Rightarrow> Inr t
      | Some (JBool b) \<Rightarrow>
          if b \<and> tgt_testStatus t \<noteq> TestSuccess then Inl (BadRequest ''Test this storage before enabling it'')
          else Inr (t\<lparr>tgt_enabled := b\<rparr>)
      | Some _ \<Rightarrow> Inl (BadRequest ''Invalid enabled option''))"

definition body_keys :: "json \<Rightarrow> string list" where
  "body_keys body = (case body of JObj kvs \<Rightarrow> map fst kvs | _ \<Rightarrow> [])"

definition changed_target :: "cipher \<Rightarrow> json \<Rightarrow> StorageTarget \<Rightarrow> StorageTarget outcome" where
  "changed_target C body t =
     (case change_name body t of
        Inl e \<Rightarrow> Inl e
      | Inr t1 \<Rightarrow> (case change_credentials C body t1 of Inl e \<Rightarrow> Inl e | Inr t2 \<Rightarrow> change_enabled body t2))"

definition update_target ::
    "env \<Rightarrow> cipher \<Rightarrow> nat \<Rightarrow> StorageTarget list \<Rightarrow> string \<Rightarrow> json \<Rightarrow> StorageTarget list \<times> (StorageTarget \<times> bool) outcome" where
  "update_target E C n ts i body =
     (if list_ex (\<lambda>k. k \<notin> {''name'', ''enabled'', ''accessKeyId'', ''secretAccessKey''}) (body_keys body)
      then (ts, Inl (BadRequest ''A storage destination cannot be changed; create another target''))
      else (case get_target ts i of
          Inl e \<Rightarrow> (ts, Inl e)
        | Inr t \<Rightarrow>
            (case changed_target C body t of
               Inl e \<Rightarrow> (ts, Inl e)
             | Inr t' \<Rightarrow>
                 (case save_target E n ts t' (tgt_revision t) of
                    (ts', Inl e) \<Rightarrow> (ts', Inl e)
                  | (ts', Inr saved) \<Rightarrow> (ts', Inr (publicTarget saved))))))"

definition tested_target :: "time \<Rightarrow> bool \<Rightarrow> StorageTarget \<Rightarrow> StorageTarget" where
  "tested_target t success x =
     (let x' = x\<lparr>tgt_testedAt := Some t, tgt_testStatus := (if success then TestSuccess else TestFailure)\<rparr>
      in if success then x' else x'\<lparr>tgt_enabled := False\<rparr>)"

definition markTest :: "env \<Rightarrow> nat \<Rightarrow> StorageTarget list \<Rightarrow> StorageTarget \<Rightarrow> bool \<Rightarrow> StorageTarget list \<times> StorageTarget outcome" where
  "markTest E n ts t success = save_target E n ts (tested_target (now E) success t) (tgt_revision t)"

section \<open>Confinement\<close>

lemma join_Cons: "ws \<noteq> [] \<Longrightarrow> join sep (w # ws) = w @ sep @ join sep ws"
  by (cases ws) (simp_all add: join_def)

lemma join_split: "join [c] (split_on (\<lambda>d. d = c) s) = s"
proof (induction s)
  case (Cons d s)
  obtain w ws where *: "split_on (\<lambda>d. d = c) s = w # ws" using split_on_not_Nil by (metis list.exhaust)
  with Cons show ?case
    by (cases "d = c") (auto simp: join_Cons, auto simp: join_def)
qed (simp add: join_def)

lemma join_append: "us \<noteq> [] \<Longrightarrow> ws \<noteq> [] \<Longrightarrow> join sep (us @ ws) = join sep us @ sep @ join sep ws"
proof (induction us)
  case (Cons u us)
  then show ?case by (cases us) (simp_all add: join_Cons, simp add: join_def)
qed simp

definition plain_part :: "string \<Rightarrow> bool" where
  "plain_part p \<longleftrightarrow> p \<noteq> [] \<and> p \<noteq> ''.'' \<and> p \<noteq> ''..''"

lemma normalise_plain: "list_all plain_part ps \<Longrightarrow> normalise acc ps = acc @ ps"
  by (induction ps arbitrary: acc) (auto simp: plain_part_def)

lemma storagePath_Inr:
  "storagePath v = Inr w \<Longrightarrow> w = v \<and> v \<noteq> [] \<and> length v \<le> 1024 \<and> list_all key_char v \<and> list_all plain_part (slash_parts v)"
  by (auto simp: storagePath_def plain_part_def list_all_iff list_ex_iff split: if_splits)

lemma storagePath_ok:
  "v \<noteq> [] \<Longrightarrow> length v \<le> 1024 \<Longrightarrow> list_all key_char v \<Longrightarrow> list_all plain_part (slash_parts v) \<Longrightarrow> storagePath v = Inr v"
  by (auto simp: storagePath_def plain_part_def list_all_iff list_ex_iff)

lemma plain_not_absolute: "list_all plain_part (slash_parts v) \<Longrightarrow> \<not> startsWith v ''/''"
  by (cases v) (auto simp: slash_parts_def startsWith_def plain_part_def split: list.splits)

lemma plain_resolved:
  assumes "list_all plain_part (slash_parts key)" and "root \<noteq> []"
  shows "resolve root key = root @ slash_parts key" and "path_text (resolve root key) = path_text root @ ''/'' @ key"
proof -
  show r: "resolve root key = root @ slash_parts key"
    using assms(1) plain_not_absolute by (simp add: resolve_def normalise_plain)
  have "join ''/'' (slash_parts key) = key" unfolding slash_parts_def by (rule join_split)
  moreover have "slash_parts key \<noteq> []" by (simp add: slash_parts_def)
  ultimately show "path_text (resolve root key) = path_text root @ ''/'' @ key"
    unfolding r using assms(2) by (simp add: path_text_def join_append)
qed

text \<open>C33: No key leaves its storage root. Of every key, whatever it is, either the path below the root is made that consists of
  the root, a slash and the key, or it is refused. It is accepted exactly if it has 1 to 1024 characters of
  letters, digits, underscore, dot, slash and dash and none of its parts between slashes is empty, a dot or two
  dots; the parts of the resolved path are then those of the root followed by those of the key.\<close>

theorem storage_confined:
  assumes "root \<noteq> []"
  shows "pathFor key root =
      (if key \<noteq> [] \<and> length key \<le> 1024 \<and> list_all key_char key \<and> list_all plain_part (slash_parts key)
       then Inr (path_text root @ ''/'' @ key) else Inl (BadRequest ''Invalid relative storage path'')) \<and>
    (\<forall>p. pathFor key root = Inr p \<longrightarrow> resolve root key = root @ slash_parts key)"
proof (cases "key \<noteq> [] \<and> length key \<le> 1024 \<and> list_all key_char key \<and> list_all plain_part (slash_parts key)")
  case True
  then have "storagePath key = Inr key"
    by (auto simp: storagePath_def plain_part_def list_all_iff list_ex_iff)
  with True plain_resolved [OF _ assms, of key] show ?thesis by (simp add: pathFor_def startsWith_def)
next
  case False
  then have "storagePath key = Inl (BadRequest ''Invalid relative storage path'')"
    by (auto simp: storagePath_def plain_part_def list_all_iff list_ex_iff)
  with False show ?thesis by (auto simp: pathFor_def)
qed

theorem storage_confined_witness:
  "pathFor ''documents/a.b/../x'' [''data''] = Inl (BadRequest ''Invalid relative storage path'') \<and>
   pathFor ''documents/a.b/x'' [''data''] = Inr ''/data/documents/a.b/x''"
proof -
  have "\<not> list_all plain_part (slash_parts ''documents/a.b/../x'')" "list_all plain_part (slash_parts ''documents/a.b/x'')"
    "list_all key_char ''documents/a.b/x''" "path_text [''data''] = ''/data''" by code_simp+
  then show ?thesis
    using storage_confined [of "[''data'']" "''documents/a.b/x''"] storage_confined [of "[''data'']" "''documents/a.b/../x''"]
    by simp
qed

section \<open>Routing brings a file back\<close>

lemma split_on_append:
  assumes "\<not> list_ex p w" and "p c"
  shows "split_on p (w @ c # s) = w # split_on p s"
  using assms by (induction w) auto

lemma split_on_plain: "\<not> list_ex p w \<Longrightarrow> split_on p w = [w]"
  by (induction w) auto

lemma storageTargetId_chars:
  assumes "storageTargetId i = Inr j"
  shows "j = i \<and> i \<noteq> [] \<and> list_all (\<lambda>c. lower_hex c \<or> c = CHR ''-'') i"
proof -
  obtain ps where ps: "split_on (\<lambda>c. c = CHR ''-'') i = ps" "list_all lower_hex (concat ps)" "ps \<noteq> [[]]" "j = i"
    using assms by (auto simp: storageTargetId_def split: list.splits if_splits)
  have "i = join ''-'' ps" using join_split [of "CHR ''-''" i] ps(1) by simp
  moreover have "list_all lower_hex (concat ws) \<Longrightarrow> list_all (\<lambda>c. lower_hex c \<or> c = CHR ''-'') (join ''-'' ws)" for ws
    by (auto simp: join_def list_all_iff split: list.splits)
  moreover have "i \<noteq> []" using ps(1,3) by auto
  ultimately show ?thesis using ps(2,4) by simp
qed

lemma lower_hex_key: "lower_hex c \<Longrightarrow> key_char c \<and> c \<noteq> CHR ''/'' \<and> c \<noteq> CHR ''.''"
  by (auto simp: lower_hex_def key_char_def is_digit_def less_eq_char_def)

lemma target_id_plain:
  assumes "storageTargetId i = Inr j"
  shows "\<not> list_ex (\<lambda>c. c = CHR ''/'') i \<and> list_all key_char i \<and> plain_part i"
proof -
  have c: "c \<in> set i \<Longrightarrow> key_char c \<and> c \<noteq> CHR ''/'' \<and> c \<noteq> CHR ''.''" for c
    using storageTargetId_chars [OF assms] lower_hex_key [of c] by (auto simp: list_all_iff key_char_def)
  then have "CHR ''.'' \<notin> set i" by blast
  with c storageTargetId_chars [OF assms] show ?thesis by (auto simp: list_all_iff list_ex_iff plain_part_def)
qed

lemma target_key:
  assumes "storagePath key = Inr k" and "storageTargetId i = Inr j" and "length (''targets/'' @ i @ ''/'' @ key) \<le> 1024"
  shows "storagePath (''targets/'' @ i @ ''/'' @ key) = Inr (''targets/'' @ i @ ''/'' @ key)"
    and "slash_parts (''targets/'' @ i @ ''/'' @ key) = ''targets'' # i # slash_parts key"
proof -
  note i = target_id_plain [OF assms(2)] and k = storagePath_Inr [OF assms(1)]
  have "split_on (\<lambda>c. c = CHR ''/'') (''targets'' @ CHR ''/'' # (i @ CHR ''/'' # key)) =
      ''targets'' # i # split_on (\<lambda>c. c = CHR ''/'') key"
    using i by (subst split_on_append; simp add: split_on_append)+
  then show p: "slash_parts (''targets/'' @ i @ ''/'' @ key) = ''targets'' # i # slash_parts key"
    by (simp add: slash_parts_def)
  have "list_all plain_part (''targets'' # i # slash_parts key)" using i k by (simp add: plain_part_def)
  moreover have "list_all key_char (''targets/'' @ i @ ''/'' @ key)"
    using i k by (auto simp: key_char_def is_digit_def less_eq_char_def list_all_iff)
  ultimately show "storagePath (''targets/'' @ i @ ''/'' @ key) = Inr (''targets/'' @ i @ ''/'' @ key)"
    using assms(3) p by (intro storagePath_ok) simp_all
qed

lemma get_target_Inr: "get_target ts i = Inr t \<Longrightarrow> (\<exists>j. storageTargetId i = Inr j) \<and> tgt_id t = i"
  by (auto simp: get_target_def dest: find_first_Some split: sum.splits option.splits)

lemma destination_target:
  assumes "storagePath key = Inr k" and "get_target ts i = Inr t" and "length (''targets/'' @ i @ ''/'' @ key) \<le> 1024"
  shows "destination ts (''targets/'' @ i @ ''/'' @ key) = Inr (key, Some t)"
proof -
  obtain j where j: "storageTargetId i = Inr j" using get_target_Inr [OF assms(2)] by blast
  note tk = target_key [OF assms(1) j assms(3)] and k = storagePath_Inr [OF assms(1)]
  have "join ''/'' (slash_parts key) = key" unfolding slash_parts_def by (rule join_split)
  then show ?thesis
    using tk assms(1,2) k by (simp add: destination_def Let_def startsWith_def)
qed

text \<open>A stored file is found again. The key that an upload receives is routed back to the key that was
  asked for and to the chosen target, which was enabled and tested, or to the primary store; a file
  derived from it goes to the same place.\<close>

theorem upload_key_routes_back:
  assumes "uploadKey ts key target = Inr k" and "length k \<le> 1024" and "\<not> startsWith key ''targets/''"
    and "derivedKey k key' = Inr k'" and "length k' \<le> 1024" and "\<not> startsWith key' ''targets/''"
  shows "\<exists>t. destination ts k = Inr (key, t) \<and> destination ts k' = Inr (key', t) \<and>
    (case t of None \<Rightarrow> non_empty target = None \<or> target = Some ''primary''
     | Some x \<Rightarrow> target = Some (tgt_id x) \<and> tgt_enabled x \<and> tgt_testStatus x = TestSuccess)"
proof -
  obtain p where p: "storagePath key = Inr p" using assms(1) by (auto simp: uploadKey_def split: sum.splits)
  obtain p' where p': "storagePath key' = Inr p'" using assms(4) by (auto simp: derivedKey_def split: sum.splits)
  show ?thesis
  proof (cases "non_empty target = None \<or> target = Some ''primary''")
    case True
    with assms(1) p have "k = key" by (auto simp: uploadKey_def)
    with assms(3,4,6) p p' storagePath_Inr [OF p] storagePath_Inr [OF p'] True show ?thesis
      by (intro exI [of _ None]) (auto simp: destination_def derivedKey_def)
  next
    case False
    with assms(1) p obtain i t where t: "target = Some i" "get_target ts i = Inr t" "tgt_enabled t" "tgt_testStatus t = TestSuccess"
      and k: "k = ''targets/'' @ i @ ''/'' @ key"
      by (cases target) (auto simp: uploadKey_def non_empty_def dest: get_target_Inr split: sum.splits if_splits)
    obtain j where j: "storageTargetId i = Inr j" "tgt_id t = i" using get_target_Inr [OF t(2)] by blast
    have "slash_parts k ! 1 = i" using target_key(2) [OF p j(1)] assms(2) k by simp
    then have k': "k' = ''targets/'' @ i @ ''/'' @ key'"
      using assms(4) p' j storageTargetId_chars [OF j(1)] k by (auto simp: derivedKey_def startsWith_def split: sum.splits)
    from destination_target [OF p t(2)] destination_target [OF p' t(2)] assms(2,5) k k' t j show ?thesis
      by (intro exI [of _ "Some t"]) simp
  qed
qed

definition sample_target :: StorageTarget where
  "sample_target = \<lparr>tgt_id = ''12345678-1234-4234-8234-123456789abc'', tgt_name = ''N'', tgt_type = SMB, tgt_enabled = True,
     tgt_revision = ''r0'', tgt_testedAt = Some 1, tgt_testStatus = TestSuccess, tgt_endpoint = None, tgt_region = None,
     tgt_bucket = None, tgt_prefix = None, tgt_forcePathStyle = None, tgt_mount = Some ''share'', tgt_credentials = None\<rparr>"

theorem upload_key_routes_back_witness:
  "\<exists>k k'. uploadKey [sample_target] ''documents/a'' (Some (tgt_id sample_target)) = Inr k \<and> derivedKey k ''documents/b'' = Inr k' \<and>
     destination [sample_target] k' = Inr (''documents/b'', Some sample_target)"
proof -
  let ?k = "''targets/12345678-1234-4234-8234-123456789abc/documents/a''"
  let ?k' = "''targets/12345678-1234-4234-8234-123456789abc/documents/b''"
  have ev: "uploadKey [sample_target] ''documents/a'' (Some (tgt_id sample_target)) = Inr ?k" "derivedKey ?k ''documents/b'' = Inr ?k'"
    "\<not> startsWith ''documents/a'' ''targets/''" "\<not> startsWith ''documents/b'' ''targets/''"
    "destination [sample_target] ?k = Inr (''documents/a'', Some sample_target)" by code_simp+
  from upload_key_routes_back [OF ev(1) _ ev(3) ev(2) _ ev(4)] ev show ?thesis by auto
qed

section \<open>Optimistic locking\<close>

text \<open>The table of targets with the rows that requests have read and not yet written back. Identifiers
  and revisions that are drawn are new.\<close>

definition fresh_revision :: "string \<Rightarrow> StorageTarget list \<Rightarrow> StorageTarget set \<Rightarrow> bool" where
  "fresh_revision r ts R \<longleftrightarrow> r \<notin> tgt_revision ` (set ts \<union> R)"

inductive storage_run :: "StorageTarget list \<Rightarrow> StorageTarget set \<Rightarrow> bool" where
  start: "storage_run [] {}"
| create: "storage_run ts R \<Longrightarrow> uuid E n \<notin> tgt_id ` set ts \<Longrightarrow> fresh_revision (uuid E (Suc n)) ts R \<Longrightarrow>
    storage_run (fst (create_target E C parse n ts body)) R"
| read: "storage_run ts R \<Longrightarrow> t \<in> set ts \<Longrightarrow> storage_run ts (insert t R)"
| change: "storage_run ts R \<Longrightarrow> t \<in> R \<Longrightarrow> changed_target C body t = Inr t' \<Longrightarrow> fresh_revision (uuid E n) ts R \<Longrightarrow>
    storage_run (fst (save_target E n ts t' (tgt_revision t))) R"
| test: "storage_run ts R \<Longrightarrow> t \<in> R \<Longrightarrow> fresh_revision (uuid E n) ts R \<Longrightarrow> storage_run (fst (markTest E n ts t success)) R"

definition target_ok :: "StorageTarget \<Rightarrow> bool" where
  "target_ok t \<longleftrightarrow> (tgt_enabled t \<longrightarrow> tgt_testStatus t = TestSuccess)"

definition targets_ok :: "StorageTarget list \<Rightarrow> StorageTarget set \<Rightarrow> bool" where
  "targets_ok ts R \<longleftrightarrow> distinct (map tgt_id ts) \<and> (\<forall>x\<in>set ts \<union> R. target_ok x) \<and>
     (\<forall>x\<in>set ts. \<forall>y\<in>R. tgt_id x = tgt_id y \<and> tgt_revision x = tgt_revision y \<longrightarrow> x = y)"

text \<open>Where the files of a target are.\<close>

definition same_place :: "StorageTarget \<Rightarrow> StorageTarget \<Rightarrow> bool" where
  "same_place t u \<longleftrightarrow> tgt_id t = tgt_id u \<and> tgt_type t = tgt_type u \<and> tgt_endpoint t = tgt_endpoint u \<and>
     tgt_region t = tgt_region u \<and> tgt_bucket t = tgt_bucket u \<and> tgt_prefix t = tgt_prefix u \<and>
     tgt_forcePathStyle t = tgt_forcePathStyle u \<and> tgt_mount t = tgt_mount u"

lemma change_name_place: "change_name body t = Inr t1 \<Longrightarrow> same_place t1 t \<and> (target_ok t \<longrightarrow> target_ok t1)"
  by (auto simp: change_name_def same_place_def target_ok_def split: if_splits sum.splits)

lemma change_credentials_place: "change_credentials C body t = Inr t1 \<Longrightarrow> same_place t1 t \<and> (target_ok t \<longrightarrow> target_ok t1)"
  by (auto simp: change_credentials_def same_place_def target_ok_def split: if_splits sum.splits)

lemma change_enabled_place: "change_enabled body t = Inr t1 \<Longrightarrow> same_place t1 t \<and> (target_ok t \<longrightarrow> target_ok t1)"
  by (auto simp: change_enabled_def same_place_def target_ok_def split: if_splits option.splits json.splits)

lemma changed_target_place: "changed_target C body t = Inr t' \<Longrightarrow> same_place t' t \<and> (target_ok t \<longrightarrow> target_ok t')"
  unfolding changed_target_def
  by (auto split: sum.splits dest!: change_name_place change_credentials_place change_enabled_place simp: same_place_def)

lemma tested_target_place: "same_place (tested_target tm b t) t \<and> (target_ok t \<longrightarrow> target_ok (tested_target tm b t))"
  by (auto simp: tested_target_def same_place_def target_ok_def Let_def)

lemma save_hits:
  assumes "targets_ok ts R" and "t \<in> R" and "tgt_id t' = tgt_id t"
  shows "save_target E n ts t' (tgt_revision t) =
    (if t \<in> set ts then (update_rows (\<lambda>x. x = t) (\<lambda>_. t'\<lparr>tgt_revision := uuid E n\<rparr>) ts, Inr (t'\<lparr>tgt_revision := uuid E n\<rparr>))
     else (ts, Inl (Conflict ''Storage configuration changed; refresh and retry'')))"
proof -
  have hit: "x \<in> set ts \<Longrightarrow> tgt_id x = tgt_id t' \<and> tgt_revision x = tgt_revision t \<longleftrightarrow> x = t" for x
    using assms by (auto simp: targets_ok_def)
  have "count_rows (\<lambda>x. tgt_id x = tgt_id t' \<and> tgt_revision x = tgt_revision t) ts = 0 \<longleftrightarrow> t \<notin> set ts"
    unfolding count_rows_0_iff using hit by auto
  moreover have "update_rows (\<lambda>x. tgt_id x = tgt_id t' \<and> tgt_revision x = tgt_revision t) f ts = update_rows (\<lambda>x. x = t) f ts" for f
    unfolding update_rows_def using hit by (intro map_cong) auto
  ultimately show ?thesis by (simp add: save_target_def Let_def)
qed

lemma targets_ok_save:
  assumes ok: "targets_ok ts R" and t: "t \<in> R" and t': "same_place t' t" "target_ok t'" and fr: "fresh_revision (uuid E n) ts R"
  shows "targets_ok (fst (save_target E n ts t' (tgt_revision t))) R"
proof (cases "t \<in> set ts")
  case True
  let ?u = "t'\<lparr>tgt_revision := uuid E n\<rparr>"
  have u: "tgt_id ?u = tgt_id t" "target_ok ?u" using t' by (simp_all add: same_place_def target_ok_def)
  have mem: "x \<in> set (update_rows (\<lambda>x. x = t) (\<lambda>_. ?u) ts) \<Longrightarrow> x = ?u \<or> x \<in> set ts" for x
    by (auto simp: set_update_rows)
  have "map tgt_id (update_rows (\<lambda>x. x = t) (\<lambda>_. ?u) ts) = map tgt_id ts" by (rule map_update_rows) (use u in simp)
  moreover have "y \<in> R \<Longrightarrow> tgt_revision ?u \<noteq> tgt_revision y" for y using fr by (auto simp: fresh_revision_def)
  moreover have "fst (save_target E n ts t' (tgt_revision t)) = update_rows (\<lambda>x. x = t) (\<lambda>_. ?u) ts"
    using save_hits [OF ok t, of t'] True t' by (simp add: same_place_def)
  ultimately show ?thesis using ok u(2) mem unfolding targets_ok_def by (metis Un_iff)
next
  case False
  with save_hits [OF ok t, of t'] t' ok show ?thesis by (simp add: same_place_def)
qed

lemma s3_target_keeps:
  "s3_target C parse body t = Inr t' \<Longrightarrow>
     tgt_id t' = tgt_id t \<and> tgt_revision t' = tgt_revision t \<and> tgt_enabled t' = tgt_enabled t"
  unfolding s3_target_def by (auto split: option.splits sum.splits if_splits)

lemma create_target_cases:
  "fst (create_target E C parse n ts body) = ts \<or>
   (\<exists>t. fst (create_target E C parse n ts body) = ts @ [t] \<and> tgt_id t = uuid E n \<and> tgt_revision t = uuid E (Suc n) \<and> \<not> tgt_enabled t)"
  unfolding create_target_def
  by (auto simp: new_target_def dest!: s3_target_keeps split: option.split sum.split if_splits)

lemma storage_invariant: "storage_run ts R \<Longrightarrow> targets_ok ts R"
proof (induction rule: storage_run.induct)
  case start
  then show ?case by (simp add: targets_ok_def)
next
  case (create ts R E n C parse body)
  from create_target_cases [of E C parse n ts body] create show ?case
    by (auto simp: targets_ok_def target_ok_def fresh_revision_def)
next
  case (read ts R t)
  then show ?case by (auto simp: targets_ok_def dest: key_unique)
next
  case (change ts R t C body t' E n)
  have "target_ok t" using change by (simp add: targets_ok_def)
  with changed_target_place [OF change(3)] change show ?case by (intro targets_ok_save) auto
next
  case (test ts R t E n success)
  have "target_ok t" using test by (simp add: targets_ok_def)
  with tested_target_place [of "now E" success t] test show ?case
    unfolding markTest_def by (intro targets_ok_save) auto
qed

text \<open>Concurrent changes of a storage target lose nothing. A change is written exactly when the row is
  still the one that the request read; otherwise it is refused and nothing changes. In all
  interleavings only a target whose last test succeeded is enabled, and the place of its files never
  changes.\<close>

theorem storage_optimistic:
  assumes "storage_run ts R" and "t \<in> R" and "changed_target C body t = Inr t'"
    and "save_target E n ts t' (tgt_revision t) = (ts', r)"
  shows "(\<forall>x\<in>set ts'. tgt_enabled x \<longrightarrow> tgt_testStatus x = TestSuccess) \<and>
    (if t \<in> set ts then \<exists>u. r = Inr u \<and> same_place u t \<and> ts' = update_rows (\<lambda>x. x = t) (\<lambda>_. u) ts
     else r = Inl (Conflict ''Storage configuration changed; refresh and retry'') \<and> ts' = ts)"
proof -
  note ok = storage_invariant [OF assms(1)]
  have t': "same_place t' t" "target_ok t'"
    using changed_target_place [OF assms(3)] ok assms(2) by (auto simp: targets_ok_def)
  have s: "save_target E n ts t' (tgt_revision t) =
    (if t \<in> set ts then (update_rows (\<lambda>x. x = t) (\<lambda>_. t'\<lparr>tgt_revision := uuid E n\<rparr>) ts, Inr (t'\<lparr>tgt_revision := uuid E n\<rparr>))
     else (ts, Inl (Conflict ''Storage configuration changed; refresh and retry'')))"
    using t' by (intro save_hits [OF ok assms(2)]) (simp add: same_place_def)
  have "target_ok x" if "x \<in> set ts'" for x
  proof (cases "x \<in> set ts")
    case True
    then show ?thesis using ok by (simp add: targets_ok_def)
  next
    case False
    with that s assms(4) have "x = t'\<lparr>tgt_revision := uuid E n\<rparr>" by (auto simp: set_update_rows split: if_splits)
    then show ?thesis using t'(2) by (simp add: target_ok_def)
  qed
  with s assms(4) t'(1) show ?thesis by (auto simp: target_ok_def same_place_def)
qed

definition new_sample :: StorageTarget where
  "new_sample = \<lparr>tgt_id = ''id0'', tgt_name = ''N'', tgt_type = SMB, tgt_enabled = False, tgt_revision = ''id1'', tgt_testedAt = None,
     tgt_testStatus = Untested, tgt_endpoint = None, tgt_region = None, tgt_bucket = None, tgt_prefix = None,
     tgt_forcePathStyle = None, tgt_mount = Some ''m'', tgt_credentials = None\<rparr>"

theorem storage_optimistic_witness:
  "storage_run [new_sample] {new_sample} \<and>
   snd (save_target sample_env 9 [new_sample] (new_sample\<lparr>tgt_name := ''M''\<rparr>) ''id1'') \<noteq> Inl NotFound \<and>
   (\<exists>u. snd (save_target sample_env 9 [new_sample] (new_sample\<lparr>tgt_name := ''M''\<rparr>) ''id1'') = Inr u \<and> tgt_mount u = Some ''m'')"
proof -
  let ?body = "JObj [(''type'', JStr ''smb''), (''name'', JStr ''N''), (''mount'', JStr ''m'')]"
  let ?C = "\<lparr>encrypt = (\<lambda>p. p), decrypt = Some\<rparr>"
  have c: "fst (create_target sample_env ?C (\<lambda>_. None) 0 [] ?body) = [new_sample]" by code_simp
  have "storage_run (fst (create_target sample_env ?C (\<lambda>_. None) 0 [] ?body)) {}"
    by (rule storage_run.create [OF storage_run.start]) (simp_all add: fresh_revision_def)
  then have run: "storage_run [new_sample] {new_sample}" unfolding c by (rule storage_run.read) simp
  have ch: "changed_target ?C (JObj [(''name'', JStr ''M'')]) new_sample = Inr (new_sample\<lparr>tgt_name := ''M''\<rparr>)" by code_simp
  obtain ts' r where sv: "save_target sample_env 9 [new_sample] (new_sample\<lparr>tgt_name := ''M''\<rparr>) (tgt_revision new_sample) = (ts', r)"
    by fastforce
  from storage_optimistic [OF run _ ch sv] obtain u where "r = Inr u" "same_place u new_sample" by auto
  with sv run show ?thesis by (auto simp: same_place_def new_sample_def)
qed

end
