(* ===== verification/Watermark.thy ===== *)
theory Watermark
  imports Content_Index Storage
begin

text \<open>
  The permanent watermark of sensitive documents (\<^verbatim>\<open>apps/api/src/watermark.service.ts\<close>): the marks that are
  written into the parts of Word and Excel files, and the preparation of the distributed copies
  before a publication. Archives and PDF files are read and written by libraries, the object store
  and the antivirus are services: parameters.
\<close>

section \<open>Replacing in texts\<close>

text \<open>The text before and after the first occurrence of a pattern.\<close>

fun cut_at :: "string \<Rightarrow> string \<Rightarrow> (string \<times> string) option" where
  "cut_at p [] = (if p = [] then Some ([], []) else None)"
| "cut_at p (c # cs) =
     (if startsWith (c # cs) p then Some ([], drop (length p) (c # cs))
      else map_option (\<lambda>(a, b). (c # a, b)) (cut_at p cs))"

definition has_text :: "string \<Rightarrow> string \<Rightarrow> bool" where
  "has_text s p = (cut_at p s \<noteq> None)"

text \<open>\<open>s.replace(/p/, r)\<close> for a literal pattern.\<close>

definition replace_first :: "string \<Rightarrow> string \<Rightarrow> string \<Rightarrow> string" where
  "replace_first p r s = (case cut_at p s of None \<Rightarrow> s | Some (a, b) \<Rightarrow> a @ r @ b)"

definition word_char :: "char \<Rightarrow> bool" where
  "word_char c = (is_digit c \<or> CHR ''A'' \<le> c \<and> c \<le> CHR ''Z'' \<or> CHR ''a'' \<le> c \<and> c \<le> CHR ''z'' \<or> c = CHR ''_'')"

text \<open>\<open>s.replace(/p\b/, r)\<close>, for a pattern that ends in a letter.\<close>

fun replace_word :: "string \<Rightarrow> string \<Rightarrow> string \<Rightarrow> string" where
  "replace_word p r [] = []"
| "replace_word p r (c # cs) =
     (let rest = drop (length p) (c # cs)
      in if startsWith (c # cs) p \<and> (rest = [] \<or> \<not> word_char (hd rest)) then r @ rest
         else c # replace_word p r cs)"

section \<open>The marks\<close>

definition TEXT :: string where
  "TEXT = ''SENSITIVE DOCUMENT''"

definition vertical :: "watermark_position \<Rightarrow> string" where
  "vertical position = (case position of HEADER \<Rightarrow> ''top'' | FOOTER \<Rightarrow> ''bottom'' | CENTER \<Rightarrow> ''center'')"

definition wordWatermark :: "watermark_position \<Rightarrow> string" where
  \<open>wordWatermark position =
     ''<w:p><w:pPr><w:jc w:val="center"/></w:pPr><w:r><w:pict><v:shape id="ISMS-Sensitive-Watermark" type="#_x0000_t136" style="position:absolute;width:440pt;height:80pt;z-index:-251654144;mso-position-horizontal:center;mso-position-horizontal-relative:page;mso-position-vertical:'' @
     vertical position @
     '';mso-position-vertical-relative:page;rotation:315" fillcolor="#D65A5A" stroked="f"><v:fill opacity="0.18"/><v:textpath style="font-family:Arial;font-size:34pt;font-weight:bold" string="'' @
     TEXT @ ''"/></v:shape></w:pict></w:r></w:p>''\<close>

definition docx_xml :: "watermark_position \<Rightarrow> string \<Rightarrow> string" where
  \<open>docx_xml position xml =
     (let updated = (if has_text xml ''xmlns:v='' then xml
            else replace_word ''<w:document'' ''<w:document xmlns:v="urn:schemas-microsoft-com:vml"'' xml);
          marker = wordWatermark position
      in if position = FOOTER then replace_first ''</w:body>'' (marker @ ''</w:body>'') updated
         else replace_first ''<w:body>'' (''<w:body>'' @ marker) updated)\<close>

text \<open>\<open>/<headerFooter[\s>]/.test(xml)\<close>.\<close>

fun header_opens :: "string \<Rightarrow> bool" where
  "header_opens [] = False"
| "header_opens (c # cs) =
     (let rest = drop (length ''<headerFooter'') (c # cs)
      in startsWith (c # cs) ''<headerFooter'' \<and> rest \<noteq> [] \<and> (is_space (hd rest) \<or> hd rest = CHR ''>'') \<or> header_opens cs)"

definition header_block :: "watermark_position \<Rightarrow> string" where
  "header_block position =
     (let tag = (if position = FOOTER then ''oddFooter'' else ''oddHeader'');
          prefix = (if position = CENTER then ''&amp;C&amp;24&amp;KCC7777'' else ''&amp;C&amp;14&amp;KCC7777'')
      in ''<headerFooter><'' @ tag @ ''>'' @ prefix @ TEXT @ ''</'' @ tag @ ''></headerFooter>'')"

text \<open>\<open>xml.replace(/<headerFooter[\s\S]*?<\/headerFooter>/, block)\<close>.\<close>

definition replace_header :: "string \<Rightarrow> string \<Rightarrow> string" where
  "replace_header block xml =
     (case cut_at ''<headerFooter'' xml of
        None \<Rightarrow> xml
      | Some (a, rest) \<Rightarrow> (case cut_at ''</headerFooter>'' rest of None \<Rightarrow> xml | Some (_, b) \<Rightarrow> a @ block @ b))"

definition xlsx_xml :: "watermark_position \<Rightarrow> string \<Rightarrow> string" where
  "xlsx_xml position xml =
     (let block = header_block position
      in if header_opens xml then replace_header block xml
         else replace_first ''</worksheet>'' (block @ ''</worksheet>'') xml)"

text \<open>\<open>/^xl\/worksheets\/sheet\d+\.xml$/\<close>.\<close>

definition sheet_name :: "string \<Rightarrow> bool" where
  "sheet_name name =
     (let rest = drop (length ''xl/worksheets/sheet'') name
      in startsWith name ''xl/worksheets/sheet'' \<and> takeWhile is_digit rest \<noteq> [] \<and> dropWhile is_digit rest = ''.xml'')"

record office =
  unzip :: "string \<Rightarrow> (string \<times> string) list option"
  zip_up :: "(string \<times> string) list \<Rightarrow> string"
  mark_pdf :: "string \<Rightarrow> watermark_position \<Rightarrow> string option"

definition replaceZipEntry :: "office \<Rightarrow> string \<Rightarrow> (string \<Rightarrow> bool) \<Rightarrow> (string \<Rightarrow> string) \<Rightarrow> string outcome" where
  "replaceZipEntry O1 content predicate transform =
     (case unzip O1 content of
        None \<Rightarrow> Inl (InternalError ''archive'')
      | Some archive \<Rightarrow>
          Inr (zip_up O1 (map (\<lambda>(name, xml). (name, if predicate name then transform xml else xml)) archive)))"

definition PDF_TYPE :: string where
  "PDF_TYPE = ''application/pdf''"

definition DOCX_TYPE :: string where
  "DOCX_TYPE = ''application/vnd.openxmlformats-officedocument.wordprocessingml.document''"

definition XLSX_TYPE :: string where
  "XLSX_TYPE = ''application/vnd.openxmlformats-officedocument.spreadsheetml.sheet''"

definition applyPermanentWatermark :: "office \<Rightarrow> string \<Rightarrow> string \<Rightarrow> watermark_position \<Rightarrow> string outcome" where
  "applyPermanentWatermark O1 content mimeType position =
     (if mimeType = PDF_TYPE
      then (case mark_pdf O1 content position of None \<Rightarrow> Inl (InternalError ''pdf'') | Some c \<Rightarrow> Inr c)
      else if mimeType = DOCX_TYPE then replaceZipEntry O1 content (\<lambda>n. n = ''word/document.xml'') (docx_xml position)
      else if mimeType = XLSX_TYPE then replaceZipEntry O1 content sheet_name (xlsx_xml position)
      else Inl (Conflict ''Permanent watermarking is unsupported for this file type''))"

section \<open>Distributed copies\<close>

record watermark_io =
  wi_office :: office
  wi_read :: "string \<Rightarrow> string option"
  wi_clean :: "string \<Rightarrow> bool"
  wi_put :: "string \<Rightarrow> string \<Rightarrow> bool"

definition document_versions :: "db \<Rightarrow> string \<Rightarrow> version_row list" where
  "document_versions s i = filter (\<lambda>v. ver_documentId v = i) (versions s)"

definition latest_versions :: "version_row list \<Rightarrow> version_row list" where
  "latest_versions vs = filter (\<lambda>v. \<not> list_ex (\<lambda>c. ver_locale c = ver_locale v \<and> ver_version v < ver_version c) vs) vs"

text \<open>The marked copy of one version, with the key it gets.\<close>

definition distributed_copy :: "env \<Rightarrow> watermark_io \<Rightarrow> db \<Rightarrow> document_row \<Rightarrow> version_row \<Rightarrow> file_row \<Rightarrow> (string \<times> string) outcome" where
  "distributed_copy E W s d v f =
     (case wi_read W (sf_objectKey f) of
        None \<Rightarrow> Inl (InternalError ''storage'')
      | Some source \<Rightarrow>
          (case applyPermanentWatermark (wi_office W) source (sf_mimeType f) (doc_watermarkPosition d) of
             Inl e \<Rightarrow> Inl e
           | Inr stamped \<Rightarrow>
               if \<not> wi_clean W stamped then Inl (Conflict ''Watermarked distribution file failed antivirus scanning'')
               else (case derivedKey (sf_objectKey f)
                       (''documents/'' @ doc_id d @ ''/'' @ ver_locale v @ ''/distributed/'' @ uuid E (uuid_next s) @
                        toLowerCase (extname (sf_originalName f))) of
                   Inl e \<Rightarrow> Inl e
                 | Inr key \<Rightarrow> if wi_put W key stamped then Inr (key, stamped) else Inl (InternalError ''storage''))))"

definition distributed_file :: "env \<Rightarrow> db \<Rightarrow> file_row \<Rightarrow> string \<times> string \<Rightarrow> file_row" where
  "distributed_file E s f km =
     \<lparr>sf_id = uuid E (Suc (uuid_next s)), sf_objectKey = fst km, sf_originalName = sf_originalName f, sf_mimeType = sf_mimeType f,
      sf_size = int (length (snd km)), sf_sha256 = sha256 E (snd km), sf_purgedAt = None, sf_createdAt = now E\<rparr>"

definition store_copy :: "env \<Rightarrow> db \<Rightarrow> version_row \<Rightarrow> file_row \<Rightarrow> db" where
  "store_copy E s v g =
     s\<lparr>storedfiles := storedfiles s @ [g],
       scans := scans s @ [\<lparr>sc_storedFileId = sf_id g, sc_status = ScanClean, sc_scannedAt = now E\<rparr>],
       versions := update_rows (\<lambda>x. ver_id x = ver_id v) (\<lambda>x. x\<lparr>ver_distributedStoredFileId := Some (sf_id g)\<rparr>) (versions s),
       uuid_next := uuid_next s + 2\<rparr>"

fun prepare_loop ::
    "env \<Rightarrow> watermark_io \<Rightarrow> db \<Rightarrow> document_row \<Rightarrow> version_row list \<Rightarrow> db \<times> (string \<times> int \<times> string) list outcome" where
  "prepare_loop E W s d [] = (s, Inr [])"
| "prepare_loop E W s d (v # vs) =
     (if ver_distributedStoredFileId v \<noteq> None then prepare_loop E W s d vs
      else (case find_file s (ver_storedFileId v) of
          None \<Rightarrow> (s, Inl (InternalError ''file''))
        | Some f \<Rightarrow>
            (case distributed_copy E W s d v f of
               Inl e \<Rightarrow> (s, Inl e)
             | Inr km \<Rightarrow>
                 (let g = distributed_file E s f km
                  in case prepare_loop E W (store_copy E s v g) d vs of
                       (s', Inl e) \<Rightarrow> (s', Inl e)
                     | (s', Inr gs) \<Rightarrow> (s', Inr ((ver_locale v, ver_version v, sf_sha256 g) # gs))))))"

definition prepareForPublication :: "env \<Rightarrow> watermark_io \<Rightarrow> db \<Rightarrow> string \<Rightarrow> db \<times> (string \<times> int \<times> string) list outcome" where
  "prepareForPublication E W s i =
     (case find_first (\<lambda>d. doc_id d = i) (documents s) of
        None \<Rightarrow> (s, Inr [])
      | Some d \<Rightarrow>
          if \<not> doc_sensitive d then (s, Inr [])
          else prepare_loop E W s d (latest_versions (document_versions s i)))"

section \<open>The mark is in the text\<close>

lemma cut_at_Some: "cut_at p s = Some (a, b) \<Longrightarrow> s = a @ p @ b"
proof (induction s arbitrary: a)
  case (Cons c s)
  show ?case
  proof (cases "startsWith (c # s) p")
    case True
    then have "take (length p) (c # s) = p" by (simp add: startsWith_def)
    with Cons.prems True show ?thesis by (metis append_Nil append_take_drop_id cut_at.simps(2) option.inject prod.inject)
  next
    case False
    with Cons show ?thesis by auto
  qed
qed (simp split: if_splits)

lemma cut_at_found: "cut_at p (a @ p @ b) \<noteq> None"
proof (induction a)
  case Nil
  have "startsWith (p @ b) p" by (simp add: startsWith_def)
  then show ?case by (cases "p @ b") auto
qed auto

lemma has_text_iff: "has_text s p \<longleftrightarrow> (\<exists>a b. s = a @ p @ b)"
proof
  assume "has_text s p"
  then obtain a b where "cut_at p s = Some (a, b)" by (auto simp: has_text_def)
  then show "\<exists>a b. s = a @ p @ b" using cut_at_Some by blast
next
  assume "\<exists>a b. s = a @ p @ b"
  then show "has_text s p" using cut_at_found unfolding has_text_def by blast
qed

lemma has_text_prefix: "has_text (p @ b) p"
  unfolding has_text_iff by (metis append_Nil)

lemma has_text_append: "has_text b p \<Longrightarrow> has_text (a @ b) p"
  unfolding has_text_iff by (metis append.assoc)

lemma has_text_infix: "has_text m p \<Longrightarrow> has_text (a @ m @ b) p"
  unfolding has_text_iff by (metis append.assoc)

lemma replace_first_marks: "has_text s p \<Longrightarrow> has_text r q \<Longrightarrow> has_text (replace_first p r s) q"
  unfolding replace_first_def has_text_def [of s] by (auto split: option.splits intro: has_text_infix)

lemma word_mark: "has_text (wordWatermark position) TEXT"
  unfolding wordWatermark_def by (intro has_text_append has_text_prefix)

lemma block_mark: "has_text (header_block position) TEXT"
  unfolding header_block_def Let_def by (intro has_text_append has_text_prefix)

lemma occurrence_apart:
  assumes eq: "a @ p @ b = x @ q @ y" and p: "p \<noteq> []" "hd p \<notin> set (tl q)" and q: "q \<noteq> []" "hd q \<notin> set (tl p)"
    and differ: "\<And>u v. p @ u \<noteq> q @ v"
  shows "has_text a q \<or> has_text b q"
proof -
  have inside: "hd w \<in> set (tl z)" if "z = us @ w" "us \<noteq> []" "w \<noteq> []" for us w z :: string
    using that by (cases us) auto
  from append_eq_append_conv2 [THEN iffD1, OF eq]
  consider us where "a = x @ us" "us @ p @ b = q @ y" | us where "p @ b = us @ q @ y" by blast
  then show ?thesis
  proof cases
    case (1 us)
    from append_eq_append_conv2 [THEN iffD1, OF 1(2)]
    consider vs where "us = q @ vs" | vs where "us @ vs = q" "p @ b = vs @ y" by blast
    then show ?thesis
    proof cases
      case 1
      with \<open>a = x @ us\<close> show ?thesis by (auto simp: has_text_iff)
    next
      case (2 vs)
      show ?thesis
      proof (cases "vs = []")
        case True
        with 2 \<open>a = x @ us\<close> have "a = x @ q @ []" by simp
        then show ?thesis unfolding has_text_iff by blast
      next
        case False
        with 2(2) p(1) have "hd vs = hd p" by (metis hd_append2)
        with 2 False p(2) inside [of q us vs] differ [of b y] show ?thesis by (cases "us = []") auto
      qed
    qed
  next
    case (2 us)
    from append_eq_append_conv2 [THEN iffD1, OF 2]
    consider vs where "p = us @ vs" "vs @ b = q @ y" | vs where "b = vs @ q @ y" by blast
    then show ?thesis
    proof cases
      case (1 vs)
      show ?thesis
      proof (cases "vs = []")
        case True
        with 1(2) show ?thesis by (simp add: has_text_prefix)
      next
        case False
        with 1(2) q(1) have "hd vs = hd q" by (metis hd_append2)
        with 1 False q(2) inside [of p us vs] differ [of b y] show ?thesis by (cases "us = []") auto
      qed
    qed (auto simp: has_text_iff)
  qed
qed

lemma replace_word_cases: "replace_word p r s = s \<or> (\<exists>a b. s = a @ p @ b \<and> replace_word p r s = a @ r @ b)"
proof (induction s)
  case (Cons c s)
  let ?rest = "drop (length p) (c # s)"
  show ?case
  proof (cases "startsWith (c # s) p \<and> (?rest = [] \<or> \<not> word_char (hd ?rest))")
    case True
    then have "c # s = p @ ?rest" by (metis append_take_drop_id startsWith_def)
    moreover have "replace_word p r (c # s) = r @ ?rest" using True by (simp add: Let_def)
    ultimately show ?thesis by (intro disjI2 exI [of _ "[]"] exI [of _ ?rest]) simp
  next
    case False
    then have e: "replace_word p r (c # s) = c # replace_word p r s"
      unfolding replace_word.simps Let_def by (rule if_not_P)
    from Cons show ?thesis
    proof
      assume "replace_word p r s = s"
      with e show ?thesis by simp
    next
      assume "\<exists>a b. s = a @ p @ b \<and> replace_word p r s = a @ r @ b"
      then obtain a b where "s = a @ p @ b" "replace_word p r s = a @ r @ b" by blast
      with e show ?thesis by (intro disjI2 exI [of _ "c # a"] exI [of _ b]) simp
    qed
  qed
qed simp

lemma namespace_keeps:
  assumes "has_text xml q" and "q = ''<w:body>'' \<or> q = ''</w:body>''"
  shows "has_text (replace_word ''<w:document'' r xml) q"
proof -
  from replace_word_cases [of "''<w:document''" r xml] consider "replace_word ''<w:document'' r xml = xml"
    | a b where "xml = a @ ''<w:document'' @ b" "replace_word ''<w:document'' r xml = a @ r @ b" by blast
  then show ?thesis
  proof cases
    case 1
    with assms(1) show ?thesis by simp
  next
    case (2 a b)
    from assms(1) obtain x y where "xml = x @ q @ y" by (auto simp: has_text_iff)
    with 2(1) have "a @ ''<w:document'' @ b = x @ q @ y" by simp
    then have "has_text a q \<or> has_text b q"
      by (rule occurrence_apart) (use assms(2) in auto)
    with 2(2) show ?thesis using has_text_infix [of a q "[]" "r @ b"] has_text_append [OF has_text_append, of b q a r] by auto
  qed
qed

lemma cut_at_first: "\<exists>a' b'. cut_at p (a @ p @ b) = Some (a', b') \<and> length a' \<le> length a"
proof (induction a)
  case Nil
  have "startsWith (p @ b) p" by (simp add: startsWith_def)
  then show ?case by (cases "p @ b") auto
next
  case (Cons c a)
  then show ?case by (cases "startsWith (c # a @ p @ b) p") auto
qed

lemma cut_at_rest:
  assumes "cut_at p (a @ p @ b @ q @ c) = Some (a', b')"
  shows "has_text b' q"
proof -
  obtain x y where "cut_at p (a @ p @ b @ q @ c) = Some (x, y)" "length x \<le> length a" using cut_at_first [of p a "b @ q @ c"] by auto
  with assms have le: "length a' \<le> length a" by simp
  have "a @ p @ b @ q @ c = a' @ p @ b'" by (rule cut_at_Some [OF assms])
  then have "drop (length a' + length p) ((a @ p) @ b @ q @ c) = b'" by (simp add: drop_append)
  moreover have "drop (length a' + length p) ((a @ p) @ b @ q @ c) = drop (length a' + length p) (a @ p) @ b @ q @ c"
    using le by (simp add: drop_append)
  ultimately show ?thesis using has_text_append [OF has_text_append [OF has_text_prefix]] by metis
qed

lemma replace_header_marks: "\<exists>x y. replace_header block (a @ ''<headerFooter'' @ b @ ''</headerFooter>'' @ c) = x @ block @ y"
proof -
  let ?xml = "a @ ''<headerFooter'' @ b @ ''</headerFooter>'' @ c"
  obtain a' b' where cut: "cut_at ''<headerFooter'' ?xml = Some (a', b')" using cut_at_first by blast
  from cut_at_rest [OF cut] obtain u v where "cut_at ''</headerFooter>'' b' = Some (u, v)" by (auto simp: has_text_def)
  with cut have "replace_header block ?xml = a' @ block @ v" by (simp only: replace_header_def option.case prod.case)
  then show ?thesis by blast
qed

text \<open>A sensitive copy carries its mark. The main part of a Word file that has a body, and every sheet of an
  Excel file that either has no header element, or one with an end tag, contains the words
  SENSITIVE DOCUMENT after marking, for every position.\<close>

theorem watermark_present:
  shows "(has_text xml (if position = FOOTER then ''</w:body>'' else ''<w:body>'') \<longrightarrow> has_text (docx_xml position xml) TEXT) \<and>
    (\<not> header_opens sheet \<and> has_text sheet ''</worksheet>'' \<or>
     header_opens sheet \<and> (\<exists>a b c. sheet = a @ ''<headerFooter'' @ b @ ''</headerFooter>'' @ c) \<longrightarrow>
     has_text (xlsx_xml position sheet) TEXT)"
proof -
  have mark: "has_text (a @ wordWatermark position @ b) TEXT" "has_text (a @ header_block position @ b) TEXT" for a b
    by (rule has_text_infix [OF word_mark]) (rule has_text_infix [OF block_mark])
  have "has_text (docx_xml position xml) TEXT"
    if "has_text xml (if position = FOOTER then ''</w:body>'' else ''<w:body>'')"
  proof -
    have "has_text (if has_text xml ''xmlns:v='' then xml else replace_word ''<w:document'' r xml)
        (if position = FOOTER then ''</w:body>'' else ''<w:body>'')" for r
      using that namespace_keeps [of xml] by (cases "position = FOOTER") (simp_all split: if_split)
    note tag = this
    show ?thesis
    proof (cases "position = FOOTER")
      case True
      have "has_text (if has_text xml ''xmlns:v='' then xml else replace_word ''<w:document'' r xml) ''</w:body>''" for r
        using tag [of r] unfolding if_P [OF True] .
      from replace_first_marks [OF this mark(1) [of "[]", unfolded append_Nil]] show ?thesis
        unfolding docx_xml_def Let_def if_P [OF True] .
    next
      case False
      from tag False have "has_text (if has_text xml ''xmlns:v='' then xml else replace_word ''<w:document'' r xml) ''<w:body>''" for r
        by (simp only: if_False)
      from replace_first_marks [OF this mark(1) [of _ "[]", unfolded append_Nil2]] show ?thesis
        unfolding docx_xml_def Let_def if_not_P [OF False] .
    qed
  qed
  moreover have "has_text (xlsx_xml position sheet) TEXT" if "\<not> header_opens sheet" "has_text sheet ''</worksheet>''"
    using that mark(2) [of "[]"] unfolding xlsx_xml_def Let_def by (simp only: if_False append_Nil replace_first_marks)
  moreover have "has_text (xlsx_xml position (a @ ''<headerFooter'' @ b @ ''</headerFooter>'' @ c)) TEXT"
    if "header_opens (a @ ''<headerFooter'' @ b @ ''</headerFooter>'' @ c)" for a b c
  proof -
    obtain x y where "replace_header (header_block position) (a @ ''<headerFooter'' @ b @ ''</headerFooter>'' @ c) =
        x @ header_block position @ y" using replace_header_marks by blast
    then show ?thesis using mark(2) [of x y] unfolding xlsx_xml_def Let_def if_P [OF that] by (simp only:)
  qed
  ultimately show ?thesis by blast
qed

text \<open>Some sheets lose their mark. When a sheet has a header element that closes itself, with attributes, the
  sheet is left as it is, without a mark and without an error.\<close>

theorem watermark_lost:
  assumes "header_opens sheet" and "\<not> has_text sheet ''</headerFooter>''"
  shows "xlsx_xml position sheet = sheet"
proof -
  have "cut_at ''</headerFooter>'' rest = None" if "cut_at ''<headerFooter'' sheet = Some (a, rest)" for a rest
  proof (rule ccontr)
    assume "cut_at ''</headerFooter>'' rest \<noteq> None"
    then have "has_text rest ''</headerFooter>''" by (simp add: has_text_def)
    then have "has_text (a @ ''<headerFooter'' @ rest) ''</headerFooter>''" by (intro has_text_append)
    with cut_at_Some [OF that] assms(2) show False by simp
  qed
  with assms(1) show ?thesis by (auto simp: xlsx_xml_def Let_def replace_header_def split: option.splits prod.splits)
qed

theorem watermark_present_witness:
  "has_text (docx_xml CENTER ''<w:document><w:body></w:body></w:document>'') TEXT \<and> has_text (xlsx_xml HEADER ''<worksheet></worksheet>'') TEXT"
proof -
  have "has_text ''<w:document><w:body></w:body></w:document>'' ''<w:body>''" "\<not> header_opens ''<worksheet></worksheet>''"
    "has_text ''<worksheet></worksheet>'' ''</worksheet>''" by code_simp+
  then show ?thesis
    using watermark_present [of "''<w:document><w:body></w:body></w:document>''" CENTER "''<worksheet></worksheet>''"]
      watermark_present [of "[]" HEADER "''<worksheet></worksheet>''"] by simp
qed

theorem watermark_lost_witness:
  "xlsx_xml CENTER ''<worksheet><headerFooter a=1 /></worksheet>'' = ''<worksheet><headerFooter a=1 /></worksheet>''"
proof -
  have "header_opens ''<worksheet><headerFooter a=1 /></worksheet>''"
    "\<not> has_text ''<worksheet><headerFooter a=1 /></worksheet>'' ''</headerFooter>''" by code_simp+
  then show ?thesis by (rule watermark_lost)
qed

section \<open>Every latest version is distributed\<close>

lemma store_copy_simps [simp]:
  "storedfiles (store_copy E s v g) = storedfiles s @ [g]" "documents (store_copy E s v g) = documents s"
  "uuid_next (store_copy E s v g) = uuid_next s + 2"
  "map ver_id (versions (store_copy E s v g)) = map ver_id (versions s)"
  by (auto simp: store_copy_def intro: map_update_rows)

text \<open>What a distributed copy of a version is: a stored file whose digest is that of the marked content of the
  version's file, free of viruses.\<close>

definition marked_copy :: "env \<Rightarrow> watermark_io \<Rightarrow> document_row \<Rightarrow> file_row \<Rightarrow> file_row \<Rightarrow> bool" where
  "marked_copy E W d f g \<longleftrightarrow>
     (\<exists>source stamped. wi_read W (sf_objectKey f) = Some source \<and>
        applyPermanentWatermark (wi_office W) source (sf_mimeType f) (doc_watermarkPosition d) = Inr stamped \<and>
        wi_clean W stamped \<and> sf_sha256 g = sha256 E stamped \<and> sf_mimeType g = sf_mimeType f \<and> sf_purgedAt g = None)"

definition distributed :: "env \<Rightarrow> watermark_io \<Rightarrow> document_row \<Rightarrow> db \<Rightarrow> version_row \<Rightarrow> bool" where
  "distributed E W d s v \<longleftrightarrow>
     (\<exists>x\<in>set (versions s). ver_id x = ver_id v \<and>
       (\<exists>f\<in>set (storedfiles s). \<exists>g\<in>set (storedfiles s). sf_id f = ver_storedFileId v \<and> marked_copy E W d f g \<and>
          ver_distributedStoredFileId x = Some (sf_id g)))"

lemma distributed_copy_marked:
  "distributed_copy E W s d v f = Inr km \<Longrightarrow> marked_copy E W d f (distributed_file E s f km)"
  by (auto simp: distributed_copy_def marked_copy_def distributed_file_def split: option.splits sum.splits if_splits)

lemma distributed_store:
  assumes "distributed E W d s v" and "ver_id v \<noteq> ver_id w"
  shows "distributed E W d (store_copy E s w g) v"
proof -
  from assms(1) obtain x f h where *: "x \<in> set (versions s)" "ver_id x = ver_id v" "f \<in> set (storedfiles s)" "h \<in> set (storedfiles s)"
    "sf_id f = ver_storedFileId v" "marked_copy E W d f h" "ver_distributedStoredFileId x = Some (sf_id h)"
    unfolding distributed_def by blast
  have "x \<in> set (versions (store_copy E s w g))"
    using *(1,2) assms(2) by (auto simp: store_copy_def intro: update_rows_frame)
  with * show ?thesis unfolding distributed_def by (intro bexI [of _ x] conjI bexI [of _ f] bexI [of _ h]) auto
qed

lemma distributed_own:
  assumes "v \<in> set (versions s)" and "find_file s (ver_storedFileId v) = Some f" and "marked_copy E W d f g"
  shows "distributed E W d (store_copy E s v g) v"
proof -
  let ?x = "v\<lparr>ver_distributedStoredFileId := Some (sf_id g)\<rparr>"
  have "?x \<in> set (versions (store_copy E s v g))" using assms(1) by (force simp: store_copy_def set_update_rows)
  moreover have "f \<in> set (storedfiles s)" "sf_id f = ver_storedFileId v" using assms(2) by (auto simp: find_file_def dest: find_first_Some)
  ultimately show ?thesis
    using assms(3) unfolding distributed_def by (intro bexI [of _ ?x] conjI bexI [of _ f] bexI [of _ g]) auto
qed

lemma prepare_loop_fst:
  "fst (prepare_loop E W s d (v # vs)) =
     (if ver_distributedStoredFileId v \<noteq> None then fst (prepare_loop E W s d vs)
      else (case find_file s (ver_storedFileId v) of
          None \<Rightarrow> s
        | Some f \<Rightarrow>
            (case distributed_copy E W s d v f of
               Inl e \<Rightarrow> s
             | Inr km \<Rightarrow> fst (prepare_loop E W (store_copy E s v (distributed_file E s f km)) d vs))))"
  by (simp add: Let_def split: option.split sum.split prod.split)

declare prepare_loop.simps(2) [simp del]

lemma prepare_loop_keeps:
  "distributed E W d s v \<Longrightarrow> ver_id v \<notin> ver_id ` set vs \<Longrightarrow> distributed E W d (fst (prepare_loop E W s d vs)) v"
  by (induction vs arbitrary: s)
    (auto simp: prepare_loop_fst distributed_store split: option.split sum.split)

lemma prepare_loop_appends: "\<exists>new. storedfiles (fst (prepare_loop E W s d vs)) = storedfiles s @ new"
proof (induction vs arbitrary: s)
  case (Cons v vs)
  have "\<exists>new. storedfiles (fst (prepare_loop E W (store_copy E s v g) d vs)) = storedfiles s @ new" for g
    using Cons [of "store_copy E s v g"] by auto
  with Cons show ?case by (auto simp: prepare_loop_fst split: option.split sum.split)
qed simp

lemma prepare_loop_Inr:
  assumes "snd (prepare_loop E W s d (v # vs)) = Inr gs" and "ver_distributedStoredFileId v = None"
  obtains f km gs' where "find_file s (ver_storedFileId v) = Some f" "distributed_copy E W s d v f = Inr km"
    "snd (prepare_loop E W (store_copy E s v (distributed_file E s f km)) d vs) = Inr gs'"
  using assms by (auto simp: prepare_loop.simps Let_def split: option.splits sum.splits prod.splits)

lemma prepare_loop_distributes:
  assumes "snd (prepare_loop E W s d vs) = Inr gs" and "distinct (map ver_id vs)"
    and "\<forall>v\<in>set vs. \<exists>x\<in>set (versions s). ver_id x = ver_id v \<and> ver_storedFileId x = ver_storedFileId v"
  shows "\<forall>v\<in>set vs. ver_distributedStoredFileId v \<noteq> None \<or> distributed E W d (fst (prepare_loop E W s d vs)) v"
  using assms
proof (induction vs arbitrary: s gs)
  case (Cons v vs)
  have d: "distinct (map ver_id vs)" "ver_id v \<notin> ver_id ` set vs" using Cons.prems(2) by simp_all
  show ?case
  proof (cases "ver_distributedStoredFileId v")
    case (Some i)
    with Cons show ?thesis by (simp add: prepare_loop_fst prepare_loop.simps(2))
  next
    case None
    obtain f km gs' where f: "find_file s (ver_storedFileId v) = Some f" "distributed_copy E W s d v f = Inr km"
      and gs': "snd (prepare_loop E W (store_copy E s v (distributed_file E s f km)) d vs) = Inr gs'"
      using prepare_loop_Inr [OF Cons.prems(1) None] .
    let ?s = "store_copy E s v (distributed_file E s f km)"
    have "\<exists>x\<in>set (versions ?s). ver_id x = ver_id w \<and> ver_storedFileId x = ver_storedFileId w" if w: "w \<in> set vs" for w
    proof -
      from Cons.prems(3) w obtain x where x: "x \<in> set (versions s)" "ver_id x = ver_id w" "ver_storedFileId x = ver_storedFileId w" by auto
      have "ver_id x \<noteq> ver_id v" using d(2) w x(2) by (metis image_eqI)
      then have "x \<in> set (versions ?s)" using x(1) by (auto simp: store_copy_def intro: update_rows_frame)
      with x show ?thesis by blast
    qed
    with Cons.IH [OF gs' d(1)] have IH: "\<forall>v\<in>set vs. ver_distributedStoredFileId v \<noteq> None \<or> distributed E W d (fst (prepare_loop E W ?s d vs)) v"
      by blast
    from Cons.prems(3) obtain x where x: "x \<in> set (versions s)" "ver_id x = ver_id v" "ver_storedFileId x = ver_storedFileId v" by auto
    have "distributed E W d (store_copy E s x (distributed_file E s f km)) x"
      using f x distributed_copy_marked [OF f(2)] by (intro distributed_own) simp_all
    then have "distributed E W d ?s v" using x by (simp add: distributed_def store_copy_def)
    then have "distributed E W d (fst (prepare_loop E W ?s d vs)) v" by (rule prepare_loop_keeps) (rule d(2))
    with IH None f show ?thesis by (simp add: prepare_loop_fst)
  qed
qed simp

text \<open>Nothing sensitive is published without its marked copy. After a successful preparation every latest
  version of a sensitive document has a distributed copy: the one that it had, or a new file, clean,
  whose digest is that of the marked content; all files that existed are kept as they were.\<close>

theorem preparation_distributes:
  assumes "prepareForPublication E W s i = (s', Inr gs)" and "find_first (\<lambda>d. doc_id d = i) (documents s) = Some d"
    and "doc_sensitive d" and "distinct (map ver_id (versions s))"
  shows "(\<forall>v\<in>set (latest_versions (document_versions s i)). ver_distributedStoredFileId v \<noteq> None \<or> distributed E W d s' v) \<and>
    (\<exists>new. storedfiles s' = storedfiles s @ new)"
proof -
  let ?vs = "latest_versions (document_versions s i)"
  have loop: "prepare_loop E W s d ?vs = (s', Inr gs)" using assms(1-3) by (simp add: prepareForPublication_def)
  have sub: "set ?vs \<subseteq> set (versions s)" by (auto simp: latest_versions_def document_versions_def)
  have "distinct (map ver_id ?vs)"
    unfolding latest_versions_def document_versions_def using assms(4) by (simp add: distinct_map inj_on_def)
  then have "\<forall>v\<in>set ?vs. ver_distributedStoredFileId v \<noteq> None \<or> distributed E W d (fst (prepare_loop E W s d ?vs)) v"
    using loop sub by (intro prepare_loop_distributes [of _ _ _ _ _ gs]) auto
  with loop prepare_loop_appends [of E W s d ?vs] show ?thesis by simp
qed

definition sample_io :: watermark_io where
  "sample_io = \<lparr>wi_office = \<lparr>unzip = (\<lambda>_. None), zip_up = (\<lambda>_. []), mark_pdf = (\<lambda>c _. Some (''M'' @ c))\<rparr>, wi_read = (\<lambda>_. Some ''pdf''),
     wi_clean = (\<lambda>_. True), wi_put = (\<lambda>_ _. True)\<rparr>"

definition secret_db :: db where
  "secret_db = sample_db\<lparr>documents := [sample_document\<lparr>doc_sensitive := True\<rparr>]\<rparr>"

theorem preparation_distributes_witness:
  "\<exists>s' gs. prepareForPublication sample_env sample_io secret_db ''d1'' = (s', Inr gs) \<and>
     distributed sample_env sample_io (sample_document\<lparr>doc_sensitive := True\<rparr>) s' sample_version"
proof -
  obtain s' r where p: "prepareForPublication sample_env sample_io secret_db ''d1'' = (s', r)" by fastforce
  have "snd (prepareForPublication sample_env sample_io secret_db ''d1'') = Inr [(''fr'', 1, ''Mpdf'')]" by code_simp
  with p have r: "r = Inr [(''fr'', 1, ''Mpdf'')]" by simp
  have ev: "find_first (\<lambda>d. doc_id d = ''d1'') (documents secret_db) = Some (sample_document\<lparr>doc_sensitive := True\<rparr>)"
    "latest_versions (document_versions secret_db ''d1'') = [sample_version]" "distinct (map ver_id (versions secret_db))"
    "ver_distributedStoredFileId sample_version = None" by code_simp+
  from preparation_distributes [OF p [unfolded r] ev(1) _ ev(3)] ev p r show ?thesis by auto
qed

end
