(* ===== verification/Reader.thy ===== *)
theory Reader
  imports Sensitive_Sharing Sign_Share Watermark
begin

text \<open>
  Reading documents (\<^verbatim>\<open>apps/api/src/controllers.ts\<close>, class \<open>DocumentsController\<close>): the page of a document,
  the preview and the download of its file, favourites. Recipients of a named share may view, and
  only view, one published sensitive document. The reader of protected Office files is a parameter.
\<close>

section \<open>Permissions\<close>

definition supportedLanguages :: "string list" where
  "supportedLanguages = [''fr'', ''en'', ''es'', ''sk'']"

definition canManageDocument :: "env \<Rightarrow> db \<Rightarrow> request \<Rightarrow> document_row \<Rightarrow> bool" where
  "canManageDocument E s req d = list_ex (\<lambda>p. can_on E s req d p) [Edit, Publish, Archive]"

definition live_document :: "db \<Rightarrow> string \<Rightarrow> document_row option" where
  "live_document s i = find_first (\<lambda>d. doc_id d = i \<and> doc_deletedAt d = None) (documents s)"

definition shared_with :: "env \<Rightarrow> db \<Rightarrow> request \<Rightarrow> document_row \<Rightarrow> bool" where
  "shared_with E s req d =
     (doc_sensitive d \<and> doc_status d = PUBLISHED \<and> hasSensitiveShare E s (doc_id d) (rq_username req))"

definition permissionNames :: "permission list" where
  "permissionNames = [Preview, Download, Upload, Edit, Publish, Archive]"

text \<open>The rights shown with a document: those of the rules or, for a share alone, preview only.\<close>

definition page_permissions :: "env \<Rightarrow> db \<Rightarrow> request \<Rightarrow> document_row \<Rightarrow> (permission \<times> bool) list" where
  "page_permissions E s req d =
     (let acl = map (\<lambda>p. (p, can_on E s req d p)) permissionNames
      in if shared_with E s req d \<and> \<not> can_on E s req d Preview then map (\<lambda>p. (p, p = Preview)) permissionNames else acl)"

section \<open>Traces of reading\<close>

definition put_activity :: "env \<Rightarrow> db \<Rightarrow> request \<Rightarrow> string \<Rightarrow> string \<Rightarrow> db" where
  "put_activity E s req i action =
     (let p = (\<lambda>a. ua_identity a = rq_username req \<and> ua_documentId a = i \<and> ua_action a = action)
      in s\<lparr>activities :=
           (if list_ex p (activities s) then update_rows p (\<lambda>a. a\<lparr>ua_occurredAt := now E\<rparr>) (activities s)
            else activities s @ [\<lparr>ua_identity = rq_username req, ua_documentId = i, ua_action = action, ua_occurredAt = now E\<rparr>])\<rparr>)"

definition count_view :: "db \<Rightarrow> string \<Rightarrow> db" where
  "count_view s i = s\<lparr>documents := update_rows (\<lambda>d. doc_id d = i) (\<lambda>d. d\<lparr>doc_viewCount := doc_viewCount d + 1\<rparr>) (documents s)\<rparr>"

definition count_download :: "db \<Rightarrow> string \<Rightarrow> db" where
  "count_download s i =
     s\<lparr>documents := update_rows (\<lambda>d. doc_id d = i) (\<lambda>d. d\<lparr>doc_downloadCount := doc_downloadCount d + 1\<rparr>) (documents s)\<rparr>"

definition deny_reading :: "env \<Rightarrow> db \<Rightarrow> request \<Rightarrow> string \<Rightarrow> db" where
  "deny_reading E s req i = record_audit E s req ''authorization.denied'' (''document:'' @ i) Denied None"

section \<open>The page of a document\<close>

record page_view =
  pg_document :: document_row
  pg_titles :: "translation_row list"
  pg_externalUrl :: "string option"
  pg_favorite :: bool
  pg_permissions :: "(permission \<times> bool) list"
  pg_reviews :: "review_row list"
  pg_versions :: "(version_row \<times> file_row option) list"

definition approved_reviews :: "db \<Rightarrow> string \<Rightarrow> review_row list" where
  "approved_reviews s i =
     find_many (\<lambda>r. - the (rv_decidedAt r)) 5
       (\<lambda>r. rv_documentId r = i \<and> rv_status r = RvApproved \<and> rv_decidedAt r \<noteq> None) (reviews s)"

definition page_of :: "env \<Rightarrow> db \<Rightarrow> request \<Rightarrow> document_row \<Rightarrow> page_view" where
  "page_of E s req d =
     (let permissions = page_permissions E s req d
      in \<lparr>pg_document = d\<lparr>doc_thumbnail := None\<rparr>, pg_titles = filter (\<lambda>t. tr_documentId t = doc_id d) (titles s),
          pg_externalUrl = (if (Preview, True) \<in> set permissions then doc_externalUrl d else None),
          pg_favorite = list_ex (\<lambda>f. sub_identity f = rq_username req \<and> sub_documentId f = doc_id d) (favorites s),
          pg_permissions = permissions,
          pg_reviews = approved_reviews s (doc_id d),
          pg_versions = map (\<lambda>v. (v, find_file s (ver_storedFileId v)))
            (sort_key ver_locale (sort_key (\<lambda>v. - ver_version v) (document_versions s (doc_id d))))\<rparr>)"

definition may_read :: "env \<Rightarrow> db \<Rightarrow> request \<Rightarrow> document_row \<Rightarrow> bool" where
  "may_read E s req d =
     (if doc_status d = PUBLISHED then shared_with E s req d \<or> can_on E s req d Read else canManageDocument E s req d)"

definition one :: "env \<Rightarrow> db \<Rightarrow> request \<Rightarrow> string \<Rightarrow> db \<times> page_view outcome" where
  "one E s req i =
     (case live_document s i of
        None \<Rightarrow> (deny_reading E s req i, Inl NotFound)
      | Some d \<Rightarrow>
          if \<not> may_read E s req d then (deny_reading E s req i, Inl NotFound)
          else (put_activity E (count_view s i) req i ''view'', Inr (page_of E s req d)))"

definition bySlug :: "env \<Rightarrow> db \<Rightarrow> request \<Rightarrow> string \<Rightarrow> db \<times> page_view outcome" where
  "bySlug E s req slug =
     (case find_first (\<lambda>d. doc_slug d = slug \<and> doc_deletedAt d = None) (documents s) of
        None \<Rightarrow> (s, Inl NotFound)
      | Some d \<Rightarrow> one E s req (doc_id d))"

section \<open>Favourites\<close>

definition addFavorite :: "env \<Rightarrow> db \<Rightarrow> request \<Rightarrow> string \<Rightarrow> db \<times> bool outcome" where
  "addFavorite E s req i =
     (case live_document s i of
        None \<Rightarrow> (s, Inl NotFound)
      | Some d \<Rightarrow>
          if \<not> (if doc_status d = PUBLISHED then can_on E s req d Read else canManageDocument E s req d)
          then (s, Inl NotFound)
          else (let key = \<lparr>sub_identity = rq_username req, sub_documentId = doc_id d\<rparr>
                in (if key \<in> set (favorites s) then s else s\<lparr>favorites := favorites s @ [key]\<rparr>, Inr True)))"

definition removeFavorite :: "db \<Rightarrow> request \<Rightarrow> string \<Rightarrow> db \<times> bool outcome" where
  "removeFavorite s req i =
     (s\<lparr>favorites := delete_rows (\<lambda>f. sub_identity f = rq_username req \<and> sub_documentId f = i) (favorites s)\<rparr>, Inr False)"

section \<open>Preview and download\<close>

definition latest_in_locale :: "db \<Rightarrow> string \<Rightarrow> string \<Rightarrow> version_row option" where
  "latest_in_locale s i locale =
     find_first_by (\<lambda>v. - ver_version v) (\<lambda>v. ver_documentId v = i \<and> ver_locale v = locale) (versions s)"

definition permission_name :: "permission \<Rightarrow> string" where
  "permission_name p = (if p = Preview then ''preview'' else ''download'')"

definition may_stream :: "env \<Rightarrow> db \<Rightarrow> request \<Rightarrow> document_row \<Rightarrow> permission \<Rightarrow> bool" where
  "may_stream E s req d p =
     ((can_on E s req d p \<or> p = Preview \<and> shared_with E s req d) \<and>
      (doc_status d \<noteq> PUBLISHED \<longrightarrow> canManageDocument E s req d))"

text \<open>The file to serve: the stored one or, for a sensitive document, the distributed copy, which is made
  when it is missing.\<close>

definition file_to_serve :: "env \<Rightarrow> watermark_io \<Rightarrow> db \<Rightarrow> document_row \<Rightarrow> version_row \<Rightarrow> db \<times> file_row option outcome" where
  "file_to_serve E W s d v =
     (if \<not> doc_sensitive d then (s, Inr (find_file s (ver_storedFileId v)))
      else (case Option.bind (ver_distributedStoredFileId v) (find_file s) of
          Some f \<Rightarrow> (s, Inr (Some f))
        | None \<Rightarrow>
            (case prepareForPublication E W s (doc_id d) of
               (s', Inl e) \<Rightarrow> (s', Inl e)
             | (s', Inr _) \<Rightarrow>
                 (s', Inr (Option.bind (find_first (\<lambda>x. ver_id x = ver_id v) (versions s'))
                    (\<lambda>x. Option.bind (ver_distributedStoredFileId x) (find_file s')))))))"

text \<open>\<open>basename(name).replace(/[\r\n"]/g, "_")\<close>.\<close>

definition safe_name :: "string \<Rightarrow> string" where
  "safe_name name =
     map (\<lambda>c. if c \<in> {CHR 0x0D, CHR 0x0A, CHR 0x22} then CHR ''_'' else c)
       (let parts = filter (\<lambda>p. p \<noteq> []) (split_on (\<lambda>c. c = CHR ''/'') name) in if parts = [] then [] else last parts)"

record stream_reply =
  sy_file :: file_row
  sy_headers :: "(string \<times> string) list"
  sy_body :: string

definition disposition :: "bool \<Rightarrow> string \<Rightarrow> string" where
  "disposition shown name =
     (if shown then ''inline'' else ''attachment'') @ ''; filename='' @ [CHR 0x22] @ name @ [CHR 0x22]"

text \<open>A protected Office file: \<open>mip\<close> decrypts it for the caller, or fails; \<open>busy\<close> when another preview is
  running.\<close>

definition mip_preview ::
    "env \<Rightarrow> watermark_io \<Rightarrow> bool \<Rightarrow> (request \<Rightarrow> file_row \<Rightarrow> string outcome) \<Rightarrow> db \<Rightarrow> request \<Rightarrow> string \<Rightarrow> string \<Rightarrow> file_row \<Rightarrow>
     db \<times> stream_reply outcome" where
  "mip_preview E W busy mip s req i locale f =
     (let details = Some (JObj [(''locale'', JStr locale)]);
          failed = record_quiet E s req ''document.mip.preview'' (''document:'' @ i) Denied details
      in if 50 * 1024 * 1024 < sf_size f then (s, Inl (BadRequest ''Protected file is too large''))
         else if busy then (s, Inl (ServiceUnavailable ''MIP reader is busy; retry later''))
         else (case mip req f of
             Inl e \<Rightarrow> (failed, Inl e)
           | Inr plain \<Rightarrow>
               if \<not> wi_clean W plain
               then (failed, Inl (ServiceUnavailable ''Protected preview did not pass antivirus validation''))
               else (record_quiet E s req ''document.mip.preview'' (''document:'' @ i) Success details,
                     Inr \<lparr>sy_file = f,
                          sy_headers = [(''Content-Type'', sf_mimeType f), (''Content-Length'', string_of_nat (length plain)),
                            (''Content-Disposition'', disposition True (safe_name (sf_originalName f))),
                            (''Cache-Control'', ''private, no-store''), (''Pragma'', ''no-cache''), (''X-Content-Type-Options'', ''nosniff'')],
                          sy_body = plain\<rparr>)))"

definition send_file ::
    "env \<Rightarrow> watermark_io \<Rightarrow> db \<Rightarrow> request \<Rightarrow> document_row \<Rightarrow> string \<Rightarrow> bool \<Rightarrow> file_row \<Rightarrow> db \<times> stream_reply outcome" where
  "send_file E W s req d locale shown f =
     (let s1 = (if shown then s else count_download s (doc_id d));
          s2 = (if \<not> shown \<and> doc_sensitive d
                then record_audit E s1 req ''document.download'' (''document:'' @ doc_id d) Success
                       (Some (JObj [(''locale'', JStr locale)]))
                else s1)
      in (s2,
          case wi_read W (sf_objectKey f) of
            None \<Rightarrow> Inl (InternalError ''Stored file is unavailable'')
          | Some body \<Rightarrow>
              Inr \<lparr>sy_file = f,
                   sy_headers = [(''Content-Type'', sf_mimeType f), (''Content-Length'', string_of_int (sf_size f)),
                     (''Content-Disposition'', disposition shown (safe_name (sf_originalName f))),
                     (''X-Content-Type-Options'', ''nosniff'')],
                   sy_body = body\<rparr>))"

definition stream ::
    "env \<Rightarrow> watermark_io \<Rightarrow> bool \<Rightarrow> (request \<Rightarrow> file_row \<Rightarrow> string outcome) \<Rightarrow> db \<Rightarrow> request \<Rightarrow> string \<Rightarrow> string \<Rightarrow> permission \<Rightarrow>
     bool \<Rightarrow> db \<times> stream_reply outcome" where
  "stream E W busy mip s req i locale p shown =
     (if locale \<notin> set supportedLanguages then (s, Inl (BadRequest ''Unsupported locale''))
      else (case live_document s i of
          None \<Rightarrow> (deny_reading E s req i, Inl NotFound)
        | Some d \<Rightarrow>
            if \<not> may_stream E s req d p then (deny_reading E s req i, Inl NotFound)
            else (case latest_in_locale s i locale of
                None \<Rightarrow> (s, Inl NotFound)
              | Some v \<Rightarrow>
                  if latest_scan s (ver_storedFileId v) \<noteq> Some ScanClean then (s, Inl NotFound)
                  else (case file_to_serve E W s d v of
                      (s1, Inl e) \<Rightarrow> (s1, Inl e)
                    | (s1, Inr None) \<Rightarrow> (s1, Inl NotFound)
                    | (s1, Inr (Some f)) \<Rightarrow>
                        (let s2 = put_activity E s1 req i (permission_name p)
                         in if shown \<and> isMipObjectKey (sf_objectKey f) then mip_preview E W busy mip s2 req i locale f
                            else send_file E W s2 req d locale shown f)))))"

definition preview where
  "preview E W busy mip s req i locale = stream E W busy mip s req i locale Preview True"

definition download_document where
  "download_document E W busy mip s req i locale = stream E W busy mip s req i locale Download False"

section \<open>Who may read\<close>

text \<open>C16: the reader opens what the panel opens, and named shares, and nothing else. The page of a document is
  given exactly when the document is visible by the rules, or is a published sensitive document
  shared with the caller; a refusal is recorded and changes no document.\<close>

theorem reader_admits:
  "((\<exists>v. snd (one E s req i) = Inr v) \<longleftrightarrow>
     (\<exists>d. visibleDocument E s req i = Some d) \<or> (\<exists>d. live_document s i = Some d \<and> shared_with E s req d)) \<and>
   ((\<exists>v. snd (one E s req i) = Inr v) \<or> snd (one E s req i) = Inl NotFound \<and> documents (fst (one E s req i)) = documents s \<and>
     (\<exists>e. audits (fst (one E s req i)) = audits s @ [e] \<and> ae_result e = Denied))"
  by (auto simp: one_def live_document_def visibleDocument_def may_read_def canManageDocument_def shared_with_def deny_reading_def
      split: option.splits)

lemma put_activity_tables [simp]:
  "documents (put_activity E s req i a) = documents s" "versions (put_activity E s req i a) = versions s"
  "storedfiles (put_activity E s req i a) = storedfiles s"
  by (simp_all add: put_activity_def Let_def)

lemma count_download_tables [simp]: "versions (count_download s i) = versions s" "storedfiles (count_download s i) = storedfiles s"
  by (simp_all add: count_download_def)

lemma find_file_id: "find_file s i = Some f \<Longrightarrow> sf_id f = i"
  by (auto simp: find_file_def dest: find_first_Some)

lemma mip_preview_file: "mip_preview E W busy mip s req i locale f = (s', Inr r) \<Longrightarrow> sy_file r = f \<and> versions s' = versions s"
  by (auto simp: mip_preview_def Let_def split: sum.splits if_splits)

lemma send_file_file: "send_file E W s req d locale shown f = (s', Inr r) \<Longrightarrow> sy_file r = f \<and> versions s' = versions s"
  by (auto simp: send_file_def Let_def split: option.splits if_splits)

lemma file_to_serve_sensitive:
  assumes "file_to_serve E W s d v = (s', Inr (Some f))" and "doc_sensitive d" and "v \<in> set (versions s)"
  shows "\<exists>x\<in>set (versions s'). ver_id x = ver_id v \<and> ver_distributedStoredFileId x = Some (sf_id f)"
proof (cases "Option.bind (ver_distributedStoredFileId v) (find_file s)")
  case (Some g)
  with assms show ?thesis by (auto simp: file_to_serve_def bind_eq_Some_conv dest: find_file_id)
next
  case None
  with assms(1,2) obtain gs where "prepareForPublication E W s (doc_id d) = (s', Inr gs)"
    and f: "Option.bind (find_first (\<lambda>x. ver_id x = ver_id v) (versions s'))
      (\<lambda>x. Option.bind (ver_distributedStoredFileId x) (find_file s')) = Some f"
    by (auto simp: file_to_serve_def split: prod.splits sum.splits)
  then show ?thesis by (auto simp: bind_eq_Some_conv dest!: find_first_Some find_file_id)
qed

lemma stream_Inr:
  assumes "stream E W busy mip s req i locale p shown = (s', Inr r)"
  obtains d v s1 where "live_document s i = Some d" "may_stream E s req d p" "latest_in_locale s i locale = Some v"
    "latest_scan s (ver_storedFileId v) = Some ScanClean" "file_to_serve E W s d v = (s1, Inr (Some (sy_file r)))" "versions s' = versions s1"
proof -
  from assms obtain d v s1 f where *: "live_document s i = Some d" "may_stream E s req d p" "latest_in_locale s i locale = Some v"
    "latest_scan s (ver_storedFileId v) = Some ScanClean" "file_to_serve E W s d v = (s1, Inr (Some f))"
    and fin: "(if shown \<and> isMipObjectKey (sf_objectKey f) then mip_preview E W busy mip (put_activity E s1 req i (permission_name p)) req i locale f
       else send_file E W (put_activity E s1 req i (permission_name p)) req d locale shown f) = (s', Inr r)"
    unfolding stream_def Let_def
    by (auto split: if_splits option.splits sum.splits prod.splits simp del: put_activity_tables)
  have "sy_file r = f \<and> versions s' = versions s1"
    using fin by (cases "shown \<and> isMipObjectKey (sf_objectKey f)") (auto dest!: mip_preview_file send_file_file)
  with * that show thesis by auto
qed

text \<open>C15: only marked copies of sensitive documents leave the portal. What is served of a sensitive document, for
  preview or download, is the distributed copy of the latest version in the asked language, and the
  version's file passed the antivirus.\<close>

theorem sensitive_served_distributed:
  assumes "stream E W busy mip s req i locale p shown = (s', Inr r)" and "live_document s i = Some d" and "doc_sensitive d"
  shows "\<exists>v. latest_in_locale s i locale = Some v \<and> latest_scan s (ver_storedFileId v) = Some ScanClean \<and>
    (\<exists>x\<in>set (versions s'). ver_id x = ver_id v \<and> ver_distributedStoredFileId x = Some (sf_id (sy_file r)))"
proof -
  obtain v s1 where *: "latest_in_locale s i locale = Some v" "latest_scan s (ver_storedFileId v) = Some ScanClean"
    "file_to_serve E W s d v = (s1, Inr (Some (sy_file r)))" "versions s' = versions s1"
    using stream_Inr [OF assms(1)] assms(2) by (metis option.inject)
  have "v \<in> set (versions s)" using *(1) by (auto simp: latest_in_locale_def dest: find_first_by_Some)
  from file_to_serve_sensitive [OF *(3) assms(3) this] * show ?thesis by auto
qed

text \<open>A share lets its recipient view, and nothing more. Somebody without any permission on a document who
  holds a share on it is shown the page with the preview as the only right, and every download is
  refused and recorded as denied.\<close>

theorem share_grants_preview_only:
  assumes "live_document s i = Some d" and "shared_with E s req d" and "\<forall>p. \<not> can_on E s req d p" and "locale \<in> set supportedLanguages"
  shows "(\<exists>v. snd (one E s req i) = Inr v \<and> pg_permissions v =
      [(Preview, True), (Download, False), (Upload, False), (Edit, False), (Publish, False), (Archive, False)]) \<and>
    may_stream E s req d Preview \<and>
    snd (download_document E W busy mip s req i locale) = Inl NotFound \<and>
    (\<exists>e. audits (fst (download_document E W busy mip s req i locale)) = audits s @ [e] \<and> ae_result e = Denied)"
proof -
  have st: "doc_status d = PUBLISHED" using assms(2) by (simp add: shared_with_def)
  have "snd (one E s req i) = Inr (page_of E s req d)" using assms(1,2) st by (simp add: one_def may_read_def)
  moreover have "pg_permissions (page_of E s req d) =
      [(Preview, True), (Download, False), (Upload, False), (Edit, False), (Publish, False), (Archive, False)]"
    using assms(2,3) by (simp add: page_of_def page_permissions_def permissionNames_def Let_def)
  moreover have "\<not> may_stream E s req d Download" "may_stream E s req d Preview" using assms(2,3) st by (simp_all add: may_stream_def)
  ultimately show ?thesis using assms(1,4) by (simp add: download_document_def stream_def deny_reading_def)
qed

lemma stream_served:
  assumes "locale \<in> set supportedLanguages" "live_document s i = Some d" "may_stream E s req d p" "latest_in_locale s i locale = Some v"
    "latest_scan s (ver_storedFileId v) = Some ScanClean" "file_to_serve E W s d v = (s1, Inr (Some f))" "\<not> isMipObjectKey (sf_objectKey f)"
    "wi_read W (sf_objectKey f) = Some b"
  shows "\<exists>s' r. stream E W busy mip s req i locale p shown = (s', Inr r)"
  using assms by (simp add: stream_def send_file_def Let_def)

text \<open>\<open>sensitive_served_distributed\<close> at a member of the staff who previews a sensitive document.\<close>

definition marked_version :: version_row where
  "marked_version = sample_version\<lparr>ver_distributedStoredFileId := Some ''f2''\<rparr>"

definition marked_file :: file_row where
  "marked_file = sample_file\<lparr>sf_id := ''f2'', sf_objectKey := ''k2''\<rparr>"

definition marked_db :: db where
  "marked_db = secret_db\<lparr>versions := [marked_version], storedfiles := [sample_file, marked_file]\<rparr>"

theorem sensitive_served_distributed_witness:
  "\<exists>s' r. stream sample_env sample_io False (\<lambda>_ _. Inl NotFound) marked_db (sample_request ''ann'' [''Staff'']) ''d1'' ''fr'' Preview True
       = (s', Inr r) \<and>
     (\<exists>x\<in>set (versions s'). ver_id x = ''v1'' \<and> ver_distributedStoredFileId x = Some (sf_id (sy_file r)))"
proof -
  let ?d = "sample_document\<lparr>doc_sensitive := True\<rparr>"
  have ev: "live_document marked_db ''d1'' = Some ?d" "doc_sensitive ?d"
    "latest_in_locale marked_db ''d1'' ''fr'' = Some marked_version" "ver_id marked_version = ''v1''"
    "''fr'' \<in> set supportedLanguages" "latest_scan marked_db (ver_storedFileId marked_version) = Some ScanClean" by code_simp+
  have may: "may_stream sample_env marked_db (sample_request ''ann'' [''Staff'']) ?d Preview" by code_simp
  have "Option.bind (ver_distributedStoredFileId marked_version) (find_file marked_db) = Some marked_file" by code_simp
  then have f: "file_to_serve sample_env sample_io marked_db ?d marked_version = (marked_db, Inr (Some marked_file))"
    using ev(2) by (simp only: file_to_serve_def not_True_eq_False if_False option.case)
  have read: "\<not> isMipObjectKey (sf_objectKey marked_file)" "wi_read sample_io (sf_objectKey marked_file) = Some ''pdf''" by code_simp+
  from stream_served [OF ev(5,1) may ev(3,6) f read] obtain s' r
    where x: "stream sample_env sample_io False (\<lambda>_ _. Inl NotFound) marked_db (sample_request ''ann'' [''Staff'']) ''d1'' ''fr'' Preview True
      = (s', Inr r)" by blast
  from sensitive_served_distributed [OF x ev(1,2)] obtain v y where "latest_in_locale marked_db ''d1'' ''fr'' = Some v"
    and y: "y \<in> set (versions s')" "ver_id y = ver_id v" "ver_distributedStoredFileId y = Some (sf_id (sy_file r))" by blast
  with ev(3) have "v = marked_version" by simp
  with y(2) ev(4) have "ver_id y = ''v1''" by simp
  with y(1,3) have "\<exists>y\<in>set (versions s'). ver_id y = ''v1'' \<and> ver_distributedStoredFileId y = Some (sf_id (sy_file r))" by blast
  with x show ?thesis by blast
qed

text \<open>\<open>share_grants_preview_only\<close> at a recipient in no group.\<close>

definition shared_secret_db :: db where
  "shared_secret_db = secret_db\<lparr>shares := [shared_row]\<rparr>"

lemma outsider_has_nothing: "\<forall>p. \<not> can_on sample_env shared_secret_db (sample_request ''bob'' []) (sample_document\<lparr>doc_sensitive := True\<rparr>) p"
proof
  fix p show "\<not> can_on sample_env shared_secret_db (sample_request ''bob'' []) (sample_document\<lparr>doc_sensitive := True\<rparr>) p"
    by (cases p) (simp only:, code_simp)+
qed

theorem share_grants_preview_only_witness:
  "snd (download_document sample_env sample_io False (\<lambda>_ _. Inl NotFound) shared_secret_db (sample_request ''bob'' []) ''d1'' ''fr'') = Inl NotFound \<and>
   may_stream sample_env shared_secret_db (sample_request ''bob'' []) (sample_document\<lparr>doc_sensitive := True\<rparr>) Preview"
proof -
  have ev: "live_document shared_secret_db ''d1'' = Some (sample_document\<lparr>doc_sensitive := True\<rparr>)"
    "shared_with sample_env shared_secret_db (sample_request ''bob'' []) (sample_document\<lparr>doc_sensitive := True\<rparr>)"
    "''fr'' \<in> set supportedLanguages" by code_simp+
  from share_grants_preview_only [OF ev(1,2) outsider_has_nothing ev(3)] show ?thesis by blast
qed

end
