(* ===== verification/Lifecycle.thy ===== *)
theory Lifecycle
  imports Reader Retention Content_Index
begin

text \<open>
  The life of a document (\<^verbatim>\<open>apps/api/src/controllers.ts\<close>): publication, archiving, restoring, the trash, permanent
  deletion, the change of category and of sensitivity, by the routes of users and of
  administrators. The handlers are shown to implement an abstract machine over the phases of a document,
  together with the worker that destroys documents and the review that rejects them.
\<close>

section \<open>Publication\<close>

definition record_notify ::
    "env \<Rightarrow> db \<Rightarrow> request \<Rightarrow> string \<Rightarrow> string \<Rightarrow> audit_result \<Rightarrow> json option \<Rightarrow> bool \<Rightarrow> db" where
  "record_notify E s req action resource result details notify =
     (if notify then record_audit E s req action resource result details else record_quiet E s req action resource result details)"

text \<open>\<open>audit.committed\<close> for each event: the alert policy is evaluated.\<close>

definition committed :: "env \<Rightarrow> db \<Rightarrow> audit_row list \<Rightarrow> db" where
  "committed E s events = foldl (\<lambda>s e. evaluate E s (ae_result e)) s events"

definition clean_file :: "db \<Rightarrow> string \<Rightarrow> bool" where
  "clean_file s fid = list_ex (\<lambda>r. sc_storedFileId r = fid \<and> sc_status r = ScanClean) (scans s)"

definition clean_versions :: "db \<Rightarrow> string \<Rightarrow> bool" where
  "clean_versions s i = list_all (\<lambda>v. clean_file s (ver_storedFileId v)) (document_versions s i)"

definition newest_version :: "db \<Rightarrow> string \<Rightarrow> string option" where
  "newest_version s i =
     (case find_first_by (\<lambda>v. - ver_createdAt v) (\<lambda>v. ver_documentId v = i) (versions s) of
        None \<Rightarrow> None
      | Some v \<Rightarrow> if ver_id v = [] then None else Some (ver_id v))"

definition distribution_details :: "(string \<times> int \<times> string) list \<Rightarrow> json option" where
  "distribution_details gs =
     (if gs = [] then None
      else Some (JObj [(''distributedFiles'', JArr (map (\<lambda>(l, n, h).
             JObj [(''locale'', JStr l), (''version'', JNum n), (''sha256'', JStr h)]) gs))]))"

text \<open>The preparation of the distributed copies, then the publication transaction.\<close>

definition publish_prepared ::
    "env \<Rightarrow> watermark_io \<Rightarrow> db \<Rightarrow> request \<Rightarrow> document_row \<Rightarrow> string \<Rightarrow> db \<times> document_row outcome" where
  "publish_prepared E W s req d action =
     (case prepareForPublication E W s (doc_id d) of
        (s1, Inl e) \<Rightarrow> (s1, Inl e)
      | (s1, Inr gs) \<Rightarrow>
          (case publishWithReview E s1 (doc_id d) (newest_version s (doc_id d)) (doc_publishedAt d = None) (now E)
                  (Some \<lparr>pa_request = req, pa_action = action, pa_details = distribution_details gs,
                         pa_notify = \<not> doc_suppressEmails d\<rparr>) of
             (s2, Inl e) \<Rightarrow> (s2, Inl e)
           | (s2, Inr (published, review, events)) \<Rightarrow> (committed E s2 events, Inr published)))"

section \<open>The routes of users\<close>

definition not_scanned :: http_error where
  "not_scanned = Conflict ''Every document version must pass antivirus scanning''"

definition refresh :: http_error where
  "refresh = Conflict ''Document changed; refresh and retry''"

definition published_title :: string where
  "published_title = ''Document publi'' @ [CHR 0xC3, CHR 0xA9] @ '' ou mis '' @ [CHR 0xC3, CHR 0xA0] @ '' jour''"

definition notify_favorites :: "db \<Rightarrow> string \<Rightarrow> subscription_row list \<Rightarrow> db" where
  "notify_favorites s i favs =
     s\<lparr>notices := notices s @
        map (\<lambda>f. \<lparr>un_identity = sub_identity f, un_title = published_title, un_message = [],
                  un_resourceType = Some ''document'', un_resourceId = Some i, un_mandatory = False\<rparr>) favs\<rparr>"

definition set_status :: "doc_status \<Rightarrow> document_row \<Rightarrow> document_row" where
  "set_status st d = d\<lparr>doc_status := st\<rparr>"

definition archived_in :: "string \<Rightarrow> string \<Rightarrow> document_row \<Rightarrow> bool" where
  "archived_in i space d = (doc_id d = i \<and> doc_deletedAt d = None \<and> doc_status d = ARCHIVED \<and> doc_spaceId d = space)"

definition transition ::
    "env \<Rightarrow> watermark_io \<Rightarrow> db \<Rightarrow> request \<Rightarrow> string \<Rightarrow> permission \<Rightarrow> doc_status \<Rightarrow> db \<times> document_row outcome" where
  "transition E W s req i p status =
     (case live_document s i of
        None \<Rightarrow> (s, Inl NotFound)
      | Some d \<Rightarrow>
          if \<not> can_on E s req d p then (s, Inl NotFound)
          else if status = DRAFT \<and> doc_status d \<noteq> ARCHIVED
          then (s, Inl (Conflict ''Only archived documents can be restored''))
          else if status = PUBLISHED then
            (if document_versions s i = [] \<or> \<not> clean_versions s i then (s, Inl not_scanned)
             else (case publish_prepared E W s req d ''document.published'' of
                 (s1, Inl e) \<Rightarrow> (s1, Inl e)
               | (s1, Inr x) \<Rightarrow>
                   (notify_favorites s1 i (filter (\<lambda>f. sub_documentId f = i) (favorites s)), Inr x)))
          else if status = DRAFT then
            (case claim (archived_in i (doc_spaceId d)) (set_status DRAFT) (documents s) of
               None \<Rightarrow> (s, Inl refresh)
             | Some docs \<Rightarrow>
                 (case find_first (\<lambda>x. doc_id x = i) docs of
                    None \<Rightarrow> (s, Inl NotFound)
                  | Some x \<Rightarrow> (record_notify E (s\<lparr>documents := docs\<rparr>) req ''document.draft'' (''document:'' @ i) Success None
                                 (\<not> doc_suppressEmails d), Inr x)))
          else (record_notify E (s\<lparr>documents := update_rows (\<lambda>x. doc_id x = i) (set_status status) (documents s)\<rparr>) req
                  ''document.archived'' (''document:'' @ i) Success None (\<not> doc_suppressEmails d), Inr (set_status status d)))"

definition userPublish where
  "userPublish E W s req i = transition E W s req i Publish PUBLISHED"

definition userArchive where
  "userArchive E W s req i = transition E W s req i Archive ARCHIVED"

definition userRestore where
  "userRestore E W s req i = transition E W s req i Archive DRAFT"

definition updateCategory ::
    "env \<Rightarrow> db \<Rightarrow> request \<Rightarrow> string \<Rightarrow> string option \<Rightarrow> db \<times> (string \<times> string option) outcome" where
  "updateCategory E s req i body =
     (let category = (if body = Some [] then None else body)
      in case live_document s i of
        None \<Rightarrow> (s, Inl NotFound)
      | Some d \<Rightarrow>
          if \<not> can_on E s req d Edit then (s, Inl NotFound)
          else if \<not> null_or (\<lambda>c. list_ex (\<lambda>x. cat_id x = c \<and> cat_spaceId x = doc_spaceId d \<and> cat_deletedAt x = None) (categories s)) category
          then (s, Inl (BadRequest ''Invalid category for this document space''))
          else if \<not> can E s (rq_groups req) (doc_spaceId d) Edit (InCategory category) then (s, Inl NotFound)
          else (case claim (\<lambda>x. doc_id x = i \<and> doc_deletedAt x = None \<and> doc_spaceId x = doc_spaceId d \<and> doc_categoryId x = doc_categoryId d)
                       (\<lambda>x. x\<lparr>doc_categoryId := category\<rparr>) (documents s) of
              None \<Rightarrow> (s, Inl refresh)
            | Some docs \<Rightarrow>
                (case find_first (\<lambda>x. doc_id x = i) docs of
                   None \<Rightarrow> (s, Inl NotFound)
                 | Some x \<Rightarrow>
                     (record_audit E (s\<lparr>documents := docs\<rparr>) req ''document.category.update'' (''document:'' @ i) Success
                        (Some (JObj [(''before'', json_opt JStr (doc_categoryId d)), (''after'', json_opt JStr (doc_categoryId x))])),
                      Inr (i, doc_categoryId x)))))"

definition watermarkableExtensions :: "string list" where
  "watermarkableExtensions = [''.pdf'', ''.docx'', ''.xlsx'']"

definition assertSensitiveFormat :: "bool \<Rightarrow> string \<Rightarrow> unit outcome" where
  "assertSensitiveFormat sensitive extension =
     (if sensitive \<and> extension \<notin> set watermarkableExtensions
      then Inl (BadRequest ''Sensitive documents must be PDF, DOCX or XLSX (watermarking)'') else Inr ())"

definition parseWatermarkPosition :: "string option \<Rightarrow> watermark_position outcome" where
  "parseWatermarkPosition v =
     (let position = (case v of None \<Rightarrow> ''CENTER'' | Some p \<Rightarrow> if p = [] then ''CENTER'' else p)
      in if position = ''HEADER'' then Inr HEADER
         else if position = ''CENTER'' then Inr CENTER
         else if position = ''FOOTER'' then Inr FOOTER
         else Inl (BadRequest ''Invalid watermark position''))"

record SensitivityDto =
  sb_sensitive :: bool
  sb_watermarkPosition :: "string option"

text \<open>The first version whose file cannot be marked stops the request.\<close>

fun assert_formats :: "bool \<Rightarrow> string list \<Rightarrow> unit outcome" where
  "assert_formats sensitive [] = Inr ()"
| "assert_formats sensitive (name # names) =
     (case assertSensitiveFormat sensitive (toLowerCase (extname name)) of
        Inl e \<Rightarrow> Inl e
      | Inr _ \<Rightarrow> assert_formats sensitive names)"

definition version_names :: "db \<Rightarrow> string \<Rightarrow> string list" where
  "version_names s i = map sf_originalName (List.map_filter (\<lambda>v. find_file s (ver_storedFileId v)) (document_versions s i))"

definition revoke_shares :: "env \<Rightarrow> db \<Rightarrow> string \<Rightarrow> db" where
  "revoke_shares E s i =
     s\<lparr>shares := update_rows (\<lambda>r. ss_documentId r = i \<and> ss_revokedAt r = None) (\<lambda>r. r\<lparr>ss_revokedAt := Some (now E)\<rparr>) (shares s)\<rparr>"

definition mark_document :: "db \<Rightarrow> string \<Rightarrow> bool \<Rightarrow> watermark_position option \<Rightarrow> db" where
  "mark_document s i sensitive position =
     s\<lparr>documents := update_rows (\<lambda>x. doc_id x = i) (\<lambda>x. x\<lparr>doc_sensitive := sensitive,
         doc_watermarkPosition := (case position of None \<Rightarrow> doc_watermarkPosition x | Some p \<Rightarrow> p)\<rparr>) (documents s)\<rparr>"

definition setSensitivity ::
    "env \<Rightarrow> watermark_io \<Rightarrow> db \<Rightarrow> request \<Rightarrow> string \<Rightarrow> SensitivityDto \<Rightarrow> db \<times> bool outcome" where
  "setSensitivity E W s req i body =
     (case assertCanMarkSensitive s req of
        Inl e \<Rightarrow> (s, Inl e)
      | Inr _ \<Rightarrow>
          (case live_document s i of
             None \<Rightarrow> (s, Inl NotFound)
           | Some d \<Rightarrow>
               if \<not> can_on E s req d Edit then (s, Inl NotFound)
               else (case parseWatermarkPosition (sb_watermarkPosition body) of
                   Inl e \<Rightarrow> (s, Inl e)
                 | Inr position \<Rightarrow>
                     if sb_sensitive body = doc_sensitive d then (s, Inr (sb_sensitive body))
                     else (case (if sb_sensitive body then assert_formats True (version_names s i) else Inr ()) of
                         Inl e \<Rightarrow> (s, Inl e)
                       | Inr _ \<Rightarrow>
                           (let s1 = mark_document s i (sb_sensitive body) (if sb_sensitive body then Some position else None)
                            in case (if sb_sensitive body \<and> doc_status d = PUBLISHED then prepareForPublication E W s1 i else (s1, Inr [])) of
                                 (s2, Inl e) \<Rightarrow> (mark_document s2 i (doc_sensitive d) None, Inl e)
                               | (s2, Inr _) \<Rightarrow>
                                   (record_audit E (if sb_sensitive body then s2 else revoke_shares E s2 i) req
                                      ''document.sensitivity.update'' (''document:'' @ i) Success
                                      (Some (JObj [(''sensitive'', JBool (sb_sensitive body))])), Inr (sb_sensitive body)))))))"

section \<open>The trash\<close>

text \<open>\<open>Promise.allSettled\<close> over the removal of objects: all are tried; \<open>remove_ok\<close> says which removals
  succeed.\<close>

definition settle_removals :: "(string \<Rightarrow> bool) \<Rightarrow> db \<Rightarrow> string list \<Rightarrow> db \<times> nat" where
  "settle_removals remove_ok s keys =
     (s\<lparr>removedobjects := removedobjects s @ filter remove_ok keys\<rparr>, length (filter (\<lambda>k. \<not> remove_ok k) keys))"

definition evidence_keys :: "review_row list \<Rightarrow> string list" where
  "evidence_keys rs = filter (\<lambda>k. k \<noteq> []) (List.map_filter rv_evidenceObjectKey rs)"

definition document_reviews :: "db \<Rightarrow> string \<Rightarrow> review_row list" where
  "document_reviews s i = filter (\<lambda>r. rv_documentId r = i) (reviews s)"

definition forget_reviews :: "db \<Rightarrow> review_row list \<Rightarrow> db" where
  "forget_reviews s rs =
     s\<lparr>notices := delete_rows (\<lambda>n. un_resourceType n = Some ''document-review'' \<and> un_resourceId n \<in> Some ` set (map rv_id rs)) (notices s)\<rparr>"

definition trash_row :: "time \<Rightarrow> document_row \<Rightarrow> document_row" where
  "trash_row t d = d\<lparr>doc_deletedAt := Some t, doc_status := ARCHIVED\<rparr>"

definition removeByModerator :: "env \<Rightarrow> (string \<Rightarrow> bool) \<Rightarrow> db \<Rightarrow> request \<Rightarrow> string \<Rightarrow> db \<times> unit outcome" where
  "removeByModerator E remove_ok s req i =
     (case live_document s i of
        None \<Rightarrow> (s, Inl NotFound)
      | Some d \<Rightarrow>
          if \<not> can_on E s req d Archive then (s, Inl NotFound)
          else (let rs = document_reviews s i;
                    s1 = forget_reviews s rs;
                    s2 = s1\<lparr>reviews := delete_rows (\<lambda>r. rv_documentId r = i) (reviews s1),
                            documents := update_rows (\<lambda>x. doc_id x = i) (trash_row (now E)) (documents s1)\<rparr>;
                    s3 = fst (settle_removals remove_ok s2 (evidence_keys rs))
                in (record_audit E s3 req ''document.delete'' (''document:'' @ i) Success None, Inr ())))"

definition trash :: "db \<Rightarrow> document_row list" where
  "trash s = find_many (\<lambda>d. - the (doc_deletedAt d)) 100 (\<lambda>d. doc_deletedAt d \<noteq> None \<and> doc_destroyedAt d = None) (documents s)"

definition untrash_row :: "document_row \<Rightarrow> document_row" where
  "untrash_row d = d\<lparr>doc_deletedAt := None, doc_status := ARCHIVED\<rparr>"

definition in_trash :: "string \<Rightarrow> document_row \<Rightarrow> bool" where
  "in_trash i d = (doc_id d = i \<and> doc_deletedAt d \<noteq> None \<and> doc_destroyedAt d = None)"

definition restoreFromTrash :: "env \<Rightarrow> db \<Rightarrow> request \<Rightarrow> string \<Rightarrow> db \<times> document_row option outcome" where
  "restoreFromTrash E s req i =
     (case claim (in_trash i) untrash_row (documents s) of
        None \<Rightarrow> (s, Inl NotFound)
      | Some docs \<Rightarrow>
          (record_audit E (s\<lparr>documents := docs\<rparr>) req ''document.trash.restore'' (''document:'' @ i) Success None,
           Inr (find_first (\<lambda>x. doc_id x = i) docs)))"

section \<open>The routes of administrators\<close>

definition publish :: "env \<Rightarrow> watermark_io \<Rightarrow> db \<Rightarrow> request \<Rightarrow> string \<Rightarrow> db \<times> document_row outcome" where
  "publish E W s req i =
     (case live_document s i of
        None \<Rightarrow> (s, Inl NotFound)
      | Some d \<Rightarrow>
          if document_versions s i = [] \<and> \<not> some_and (\<lambda>u. u \<noteq> []) (doc_externalUrl d) \<or> \<not> clean_versions s i then (s, Inl not_scanned)
          else publish_prepared E W s req d ''document.publish'')"

definition archive :: "env \<Rightarrow> db \<Rightarrow> request \<Rightarrow> string \<Rightarrow> db \<times> document_row outcome" where
  "archive E s req i =
     (case find_first (\<lambda>d. doc_id d = i) (documents s) of
        None \<Rightarrow> (s, Inl (InternalError ''Record to update not found''))
      | Some d \<Rightarrow>
          (record_audit E (s\<lparr>documents := update_rows (\<lambda>x. doc_id x = i) (set_status ARCHIVED) (documents s)\<rparr>) req
             ''document.archive'' (''document:'' @ i) Success None, Inr (set_status ARCHIVED d)))"

definition restorable :: "string \<Rightarrow> document_row \<Rightarrow> bool" where
  "restorable i d = (doc_id d = i \<and> doc_deletedAt d = None \<and> doc_status d = ARCHIVED)"

definition restore :: "env \<Rightarrow> db \<Rightarrow> request \<Rightarrow> string \<Rightarrow> db \<times> document_row outcome" where
  "restore E s req i =
     (case claim (restorable i) (set_status DRAFT) (documents s) of
        None \<Rightarrow> (s, Inl NotFound)
      | Some docs \<Rightarrow>
          (case find_first (\<lambda>x. doc_id x = i) docs of
             None \<Rightarrow> (s, Inl NotFound)
           | Some x \<Rightarrow> (record_audit E (s\<lparr>documents := docs\<rparr>) req ''document.restore'' (''document:'' @ i) Success None, Inr x)))"

text \<open>\<open>status\<close> is \<open>DRAFT\<close>, \<open>PUBLISHED\<close> or \<open>ARCHIVED\<close> (\<open>DocumentStatusDto\<close>).\<close>

definition changeStatus ::
    "env \<Rightarrow> watermark_io \<Rightarrow> db \<Rightarrow> request \<Rightarrow> string \<Rightarrow> doc_status \<Rightarrow> db \<times> document_row outcome" where
  "changeStatus E W s req i status =
     (case live_document s i of
        None \<Rightarrow> (s, Inl NotFound)
      | Some d \<Rightarrow>
          if doc_status d = QUARANTINED then (s, Inl (Conflict ''Quarantined documents cannot change status''))
          else if doc_status d = status then (s, Inr d)
          else if status = PUBLISHED then publish E W s req i
          else if status = ARCHIVED then archive E s req i
          else if doc_status d = ARCHIVED then restore E s req i
          else (case claim (\<lambda>x. doc_id x = i \<and> doc_deletedAt x = None \<and> doc_status x = doc_status d) (set_status DRAFT) (documents s) of
              None \<Rightarrow> (s, Inl refresh)
            | Some docs \<Rightarrow>
                (case find_first (\<lambda>x. doc_id x = i) docs of
                   None \<Rightarrow> (s, Inl NotFound)
                 | Some x \<Rightarrow>
                     (record_audit E (s\<lparr>documents := docs\<rparr>) req ''document.draft'' (''document:'' @ i) Success None, Inr x))))"

section \<open>Permanent deletion\<close>

text \<open>What the database deletes with a document and with its versions (\<open>onDelete: Cascade\<close>).\<close>

definition cascade_document :: "db \<Rightarrow> string \<Rightarrow> db" where
  "cascade_document s i =
     (let requests = map sr_id (filter (\<lambda>r. sr_documentId r = i) (signatures s))
      in s\<lparr>documents := delete_rows (\<lambda>d. doc_id d = i) (documents s),
           favorites := delete_rows (\<lambda>f. sub_documentId f = i) (favorites s),
           activities := delete_rows (\<lambda>a. ua_documentId a = i) (activities s),
           links := delete_rows (\<lambda>l. ln_sourceId l = i \<or> ln_targetId l = i) (links s),
           comments := delete_rows (\<lambda>c. cm_documentId c = i) (comments s),
           subscriptions := delete_rows (\<lambda>r. sub_documentId r = i) (subscriptions s),
           signatures := delete_rows (\<lambda>r. sr_documentId r = i) (signatures s),
           entries := delete_rows (\<lambda>e. se_requestId e \<in> set requests) (entries s),
           sharelinks := delete_rows (\<lambda>l. sl_documentId l = i) (sharelinks s),
           reviews := delete_rows (\<lambda>r. rv_documentId r = i) (reviews s),
           retentions := delete_rows (\<lambda>p. rp_documentId p = i) (retentions s),
           shares := delete_rows (\<lambda>r. ss_documentId r = i) (shares s)\<rparr>)"

definition delete_versions :: "db \<Rightarrow> string \<Rightarrow> db" where
  "delete_versions s i =
     (let vids = map ver_id (document_versions s i)
      in s\<lparr>versions := delete_rows (\<lambda>v. ver_documentId v = i) (versions s),
           contents := delete_rows (\<lambda>c. vc_versionId c \<in> set vids) (contents s)\<rparr>)"

definition unused_file :: "db \<Rightarrow> string \<Rightarrow> bool" where
  "unused_file s f = list_all (\<lambda>v. ver_storedFileId v \<noteq> f \<and> ver_distributedStoredFileId v \<noteq> Some f) (versions s)"

definition delete_files :: "db \<Rightarrow> string list \<Rightarrow> db" where
  "delete_files s fids =
     (let gone = filter (unused_file s) fids
      in s\<lparr>storedfiles := delete_rows (\<lambda>f. sf_id f \<in> set gone) (storedfiles s),
           filestamps := delete_rows (\<lambda>t. ft_storedFileId t \<in> set gone) (filestamps s)\<rparr>)"

definition held :: "env \<Rightarrow> db \<Rightarrow> string \<Rightarrow> bool" where
  "held E s i = some_and (\<lambda>p. rp_legalHold p \<or> some_and (\<lambda>t. now E < t) (rp_retentionUntil p)) (find_policy s i)"

definition removal_details :: "db \<Rightarrow> string \<Rightarrow> nat \<Rightarrow> json option" where
  "removal_details s i failures =
     Some (JObj [(''translations'', JArr (map (\<lambda>t. JObj [(''title'', JStr (tr_title t)), (''locale'', JStr (tr_locale t))])
                    (filter (\<lambda>t. tr_documentId t = i) (titles s)))),
                 (''deletedVersions'', JNum (int (length (document_versions s i)))),
                 (''storageCleanupFailures'', JNum (int failures))])"

definition remove :: "env \<Rightarrow> (string \<Rightarrow> bool) \<Rightarrow> db \<Rightarrow> request \<Rightarrow> string \<Rightarrow> db \<times> (nat \<times> nat) outcome" where
  "remove E remove_ok s req i =
     (case find_first (\<lambda>d. doc_id d = i) (documents s) of
        None \<Rightarrow> (s, Inl NotFound)
      | Some d \<Rightarrow>
          if held E s i then (s, Inl (Conflict ''Legal hold or retention period: use the retention destruction workflow''))
          else (let files = document_files s i; rs = document_reviews s i;
                    s1 = forget_reviews s rs;
                    s2 = s1\<lparr>settings := delete_rows (\<lambda>x. st_key x = ''document-annual-review:'' @ i) (settings s1),
                            scans := delete_rows (\<lambda>x. sc_storedFileId x \<in> set (map sf_id files)) (scans s1)\<rparr>;
                    s3 = delete_versions s2 i;
                    s4 = s3\<lparr>titles := delete_rows (\<lambda>t. tr_documentId t = i) (titles s3)\<rparr>;
                    s5 = delete_files (cascade_document s4 i) (map sf_id files);
                    (s6, failures) = settle_removals remove_ok s5 (map sf_objectKey files @ evidence_keys rs)
                in (record_audit E s6 req ''document.delete'' (''document:'' @ i) (if failures = 0 then Success else Failure)
                      (removal_details s i failures),
                    Inr (length (document_versions s i), failures))))"

section \<open>The abstract machine\<close>

text \<open>A document is live with a status, in the trash, destroyed (a tombstone: destroyed, deleted and archived), or gone.
  A row that says destroyed without being deleted and archived is a tombstone brought back: it would be
  served again without the files it lost. The machine has no step into this phase.\<close>

datatype phase = Live doc_status | Trashed | Destroyed | Revived | Gone

datatype phase_event = Publishes | Archives | Restores | Withdraws | Reopens | Trashes | Untrashes | Destroys | Removes

fun phase_of_row :: "document_row option \<Rightarrow> phase" where
  "phase_of_row None = Gone"
| "phase_of_row (Some d) =
     (if doc_destroyedAt d \<noteq> None then (if doc_deletedAt d \<noteq> None \<and> doc_status d = ARCHIVED then Destroyed else Revived)
      else if doc_deletedAt d \<noteq> None then Trashed else Live (doc_status d))"

definition phase :: "db \<Rightarrow> string \<Rightarrow> phase" where
  "phase s i = phase_of_row (find_first (\<lambda>d. doc_id d = i) (documents s))"

inductive phase_step :: "phase_event \<Rightarrow> phase \<Rightarrow> phase \<Rightarrow> bool" where
  publishes: "st \<noteq> PUBLISHED \<Longrightarrow> phase_step Publishes (Live st) (Live PUBLISHED)"
| archives: "phase_step Archives (Live st) (Live ARCHIVED)"
| archives_revived: "phase_step Archives Revived Destroyed"
| restores: "phase_step Restores (Live ARCHIVED) (Live DRAFT)"
| withdraws: "phase_step Withdraws (Live PUBLISHED) (Live DRAFT)"
| reopens: "phase_step Reopens (Live st) (Live DRAFT)"
| trashes: "phase_step Trashes (Live st) Trashed"
| trashes_revived: "phase_step Trashes Revived Destroyed"
| untrashes: "phase_step Untrashes Trashed (Live ARCHIVED)"
| destroys: "p \<noteq> Gone \<Longrightarrow> phase_step Destroys p Destroyed"
| removes: "phase_step Removes p Gone"

inductive_simps phase_step_simps:
  "phase_step Publishes p q" "phase_step Archives p q" "phase_step Restores p q" "phase_step Withdraws p q"
  "phase_step Reopens p q" "phase_step Trashes p q" "phase_step Untrashes p q" "phase_step Destroys p q" "phase_step Removes p q"

text \<open>A run of the machine never leaves the absence of a document, and a destruction only for it.\<close>

lemma phase_step_final:
  "phase_step ev p q \<Longrightarrow> (p = Gone \<longrightarrow> q = Gone) \<and> (p = Destroyed \<longrightarrow> q = Destroyed \<or> q = Gone)"
  by (induction rule: phase_step.induct) auto

text \<open>What a change of the table owes to the edit lock and to tombstones: no id appears twice, and every row comes
  from a row of the same document, whose lock it keeps unless it is a tombstone now; tombstones stay tombstones.\<close>

definition row_kept :: "document_row \<Rightarrow> document_row \<Rightarrow> bool" where
  "row_kept d d' \<longleftrightarrow> doc_id d' = doc_id d \<and>
     (dead d' \<or> \<not> dead d \<and> doc_lockedBy d' = doc_lockedBy d \<and> doc_lockExpiresAt d' = doc_lockExpiresAt d)"

definition rows_kept :: "db \<Rightarrow> db \<Rightarrow> bool" where
  "rows_kept s s' \<longleftrightarrow> (distinct (map doc_id (documents s)) \<longrightarrow> distinct (map doc_id (documents s'))) \<and>
     (\<forall>d'\<in>set (documents s'). \<exists>d\<in>set (documents s). row_kept d d')"

lemma row_kept_refl: "row_kept d d"
  by (simp add: row_kept_def)

lemma row_kept_trans: "row_kept d e \<Longrightarrow> row_kept e f \<Longrightarrow> row_kept d f"
  by (auto simp: row_kept_def)

lemma rows_kept_same: "documents s' = documents s \<Longrightarrow> rows_kept s s'"
  by (auto simp: rows_kept_def intro: row_kept_refl)

lemma rows_kept_trans: "rows_kept s t \<Longrightarrow> rows_kept t u \<Longrightarrow> rows_kept s u"
  unfolding rows_kept_def by (meson row_kept_trans)

lemma rows_kept_update:
  assumes "documents s' = update_rows p f (documents s)" and "\<And>d. p d \<Longrightarrow> row_kept d (f d)"
  shows "rows_kept s s'"
proof -
  have "map doc_id (documents s') = map doc_id (documents s)"
    unfolding assms(1) by (rule map_update_rows) (use assms(2) in \<open>simp add: row_kept_def\<close>)
  then show ?thesis
    unfolding rows_kept_def assms(1) using assms(2) row_kept_refl by (auto simp: set_update_rows)
qed

lemma rows_kept_delete: "documents s' = delete_rows p (documents s) \<Longrightarrow> rows_kept s s'"
  by (auto simp: rows_kept_def set_delete_rows delete_rows_def distinct_map_filter intro!: row_kept_refl bexI)

text \<open>What a handler on one document owes: every other document keeps its phase, this one makes one of
  the announced steps or none, and locks and tombstones are kept.\<close>

definition moves :: "phase_event set \<Rightarrow> string \<Rightarrow> db \<Rightarrow> db \<Rightarrow> bool" where
  "moves evs i s s' \<longleftrightarrow> rows_kept s s' \<and>
     (\<forall>j. phase s' j = phase s j \<or> j = i \<and> (\<exists>ev\<in>evs. phase_step ev (phase s j) (phase s' j)))"

lemma moves_same [intro]: "documents s' = documents s \<Longrightarrow> moves evs i s s'"
  by (simp add: moves_def phase_def rows_kept_same)

lemma moves_mono: "moves A i s s' \<Longrightarrow> A \<subseteq> B \<Longrightarrow> moves B i s s'"
  unfolding moves_def by blast

lemma moves_documents: "moves evs i s s' \<Longrightarrow> documents t = documents s \<Longrightarrow> documents t' = documents s' \<Longrightarrow> moves evs i t t'"
  by (simp add: moves_def phase_def rows_kept_def)

lemma moves_none_trans: "moves {} i s t \<Longrightarrow> moves {} i t u \<Longrightarrow> moves {} i s u"
  by (auto simp: moves_def intro: rows_kept_trans)

lemma find_first_update:
  assumes "\<And>r. key (f r) = key r"
  shows "find_first (\<lambda>r. key r = k) (update_rows p f rows) =
    map_option (\<lambda>r. if p r then f r else r) (find_first (\<lambda>r. key r = k) rows)"
  by (induction rows) (simp_all add: assms)

lemma phase_update:
  assumes "\<And>d. doc_id (f d) = doc_id d" and "documents s' = update_rows p f (documents s)"
  shows "phase s' j = phase_of_row (map_option (\<lambda>d. if p d then f d else d) (find_first (\<lambda>d. doc_id d = j) (documents s)))"
  unfolding phase_def assms(2) using assms(1) by (subst find_first_update [of doc_id f]) simp_all

text \<open>An update of the row of one document is a step when it is one on that row.\<close>

lemma moves_update:
  assumes "\<And>d. doc_id (f d) = doc_id d" and "documents s' = update_rows p f (documents s)" and "\<And>d. p d \<Longrightarrow> doc_id d = i"
    and "\<And>d. p d \<Longrightarrow> row_kept d (f d)"
    and "\<And>d. p d \<Longrightarrow> find_first (\<lambda>d. doc_id d = i) (documents s) = Some d \<Longrightarrow>
      phase_of_row (Some (f d)) = phase_of_row (Some d) \<or> (\<exists>ev\<in>evs. phase_step ev (phase_of_row (Some d)) (phase_of_row (Some (f d))))"
  shows "moves evs i s s'"
  unfolding moves_def
proof (intro conjI allI)
  show "rows_kept s s'" by (rule rows_kept_update [OF assms(2,4)])
  fix j
  note ph = phase_update [OF assms(1,2), of j]
  show "phase s' j = phase s j \<or> j = i \<and> (\<exists>ev\<in>evs. phase_step ev (phase s j) (phase s' j))"
  proof (cases "find_first (\<lambda>d. doc_id d = j) (documents s)")
    case None
    with ph show ?thesis by (simp add: phase_def)
  next
    case (Some d)
    then have id: "doc_id d = j" by (auto dest: find_first_Some)
    have p: "phase s j = phase_of_row (Some d)" "phase s' j = phase_of_row (Some (if p d then f d else d))"
      using Some ph by (simp_all only: phase_def option.map)
    show ?thesis
    proof (cases "p d")
      case True
      then have "j = i" using assms(3) id by simp
      with assms(5) [OF True] Some p True show ?thesis by simp
    next
      case False
      with p show ?thesis by simp
    qed
  qed
qed

lemma moves_claim:
  assumes "claim p f (documents s) = Some docs" and "documents s' = docs" and "\<And>d. doc_id (f d) = doc_id d"
    and "\<And>d. p d \<Longrightarrow> doc_id d = i" and "\<And>d. p d \<Longrightarrow> row_kept d (f d)"
    and "\<And>d. p d \<Longrightarrow> phase_of_row (Some (f d)) = phase_of_row (Some d) \<or> (\<exists>ev\<in>evs. phase_step ev (phase_of_row (Some d)) (phase_of_row (Some (f d))))"
  shows "moves evs i s s'"
  using assms by (intro moves_update [of f s' p]) (auto simp: claim_Some_iff)

lemma find_first_delete_other: "j \<noteq> i \<Longrightarrow> find_first (\<lambda>r. key r = j) (delete_rows (\<lambda>r. key r = i) rows) = find_first (\<lambda>r. key r = j) rows"
  by (induction rows) (auto simp: delete_rows_def)

lemma find_first_delete_own: "find_first (\<lambda>r. key r = i) (delete_rows (\<lambda>r. key r = i) rows) = None"
  by (simp add: find_first_None_iff set_delete_rows)

lemma moves_delete:
  assumes "documents s' = delete_rows (\<lambda>d. doc_id d = i) (documents s)"
  shows "moves {Removes} i s s'"
  unfolding moves_def
proof (intro conjI allI)
  show "rows_kept s s'" by (rule rows_kept_delete [OF assms])
  fix j
  show "phase s' j = phase s j \<or> j = i \<and> (\<exists>ev\<in>{Removes}. phase_step ev (phase s j) (phase s' j))"
    using find_first_delete_other [of j i doc_id "documents s"] find_first_delete_own [of doc_id i "documents s"] assms
    by (cases "j = i") (simp_all add: phase_def phase_step_simps)
qed

section \<open>Each handler makes its steps\<close>

lemma set_status_simps [simp]:
  "doc_id (set_status st d) = doc_id d" "doc_status (set_status st d) = st" "doc_deletedAt (set_status st d) = doc_deletedAt d"
  "doc_destroyedAt (set_status st d) = doc_destroyedAt d" "row_kept d (set_status st d)"
  by (auto simp: set_status_def row_kept_def dead_def)

lemma row_simps [simp]:
  "doc_id (trash_row t d) = doc_id d" "doc_status (trash_row t d) = ARCHIVED" "doc_deletedAt (trash_row t d) = Some t" "doc_destroyedAt (trash_row t d) = doc_destroyedAt d"
  "doc_id (untrash_row d) = doc_id d" "doc_deletedAt (untrash_row d) = None" "doc_destroyedAt (untrash_row d) = doc_destroyedAt d"
  "doc_status (untrash_row d) = ARCHIVED"
  "doc_id (publish_row t d) = doc_id d" "doc_deletedAt (publish_row t d) = doc_deletedAt d"
  "doc_destroyedAt (publish_row t d) = doc_destroyedAt d" "doc_status (publish_row t d) = PUBLISHED"
  "doc_id (archive_row d) = doc_id d" "doc_deletedAt (archive_row d) = doc_deletedAt d"
  "doc_destroyedAt (archive_row d) = doc_destroyedAt d" "doc_status (archive_row d) = ARCHIVED"
  by (simp_all add: trash_row_def untrash_row_def publish_row_def archive_row_def)

lemma rows_kept_simps [simp]:
  "row_kept d (trash_row t d)" "row_kept d (publish_row t d)" "row_kept d (archive_row d)" "row_kept d (tombstone t d)"
  "row_kept d (untrash_row d) \<longleftrightarrow> \<not> dead d"
  by (auto simp: row_kept_def dead_def trash_row_def publish_row_def archive_row_def untrash_row_def)

lemma record_notify_tables [simp]:
  "documents (record_notify E s req a r res d n) = documents s" "versions (record_notify E s req a r res d n) = versions s"
  by (simp_all add: record_notify_def)

lemma committed_tables [simp]: "documents (committed E s es) = documents s" "versions (committed E s es) = versions s"
  "storedfiles (committed E s es) = storedfiles s" "scans (committed E s es) = scans s"
  unfolding committed_def
  by (induction es arbitrary: s) (simp_all add: audit_only_tables [OF evaluate_only])

lemma prepare_loop_documents: "documents (fst (prepare_loop E W s d vs)) = documents s"
  by (induction vs arbitrary: s) (simp_all add: prepare_loop_fst store_copy_def split: option.split sum.split)

lemma prepareForPublication_documents [simp]: "documents (fst (prepareForPublication E W s i)) = documents s"
  by (simp add: prepareForPublication_def prepare_loop_documents split: option.split)

lemma publishWithReview_Inl: "publishWithReview E s d vid first at audit = (s', Inl e) \<Longrightarrow> s' = s"
  by (auto simp: publishWithReview_def Let_def split: sum.splits option.splits prod.splits)

lemma publish_prepared_cases:
  assumes "publish_prepared E W s req d action = (s', r)"
  obtains (refused) e where "r = Inl e" "documents s' = documents s"
  | (published) s1 gs docs where "prepareForPublication E W s (doc_id d) = (s1, Inr gs)"
      "claim (\<lambda>x. doc_id x = doc_id d \<and> publishable x) (publish_row (now E)) (documents s) = Some docs" "documents s' = docs"
proof -
  obtain s1 g where g: "prepareForPublication E W s (doc_id d) = (s1, g)" by fastforce
  have docs: "documents s1 = documents s" using prepareForPublication_documents [of E W s "doc_id d"] g by simp
  show thesis
  proof (cases g)
    case (Inl e)
    with g assms docs show thesis by (intro refused [of e]) (auto simp: publish_prepared_def)
  next
    case (Inr gs)
    let ?a = "Some \<lparr>pa_request = req, pa_action = action, pa_details = distribution_details gs, pa_notify = \<not> doc_suppressEmails d\<rparr>"
    obtain s2 p where p: "publishWithReview E s1 (doc_id d) (newest_version s (doc_id d)) (doc_publishedAt d = None) (now E) ?a = (s2, p)"
      by fastforce
    show thesis
    proof (cases p)
      case (Inl e)
      have "s2 = s1" using publishWithReview_Inl p Inl by blast
      with Inl g Inr p assms docs show thesis by (intro refused [of e]) (auto simp: publish_prepared_def)
    next
      case p': (Inr x)
      obtain x1 x2 x3 where x: "x = (x1, x2, x3)" by (cases x) auto
      obtain docs' where "claim (\<lambda>x. doc_id x = doc_id d \<and> publishable x) (publish_row (now E)) (documents s1) = Some docs'" "documents s2 = docs'"
        using publishWithReview_Inr [OF p [unfolded p' x]] by blast
      moreover have "s' = committed E s2 x3" using assms g Inr p p' x by (simp add: publish_prepared_def)
      ultimately show thesis using g Inr docs by (intro published [of s1 gs docs']) simp_all
    qed
  qed
qed

lemma publish_prepared_moves:
  assumes "live_document s i = Some d" and "publish_prepared E W s req d action = (s', r)"
  shows "moves {Publishes} i s s'"
proof -
  have i: "doc_id d = i" using assms(1) by (auto simp: live_document_def dest: find_first_Some)
  from assms(2) show ?thesis
  proof (cases rule: publish_prepared_cases)
    case (published s1 gs docs)
    show ?thesis
      by (rule moves_claim [OF published(2,3)]) (auto simp: publishable_def phase_step_simps i)
  qed (rule moves_same)
qed

lemma live_documentD: "live_document s i = Some d \<Longrightarrow> d \<in> set (documents s) \<and> doc_id d = i \<and> doc_deletedAt d = None"
  by (auto simp: live_document_def dest: find_first_Some)

lemma archive_moves: "moves {Archives} i s (s\<lparr>documents := update_rows (\<lambda>x. doc_id x = i) (set_status ARCHIVED) (documents s)\<rparr>)"
  by (rule moves_update [of "set_status ARCHIVED" _ "\<lambda>x. doc_id x = i"]) (auto simp: phase_step_simps)

lemma restore_moves:
  assumes "claim (restorable i) (set_status DRAFT) (documents s) = Some docs \<or>
      claim (archived_in i space) (set_status DRAFT) (documents s) = Some docs" and "documents s' = docs"
  shows "moves {Restores} i s s'"
  using assms(1)
proof
  assume c: "claim (restorable i) (set_status DRAFT) (documents s) = Some docs"
  show ?thesis by (rule moves_claim [OF c assms(2)]) (auto simp: phase_step_simps restorable_def)
next
  assume c: "claim (archived_in i space) (set_status DRAFT) (documents s) = Some docs"
  show ?thesis by (rule moves_claim [OF c assms(2)]) (auto simp: phase_step_simps archived_in_def)
qed

lemma transition_moves:
  "moves {Publishes} i s (fst (userPublish E W s req i))"
  "moves {Archives} i s (fst (userArchive E W s req i))"
  "moves {Restores} i s (fst (userRestore E W s req i))"
proof -
  show "moves {Publishes} i s (fst (userPublish E W s req i))"
  proof (cases "live_document s i")
    case (Some d)
    obtain s1 r where p: "publish_prepared E W s req d ''document.published'' = (s1, r)" by fastforce
    have "moves {Publishes} i s s1" by (rule publish_prepared_moves [OF Some p])
    with Some p show ?thesis
      by (auto simp: userPublish_def transition_def notify_favorites_def split: sum.split intro: moves_documents)
  qed (auto simp: userPublish_def transition_def)
  show "moves {Archives} i s (fst (userArchive E W s req i))"
    by (auto simp: userArchive_def transition_def split: option.split intro: moves_documents [OF archive_moves])
  show "moves {Restores} i s (fst (userRestore E W s req i))"
    by (auto simp: userRestore_def transition_def split: option.split intro: restore_moves)
qed

lemma publish_moves: "moves {Publishes} i s (fst (publish E W s req i))"
proof (cases "live_document s i")
  case (Some d)
  obtain s1 r where p: "publish_prepared E W s req d ''document.publish'' = (s1, r)" by fastforce
  with publish_prepared_moves [OF Some p] Some show ?thesis by (auto simp: publish_def)
qed (auto simp: publish_def)

lemma archive_route_moves: "moves {Archives} i s (fst (archive E s req i))"
  by (auto simp: archive_def split: option.split intro: moves_documents [OF archive_moves])

lemma restore_route_moves: "moves {Restores} i s (fst (restore E s req i))"
  by (auto simp: restore_def split: option.split intro: restore_moves)

definition status_events :: "doc_status \<Rightarrow> phase_event set" where
  "status_events st = (if st = PUBLISHED then {Publishes} else if st = ARCHIVED then {Archives} else {Restores, Withdraws})"

lemma changeStatus_moves: "moves (status_events st) i s (fst (changeStatus E W s req i st))"
proof (cases "live_document s i")
  case (Some d)
  let ?p = "\<lambda>x. doc_id x = i \<and> doc_deletedAt x = None \<and> doc_status x = doc_status d"
  have withdraw: "moves {Restores, Withdraws} i s (s\<lparr>documents := docs\<rparr>)"
    if "claim ?p (set_status DRAFT) (documents s) = Some docs" "doc_status d \<noteq> QUARANTINED" "doc_status d \<noteq> ARCHIVED" for docs
    by (rule moves_claim [OF that(1)]) (use that(2,3) in \<open>cases "doc_status d"; auto simp: phase_step_simps\<close>)+
  have restores: "moves {Restores, Withdraws} i s (fst (restore E s req i))"
    by (rule moves_mono [OF restore_route_moves]) blast
  show ?thesis
    using publish_moves archive_route_moves restores Some
    by (auto simp: changeStatus_def status_events_def split: option.split intro: moves_documents [OF withdraw])
qed (auto simp: changeStatus_def)

text \<open>Changes of columns that the phase does not depend on.\<close>

lemma moves_keep:
  assumes "documents s' = update_rows p f (documents s)" and "\<And>d. row_kept d (f d)" and "\<And>d. phase_of_row (Some (f d)) = phase_of_row (Some d)"
  shows "moves {} i s s'"
proof -
  have ids: "doc_id (f d) = doc_id d" for d using assms(2) [of d] by (simp add: row_kept_def)
  have "phase s' j = phase s j" for j
    using phase_update [OF ids assms(1), of j] assms(3)
    by (cases "find_first (\<lambda>d. doc_id d = j) (documents s)") (simp_all add: phase_def del: phase_of_row.simps)
  then show ?thesis using rows_kept_update [OF assms(1,2)] by (simp add: moves_def)
qed

lemma updateCategory_moves: "moves {} i s (fst (updateCategory E s req i b))"
proof -
  have "moves {} i s t" if "claim p (\<lambda>x. x\<lparr>doc_categoryId := c\<rparr>) (documents s) = Some docs" "documents t = docs" for p c docs t
    by (rule moves_keep [of t p "\<lambda>x. x\<lparr>doc_categoryId := c\<rparr>"]) (use that in \<open>auto simp: claim_Some_iff row_kept_def dead_def\<close>)
  then show ?thesis by (auto simp: updateCategory_def Let_def split: option.split)
qed

lemma mark_document_moves: "moves {} i s (mark_document s i b p)"
  by (rule moves_keep [of _ "\<lambda>x. doc_id x = i" "\<lambda>x. x\<lparr>doc_sensitive := b,
      doc_watermarkPosition := (case p of None \<Rightarrow> doc_watermarkPosition x | Some q \<Rightarrow> q)\<rparr>"]) (auto simp: mark_document_def row_kept_def dead_def)

definition prepare_marked :: "env \<Rightarrow> watermark_io \<Rightarrow> db \<Rightarrow> string \<Rightarrow> bool \<Rightarrow> db \<times> (string \<times> int \<times> string) list outcome" where
  "prepare_marked E W s i b = (if b then prepareForPublication E W s i else (s, Inr []))"

lemma prepare_marked_documents: "prepare_marked E W s i b = (t, r) \<Longrightarrow> documents t = documents s"
  using prepareForPublication_documents [of E W s i] by (cases b) (auto simp: prepare_marked_def dest: arg_cong [of _ _ fst])

lemma setSensitivity_cases:
  obtains (same) "fst (setSensitivity E W s req i body) = s"
      "(\<exists>e. snd (setSensitivity E W s req i body) = Inl e) \<or>
       (\<exists>d. live_document s i = Some d \<and> snd (setSensitivity E W s req i body) = Inr (doc_sensitive d))"
  | (failed) d t position e where "live_document s i = Some d" "sb_sensitive body \<noteq> doc_sensitive d"
      "documents t = documents (mark_document s i (sb_sensitive body) position)"
      "fst (setSensitivity E W s req i body) = mark_document t i (doc_sensitive d) None"
      "snd (setSensitivity E W s req i body) = Inl e"
  | (marked) d t gs position details where "live_document s i = Some d" "sb_sensitive body \<noteq> doc_sensitive d"
      "prepare_marked E W (mark_document s i (sb_sensitive body) position) i (sb_sensitive body \<and> doc_status d = PUBLISHED) = (t, Inr gs)"
      "fst (setSensitivity E W s req i body) = record_audit E (if sb_sensitive body then t else revoke_shares E t i) req
         ''document.sensitivity.update'' (''document:'' @ i) Success details"
      "snd (setSensitivity E W s req i body) = Inr (sb_sensitive body)"
proof (cases "live_document s i")
  case None
  then show thesis by (intro same) (simp_all add: setSensitivity_def split: sum.split)
next
  case (Some d)
  define position where "position = (case parseWatermarkPosition (sb_watermarkPosition body) of Inr q \<Rightarrow> if sb_sensitive body then Some q else None | Inl e \<Rightarrow> None)"
  obtain t r where pr: "prepare_marked E W (mark_document s i (sb_sensitive body) position) i (sb_sensitive body \<and> doc_status d = PUBLISHED) = (t, r)"
    by fastforce
  define ok where "ok \<longleftrightarrow> assertCanMarkSensitive s req = Inr () \<and> can_on E s req d Edit \<and> (\<exists>q. parseWatermarkPosition (sb_watermarkPosition body) = Inr q) \<and>
    sb_sensitive body \<noteq> doc_sensitive d \<and> (if sb_sensitive body then assert_formats True (version_names s i) else Inr ()) = Inr ()"
  show thesis
  proof (cases ok)
    case False
    with Some show thesis by (intro same) (auto simp: setSensitivity_def ok_def split: sum.split)
  next
    case True
    then obtain q where q: "assertCanMarkSensitive s req = Inr ()" "can_on E s req d Edit" "parseWatermarkPosition (sb_watermarkPosition body) = Inr q"
      "sb_sensitive body \<noteq> doc_sensitive d" "(if sb_sensitive body then assert_formats True (version_names s i) else Inr ()) = Inr ()"
      by (auto simp: ok_def)
    have pos: "position = (if sb_sensitive body then Some q else None)" by (simp add: position_def q(3))
    have eq: "setSensitivity E W s req i body = (case (t, r) of
        (s2, Inl e) \<Rightarrow> (mark_document s2 i (doc_sensitive d) None, Inl e)
      | (s2, Inr _) \<Rightarrow> (record_audit E (if sb_sensitive body then s2 else revoke_shares E s2 i) req
            ''document.sensitivity.update'' (''document:'' @ i) Success (Some (JObj [(''sensitive'', JBool (sb_sensitive body))])), Inr (sb_sensitive body)))"
      unfolding setSensitivity_def Let_def q(1,3,5) Some sum.case option.case pr [symmetric] prepare_marked_def pos
      by (simp only: q(2,4) not_True_eq_False if_False)
    show thesis
    proof (cases r)
      case (Inl e)
      with eq Some q(4) prepare_marked_documents [OF pr] show thesis by (intro failed [of d t position e]) simp_all
    next
      case (Inr gs)
      with eq Some q(4) pr show thesis
        by (intro marked [of d position t gs "Some (JObj [(''sensitive'', JBool (sb_sensitive body))])"]) simp_all
    qed
  qed
qed

lemma setSensitivity_moves: "moves {} i s (fst (setSensitivity E W s req i body))"
proof (cases rule: setSensitivity_cases [of E W s req i body])
  case (failed d t position e)
  have "moves {} i s t" by (rule moves_documents [OF mark_document_moves refl failed(3)])
  then show ?thesis unfolding failed(4) by (rule moves_none_trans [OF _ mark_document_moves])
next
  case (marked d t gs position details)
  have "documents (fst (setSensitivity E W s req i body)) = documents (mark_document s i (sb_sensitive body) position)"
    using prepare_marked_documents [OF marked(3)] by (simp add: marked(4) revoke_shares_def)
  then show ?thesis by (rule moves_documents [OF mark_document_moves refl])
qed auto

lemma removeByModerator_moves: "moves {Trashes} i s (fst (removeByModerator E ok s req i))"
proof -
  have "moves {Trashes} i s t" if "documents t = update_rows (\<lambda>x. doc_id x = i) (trash_row (now E)) (documents s)" for t
    by (rule moves_update [OF _ that]) (auto simp: phase_step_simps)
  then show ?thesis
    by (auto simp: removeByModerator_def Let_def forget_reviews_def settle_removals_def split: option.split)
qed

lemma restoreFromTrash_moves: "moves {Untrashes} i s (fst (restoreFromTrash E s req i))"
proof -
  have "moves {Untrashes} i s t" if "claim (in_trash i) untrash_row (documents s) = Some docs" "documents t = docs" for docs t
    by (rule moves_claim [OF that]) (auto simp: phase_step_simps in_trash_def dead_def)
  then show ?thesis by (auto simp: restoreFromTrash_def split: option.split)
qed

lemma remove_documents:
  "documents (fst (remove E ok s req i)) = documents s \<or> documents (fst (remove E ok s req i)) = delete_rows (\<lambda>d. doc_id d = i) (documents s)"
  by (simp add: remove_def Let_def case_prod_beta settle_removals_def delete_files_def cascade_document_def delete_versions_def
      forget_reviews_def split: option.split)

lemma remove_moves: "moves {Removes} i s (fst (remove E ok s req i))"
  using remove_documents [of E ok s req i] by (auto intro: moves_delete)

lemma recordReviewDecision_moves: "moves {Archives} i s (fst (recordReviewDecision s r i dec))"
proof -
  have "moves {Archives} i s t" if "documents t = update_rows (archivable i) archive_row (documents s)" for t
    by (rule moves_update [OF _ that]) (auto simp: phase_step_simps archivable_def)
  then show ?thesis
    by (auto simp: recordReviewDecision_def Let_def reject_document_def split: option.split prod.split)
qed

text \<open>A run of the worker may destroy several documents.\<close>

definition destroying :: "db \<Rightarrow> db \<Rightarrow> bool" where
  "destroying s s' \<longleftrightarrow> rows_kept s s' \<and> (\<forall>j. phase s' j = phase s j \<or> phase_step Destroys (phase s j) (phase s' j))"

lemma destroying_same: "documents s' = documents s \<Longrightarrow> destroying s s'"
  by (simp add: destroying_def phase_def rows_kept_same)

lemma destroying_trans: "destroying s t \<Longrightarrow> destroying t u \<Longrightarrow> destroying s u"
  unfolding destroying_def phase_step_simps by (metis rows_kept_trans)

lemma destroy_one_destroying: "destroying s (fst (destroy_one E ok s p d))"
  using destroy_one_documents [of E ok s p d]
proof
  assume up: "documents (fst (destroy_one E ok s p d)) = update_rows (\<lambda>x. doc_id x = doc_id d) (tombstone (now E)) (documents s)"
  have "moves {Destroys} (doc_id d) s (fst (destroy_one E ok s p d))"
    by (rule moves_update [OF _ up]) (auto simp: phase_step_simps)
  then show ?thesis by (auto simp: moves_def destroying_def)
qed (rule destroying_same)

lemma destroy_loop_destroying: "destroying s (fst (destroy_loop E ok s n ps))"
proof (induction ps arbitrary: s n)
  case (Cons p ps)
  show ?case
  proof (cases "claim (\<lambda>x. rp_id x = rp_id p \<and> destruction_open x) (start_destruction (now E)) (retentions s)")
    case None
    with Cons.IH [of s n] show ?thesis by simp
  next
    case c: (Some rows)
    let ?s = "s\<lparr>retentions := rows\<rparr>"
    have s: "destroying s ?s" by (rule destroying_same) simp
    show ?thesis
    proof (cases "find_first (\<lambda>d. doc_id d = rp_documentId p) (documents s)")
      case None
      with destroying_trans [OF s Cons.IH [of ?s n]] c show ?thesis by simp
    next
      case (Some d)
      obtain t b where t: "destroy_one E ok ?s p d = (t, b)" by fastforce
      have one: "destroying s t"
        using destroying_trans [OF s] destroy_one_destroying [of ?s E ok p d] t by simp
      show ?thesis
        using destroying_trans [OF one Cons.IH [of t "Suc n"]] one c Some t by (cases b) simp_all
    qed
  qed
qed (simp add: destroying_same)

lemma executeApprovedDestructions_destroying: "destroying s (fst (executeApprovedDestructions E ok s))"
proof -
  have "destroying s (requeue_stale E s)" by (rule destroying_same) (simp add: requeue_stale_def)
  then show ?thesis
    using destroying_trans destroy_loop_destroying by (simp add: executeApprovedDestructions_def Let_def)
qed

text \<open>The routes of the edit lock (\<open>ged.controller.ts\<close>) keep every phase; the restoration of a version makes the
  document a draft. It updates the row of an id, so it needs ids to be unique.\<close>

lemma phase_of_update:
  assumes "documents s' = documents s \<or> documents s' = update_rows p f (documents s)" and "\<And>d. doc_id (f d) = doc_id d"
    and "\<And>d. phase_of_row (Some (f d)) = phase_of_row (Some d)"
  shows "phase s' j = phase s j"
  using assms(1)
proof
  assume up: "documents s' = update_rows p f (documents s)"
  show ?thesis
    using phase_update [OF assms(2) up, of j] assms(3)
    by (cases "find_first (\<lambda>d. doc_id d = j) (documents s)") (simp_all add: phase_def del: phase_of_row.simps)
qed (simp add: phase_def)

lemma lock_documents:
  "documents (fst (lock E s req i)) = documents s \<or> documents (fst (lock E s req i)) =
     update_rows (\<lambda>d. doc_id d = i \<and> lock_free (rq_username req) (now E) d) (take_lock (rq_username req) (now E)) (documents s)"
  by (auto simp: lock_def Let_def claim_def split: sum.splits option.splits)

lemma unlock_documents:
  "documents (fst (unlock E s req i)) = documents s \<or>
   documents (fst (unlock E s req i)) = update_rows (\<lambda>d. doc_id d = i) free_lock (documents s)"
  by (auto simp: unlock_def split: sum.splits)

lemma lock_phase: "phase (fst (lock E s req i)) j = phase s j"
  by (rule phase_of_update [OF lock_documents]) (simp_all add: take_lock_def)

lemma unlock_phase: "phase (fst (unlock E s req i)) j = phase s j"
  by (rule phase_of_update [OF unlock_documents]) (simp_all add: free_lock_def)

lemma lock_distinct:
  assumes "distinct (map doc_id (documents s))"
  shows "distinct (map doc_id (documents (fst (lock E s req i))))" "distinct (map doc_id (documents (fst (unlock E s req i))))"
proof -
  have "map doc_id (documents (fst (lock E s req i))) = map doc_id (documents s)"
    using lock_documents [of E s req i] by (auto simp: map_update_rows)
  moreover have "map doc_id (documents (fst (unlock E s req i))) = map doc_id (documents s)"
    using unlock_documents [of E s req i] by (auto simp: map_update_rows free_lock_def)
  ultimately show "distinct (map doc_id (documents (fst (lock E s req i))))" "distinct (map doc_id (documents (fst (unlock E s req i))))"
    using assms by simp_all
qed

lemma restoreVersion_documents:
  "documents (fst (restoreVersion E s req i v c)) = documents s \<or>
   (\<exists>d. requireEditable E s req i = Inr d) \<and>
     documents (fst (restoreVersion E s req i v c)) = update_rows (\<lambda>d. doc_id d = i) (set_status DRAFT) (documents s)"
  by (auto simp: restoreVersion_def Let_def set_status_def [abs_def] split: sum.splits option.splits)

lemma restoreVersion_moves:
  assumes "distinct (map doc_id (documents s))"
  shows "moves {Reopens} i s (fst (restoreVersion E s req i v c))"
  using restoreVersion_documents [of E s req i v c]
proof (elim disjE conjE exE)
  fix d assume r: "requireEditable E s req i = Inr d"
    and up: "documents (fst (restoreVersion E s req i v c)) = update_rows (\<lambda>d. doc_id d = i) (set_status DRAFT) (documents s)"
  have "doc_deletedAt x = None" if "find_first (\<lambda>d. doc_id d = i) (documents s) = Some x" for x
    using key_unique [OF assms, of x d] requireEditable_Inr [OF r] find_first_Some [OF that] by auto
  then show ?thesis by (intro moves_update [OF _ up]) (auto simp: phase_step_simps)
qed (rule moves_same)

lemma restoreVersion_never_publishes:
  assumes "phase (fst (restoreVersion E s req i v c)) j = Live PUBLISHED"
  shows "phase s j = Live PUBLISHED"
  using restoreVersion_documents [of E s req i v c]
proof (elim disjE conjE)
  assume up: "documents (fst (restoreVersion E s req i v c)) = update_rows (\<lambda>d. doc_id d = i) (set_status DRAFT) (documents s)"
  show ?thesis
    using phase_update [OF set_status_simps(1) up, of j] assms
    by (cases "find_first (\<lambda>d. doc_id d = j) (documents s)") (auto simp: phase_def split: if_splits)
qed (use assms in \<open>simp add: phase_def\<close>)

section \<open>Runs\<close>

text \<open>The calls on an existing document, as the routes and the worker make them, one after the other; the
  routes of the administration are behind their guard. The upload of a version, which makes a document a draft or
  puts it in quarantine, and the creation of documents are not among them.\<close>

datatype document_op =
    UserPublish request string
  | UserArchive request string
  | UserRestore request string
  | ModeratorRemove request string
  | SetCategory request string "string option"
  | SetSensitivity request string SensitivityDto
  | AdminPublish request string
  | AdminStatus request string doc_status
  | AdminArchive request string
  | AdminRestore request string
  | TrashRestore request string
  | AdminRemove request string
  | ReviewDecision string string review_decision
  | RestoreVersion request string string "string option"
  | LockDocument request string
  | UnlockDocument request string
  | WorkerDestruction

definition as_admin :: "request \<Rightarrow> db \<Rightarrow> db \<Rightarrow> db" where
  "as_admin req s s' = (case admin_guard req of Inl e \<Rightarrow> s | Inr _ \<Rightarrow> s')"

record surroundings =
  su_env :: env
  su_io :: watermark_io
  su_remove :: "string \<Rightarrow> bool"

fun run_op :: "surroundings \<Rightarrow> document_op \<Rightarrow> db \<Rightarrow> db" where
  "run_op X (UserPublish req i) s = fst (userPublish (su_env X) (su_io X) s req i)"
| "run_op X (UserArchive req i) s = fst (userArchive (su_env X) (su_io X) s req i)"
| "run_op X (UserRestore req i) s = fst (userRestore (su_env X) (su_io X) s req i)"
| "run_op X (ModeratorRemove req i) s = fst (removeByModerator (su_env X) (su_remove X) s req i)"
| "run_op X (SetCategory req i c) s = fst (updateCategory (su_env X) s req i c)"
| "run_op X (SetSensitivity req i b) s = fst (setSensitivity (su_env X) (su_io X) s req i b)"
| "run_op X (AdminPublish req i) s = as_admin req s (fst (publish (su_env X) (su_io X) s req i))"
| "run_op X (AdminStatus req i st) s = as_admin req s (fst (changeStatus (su_env X) (su_io X) s req i st))"
| "run_op X (AdminArchive req i) s = as_admin req s (fst (archive (su_env X) s req i))"
| "run_op X (AdminRestore req i) s = as_admin req s (fst (restore (su_env X) s req i))"
| "run_op X (TrashRestore req i) s = as_admin req s (fst (restoreFromTrash (su_env X) s req i))"
| "run_op X (AdminRemove req i) s = as_admin req s (fst (remove (su_env X) (su_remove X) s req i))"
| "run_op X (ReviewDecision r i dec) s = fst (recordReviewDecision s r i dec)"
| "run_op X (RestoreVersion req i v c) s = fst (restoreVersion (su_env X) s req i v c)"
| "run_op X (LockDocument req i) s = fst (lock (su_env X) s req i)"
| "run_op X (UnlockDocument req i) s = fst (unlock (su_env X) s req i)"
| "run_op X WorkerDestruction s = fst (executeApprovedDestructions (su_env X) (su_remove X) s)"

fun events_of :: "document_op \<Rightarrow> string \<Rightarrow> phase_event set" where
  "events_of (UserPublish req i) j = (if j = i then {Publishes} else {})"
| "events_of (UserArchive req i) j = (if j = i then {Archives} else {})"
| "events_of (UserRestore req i) j = (if j = i then {Restores} else {})"
| "events_of (ModeratorRemove req i) j = (if j = i then {Trashes} else {})"
| "events_of (SetCategory req i c) j = {}"
| "events_of (SetSensitivity req i b) j = {}"
| "events_of (AdminPublish req i) j = (if j = i then {Publishes} else {})"
| "events_of (AdminStatus req i st) j = (if j = i then status_events st else {})"
| "events_of (AdminArchive req i) j = (if j = i then {Archives} else {})"
| "events_of (AdminRestore req i) j = (if j = i then {Restores} else {})"
| "events_of (TrashRestore req i) j = (if j = i then {Untrashes} else {})"
| "events_of (AdminRemove req i) j = (if j = i then {Removes} else {})"
| "events_of (ReviewDecision r i dec) j = (if j = i then {Archives} else {})"
| "events_of (RestoreVersion req i v c) j = (if j = i then {Reopens} else {})"
| "events_of (LockDocument req i) j = {}"
| "events_of (UnlockDocument req i) j = {}"
| "events_of WorkerDestruction j = {Destroys}"

text \<open>The contract of a system of document operations: from a well-formed table, which every call keeps, each call
  makes on the phase of every document one of its announced steps, or none.\<close>

locale phase_system =
  fixes run :: "'x \<Rightarrow> 'op \<Rightarrow> db \<Rightarrow> db"
    and events :: "'op \<Rightarrow> string \<Rightarrow> phase_event set"
    and wellformed :: "db \<Rightarrow> bool"
  assumes run_step: "wellformed s \<Longrightarrow>
      phase (run x op s) j = phase s j \<or> (\<exists>ev\<in>events op j. phase_step ev (phase s j) (phase (run x op s) j))"
    and run_wellformed: "wellformed s \<Longrightarrow> wellformed (run x op s)"
begin

abbreviation run_all :: "('x \<times> 'op) list \<Rightarrow> db \<Rightarrow> db" where
  "run_all calls s \<equiv> foldl (\<lambda>s (x, op). run x op s) s calls"

lemma run_all_wellformed: "wellformed s \<Longrightarrow> wellformed (run_all calls s)"
  by (induction calls arbitrary: s) (auto simp: run_wellformed)

lemma run_simulates: "wellformed s \<Longrightarrow> (\<lambda>p q. \<exists>ev. phase_step ev p q)\<^sup>*\<^sup>* (phase s j) (phase (run_all calls s) j)"
proof (induction calls arbitrary: s)
  case (Cons c calls)
  obtain x op where c: "c = (x, op)" by fastforce
  have "(\<lambda>p q. \<exists>ev. phase_step ev p q)\<^sup>*\<^sup>* (phase s j) (phase (run x op s) j)"
    using run_step [OF Cons.prems, of x op j] by auto
  with Cons.IH [OF run_wellformed [OF Cons.prems], of x op] show ?case by (simp add: c)
qed simp

lemma gone_stays: "wellformed s \<Longrightarrow> phase s j = Gone \<Longrightarrow> phase (run_all calls s) j = Gone"
proof (induction calls arbitrary: s)
  case (Cons c calls)
  obtain x op where c: "c = (x, op)" by fastforce
  have "phase (run x op s) j = Gone" using run_step [OF Cons.prems(1), of x op j] Cons.prems(2) by (auto dest: phase_step_final)
  with Cons.IH run_wellformed [OF Cons.prems(1), of x op] show ?case by (simp add: c)
qed simp

lemma destroyed_stays:
  assumes "wellformed s" and "phase s j = Destroyed" and "\<forall>(x, op)\<in>set calls. Removes \<notin> events op j"
  shows "phase (run_all calls s) j = Destroyed"
  using assms
proof (induction calls arbitrary: s)
  case (Cons c calls)
  obtain x op where c: "c = (x, op)" by fastforce
  have "phase (run x op s) j = Destroyed"
    using run_step [OF Cons.prems(1), of x op j] Cons.prems c by (auto elim!: phase_step.cases)
  with Cons run_wellformed [OF Cons.prems(1), of x op] show ?case by (simp add: c)
qed simp

lemma destroyed_or_gone: "wellformed s \<Longrightarrow> phase s j = Destroyed \<Longrightarrow> phase (run_all calls s) j \<in> {Destroyed, Gone}"
proof (induction calls arbitrary: s)
  case (Cons c calls)
  obtain x op where c: "c = (x, op)" by fastforce
  have "phase (run x op s) j = Destroyed \<or> phase (run x op s) j = Gone"
    using run_step [OF Cons.prems(1), of x op j] Cons.prems(2) by (auto dest: phase_step_final)
  with Cons.IH gone_stays run_wellformed [OF Cons.prems(1), of x op] show ?case by (auto simp: c)
qed simp

end

lemma as_admin_phase: "phase (as_admin req s s') j = phase s j \<or> phase (as_admin req s s') j = phase s' j"
  by (simp add: as_admin_def split: sum.split)

lemma moves_events:
  "moves evs i s s' \<Longrightarrow> phase s' j = phase s j \<or> (\<exists>ev\<in>(if j = i then evs else {}). phase_step ev (phase s j) (phase s' j))"
  by (auto simp: moves_def)

lemma moves_events_admin:
  assumes "moves evs i s s'"
  shows "phase (as_admin req s s') j = phase s j \<or> (\<exists>ev\<in>(if j = i then evs else {}). phase_step ev (phase s j) (phase (as_admin req s s') j))"
  using moves_events [OF assms, of j] as_admin_phase [of req s s' j] by metis

lemmas handler_moves = transition_moves publish_moves archive_route_moves restore_route_moves changeStatus_moves
  removeByModerator_moves restoreFromTrash_moves remove_moves recordReviewDecision_moves updateCategory_moves setSensitivity_moves

definition unique_ids :: "db \<Rightarrow> bool" where
  "unique_ids s \<longleftrightarrow> distinct (map doc_id (documents s))"

lemma moves_none_phase: "moves {} i s s' \<Longrightarrow> phase s' j = phase s j"
  by (simp add: moves_def)

lemma run_op_step:
  assumes "unique_ids s \<or> (\<forall>req i v c. op \<noteq> RestoreVersion req i v c)"
  shows "phase (run_op X op s) j = phase s j \<or> (\<exists>ev\<in>events_of op j. phase_step ev (phase s j) (phase (run_op X op s) j))"
proof (cases op)
  case WorkerDestruction
  then show ?thesis using executeApprovedDestructions_destroying [of s "su_env X" "su_remove X"] by (simp add: destroying_def)
next
  case (SetCategory req i c)
  then show ?thesis by (simp add: moves_none_phase [OF updateCategory_moves])
next
  case (SetSensitivity req i b)
  then show ?thesis by (simp add: moves_none_phase [OF setSensitivity_moves])
next
  case (LockDocument req i)
  then show ?thesis by (simp add: lock_phase)
next
  case (UnlockDocument req i)
  then show ?thesis by (simp add: unlock_phase)
next
  case (RestoreVersion req i v c)
  then have "moves {Reopens} i s (run_op X op s)" using assms restoreVersion_moves by (simp add: unique_ids_def)
  then show ?thesis using RestoreVersion by (auto simp: moves_def)
qed (simp only: run_op.simps events_of.simps, (rule moves_events handler_moves moves_events_admin)+)+

text \<open>Apart from the lock routes, every call keeps the rows.\<close>

lemma moves_kept: "moves evs i s s' \<Longrightarrow> rows_kept s s'" "moves evs i s s' \<Longrightarrow> rows_kept s (as_admin req s s')"
  by (auto simp: moves_def as_admin_def rows_kept_same split: sum.split)

lemma run_op_kept:
  assumes "unique_ids s" and "\<forall>req i. op \<noteq> LockDocument req i \<and> op \<noteq> UnlockDocument req i"
  shows "rows_kept s (run_op X op s)"
proof (cases op)
  case WorkerDestruction
  then show ?thesis using executeApprovedDestructions_destroying [of s "su_env X" "su_remove X"] by (simp add: destroying_def)
next
  case (RestoreVersion req i v c)
  then show ?thesis using moves_kept(1) [OF restoreVersion_moves] assms(1) by (simp add: unique_ids_def)
qed (use assms(2) in simp_all, (rule moves_kept, rule handler_moves)+)

lemma run_op_unique_ids:
  assumes "unique_ids s"
  shows "unique_ids (run_op X op s)"
proof (cases "\<exists>req i. op = LockDocument req i \<or> op = UnlockDocument req i")
  case True
  then show ?thesis using assms lock_distinct by (auto simp: unique_ids_def)
next
  case False
  then show ?thesis using run_op_kept [OF assms, of op X] assms by (auto simp: rows_kept_def unique_ids_def)
qed

interpretation portal: phase_system run_op events_of unique_ids
  by unfold_locales (use run_op_step run_op_unique_ids in blast)+

definition run_ops :: "(surroundings \<times> document_op) list \<Rightarrow> db \<Rightarrow> db" where
  "run_ops calls s = foldl (\<lambda>s (X, op). run_op X op s) s calls"

section \<open>Properties of the life of a document\<close>

text \<open>C2: the handlers implement the machine over phases. The calls are those of \<open>document_op\<close>: publication, archiving,
  restoring and deletion by users and by administrators, the administrator's change of status and
  restoration from the trash, the change of category and of sensitivity, the restoration of a version,
  the check-out and its release, the decision of a review, and the worker's destruction (not the
  upload of a version and the creation of documents). When ids are unique, every such call makes on the
  phase of every document one of the steps announced for it or none and keeps ids unique, so that every
  sequence of these calls is a run of the machine.\<close>

theorem lifecycle_refinement:
  assumes "distinct (map doc_id (documents s))"
  shows "(phase (run_op X op s) j = phase s j \<or> (\<exists>ev\<in>events_of op j. phase_step ev (phase s j) (phase (run_op X op s) j))) \<and>
    distinct (map doc_id (documents (run_ops calls s))) \<and>
    (\<lambda>p q. \<exists>ev. phase_step ev p q)\<^sup>*\<^sup>* (phase s j) (phase (run_ops calls s) j)"
  using run_op_step [of s op X j] portal.run_simulates [of s j calls] portal.run_all_wellformed [of s calls] assms
  unfolding run_ops_def unique_ids_def by blast

text \<open>C23: destroyed documents never come back. When ids are unique, no sequence of the calls of \<open>document_op\<close> leads
  from the tombstone of a document (destroyed, deleted and archived) to anything but such a tombstone, or
  the absence once an administrator deletes it: none takes the tombstone out of the trash, to another
  status or back to life. What is gone stays gone.\<close>

theorem destruction_final:
  assumes "distinct (map doc_id (documents s))" and "phase s j \<in> {Destroyed, Gone}"
  shows "phase (run_ops calls s) j \<in> {Destroyed, Gone} \<and> (phase s j = Gone \<longrightarrow> phase (run_ops calls s) j = Gone) \<and>
    (phase s j = Destroyed \<longrightarrow> (\<forall>(X, op)\<in>set calls. Removes \<notin> events_of op j) \<longrightarrow> phase (run_ops calls s) j = Destroyed)"
  using assms portal.gone_stays [of s j calls] portal.destroyed_or_gone [of s j calls] portal.destroyed_stays [of s j calls]
  unfolding run_ops_def unique_ids_def by blast

text \<open>The edit lock over sequences of calls: who may release the check-out of \<open>holder\<close>.\<close>

fun releases :: "string \<Rightarrow> string \<Rightarrow> document_op \<Rightarrow> bool" where
  "releases holder i (UnlockDocument req j) = (j = i \<and> (rq_username req = holder \<or> isAdminIdentity (rq_groups req)))"
| "releases holder i _ = False"

lemma checked_out_kept: "checked_out holder T i s \<Longrightarrow> rows_kept s s' \<Longrightarrow> checked_out holder T i s'"
  unfolding checked_out_def rows_kept_def row_kept_def by metis

lemma run_op_checked_out:
  assumes "checked_out holder T i s" and "holder \<noteq> []" and "T \<le> now (su_env X) + LOCK_MS" and "now (su_env X) < T" and "\<not> releases holder i op"
  shows "checked_out holder T i (run_op X op s)"
proof -
  consider (lock) req j where "op = LockDocument req j" | (unlock) req j where "op = UnlockDocument req j"
    | (other) "\<forall>req j. op \<noteq> LockDocument req j \<and> op \<noteq> UnlockDocument req j" by blast
  then show ?thesis
  proof cases
    case lock
    then show ?thesis using lock_keeps_checked_out [OF assms(1,4,3)] by simp
  next
    case unlock
    then show ?thesis using unlock_keeps_checked_out [OF assms(1,2,4)] assms(5) by auto
  next
    case other
    have "unique_ids s" using assms(1) by (simp add: checked_out_def unique_ids_def)
    then show ?thesis by (rule checked_out_kept [OF assms(1) run_op_kept [OF _ other]])
  qed
qed

lemma run_ops_checked_out:
  assumes "checked_out holder T i s" and "holder \<noteq> []"
    and "\<forall>(X, op)\<in>set calls. T \<le> now (su_env X) + LOCK_MS \<and> now (su_env X) < T \<and> \<not> releases holder i op"
  shows "checked_out holder T i (run_ops calls s)"
  using assms(1,3) unfolding run_ops_def
proof (induction calls arbitrary: s)
  case (Cons c calls)
  obtain X op where c: "c = (X, op)" by fastforce
  have "checked_out holder T i (run_op X op s)" by (rule run_op_checked_out [OF Cons.prems(1) assms(2)]) (use Cons.prems(2) c in auto)
  with Cons.IH Cons.prems(2) show ?case by (simp add: c)
qed simp

text \<open>C27: the edit lock is exclusive for eight hours. Let a caller check a document out, in a table with unique ids
  where every lock has an owner and an end, and let any sequence of the calls of \<open>document_op\<close> follow, one
  after the other, on this and other documents, within the eight hours, in which neither the holder nor an
  administrator releases the lock. Then, still within the eight hours, nobody else obtains the lock or
  restores a version of the document, and nobody else who is not an administrator releases it: these
  requests are refused and change nothing.\<close>

theorem lock_exclusive:
  assumes "locks_ok s" and "rq_username req \<noteq> []" and "lock E s req i = (s', Inr t)"
    and "\<forall>(X, op)\<in>set calls. now E \<le> now (su_env X) \<and> now (su_env X) < now E + 8 * 3600000 \<and> \<not> releases (rq_username req) i op"
    and "now E' < now E + 8 * 3600000" and "rq_username req' \<noteq> rq_username req"
  shows "(\<exists>d\<in>set (documents s'). doc_id d = i \<and> doc_lockedBy d = Some (rq_username req)) \<and>
    (\<exists>e. lock E' (run_ops calls s') req' i = (run_ops calls s', Inl e)) \<and>
    (\<exists>e. restoreVersion E' (run_ops calls s') req' i v c = (run_ops calls s', Inl e)) \<and>
    (isAdminIdentity (rq_groups req') \<or> (\<exists>e. unlock E' (run_ops calls s') req' i = (run_ops calls s', Inl e)))"
proof -
  have t: "t = now E + 8 * 3600000" "checked_out (rq_username req) t i s'"
    "\<exists>d\<in>set (documents s'). doc_id d = i \<and> doc_lockedBy d = Some (rq_username req)"
    using lock_checks_out [OF assms(1,3)] by (auto simp: LOCK_MS_def)
  have "checked_out (rq_username req) t i (run_ops calls s')"
    by (rule run_ops_checked_out [OF t(2) assms(2)]) (use assms(4) t(1) in \<open>auto simp: LOCK_MS_def\<close>)
  from checked_out_refuses [OF this assms(2) _ assms(6), of E' v c] assms(5) t(1,3) show ?thesis by simp
qed

lemma publish_prepared_changes:
  assumes "documents (fst (publish_prepared E W s req d a)) \<noteq> documents s"
  shows "\<exists>s1 gs. prepareForPublication E W s (doc_id d) = (s1, Inr gs)"
proof -
  obtain s' r where p: "publish_prepared E W s req d a = (s', r)" by fastforce
  have ne: "documents s' \<noteq> documents s" using assms p by simp
  from p show ?thesis by (rule publish_prepared_cases) (use ne in auto)
qed

lemma userPublish_changes:
  assumes "documents (fst (userPublish E W s req i)) \<noteq> documents s"
  obtains d s1 gs where "live_document s i = Some d" "can_on E s req d Publish" "document_versions s i \<noteq> []" "clean_versions s i"
    "prepareForPublication E W s i = (s1, Inr gs)"
proof -
  obtain d where d: "live_document s i = Some d" using assms by (cases "live_document s i") (simp_all add: userPublish_def transition_def)
  obtain s' r where p: "publish_prepared E W s req d ''document.published'' = (s', r)" by fastforce
  have *: "can_on E s req d Publish" "document_versions s i \<noteq> []" "clean_versions s i" "documents s' \<noteq> documents s"
    using assms d p by (auto simp: userPublish_def transition_def notify_favorites_def split: if_splits sum.splits)
  have "\<exists>s1 gs. prepareForPublication E W s (doc_id d) = (s1, Inr gs)"
    by (rule publish_prepared_changes [of E W s req d "''document.published''"]) (use *(4) p in simp)
  then obtain s1 gs where "prepareForPublication E W s i = (s1, Inr gs)" using live_documentD [OF d] by auto
  with * d that show thesis by blast
qed

lemma publish_changes:
  assumes "documents (fst (publish E W s req i)) \<noteq> documents s"
  obtains d s1 gs where "live_document s i = Some d" "document_versions s i \<noteq> [] \<or> doc_externalUrl d \<noteq> None" "clean_versions s i"
    "prepareForPublication E W s i = (s1, Inr gs)"
proof -
  obtain d where d: "live_document s i = Some d" using assms by (cases "live_document s i") (simp_all add: publish_def)
  have *: "document_versions s i \<noteq> [] \<or> doc_externalUrl d \<noteq> None" "clean_versions s i"
    "documents (fst (publish_prepared E W s req d ''document.publish'')) \<noteq> documents s"
    using assms d by (auto simp: publish_def some_and_iff split: if_splits)
  have "\<exists>s1 gs. prepareForPublication E W s (doc_id d) = (s1, Inr gs)" by (rule publish_prepared_changes [OF *(3)])
  then obtain s1 gs where "prepareForPublication E W s i = (s1, Inr gs)" using live_documentD [OF d] by auto
  with * d that show thesis by blast
qed

lemma changeStatus_publishes:
  "documents (fst (changeStatus E W s req i PUBLISHED)) \<noteq> documents s \<Longrightarrow>
     documents (fst (publish E W s req i)) \<noteq> documents s"
  by (auto simp: changeStatus_def split: option.splits if_splits)

text \<open>C9: nothing becomes public unchecked. When a call makes a document published that was not, then every
  version of it has a clean antivirus verdict, the marked copies of a sensitive document were made,
  and the caller is a user with the right to publish a document with a file, or an administrator.\<close>

theorem publication_gate:
  assumes "phase s j \<noteq> Live PUBLISHED" and "phase (run_op X op s) j = Live PUBLISHED"
  shows "clean_versions s j \<and> (\<exists>s1 gs. prepareForPublication (su_env X) (su_io X) s j = (s1, Inr gs)) \<and>
    (\<exists>req d. live_document s j = Some d \<and>
      (op = UserPublish req j \<and> can_on (su_env X) s req d Publish \<and> document_versions s j \<noteq> [] \<or>
       op \<in> {AdminPublish req j, AdminStatus req j PUBLISHED} \<and> isAdminIdentity (rq_groups req) \<and>
         (document_versions s j \<noteq> [] \<or> doc_externalUrl d \<noteq> None)))"
proof -
  have "documents (run_op X op s) \<noteq> documents s" using assms by (auto simp: phase_def)
  moreover have "\<forall>req i v c. op \<noteq> RestoreVersion req i v c"
    using assms restoreVersion_never_publishes by auto
  then have "Publishes \<in> events_of op j"
    using run_op_step [of s op X j] assms by (auto elim: phase_step.cases)
  ultimately consider (user) req where "op = UserPublish req j" "documents (fst (userPublish (su_env X) (su_io X) s req j)) \<noteq> documents s"
    | (admin) req where "op \<in> {AdminPublish req j, AdminStatus req j PUBLISHED}" "isAdminIdentity (rq_groups req)"
        "documents (fst (publish (su_env X) (su_io X) s req j)) \<noteq> documents s"
    by (cases op) (auto simp: status_events_def as_admin_def admin_guard_def guard_admin_class split: if_splits dest: changeStatus_publishes)
  then show ?thesis
  proof cases
    case user
    from user(2) show ?thesis by (rule userPublish_changes) (use user(1) in blast)
  next
    case admin
    from admin(3) show ?thesis by (rule publish_changes) (use admin(1,2) in blast)
  qed
qed

lemma mark_document_row:
  assumes "x \<in> set (documents (mark_document s i b p))" and "doc_id x = i"
  shows "doc_sensitive x = b"
proof -
  let ?f = "\<lambda>x. x\<lparr>doc_sensitive := b, doc_watermarkPosition := (case p of None \<Rightarrow> doc_watermarkPosition x | Some p \<Rightarrow> p)\<rparr>"
  have "x \<in> set (update_rows (\<lambda>x. doc_id x = i) ?f (documents s))" using assms(1) by (simp add: mark_document_def)
  then obtain y where y: "x = (if doc_id y = i then ?f y else y)" by (rule update_rows_origin)
  show ?thesis
  proof (cases "doc_id y = i")
    case True
    then show ?thesis using y by simp
  next
    case False
    then show ?thesis using y assms(2) by simp
  qed
qed

lemma revoke_shares_no_access: "\<not> hasSensitiveShare E' (revoke_shares E s i) i w"
proof
  let ?p = "\<lambda>r. ss_documentId r = i \<and> ss_revokedAt r = None" and ?f = "\<lambda>r. r\<lparr>ss_revokedAt := Some (now E)\<rparr>"
  assume "hasSensitiveShare E' (revoke_shares E s i) i w"
  then obtain r where r: "r \<in> set (update_rows ?p ?f (shares s))" "ss_documentId r = i" "ss_revokedAt r = None"
    by (auto simp: revoke_shares_def hasSensitiveShare_ex activeShareWhere_def)
  from r(1) obtain y where y: "r = (if ?p y then ?f y else y)" by (rule update_rows_origin)
  show False using y r(2,3) by (cases "?p y") simp_all
qed

lemma hasSensitiveShare_tables: "shares s' = shares s \<Longrightarrow> \<not> hasSensitiveShare E s i w \<longleftrightarrow> \<not> hasSensitiveShare E s' i w"
  by (simp add: hasSensitiveShare_def)

text \<open>The two sides of the sensitivity mark. A refused change leaves every mark as it was, also when the marking of
  the copies failed half way; an accepted one sets the mark of the document; and after the mark is
  removed no named share of the document gives access any more, at any time.\<close>

theorem sensitivity_change:
  fixes E W s req i body
  defines "s' \<equiv> fst (setSensitivity E W s req i body)" and "r \<equiv> snd (setSensitivity E W s req i body)"
  assumes "distinct (map doc_id (documents s))"
  shows "((\<exists>e. r = Inl e) \<longrightarrow> map doc_sensitive (documents s') = map doc_sensitive (documents s)) \<and>
    (\<forall>b d. r = Inr b \<longrightarrow> live_document s' i = Some d \<longrightarrow> doc_sensitive d = b) \<and>
    (r = Inr False \<longrightarrow> (\<exists>d. live_document s i = Some d \<and> doc_sensitive d) \<longrightarrow> \<not> hasSensitiveShare E' s' i w)"
proof (cases rule: setSensitivity_cases [of E W s req i body])
  case same
  then show ?thesis by (auto simp: s'_def r_def)
next
  case (failed d t position e)
  have "doc_sensitive x = doc_sensitive d" if "x \<in> set (documents s)" "doc_id x = i" for x
    using key_unique [OF assms(3) that(1), of d] that(2) live_documentD [OF failed(1)] by simp
  then have "map doc_sensitive (documents s') = map doc_sensitive (documents s)"
    unfolding s'_def failed(4) by (simp add: mark_document_def failed(3) update_rows_def)
  with failed(5) show ?thesis by (simp add: r_def)
next
  case (marked d t gs position details)
  have docs: "documents s' = documents (mark_document s i (sb_sensitive body) position)"
    using prepare_marked_documents [OF marked(3)] by (simp add: s'_def marked(4) revoke_shares_def)
  have "doc_sensitive x = sb_sensitive body" if "live_document s' i = Some x" for x
    by (rule mark_document_row [of x s i _ position]) (use live_documentD [OF that] docs in simp_all)
  moreover have "\<not> hasSensitiveShare E' s' i w" if "\<not> sb_sensitive body"
    unfolding s'_def marked(4) if_not_P [OF that]
    by (rule hasSensitiveShare_tables [THEN iffD1, rotated, OF revoke_shares_no_access]) simp
  ultimately show ?thesis by (auto simp: r_def marked(5))
qed

text \<open>Quarantine can be left by way of the archive. The route that changes the status refuses quarantined documents,
  but an administrator who archives the document and restores it gets a draft.\<close>

theorem quarantine_left:
  assumes "phase s i = Live QUARANTINED" and "distinct (map doc_id (documents s))" and "isAdminIdentity (rq_groups req)"
  shows "run_op X (AdminStatus req i st) s = s \<and> phase (run_ops [(X, AdminArchive req i), (Y, AdminRestore req i)] s) i = Live DRAFT"
proof -
  obtain d where d: "find_first (\<lambda>x. doc_id x = i) (documents s) = Some d" "doc_destroyedAt d = None" "doc_deletedAt d = None" "doc_status d = QUARANTINED"
    using assms(1) by (cases "find_first (\<lambda>x. doc_id x = i) (documents s)") (auto simp: phase_def split: if_splits)
  then have in_s: "d \<in> set (documents s)" "doc_id d = i" by (auto dest: find_first_Some)
  have "live_document s i = Some d"
    using find_first_key [OF assms(2) in_s(1), of "\<lambda>x. doc_deletedAt x = None"] d(3) in_s(2) by (simp add: live_document_def)
  then have "run_op X (AdminStatus req i st) s = s" using d(4) by (simp add: changeStatus_def as_admin_def split: sum.split)
  moreover have guard: "admin_guard req = Inr True" using assms(3) by (simp add: admin_guard_def guard_admin_class)
  define t where "t = run_op X (AdminArchive req i) s"
  have t: "documents t = update_rows (\<lambda>x. doc_id x = i) (set_status ARCHIVED) (documents s)"
    by (simp add: t_def as_admin_def guard archive_def d(1))
  have "map doc_id (documents t) = map doc_id (documents s)" by (simp add: t map_update_rows)
  then have dist: "distinct (map doc_id (documents t))" using assms(2) by simp
  have in_t: "set_status ARCHIVED d \<in> set (documents t)" using in_s by (auto simp: t set_update_rows)
  have "count_rows (restorable i) (documents t) = 1"
    using count_rows_key_le_1 [OF dist, of i "\<lambda>x. doc_deletedAt x = None \<and> doc_status x = ARCHIVED"]
      count_rows_key_pos [OF dist in_t, of "\<lambda>x. doc_deletedAt x = None \<and> doc_status x = ARCHIVED"] in_s(2) d(3)
    by (simp add: restorable_def [abs_def])
  then have c: "claim (restorable i) (set_status DRAFT) (documents t) = Some (update_rows (restorable i) (set_status DRAFT) (documents t))"
    by (simp add: claim_def)
  have "find_first (\<lambda>x. doc_id x = i) (documents t) = Some (set_status ARCHIVED d)"
    using find_first_key [OF dist in_t, of "\<lambda>_. True"] in_s(2) by simp
  then have f: "find_first (\<lambda>x. doc_id x = i) (update_rows (restorable i) (set_status DRAFT) (documents t)) = Some (set_status DRAFT (set_status ARCHIVED d))"
    using in_s(2) d(3) by (simp add: find_first_update [of doc_id "set_status DRAFT"] restorable_def)
  have "phase (run_op Y (AdminRestore req i) t) i = Live DRAFT"
    using d(2,3) by (simp add: as_admin_def guard restore_def c f phase_def)
  ultimately show ?thesis by (simp add: run_ops_def t_def)
qed

text \<open>No row of these tables refers to the document: documents, versions, titles, favourites, activity,
  links, comments, subscriptions, signature requests, share links, reviews, retention policies and named shares.
  Users' notices and the audit journal are not among them: they keep the id.\<close>

definition unreferenced :: "db \<Rightarrow> string \<Rightarrow> bool" where
  "unreferenced s i \<longleftrightarrow>
     i \<notin> set (map doc_id (documents s)) \<and> i \<notin> set (map ver_documentId (versions s)) \<and> i \<notin> set (map tr_documentId (titles s)) \<and>
     i \<notin> set (map sub_documentId (favorites s)) \<and> i \<notin> set (map ua_documentId (activities s)) \<and>
     i \<notin> set (map ln_sourceId (links s)) \<and> i \<notin> set (map ln_targetId (links s)) \<and> i \<notin> set (map cm_documentId (comments s)) \<and>
     i \<notin> set (map sub_documentId (subscriptions s)) \<and> i \<notin> set (map sr_documentId (signatures s)) \<and>
     i \<notin> set (map sl_documentId (sharelinks s)) \<and> i \<notin> set (map rv_documentId (reviews s)) \<and>
     i \<notin> set (map rp_documentId (retentions s)) \<and> i \<notin> set (map ss_documentId (shares s))"

lemma not_in_delete: "i \<notin> set (map key (delete_rows (\<lambda>r. key r = i) rows))"
  by (auto simp: set_delete_rows)

lemma not_in_delete_links: "i \<notin> set (map ln_sourceId (delete_rows (\<lambda>l. ln_sourceId l = i \<or> ln_targetId l = i) ls))"
  "i \<notin> set (map ln_targetId (delete_rows (\<lambda>l. ln_sourceId l = i \<or> ln_targetId l = i) ls))"
  by (auto simp: set_delete_rows)

lemma find_first_delete_kept:
  "(\<And>r. key r = k \<Longrightarrow> \<not> p r) \<Longrightarrow> find_first (\<lambda>r. key r = k) (delete_rows p rows) = find_first (\<lambda>r. key r = k) rows"
  by (induction rows) (auto simp: delete_rows_def)

text \<open>C24: a permanent deletion is complete, confined and never against a hold. It is refused under a legal hold or a
  running retention period. When it is carried out, no row of the tables of \<open>unreferenced\<close> (documents, versions,
  titles, favourites, activity, links, comments, subscriptions, signature requests, share links,
  reviews, retention, named shares) refers to the document any more; notices and audit events keep its
  id. The versions of all other documents are kept with their files, originals and distributed copies.
  The rows of the document's files that no other version uses are gone, and the objects of all its
  files and of the evidence of its reviews are removed from the store, each unless its removal fails.\<close>

theorem removal_complete:
  assumes "remove E ok s req i = (s', Inr r)"
  shows "\<not> held E s i \<and> unreferenced s' i \<and> versions s' = filter (\<lambda>v. ver_documentId v \<noteq> i) (versions s) \<and>
    (\<forall>v\<in>set (versions s'). find_file s' (ver_storedFileId v) = find_file s (ver_storedFileId v) \<and>
      (\<forall>f. ver_distributedStoredFileId v = Some f \<longrightarrow> find_file s' f = find_file s f)) \<and>
    (\<forall>f\<in>set (document_files s i).
      ((\<forall>v\<in>set (versions s'). ver_storedFileId v \<noteq> sf_id f \<and> ver_distributedStoredFileId v \<noteq> Some (sf_id f)) \<longrightarrow> find_file s' (sf_id f) = None) \<and>
      (ok (sf_objectKey f) \<longrightarrow> sf_objectKey f \<in> set (removedobjects s'))) \<and>
    (\<forall>k\<in>set (evidence_keys (document_reviews s i)). ok k \<longrightarrow> k \<in> set (removedobjects s'))"
proof -
  let ?ids = "map sf_id (document_files s i)"
  obtain d where d: "find_first (\<lambda>d. doc_id d = i) (documents s) = Some d" "\<not> held E s i"
    using assms by (auto simp: remove_def Let_def split: option.splits if_splits)
  have s': "s' = fst (remove E ok s req i)" using assms by simp
  note defs = remove_def Let_def case_prod_beta settle_removals_def delete_files_def cascade_document_def delete_versions_def forget_reviews_def
  have v: "versions s' = delete_rows (\<lambda>v. ver_documentId v = i) (versions s)" using d by (simp add: s' defs)
  have f: "storedfiles s' = delete_rows (\<lambda>f. sf_id f \<in> set (filter (unused_file s') ?ids)) (storedfiles s)"
    using d by (simp add: s' defs unused_file_def)
  have u: "unreferenced s' i" using d by (simp add: s' unreferenced_def defs not_in_delete not_in_delete_links del: set_map)
  have o: "removedobjects s' = removedobjects s @ filter ok (map sf_objectKey (document_files s i) @ evidence_keys (document_reviews s i))"
    using d by (simp add: s' defs)
  have kept: "find_file s' k = find_file s k" if "w \<in> set (versions s')" "ver_storedFileId w = k \<or> ver_distributedStoredFileId w = Some k" for w k
    unfolding find_file_def f by (rule find_first_delete_kept) (use that in \<open>auto simp: unused_file_def list_all_iff\<close>)
  moreover have "find_file s' (sf_id x) = None"
    if "x \<in> set (document_files s i)" "\<forall>v\<in>set (versions s'). ver_storedFileId v \<noteq> sf_id x \<and> ver_distributedStoredFileId v \<noteq> Some (sf_id x)" for x
    unfolding find_file_def f find_first_None_iff using that by (auto simp: set_delete_rows unused_file_def list_all_iff)
  moreover have "versions s' = filter (\<lambda>v. ver_documentId v \<noteq> i) (versions s)" by (simp add: v delete_rows_def)
  ultimately show ?thesis using d(2) u by (auto simp: o)
qed

section \<open>Witnesses\<close>

definition sample_world :: surroundings where
  "sample_world = \<lparr>su_env = sample_env, su_io = sample_io, su_remove = (\<lambda>_. True)\<rparr>"

definition root_request :: request where
  "root_request = sample_request ''root'' [''ISMS-LOCAL-ADMINS'']"

text \<open>\<open>destruction_final\<close> at a tombstone and an administrator who tries everything.\<close>

theorem destruction_final_witness:
  "phase (run_ops [(sample_world, TrashRestore root_request ''d1''), (sample_world, AdminPublish root_request ''d1'')]
     (sample_db\<lparr>documents := [tombstone 5 sample_document]\<rparr>)) ''d1'' = Destroyed"
proof -
  have ev: "phase (sample_db\<lparr>documents := [tombstone 5 sample_document]\<rparr>) ''d1'' = Destroyed" by code_simp
  then have "phase (sample_db\<lparr>documents := [tombstone 5 sample_document]\<rparr>) ''d1'' \<in> {Destroyed, Gone}" by simp
  from destruction_final [OF _ this, of "[(sample_world, TrashRestore root_request ''d1''), (sample_world, AdminPublish root_request ''d1'')]"] ev
  show ?thesis by simp
qed

text \<open>\<open>lifecycle_refinement\<close> at the sample: a restored version, an archived document, the destruction run.\<close>

theorem lifecycle_refinement_witness:
  "distinct (map doc_id (documents sample_db)) \<and> phase sample_db ''d1'' = Live PUBLISHED \<and>
   (\<lambda>p q. \<exists>ev. phase_step ev p q)\<^sup>*\<^sup>* (Live PUBLISHED) (phase (run_ops [(sample_world, RestoreVersion root_request ''d1'' ''v1'' None),
     (sample_world, AdminArchive root_request ''d1''), (sample_world, WorkerDestruction)] sample_db) ''d1'')"
proof -
  have ev: "distinct (map doc_id (documents sample_db))" "phase sample_db ''d1'' = Live PUBLISHED" by code_simp+
  from lifecycle_refinement [OF ev(1), of sample_world WorkerDestruction "''d1''" "[(sample_world, RestoreVersion root_request ''d1'' ''v1'' None),
     (sample_world, AdminArchive root_request ''d1''), (sample_world, WorkerDestruction)]"] ev show ?thesis by simp
qed

text \<open>\<open>lock_exclusive\<close> at a document that ann holds while bob and an administrator work on it.\<close>

theorem lock_exclusive_witness:
  "\<exists>s' t. lock sample_env sample_db (editor ''ann'') ''d1'' = (s', Inr t) \<and>
     (\<exists>e. lock (sample_env\<lparr>now := 2000\<rparr>) (run_ops [(sample_world, UnlockDocument (editor ''bob'') ''d1''),
        (sample_world, AdminArchive root_request ''d1'')] s') (editor ''bob'') ''d1'' =
       (run_ops [(sample_world, UnlockDocument (editor ''bob'') ''d1''), (sample_world, AdminArchive root_request ''d1'')] s', Inl e))"
proof -
  obtain s' t where l: "lock sample_env sample_db (editor ''ann'') ''d1'' = (s', Inr t)" using editor_locks by blast
  let ?calls = "[(sample_world, UnlockDocument (editor ''bob'') ''d1''), (sample_world, AdminArchive root_request ''d1'')]"
  have names: "rq_username (editor ''ann'') = ''ann''" "rq_username (editor ''bob'') = ''bob''"
    by (simp_all add: editor_def sample_request_def sample_identity_def)
  have "\<not> isAdminIdentity (rq_groups (editor ''bob''))" by code_simp
  then have calls: "\<forall>(X, op)\<in>set ?calls. now sample_env \<le> now (su_env X) \<and> now (su_env X) < now sample_env + 8 * 3600000 \<and>
      \<not> releases (rq_username (editor ''ann'')) ''d1'' op"
    by (simp add: names sample_world_def)
  have "now (sample_env\<lparr>now := 2000\<rparr>) < now sample_env + 8 * 3600000" by (simp add: sample_env_def)
  from lock_exclusive [OF sample_locks_ok _ l calls this, of "editor ''bob''" "[]" None] names l show ?thesis by auto
qed

text \<open>\<open>removal_complete\<close> at the published document of the sample.\<close>

theorem removal_complete_witness:
  "\<exists>s' r. remove sample_env (\<lambda>_. True) sample_db root_request ''d1'' = (s', Inr r) \<and> unreferenced s' ''d1'' \<and> versions s' = []"
proof -
  have ev: "find_first (\<lambda>d. doc_id d = ''d1'') (documents sample_db) = Some sample_document" "\<not> held sample_env sample_db ''d1''"
    "filter (\<lambda>v. ver_documentId v \<noteq> ''d1'') (versions sample_db) = []" by code_simp+
  have "\<exists>s' r. remove sample_env (\<lambda>_. True) sample_db root_request ''d1'' = (s', Inr r)"
    unfolding remove_def ev(1) option.case if_not_P [OF ev(2)] Let_def case_prod_beta by blast
  then obtain s' r where rm: "remove sample_env (\<lambda>_. True) sample_db root_request ''d1'' = (s', Inr r)" by blast
  from removal_complete [OF rm] ev(3) rm show ?thesis by auto
qed

text \<open>\<open>quarantine_left\<close> at a quarantined document.\<close>

theorem quarantine_left_witness:
  "phase (run_ops [(sample_world, AdminArchive root_request ''d1''), (sample_world, AdminRestore root_request ''d1'')]
     (sample_db\<lparr>documents := [set_status QUARANTINED sample_document]\<rparr>)) ''d1'' = Live DRAFT"
proof -
  have ev: "phase (sample_db\<lparr>documents := [set_status QUARANTINED sample_document]\<rparr>) ''d1'' = Live QUARANTINED"
    "distinct (map doc_id (documents (sample_db\<lparr>documents := [set_status QUARANTINED sample_document]\<rparr>)))"
    "isAdminIdentity (rq_groups root_request)" by code_simp+
  from quarantine_left [OF ev] show ?thesis by blast
qed

lemma publishWithReview_succeeds:
  assumes "assertDocumentTypeComplete s d = Inr ()" and "claim (\<lambda>x. doc_id x = d \<and> publishable x) (publish_row at) (documents s) = Some docs"
    and "find_first (\<lambda>x. doc_id x = d) docs = Some x"
  shows "\<exists>s2 review events. publishWithReview E s d vid first at audit = (s2, Inr (x, review, events)) \<and> documents s2 = docs"
proof -
  let ?s1 = "promoteLatestToMajor (s\<lparr>documents := docs\<rparr>) d"
  define rev where "rev = (if first then Some (publication_review E ?s1 d vid at) else None)"
  define s2 where "s2 = (case rev of None \<Rightarrow> ?s1
    | Some r \<Rightarrow> ?s1\<lparr>reviews := reviews ?s1 @ [r], uuid_next := Suc (uuid_next ?s1)\<rparr>)"
  have s2: "documents s2 = docs" by (simp add: s2_def split: option.splits)
  have "publishWithReview E s d vid first at audit =
      (case find_first (\<lambda>x. doc_id x = d) (documents (fst (audit_publication E s2 d rev audit))) of
         None \<Rightarrow> (s, Inl NotFound)
       | Some x \<Rightarrow> (fst (audit_publication E s2 d rev audit), Inr (x, rev, snd (audit_publication E s2 d rev audit))))"
    unfolding publishWithReview_def assms(1,2) Let_def sum.case option.case case_prod_beta
      rev_def [symmetric] s2_def [symmetric] by (rule refl)
  with assms(3) s2 show ?thesis by simp
qed

text \<open>\<open>publication_gate\<close> at an administrator who publishes a draft.\<close>

theorem publication_gate_witness:
  "phase (run_op sample_world (AdminPublish root_request ''d1'') draft_db) ''d1'' = Live PUBLISHED \<and> clean_versions draft_db ''d1''"
proof -
  let ?d = "hd (documents draft_db)"
  let ?docs = "map (publish_row 1000) (documents draft_db)"
  have ev: "live_document draft_db ''d1'' = Some ?d" "doc_id ?d = ''d1''" "document_versions draft_db ''d1'' \<noteq> []" "clean_versions draft_db ''d1''"
    "find_first (\<lambda>d. doc_id d = ''d1'') (documents draft_db) = Some ?d" "\<not> doc_sensitive ?d"
    "assertDocumentTypeComplete draft_db ''d1'' = Inr ()"
    "claim (\<lambda>x. doc_id x = ''d1'' \<and> publishable x) (publish_row 1000) (documents draft_db) = Some ?docs"
    "find_first (\<lambda>x. doc_id x = ''d1'') ?docs = Some (publish_row 1000 ?d)" "now sample_env = 1000" "isAdminIdentity (rq_groups root_request)"
    "phase draft_db ''d1'' = Live DRAFT" "phase_of_row (Some (publish_row 1000 ?d)) = Live PUBLISHED"
    by code_simp+
  have prep: "prepareForPublication sample_env sample_io draft_db ''d1'' = (draft_db, Inr [])"
    unfolding prepareForPublication_def ev(5) option.case if_P [OF ev(6)] by (rule refl)
  let ?a = "Some \<lparr>pa_request = root_request, pa_action = ''document.publish'', pa_details = distribution_details [], pa_notify = \<not> doc_suppressEmails ?d\<rparr>"
  obtain s2 rv es where p: "publishWithReview sample_env draft_db ''d1'' (newest_version draft_db ''d1'') (doc_publishedAt ?d = None) 1000 ?a
      = (s2, Inr (publish_row 1000 ?d, rv, es))" "documents s2 = ?docs"
    using publishWithReview_succeeds [OF ev(7,8,9)] by blast
  have "fst (publish sample_env sample_io draft_db root_request ''d1'') = committed sample_env s2 es"
    using ev(3,4) by (simp only: publish_def ev(1) option.case publish_prepared_def ev(2) prep prod.case sum.case ev(10) p(1)) simp
  then have "documents (run_op sample_world (AdminPublish root_request ''d1'') draft_db) = ?docs"
    using ev(11) by (simp add: as_admin_def admin_guard_def guard_admin_class sample_world_def p(2))
  then have pub: "phase (run_op sample_world (AdminPublish root_request ''d1'') draft_db) ''d1'' = Live PUBLISHED"
    using ev(9,13) by (simp only: phase_def)
  have "phase draft_db ''d1'' \<noteq> Live PUBLISHED" using ev(12) by simp
  from publication_gate [OF this pub] pub show ?thesis by blast
qed

text \<open>\<open>sensitivity_change\<close> at an administrator who removes the mark of a shared document.\<close>

theorem sensitivity_change_witness:
  "snd (setSensitivity sample_env sample_io shared_secret_db root_request ''d1'' \<lparr>sb_sensitive = False, sb_watermarkPosition = None\<rparr>) = Inr False \<and>
   hasSensitiveShare sample_env shared_secret_db ''d1'' ''bob'' \<and>
   \<not> hasSensitiveShare sample_env (fst (setSensitivity sample_env sample_io shared_secret_db root_request ''d1''
       \<lparr>sb_sensitive = False, sb_watermarkPosition = None\<rparr>)) ''d1'' ''bob''"
proof -
  let ?b = "\<lparr>sb_sensitive = False, sb_watermarkPosition = None\<rparr>"
  let ?d = "sample_document\<lparr>doc_sensitive := True\<rparr>"
  have ev: "distinct (map doc_id (documents shared_secret_db))" "hasSensitiveShare sample_env shared_secret_db ''d1'' ''bob''"
    "live_document shared_secret_db ''d1'' = Some ?d" "doc_sensitive ?d" "assertCanMarkSensitive shared_secret_db root_request = Inr ()"
    "can_on sample_env shared_secret_db root_request ?d Edit" "parseWatermarkPosition None = Inr CENTER" by code_simp+
  have "snd (setSensitivity sample_env sample_io shared_secret_db root_request ''d1'' ?b) = Inr False"
    using ev(4,6) by (simp add: setSensitivity_def ev(3,5,7))
  with sensitivity_change [OF ev(1), of sample_env sample_io root_request "''d1''" ?b sample_env "''bob''"] ev(2-4) show ?thesis by auto
qed

end
