(* ===== verification/Timestamp.thy ===== *)
theory Timestamp
  imports Document_Control Ged_Settings "HOL-Library.Word"
begin

text \<open>
  The time-stamp protocol (\<^verbatim>\<open>apps/api/src/timestamp.ts\<close>): the query in the distinguished encoding
  rules, the reading of the answer, and the exchange with the authority. A buffer is a list of 8-bit
  words. Numbers are integers, \<open>None\<close> where the language has \<open>NaN\<close> or \<open>undefined\<close>; shifts work on the
  signed 32-bit value. The network and the random generator are parameters.
\<close>

unbundle bit_operations_syntax

section \<open>Bytes and numbers\<close>

type_synonym bytes = "8 word list"

text \<open>\<open>ToInt32\<close> and the shift \<open>>>\<close>.\<close>

definition to_int32 :: "int \<Rightarrow> int" where
  "to_int32 n = signed_take_bit 31 n"

definition shr :: "int \<Rightarrow> nat \<Rightarrow> int" where
  "shr n k = to_int32 n div 2 ^ k"

lemma to_int32_le: "0 < n \<Longrightarrow> to_int32 n \<le> n"
proof (cases "n < 2 ^ 31")
  case True
  moreover assume "0 < n"
  ultimately show ?thesis by (simp add: to_int32_def signed_take_bit_int_eq_self)
next
  case False
  moreover have "to_int32 n < 2 ^ 31" unfolding to_int32_def by (rule signed_take_bit_int_less_exp)
  ultimately show ?thesis by linarith
qed

lemma shr_less: "0 < n \<Longrightarrow> 0 < k \<Longrightarrow> shr n k < n"
proof -
  assume n: "0 < n" and k: "0 < k"
  have two: "(1::int) < 2 ^ k" using k by simp
  show ?thesis
  proof (cases "0 < to_int32 n")
    case True
    have "to_int32 n div 2 ^ k < to_int32 n" using int_div_less_self [OF True two] .
    with to_int32_le [OF n] show ?thesis by (simp add: shr_def)
  next
    case False
    then have "to_int32 n div 2 ^ k \<le> 0" by (simp add: div_nonpos_pos_le0)
    with n show ?thesis by (simp add: shr_def)
  qed
qed

text \<open>The loop \<open>for (value = size; value > 0; value >>= 8) bytes.unshift(value & 0xff)\<close>.\<close>

function unshift_bytes :: "int \<Rightarrow> bytes \<Rightarrow> bytes" where
  "unshift_bytes v acc = (if 0 < v then unshift_bytes (shr v 8) (word_of_int v # acc) else acc)"
  by pat_completeness auto
termination by (relation "measure (\<lambda>(v, acc). nat v)") (auto simp: shr_less)

declare unshift_bytes.simps [simp del]

definition length_bytes :: "int \<Rightarrow> bytes" where
  "length_bytes sz =
     (if sz < 0x80 then [word_of_int sz]
      else (let bs = unshift_bytes sz [] in (0x80 OR word_of_nat (length bs)) # bs))"

definition tlv :: "8 word \<Rightarrow> bytes \<Rightarrow> bytes" where
  "tlv tag v = tag # length_bytes (int (length v)) @ v"

definition sequence :: "bytes list \<Rightarrow> bytes" where
  "sequence items = tlv 0x30 (concat items)"

definition integer :: "bytes \<Rightarrow> bytes" where
  "integer v = tlv 0x02 (if v \<noteq> [] \<and> bit (hd v) 7 then 0 # v else v)"

section \<open>Object identifiers\<close>

text \<open>\<open>Number\<close> of a part; the part has no point, so that it has no decimals.\<close>

definition part_number :: "string \<Rightarrow> int option" where
  "part_number p = map_option fst (js_number p)"

definition int_or_0 :: "int option \<Rightarrow> int" where
  "int_or_0 v = (case v of None \<Rightarrow> 0 | Some n \<Rightarrow> n)"

function unshift_base128 :: "int \<Rightarrow> bytes \<Rightarrow> bytes" where
  "unshift_base128 v acc = (if 0 < v then unshift_base128 (shr v 7) ((word_of_int (take_bit 7 v) OR 0x80) # acc) else acc)"
  by pat_completeness auto
termination by (relation "measure (\<lambda>(v, acc). nat v)") (auto simp: shr_less)

declare unshift_base128.simps [simp del]

definition oid_chunk :: "int \<Rightarrow> bytes" where
  "oid_chunk part = unshift_base128 (shr part 7) [word_of_int (take_bit 7 part)]"

definition oid_bytes :: "int option list \<Rightarrow> bytes" where
  "oid_bytes ns =
     (let first = (case ns of x # _ \<Rightarrow> x | [] \<Rightarrow> None); second = (case ns of _ # y # _ \<Rightarrow> y | _ \<Rightarrow> None);
          head = (case (first, second) of (Some x, Some y) \<Rightarrow> x * 40 + y | _ \<Rightarrow> 0)
      in word_of_int head # concat (map (\<lambda>n. oid_chunk (int_or_0 n)) (drop 2 ns)))"

definition oid :: "string \<Rightarrow> bytes" where
  "oid dotted = tlv 0x06 (oid_bytes (map part_number (split_on (\<lambda>c. c = CHR ''.'') dotted)))"

definition SHA256_OID :: string where
  "SHA256_OID = ''2.16.840.1.101.3.4.2.1''"

section \<open>The query\<close>

text \<open>\<open>Buffer.from(s, "hex")\<close>: pairs of digits up to the first that is none.\<close>

fun from_hex :: "string \<Rightarrow> bytes" where
  "from_hex (a # b # rest) = (case hex_byte a b of None \<Rightarrow> [] | Some n \<Rightarrow> word_of_nat n # from_hex rest)"
| "from_hex _ = []"

definition timestampRequest :: "string \<Rightarrow> bytes \<Rightarrow> string option \<Rightarrow> bytes outcome" where
  "timestampRequest sha256Hex nonce policy =
     (let digest = from_hex sha256Hex
      in if length digest \<noteq> 32 then Inl (InternalError ''A SHA-256 digest is required'')
         else Inr (sequence ([integer [1],
                sequence [sequence [oid SHA256_OID, [0x05, 0x00]], tlv 0x04 digest]] @
              (case non_empty policy of None \<Rightarrow> [] | Some p \<Rightarrow> [oid p]) @
              [integer nonce, [0x01, 0x01, 0xff]])))"

section \<open>The answer\<close>

definition byte_at :: "bytes \<Rightarrow> int option \<Rightarrow> 8 word option" where
  "byte_at buf i = (case i of None \<Rightarrow> None | Some n \<Rightarrow> if 0 \<le> n \<and> n < int (length buf) then Some (buf ! nat n) else None)"

definition plus_num :: "int option \<Rightarrow> int option \<Rightarrow> int option" where
  "plus_num a b = (case (a, b) of (Some x, Some y) \<Rightarrow> Some (x + y) | _ \<Rightarrow> None)"

record tlv_view =
  tl_tag :: "8 word option"
  tl_start :: "int option"
  tl_end :: "int option"

text \<open>\<open>for (index = 0; index < count; index++) size = size * 256 + buffer[offset + 2 + index]\<close>.\<close>

fun read_size :: "bytes \<Rightarrow> int option \<Rightarrow> int option \<Rightarrow> nat \<Rightarrow> int option" where
  "read_size buf pos sz 0 = sz"
| "read_size buf pos sz (Suc n) =
     read_size buf (plus_num pos (Some 1)) (plus_num (map_option (\<lambda>x. x * 256) sz) (map_option uint (byte_at buf pos))) n"

definition readTlv :: "bytes \<Rightarrow> int option \<Rightarrow> tlv_view outcome" where
  "readTlv buf offset =
     (let tag = byte_at buf offset; b = byte_at buf (plus_num offset (Some 1));
          done_with = (\<lambda>size header.
            (let e = plus_num (plus_num offset (Some header)) size
             in if some_and (\<lambda>x. int (length buf) < x) e then Inl (InternalError ''Truncated DER value'')
                else Inr \<lparr>tl_tag = tag, tl_start = plus_num offset (Some header), tl_end = e\<rparr>))
      in if some_and (\<lambda>x. bit x 7) b
         then (let count = unat (the b AND 0x7f)
               in if count < 1 \<or> 4 < count then Inl (InternalError ''Unsupported DER length'')
                  else done_with (read_size buf (plus_num offset (Some 2)) (Some 0) count) (2 + int count))
         else done_with (map_option uint b) 2)"

text \<open>\<open>buffer.subarray(a, b)\<close>, where \<open>NaN\<close> counts as zero and both ends are cut to the buffer.\<close>

definition subarray :: "bytes \<Rightarrow> int option \<Rightarrow> int option \<Rightarrow> bytes" where
  "subarray buf a b =
     (let lo = nat (int_or_0 a); hi = nat (int_or_0 b) in take (hi - lo) (drop lo buf))"

fun has_bytes :: "bytes \<Rightarrow> bytes \<Rightarrow> bool" where
  "has_bytes [] p = (p = [])"
| "has_bytes (x # xs) p = (take (length p) (x # xs) = p \<or> has_bytes xs p)"

definition latin1 :: "bytes \<Rightarrow> string" where
  "latin1 bs = map (\<lambda>b. char_of (unat b)) bs"

text \<open>The pattern of \<open>generalizedTime\<close>: fourteen digits, an optional fraction, \<open>Z\<close>.\<close>

definition time_pattern :: "string \<Rightarrow> bool" where
  "time_pattern text =
     (14 < length text \<and> list_all is_digit (take 14 text) \<and> last text = CHR ''Z'' \<and>
      (let f = butlast (drop 14 text) in f = [] \<or> hd f = CHR ''.'' \<and> tl f \<noteq> [] \<and> list_all is_digit (tl f)))"

text \<open>\<open>new Date\<close> on the text made of the matched parts: \<open>None\<close> for an invalid date. Digits of a fraction after
  the third are dropped.\<close>

definition generalized_date :: "string \<Rightarrow> time option" where
  "generalized_date text =
     (let num = (\<lambda>i n. int (digits_value (take n (drop i text))));
          f = butlast (drop 14 text);
          ms = int (digits_value (take 3 (tl f @ ''000'')));
          mo = num 4 2; da = num 6 2; h = num 8 2; mi = num 10 2; sec = num 12 2
      in if 1 \<le> mo \<and> mo \<le> 12 \<and> 1 \<le> da \<and> da \<le> 31 \<and> mi < 60 \<and> sec < 60 \<and>
            (h < 24 \<or> h = 24 \<and> mi = 0 \<and> sec = 0 \<and> (f = [] \<or> ms = 0))
         then Some (days_from_civil (num 0 4) mo da * day_ms + h * 3600000 + mi * 60000 + sec * 1000 + (if f = [] then 0 else ms))
         else None)"

fun generalizedTime :: "bytes \<Rightarrow> time option option" where
  "generalizedTime [] = None"
| "generalizedTime (b # rest) =
     (if length (b # rest) < 17 then None
      else if b \<noteq> 0x18 then generalizedTime rest
      else (let n = unat (hd rest); text = latin1 (take n (tl rest))
            in if n < 15 \<or> 23 < n \<or> \<not> time_pattern text then generalizedTime rest
               else Some (generalized_date text)))"

definition parseTimestampResponse :: "bytes \<Rightarrow> string \<Rightarrow> bytes \<Rightarrow> (bytes \<times> time option option) outcome" where
  "parseTimestampResponse response sha256Hex nonce =
     (case readTlv response (Some 0) of
        Inl e \<Rightarrow> Inl e
      | Inr outer \<Rightarrow>
          if tl_tag outer \<noteq> Some 0x30 then Inl (InternalError ''Invalid time-stamp response'')
          else (case readTlv response (tl_start outer) of
              Inl e \<Rightarrow> Inl e
            | Inr status \<Rightarrow>
                (case readTlv response (tl_start status) of
                   Inl e \<Rightarrow> Inl e
                 | Inr statusValue \<Rightarrow>
                     (let code = byte_at response (plus_num (tl_end statusValue) (Some (- 1)))
                      in if tl_tag statusValue \<noteq> Some 0x02 \<or> some_and (\<lambda>c. 1 < unat c) code
                         then Inl (InternalError ''Time-stamp request rejected'')
                         else if (case (tl_end status, tl_end outer) of (Some a, Some b) \<Rightarrow> b \<le> a | _ \<Rightarrow> False)
                         then Inl (InternalError ''Time-stamp token missing'')
                         else (case readTlv response (tl_end status) of
                             Inl e \<Rightarrow> Inl e
                           | Inr tokenTlv \<Rightarrow>
                               (let token = subarray response (tl_end status) (tl_end tokenTlv)
                                in if \<not> has_bytes token (from_hex sha256Hex)
                                   then Inl (InternalError ''Time-stamp token does not cover the requested hash'')
                                   else if \<not> has_bytes token nonce then Inl (InternalError ''Time-stamp nonce mismatch'')
                                   else Inr (token, generalizedTime token)))))))"

section \<open>The exchange\<close>

definition base64_alphabet :: string where
  "base64_alphabet = ''ABCDEFGHIJKLMNOPQRSTUVWXYZabcdefghijklmnopqrstuvwxyz0123456789+/''"

fun base64 :: "nat list \<Rightarrow> string" where
  "base64 (a # b # c # rest) =
     map (\<lambda>i. base64_alphabet ! i) [a div 4, (a mod 4) * 16 + b div 16, (b mod 16) * 4 + c div 64, c mod 64] @ base64 rest"
| "base64 [a, b] = map (\<lambda>i. base64_alphabet ! i) [a div 4, (a mod 4) * 16 + b div 16, (b mod 16) * 4] @ ''=''"
| "base64 [a] = map (\<lambda>i. base64_alphabet ! i) [a div 4, (a mod 4) * 16] @ ''==''"
| "base64 [] = []"

definition timestamp_headers :: "TimestampConfig \<Rightarrow> (string \<times> string) list" where
  "timestamp_headers config =
     [(''Content-Type'', ''application/timestamp-query''), (''Accept'', ''application/timestamp-reply'')] @
     (case non_empty (tsa_username config) of
        None \<Rightarrow> []
      | Some user \<Rightarrow>
          [(''Authorization'', ''Basic '' @ base64 (map of_char
             (user @ '':'' @ (case non_empty (tsa_password config) of None \<Rightarrow> [] | Some p \<Rightarrow> p))))])"

text \<open>\<open>fetch url headers body\<close> gives the status and the body of the answer, or fails; \<open>random\<close> are the eight bytes
  of the generator, of which the first loses its top bit.\<close>

definition clear_top :: "bytes \<Rightarrow> bytes" where
  "clear_top r = (case r of [] \<Rightarrow> [] | b # bs \<Rightarrow> (b AND 0x7f) # bs)"

definition requestTimestamp ::
    "(string \<Rightarrow> (string \<times> string) list \<Rightarrow> bytes \<Rightarrow> (nat \<times> bytes) outcome) \<Rightarrow> bytes \<Rightarrow> string \<Rightarrow> TimestampConfig option \<Rightarrow>
     (string \<times> bytes \<times> time option option) option outcome" where
  "requestTimestamp fetch random sha256Hex config =
     (case config of
        None \<Rightarrow> Inr None
      | Some c \<Rightarrow>
          (let nonce = clear_top random
           in case timestampRequest sha256Hex nonce (tsa_policyOid c) of
                Inl e \<Rightarrow> Inl e
              | Inr query \<Rightarrow>
                  (case fetch (tsa_url c) (timestamp_headers c) query of
                     Inl e \<Rightarrow> Inl e
                   | Inr (status, body) \<Rightarrow>
                       if status < 200 \<or> 299 < status then Inl (InternalError ''Time-stamp authority returned an error'')
                       else (case parseTimestampResponse body sha256Hex nonce of
                           Inl e \<Rightarrow> Inl e
                         | Inr (token, genTime) \<Rightarrow> Inr (Some (tsa_url c, token, genTime))))))"

section \<open>Lengths\<close>

definition bytes_value :: "int \<Rightarrow> bytes \<Rightarrow> int" where
  "bytes_value a bs = foldl (\<lambda>a b. a * 256 + uint b) a bs"

lemma bytes_value_append: "bytes_value a (bs @ cs) = bytes_value (bytes_value a bs) cs"
  by (simp add: bytes_value_def)

lemma shr_small: "0 \<le> v \<Longrightarrow> v < 2 ^ 31 \<Longrightarrow> shr v k = v div 2 ^ k"
  by (simp add: shr_def to_int32_def signed_take_bit_int_eq_self)

lemma unshift_bytes_app: "unshift_bytes v (acc @ tail) = unshift_bytes v acc @ tail"
proof (induction v acc arbitrary: tail rule: unshift_bytes.induct)
  case (1 v acc)
  show ?case
  proof (cases "0 < v")
    case True
    with 1 [OF True, of tail] show ?thesis by (simp add: unshift_bytes.simps [of v])
  qed (simp add: unshift_bytes.simps)
qed

lemma unshift_bytes_step: "0 < v \<Longrightarrow> v < 2 ^ 31 \<Longrightarrow> unshift_bytes v [] = unshift_bytes (v div 256) [] @ [word_of_int v]"
  using unshift_bytes_app [of "v div 256" "[]" "[word_of_int v]"] by (simp add: unshift_bytes.simps [of v] shr_small)

lemma unshift_bytes_value: "0 \<le> v \<Longrightarrow> v < 2 ^ 31 \<Longrightarrow> bytes_value 0 (unshift_bytes v []) = v"
proof (induction "nat v" arbitrary: v rule: less_induct)
  case less
  show ?case
  proof (cases "v = 0")
    case True
    then show ?thesis by (simp add: unshift_bytes.simps bytes_value_def)
  next
    case False
    with less.prems have v: "0 < v" by simp
    have d: "v div 256 < v" using int_div_less_self [of v 256] v by simp
    have "bytes_value 0 (unshift_bytes (v div 256) []) = v div 256"
      by (rule less.hyps) (use less.prems v d in linarith)+
    moreover have "uint (word_of_int v :: 8 word) = v mod 256" by (simp add: uint_word_of_int)
    ultimately show ?thesis
      using unshift_bytes_step [OF v less.prems(2)] by (simp add: bytes_value_append) (simp add: bytes_value_def)
  qed
qed

lemma unshift_bytes_length: "0 \<le> v \<Longrightarrow> v < 2 ^ 31 \<Longrightarrow> v < 256 ^ k \<Longrightarrow> length (unshift_bytes v []) \<le> k"
proof (induction k arbitrary: v)
  case 0
  then have "v = 0" by simp
  then show ?case by (simp add: unshift_bytes.simps)
next
  case (Suc k)
  show ?case
  proof (cases "v = 0")
    case False
    have "v div 256 < 256 ^ k" using Suc.prems by (simp add: div_less_iff_less_mult mult.commute)
    moreover have "0 \<le> v div 256" "v div 256 < 2 ^ 31" using Suc.prems by linarith+
    ultimately have "length (unshift_bytes (v div 256) []) \<le> k" by (rule Suc.IH [rotated 2])
    with unshift_bytes_step [of v] Suc.prems False show ?thesis by simp
  qed (simp add: unshift_bytes.simps)
qed

lemma unshift_bytes_not_Nil: "0 < v \<Longrightarrow> v < 2 ^ 31 \<Longrightarrow> unshift_bytes v [] \<noteq> []"
  by (simp add: unshift_bytes_step)

lemma byte_at_middle: "byte_at (pre @ x # suf) (Some (int (length pre))) = Some x"
  by (simp add: byte_at_def)

lemma read_size_value:
  "read_size (pre @ bs @ suf) (Some (int (length pre))) (Some a) (length bs) = Some (bytes_value a bs)"
proof (induction bs arbitrary: pre a)
  case (Cons b bs)
  have "read_size ((pre @ [b]) @ bs @ suf) (Some (int (length (pre @ [b])))) (Some (a * 256 + uint b)) (length bs) =
      Some (bytes_value (a * 256 + uint b) bs)" by (rule Cons.IH)
  then show ?case
    using byte_at_middle [of pre b "bs @ suf"] by (simp add: plus_num_def bytes_value_def add.commute)
qed (simp add: bytes_value_def)

lemma length_octet:
  assumes "0 < n" and "n \<le> 4"
  shows "bit (0x80 OR word_of_nat n :: 8 word) 7" and "unat ((0x80 OR word_of_nat n) AND 0x7f :: 8 word) = n"
proof -
  have "n \<in> {1, 2, 3, 4}" using assms by auto
  then show "bit (0x80 OR word_of_nat n :: 8 word) 7" and "unat ((0x80 OR word_of_nat n) AND 0x7f :: 8 word) = n" by auto
qed

lemma short_octet: "n < 0x80 \<Longrightarrow> \<not> bit (word_of_nat n :: 8 word) 7 \<and> uint (word_of_nat n :: 8 word) = int n"
proof -
  assume n: "n < 0x80"
  have u: "uint (word_of_nat n :: 8 word) = int n" using n by (simp add: uint_nat unat_of_nat)
  have "\<not> bit (uint (word_of_nat n :: 8 word)) 7" using n unfolding u by (simp add: bit_iff_odd)
  moreover have "bit (uint w) 7 \<longleftrightarrow> bit w 7" for w :: "8 word" by (simp add: bit_uint_iff)
  ultimately show ?thesis using u by blast
qed

text \<open>What a reader makes of one encoded value between other bytes.\<close>

lemma readTlv_tlv:
  assumes "int (length v) < 2 ^ 31"
  shows "\<exists>h. readTlv (pre @ tlv tag v @ suf) (Some (int (length pre))) =
      Inr \<lparr>tl_tag = Some tag, tl_start = Some (int (length pre) + h), tl_end = Some (int (length pre + length (tlv tag v)))\<rparr> \<and>
    int (length (tlv tag v)) = h + int (length v) \<and> tlv tag v = take (nat h) (tlv tag v) @ v"
proof -
  let ?n = "int (length v)"
  let ?buf = "pre @ tlv tag v @ suf"
  have tag: "byte_at ?buf (Some (int (length pre))) = Some tag" by (simp add: tlv_def byte_at_middle)
  show ?thesis
  proof (cases "?n < 0x80")
    case True
    have l: "length_bytes ?n = [word_of_int ?n]" using True by (simp add: length_bytes_def)
    have b: "byte_at ?buf (plus_num (Some (int (length pre))) (Some 1)) = Some (word_of_nat (length v))"
      using byte_at_middle [of "pre @ [tag]" "word_of_nat (length v)" "v @ suf"] by (simp add: tlv_def l plus_num_def add.commute)
    have o: "\<not> bit (word_of_nat (length v) :: 8 word) 7" "uint (word_of_nat (length v) :: 8 word) = ?n"
      using short_octet [of "length v"] True by auto
    have len: "length (tlv tag v) = 2 + length v" by (simp add: tlv_def l)
    have e: "readTlv ?buf (Some (int (length pre))) =
        Inr \<lparr>tl_tag = Some tag, tl_start = Some (int (length pre) + 2), tl_end = Some (int (length pre + length (tlv tag v)))\<rparr>"
      unfolding readTlv_def Let_def tag b some_and_simps if_not_P [OF o(1)] option.map o(2) using len by (simp add: plus_num_def)
    show ?thesis by (intro exI [of _ 2]) (use e len in \<open>simp add: tlv_def l\<close>)
  next
    case False
    define bs where "bs = unshift_bytes ?n []"
    have n: "0 < ?n" using False by linarith
    have "?n < 256 ^ 4" using assms by simp
    then have bs: "bytes_value 0 bs = ?n" "length bs \<le> 4" "bs \<noteq> []"
      unfolding bs_def
      using unshift_bytes_value [OF _ assms] unshift_bytes_length [OF _ assms, of 4] unshift_bytes_not_Nil [OF n assms] n by simp_all
    let ?k = "0x80 OR word_of_nat (length bs) :: 8 word"
    have l: "length_bytes ?n = ?k # bs" using False by (simp add: length_bytes_def bs_def Let_def)
    have b: "byte_at ?buf (plus_num (Some (int (length pre))) (Some 1)) = Some ?k"
      using byte_at_middle [of "pre @ [tag]" ?k "bs @ v @ suf"] by (simp add: tlv_def l plus_num_def add.commute)
    have o: "bit ?k 7" "unat (?k AND 0x7f) = length bs" using length_octet [of "length bs"] bs(2,3) by auto
    have r: "read_size ?buf (plus_num (Some (int (length pre))) (Some 2)) (Some 0) (length bs) = Some ?n"
      using read_size_value [of "pre @ [tag, ?k]" bs "v @ suf" 0] bs(1) by (simp add: tlv_def l plus_num_def add.commute)
    have len: "length (tlv tag v) = 2 + length bs + length v" by (simp add: tlv_def l)
    have e: "readTlv ?buf (Some (int (length pre))) =
        Inr \<lparr>tl_tag = Some tag, tl_start = Some (int (length pre) + (2 + int (length bs))), tl_end = Some (int (length pre + length (tlv tag v)))\<rparr>"
      unfolding readTlv_def Let_def tag b some_and_simps if_P [OF o(1)] option.sel o(2) r using bs(2,3) len
      by (simp add: plus_num_def not_less)
    show ?thesis
      by (intro exI [of _ "2 + int (length bs)"]) (use e len in \<open>simp add: tlv_def l nat_add_distrib\<close>)
  qed
qed

section \<open>A reader of encoded values\<close>

text \<open>The values that follow each other from a position on, read with \<open>readTlv\<close>.\<close>

fun read_items :: "nat \<Rightarrow> bytes \<Rightarrow> int \<Rightarrow> (8 word \<times> bytes) list option" where
  "read_items n buf pos =
     (if int (length buf) \<le> pos then Some []
      else (case n of
          0 \<Rightarrow> None
        | Suc m \<Rightarrow>
            (case readTlv buf (Some pos) of
               Inl e \<Rightarrow> None
             | Inr v \<Rightarrow>
                 (case (tl_tag v, tl_end v) of
                    (Some t, Some e) \<Rightarrow> map_option ((#) (t, subarray buf (tl_start v) (Some e))) (read_items m buf e)
                  | _ \<Rightarrow> None))))"

definition read_all :: "bytes \<Rightarrow> (8 word \<times> bytes) list option" where
  "read_all buf = read_items (length buf) buf 0"

declare read_items.simps [simp del]

abbreviation encode :: "(8 word \<times> bytes) list \<Rightarrow> bytes" where
  "encode items \<equiv> concat (map (\<lambda>(t, v). tlv t v) items)"

lemma tlv_not_Nil [simp]: "tlv t v \<noteq> []"
  by (simp add: tlv_def)

lemma subarray_middle:
  "subarray (pre @ xs @ v @ suf) (Some (int (length pre) + int (length xs))) (Some (int (length pre + length xs + length v))) = v"
proof -
  have "nat (int (length pre) + int (length xs)) = length pre + length xs" by linarith
  then show ?thesis by (simp add: subarray_def int_or_0_def Let_def)
qed

lemma read_items_encode:
  assumes "\<forall>(t, v)\<in>set items. int (length v) < 2 ^ 31" and "length items \<le> n"
  shows "read_items n (pre @ encode items) (int (length pre)) = Some items"
  using assms
proof (induction items arbitrary: n pre)
  case Nil
  then show ?case by (simp add: read_items.simps)
next
  case (Cons it items)
  obtain t v where it: "it = (t, v)" by fastforce
  obtain m where n: "n = Suc m" "length items \<le> m" using Cons.prems(2) by (cases n) auto
  have v: "int (length v) < 2 ^ 31" using Cons.prems(1) it by simp
  let ?buf = "pre @ tlv t v @ encode items"
  obtain h where h: "readTlv ?buf (Some (int (length pre))) =
      Inr \<lparr>tl_tag = Some t, tl_start = Some (int (length pre) + h), tl_end = Some (int (length pre + length (tlv t v)))\<rparr>"
    "int (length (tlv t v)) = h + int (length v)" "tlv t v = take (nat h) (tlv t v) @ v"
    using readTlv_tlv [OF v, of pre t "encode items"] by blast
  have IH: "read_items m ((pre @ tlv t v) @ encode items) (int (length (pre @ tlv t v))) = Some items"
    by (rule Cons.IH) (use Cons.prems(1) n in auto)
  define xs where "xs = take (nat h) (tlv t v)"
  have tx: "tlv t v = xs @ v" using h(3) by (simp add: xs_def)
  then have "h = int (length xs)" using h(2) by simp
  then have sub: "subarray ?buf (Some (int (length pre) + h)) (Some (int (length pre + length (tlv t v)))) = v"
    using subarray_middle [of pre xs v "encode items"] by (simp add: tx add.assoc)
  have "0 < length (tlv t v)" by simp
  then have "\<not> int (length ?buf) \<le> int (length pre)" by (simp del: length_greater_0_conv)
  then have "read_items n ?buf (int (length pre)) =
      map_option ((#) (t, v)) (read_items m ?buf (int (length pre + length (tlv t v))))"
    unfolding n(1) by (simp only: read_items.simps [of "Suc m" ?buf "int (length pre)"] if_False nat.case h(1) sum.case tlv_view.simps
        option.case prod.case sub)
  with IH it show ?case by simp
qed

lemma length_encode: "length items \<le> length (encode items)"
  by (induction items) (auto simp: tlv_def)

lemma read_all_encode: "\<forall>(t, v)\<in>set items. int (length v) < 2 ^ 31 \<Longrightarrow> read_all (encode items) = Some items"
  using read_items_encode [OF _ length_encode, of items "[]"] by (simp add: read_all_def)

text \<open>C34: what is encoded can be read back. The values written one after the other with \<open>tlv\<close> are returned by
  the reader, with tags and contents, as long as every content is shorter than two gigabytes.\<close>

theorem encode_roundtrip:
  assumes "\<forall>(t, v)\<in>set items. int (length v) < 2 ^ 31"
  shows "read_all (encode items) = Some items"
  using assms by (rule read_all_encode)

theorem encode_roundtrip_witness:
  "read_all (encode [(2, [1]), (4, replicate 200 7)]) = Some [(2, [1]), (4, replicate 200 7)]"
  by (rule encode_roundtrip) simp

section \<open>Queries\<close>

lemma length_bytes_bound: "0 \<le> n \<Longrightarrow> n < 2 ^ 31 \<Longrightarrow> length (length_bytes n) \<le> 5"
  using unshift_bytes_length [of n 4] by (simp add: length_bytes_def Let_def)

lemma length_tlv: "int (length v) < 2 ^ 31 \<Longrightarrow> length (tlv t v) \<le> 6 + length v"
  using length_bytes_bound [of "int (length v)"] by (simp add: tlv_def)

definition oid_value :: "string \<Rightarrow> bytes" where
  "oid_value dotted = oid_bytes (map part_number (split_on (\<lambda>c. c = CHR ''.'') dotted))"

definition integer_value :: "bytes \<Rightarrow> bytes" where
  "integer_value v = (if v \<noteq> [] \<and> bit (hd v) 7 then 0 # v else v)"

lemma as_tlv: "[0x05, 0x00] = tlv 5 []" "[0x01, 0x01, 0xff] = tlv 1 [0xff]" "integer v = tlv 2 (integer_value v)"
    "oid p = tlv 6 (oid_value p)" "integer_value [1] = [1]"
  by (simp_all add: tlv_def length_bytes_def integer_def integer_value_def oid_def oid_value_def)

lemma length_sha256_oid: "length (oid_value SHA256_OID) = 9"
  by code_simp

text \<open>The query says what it means. Read back, a query is one sequence of the version, the imprint with the
  algorithm and the 32 bytes of the digest, the policy when there is one, the nonce as a non-negative
  integer, and the request for certificates.\<close>

theorem query_readable:
  assumes "timestampRequest h nonce policy = Inr q" and "length nonce < 2 ^ 16" and "\<forall>p. policy = Some p \<longrightarrow> length (oid_value p) < 2 ^ 16"
  shows "\<exists>body imprint. read_all q = Some [(0x30, body)] \<and>
    read_all body = Some ([(2, [1]), (0x30, imprint)] @ (case non_empty policy of None \<Rightarrow> [] | Some p \<Rightarrow> [(6, oid_value p)]) @
      [(2, integer_value nonce), (1, [0xff])]) \<and>
    read_all imprint = Some [(0x30, encode [(6, oid_value SHA256_OID), (5, [])]), (4, from_hex h)] \<and> length (from_hex h) = 32"
proof -
  have d: "length (from_hex h) = 32" using assms(1) by (auto simp: timestampRequest_def Let_def split: if_splits)
  let ?alg = "encode [(6, oid_value SHA256_OID), (5, [])]"
  let ?ii = "[(0x30, ?alg), (4, from_hex h)]"
  let ?pol = "case non_empty policy of None \<Rightarrow> [] | Some p \<Rightarrow> [(6 :: 8 word, oid_value p)]"
  let ?bi = "[(2, [1]), (0x30, encode ?ii)] @ ?pol @ [(2, integer_value nonce), (1, [0xff])]"
  have "timestampRequest h nonce policy = Inr (encode [(0x30, encode ?bi)])"
    using d by (cases "non_empty policy") (simp_all add: timestampRequest_def Let_def sequence_def as_tlv)
  then have q: "q = encode [(0x30, encode ?bi)]" using assms(1) by simp
  have alg: "length ?alg \<le> 30" using length_tlv [of "oid_value SHA256_OID" 6] length_tlv [of "[]" 5] by (simp add: length_sha256_oid)
  then have imp: "length (encode ?ii) \<le> 100" using length_tlv [of ?alg "0x30"] length_tlv [of "from_hex h" 4] d by simp
  have n: "length (integer_value nonce) \<le> 2 ^ 16 + 1" using assms(2) by (simp add: integer_value_def)
  have p: "length (oid_value p) < 2 ^ 16" if "non_empty policy = Some p" for p
    using assms(3) that by (auto simp: non_empty_def bind_eq_Some_conv)
  have pol: "length (encode ?pol) \<le> 2 ^ 16 + 6"
  proof (cases "non_empty policy")
    case (Some x)
    then show ?thesis using p [OF Some] length_tlv [of "oid_value x" 6] by simp
  qed simp
  have body: "length (encode ?bi) \<le> 2 ^ 20"
    using imp n pol length_tlv [of "[1]" 2] length_tlv [of "encode ?ii" "0x30"] length_tlv [of "integer_value nonce" 2] length_tlv [of "[0xff]" 1]
    by simp
  have "read_all q = Some [(0x30, encode ?bi)]" unfolding q by (rule read_all_encode) (use body in simp)
  moreover have "read_all (encode ?bi) = Some ?bi"
    by (rule read_all_encode) (use imp n in \<open>auto split: option.splits dest!: p [OF sym]\<close>)
  moreover have "read_all (encode ?ii) = Some ?ii" by (rule read_all_encode) (use alg d in simp)
  ultimately show ?thesis using d by blast
qed

theorem query_readable_witness:
  "\<exists>q body imprint. timestampRequest (replicate 64 CHR ''a'') [1, 2, 3, 4, 5, 6, 7, 8] None = Inr q \<and> read_all q = Some [(0x30, body)] \<and>
     read_all body = Some [(2, [1]), (0x30, imprint), (2, [1, 2, 3, 4, 5, 6, 7, 8]), (1, [0xff])]"
proof -
  let ?n = "[1, 2, 3, 4, 5, 6, 7, 8] :: bytes"
  have "length (from_hex (replicate 64 CHR ''a'')) = 32" by code_simp
  then obtain q where q: "timestampRequest (replicate 64 CHR ''a'') ?n None = Inr q" by (simp add: timestampRequest_def Let_def)
  have "integer_value ?n = ?n" "non_empty None = None" by code_simp+
  with query_readable [OF q] q show ?thesis by fastforce
qed

section \<open>Answers\<close>

lemma has_bytes_iff: "has_bytes xs p \<longleftrightarrow> (\<exists>a b. xs = a @ p @ b)"
proof (induction xs)
  case (Cons x xs)
  have "(\<exists>b. x # xs = p @ b) \<longleftrightarrow> take (length p) (x # xs) = p"
    by (metis append_eq_conv_conj append_take_drop_id)
  then show ?case using Cons by (auto simp: Cons_eq_append_conv)
qed auto

lemma read_size_missing: "read_size buf (Some p) (Some a) n = None \<Longrightarrow> 0 \<le> p \<Longrightarrow> int (length buf) < p + int n"
proof (induction n arbitrary: p a)
  case (Suc n)
  show ?case
  proof (cases "byte_at buf (Some p)")
    case None
    with Suc.prems show ?thesis by (auto simp: byte_at_def split: if_splits)
  next
    case (Some b)
    with Suc.prems have "read_size buf (Some (p + 1)) (Some (a * 256 + uint b)) n = None" by (simp add: plus_num_def)
    from Suc.IH [OF this] Suc.prems show ?thesis by simp
  qed
qed simp

text \<open>A value without a known end has no first byte: reading on from its start fails.\<close>

lemma readTlv_no_end:
  assumes "readTlv buf (Some off) = Inr v" and "0 \<le> off" and "tl_end v = None"
  shows "byte_at buf (tl_start v) = None"
proof -
  let ?b = "byte_at buf (Some (off + 1))"
  show ?thesis
  proof (cases "some_and (\<lambda>x. bit x 7) ?b")
    case True
    let ?c = "unat (the ?b AND 0x7f)"
    let ?r = "read_size buf (Some (off + 2)) (Some 0) ?c"
    have "tl_start v = Some (off + (2 + int ?c))" "?r = None"
      using assms True by (auto simp: readTlv_def Let_def plus_num_def split: if_splits option.splits)
    with read_size_missing [of buf "off + 2" 0 ?c] assms(2) show ?thesis by (simp add: byte_at_def)
  next
    case False
    then have "tl_start v = Some (off + 2)" "?b = None"
      using assms by (auto simp: readTlv_def Let_def plus_num_def split: if_splits option.splits)
    then show ?thesis using assms(2) by (auto simp: byte_at_def split: if_splits)
  qed
qed

lemma readTlv_Some:
  assumes "readTlv buf (Some off) = Inr v" and "0 \<le> off"
  obtains a where "tl_tag v = byte_at buf (Some off)" "tl_start v = Some a" "off + 2 \<le> a" "a \<le> off + 6"
    "\<And>e. tl_end v = Some e \<Longrightarrow> a \<le> e \<and> e \<le> int (length buf)"
proof -
  have sz: "0 \<le> x" if "read_size buf p (Some a) n = Some x" "0 \<le> a" for p a n x
    using that
  proof (induction n arbitrary: p a)
    case (Suc n)
    show ?case
    proof (cases "byte_at buf p")
      case None
      have "read_size buf q None m = None" for q m by (induction m arbitrary: q) (simp_all add: plus_num_def)
      with Suc.prems None show ?thesis by (simp add: plus_num_def)
    next
      case (Some b)
      then show ?thesis using Suc by (simp add: plus_num_def)
    qed
  qed simp
  let ?b = "byte_at buf (Some (off + 1))"
  note result = that
  have fin: thesis if "0 \<le> h" "h \<le> 4" "\<And>x. sz = Some x \<Longrightarrow> 0 \<le> x"
      "(if some_and (\<lambda>x. int (length buf) < x) (plus_num (Some (off + (2 + h))) sz) then Inl (InternalError ''Truncated DER value'')
        else Inr \<lparr>tl_tag = byte_at buf (Some off), tl_start = Some (off + (2 + h)), tl_end = plus_num (Some (off + (2 + h))) sz\<rparr>) = Inr v" for h sz
    by (rule result [of "off + (2 + h)"])
      (use that in \<open>auto simp: plus_num_def split: if_splits option.splits\<close>)
  show thesis
  proof (cases "some_and (\<lambda>x. bit x 7) ?b")
    case True
    let ?c = "unat (the ?b AND 0x7f)"
    show thesis
    proof (rule fin [of "int ?c" "read_size buf (Some (off + 2)) (Some 0) ?c"])
      have "?c \<le> 4" using assms(1) True by (auto simp: readTlv_def Let_def plus_num_def not_less split: if_splits)
      then show "int ?c \<le> 4" by linarith
    qed (use assms(1) True in \<open>auto simp: readTlv_def Let_def plus_num_def split: if_splits dest: sz simp del: of_nat_unat\<close>)
  next
    case False
    show thesis
      by (rule fin [of 0 "map_option uint ?b"]) (use assms(1) False in \<open>auto simp: readTlv_def Let_def plus_num_def\<close>)
  qed
qed

lemma parse_Inr:
  assumes "parseTimestampResponse response h nonce = Inr (token, t)"
  obtains outer status sv tv where "readTlv response (Some 0) = Inr outer" "readTlv response (tl_start outer) = Inr status"
    "readTlv response (tl_start status) = Inr sv" "tl_tag sv = Some 2"
    "\<not> some_and (\<lambda>c. 1 < unat c) (byte_at response (plus_num (tl_end sv) (Some (- 1))))"
    "readTlv response (tl_end status) = Inr tv" "token = subarray response (tl_end status) (tl_end tv)"
    "has_bytes token (from_hex h)" "has_bytes token nonce"
proof -
  note parse = assms [unfolded parseTimestampResponse_def]
  obtain outer where o: "readTlv response (Some 0) = Inr outer" using parse by (cases "readTlv response (Some 0)") simp_all
  have otag: "tl_tag outer = Some 0x30" using parse o by (cases "tl_tag outer = Some 0x30") simp_all
  obtain status where st: "readTlv response (tl_start outer) = Inr status"
    using parse o otag by (cases "readTlv response (tl_start outer)") simp_all
  obtain sv where sv: "readTlv response (tl_start status) = Inr sv"
    using parse o otag st by (cases "readTlv response (tl_start status)") simp_all
  let ?code = "byte_at response (plus_num (tl_end sv) (Some (- 1)))"
  have svt: "\<not> (tl_tag sv \<noteq> Some 2 \<or> some_and (\<lambda>c. 1 < unat c) ?code)"
    using parse o otag st sv by (cases "tl_tag sv \<noteq> Some 2 \<or> some_and (\<lambda>c. 1 < unat c) ?code") (simp_all add: Let_def)
  let ?missing = "case (tl_end status, tl_end outer) of (Some a, Some b) \<Rightarrow> b \<le> a | _ \<Rightarrow> False"
  have miss: "\<not> ?missing" using parse o otag st sv svt by (cases ?missing) (simp_all add: Let_def)
  obtain tv where tv: "readTlv response (tl_end status) = Inr tv"
    using parse o otag st sv svt miss by (cases "readTlv response (tl_end status)") (simp_all add: Let_def)
  have "token = subarray response (tl_end status) (tl_end tv) \<and> has_bytes token (from_hex h) \<and> has_bytes token nonce"
    using parse o otag st sv svt miss tv by (simp add: Let_def split: if_splits)
  with that o st sv svt tv show thesis by blast
qed

lemma subarray_slice:
  assumes "0 \<le> a" and "a \<le> e" and "e \<le> int (length buf)"
  shows "\<exists>pre suf. buf = pre @ subarray buf (Some a) (Some e) @ suf \<and> int (length pre) = a \<and> int (length pre + length (subarray buf (Some a) (Some e))) = e"
proof (intro exI conjI)
  have s: "subarray buf (Some a) (Some e) = take (nat e - nat a) (drop (nat a) buf)" by (simp add: subarray_def int_or_0_def Let_def)
  show "buf = take (nat a) buf @ subarray buf (Some a) (Some e) @ drop (nat e - nat a) (drop (nat a) buf)"
    unfolding s by (simp only: append_take_drop_id)
  show "int (length (take (nat a) buf)) = a" using assms by simp
  show "int (length (take (nat a) buf) + length (subarray buf (Some a) (Some e))) = e" unfolding s using assms by simp
qed

text \<open>An accepted answer covers the request. The token that is returned is one complete encoded value inside the
  answer, it contains the digest and the nonce, and the status of the answer, an integer, is zero or
  one; missing bytes are never taken for a value.\<close>

theorem answer_covers:
  assumes "parseTimestampResponse response h nonce = Inr (token, t)" and "length (from_hex h) = 32"
  shows "(\<exists>a b. token = a @ from_hex h @ b) \<and> (\<exists>a b. token = a @ nonce @ b) \<and>
    (\<exists>pre suf tag start. response = pre @ token @ suf \<and> readTlv response (Some (int (length pre))) =
       Inr \<lparr>tl_tag = tag, tl_start = start, tl_end = Some (int (length pre + length token))\<rparr>) \<and>
    (\<exists>off v e c. readTlv response (Some off) = Inr v \<and> tl_tag v = Some 2 \<and> tl_end v = Some e \<and> byte_at response (Some (e - 1)) = Some c \<and> unat c \<le> 1)"
proof -
  from parse_Inr [OF assms(1)] obtain outer status sv tv where
    o: "readTlv response (Some 0) = Inr outer" and st: "readTlv response (tl_start outer) = Inr status"
    and sv: "readTlv response (tl_start status) = Inr sv" "tl_tag sv = Some 2"
      "\<not> some_and (\<lambda>c. 1 < unat c) (byte_at response (plus_num (tl_end sv) (Some (- 1))))"
    and tv: "readTlv response (tl_end status) = Inr tv" "token = subarray response (tl_end status) (tl_end tv)"
      "has_bytes token (from_hex h)" "has_bytes token nonce" .
  obtain so where so: "tl_start outer = Some so" "0 \<le> so" by (rule readTlv_Some [OF o]) auto
  note st' = st [unfolded so(1)]
  obtain ss where ss: "tl_start status = Some ss" "0 \<le> ss" "\<And>e. tl_end status = Some e \<Longrightarrow> ss \<le> e \<and> e \<le> int (length response)"
    by (rule readTlv_Some [OF st' so(2)]) (use so(2) in auto)
  note sv' = sv(1) [unfolded ss(1)]
  obtain sa where sa: "tl_tag sv = byte_at response (Some ss)" "tl_start sv = Some sa" "ss + 2 \<le> sa" "sa \<le> ss + 6"
    "\<And>e. tl_end sv = Some e \<Longrightarrow> sa \<le> e \<and> e \<le> int (length response)"
    by (rule readTlv_Some [OF sv' ss(2)]) blast
  obtain es where es: "tl_end status = Some es"
    using readTlv_no_end [OF st' so(2)] ss(1) sa(1) sv(2) by (cases "tl_end status") auto
  note es' = ss(3) [OF es] and tv' = tv(1) [unfolded es]
  have long: "32 \<le> length token" using tv(3) assms(2) by (auto simp: has_bytes_iff)
  then obtain et where et: "tl_end tv = Some et"
    using tv(2) by (cases "tl_end tv") (auto simp: es subarray_def int_or_0_def)
  have et': "es \<le> et" "et \<le> int (length response)"
    by (rule readTlv_Some [OF tv']; use es' ss(2) et in force)+
  have tok: "token = subarray response (Some es) (Some et)" by (simp add: tv(2) es et)
  from subarray_slice [of es et response] es' ss(2) et' obtain pre suf where
    cut: "response = pre @ token @ suf" "int (length pre) = es" "int (length pre + length token) = et" by (auto simp: tok)
  have tvv: "tv = \<lparr>tl_tag = tl_tag tv, tl_start = tl_start tv, tl_end = Some (int (length pre + length token))\<rparr>" using et cut(3) by simp
  have "readTlv response (Some (int (length pre))) = Inr tv" using tv' cut(2) by simp
  with tvv cut(1) have whole: "\<exists>pre suf tag start. response = pre @ token @ suf \<and> readTlv response (Some (int (length pre))) =
       Inr \<lparr>tl_tag = tag, tl_start = start, tl_end = Some (int (length pre + length token))\<rparr>" by metis
  have "es + 32 \<le> int (length response)" using long cut by simp
  then have room: "sa < int (length response)" using es' sa(4) by linarith
  obtain e where e: "tl_end sv = Some e"
    using readTlv_no_end [OF sv' ss(2)] sa(2,3) room ss(2) by (cases "tl_end sv") (auto simp: byte_at_def split: if_splits)
  have "\<exists>c. byte_at response (Some (e - 1)) = Some c" using sa(3) sa(5) [OF e] ss(2) by (auto simp: byte_at_def)
  with sv(3) e have "\<exists>c. byte_at response (Some (e - 1)) = Some c \<and> unat c \<le> 1" by (auto simp: plus_num_def)
  with e sv' sv(2) whole tv(3,4) show ?thesis unfolding has_bytes_iff by blast
qed

lemma tlv_split:
  assumes "int (length v) < 2 ^ 31"
  obtains x where "tlv t v = x @ v"
    "\<And>pre suf. readTlv (pre @ x @ v @ suf) (Some (int (length pre))) =
       Inr \<lparr>tl_tag = Some t, tl_start = Some (int (length pre + length x)), tl_end = Some (int (length pre + length x + length v))\<rparr>"
proof (rule that)
  let ?x = "t # length_bytes (int (length v))"
  show "tlv t v = ?x @ v" by (simp add: tlv_def)
  fix pre suf
  from readTlv_tlv [OF assms, of pre t suf] obtain h where
    h: "readTlv (pre @ tlv t v @ suf) (Some (int (length pre))) =
      Inr \<lparr>tl_tag = Some t, tl_start = Some (int (length pre) + h), tl_end = Some (int (length pre + length (tlv t v)))\<rparr>"
      "int (length (tlv t v)) = h + int (length v)" by blast
  then have "h = int (length ?x)" by (simp add: tlv_def)
  with h(1) show "readTlv (pre @ ?x @ v @ suf) (Some (int (length pre))) =
       Inr \<lparr>tl_tag = Some t, tl_start = Some (int (length pre + length ?x)), tl_end = Some (int (length pre + length ?x + length v))\<rparr>"
    by (simp add: tlv_def add.assoc)
qed

text \<open>What a well-formed positive answer leads to.\<close>

lemma parse_wellformed:
  assumes "unat c \<le> 1" and "int (length v) < 2 ^ 30"
  shows "parseTimestampResponse (tlv 0x30 (tlv 0x30 (tlv 2 [c]) @ tlv t v)) h nonce =
    (if \<not> has_bytes (tlv t v) (from_hex h) then Inl (InternalError ''Time-stamp token does not cover the requested hash'')
     else if \<not> has_bytes (tlv t v) nonce then Inl (InternalError ''Time-stamp nonce mismatch'')
     else Inr (tlv t v, generalizedTime (tlv t v)))"
proof -
  let ?sv = "tlv 2 [c]" and ?st = "tlv 0x30 (tlv 2 [c])" and ?tok = "tlv t v"
  have lsv: "length ?sv = 3" by (simp add: tlv_def length_bytes_def)
  have ltok: "length ?tok \<le> 6 + length v" using assms(2) by (intro length_tlv) simp
  have lst: "length ?st \<le> 9" using length_tlv [of ?sv "0x30"] lsv by simp
  have "int (length ?sv) < 2 ^ 31" "int (length (?st @ ?tok)) < 2 ^ 31" "int (length v) < 2 ^ 31" "int (length [c]) < 2 ^ 31"
    using lsv ltok lst assms(2) by simp_all
  note small = this
  obtain x1 where x1: "tlv 0x30 (?st @ ?tok) = x1 @ ?st @ ?tok"
    "\<And>pre suf. readTlv (pre @ x1 @ (?st @ ?tok) @ suf) (Some (int (length pre))) = Inr \<lparr>tl_tag = Some 0x30,
       tl_start = Some (int (length pre + length x1)), tl_end = Some (int (length pre + length x1 + length (?st @ ?tok)))\<rparr>"
    using tlv_split [OF small(2), of "0x30"] by blast
  obtain x2 where x2: "?st = x2 @ ?sv"
    "\<And>pre suf. readTlv (pre @ x2 @ ?sv @ suf) (Some (int (length pre))) = Inr \<lparr>tl_tag = Some 0x30,
       tl_start = Some (int (length pre + length x2)), tl_end = Some (int (length pre + length x2 + length ?sv))\<rparr>"
    using tlv_split [OF small(1), of "0x30"] by blast
  obtain x3 where x3: "?sv = x3 @ [c]"
    "\<And>pre suf. readTlv (pre @ x3 @ [c] @ suf) (Some (int (length pre))) = Inr \<lparr>tl_tag = Some 2,
       tl_start = Some (int (length pre + length x3)), tl_end = Some (int (length pre + length x3 + length [c]))\<rparr>"
    using tlv_split [OF small(4), of 2] by blast
  obtain x4 where x4: "?tok = x4 @ v"
    "\<And>pre suf. readTlv (pre @ x4 @ v @ suf) (Some (int (length pre))) = Inr \<lparr>tl_tag = Some t,
       tl_start = Some (int (length pre + length x4)), tl_end = Some (int (length pre + length x4 + length v))\<rparr>"
    using tlv_split [OF small(3), of t] by blast
  let ?R = "x1 @ x2 @ x3 @ [c] @ x4 @ v"
  have R: "tlv 0x30 (?st @ ?tok) = ?R" unfolding x1(1) unfolding x2(1) unfolding x3(1) x4(1) by simp
  let ?n = "int (length ?R)"
  have o: "readTlv ?R (Some 0) = Inr \<lparr>tl_tag = Some 0x30, tl_start = Some (int (length x1)), tl_end = Some ?n\<rparr>"
    using x1(2) [of "[]" "[]", unfolded x2(1), unfolded x3(1) x4(1)] by simp
  have st: "readTlv ?R (Some (int (length x1))) = Inr \<lparr>tl_tag = Some 0x30, tl_start = Some (int (length (x1 @ x2))),
      tl_end = Some (int (length (x1 @ x2 @ x3 @ [c])))\<rparr>"
    using x2(2) [of x1 ?tok] by (simp add: x3(1) x4(1) add.assoc)
  have sv: "readTlv ?R (Some (int (length (x1 @ x2)))) = Inr \<lparr>tl_tag = Some 2, tl_start = Some (int (length (x1 @ x2 @ x3))),
      tl_end = Some (int (length (x1 @ x2 @ x3 @ [c])))\<rparr>"
    using x3(2) [of "x1 @ x2" ?tok] by (simp add: x4(1) add.assoc)
  have tk: "readTlv ?R (Some (int (length (x1 @ x2 @ x3 @ [c])))) = Inr \<lparr>tl_tag = Some t, tl_start = Some (int (length (x1 @ x2 @ x3 @ [c] @ x4))),
      tl_end = Some ?n\<rparr>"
    using x4(2) [of "x1 @ x2 @ x3 @ [c]" "[]"] by (simp add: add.assoc)
  have code: "byte_at ?R (plus_num (Some (int (length (x1 @ x2 @ x3 @ [c])))) (Some (- 1))) = Some c"
    using byte_at_middle [of "x1 @ x2 @ x3" c "x4 @ v"] by (simp add: plus_num_def)
  have sub: "subarray ?R (Some (int (length (x1 @ x2 @ x3 @ [c])))) (Some ?n) = ?tok"
    using subarray_middle [of "x1 @ x2 @ x3 @ [c]" "[]" "x4 @ v" "[]"] by (simp add: x4(1) add.assoc)
  have "0 < length (x4 @ v)" using tlv_not_Nil [of t v] unfolding x4(1) by blast
  then have miss: "\<not> ?n \<le> int (length (x1 @ x2 @ x3 @ [c]))" unfolding length_append by linarith
  show ?thesis
    unfolding R parseTimestampResponse_def Let_def o st sv tk code sub sum.case tlv_view.simps option.case prod.case
    using assms(1) miss by (simp only: code sub some_and_simps not_less if_False simp_thms) simp
qed

text \<open>Honest answers are accepted. A positive answer around a token that contains digest and nonce gives exactly that
  token, whatever else it contains.\<close>

theorem honest_answer_accepted:
  assumes "unat c \<le> 1" and "int (length v) < 2 ^ 30" and "has_bytes (tlv t v) (from_hex h)" and "has_bytes (tlv t v) nonce"
  shows "parseTimestampResponse (tlv 0x30 (tlv 0x30 (tlv 2 [c]) @ tlv t v)) h nonce = Inr (tlv t v, generalizedTime (tlv t v))"
  using parse_wellformed [OF assms(1,2)] assms(3,4) by simp

text \<open>One nonce in 256 is refused by standard authorities. A nonce whose first nine bits are zero is sent as
  an integer with a superfluous octet; an authority that returns the same number in the canonical
  form, without that octet, gets its token refused as a mismatch.\<close>

theorem nonce_not_canonical:
  assumes "\<not> bit b 7" and "unat c \<le> 1" and "int (length rest) < 2 ^ 20" and "length (from_hex h) = 32"
    and "\<not> has_bytes (tlv 0x30 (tlv 4 (from_hex h) @ tlv 2 (b # rest))) (0 # b # rest)"
  shows "integer (0 # b # rest) = tlv 2 (0 # b # rest) \<and> bytes_value 0 (0 # b # rest) = bytes_value 0 (b # rest) \<and>
    parseTimestampResponse (tlv 0x30 (tlv 0x30 (tlv 2 [c]) @ tlv 0x30 (tlv 4 (from_hex h) @ tlv 2 (b # rest)))) h (0 # b # rest) =
      Inl (InternalError ''Time-stamp nonce mismatch'')"
proof -
  let ?v = "tlv 4 (from_hex h) @ tlv 2 (b # rest)"
  have "int (length ?v) < 2 ^ 30" using length_tlv [of "from_hex h" 4] length_tlv [of "b # rest" 2] assms(3,4) by simp
  note parse = parse_wellformed [OF assms(2) this, of "0x30" h "0 # b # rest"]
  have "tlv 0x30 ?v = (0x30 # length_bytes (int (length ?v)) @ 4 # length_bytes (int (length (from_hex h)))) @ from_hex h @ tlv 2 (b # rest)"
    by (simp add: tlv_def)
  then have "has_bytes (tlv 0x30 ?v) (from_hex h)" unfolding has_bytes_iff by blast
  with parse assms(5) show ?thesis by (simp add: integer_def bytes_value_def)
qed

definition sample_hash :: string where
  "sample_hash = replicate 64 CHR ''a''"

definition sample_token :: "bytes \<Rightarrow> bytes" where
  "sample_token n = tlv 4 (from_hex sample_hash) @ tlv 2 n"

lemma sample_token_values: "length (from_hex sample_hash) = 32" "length (sample_token [1, 2, 3, 4, 5, 6, 7, 8]) = 44"
  "has_bytes (tlv 0x30 (sample_token [1, 2, 3, 4, 5, 6, 7, 8])) (from_hex sample_hash)"
  "has_bytes (tlv 0x30 (sample_token [1, 2, 3, 4, 5, 6, 7, 8])) [1, 2, 3, 4, 5, 6, 7, 8]"
  "\<not> has_bytes (tlv 0x30 (sample_token [1, 2, 3, 4, 5, 6, 7])) [0, 1, 2, 3, 4, 5, 6, 7]"
  by code_simp+

theorem honest_answer_accepted_witness:
  "parseTimestampResponse (tlv 0x30 (tlv 0x30 (tlv 2 [0]) @ tlv 0x30 (sample_token [1, 2, 3, 4, 5, 6, 7, 8]))) sample_hash [1, 2, 3, 4, 5, 6, 7, 8] =
     Inr (tlv 0x30 (sample_token [1, 2, 3, 4, 5, 6, 7, 8]), generalizedTime (tlv 0x30 (sample_token [1, 2, 3, 4, 5, 6, 7, 8])))"
  by (rule honest_answer_accepted) (use sample_token_values in simp_all)

theorem answer_covers_witness:
  "\<exists>a b token. parseTimestampResponse (tlv 0x30 (tlv 0x30 (tlv 2 [0]) @ tlv 0x30 (sample_token [1, 2, 3, 4, 5, 6, 7, 8]))) sample_hash [1, 2, 3, 4, 5, 6, 7, 8] =
     Inr (token, generalizedTime token) \<and> token = a @ from_hex sample_hash @ b"
proof -
  let ?v = "sample_token [1, 2, 3, 4, 5, 6, 7, 8]"
  have "parseTimestampResponse (tlv 0x30 (tlv 0x30 (tlv 2 [0]) @ tlv 0x30 ?v)) sample_hash [1, 2, 3, 4, 5, 6, 7, 8] = Inr (tlv 0x30 ?v, generalizedTime (tlv 0x30 ?v))"
    using parse_wellformed [of 0 ?v "0x30" sample_hash "[1, 2, 3, 4, 5, 6, 7, 8]"] sample_token_values by simp
  with answer_covers [OF this sample_token_values(1)] show ?thesis by blast
qed

theorem nonce_not_canonical_witness:
  "parseTimestampResponse (tlv 0x30 (tlv 0x30 (tlv 2 [0]) @ tlv 0x30 (sample_token [1, 2, 3, 4, 5, 6, 7]))) sample_hash [0, 1, 2, 3, 4, 5, 6, 7] =
     Inl (InternalError ''Time-stamp nonce mismatch'')"
proof -
  have "\<not> bit (1 :: 8 word) 7" "unat (0 :: 8 word) \<le> 1" "int (length [2, 3, 4, 5, 6, 7 :: 8 word]) < 2 ^ 20" by simp_all
  from nonce_not_canonical [OF this sample_token_values(1) sample_token_values(5) [unfolded sample_token_def]]
  show ?thesis by (simp add: sample_token_def)
qed

end
