(* ===== verification/Auth.thy ===== *)
theory Auth
  imports Complex_Main Timestamp Security Storage Samples
begin

text \<open>
  Sessions and sign-in (\<^verbatim>\<open>apps/api/src/auth.service.ts\<close>): one-time codes, password digests, the
  sessions of administrators and of directory users, the roles that accounts and directory groups
  give, the cache of directory profiles, sign-in with its lock, sign-out. The directory, the policy on
  mailboxes, the key derivation, the keyed digest and the random generator are parameters.
\<close>

section \<open>Base 32 and one-time codes\<close>

definition base32Alphabet :: string where
  "base32Alphabet = ''ABCDEFGHIJKLMNOPQRSTUVWXYZ234567''"

text \<open>Digits of a binary numeral, the highest first: \<open>toString(2).padStart(k, "0")\<close> and \<open>parseInt(bits, 2)\<close>.\<close>

fun to_bits :: "nat \<Rightarrow> nat \<Rightarrow> bool list" where
  "to_bits 0 n = []"
| "to_bits (Suc k) n = to_bits k (n div 2) @ [odd n]"

definition of_bits :: "bool list \<Rightarrow> nat" where
  "of_bits bs = foldl (\<lambda>a b. 2 * a + (if b then 1 else 0)) 0 bs"

text \<open>The matches of \<open>/.{k}/gu\<close>, and of \<open>/.{1,k}/gu\<close>.\<close>

fun full_chunks :: "nat \<Rightarrow> nat \<Rightarrow> 'a list \<Rightarrow> 'a list list" where
  "full_chunks k 0 xs = []"
| "full_chunks k (Suc n) xs = (if length xs < k then [] else take k xs # full_chunks k n (drop k xs))"

fun chunks :: "nat \<Rightarrow> nat \<Rightarrow> 'a list \<Rightarrow> 'a list list" where
  "chunks k 0 xs = []"
| "chunks k (Suc n) xs = (if xs = [] then [] else take k xs # chunks k n (drop k xs))"

fun index_of :: "'a \<Rightarrow> 'a list \<Rightarrow> nat option" where
  "index_of x [] = None"
| "index_of x (y # ys) = (if x = y then Some 0 else map_option Suc (index_of x ys))"

definition upper_char :: "char \<Rightarrow> char" where
  "upper_char c = (if CHR ''a'' \<le> c \<and> c \<le> CHR ''z'' then char_of (of_char c - 32 :: nat) else c)"

fun base32_bits :: "string \<Rightarrow> bool list option" where
  "base32_bits [] = Some []"
| "base32_bits (c # cs) =
     (case index_of c base32Alphabet of
        None \<Rightarrow> None
      | Some i \<Rightarrow> map_option ((@) (to_bits 5 i)) (base32_bits cs))"

text \<open>\<open>None\<close> is the exception \<open>Invalid base32 value\<close>.\<close>

definition decodeBase32 :: "string \<Rightarrow> bytes option" where
  "decodeBase32 v =
     (let cleaned = map upper_char (rev (dropWhile (\<lambda>c. c = CHR ''='') (rev v)))
      in map_option (\<lambda>bits. map (\<lambda>b. word_of_nat (of_bits b)) (full_chunks 8 (length bits) bits)) (base32_bits cleaned))"

definition encodeBase32 :: "bytes \<Rightarrow> string" where
  "encodeBase32 v =
     (let bits = concat (map (\<lambda>b. to_bits 8 (unat b)) v)
      in map (\<lambda>p. base32Alphabet ! of_bits (p @ replicate (5 - length p) False)) (chunks 5 (length bits) bits))"

definition uint64_be :: "nat \<Rightarrow> bytes" where
  "uint64_be n = map (\<lambda>k. word_of_nat (n div 256 ^ k)) [7, 6, 5, 4, 3, 2, 1, 0]"

text \<open>\<open>None\<close> when the secret is not base 32, the counter is negative or the digest too short (\<open>RangeError\<close>).\<close>

definition totp :: "(bytes \<Rightarrow> bytes \<Rightarrow> bytes) \<Rightarrow> string \<Rightarrow> time \<Rightarrow> string option" where
  "totp hmac_sha1 secret timestamp =
     (case decodeBase32 secret of
        None \<Rightarrow> None
      | Some key \<Rightarrow>
          (let counter = timestamp div 30000; digest = hmac_sha1 key (uint64_be (nat counter))
           in if counter < 0 \<or> digest = [] then None
              else (let offset = unat (last digest AND 0x0f)
                    in if length digest < offset + 4 then None
                       else (let n = nat (bytes_value 0 (take 4 (drop offset digest))) mod 2 ^ 31
                             in Some (padStart 6 CHR ''0'' (string_of_nat (n mod 1000000)))))))"

definition six_digits :: "string \<Rightarrow> bool" where
  "six_digits code = (length code = 6 \<and> list_all is_digit code)"

definition verifyTotp :: "(bytes \<Rightarrow> bytes \<Rightarrow> bytes) \<Rightarrow> time \<Rightarrow> string \<Rightarrow> string \<Rightarrow> bool outcome" where
  "verifyTotp hmac_sha1 t secret code =
     (if \<not> six_digits code then Inr False
      else (case (totp hmac_sha1 secret (t - 30000), totp hmac_sha1 secret t, totp hmac_sha1 secret (t + 30000)) of
          (None, _, _) \<Rightarrow> Inl (InternalError ''totp'')
        | (Some a, b, c) \<Rightarrow>
            if a = code then Inr True
            else (case b of
                None \<Rightarrow> Inl (InternalError ''totp'')
              | Some b \<Rightarrow>
                  if b = code then Inr True
                  else (case c of None \<Rightarrow> Inl (InternalError ''totp'') | Some c \<Rightarrow> Inr (c = code)))))"

section \<open>Passwords\<close>

text \<open>\<open>Buffer.from(text, "base64")\<close>: characters outside the alphabet are skipped, the padding ends the text.\<close>

definition base64_value :: "char \<Rightarrow> nat option" where
  "base64_value c = index_of (if c = CHR ''-'' then CHR ''+'' else if c = CHR ''_'' then CHR ''/'' else c) base64_alphabet"

fun base64_groups :: "nat list \<Rightarrow> nat list" where
  "base64_groups (w # x # y # z # rest) =
     (w * 4 + x div 16) # ((x mod 16) * 16 + y div 4) # ((y mod 4) * 64 + z) # base64_groups rest"
| "base64_groups [w, x, y] = [w * 4 + x div 16, (x mod 16) * 16 + y div 4]"
| "base64_groups [w, x] = [w * 4 + x div 16]"
| "base64_groups _ = []"

definition from_base64 :: "string \<Rightarrow> nat list" where
  "from_base64 text = base64_groups (List.map_filter base64_value (takeWhile (\<lambda>c. c \<noteq> CHR ''='') text))"

text \<open>\<open>scrypt password salt n\<close> are the \<open>n\<close> derived bytes.\<close>

definition hashPassword :: "(string \<Rightarrow> nat list \<Rightarrow> nat \<Rightarrow> nat list) \<Rightarrow> nat list \<Rightarrow> string \<Rightarrow> string" where
  "hashPassword scrypt salt password = ''scrypt$'' @ base64 salt @ ''$'' @ base64 (scrypt password salt 64)"

definition verifyPassword :: "(string \<Rightarrow> nat list \<Rightarrow> nat \<Rightarrow> nat list) \<Rightarrow> string \<Rightarrow> string option \<Rightarrow> bool" where
  "verifyPassword scrypt password encoded =
     (case Option.bind encoded or_null of
        None \<Rightarrow> False
      | Some text \<Rightarrow>
          (case split_on (\<lambda>c. c = CHR ''$'') text of
             algorithm # saltValue # hashValue # _ \<Rightarrow>
               if algorithm \<noteq> ''scrypt'' \<or> saltValue = [] \<or> hashValue = [] then False
               else (let expected = from_base64 hashValue
                     in scrypt password (from_base64 saltValue) (length expected) = expected)
           | _ \<Rightarrow> False))"

section \<open>Requests and their surroundings\<close>

datatype header_value = HText string | HList "string list"

record http_request =
  hr_method :: string
  hr_originalUrl :: string
  hr_headers :: "string \<Rightarrow> header_value option"
  hr_remoteAddress :: "string option"
  hr_refresh :: "string option"

definition header_text :: "http_request \<Rightarrow> string \<Rightarrow> string option" where
  "header_text r h = (case hr_headers r h of Some (HText t) \<Rightarrow> Some t | _ \<Rightarrow> None)"

record profile =
  pf_username :: string
  pf_displayName :: string
  pf_groups :: "string list"
  pf_connectionId :: string

text \<open>The directory (\<open>None\<close> when the lookup fails, \<open>Some None\<close> when there is no such person), the policy on mailboxes,
  and the primitives of the platform.\<close>

record auth_io =
  di_resolve :: "string \<Rightarrow> profile option option"
  di_authenticate :: "string \<Rightarrow> string \<Rightarrow> profile outcome"
  di_mailbox :: "string \<Rightarrow> unit outcome"
  di_scrypt :: "string \<Rightarrow> nat list \<Rightarrow> nat \<Rightarrow> nat list"
  di_hmac :: "bytes \<Rightarrow> bytes \<Rightarrow> bytes"
  di_isIP :: "string \<Rightarrow> bool"

record sso_settings =
  so_enrichment :: "string option"
  so_ttl :: "string option"
  so_negativeTtl :: "string option"

text \<open>The cache keeps its entries in the order of insertion; an entry has the end of its validity, in
  milliseconds, and the answer of the directory.\<close>

type_synonym profile_cache = "(string \<times> rat \<times> profile option) list"

definition adminCookieName :: string where
  "adminCookieName = ''isms_admin_session''"

definition directoryCookieName :: string where
  "directoryCookieName = ''isms_directory_session''"

definition hashToken :: "env \<Rightarrow> string \<Rightarrow> string" where
  "hashToken E token = sha256 E token"

definition cookie :: "http_request \<Rightarrow> string \<Rightarrow> string option" where
  "cookie r name =
     (let raw = (case header_text r ''cookie'' of None \<Rightarrow> [] | Some t \<Rightarrow> t);
          pairs = map (\<lambda>p. split_on (\<lambda>c. c = CHR ''='') (trim p)) (split_on (\<lambda>c. c = CHR '';'') raw)
      in Option.bind (find_first (\<lambda>p. hd p = name) pairs) (\<lambda>p. if 1 < length p then or_null (p ! 1) else None))"

definition activityTouchDue :: "env \<Rightarrow> time option \<Rightarrow> bool" where
  "activityTouchDue E lastAt = (case lastAt of None \<Rightarrow> True | Some t \<Rightarrow> 5 * 60 * 1000 \<le> now E - t)"

section \<open>Sessions of administrators\<close>

definition within_validity :: "env \<Rightarrow> time option \<Rightarrow> time option \<Rightarrow> bool" where
  "within_validity E lo hi = (null_or (\<lambda>t. t \<le> now E) lo \<and> null_or (\<lambda>t. now E < t) hi)"

definition local_identity :: "adminsession_row \<Rightarrow> account_row \<Rightarrow> identity" where
  "local_identity x a =
     \<lparr>id_username = ac_username a, id_displayName = ac_displayName a,
      id_groups = (if ac_role a = MODERATOR then [''ISMS-MODERATOR-MANAGE''] else [''ISMS-LOCAL-ADMINS'']),
      id_source = LocalAdmin, id_sessionExpiresAt = Some (as_expiresAt x), id_profilePhoto = ac_profilePhoto a\<rparr>"

definition touch_session :: "env \<Rightarrow> db \<Rightarrow> adminsession_row \<Rightarrow> account_row \<Rightarrow> db" where
  "touch_session E s x a =
     s\<lparr>adminsessions := (if activityTouchDue E (Some (as_lastUsedAt x))
          then update_rows (\<lambda>y. as_id y = as_id x) (\<lambda>y. y\<lparr>as_lastUsedAt := now E\<rparr>) (adminsessions s) else adminsessions s),
       accounts := (if activityTouchDue E (ac_lastAuthorizedAt a)
          then update_rows (\<lambda>y. ac_id y = ac_id a) (\<lambda>y. y\<lparr>ac_lastAuthorizedAt := Some (now E)\<rparr>) (accounts s) else accounts s)\<rparr>"

definition session_account :: "env \<Rightarrow> db \<Rightarrow> string \<Rightarrow> (adminsession_row \<times> account_row) option" where
  "session_account E s token =
     Option.bind (find_first (\<lambda>x. as_tokenHash x = hashToken E token) (adminsessions s)) (\<lambda>x.
       Option.bind (find_first (\<lambda>a. ac_id a = as_adminAccountId x) (accounts s)) (\<lambda>a.
         if now E < as_expiresAt x \<and> ac_active a \<and> within_validity E (ac_validFrom a) (ac_validUntil a) then Some (x, a) else None))"

definition adminSessionIdentity :: "env \<Rightarrow> db \<Rightarrow> http_request \<Rightarrow> db \<times> identity option" where
  "adminSessionIdentity E s r =
     (case Option.bind (cookie r adminCookieName) (session_account E s) of
        None \<Rightarrow> (s, None)
      | Some (x, a) \<Rightarrow> (touch_session E s x a, Some (local_identity x a)))"

section \<open>Roles of directory users\<close>

definition directory_account :: "env \<Rightarrow> db \<Rightarrow> string \<Rightarrow> account_row option" where
  "directory_account E s username =
     find_first (\<lambda>a. toLowerCase (ac_username a) = toLowerCase username \<and> ac_source a = DIRECTORY \<and> ac_active a \<and>
       within_validity E (ac_validFrom a) (ac_validUntil a)) (accounts s)"

definition directory_group :: "env \<Rightarrow> db \<Rightarrow> string list \<Rightarrow> admingroup_row option" where
  "directory_group E s gs =
     find_first (\<lambda>g. ag_active g \<and> within_validity E (ag_validFrom g) (ag_validUntil g) \<and>
       toLowerCase (ag_name g) \<in> set (map toLowerCase gs)) (admingroups s)"

definition role_groups :: "account_row option \<Rightarrow> admingroup_row option \<Rightarrow> string list" where
  "role_groups account grp =
     (let administrator = some_and (\<lambda>a. ac_role a \<noteq> MODERATOR) account \<or> some_and (\<lambda>g. ag_role g \<noteq> MODERATOR) grp;
          moderator = (\<lambda>pa pg. \<not> administrator \<and> (some_and (\<lambda>a. ac_role a = MODERATOR \<and> pa a) account \<or>
                                 some_and (\<lambda>g. ag_role g = MODERATOR \<and> pg g) grp))
      in (if administrator then [''ISMS-LOCAL-ADMINS''] else []) @
         (if moderator ac_canManageDocuments ag_canManageDocuments then [''ISMS-MODERATOR-MANAGE''] else []) @
         (if moderator ac_canPublishDocuments ag_canPublishDocuments then [''ISMS-MODERATOR-PUBLISH''] else []) @
         (if moderator ac_canDeleteDocuments ag_canDeleteDocuments then [''ISMS-MODERATOR-ARCHIVE''] else []))"

definition touch_roles :: "env \<Rightarrow> db \<Rightarrow> account_row option \<Rightarrow> admingroup_row option \<Rightarrow> db" where
  "touch_roles E s account grp =
     s\<lparr>accounts := (case account of
          Some a \<Rightarrow> if activityTouchDue E (ac_lastAuthorizedAt a)
            then update_rows (\<lambda>y. ac_id y = ac_id a) (\<lambda>y. y\<lparr>ac_lastAuthorizedAt := Some (now E)\<rparr>) (accounts s) else accounts s
        | None \<Rightarrow> accounts s),
       admingroups := (case grp of
          Some g \<Rightarrow> if activityTouchDue E (ag_lastAuthorizedAt g)
            then update_rows (\<lambda>y. ag_id y = ag_id g) (\<lambda>y. y\<lparr>ag_lastAuthorizedAt := Some (now E)\<rparr>) (admingroups s) else admingroups s
        | None \<Rightarrow> admingroups s)\<rparr>"

text \<open>\<open>a || b\<close> of optional strings.\<close>

definition or_else :: "string option \<Rightarrow> string option \<Rightarrow> string option" where
  "or_else a b = (case Option.bind a or_null of None \<Rightarrow> b | Some t \<Rightarrow> Some t)"

definition with_roles :: "db \<Rightarrow> identity \<Rightarrow> account_row option \<Rightarrow> admingroup_row option \<Rightarrow> identity" where
  "with_roles s i account grp =
     (let pref = find_first (\<lambda>p. up_identity p = id_username i) (preferences s)
      in if account = None \<and> grp = None then i
         else i\<lparr>id_displayName := the (or_else (map_option ac_displayName account)
                  (or_else (Option.bind pref up_adminDisplayName) (Some (id_displayName i)))),
                id_profilePhoto := or_else (Option.bind account ac_profilePhoto) (Option.bind pref up_adminProfilePhoto),
                id_groups := new_set (id_groups i @ role_groups account grp)\<rparr>)"

section \<open>Profiles from the directory\<close>

text \<open>\<open>Math.min(3600, Math.max(5, Number(value || fallback) || fallback))\<close>.\<close>

definition boundedSeconds :: "string option \<Rightarrow> int \<Rightarrow> rat" where
  "boundedSeconds v fallback =
     (let n = (case Option.bind v or_null of
            None \<Rightarrow> of_int fallback
          | Some t \<Rightarrow> (case js_number t of
              None \<Rightarrow> of_int fallback
            | Some (m, d) \<Rightarrow> if m = 0 then of_int fallback else of_int m / 10 ^ d))
      in min 3600 (max 5 n))"

fun evict :: "nat \<Rightarrow> profile_cache \<Rightarrow> profile_cache" where
  "evict limit [] = []"
| "evict limit ((k, e) # rest) = (if length ((k, e) # rest) < limit \<or> k = [] then (k, e) # rest else evict limit rest)"

definition forget :: "string \<Rightarrow> profile_cache \<Rightarrow> profile_cache" where
  "forget k c = filter (\<lambda>e. fst e \<noteq> k) c"

definition rememberSsoDirectoryProfile :: "env \<Rightarrow> sso_settings \<Rightarrow> profile_cache \<Rightarrow> string \<Rightarrow> profile option \<Rightarrow> profile_cache" where
  "rememberSsoDirectoryProfile E X c username p =
     (let ttl = (if p \<noteq> None then boundedSeconds (so_ttl X) 300 else boundedSeconds (so_negativeTtl X) 30)
      in evict 10000 (forget username c) @ [(username, of_int (now E) + ttl * 1000, p)])"

definition ssoDirectoryProfile ::
    "env \<Rightarrow> auth_io \<Rightarrow> sso_settings \<Rightarrow> profile_cache \<Rightarrow> string \<Rightarrow> bool \<Rightarrow> profile_cache \<times> profile option" where
  "ssoDirectoryProfile E D X c username force =
     (let c1 = (if force then forget username c else c);
          fetched = (case di_resolve D username of None \<Rightarrow> None | Some p \<Rightarrow> p)
      in case map_of c1 username of
           Some (e, p) \<Rightarrow>
             if of_int (now E) < e then (forget username c1 @ [(username, e, p)], p)
             else (rememberSsoDirectoryProfile E X (forget username c1) username fetched, fetched)
         | None \<Rightarrow> (rememberSsoDirectoryProfile E X c1 username fetched, fetched))"

definition enrichSsoIdentity ::
    "env \<Rightarrow> auth_io \<Rightarrow> sso_settings \<Rightarrow> profile_cache \<Rightarrow> db \<Rightarrow> identity \<Rightarrow> bool \<Rightarrow> profile_cache \<times> db \<times> identity outcome" where
  "enrichSsoIdentity E D X c s i force =
     (case (if id_source i = TrustedProxy then di_mailbox D (id_username i) else Inr ()) of
        Inl e \<Rightarrow> (c, s, Inl e)
      | Inr _ \<Rightarrow>
          (let (c1, profile) = (if id_source i = TrustedProxy \<and> so_enrichment X \<noteq> Some ''false''
                  then ssoDirectoryProfile E D X c (id_username i) force else (c, None));
               i1 = (case profile of
                   None \<Rightarrow> i
                 | Some p \<Rightarrow> i\<lparr>id_username := pf_username p,
                       id_displayName := (if pf_displayName p = [] then id_displayName i else pf_displayName p),
                       id_groups := new_set (id_groups i @ pf_groups p)\<rparr>);
               account = directory_account E s (id_username i1);
               grp = (if id_groups i1 = [] then None else directory_group E s (id_groups i1))
           in (c1, touch_roles E s account grp, Inr (with_roles s i1 account grp))))"

section \<open>Sessions of users\<close>

definition refresh_session :: "env \<Rightarrow> dirsession_row \<Rightarrow> profile option \<Rightarrow> bool \<Rightarrow> dirsession_row \<Rightarrow> dirsession_row" where
  "refresh_session E x refreshed completed y =
     (case refreshed of
        Some p \<Rightarrow> y\<lparr>ds_lastUsedAt := now E, ds_username := pf_username p, ds_displayName := pf_displayName p,
                     ds_groups := pf_groups p, ds_directoryConnectionId := pf_connectionId p\<rparr>
      | None \<Rightarrow> if completed then y\<lparr>ds_lastUsedAt := now E, ds_groups := []\<rparr> else y\<lparr>ds_lastUsedAt := now E\<rparr>)"

definition directory_session :: "env \<Rightarrow> db \<Rightarrow> http_request \<Rightarrow> dirsession_row option" where
  "directory_session E s r =
     Option.bind (cookie r directoryCookieName) (\<lambda>token.
       Option.bind (find_first (\<lambda>x. ds_tokenHash x = hashToken E token) (dirsessions s)) (\<lambda>x.
         if ds_expiresAt x \<le> now E then None else Some x))"

definition sessionIdentity ::
    "env \<Rightarrow> auth_io \<Rightarrow> sso_settings \<Rightarrow> profile_cache \<Rightarrow> db \<Rightarrow> http_request \<Rightarrow> bool \<Rightarrow> profile_cache \<times> db \<times> identity option outcome" where
  "sessionIdentity E D X c s r refresh =
     (case adminSessionIdentity E s r of
        (s1, Some i) \<Rightarrow> (c, s1, Inr (Some i))
      | (s1, None) \<Rightarrow>
          (case directory_session E s1 r of
             None \<Rightarrow> (c, s1, Inr None)
           | Some x \<Rightarrow>
               (let answer = (if refresh then di_resolve D (ds_username x) else None);
                    refreshed = (case answer of Some (Some p) \<Rightarrow> Some p | _ \<Rightarrow> None);
                    completed = (answer \<noteq> None);
                    gs = (case refreshed of Some p \<Rightarrow> pf_groups p | None \<Rightarrow> if refresh \<and> completed then [] else ds_groups x);
                    s2 = (if refresh \<or> activityTouchDue E (Some (ds_lastUsedAt x))
                          then s1\<lparr>dirsessions := update_rows (\<lambda>y. ds_id y = ds_id x) (refresh_session E x refreshed completed) (dirsessions s1)\<rparr>
                          else s1);
                    identity = \<lparr>id_username = the (or_else (map_option pf_username refreshed) (Some (ds_username x))),
                                id_displayName = the (or_else (map_option pf_displayName refreshed) (Some (ds_displayName x))),
                                id_groups = gs, id_source = DirectorySession, id_sessionExpiresAt = Some (ds_expiresAt x),
                                id_profilePhoto = None\<rparr>;
                    (c3, s3, result) = enrichSsoIdentity E D X c s2 identity False
                in (c3, s3, map_sum id Some result))))"

section \<open>Signing in and out\<close>

definition clientIp :: "auth_io \<Rightarrow> http_request \<Rightarrow> string option" where
  "clientIp D r =
     (let candidate = the (or_else (map_option trim (header_text r ''x-real-ip'')) (or_else (hr_remoteAddress r) (Some [])));
          normalized = (if startsWith candidate ''::ffff:'' then drop 7 candidate else candidate)
      in if di_isIP D normalized then Some normalized else None)"

definition userAgent :: "http_request \<Rightarrow> string option" where
  "userAgent r = or_null (take 512 (case hr_headers r ''user-agent'' of
      Some (HText t) \<Rightarrow> t | Some (HList ts) \<Rightarrow> join '','' ts | None \<Rightarrow> []))"

definition failed_login :: "env \<Rightarrow> account_row \<Rightarrow> account_row \<Rightarrow> account_row" where
  "failed_login E a y =
     (let n = ac_failedLoginCount a + 1
      in y\<lparr>ac_failedLoginCount := (if 5 \<le> n then 0 else n),
           ac_lockedUntil := (if 5 \<le> n then Some (now E + 15 * 60 * 1000) else None)\<rparr>)"

definition reset_login :: "account_row \<Rightarrow> account_row" where
  "reset_login y = y\<lparr>ac_failedLoginCount := 0, ac_lockedUntil := None\<rparr>"

definition password_valid :: "env \<Rightarrow> auth_io \<Rightarrow> account_row \<Rightarrow> string \<Rightarrow> bool" where
  "password_valid E D a password =
     (ac_source a = LOCAL \<and> ac_active a \<and> within_validity E (ac_validFrom a) (ac_validUntil a) \<and>
      verifyPassword (di_scrypt D) password (ac_passwordHash a))"

definition mfa_valid :: "env \<Rightarrow> auth_io \<Rightarrow> account_row \<Rightarrow> string option \<Rightarrow> bool outcome" where
  "mfa_valid E D a code =
     (if \<not> ac_mfaEnabled a then Inr True
      else (case Option.bind code or_null of
          None \<Rightarrow> Inr False
        | Some c \<Rightarrow> verifyTotp (di_hmac D) (now E) (case ac_mfaSecret a of None \<Rightarrow> [] | Some x \<Rightarrow> x) c))"

definition new_admin_session :: "env \<Rightarrow> auth_io \<Rightarrow> db \<Rightarrow> account_row \<Rightarrow> string \<Rightarrow> http_request \<Rightarrow> adminsession_row" where
  "new_admin_session E D s a token r =
     \<lparr>as_id = uuid E (uuid_next s), as_tokenHash = hashToken E token, as_adminAccountId = ac_id a,
      as_expiresAt = now E + 8 * 60 * 60 * 1000, as_lastUsedAt = now E, as_sourceIp = clientIp D r, as_userAgent = userAgent r\<rparr>"

text \<open>\<open>token\<close> is the random token of the new session, which the answer carries as a cookie.\<close>

definition login ::
    "env \<Rightarrow> auth_io \<Rightarrow> db \<Rightarrow> string \<Rightarrow> string \<Rightarrow> string option \<Rightarrow> string \<Rightarrow> http_request \<Rightarrow> db \<times> (string \<times> bool) outcome" where
  "login E D s username password mfaCode token r =
     (case find_first (\<lambda>a. ac_username a = username) (accounts s) of
        None \<Rightarrow> (s, Inl (Unauthorized ''Invalid credentials''))
      | Some a \<Rightarrow>
          if some_and (\<lambda>t. now E < t) (ac_lockedUntil a) then (s, Inl (Unauthorized ''Account temporarily locked''))
          else if \<not> password_valid E D a password
          then (if ac_source a = LOCAL
                then s\<lparr>accounts := update_rows (\<lambda>y. ac_id y = ac_id a) (failed_login E a) (accounts s)\<rparr> else s,
                Inl (Unauthorized ''Invalid credentials''))
          else (case mfa_valid E D a mfaCode of
              Inl e \<Rightarrow> (s, Inl e)
            | Inr False \<Rightarrow> (s, Inl (Unauthorized ''MFA code required or invalid''))
            | Inr True \<Rightarrow>
                (s\<lparr>accounts := update_rows (\<lambda>y. ac_id y = ac_id a) reset_login (accounts s),
                   adminsessions := adminsessions s @ [new_admin_session E D s a token r],
                   uuid_next := Suc (uuid_next s)\<rparr>, Inr (token, ac_mfaEnabled a))))"

definition reconcileDirectoryAdministratorIdentity :: "db \<Rightarrow> string \<Rightarrow> string \<Rightarrow> db" where
  "reconcileDirectoryAdministratorIdentity s loginValue canonicalUsername =
     (let lg = trim loginValue; canonical = toLowerCase (trim canonicalUsername);
          account = (\<lambda>name. find_first (\<lambda>a. toLowerCase (ac_username a) = toLowerCase name \<and> ac_source a = DIRECTORY) (accounts s))
      in if lg = [] \<or> canonical = [] \<or> toLowerCase lg = canonical then s
         else (case (account lg, account canonical) of
             (Some a, None) \<Rightarrow> s\<lparr>accounts := update_rows (\<lambda>y. ac_id y = ac_id a) (\<lambda>y. y\<lparr>ac_username := canonical\<rparr>) (accounts s)\<rparr>
           | _ \<Rightarrow> s))"

definition directoryLogin ::
    "env \<Rightarrow> auth_io \<Rightarrow> db \<Rightarrow> string \<Rightarrow> string \<Rightarrow> bool \<Rightarrow> string \<Rightarrow> db \<times> string outcome" where
  "directoryLogin E D s lg password rememberDevice token =
     (case di_authenticate D lg password of
        Inl e \<Rightarrow> (s, Inl e)
      | Inr p \<Rightarrow>
          (let s1 = reconcileDirectoryAdministratorIdentity s lg (pf_username p)
           in (s1\<lparr>dirsessions := dirsessions s1 @
                 [\<lparr>ds_id = uuid E (uuid_next s1), ds_tokenHash = hashToken E token, ds_username = pf_username p,
                   ds_displayName = pf_displayName p, ds_groups = pf_groups p, ds_directoryConnectionId = pf_connectionId p,
                   ds_expiresAt = now E + (if rememberDevice then 14 * 24 * 60 * 60 * 1000 else 8 * 60 * 60 * 1000),
                   ds_lastUsedAt = now E\<rparr>],
                 uuid_next := Suc (uuid_next s1)\<rparr>, Inr token)))"

text \<open>The scope asked for; the second component are the cookies that the answer clears.\<close>

definition logout :: "env \<Rightarrow> db \<Rightarrow> http_request \<Rightarrow> string option \<Rightarrow> db \<times> string list" where
  "logout E s r requestedScope =
     (let scope = (case requestedScope of Some t \<Rightarrow> if t \<in> {''admin'', ''user''} then t else ''all'' | None \<Rightarrow> ''all'');
          s1 = (case cookie r adminCookieName of
              Some t \<Rightarrow> if scope \<noteq> ''user''
                then s\<lparr>adminsessions := delete_rows (\<lambda>x. as_tokenHash x = hashToken E t) (adminsessions s)\<rparr> else s
            | None \<Rightarrow> s);
          s2 = (case cookie r directoryCookieName of
              Some t \<Rightarrow> if scope \<noteq> ''admin''
                then s1\<lparr>dirsessions := delete_rows (\<lambda>x. ds_tokenHash x = hashToken E t) (dirsessions s1)\<rparr> else s1
            | None \<Rightarrow> s1)
      in (s2, (if scope \<noteq> ''user'' then [adminCookieName] else []) @ (if scope \<noteq> ''admin'' then [directoryCookieName] else [])))"

definition newMfaSecret :: "bytes \<Rightarrow> string" where
  "newMfaSecret random = encodeBase32 random"

section \<open>Codes\<close>

lemma to_bits_length [simp]: "length (to_bits k n) = k"
  by (induction k arbitrary: n) simp_all

lemma of_bits_append_one: "of_bits (bs @ [b]) = 2 * of_bits bs + (if b then 1 else 0)"
  by (simp add: of_bits_def)

lemma of_bits_to_bits: "n < 2 ^ k \<Longrightarrow> of_bits (to_bits k n) = n"
proof (induction k arbitrary: n)
  case (Suc k)
  then have "of_bits (to_bits k (n div 2)) = n div 2" by (intro Suc.IH) simp
  then show ?case by (auto simp: of_bits_append_one)
qed (simp add: of_bits_def)

lemma of_bits_less: "of_bits bs < 2 ^ length bs"
proof (induction bs rule: rev_induct)
  case (snoc b bs)
  then show ?case by (simp add: of_bits_append_one)
qed (simp add: of_bits_def)

lemma to_bits_of_bits: "to_bits (length bs) (of_bits bs) = bs"
proof (induction bs rule: rev_induct)
  case (snoc b bs)
  then show ?case by (simp add: of_bits_append_one)
qed simp

lemma base32_index: "i < 32 \<Longrightarrow> index_of (base32Alphabet ! i) base32Alphabet = Some i \<and> upper_char (base32Alphabet ! i) = base32Alphabet ! i \<and>
    base32Alphabet ! i \<noteq> CHR ''=''"
proof -
  have "list_all (\<lambda>i. index_of (base32Alphabet ! i) base32Alphabet = Some i \<and> upper_char (base32Alphabet ! i) = base32Alphabet ! i \<and>
      base32Alphabet ! i \<noteq> CHR ''='') [0..<32]" by code_simp
  then show "i < 32 \<Longrightarrow> ?thesis" by (simp add: list_all_iff)
qed

text \<open>The bits behind the letters: those of the groups, each filled up to five.\<close>

abbreviation fill :: "bool list \<Rightarrow> bool list" where
  "fill p \<equiv> p @ replicate (5 - length p) False"

lemma base32_bits_groups:
  "\<forall>p\<in>set ps. length p \<le> 5 \<Longrightarrow> base32_bits (map (\<lambda>p. base32Alphabet ! of_bits (fill p)) ps) = Some (concat (map fill ps))"
proof (induction ps)
  case (Cons p ps)
  have five: "length (fill p) = 5" using Cons.prems by simp
  have "of_bits (fill p) < 32" using of_bits_less [of "fill p"] unfolding five by simp
  then have "index_of (base32Alphabet ! of_bits (fill p)) base32Alphabet = Some (of_bits (fill p))" using base32_index by blast
  moreover have "to_bits 5 (of_bits (fill p)) = fill p" using to_bits_of_bits [of "fill p"] unfolding five .
  ultimately show ?case using Cons by simp
qed simp

lemma chunks_fill: "length xs \<le> n \<Longrightarrow> \<exists>k<5. concat (map fill (chunks 5 n xs)) = xs @ replicate k False"
proof (induction n arbitrary: xs)
  case (Suc n)
  show ?case
  proof (cases "length xs < 5")
    case True
    show ?thesis
    proof (cases "xs = []")
      case False
      have "chunks 5 n (drop 5 xs) = []" using True by (cases n) simp_all
      then have "concat (map fill (chunks 5 (Suc n) xs)) = xs @ replicate (5 - length xs) False" using True False by simp
      moreover have "5 - length xs < 5" using False by (simp add: neq_Nil_conv)
      ultimately show ?thesis by blast
    qed (simp add: exI [of _ 0])
  next
    case False
    then have ne: "xs \<noteq> []" by auto
    have "length (drop 5 xs) \<le> n" using Suc.prems by simp
    then obtain k where "k < 5" "concat (map fill (chunks 5 n (drop 5 xs))) = drop 5 xs @ replicate k False" using Suc.IH by blast
    with False ne show ?thesis by (intro exI [of _ k]) (simp add: min_absorb2 flip: append_assoc)
  qed
qed simp

lemma chunks_short: "p \<in> set (chunks k n xs) \<Longrightarrow> length p \<le> k"
  by (induction n arbitrary: xs) (auto split: if_splits)

lemma full_chunks_bytes:
  "k < 8 \<Longrightarrow> length bs < n \<Longrightarrow> full_chunks 8 n (concat (map (to_bits 8) bs) @ replicate k False) = map (to_bits 8) bs"
proof (induction bs arbitrary: n)
  case Nil
  then show ?case by (cases n) simp_all
next
  case (Cons b bs)
  then obtain m where "n = Suc m" "length bs < m" by (cases n) auto
  with Cons show ?case by simp
qed

lemma dropWhile_none: "\<forall>c\<in>set xs. c \<noteq> y \<Longrightarrow> dropWhile (\<lambda>c. c = y) xs = xs"
  by (cases xs) simp_all

text \<open>Secrets survive their text form. Decoding the base 32 text of any bytes gives these bytes, so that the
  secret shown to an authenticator is the one that codes are checked with.\<close>

theorem base32_roundtrip: "decodeBase32 (encodeBase32 v) = Some v"
proof -
  let ?bits = "concat (map (\<lambda>b. to_bits 8 (unat b)) v)"
  let ?ps = "chunks 5 (length ?bits) ?bits"
  let ?letters = "map (\<lambda>p. base32Alphabet ! of_bits (fill p)) ?ps"
  have short: "\<forall>p\<in>set ?ps. length p \<le> 5" using chunks_short by blast
  have small: "of_bits (fill p) < 32" if "p \<in> set ?ps" for p
    using of_bits_less [of "fill p"] short that by simp
  have clean: "map upper_char (rev (dropWhile (\<lambda>c. c = CHR ''='') (rev ?letters))) = ?letters"
  proof -
    have "\<forall>c\<in>set (rev ?letters). c \<noteq> CHR ''=''" using small base32_index by auto
    then have "dropWhile (\<lambda>c. c = CHR ''='') (rev ?letters) = rev ?letters" by (rule dropWhile_none)
    then show ?thesis using small base32_index by simp
  qed
  obtain k where k: "k < 5" "concat (map fill ?ps) = ?bits @ replicate k False" using chunks_fill [of ?bits "length ?bits"] by blast
  have bits: "base32_bits ?letters = Some (?bits @ replicate k False)" using base32_bits_groups [OF short] k(2) by simp
  have len: "length ?bits = 8 * length v" by (induction v) simp_all
  have dec: "map (\<lambda>b. word_of_nat (of_bits b)) (full_chunks 8 (length (?bits @ replicate k False)) (?bits @ replicate k False)) = v"
  proof (cases "v = []")
    case True
    then show ?thesis using k(1) by (cases k) simp_all
  next
    case False
    then have "length v < length (?bits @ replicate k False)" using len by (cases v) simp_all
    then have "full_chunks 8 (length (?bits @ replicate k False)) (?bits @ replicate k False) = map (to_bits 8) (map unat v)"
      using full_chunks_bytes [of k "map unat v" "length (?bits @ replicate k False)"] k(1) by (simp add: comp_def)
    moreover have "of_bits (to_bits 8 (unat b)) = unat b" for b :: "8 word" using unsigned_less [of b] by (intro of_bits_to_bits) simp
    ultimately show ?thesis by (simp add: comp_def map_idI)
  qed
  show ?thesis unfolding decodeBase32_def encodeBase32_def Let_def clean bits using dec by simp
qed

text \<open>A code is always six digits. Whatever the secret, the time and the keyed digest, the code that is compared has
  exactly six decimal digits, and what has another form is refused without any comparison.\<close>

theorem totp_six_digits:
  "(\<forall>code. totp hmac secret t = Some code \<longrightarrow> six_digits code) \<and> (\<not> six_digits c \<longrightarrow> verifyTotp hmac t secret c = Inr False)"
proof -
  have "six_digits (padStart 6 CHR ''0'' (string_of_nat (n mod 1000000)))" for n
  proof -
    have "length (string_of_nat (n mod 1000000)) \<le> 6" by (rule length_string_of_nat) simp_all
    moreover have "is_digit CHR ''0''" by (simp add: is_digit_def)
    ultimately show ?thesis
      using list_all_digits_string_of_nat [of "n mod 1000000", unfolded list_all_iff] by (auto simp: six_digits_def padStart_def list_all_iff)
  qed
  then show ?thesis by (auto simp: totp_def verifyTotp_def Let_def split: option.splits if_splits)
qed

section \<open>Passwords\<close>

lemma base64_index: "i < 64 \<Longrightarrow> base64_value (base64_alphabet ! i) = Some i \<and> base64_alphabet ! i \<noteq> CHR ''='' \<and> base64_alphabet ! i \<noteq> CHR ''$''"
proof -
  have "list_all (\<lambda>i. base64_value (base64_alphabet ! i) = Some i \<and> base64_alphabet ! i \<noteq> CHR ''='' \<and> base64_alphabet ! i \<noteq> CHR ''$'') [0..<64]"
    by code_simp
  then show "i < 64 \<Longrightarrow> ?thesis" by (simp add: list_all_iff)
qed

lemma base64_values:
  assumes "\<forall>i\<in>set is. i < 64"
  shows "List.map_filter base64_value (takeWhile (\<lambda>c. c \<noteq> CHR ''='') (map (\<lambda>i. base64_alphabet ! i) is @ rest)) =
    is @ List.map_filter base64_value (takeWhile (\<lambda>c. c \<noteq> CHR ''='') rest)"
  using assms by (induction "is") (simp_all add: base64_index map_filter_simps)

lemma base64_roundtrip: "\<forall>n\<in>set ns. n < 256 \<Longrightarrow> from_base64 (base64 ns) = ns"
proof (induction ns rule: base64.induct)
  case (1 a b c rest)
  let ?is = "[a div 4, (a mod 4) * 16 + b div 16, (b mod 16) * 4 + c div 64, c mod 64]"
  have s: "\<forall>i\<in>set ?is. i < 64" using 1(2) by auto
  have "from_base64 (base64 (a # b # c # rest)) = base64_groups (?is @ List.map_filter base64_value (takeWhile (\<lambda>c. c \<noteq> CHR ''='') (base64 rest)))"
    using base64_values [OF s, of "base64 rest"] by (simp add: from_base64_def)
  moreover have "a div 4 * 4 + ((a mod 4) * 16 + b div 16) div 16 = a" "((a mod 4) * 16 + b div 16) mod 16 * 16 + ((b mod 16) * 4 + c div 64) div 4 = b"
    "((b mod 16) * 4 + c div 64) mod 4 * 64 + c mod 64 = c" using 1(2) by auto
  ultimately show ?case using 1 by (simp add: from_base64_def)
next
  case (2 a b)
  let ?is = "[a div 4, (a mod 4) * 16 + b div 16, (b mod 16) * 4]"
  have s: "\<forall>i\<in>set ?is. i < 64" using 2 by auto
  have "a div 4 * 4 + ((a mod 4) * 16 + b div 16) div 16 = a" "((a mod 4) * 16 + b div 16) mod 16 * 16 + ((b mod 16) * 4) div 4 = b"
    using 2 by auto
  then show ?case using base64_values [OF s, of "''=''"] by (simp add: from_base64_def map_filter_simps)
next
  case (3 a)
  let ?is = "[a div 4, (a mod 4) * 16]"
  have s: "\<forall>i\<in>set ?is. i < 64" using 3 by auto
  have "a div 4 * 4 + ((a mod 4) * 16) div 16 = a" by presburger
  then show ?case using base64_values [OF s, of "''==''"] by (simp add: from_base64_def map_filter_simps)
next
  case 4
  then show ?case by (simp add: from_base64_def map_filter_simps)
qed

lemma base64_letters: "\<forall>n\<in>set ns. n < 256 \<Longrightarrow> set (base64 ns) \<subseteq> insert CHR ''='' ((!) base64_alphabet ` {..<64})"
proof (induction ns rule: base64.induct)
  case (1 a b c rest)
  have "{a div 4, (a mod 4) * 16 + b div 16, (b mod 16) * 4 + c div 64, c mod 64} \<subseteq> {..<64}" using 1(2) by auto
  with 1 show ?case by simp
next
  case (2 a b)
  have "{a div 4, (a mod 4) * 16 + b div 16, (b mod 16) * 4} \<subseteq> {..<64}" using 2 by auto
  then show ?case by simp
next
  case (3 a)
  have "{a div 4, (a mod 4) * 16} \<subseteq> {..<64}" using 3 by auto
  then show ?case by simp
qed simp

lemma base64_plain:
  assumes "\<forall>n\<in>set ns. n < 256"
  shows "\<not> list_ex (\<lambda>c. c = CHR ''$'') (base64 ns)"
proof
  assume "list_ex (\<lambda>c. c = CHR ''$'') (base64 ns)"
  then have "CHR ''$'' \<in> (!) base64_alphabet ` {..<64}" using base64_letters [OF assms] by (auto simp: list_ex_iff)
  then obtain i where "i < 64" "base64_alphabet ! i = CHR ''$''" by force
  with base64_index show False by blast
qed

lemma base64_Nil_iff: "base64 ns = [] \<longleftrightarrow> ns = []"
  by (induction ns rule: base64.induct) simp_all

text \<open>A stored password accepts its own password and what derives the same bytes, nothing else.\<close>

theorem password_roundtrip:
  assumes "salt \<noteq> []" and "\<forall>n\<in>set salt. n < 256" and "\<And>p. length (scrypt p salt 64) = 64 \<and> (\<forall>n\<in>set (scrypt p salt 64). n < 256)"
  shows "verifyPassword scrypt p' (Some (hashPassword scrypt salt p)) \<longleftrightarrow> scrypt p' salt 64 = scrypt p salt 64"
proof -
  let ?d = "scrypt p salt 64"
  have d: "length ?d = 64" "\<forall>n\<in>set ?d. n < 256" using assms(3) by auto
  have "\<not> list_ex (\<lambda>c. c = CHR ''$'') ''scrypt''" by simp
  then have "split_on (\<lambda>c. c = CHR ''$'') (''scrypt'' @ CHR ''$'' # base64 salt @ CHR ''$'' # base64 ?d) = [''scrypt'', base64 salt, base64 ?d]"
    using base64_plain [OF assms(2)] base64_plain [OF d(2)] by (simp only: split_on_append split_on_plain simp_thms)
  moreover have "hashPassword scrypt salt p = ''scrypt'' @ CHR ''$'' # base64 salt @ CHR ''$'' # base64 ?d" by (simp add: hashPassword_def)
  moreover have "base64 salt \<noteq> []" "base64 ?d \<noteq> []" using assms(1) d(1) by (auto simp: base64_Nil_iff)
  ultimately show ?thesis
    using base64_roundtrip [OF assms(2)] base64_roundtrip [OF d(2)] d(1) by (simp add: verifyPassword_def or_null_def Let_def)
qed

theorem password_roundtrip_witness:
  "verifyPassword (\<lambda>p salt n. replicate n (length p mod 256)) ''secret'' (Some (hashPassword (\<lambda>p salt n. replicate n (length p mod 256)) [7] ''secret'')) \<and>
   \<not> verifyPassword (\<lambda>p salt n. replicate n (length p mod 256)) ''other'' (Some (hashPassword (\<lambda>p salt n. replicate n (length p mod 256)) [7] ''secret''))"
  using password_roundtrip [of "[7]" "\<lambda>p salt n. replicate n (length p mod 256)"] by simp

section \<open>Signing in\<close>

definition account_state :: "db \<Rightarrow> string \<Rightarrow> account_row option" where
  "account_state s u = find_first (\<lambda>a. ac_username a = u) (accounts s)"

lemma find_update_own:
  assumes "find_first (\<lambda>a. ac_username a = u) rows = Some a" and "\<And>y. ac_username (f y) = ac_username y"
  shows "find_first (\<lambda>a. ac_username a = u) (update_rows (\<lambda>y. ac_id y = ac_id a) f rows) = Some (f a)"
  using assms(1)
proof (induction rows)
  case (Cons r rows)
  then show ?case by (auto simp: assms(2))
qed simp

lemma failed_login_simps [simp]: "ac_username (failed_login E a y) = ac_username y" "ac_id (failed_login E a y) = ac_id y"
  "ac_source (failed_login E a y) = ac_source y" "ac_active (failed_login E a y) = ac_active y"
  "ac_validFrom (failed_login E a y) = ac_validFrom y" "ac_validUntil (failed_login E a y) = ac_validUntil y"
  "ac_passwordHash (failed_login E a y) = ac_passwordHash y"
  by (simp_all add: failed_login_def Let_def)

lemma password_valid_failed [simp]: "password_valid E' D (failed_login E a y) p = password_valid E' D y p"
  by (simp add: password_valid_def)

text \<open>A sign-in with a wrong password counts, and the fifth one locks.\<close>

lemma login_wrong:
  assumes "account_state s u = Some a" and "ac_source a = LOCAL" and "\<not> some_and (\<lambda>t. now E < t) (ac_lockedUntil a)" and "\<not> password_valid E D a p"
  shows "account_state (fst (login E D s u p c tok r)) u = Some (failed_login E a a)"
  using find_update_own [of u "accounts s" a "failed_login E a"] assms by (simp add: login_def account_state_def)

lemma login_locked:
  "account_state s u = Some a \<Longrightarrow> some_and (\<lambda>t. now E < t) (ac_lockedUntil a) \<Longrightarrow>
     login E D s u p c tok r = (s, Inl (Unauthorized ''Account temporarily locked''))"
  by (simp add: login_def account_state_def)

definition attempts :: "auth_io \<Rightarrow> string \<Rightarrow> db \<Rightarrow> (env \<times> string \<times> string option \<times> string \<times> http_request) list \<Rightarrow> db" where
  "attempts D u s tries = foldl (\<lambda>s (E, p, c, tok, r). fst (login E D s u p c tok r)) s tries"

lemma attempts_count:
  assumes "account_state s u = Some a" and "ac_source a = LOCAL" and "ac_lockedUntil a = None" and "\<forall>(E, p, c, tok, r)\<in>set tries. \<not> password_valid E D a p"
    and "0 \<le> ac_failedLoginCount a" and "ac_failedLoginCount a + int (length tries) < 5"
  shows "\<exists>b. account_state (attempts D u s tries) u = Some b \<and> ac_failedLoginCount b = ac_failedLoginCount a + int (length tries) \<and>
    ac_lockedUntil b = None \<and> ac_source b = LOCAL \<and> (\<forall>E p. password_valid E D b p = password_valid E D a p)"
  using assms
proof (induction tries arbitrary: s a)
  case (Cons x tries)
  obtain E p c tok r where x: "x = (E, p, c, tok, r)" by (cases x)
  let ?b = "failed_login E a a"
  have b: "account_state (fst (login E D s u p c tok r)) u = Some ?b"
    by (rule login_wrong) (use Cons.prems x in auto)
  have count: "ac_failedLoginCount ?b = ac_failedLoginCount a + 1" "ac_lockedUntil ?b = None"
    using Cons.prems(6) by (simp_all add: failed_login_def Let_def)
  have "\<exists>b. account_state (attempts D u (fst (login E D s u p c tok r)) tries) u = Some b \<and>
      ac_failedLoginCount b = ac_failedLoginCount ?b + int (length tries) \<and> ac_lockedUntil b = None \<and> ac_source b = LOCAL \<and>
      (\<forall>E p. password_valid E D b p = password_valid E D ?b p)"
    by (rule Cons.IH [OF b]) (use Cons.prems count in auto)
  then show ?case by (simp add: attempts_def x count add.assoc)
qed (simp add: attempts_def)

text \<open>C37: five wrong passwords lock the account. After five sign-ins in a row with wrong passwords the account refuses
  everybody, also with the right password and code, for fifteen minutes, and these refusals change
  nothing.\<close>

theorem login_lockout:
  assumes "account_state s u = Some a" and "ac_source a = LOCAL" and "ac_lockedUntil a = None" and "ac_failedLoginCount a = 0"
    and "length tries = 4" and "\<forall>(E, p, c, tok, r)\<in>set (tries @ [(E5, p5, c5, tok5, r5)]). \<not> password_valid E D a p"
    and "now E' < now E5 + 15 * 60 * 1000"
  shows "login E' D (attempts D u s (tries @ [(E5, p5, c5, tok5, r5)])) u p c tok r =
    (attempts D u s (tries @ [(E5, p5, c5, tok5, r5)]), Inl (Unauthorized ''Account temporarily locked''))"
proof -
  obtain b where b: "account_state (attempts D u s tries) u = Some b" "ac_failedLoginCount b = 4" "ac_lockedUntil b = None" "ac_source b = LOCAL"
    "\<forall>E p. password_valid E D b p = password_valid E D a p"
    using attempts_count [OF assms(1-3), of tries D] assms(4-6) by auto
  let ?c = "failed_login E5 b b"
  have c: "account_state (attempts D u s (tries @ [(E5, p5, c5, tok5, r5)])) u = Some ?c"
    using login_wrong [OF b(1,4), of E5 D p5 c5 tok5 r5] b(3,5) assms(6) by (simp add: attempts_def)
  have "ac_lockedUntil ?c = Some (now E5 + 15 * 60 * 1000)" using b(2) by (simp add: failed_login_def Let_def)
  then show ?thesis using assms(7) by (intro login_locked [OF c]) simp
qed

text \<open>Wrong one-time codes are not counted. Who knows the password may try any number of codes: every refusal leaves
  the database as it was, the account is never locked, and the first right code gives the session.\<close>

theorem mfa_unlimited:
  assumes "account_state s u = Some a" and "ac_mfaEnabled a" and "\<forall>(E, p, c, tok, r)\<in>set tries. \<not> some_and (\<lambda>t. now E < t) (ac_lockedUntil a) \<and>
      password_valid E D a p \<and> mfa_valid E D a c = Inr False"
    and "\<not> some_and (\<lambda>t. now E' < t) (ac_lockedUntil a)" and "password_valid E' D a p'" and "mfa_valid E' D a c' = Inr True"
  shows "attempts D u s tries = s \<and> snd (login E' D (attempts D u s tries) u p' c' tok' r') = Inr (tok', True)"
proof -
  have "attempts D u s tries = s" using assms(3)
  proof (induction tries)
    case (Cons x tries)
    obtain E p c tok r where x: "x = (E, p, c, tok, r)" by (cases x)
    have "fst (login E D s u p c tok r) = s" using Cons.prems assms(1) by (simp add: x login_def account_state_def)
    with Cons show ?case by (simp add: attempts_def x)
  qed (simp add: attempts_def)
  then show ?thesis using assms(1,2,4-6) by (simp add: login_def account_state_def)
qed

section \<open>Sessions\<close>

text \<open>An administrator's session is what it says. An identity comes only from the cookie of an unexpired session of an
  active account within its validity, and it has administrator rights exactly when the account is not
  a moderator's.\<close>

theorem admin_session_sound:
  assumes "adminSessionIdentity E s r = (s', Some i)"
  shows "\<exists>token x a. cookie r adminCookieName = Some token \<and> x \<in> set (adminsessions s) \<and> as_tokenHash x = hashToken E token \<and>
    now E < as_expiresAt x \<and> a \<in> set (accounts s) \<and> ac_id a = as_adminAccountId x \<and> ac_active a \<and>
    within_validity E (ac_validFrom a) (ac_validUntil a) \<and> id_username i = ac_username a \<and>
    (isAdminIdentity (id_groups i) \<longleftrightarrow> ac_role a \<noteq> MODERATOR)"
proof -
  from assms obtain token x a where t: "cookie r adminCookieName = Some token" "session_account E s token = Some (x, a)" "i = local_identity x a"
    by (auto simp: adminSessionIdentity_def bind_eq_Some_conv split: option.splits)
  then have f: "find_first (\<lambda>x. as_tokenHash x = hashToken E token) (adminsessions s) = Some x"
      "find_first (\<lambda>a. ac_id a = as_adminAccountId x) (accounts s) = Some a"
    and v: "now E < as_expiresAt x" "ac_active a" "within_validity E (ac_validFrom a) (ac_validUntil a)"
    by (auto simp: session_account_def bind_eq_Some_conv split: if_splits)
  have "isAdminIdentity (id_groups i) \<longleftrightarrow> ac_role a \<noteq> MODERATOR" "id_username i = ac_username a"
    by (auto simp: t(3) local_identity_def isAdminIdentity_def)
  then show ?thesis
    by (intro exI [of _ token] exI [of _ x] exI [of _ a]) (use t(1) v find_first_Some [OF f(1)] find_first_Some [OF f(2)] in simp)
qed

text \<open>Signing out ends the session and no other. After it the cookie gives no identity, now or later, and the sessions with
  other tokens are kept.\<close>

theorem logout_ends_session:
  assumes "scope \<noteq> Some ''user''" and "sha256 E' = sha256 E" and "cookie r adminCookieName = Some token"
  shows "snd (adminSessionIdentity E' (fst (logout E s r scope)) r) = None \<and>
    adminsessions (fst (logout E s r scope)) = filter (\<lambda>x. as_tokenHash x \<noteq> hashToken E token) (adminsessions s)"
proof -
  have kept: "adminsessions (fst (logout E s r scope)) = filter (\<lambda>x. as_tokenHash x \<noteq> hashToken E token) (adminsessions s)"
    using assms(1,3) by (auto simp: logout_def Let_def delete_rows_def split: option.split)
  then have "find_first (\<lambda>x. as_tokenHash x = hashToken E token) (adminsessions (fst (logout E s r scope))) = None"
    by (simp add: find_first_None_iff)
  with kept assms(2,3) show ?thesis by (simp add: adminSessionIdentity_def session_account_def hashToken_def)
qed

section \<open>Roles\<close>

lemma role_groups_admin: "''ISMS-LOCAL-ADMINS'' \<in> set (role_groups account grp) \<longleftrightarrow>
    some_and (\<lambda>a. ac_role a \<noteq> MODERATOR) account \<or> some_and (\<lambda>g. ag_role g \<noteq> MODERATOR) grp"
  by (auto simp: role_groups_def Let_def)

lemma with_roles_admin: "isAdminIdentity (id_groups (with_roles s i account grp)) \<longleftrightarrow>
    isAdminIdentity (id_groups i) \<or> some_and (\<lambda>a. ac_role a \<noteq> MODERATOR) account \<or> some_and (\<lambda>g. ag_role g \<noteq> MODERATOR) grp"
  using role_groups_admin [of account grp] by (auto simp: with_roles_def isAdminIdentity_def Let_def)

text \<open>Who becomes an administrator. A directory session has administrator rights exactly when an active account in its
  validity, or such a directory group of the user, has a role other than moderator; or when a group
  of the user in the directory itself carries the reserved name.\<close>

theorem directory_roles:
  assumes "id_source i = DirectorySession" and "enrichSsoIdentity E D X c s i force = (c', s', Inr i')"
  shows "c' = c \<and> (isAdminIdentity (id_groups i') \<longleftrightarrow> isAdminIdentity (id_groups i) \<or>
    (\<exists>a. directory_account E s (id_username i) = Some a \<and> ac_role a \<noteq> MODERATOR) \<or>
    (id_groups i \<noteq> [] \<and> (\<exists>g. directory_group E s (id_groups i) = Some g \<and> ag_role g \<noteq> MODERATOR)))"
proof -
  let ?g = "if id_groups i = [] then None else directory_group E s (id_groups i)"
  have "c' = c" and i': "i' = with_roles s i (directory_account E s (id_username i)) ?g"
    using assms by (auto simp: enrichSsoIdentity_def Let_def split: if_splits)
  then show ?thesis unfolding i' with_roles_admin by (auto simp: some_and_iff)
qed

section \<open>A portal for the witnesses\<close>

definition sample_account :: account_row where
  "sample_account = \<lparr>ac_id = ''a1'', ac_username = ''root'', ac_displayName = ''Root'', ac_source = LOCAL,
     ac_passwordHash = Some ''scrypt$Bw==$BgYG'', ac_profilePhoto = None, ac_mfaSecret = Some ''ABCDEFGH'', ac_mfaEnabled = True,
     ac_active = True, ac_primary = True, ac_role = ADMIN, ac_canManageDocuments = True, ac_canPublishDocuments = True,
     ac_canDeleteDocuments = True, ac_justification = None, ac_validFrom = None, ac_validUntil = None, ac_lastAuthorizedAt = None,
     ac_lastReviewedAt = None, ac_reviewDueAt = None, ac_failedLoginCount = 0, ac_lockedUntil = None\<rparr>"

definition sample_session :: adminsession_row where
  "sample_session = \<lparr>as_id = ''x1'', as_tokenHash = ''tok'', as_adminAccountId = ''a1'', as_expiresAt = 200000, as_lastUsedAt = 900,
     as_sourceIp = None, as_userAgent = None\<rparr>"

definition sample_auth_db :: db where
  "sample_auth_db = sample_db\<lparr>accounts := [sample_account], adminsessions := [sample_session]\<rparr>"

text \<open>The derived key repeats the length of the password; the keyed digest is zero, so that each code is \<open>000000\<close>.\<close>

definition sample_auth_io :: auth_io where
  "sample_auth_io = \<lparr>di_resolve = (\<lambda>_. Some None), di_authenticate = (\<lambda>_ _. Inl (Unauthorized ''directory'')), di_mailbox = (\<lambda>_. Inr ()),
     di_scrypt = (\<lambda>p salt n. replicate n (length p)), di_hmac = (\<lambda>_ _. replicate 20 0), di_isIP = (\<lambda>_. False)\<rparr>"

definition sample_late :: env where
  "sample_late = sample_env\<lparr>now := 100000\<rparr>"

definition sample_http :: "string \<Rightarrow> http_request" where
  "sample_http cookies = \<lparr>hr_method = ''GET'', hr_originalUrl = ''/admin'', hr_headers = (\<lambda>h. if h = ''cookie'' then Some (HText cookies) else None),
     hr_remoteAddress = None, hr_refresh = None\<rparr>"

lemma sample_password: "password_valid sample_late sample_auth_io sample_account p \<longleftrightarrow> length p = 6"
proof -
  have "split_on (\<lambda>c. c = CHR ''$'') ''scrypt$Bw==$BgYG'' = [''scrypt'', ''Bw=='', ''BgYG'']" by code_simp
  moreover have "from_base64 ''BgYG'' = [6, 6, 6]" by code_simp
  ultimately show ?thesis
    by (simp add: password_valid_def sample_account_def sample_auth_io_def verifyPassword_def or_null_def within_validity_def null_or_def Let_def eval_nat_numeral)
qed

lemma sample_totp: "0 \<le> t \<Longrightarrow> totp (di_hmac sample_auth_io) ''ABCDEFGH'' t = Some ''000000''"
proof -
  assume t: "0 \<le> t"
  have "decodeBase32 ''ABCDEFGH'' \<noteq> None" by code_simp
  then obtain k where k: "decodeBase32 ''ABCDEFGH'' = Some k" by blast
  have "padStart 6 CHR ''0'' (string_of_nat 0) = ''000000''" by code_simp
  moreover have "bytes_value 0 (replicate 4 0) = 0" by (simp add: bytes_value_def eval_nat_numeral)
  ultimately show ?thesis using k t by (simp add: totp_def sample_auth_io_def Let_def)
qed

lemma sample_code: "mfa_valid sample_late sample_auth_io sample_account (Some ''000000'') = Inr True"
  "mfa_valid sample_late sample_auth_io sample_account (Some ''123456'') = Inr False"
proof -
  have "six_digits ''000000''" "six_digits ''123456''" by code_simp+
  then show "mfa_valid sample_late sample_auth_io sample_account (Some ''000000'') = Inr True"
    "mfa_valid sample_late sample_auth_io sample_account (Some ''123456'') = Inr False"
    by (simp_all add: mfa_valid_def sample_account_def or_null_def sample_late_def verifyTotp_def sample_totp)
qed

lemma sample_account_state: "account_state sample_auth_db ''root'' = Some sample_account"
  by (simp add: account_state_def sample_auth_db_def sample_account_def)

lemma sample_unlocked: "ac_lockedUntil sample_account = None" "ac_source sample_account = LOCAL" "ac_failedLoginCount sample_account = 0"
  "ac_mfaEnabled sample_account"
  by (simp_all add: sample_account_def)

theorem totp_six_digits_witness:
  "totp (di_hmac sample_auth_io) ''ABCDEFGH'' 100000 = Some ''000000'' \<and> six_digits ''000000'' \<and>
   verifyTotp (di_hmac sample_auth_io) 100000 ''ABCDEFGH'' ''12345'' = Inr False"
proof -
  have "totp (di_hmac sample_auth_io) ''ABCDEFGH'' 100000 = Some ''000000''" by (simp add: sample_totp)
  moreover have "\<not> six_digits ''12345''" by code_simp
  ultimately show ?thesis using totp_six_digits [of "di_hmac sample_auth_io" "''ABCDEFGH''" 100000 "''12345''"] by simp
qed

theorem login_lockout_witness:
  "let wrong = (sample_late, ''guess'', None, ''t'', sample_http []); s = attempts sample_auth_io ''root'' sample_auth_db (replicate 4 wrong @ [wrong])
   in login sample_late sample_auth_io s ''root'' ''secret'' (Some ''000000'') ''tok2'' (sample_http []) =
     (s, Inl (Unauthorized ''Account temporarily locked''))"
proof -
  let ?w = "(sample_late, ''guess'', None :: string option, ''t'', sample_http [])"
  have "\<forall>(E, p, c, tok, r)\<in>set (replicate 4 ?w @ [?w]). \<not> password_valid E sample_auth_io sample_account p"
    by (auto simp: sample_password)
  then show ?thesis unfolding Let_def
    by (intro login_lockout [OF sample_account_state sample_unlocked(2,1,3), of "replicate 4 ?w" sample_late "''guess''" None "''t''" "sample_http []"]) simp_all
qed

theorem mfa_unlimited_witness:
  "let tries = replicate 7 (sample_late, ''secret'', Some ''123456'', ''t'', sample_http [])
   in attempts sample_auth_io ''root'' sample_auth_db tries = sample_auth_db \<and>
      snd (login sample_late sample_auth_io (attempts sample_auth_io ''root'' sample_auth_db tries) ''root'' ''secret'' (Some ''000000'') ''tok2'' (sample_http [])) =
        Inr (''tok2'', True)"
  unfolding Let_def
  by (rule mfa_unlimited [OF sample_account_state sample_unlocked(4)]) (auto simp: sample_password sample_code sample_unlocked)

lemma sample_cookie: "cookie (sample_http ''isms_admin_session=tok'') adminCookieName = Some ''tok''"
  by code_simp

theorem admin_session_sound_witness:
  "\<exists>s' i. adminSessionIdentity sample_late sample_auth_db (sample_http ''isms_admin_session=tok'') = (s', Some i) \<and>
     id_username i = ''root'' \<and> isAdminIdentity (id_groups i)"
proof -
  have *: "adminSessionIdentity sample_late sample_auth_db (sample_http ''isms_admin_session=tok'') =
      (touch_session sample_late sample_auth_db sample_session sample_account, Some (local_identity sample_session sample_account))"
    by (simp add: adminSessionIdentity_def sample_cookie session_account_def sample_auth_db_def sample_session_def sample_account_def
        sample_late_def sample_env_def hashToken_def within_validity_def null_or_def)
  have "\<exists>a\<in>set (accounts sample_auth_db). id_username (local_identity sample_session sample_account) = ac_username a \<and>
      (isAdminIdentity (id_groups (local_identity sample_session sample_account)) \<longleftrightarrow> ac_role a \<noteq> MODERATOR)"
    using admin_session_sound [OF *] by blast
  then show ?thesis unfolding * by (simp add: sample_auth_db_def sample_account_def)
qed

theorem logout_ends_session_witness:
  "let r = sample_http ''isms_admin_session=tok''; s = fst (logout sample_late sample_auth_db r None)
   in snd (adminSessionIdentity sample_late s r) = None \<and> adminsessions s = []"
  unfolding Let_def using logout_ends_session [OF _ _ sample_cookie, of None sample_late sample_late sample_auth_db]
  by (simp add: sample_auth_db_def sample_session_def hashToken_def sample_late_def sample_env_def)

theorem directory_roles_witness:
  "\<exists>i'. snd (snd (enrichSsoIdentity sample_late sample_auth_io \<lparr>so_enrichment = None, so_ttl = None, so_negativeTtl = None\<rparr> []
      (sample_auth_db\<lparr>accounts := [sample_account\<lparr>ac_source := DIRECTORY\<rparr>]\<rparr>) (sample_identity ''ROOT'' [''Staff'']) False)) = Inr i' \<and>
    isAdminIdentity (id_groups i')"
proof -
  let ?s = "sample_auth_db\<lparr>accounts := [sample_account\<lparr>ac_source := DIRECTORY\<rparr>]\<rparr>" and ?X = "\<lparr>so_enrichment = None, so_ttl = None, so_negativeTtl = None\<rparr>"
  let ?i = "sample_identity ''ROOT'' [''Staff'']"
  have src: "id_source ?i = DirectorySession" by (simp add: sample_identity_def)
  obtain c' s' i' where e: "enrichSsoIdentity sample_late sample_auth_io ?X [] ?s ?i False = (c', s', Inr i')"
    using src by (simp add: enrichSsoIdentity_def Let_def)
  have "toLowerCase ''root'' = toLowerCase ''ROOT''" by code_simp
  then have "directory_account sample_late ?s (id_username ?i) = Some (sample_account\<lparr>ac_source := DIRECTORY\<rparr>)"
    by (simp add: directory_account_def sample_identity_def sample_account_def within_validity_def null_or_def)
  then show ?thesis using directory_roles [OF src e] e by (simp add: sample_account_def)
qed

end
