(* ===== verification/Identity.thy ===== *)
theory Identity
  imports Auth
begin

text \<open>
  Who a request comes from (\<^verbatim>\<open>apps/api/src/identity.provider.ts\<close>, \<^verbatim>\<open>identity.middleware.ts\<close>, \<^verbatim>\<open>sso-mailbox-policy.ts\<close>): the headers of the
  identity proxy and the ranges of addresses they are believed from, the policy on mailboxes with its
  cache, and the middleware that gives every request its identity or refuses it. The answers of
  the directory service behind the policy are parameters.
\<close>

section \<open>Addresses\<close>

unbundle bit_operations_syntax

definition address_part :: "string \<Rightarrow> int option" where
  "address_part p =
     (case js_number p of
        Some (m, d) \<Rightarrow> if 10 ^ d dvd m \<and> 0 \<le> m div 10 ^ d \<and> m div 10 ^ d \<le> 255 then Some (m div 10 ^ d) else None
      | None \<Rightarrow> None)"

definition ipv4ToNumber :: "string \<Rightarrow> 32 word option" where
  "ipv4ToNumber v =
     (let normalized = (if startsWith v ''::ffff:'' then drop 7 v else v);
          parts = map address_part (split_on (\<lambda>c. c = CHR ''.'') normalized)
      in if length parts \<noteq> 4 \<or> None \<in> set parts then None
         else Some (foldl (\<lambda>result part. push_bit 8 result OR word_of_int (the part)) 0 parts))"

text \<open>The mask of a prefix: \<open>NaN\<close> shifts by nothing, a fraction is cut off after the subtraction.\<close>

definition prefix_mask :: "(int \<times> nat) option \<Rightarrow> 32 word" where
  "prefix_mask prefix =
     (case prefix of
        None \<Rightarrow> - 1
      | Some (m, d) \<Rightarrow> if m = 0 then 0 else push_bit (nat ((32 * 10 ^ d - m) div 10 ^ d)) (- 1))"

definition cidrContains :: "string \<Rightarrow> string \<Rightarrow> bool" where
  "cidrContains cidr address =
     (let parts = split_on (\<lambda>c. c = CHR ''/'') (trim cidr);
          prefix = js_number (if 1 < length parts then parts ! 1 else ''32'')
      in case (ipv4ToNumber (hd parts), ipv4ToNumber address) of
           (Some networkNumber, Some addressNumber) \<Rightarrow>
             if some_and (\<lambda>(m, d). m < 0 \<or> 32 * 10 ^ d < m) prefix then False
             else networkNumber AND prefix_mask prefix = addressNumber AND prefix_mask prefix
         | _ \<Rightarrow> False)"

definition hasControlCharacters :: "string \<Rightarrow> bool" where
  "hasControlCharacters v = list_ex (\<lambda>c. of_char c \<le> (31::nat) \<or> of_char c = (127::nat)) v"

section \<open>The identity proxy\<close>

definition supports :: "http_request \<Rightarrow> bool" where
  "supports r = (header_text r ''x-auth-mail'' \<noteq> None \<or> header_text r ''x-auth-groups'' \<noteq> None)"

definition normalizedGroups :: "string \<Rightarrow> string list" where
  "normalizedGroups gs =
     (let values = filter (\<lambda>g. g \<noteq> []) (map trim (split_on (\<lambda>c. c = CHR '';'' \<or> c = CHR '','') gs))
      in map ((!) values) (filter (\<lambda>k. \<not> list_ex (\<lambda>l. toLowerCase (values ! l) = toLowerCase (values ! k)) [0..<k]) [0..<length values]))"

definition trusted_proxy :: "string option \<Rightarrow> http_request \<Rightarrow> bool" where
  "trusted_proxy cidrsSetting r =
     (let cidrs = filter (\<lambda>v. v \<noteq> []) (map trim (split_on (\<lambda>c. c = CHR '','') (case cidrsSetting of None \<Rightarrow> [] | Some t \<Rightarrow> t)));
          address = (case hr_remoteAddress r of None \<Rightarrow> [] | Some a \<Rightarrow> a)
      in list_ex (\<lambda>cidr. cidrContains cidr address) cidrs)"

definition header_string :: "header_value option \<Rightarrow> string \<Rightarrow> string" where
  "header_string h fallback =
     (case h of None \<Rightarrow> fallback | Some (HText t) \<Rightarrow> (if t = [] then fallback else t) | Some (HList ts) \<Rightarrow> join '','' ts)"

definition proxy_wellformed :: "string \<Rightarrow> string \<Rightarrow> string option \<Rightarrow> string list \<Rightarrow> bool" where
  "proxy_wellformed username displayName gs normalized =
     (\<not> (username = [] \<or> 255 < length username \<or> CHR ''@'' \<notin> set username \<or> displayName = [] \<or> 255 < length displayName \<or>
         hasControlCharacters displayName \<or> (case gs of None \<Rightarrow> False | Some g \<Rightarrow> 8192 < length g) \<or> 512 < length normalized \<or>
         list_ex (\<lambda>g. 255 < length g \<or> hasControlCharacters g) normalized))"

definition resolve :: "env \<Rightarrow> string option \<Rightarrow> http_request \<Rightarrow> identity outcome" where
  "resolve E cidrsSetting r =
     (if \<not> trusted_proxy cidrsSetting r then Inl (Unauthorized ''Untrusted identity proxy'')
      else (case (header_text r ''x-auth-mail'', hr_headers r ''x-auth-groups'') of
          (None, _) \<Rightarrow> Inl (Unauthorized [])
        | (_, Some (HList _)) \<Rightarrow> Inl (Unauthorized [])
        | (Some mail, _) \<Rightarrow>
            (let gs = header_text r ''x-auth-groups'';
                 username = toLowerCase (trim mail);
                 displayName = trim (header_string (hr_headers r ''x-auth-name'') username);
                 normalized = normalizedGroups (case gs of None \<Rightarrow> [] | Some g \<Rightarrow> g);
                 expiry = Option.bind (header_text r ''x-auth-session-expires'') or_null
             in if \<not> proxy_wellformed username displayName gs normalized then Inl (Unauthorized [])
                else if expiry \<noteq> None \<and> date_parse (the expiry) = None then Inl (Unauthorized ''Invalid SSO session expiry'')
                else if some_and (\<lambda>t. t \<le> now E) (Option.bind expiry date_parse) then Inl (Unauthorized ''SSO session expired'')
                else Inr \<lparr>id_username = username, id_displayName = displayName, id_groups = normalized, id_source = TrustedProxy,
                          id_sessionExpiresAt = Option.bind expiry date_parse, id_profilePhoto = None\<rparr>)))"

section \<open>The policy on mailboxes\<close>

record graph_user =
  gu_id :: "string option"
  gu_mail :: "string option"
  gu_accountEnabled :: "bool option"
  gu_userType :: "string option"

datatype mailbox_answer = Mailbox_Missing | Mailbox_Failed | Mailbox_Purpose "string option"

text \<open>What the directory service answers to the two queries, with a valid token: the users with an address
  and whether there are more pages (\<open>None\<close> when the query or its token fails), and the purpose of a mailbox.\<close>

record graph_io =
  gr_users :: "string \<Rightarrow> (graph_user list option \<times> bool) option"
  gr_mailbox :: "string \<Rightarrow> mailbox_answer"
  gr_uuid :: "string \<Rightarrow> bool"

record gate_settings =
  ms_enabled :: "string option"
  ms_domains :: "string option"
  ms_cidrs :: "string option"

type_synonym mailbox_cache = "(string \<times> bool \<times> time) list"

definition check_mailbox :: "graph_io \<Rightarrow> string \<Rightarrow> bool option" where
  "check_mailbox G mail =
     (case gr_users G mail of
        None \<Rightarrow> None
      | Some (found, nextPage) \<Rightarrow>
          (case (nextPage, found) of
             (False, Some [user]) \<Rightarrow>
               if \<not> some_and (\<lambda>i. i \<noteq> [] \<and> gr_uuid G i) (gu_id user) \<or> map_option toLowerCase (gu_mail user) \<noteq> Some mail \<or>
                  gu_accountEnabled user \<noteq> Some True \<or> gu_userType user \<noteq> Some ''Member''
               then Some False
               else (case gr_mailbox G (the (gu_id user)) of
                   Mailbox_Missing \<Rightarrow> Some False
                 | Mailbox_Failed \<Rightarrow> None
                 | Mailbox_Purpose p \<Rightarrow> Some (p = Some ''user''))
           | _ \<Rightarrow> Some False))"

text \<open>\<open>/^[^\s@'\\]+@[^\s@'\\]+$/\<close>.\<close>

definition mail_pattern :: "string \<Rightarrow> bool" where
  "mail_pattern mail =
     (let plain = (\<lambda>p. p \<noteq> [] \<and> list_all (\<lambda>c. \<not> is_space c \<and> c \<noteq> CHR 39 \<and> c \<noteq> CHR 92) p)
      in case split_on (\<lambda>c. c = CHR ''@'') mail of [a, b] \<Rightarrow> plain a \<and> plain b | _ \<Rightarrow> False)"

definition allowed_domains :: "gate_settings \<Rightarrow> string list" where
  "allowed_domains M =
     filter (\<lambda>v. v \<noteq> []) (map trim (split_on (\<lambda>c. c = CHR '','') (toLowerCase (case ms_domains M of None \<Rightarrow> [] | Some t \<Rightarrow> t))))"

definition remember_mailbox :: "env \<Rightarrow> mailbox_cache \<Rightarrow> string \<Rightarrow> bool \<Rightarrow> mailbox_cache" where
  "remember_mailbox E c mail result =
     (let c1 = filter (\<lambda>e. fst e \<noteq> mail) c
      in drop (Suc (length c1) - 10000) c1 @ [(mail, result, now E + (if result then 60000 else 15000))])"

definition assertAllowed :: "env \<Rightarrow> graph_io \<Rightarrow> gate_settings \<Rightarrow> mailbox_cache \<Rightarrow> string \<Rightarrow> mailbox_cache \<times> unit outcome" where
  "assertAllowed E G M c username =
     (if ms_enabled M \<noteq> Some ''true'' then (c, Inr ())
      else let mail = toLowerCase (trim username); domains = allowed_domains M
      in if domains = [] then (c, Inl (ServiceUnavailable ''SSO mailbox policy is not configured''))
         else if \<not> mail_pattern mail \<or> split_on (\<lambda>ch. ch = CHR ''@'') mail ! 1 \<notin> set domains
         then (c, Inl (Forbidden ''A personal mailbox in an authorized domain is required''))
         else (let refused = Inl (Forbidden ''An active internal account with a personal mailbox is required'')
           in case map_of c mail of
             Some (allowed, expires) \<Rightarrow>
               if now E < expires then (c, if allowed then Inr () else refused)
               else (case check_mailbox G mail of
                   None \<Rightarrow> (c, Inl (ServiceUnavailable ''SSO mailbox verification is temporarily unavailable''))
                 | Some result \<Rightarrow> (remember_mailbox E c mail result, if result then Inr () else refused))
           | None \<Rightarrow>
               (case check_mailbox G mail of
                   None \<Rightarrow> (c, Inl (ServiceUnavailable ''SSO mailbox verification is temporarily unavailable''))
                 | Some result \<Rightarrow> (remember_mailbox E c mail result, if result then Inr () else refused))))"

section \<open>The middleware\<close>

definition plain_char :: "char \<Rightarrow> bool" where
  "plain_char c = (is_digit c \<or> (CHR ''a'' \<le> c \<and> c \<le> CHR ''z'') \<or> (CHR ''A'' \<le> c \<and> c \<le> CHR ''Z''))"

definition correlationId :: "string \<Rightarrow> http_request \<Rightarrow> string" where
  "correlationId random r =
     (case header_text r ''x-request-id'' of
        Some t \<Rightarrow> if 1 \<le> length t \<and> length t \<le> 128 \<and> list_all (\<lambda>c. plain_char c \<or> c \<in> {CHR ''.'', CHR ''_'', CHR ''-''}) t then t else random
      | None \<Rightarrow> random)"

definition probe_route :: "string \<Rightarrow> string \<Rightarrow> bool" where
  "probe_route verb route = (route \<in> {''/health/live'', ''/health/ready'', ''/metrics''} \<or> route = ''/branding'' \<and> verb = ''GET'')"

definition share_route :: "string \<Rightarrow> bool" where
  "share_route route =
     (let token = drop 14 route
      in startsWith route ''/public/share/'' \<and> 32 \<le> length token \<and> length token \<le> 64 \<and>
         list_all (\<lambda>c. plain_char c \<or> c \<in> {CHR ''_'', CHR ''-''}) token)"

definition open_route :: "string \<Rightarrow> string \<Rightarrow> bool" where
  "open_route verb route =
     (route \<in> {''/auth/login'', ''/auth/directory-login'', ''/auth/config''} \<or> verb = ''GET'' \<and> share_route route)"

definition plain_identity :: "string \<Rightarrow> string \<Rightarrow> identity_source \<Rightarrow> identity" where
  "plain_identity username displayName source =
     \<lparr>id_username = username, id_displayName = displayName, id_groups = [], id_source = source, id_sessionExpiresAt = None, id_profilePhoto = None\<rparr>"

text \<open>The state of the process: the two caches and the database.\<close>

record gate_state =
  gs_profiles :: profile_cache
  gs_mailboxes :: mailbox_cache
  gs_db :: db

text \<open>The middleware's branch for proxy headers: the policy on mailboxes, then the roles.\<close>

definition proxy_identity ::
    "env \<Rightarrow> auth_io \<Rightarrow> graph_io \<Rightarrow> sso_settings \<Rightarrow> gate_settings \<Rightarrow> gate_state \<Rightarrow> http_request \<Rightarrow> bool \<Rightarrow> gate_state \<times> identity outcome" where
  "proxy_identity E D G X M g r refresh =
     (case resolve E (ms_cidrs M) r of
        Inl e \<Rightarrow> (g, Inl e)
      | Inr i \<Rightarrow>
          (let (mailboxes, verdict) = assertAllowed E G M (gs_mailboxes g) (id_username i);
               (profiles, s, result) = enrichSsoIdentity E (D\<lparr>di_mailbox := \<lambda>_. verdict\<rparr>) X (gs_profiles g) (gs_db g) i refresh
           in (\<lparr>gs_profiles = profiles, gs_mailboxes = mailboxes, gs_db = s\<rparr>, result)))"

definition use_identity ::
    "env \<Rightarrow> auth_io \<Rightarrow> graph_io \<Rightarrow> sso_settings \<Rightarrow> gate_settings \<Rightarrow> gate_state \<Rightarrow> http_request \<Rightarrow> gate_state \<times> identity outcome" where
  "use_identity E D G X M g r =
     (let route = hd (split_on (\<lambda>c. c = CHR ''?'') (hr_originalUrl r));
          refresh = (route = ''/me'' \<and> hr_refresh r = Some ''1'')
      in if probe_route (hr_method r) route then (g, Inr (plain_identity ''system'' ''System probe'' System))
         else if open_route (hr_method r) route then (g, Inr (plain_identity ''anonymous'' ''Anonymous'' Anonymous))
         else (case (if route = ''/admin'' \<or> startsWith route ''/admin/'' then adminSessionIdentity E (gs_db g) r else (gs_db g, None)) of
             (s, Some i) \<Rightarrow> (g\<lparr>gs_db := s\<rparr>, Inr i)
           | (s, None) \<Rightarrow>
               if supports r then proxy_identity E D G X M g r refresh
               else (case sessionIdentity E D X (gs_profiles g) (gs_db g) r refresh of
                   (c, s, Inl e) \<Rightarrow> (g\<lparr>gs_profiles := c, gs_db := s\<rparr>, Inl e)
                 | (c, s, Inr None) \<Rightarrow> (g\<lparr>gs_profiles := c, gs_db := s\<rparr>, Inl (Unauthorized []))
                 | (c, s, Inr (Some i)) \<Rightarrow> (g\<lparr>gs_profiles := c, gs_db := s\<rparr>, Inr i))))"

text \<open>The whole middleware: the identifier of the request, which the answer carries too, and the identity.\<close>

definition use_middleware ::
    "string \<Rightarrow> env \<Rightarrow> auth_io \<Rightarrow> graph_io \<Rightarrow> sso_settings \<Rightarrow> gate_settings \<Rightarrow> gate_state \<Rightarrow> http_request \<Rightarrow> string \<times> gate_state \<times> identity outcome" where
  "use_middleware random E D G X M g r = (correlationId random r, use_identity E D G X M g r)"

section \<open>Ranges of addresses\<close>

text \<open>The usual notation of an address.\<close>

definition octet :: "32 word \<Rightarrow> nat \<Rightarrow> 32 word" where
  "octet w k = take_bit 8 (drop_bit (8 * k) w)"

definition dotted :: "32 word \<Rightarrow> string" where
  "dotted w = string_of_nat (unat (octet w 3)) @ CHR ''.'' # string_of_nat (unat (octet w 2)) @ CHR ''.'' #
     string_of_nat (unat (octet w 1)) @ CHR ''.'' # string_of_nat (unat (octet w 0))"

lemma octet_less: "unat (octet w k) < 256"
  using take_bit_int_less_exp [of 8 "uint (drop_bit (8 * k) w)"] by (simp add: octet_def unsigned_take_bit_eq take_bit_nat_less_exp [of 8, simplified])

lemma octets: "push_bit 8 (push_bit 8 (push_bit 8 (octet w 3) OR octet w 2) OR octet w 1) OR octet w 0 = w"
proof (rule bit_word_eqI)
  fix n
  assume "n < LENGTH(32)"
  then show "bit (push_bit 8 (push_bit 8 (push_bit 8 (octet w 3) OR octet w 2) OR octet w 1) OR octet w 0) n = bit w n"
    by (cases "n < 8"; cases "n < 16"; cases "n < 24") (auto simp: octet_def bit_simps not_less)
qed

lemma digits_plain: "list_all is_digit ds \<Longrightarrow> \<not> is_digit c \<Longrightarrow> \<not> list_ex (\<lambda>d. d = c) ds"
  by (auto simp: list_all_iff list_ex_iff)

lemma mask_agree: "(n AND push_bit k (- 1) = a AND push_bit k (- 1)) \<longleftrightarrow> drop_bit k n = drop_bit k (a :: 32 word)"
proof
  assume h: "n AND push_bit k (- 1) = a AND push_bit k (- 1)"
  show "drop_bit k n = drop_bit k a"
  proof (rule bit_word_eqI)
    fix i
    have "bit (n AND push_bit k (- 1)) (k + i) = bit (a AND push_bit k (- 1)) (k + i)" using h by simp
    then show "bit (drop_bit k n) i = bit (drop_bit k a) i"
      using bit_imp_le_length [of n "k + i"] bit_imp_le_length [of a "k + i"] by (auto simp: bit_simps)
  qed
next
  assume h: "drop_bit k n = drop_bit k a"
  show "n AND push_bit k (- 1) = a AND push_bit k (- 1)"
  proof (rule bit_word_eqI)
    fix i
    have "bit (drop_bit k n) (i - k) = bit (drop_bit k a) (i - k)" using h by simp
    then show "bit (n AND push_bit k (- 1)) i = bit (a AND push_bit k (- 1)) i" by (auto simp: bit_simps)
  qed
qed

lemma trim_plain: "\<forall>c\<in>set s. \<not> is_space c \<Longrightarrow> trim s = s"
proof -
  assume "\<forall>c\<in>set s. \<not> is_space c"
  then have "dropWhile is_space s = s" "dropWhile is_space (rev s) = rev s" by (auto simp: dropWhile_eq_self_iff hd_rev)
  then show ?thesis by (simp add: trim_def)
qed

lemma number_plain: "js_number (string_of_nat n) = Some (int n, 0)"
proof -
  have d: "list_all is_digit (string_of_nat n)" "string_of_nat n \<noteq> []"
    by (rule list_all_digits_string_of_nat) (subst string_of_nat.simps, simp)
  then obtain c cs where c: "string_of_nat n = c # cs" "is_digit c" by (cases "string_of_nat n") auto
  have "\<forall>d\<in>set (string_of_nat n). \<not> is_space d" using d(1) by (auto simp: list_all_iff is_digit_def is_space_def less_eq_char_def)
  then have t: "trim (string_of_nat n) = string_of_nat n" by (rule trim_plain)
  have s: "\<not> startsWith (string_of_nat n) ''-''" "\<not> startsWith (string_of_nat n) ''+''"
    using c by (auto simp: startsWith_def is_digit_def less_eq_char_def)
  have "split_on (\<lambda>c. c = CHR ''.'') (string_of_nat n) = [string_of_nat n]"
    using digits_plain [OF d(1), of "CHR ''.''"] by (intro split_on_plain) (simp add: is_digit_def less_eq_char_def)
  then show ?thesis unfolding js_number_def Let_def t using s d by simp
qed

lemma digit_not [simp]: "\<not> is_digit CHR ''.''" "\<not> is_digit CHR ''/''" "\<not> is_digit CHR '':''"
  by (simp_all add: is_digit_def less_eq_char_def)

lemma digits_not_plain [simp]: "\<not> list_ex (\<lambda>c. c = CHR ''.'') (string_of_nat n)" "\<not> list_ex (\<lambda>c. c = CHR ''/'') (string_of_nat n)"
  by (rule digits_plain, simp_all)+

lemma address_part_number: "n < 256 \<Longrightarrow> address_part (string_of_nat n) = Some (int n)"
  by (simp add: address_part_def number_plain)

lemma split_dotted: "split_on (\<lambda>c. c = CHR ''.'') (dotted w) =
    [string_of_nat (unat (octet w 3)), string_of_nat (unat (octet w 2)), string_of_nat (unat (octet w 1)), string_of_nat (unat (octet w 0))]"
  unfolding dotted_def by (simp add: split_on_append split_on_plain)

lemma dotted_chars: "c \<in> set (dotted w) \<Longrightarrow> is_digit c \<or> c = CHR ''.''"
  using list_all_digits_string_of_nat by (auto simp: dotted_def list_all_iff)

lemma digit_no_space: "is_digit c \<Longrightarrow> \<not> is_space c"
  by (auto simp: is_digit_def is_space_def less_eq_char_def)

lemma dotted_no_space: "c \<in> set (dotted w) \<Longrightarrow> \<not> is_space c"
  using dotted_chars digit_no_space by (fastforce simp: is_space_def)

lemma dotted_not_prefixed: "\<not> startsWith (dotted w) ''::ffff:''"
proof
  assume "startsWith (dotted w) ''::ffff:''"
  then have "set ''::ffff:'' \<subseteq> set (dotted w)" unfolding startsWith_def by (metis set_take_subset)
  then have "CHR '':'' \<in> set (dotted w)" by simp
  then show False using dotted_chars by force
qed

lemma ipv4_dotted: "ipv4ToNumber (dotted w) = Some w" "ipv4ToNumber (''::ffff:'' @ dotted w) = Some w"
proof -
  have parts: "map address_part (split_on (\<lambda>c. c = CHR ''.'') (dotted w)) = map (\<lambda>k. Some (int (unat (octet w k)))) [3, 2, 1, 0]"
    by (simp add: split_dotted address_part_number octet_less)
  have fold: "push_bit 8 (push_bit 8 (push_bit 8 (word_of_int (int (unat (octet w 3)))) OR word_of_int (int (unat (octet w 2)))) OR
      word_of_int (int (unat (octet w 1)))) OR word_of_int (int (unat (octet w 0))) = w"
  proof -
    have r: "word_of_int (int (unat x)) = x" for x :: "32 word" by simp
    show ?thesis unfolding r by (rule octets)
  qed
  show "ipv4ToNumber (dotted w) = Some w"
    unfolding ipv4ToNumber_def Let_def if_not_P [OF dotted_not_prefixed] parts using fold by (simp del: of_nat_unat)
  have "startsWith (''::ffff:'' @ dotted w) ''::ffff:''" "drop 7 (''::ffff:'' @ dotted w) = dotted w" by (simp_all add: startsWith_def)
  then show "ipv4ToNumber (''::ffff:'' @ dotted w) = Some w"
    unfolding ipv4ToNumber_def Let_def using parts fold by (simp del: of_nat_unat)
qed

lemma split_cidr: "split_on (\<lambda>c. c = CHR ''/'') (trim (dotted n @ CHR ''/'' # string_of_nat p)) = [dotted n, string_of_nat p]"
proof -
  have "\<forall>c\<in>set (dotted n @ CHR ''/'' # string_of_nat p). \<not> is_space c"
    using dotted_no_space [of _ n] list_all_digits_string_of_nat [of p] digit_no_space by (auto simp: list_all_iff is_space_def)
  then have "trim (dotted n @ CHR ''/'' # string_of_nat p) = dotted n @ CHR ''/'' # string_of_nat p" by (rule trim_plain)
  moreover have "\<not> list_ex (\<lambda>c. c = CHR ''/'') (dotted n)" using dotted_chars [of _ n] by (force simp: list_ex_iff)
  ultimately show ?thesis by (simp add: split_on_append split_on_plain)
qed

lemma prefix_mask_shift: "p \<le> 32 \<Longrightarrow> prefix_mask (Some (int p, 0)) = push_bit (32 - p) (- 1)"
  by (cases "p = 0") (auto simp: prefix_mask_def nat_diff_distrib intro!: bit_word_eqI simp: bit_simps)

text \<open>C35: a range of addresses is its prefix. For every network, every prefix length up to 32 and every address, also in its
  form mapped to version six, the address is in the range exactly when its leading bits are those of
  the network; a longer prefix contains nothing.\<close>

theorem cidr_range:
  assumes "address = dotted a \<or> address = ''::ffff:'' @ dotted a"
  shows "cidrContains (dotted n @ CHR ''/'' # string_of_nat p) address \<longleftrightarrow> p \<le> 32 \<and> drop_bit (32 - p) n = drop_bit (32 - p) a"
proof -
  have "ipv4ToNumber address = Some a" using assms ipv4_dotted by auto
  then show ?thesis
    unfolding cidrContains_def Let_def split_cidr using mask_agree [of n "32 - p" a]
    by (auto simp: ipv4_dotted(1) number_plain prefix_mask_shift)
qed

text \<open>A range written without its length trusts everybody. A network followed by a slash and nothing else is read with the
  prefix length zero and contains every address.\<close>

theorem cidr_empty_prefix: "cidrContains (dotted n @ ''/'') (dotted a)"
proof -
  have "\<forall>c\<in>set (dotted n @ ''/''). \<not> is_space c"
    using dotted_no_space [of _ n] by (auto simp: is_space_def)
  then have "trim (dotted n @ ''/'') = dotted n @ CHR ''/'' # []" using trim_plain by simp
  moreover have "\<not> list_ex (\<lambda>c. c = CHR ''/'') (dotted n)" using dotted_chars [of _ n] by (force simp: list_ex_iff)
  ultimately have "split_on (\<lambda>c. c = CHR ''/'') (trim (dotted n @ ''/'')) = [dotted n, []]" by (simp add: split_on_append)
  moreover have "js_number [] = Some (0, 0)" by code_simp
  ultimately show ?thesis by (simp add: cidrContains_def ipv4_dotted(1) prefix_mask_def)
qed

section \<open>What the proxy may say\<close>

lemma normalizedGroups_distinct: "distinct (map toLowerCase (normalizedGroups gs))"
proof -
  define vs where "vs = filter (\<lambda>g. g \<noteq> []) (map trim (split_on (\<lambda>c. c = CHR '';'' \<or> c = CHR '','') gs))"
  let ?ks = "filter (\<lambda>k. \<not> list_ex (\<lambda>l. toLowerCase (vs ! l) = toLowerCase (vs ! k)) [0..<k]) [0..<length vs]"
  have "inj_on (\<lambda>k. toLowerCase (vs ! k)) (set ?ks)"
  proof (rule linorder_inj_onI)
    fix k l assume "k < l" "k \<in> set ?ks" "l \<in> set ?ks"
    then show "toLowerCase (vs ! k) \<noteq> toLowerCase (vs ! l)" by (auto simp: list_ex_iff)
  qed auto
  then have "distinct (map (\<lambda>k. toLowerCase (vs ! k)) ?ks)" by (simp add: distinct_map)
  moreover have "map toLowerCase (normalizedGroups gs) = map (\<lambda>k. toLowerCase (vs ! k)) ?ks"
    unfolding normalizedGroups_def Let_def vs_def [symmetric] by simp
  ultimately show ?thesis by simp
qed

lemma normalizedGroups_nonempty: "g \<in> set (normalizedGroups gs) \<Longrightarrow> g \<noteq> []"
proof -
  define vs where "vs = filter (\<lambda>g. g \<noteq> []) (map trim (split_on (\<lambda>c. c = CHR '';'' \<or> c = CHR '','') gs))"
  assume "g \<in> set (normalizedGroups gs)"
  then have "g \<in> set vs" by (auto simp: normalizedGroups_def vs_def [symmetric] Let_def)
  then show ?thesis by (simp add: vs_def)
qed

lemma header_cases [case_names missing single several]:
  obtains "h = None" | t where "h = Some (HText t)" | ts where "h = Some (HList ts)"
  by (metis header_value.exhaust option.exhaust)

lemma resolve_Inr:
  assumes "resolve E cidrs r = Inr i"
  obtains username displayName gs names expires where "trusted_proxy cidrs r" and "proxy_wellformed (toLowerCase username) displayName gs (normalizedGroups names)"
    and "null_or (\<lambda>t. now E < t) expires"
    and "i = \<lparr>id_username = toLowerCase username, id_displayName = displayName, id_groups = normalizedGroups names, id_source = TrustedProxy,
      id_sessionExpiresAt = expires, id_profilePhoto = None\<rparr>"
proof -
  have tr: "trusted_proxy cidrs r" using assms by (auto simp: resolve_def split: if_splits)
  then obtain mail where mail: "header_text r ''x-auth-mail'' = Some mail" using assms by (auto simp: resolve_def split: option.splits)
  let ?gs = "header_text r ''x-auth-groups''" and ?u = "toLowerCase (trim mail)"
  let ?d = "trim (header_string (hr_headers r ''x-auth-name'') ?u)" and ?n = "normalizedGroups (case ?gs of None \<Rightarrow> [] | Some g \<Rightarrow> g)"
  let ?e = "Option.bind (Option.bind (header_text r ''x-auth-session-expires'') or_null) date_parse"
  let ?i = "\<lparr>id_username = ?u, id_displayName = ?d, id_groups = ?n, id_source = TrustedProxy, id_sessionExpiresAt = ?e, id_profilePhoto = None\<rparr>"
  have "proxy_wellformed ?u ?d ?gs ?n \<and> \<not> some_and (\<lambda>t. t \<le> now E) ?e \<and> i = ?i"
    using assms unfolding resolve_def if_not_P [OF not_not [THEN iffD2, OF tr]] mail option.case prod.case Let_def
    by (cases "hr_headers r ''x-auth-groups''" rule: header_cases) (simp_all split: if_splits)
  moreover from this have "null_or (\<lambda>t. now E < t) ?e" by (auto simp: null_or_def some_and_def not_le split: option.splits)
  ultimately show ?thesis using that tr by blast
qed

text \<open>C36: what the headers of the proxy can say. An identity is taken from headers only when the connection comes from a trusted
  range; it is then well formed: a lower-case name with an at sign, at most 255 characters, at most
  512 groups that differ in more than letter case, none of them empty, too long or with control characters, and a
  session that has not ended.\<close>

theorem proxy_identity_wellformed:
  assumes "resolve E cidrs r = Inr i"
  shows "trusted_proxy cidrs r \<and> id_source i = TrustedProxy \<and> CHR ''@'' \<in> set (id_username i) \<and> length (id_username i) \<le> 255 \<and>
    toLowerCase (id_username i) = id_username i \<and> id_displayName i \<noteq> [] \<and> \<not> hasControlCharacters (id_displayName i) \<and>
    length (id_groups i) \<le> 512 \<and> distinct (map toLowerCase (id_groups i)) \<and>
    list_all (\<lambda>g. g \<noteq> [] \<and> length g \<le> 255 \<and> \<not> hasControlCharacters g) (id_groups i) \<and> null_or (\<lambda>t. now E < t) (id_sessionExpiresAt i)"
  using assms
proof (cases rule: resolve_Inr)
  case (1 username displayName gs names expires)
  from 1(2) show ?thesis
    using 1(1,3) normalizedGroups_distinct [of names] normalizedGroups_nonempty [of _ names]
    by (simp add: 1(4) proxy_wellformed_def list_all_iff list_ex_iff not_less)
qed

section \<open>No identity without a credential\<close>

lemma with_roles_source [simp]: "id_source (with_roles s i a g) = id_source i"
  by (simp add: with_roles_def Let_def)

lemma enrich_source: "enrichSsoIdentity E D X c s i force = (c', s', Inr i') \<Longrightarrow> id_source i' = id_source i"
  by (auto simp: enrichSsoIdentity_def Let_def split: sum.splits prod.splits option.splits)

lemma enrich_mailbox: "enrichSsoIdentity E D X c s i force = (c', s', Inr i') \<Longrightarrow> id_source i = TrustedProxy \<Longrightarrow> di_mailbox D (id_username i) = Inr ()"
  by (auto simp: enrichSsoIdentity_def Let_def split: sum.splits)

lemma admin_identity_from: "adminSessionIdentity E s r = (s', Some i) \<Longrightarrow>
    \<exists>token x a. cookie r adminCookieName = Some token \<and> session_account E s token = Some (x, a) \<and> i = local_identity x a"
  by (auto simp: adminSessionIdentity_def bind_eq_Some_conv split: option.splits)

lemma admin_identity_none: "adminSessionIdentity E s r = (s', None) \<Longrightarrow> s' = s"
  by (auto simp: adminSessionIdentity_def split: option.splits)

text \<open>The four ways to an identity.\<close>

definition public_call :: "http_request \<Rightarrow> bool" where
  "public_call r = (let route = hd (split_on (\<lambda>c. c = CHR ''?'') (hr_originalUrl r)) in probe_route (hr_method r) route \<or> open_route (hr_method r) route)"

definition local_credential :: "env \<Rightarrow> db \<Rightarrow> http_request \<Rightarrow> identity \<Rightarrow> bool" where
  "local_credential E s r i = (\<exists>token x a. cookie r adminCookieName = Some token \<and> session_account E s token = Some (x, a) \<and> i = local_identity x a)"

definition proxy_credential :: "env \<Rightarrow> graph_io \<Rightarrow> gate_settings \<Rightarrow> gate_state \<Rightarrow> http_request \<Rightarrow> bool" where
  "proxy_credential E G M g r =
     (trusted_proxy (ms_cidrs M) r \<and> (\<exists>j. resolve E (ms_cidrs M) r = Inr j \<and> snd (assertAllowed E G M (gs_mailboxes g) (id_username j)) = Inr ()))"

lemma proxy_identity_credential:
  assumes "proxy_identity E D G X M g r force = (g', Inr i)"
  shows "proxy_credential E G M g r \<and> id_source i = TrustedProxy"
proof -
  obtain j where j: "resolve E (ms_cidrs M) r = Inr j" using assms by (auto simp: proxy_identity_def split: sum.splits)
  obtain mb v where a: "assertAllowed E G M (gs_mailboxes g) (id_username j) = (mb, v)" by fastforce
  obtain c s where e: "enrichSsoIdentity E (D\<lparr>di_mailbox := \<lambda>_. v\<rparr>) X (gs_profiles g) (gs_db g) j force = (c, s, Inr i)"
    using assms by (auto simp: proxy_identity_def j a split: prod.splits)
  have "id_source j = TrustedProxy" "trusted_proxy (ms_cidrs M) r" using j by (auto elim: resolve_Inr)
  with enrich_source [OF e] enrich_mailbox [OF e] j a show ?thesis by (auto simp: proxy_credential_def)
qed

lemma session_identity_credential:
  assumes "sessionIdentity E D X c s r force = (c', s', Inr (Some i))"
  shows "local_credential E s r i \<or> directory_session E s r \<noteq> None \<and> id_source i = DirectorySession"
proof (cases "adminSessionIdentity E s r")
  case (Pair s1 found)
  show ?thesis
  proof (cases found)
    case (Some j)
    with Pair assms have "adminSessionIdentity E s r = (s1, Some i)" by (simp add: sessionIdentity_def)
    then show ?thesis using admin_identity_from by (auto simp: local_credential_def)
  next
    case None
    with Pair have s1: "s1 = s" using admin_identity_none by blast
    obtain x where x: "directory_session E s r = Some x"
      using assms Pair None s1 by (auto simp: sessionIdentity_def split: option.splits)
    have "\<exists>s2 j. sessionIdentity E D X c s r force = (case enrichSsoIdentity E D X c s2 j False of (c3, s3, res) \<Rightarrow> (c3, s3, map_sum id Some res)) \<and>
        id_source j = DirectorySession"
      unfolding sessionIdentity_def Pair None s1 x prod.case option.case Let_def by (intro exI conjI, rule refl, simp)
    then obtain s2 j where j: "id_source j = DirectorySession"
      and e: "(case enrichSsoIdentity E D X c s2 j False of (c3, s3, res) \<Rightarrow> (c3, s3, map_sum id Some res)) = (c', s', Inr (Some i))"
      using assms by metis
    obtain c3 s3 res where n: "enrichSsoIdentity E D X c s2 j False = (c3, s3, res)" by (cases "enrichSsoIdentity E D X c s2 j False")
    with e have "res = Inr i" by (cases res) simp_all
    with n enrich_source [of E D X c s2 j False] x j show ?thesis by simp
  qed
qed

text \<open>C3: no identity without a credential. A request proceeds only with a public route and an identity without any group; or with
  the cookie of a running session of an active account; or with the headers of a proxy in a trusted range, a
  mailbox the policy allows; or with the cookie of a running directory session. Every other request is
  refused.\<close>

theorem identity_needs_credential:
  assumes "use_identity E D G X M g r = (g', Inr i)"
  shows "(public_call r \<and> id_groups i = []) \<or> local_credential E (gs_db g) r i \<or>
    (proxy_credential E G M g r \<and> id_source i = TrustedProxy) \<or> (directory_session E (gs_db g) r \<noteq> None \<and> id_source i = DirectorySession)"
proof -
  let ?route = "hd (split_on (\<lambda>c. c = CHR ''?'') (hr_originalUrl r))"
  show ?thesis
  proof (cases "public_call r")
    case True
    then have "i = plain_identity ''system'' ''System probe'' System \<or> i = plain_identity ''anonymous'' ''Anonymous'' Anonymous"
      using assms by (auto simp: use_identity_def public_call_def Let_def split: if_splits)
    then show ?thesis using True by (auto simp: plain_identity_def)
  next
    case False
    let ?a = "if ?route = ''/admin'' \<or> startsWith ?route ''/admin/'' then adminSessionIdentity E (gs_db g) r else (gs_db g, None)"
    have u: "use_identity E D G X M g r = (case ?a of (s, Some i) \<Rightarrow> (g\<lparr>gs_db := s\<rparr>, Inr i)
        | (s, None) \<Rightarrow> if supports r then proxy_identity E D G X M g r (?route = ''/me'' \<and> hr_refresh r = Some ''1'')
          else (case sessionIdentity E D X (gs_profiles g) (gs_db g) r (?route = ''/me'' \<and> hr_refresh r = Some ''1'') of
             (c, s, Inl e) \<Rightarrow> (g\<lparr>gs_profiles := c, gs_db := s\<rparr>, Inl e)
           | (c, s, Inr None) \<Rightarrow> (g\<lparr>gs_profiles := c, gs_db := s\<rparr>, Inl (Unauthorized []))
           | (c, s, Inr (Some i)) \<Rightarrow> (g\<lparr>gs_profiles := c, gs_db := s\<rparr>, Inr i)))"
      using False unfolding public_call_def use_identity_def Let_def by simp
    obtain s found where a: "?a = (s, found)" by fastforce
    show ?thesis
    proof (cases found)
      case (Some j)
      then have "adminSessionIdentity E (gs_db g) r = (s, Some i)" using assms a unfolding u by (auto split: if_splits)
      then show ?thesis using admin_identity_from by (auto simp: local_credential_def)
    next
      case None
      show ?thesis
      proof (cases "supports r")
        case True
        then show ?thesis using assms proxy_identity_credential unfolding u a None by fastforce
      next
        case False
        then obtain c s' where "sessionIdentity E D X (gs_profiles g) (gs_db g) r (?route = ''/me'' \<and> hr_refresh r = Some ''1'') = (c, s', Inr (Some i))"
          using assms unfolding u a None by (auto split: prod.splits sum.splits option.splits)
        then show ?thesis using session_identity_credential by blast
      qed
    qed
  qed
qed

section \<open>The reserved group\<close>

lemma enrich_keeps_admin:
  assumes "di_mailbox D (id_username i) = Inr ()" and "isAdminIdentity (id_groups i)"
  shows "\<exists>c' s' i'. enrichSsoIdentity E D X c s i force = (c', s', Inr i') \<and> isAdminIdentity (id_groups i')"
proof -
  have v: "(if id_source i = TrustedProxy then di_mailbox D (id_username i) else Inr ()) = Inr ()" using assms(1) by simp
  obtain c1 p where p: "(if id_source i = TrustedProxy \<and> so_enrichment X \<noteq> Some ''false''
      then ssoDirectoryProfile E D X c (id_username i) force else (c, None)) = (c1, p)" by fastforce
  have adm: "isAdminIdentity (id_groups (case p of None \<Rightarrow> i | Some p \<Rightarrow> i\<lparr>id_username := pf_username p,
      id_displayName := (if pf_displayName p = [] then id_displayName i else pf_displayName p), id_groups := new_set (id_groups i @ pf_groups p)\<rparr>))"
    using assms(2) by (auto simp: isAdminIdentity_def split: option.split)
  show ?thesis unfolding enrichSsoIdentity_def v sum.case p Let_def prod.case
    by (intro exI conjI, rule refl) (simp only: with_roles_admin adm simp_thms)
qed

text \<open>A group of the identity provider administers the portal. When the proxy sends the group name that stands for
  administrators inside the program, the request is an administrator's, although no account and no
  directory group was registered for it.\<close>

theorem reserved_group_administers:
  assumes "\<not> public_call r" and "cookie r adminCookieName = None" and "supports r" and "resolve E (ms_cidrs M) r = Inr j"
    and "snd (assertAllowed E G M (gs_mailboxes g) (id_username j)) = Inr ()" and "''ISMS-LOCAL-ADMINS'' \<in> set (id_groups j)"
    and "accounts (gs_db g) = []" and "admingroups (gs_db g) = []"
  shows "\<exists>g' i. use_identity E D G X M g r = (g', Inr i) \<and> isAdminIdentity (id_groups i)"
proof -
  obtain mb where a: "assertAllowed E G M (gs_mailboxes g) (id_username j) = (mb, Inr ())" using assms(5) by (metis prod.collapse)
  let ?D = "D\<lparr>di_mailbox := \<lambda>_. Inr ()\<rparr>"
  have "\<exists>g' i. proxy_identity E D G X M g r force = (g', Inr i) \<and> isAdminIdentity (id_groups i)" for force
  proof -
    obtain c s i where "enrichSsoIdentity E ?D X (gs_profiles g) (gs_db g) j force = (c, s, Inr i)" "isAdminIdentity (id_groups i)"
      using enrich_keeps_admin [of ?D j E X "gs_profiles g" "gs_db g" force] assms(6) by (auto simp: isAdminIdentity_def)
    then show ?thesis by (simp add: proxy_identity_def assms(4) a)
  qed
  moreover have "adminSessionIdentity E (gs_db g) r = (gs_db g, None)" using assms(2) by (simp add: adminSessionIdentity_def)
  ultimately show ?thesis using assms(1,3) by (simp add: use_identity_def public_call_def Let_def)
qed

section \<open>Mailboxes\<close>

lemma remember_bounded: "length (remember_mailbox E c mail result) \<le> 10000"
  by (simp add: remember_mailbox_def Let_def)

text \<open>The policy fails closed: with the policy on, a name passes only with an address in an authorised domain and a positive
  answer of the directory, given now or remembered for at most a minute.\<close>

lemma mailbox_allowed:
  assumes "assertAllowed E G M c username = (c', Inr ())" and "ms_enabled M = Some ''true''"
  shows "mail_pattern (toLowerCase (trim username)) \<and> split_on (\<lambda>ch. ch = CHR ''@'') (toLowerCase (trim username)) ! 1 \<in> set (allowed_domains M) \<and>
    ((\<exists>t. map_of c (toLowerCase (trim username)) = Some (True, t) \<and> now E < t) \<or> check_mailbox G (toLowerCase (trim username)) = Some True)"
  using assms unfolding assertAllowed_def Let_def by (simp split: if_splits option.splits prod.splits)

section \<open>Witnesses\<close>

definition proxy_request :: http_request where
  "proxy_request = \<lparr>hr_method = ''GET'', hr_originalUrl = ''/me'',
     hr_headers = (\<lambda>h. if h = ''x-auth-mail'' then Some (HText ''Ann@example.org'')
       else if h = ''x-auth-groups'' then Some (HText ''Staff;staff;ISMS-LOCAL-ADMINS'') else None),
     hr_remoteAddress = Some ''10.1.2.3'', hr_refresh = None\<rparr>"

definition sample_gate :: gate_settings where
  "sample_gate = \<lparr>ms_enabled = None, ms_domains = None, ms_cidrs = Some ''10.0.0.0/8''\<rparr>"

definition sample_state :: gate_state where
  "sample_state = \<lparr>gs_profiles = [], gs_mailboxes = [], gs_db = sample_db\<rparr>"

definition sample_graph :: graph_io where
  "sample_graph = \<lparr>gr_users = (\<lambda>_. None), gr_mailbox = (\<lambda>_. Mailbox_Missing), gr_uuid = (\<lambda>_. False)\<rparr>"

definition ann :: identity where
  "ann = \<lparr>id_username = ''ann@example.org'', id_displayName = ''ann@example.org'', id_groups = [''Staff'', ''ISMS-LOCAL-ADMINS''],
     id_source = TrustedProxy, id_sessionExpiresAt = None, id_profilePhoto = None\<rparr>"

lemma sample_resolve: "resolve sample_env (ms_cidrs sample_gate) proxy_request = Inr ann"
  by code_simp

theorem cidr_range_witness:
  "cidrContains (dotted 0x0A000000 @ CHR ''/'' # string_of_nat 8) (dotted 0x0A010203) \<and>
   \<not> cidrContains (dotted 0x0A000000 @ CHR ''/'' # string_of_nat 8) (''::ffff:'' @ dotted 0x0B010203)"
proof -
  have "drop_bit 24 (0x0A000000 :: 32 word) = drop_bit 24 0x0A010203" "drop_bit 24 (0x0A000000 :: 32 word) \<noteq> drop_bit 24 0x0B010203" by code_simp+
  then show ?thesis
    using cidr_range [of "dotted 0x0A010203" "0x0A010203" "0x0A000000" 8] cidr_range [of "''::ffff:'' @ dotted 0x0B010203" "0x0B010203" "0x0A000000" 8] by simp
qed

theorem proxy_identity_wellformed_witness:
  "resolve sample_env (ms_cidrs sample_gate) proxy_request = Inr ann \<and> distinct (map toLowerCase (id_groups ann)) \<and> trusted_proxy (ms_cidrs sample_gate) proxy_request"
  using proxy_identity_wellformed [OF sample_resolve] sample_resolve by simp

lemma sample_call: "\<not> public_call proxy_request" "cookie proxy_request adminCookieName = None" "supports proxy_request"
  by code_simp+

theorem reserved_group_administers_witness:
  "\<exists>g' i. use_identity sample_env sample_auth_io sample_graph \<lparr>so_enrichment = None, so_ttl = None, so_negativeTtl = None\<rparr> sample_gate sample_state proxy_request = (g', Inr i) \<and>
     isAdminIdentity (id_groups i)"
  by (rule reserved_group_administers [OF sample_call sample_resolve])
    (simp_all add: assertAllowed_def sample_gate_def ann_def sample_state_def sample_db_def empty_db_def)

theorem identity_needs_credential_witness:
  "\<exists>g' i. use_identity sample_late sample_auth_io sample_graph \<lparr>so_enrichment = None, so_ttl = None, so_negativeTtl = None\<rparr> sample_gate
     (sample_state\<lparr>gs_db := sample_auth_db\<rparr>) (sample_http ''isms_admin_session=tok'') = (g', Inr i) \<and>
     local_credential sample_late sample_auth_db (sample_http ''isms_admin_session=tok'') i"
proof -
  let ?r = "sample_http ''isms_admin_session=tok''" and ?g = "sample_state\<lparr>gs_db := sample_auth_db\<rparr>"
    and ?X = "\<lparr>so_enrichment = None, so_ttl = None, so_negativeTtl = None\<rparr>"
  let ?i = "local_identity sample_session sample_account"
  have route: "\<not> public_call ?r" "hd (split_on (\<lambda>c. c = CHR ''?'') (hr_originalUrl ?r)) = ''/admin''" by code_simp+
  have "adminSessionIdentity sample_late sample_auth_db ?r = (touch_session sample_late sample_auth_db sample_session sample_account, Some ?i)"
    by (simp add: adminSessionIdentity_def sample_cookie session_account_def sample_auth_db_def sample_session_def sample_account_def
        sample_late_def sample_env_def hashToken_def within_validity_def null_or_def)
  then obtain g' where u: "use_identity sample_late sample_auth_io sample_graph ?X sample_gate ?g ?r = (g', Inr ?i)"
    using route unfolding public_call_def use_identity_def Let_def by (simp add: route(2))
  have "id_groups ?i \<noteq> []" "id_source ?i = LocalAdmin" by (simp_all add: local_identity_def)
  then show ?thesis using identity_needs_credential [OF u] u by (auto simp: sample_state_def)
qed

end
