(* ===== verification/Accounts.thy ===== *)
theory Accounts
  imports Auth Approvals
begin

text \<open>
  The accounts of administrators and moderators (\<^verbatim>\<open>apps/api/src/auth.controller.ts\<close>, \<open>AdminAccountsController\<close>, and \<open>onModuleInit\<close> of
  \<^verbatim>\<open>auth.service.ts\<close>): creation under the two-person rule, validity and reviews, the rights of moderators,
  own profile, password and second factor, disabling and removal. The directory search and the random
  generator are parameters.
\<close>

section \<open>Start of the server\<close>

record initial_admin =
  ia_username :: "string option"
  ia_password :: "string option"
  ia_displayName :: "string option"

definition new_account :: "env \<Rightarrow> db \<Rightarrow> string \<Rightarrow> string \<Rightarrow> account_source \<Rightarrow> string option \<Rightarrow> account_row" where
  "new_account E s username displayName source passwordHash =
     \<lparr>ac_id = uuid E (uuid_next s), ac_username = username, ac_displayName = displayName, ac_source = source,
      ac_passwordHash = passwordHash, ac_profilePhoto = None, ac_mfaSecret = None, ac_mfaEnabled = False,
      ac_active = True, ac_primary = False, ac_role = ADMIN, ac_canManageDocuments = True, ac_canPublishDocuments = True,
      ac_canDeleteDocuments = True, ac_justification = None, ac_validFrom = None, ac_validUntil = None, ac_lastAuthorizedAt = None,
      ac_lastReviewedAt = None, ac_reviewDueAt = None, ac_failedLoginCount = 0, ac_lockedUntil = None\<rparr>"

text \<open>\<open>adminAccount.create\<close>: the name is unique.\<close>

definition insert_account :: "db \<Rightarrow> account_row \<Rightarrow> db outcome" where
  "insert_account s a =
     (if \<exists>b\<in>set (accounts s). ac_username b = ac_username a then Inl (InternalError ''Unique constraint failed'')
      else Inr (s\<lparr>accounts := accounts s @ [a], uuid_next := Suc (uuid_next s)\<rparr>))"

definition onModuleInit :: "env \<Rightarrow> auth_io \<Rightarrow> nat list \<Rightarrow> initial_admin \<Rightarrow> db \<Rightarrow> db \<times> unit outcome" where
  "onModuleInit E D salt I s =
     (let s1 = s\<lparr>dirsessions := delete_rows (\<lambda>x. ds_expiresAt x \<le> now E) (dirsessions s),
                 adminsessions := delete_rows (\<lambda>x. as_expiresAt x \<le> now E) (adminsessions s)\<rparr>
      in case (Option.bind (map_option trim (ia_username I)) or_null, Option.bind (ia_password I) or_null) of
           (Some username, Some password) \<Rightarrow>
             if length password < 14 then (s1, Inl (InternalError ''INITIAL_ADMIN_PASSWORD must contain at least 14 chars''))
             else if \<exists>a\<in>set (accounts s1). ac_primary a then (s1, Inr ())
             else (case insert_account s1 ((new_account E s1 username (the (or_else (ia_displayName I) (Some ''Administrateur''))) LOCAL
                          (Some (hashPassword (di_scrypt D) salt password)))\<lparr>ac_primary := True\<rparr>) of
                 Inl e \<Rightarrow> (s1, Inl e)
               | Inr s2 \<Rightarrow> (s2, Inr ()))
         | _ \<Rightarrow> (s1, Inr ()))"

text \<open>The route of a sign-in trims the name.\<close>

definition login_route ::
    "env \<Rightarrow> auth_io \<Rightarrow> db \<Rightarrow> string \<Rightarrow> string \<Rightarrow> string option \<Rightarrow> string \<Rightarrow> http_request \<Rightarrow> db \<times> (string \<times> bool) outcome" where
  "login_route E D s username password mfaCode token r = login E D s (trim username) password mfaCode token r"

section \<open>Validity\<close>

text \<open>The dates of the request as instants; the result are start, end, time of review and time of the next review.\<close>

definition lifecycle :: "env \<Rightarrow> time option \<Rightarrow> time option \<Rightarrow> (time option \<times> time option \<times> time \<times> time) outcome" where
  "lifecycle E validUntil validFrom =
     (if validFrom \<noteq> None \<and> validUntil = None then Inl (BadRequest ''A privilege starting in the future requires an expiry'')
      else if some_and (\<lambda>e. e \<le> now E) validUntil then Inl (BadRequest ''Privilege expiry must be in the future'')
      else if some_and (\<lambda>b. some_and (\<lambda>e. e \<le> b) validUntil) validFrom then Inl (BadRequest ''Privilege expiry must follow its start'')
      else Inr (validFrom, validUntil, now E, now E + 180 * 24 * 60 * 60 * 1000))"

section \<open>Groups with privileges\<close>

record directory_hit =
  dh_name :: string
  dh_distinguishedName :: string
  dh_memberCount :: int

record group_body =
  gb_name :: string
  gb_distinguishedName :: string
  gb_justification :: string
  gb_validFrom :: "time option"
  gb_validUntil :: "time option"
  gb_largeGroupConfirmed :: bool
  gb_role :: "account_role option"

text \<open>\<open>Math.max(1, Number(process.env.ADMIN_GROUP_WARNING_THRESHOLD) || 100)\<close>.\<close>

definition warningThreshold :: "string option \<Rightarrow> rat" where
  "warningThreshold setting =
     max 1 (case setting of
        None \<Rightarrow> 100
      | Some t \<Rightarrow> (case js_number t of None \<Rightarrow> 100 | Some (m, d) \<Rightarrow> if m = 0 then 100 else of_int m / 10 ^ d))"

text \<open>\<open>require\<close> for a new privilege: moderators need no approval.\<close>

definition privilege_approval :: "env \<Rightarrow> db \<Rightarrow> request \<Rightarrow> account_role option \<Rightarrow> string \<Rightarrow> string \<Rightarrow> string \<Rightarrow> db \<times> string outcome" where
  "privilege_approval E s req role targetType targetId reason =
     (if role = Some MODERATOR then (s, Inr []) else require_approval E s req ''BROAD_PRIVILEGE'' targetType targetId reason)"

definition new_group :: "env \<Rightarrow> db \<Rightarrow> directory_hit \<Rightarrow> group_body \<Rightarrow> time option \<times> time option \<times> time \<times> time \<Rightarrow> admingroup_row" where
  "new_group E s hit body dates =
     (case dates of (validFrom, validUntil, reviewed, due) \<Rightarrow>
       \<lparr>ag_id = uuid E (uuid_next s), ag_name = dh_name hit, ag_distinguishedName = dh_distinguishedName hit, ag_active = True,
        ag_role = (case gb_role body of None \<Rightarrow> ADMIN | Some r \<Rightarrow> r), ag_canManageDocuments = True, ag_canPublishDocuments = True,
        ag_canDeleteDocuments = True, ag_justification = trim (gb_justification body), ag_validFrom = validFrom, ag_validUntil = validUntil,
        ag_lastAuthorizedAt = None, ag_lastReviewedAt = Some reviewed, ag_reviewDueAt = Some due\<rparr>)"

definition addGroup ::
    "env \<Rightarrow> (string \<Rightarrow> directory_hit list) \<Rightarrow> string option \<Rightarrow> db \<Rightarrow> request \<Rightarrow> group_body \<Rightarrow> db \<times> admingroup_row outcome" where
  "addGroup E searchGroups threshold s req body =
     (case find_first (\<lambda>g. toLowerCase (dh_name g) = toLowerCase (trim (gb_name body)) \<and>
             toLowerCase (dh_distinguishedName g) = toLowerCase (trim (gb_distinguishedName body))) (searchGroups (gb_name body)) of
        None \<Rightarrow> (s, Inl (BadRequest ''The AD group could not be verified''))
      | Some selected \<Rightarrow>
          if warningThreshold threshold < of_int (dh_memberCount selected) \<and> \<not> gb_largeGroupConfirmed body
          then (s, Inl (BadRequest (''Large AD group confirmation required ('' @ string_of_int (dh_memberCount selected) @ '' members)'')))
          else if \<exists>g\<in>set (admingroups s). toLowerCase (ag_name g) = toLowerCase (dh_name selected) \<or>
                    toLowerCase (ag_distinguishedName g) = toLowerCase (dh_distinguishedName selected)
          then (s, Inl (Conflict ''AD admin group already exists''))
          else (case privilege_approval E s req (gb_role body) ''ADMIN_DIRECTORY_GROUP'' (toLowerCase (dh_distinguishedName selected))
                       (trim (gb_justification body)) of
              (s1, Inl e) \<Rightarrow> (s1, Inl e)
            | (s1, Inr approvalId) \<Rightarrow>
                (case lifecycle E (gb_validUntil body) (gb_validFrom body) of
                   Inl e \<Rightarrow> (s1, Inl e)
                 | Inr dates \<Rightarrow>
                     (let g = new_group E s1 selected body dates;
                          s2 = record_audit E (s1\<lparr>admingroups := admingroups s1 @ [g], uuid_next := Suc (uuid_next s1)\<rparr>) req
                                 ''admin-directory-group.create'' (''admin-directory-group:'' @ ag_id g) Success None
                      in case execute_approval s2 approvalId of
                           (s3, Inl e) \<Rightarrow> (s3, Inl e)
                         | (s3, Inr _) \<Rightarrow> (s3, Inr g)))))"

definition removeGroup :: "env \<Rightarrow> db \<Rightarrow> request \<Rightarrow> string \<Rightarrow> db \<times> unit outcome" where
  "removeGroup E s req i =
     (if \<forall>g\<in>set (admingroups s). ag_id g \<noteq> i then (s, Inl NotFound)
      else (record_audit E (s\<lparr>admingroups := delete_rows (\<lambda>g. ag_id g = i) (admingroups s)\<rparr>) req
              ''admin-directory-group.delete'' (''admin-directory-group:'' @ i) Success None, Inr ()))"

definition reviewGroup :: "env \<Rightarrow> db \<Rightarrow> request \<Rightarrow> string \<Rightarrow> db \<times> unit outcome" where
  "reviewGroup E s req i =
     (if \<forall>g\<in>set (admingroups s). ag_id g \<noteq> i then (s, Inl (InternalError ''Record to update not found''))
      else (record_audit E (s\<lparr>admingroups := update_rows (\<lambda>g. ag_id g = i)
                (\<lambda>g. g\<lparr>ag_lastReviewedAt := Some (now E), ag_reviewDueAt := Some (now E + 180 * 24 * 60 * 60 * 1000)\<rparr>) (admingroups s)\<rparr>) req
              ''admin-directory-group.review'' (''admin-directory-group:'' @ i) Success None, Inr ()))"

record permissions_body =
  pb_canManageDocuments :: bool
  pb_canPublishDocuments :: bool
  pb_canDeleteDocuments :: bool

definition permissions_consistent :: "permissions_body \<Rightarrow> bool" where
  "permissions_consistent body = (\<not> (\<not> pb_canManageDocuments body \<and> (pb_canPublishDocuments body \<or> pb_canDeleteDocuments body)))"

definition updateModeratorGroupPermissions :: "env \<Rightarrow> db \<Rightarrow> request \<Rightarrow> string \<Rightarrow> permissions_body \<Rightarrow> db \<times> unit outcome" where
  "updateModeratorGroupPermissions E s req i body =
     (if \<not> permissions_consistent body then (s, Inl (BadRequest ''Document management is required to publish, archive or delete''))
      else if \<not> some_and (\<lambda>g. ag_role g = MODERATOR) (find_first (\<lambda>g. ag_id g = i) (admingroups s))
      then (s, Inl (BadRequest ''Only moderator permissions can be edited here''))
      else (record_audit E (s\<lparr>admingroups := update_rows (\<lambda>g. ag_id g = i)
                (\<lambda>g. g\<lparr>ag_canManageDocuments := pb_canManageDocuments body, ag_canPublishDocuments := pb_canPublishDocuments body,
                       ag_canDeleteDocuments := pb_canDeleteDocuments body\<rparr>) (admingroups s)\<rparr>) req
              ''moderator-directory-group.permissions'' (''moderator-group:'' @ i) Success None, Inr ()))"

section \<open>Accounts\<close>

record account_body =
  ab_username :: string
  ab_displayName :: string
  ab_source :: account_source
  ab_password :: "string option"
  ab_justification :: string
  ab_validFrom :: "time option"
  ab_validUntil :: "time option"
  ab_role :: "account_role option"

definition created_account :: "env \<Rightarrow> auth_io \<Rightarrow> nat list \<Rightarrow> db \<Rightarrow> account_body \<Rightarrow> time option \<times> time option \<times> time \<times> time \<Rightarrow> account_row" where
  "created_account E D salt s body dates =
     (case dates of (validFrom, validUntil, reviewed, due) \<Rightarrow>
       (new_account E s (trim (ab_username body)) (trim (ab_displayName body)) (ab_source body)
          (if ab_source body = LOCAL then Some (hashPassword (di_scrypt D) salt (the (ab_password body))) else None))
       \<lparr>ac_role := (case ab_role body of None \<Rightarrow> ADMIN | Some r \<Rightarrow> r), ac_justification := Some (trim (ab_justification body)),
        ac_validFrom := validFrom, ac_validUntil := validUntil, ac_lastReviewedAt := Some reviewed, ac_reviewDueAt := Some due\<rparr>)"

definition create_account :: "env \<Rightarrow> auth_io \<Rightarrow> nat list \<Rightarrow> db \<Rightarrow> request \<Rightarrow> account_body \<Rightarrow> db \<times> account_row outcome" where
  "create_account E D salt s req body =
     (if ab_source body = LOCAL \<and> Option.bind (ab_password body) or_null = None
      then (s, Inl (BadRequest ''A password is required for a local admin''))
      else (case privilege_approval E s req (ab_role body) ''ADMIN_ACCOUNT'' (toLowerCase (trim (ab_username body)))
                   (trim (ab_justification body)) of
          (s1, Inl e) \<Rightarrow> (s1, Inl e)
        | (s1, Inr approvalId) \<Rightarrow>
            (case lifecycle E (ab_validUntil body) (ab_validFrom body) of
               Inl e \<Rightarrow> (s1, Inl e)
             | Inr dates \<Rightarrow>
                 (let a = created_account E D salt s1 body dates
                  in case insert_account s1 a of
                       Inl e \<Rightarrow> (s1, Inl e)
                     | Inr s2 \<Rightarrow>
                         (let s3 = record_audit E s2 req ''admin-account.create'' (''admin:'' @ ac_id a) Success None
                          in case execute_approval s3 approvalId of
                               (s4, Inl e) \<Rightarrow> (s4, Inl e)
                             | (s4, Inr _) \<Rightarrow> (s4, Inr a))))))"

definition change_account :: "(account_row \<Rightarrow> bool) \<Rightarrow> (account_row \<Rightarrow> account_row) \<Rightarrow> db \<Rightarrow> db" where
  "change_account p f s = s\<lparr>accounts := update_rows p f (accounts s)\<rparr>"

definition reviewAccount :: "env \<Rightarrow> db \<Rightarrow> request \<Rightarrow> string \<Rightarrow> db \<times> unit outcome" where
  "reviewAccount E s req i =
     (if \<forall>a\<in>set (accounts s). ac_id a \<noteq> i then (s, Inl (InternalError ''Record to update not found''))
      else (record_audit E (change_account (\<lambda>a. ac_id a = i)
                (\<lambda>a. a\<lparr>ac_lastReviewedAt := Some (now E), ac_reviewDueAt := Some (now E + 180 * 24 * 60 * 60 * 1000)\<rparr>) s) req
              ''admin-account.review'' (''admin:'' @ i) Success None, Inr ()))"

definition updateModeratorPermissions :: "env \<Rightarrow> db \<Rightarrow> request \<Rightarrow> string \<Rightarrow> permissions_body \<Rightarrow> db \<times> unit outcome" where
  "updateModeratorPermissions E s req i body =
     (if \<not> permissions_consistent body then (s, Inl (BadRequest ''Document management is required to publish, archive or delete''))
      else if \<not> some_and (\<lambda>a. ac_role a = MODERATOR) (find_first (\<lambda>a. ac_id a = i) (accounts s))
      then (s, Inl (BadRequest ''Only moderator permissions can be edited here''))
      else (record_audit E (change_account (\<lambda>a. ac_id a = i)
                (\<lambda>a. a\<lparr>ac_canManageDocuments := pb_canManageDocuments body, ac_canPublishDocuments := pb_canPublishDocuments body,
                       ac_canDeleteDocuments := pb_canDeleteDocuments body\<rparr>) s) req
              ''moderator.permissions'' (''moderator:'' @ i) Success None, Inr ()))"

definition active_sessions :: "env \<Rightarrow> db \<Rightarrow> adminsession_row list" where
  "active_sessions E s = sort_key (\<lambda>x. - as_lastUsedAt x) (filter (\<lambda>x. now E < as_expiresAt x) (adminsessions s))"

definition revokeSession :: "env \<Rightarrow> db \<Rightarrow> request \<Rightarrow> string \<Rightarrow> db \<times> unit outcome" where
  "revokeSession E s req i =
     (if \<forall>x\<in>set (adminsessions s). as_id x \<noteq> i then (s, Inl NotFound)
      else (record_audit E (s\<lparr>adminsessions := delete_rows (\<lambda>x. as_id x = i) (adminsessions s)\<rparr>) req
              ''admin-session.revoke'' (''admin-session:'' @ i) Success None, Inr ()))"

section \<open>One's own account\<close>

text \<open>\<open>/^data:image\/(png|jpeg|webp);base64,[a-z0-9+/=]+$/iu\<close>.\<close>

definition photo_pattern :: "string \<Rightarrow> bool" where
  "photo_pattern photo =
     list_ex (\<lambda>p. startsWith (toLowerCase photo) p \<and>
         (let rest = drop (length p) photo
          in rest \<noteq> [] \<and> list_all (\<lambda>c. is_digit c \<or> (CHR ''a'' \<le> lower_char c \<and> lower_char c \<le> CHR ''z'') \<or> c \<in> {CHR ''+'', CHR ''/'', CHR ''=''}) rest))
       [''data:image/png;base64,'', ''data:image/jpeg;base64,'', ''data:image/webp;base64,'']"

definition own_account :: "db \<Rightarrow> request \<Rightarrow> account_row option" where
  "own_account s req = find_first (\<lambda>a. ac_username a = rq_username req) (accounts s)"

definition put_preference :: "db \<Rightarrow> string \<Rightarrow> string \<Rightarrow> string option \<Rightarrow> db" where
  "put_preference s identity displayName photo =
     s\<lparr>preferences := (if \<exists>p\<in>set (preferences s). up_identity p = identity
          then update_rows (\<lambda>p. up_identity p = identity) (\<lambda>p. p\<lparr>up_adminDisplayName := Some displayName, up_adminProfilePhoto := photo\<rparr>) (preferences s)
          else preferences s @ [\<lparr>up_identity = identity, up_adminDisplayName = Some displayName, up_adminProfilePhoto = photo\<rparr>])\<rparr>"

definition profile_update :: "env \<Rightarrow> db \<Rightarrow> request \<Rightarrow> string \<Rightarrow> string option \<Rightarrow> db \<times> unit outcome" where
  "profile_update E s req displayNameValue profilePhotoValue =
     (let photo = Option.bind profilePhotoValue or_null; displayName = trim displayNameValue
      in if some_and (\<lambda>p. \<not> photo_pattern p) photo then (s, Inl (BadRequest ''Invalid profile image''))
         else (let s1 = (case own_account s req of
                   Some a \<Rightarrow> change_account (\<lambda>y. ac_id y = ac_id a) (\<lambda>y. y\<lparr>ac_displayName := displayName, ac_profilePhoto := photo\<rparr>) s
                 | None \<Rightarrow> put_preference s (rq_username req) displayName photo)
               in (record_audit E s1 req ''admin-account.profile'' ''admin:self'' Success None, Inr ())))"

definition change_password :: "env \<Rightarrow> auth_io \<Rightarrow> nat list \<Rightarrow> db \<Rightarrow> request \<Rightarrow> string \<Rightarrow> string \<Rightarrow> db \<times> unit outcome" where
  "change_password E D salt s req currentPassword newPassword =
     (case own_account s req of
        None \<Rightarrow> (s, Inl (BadRequest ''Current password is invalid''))
      | Some a \<Rightarrow>
          if \<not> verifyPassword (di_scrypt D) currentPassword (ac_passwordHash a) then (s, Inl (BadRequest ''Current password is invalid''))
          else (let s1 = change_account (\<lambda>y. ac_id y = ac_id a) (\<lambda>y. y\<lparr>ac_passwordHash := Some (hashPassword (di_scrypt D) salt newPassword)\<rparr>) s;
                    s2 = s1\<lparr>adminsessions := delete_rows (\<lambda>x. as_adminAccountId x = ac_id a) (adminsessions s1)\<rparr>
                in (record_audit E s2 req ''admin-account.password'' ''admin:self'' Success None, Inr ())))"

definition setupMfa :: "db \<Rightarrow> request \<Rightarrow> bytes \<Rightarrow> db \<times> string outcome" where
  "setupMfa s req random =
     (if own_account s req = None then (s, Inl (InternalError ''Record to update not found''))
      else (change_account (\<lambda>a. ac_username a = rq_username req)
              (\<lambda>a. a\<lparr>ac_mfaSecret := Some (newMfaSecret random), ac_mfaEnabled := False\<rparr>) s, Inr (newMfaSecret random)))"

definition confirmMfa :: "env \<Rightarrow> auth_io \<Rightarrow> db \<Rightarrow> request \<Rightarrow> string \<Rightarrow> db \<times> unit outcome" where
  "confirmMfa E D s req code =
     (case own_account s req of
        None \<Rightarrow> (s, Inl (BadRequest ''Invalid MFA code''))
      | Some a \<Rightarrow>
          (case Option.bind (ac_mfaSecret a) or_null of
             None \<Rightarrow> (s, Inl (BadRequest ''Invalid MFA code''))
           | Some secret \<Rightarrow>
               (case verifyTotp (di_hmac D) (now E) secret code of
                  Inl e \<Rightarrow> (s, Inl e)
                | Inr False \<Rightarrow> (s, Inl (BadRequest ''Invalid MFA code''))
                | Inr True \<Rightarrow>
                    (record_audit E (change_account (\<lambda>y. ac_id y = ac_id a) (\<lambda>y. y\<lparr>ac_mfaEnabled := True\<rparr>) s) req
                       ''admin-account.mfa-enable'' ''admin:self'' Success None, Inr ()))))"

definition disableMfa :: "env \<Rightarrow> db \<Rightarrow> request \<Rightarrow> db \<times> unit outcome" where
  "disableMfa E s req =
     (if own_account s req = None then (s, Inl (InternalError ''Record to update not found''))
      else (record_audit E (change_account (\<lambda>a. ac_username a = rq_username req) (\<lambda>a. a\<lparr>ac_mfaEnabled := False, ac_mfaSecret := None\<rparr>) s) req
              ''admin-account.mfa-disable'' ''admin:self'' Success None, Inr ()))"

section \<open>Disabling and removal\<close>

text \<open>The deletion of an account takes its sessions with it.\<close>

definition remove_account :: "env \<Rightarrow> db \<Rightarrow> request \<Rightarrow> string \<Rightarrow> db \<times> unit outcome" where
  "remove_account E s req i =
     (case find_first (\<lambda>a. ac_id a = i) (accounts s) of
        None \<Rightarrow> (s, Inl NotFound)
      | Some a \<Rightarrow>
          if ac_primary a then (s, Inl (BadRequest ''The primary administrator cannot be removed''))
          else (record_audit E (s\<lparr>accounts := delete_rows (\<lambda>y. ac_id y = i) (accounts s),
                    adminsessions := delete_rows (\<lambda>x. as_adminAccountId x = i) (adminsessions s)\<rparr>) req
                  ''admin-account.delete'' (''admin:'' @ i) Success None, Inr ()))"

definition setActive :: "env \<Rightarrow> db \<Rightarrow> request \<Rightarrow> string \<Rightarrow> bool \<Rightarrow> db \<times> unit outcome" where
  "setActive E s req i active =
     (case find_first (\<lambda>a. ac_id a = i) (accounts s) of
        None \<Rightarrow> (s, Inl NotFound)
      | Some a \<Rightarrow>
          if ac_primary a \<and> \<not> active then (s, Inl (BadRequest ''The primary administrator cannot be disabled''))
          else (let s1 = change_account (\<lambda>y. ac_id y = i) (\<lambda>y. y\<lparr>ac_active := active\<rparr>) s;
                    s2 = (if active then s1 else s1\<lparr>adminsessions := delete_rows (\<lambda>x. as_adminAccountId x = i) (adminsessions s1)\<rparr>)
                in (record_audit E s2 req (if active then ''admin-account.enable'' else ''admin-account.disable'') (''admin:'' @ i) Success None,
                    Inr ())))"

section \<open>The portal is never without its administrator\<close>

text \<open>An account that can always sign in: primary, active, local with a password, with all rights and without an end.\<close>

definition chief :: "account_row \<Rightarrow> bool" where
  "chief a \<longleftrightarrow> ac_primary a \<and> ac_active a \<and> ac_source a = LOCAL \<and> ac_role a = ADMIN \<and> ac_validFrom a = None \<and> ac_validUntil a = None \<and>
     ac_passwordHash a \<noteq> None"

definition staffed :: "account_row list \<Rightarrow> bool" where
  "staffed rows \<longleftrightarrow> distinct (map ac_id rows) \<and> (\<exists>a\<in>set rows. chief a)"

lemma staffed_update: "staffed rows \<Longrightarrow> (\<And>y. ac_id (f y) = ac_id y) \<Longrightarrow> (\<And>y. chief y \<Longrightarrow> chief (f y)) \<Longrightarrow> staffed (update_rows p f rows)"
proof -
  assume s: "staffed rows" and i: "\<And>y. ac_id (f y) = ac_id y" and c: "\<And>y. chief y \<Longrightarrow> chief (f y)"
  from s obtain a where "a \<in> set rows" "chief a" by (auto simp: staffed_def)
  then have "(if p a then f a else a) \<in> set (update_rows p f rows)" "chief (if p a then f a else a)" using c by (auto simp: set_update_rows)
  moreover have "distinct (map ac_id (update_rows p f rows))" using s by (simp add: staffed_def map_update_rows i)
  ultimately show ?thesis unfolding staffed_def by blast
qed

lemma staffed_add: "staffed rows \<Longrightarrow> ac_id a \<notin> ac_id ` set rows \<Longrightarrow> staffed (rows @ [a])"
  by (auto simp: staffed_def)

lemma staffed_delete: "staffed rows \<Longrightarrow> find_first (\<lambda>a. ac_id a = i) rows = Some a \<Longrightarrow> \<not> ac_primary a \<Longrightarrow> staffed (delete_rows (\<lambda>y. ac_id y = i) rows)"
  unfolding staffed_def delete_rows_def by (auto simp: chief_def distinct_map inj_on_def dest!: find_first_Some)

lemma staffed_activate: "staffed rows \<Longrightarrow> find_first (\<lambda>a. ac_id a = i) rows = Some a \<Longrightarrow> \<not> (ac_primary a \<and> \<not> b) \<Longrightarrow>
    staffed (update_rows (\<lambda>y. ac_id y = i) (\<lambda>y. y\<lparr>ac_active := b\<rparr>) rows)"
proof (cases b)
  case True
  assume "staffed rows"
  then show ?thesis using True by (intro staffed_update) (simp_all add: chief_def)
next
  case False
  assume s: "staffed rows" and f: "find_first (\<lambda>a. ac_id a = i) rows = Some a" and p: "\<not> (ac_primary a \<and> \<not> b)"
  from s obtain c where c: "c \<in> set rows" "chief c" by (auto simp: staffed_def)
  have "ac_id c \<noteq> i"
  proof
    assume "ac_id c = i"
    then have "c = a" using find_first_Some [OF f] c(1) s by (auto simp: staffed_def distinct_map inj_on_def)
    then show False using c(2) p False by (simp add: chief_def)
  qed
  then have "c \<in> set (update_rows (\<lambda>y. ac_id y = i) (\<lambda>y. y\<lparr>ac_active := b\<rparr>) rows)" using c(1) by (intro update_rows_frame)
  then show ?thesis using s c(2) by (auto simp: staffed_def map_update_rows)
qed

lemma require_approval_accounts [simp]: "accounts (fst (require_approval E s req op tt ti reason)) = accounts s"
  by (auto simp: require_approval_def notifyApprovers_def enqueue_def Let_def split: option.split)

lemma privilege_approval_accounts: "privilege_approval E s req role tt ti reason = (s1, r) \<Longrightarrow> accounts s1 = accounts s"
  using require_approval_accounts [of E s req "''BROAD_PRIVILEGE''" tt ti reason]
  by (cases "role = Some MODERATOR") (auto simp: privilege_approval_def simp del: require_approval_accounts)

lemma execute_approval_accounts [simp]: "accounts (fst (execute_approval s i)) = accounts s"
  by (simp add: execute_approval_def)

lemma privilege_approval_Inr: "privilege_approval E s req role tt ti reason = (s1, Inr k) \<Longrightarrow> s1 = s"
  by (auto simp: privilege_approval_def elim: require_approval_Inr split: if_splits)

lemma create_account_Inr:
  assumes "create_account E D salt s req body = (s', Inr a)"
  obtains k dates s3 where "privilege_approval E s req (ab_role body) ''ADMIN_ACCOUNT'' (toLowerCase (trim (ab_username body))) (trim (ab_justification body)) = (s, Inr k)"
    and "a = created_account E D salt s body dates" and "accounts s3 = accounts s @ [a]" and "approvals s3 = approvals s" and "execute_approval s3 k = (s', Inr ())"
proof -
  obtain s1 k where p: "privilege_approval E s req (ab_role body) ''ADMIN_ACCOUNT'' (toLowerCase (trim (ab_username body))) (trim (ab_justification body)) = (s1, Inr k)"
    using assms by (auto simp: create_account_def split: if_splits prod.splits sum.splits)
  then have [simp]: "s1 = s" by (rule privilege_approval_Inr)
  obtain dates s2 where d: "lifecycle E (ab_validUntil body) (ab_validFrom body) = Inr dates"
    and i: "insert_account s (created_account E D salt s body dates) = Inr s2"
    using assms p by (auto simp: create_account_def Let_def split: if_splits prod.splits sum.splits)
  let ?a = "created_account E D salt s body dates"
  let ?s3 = "record_audit E s2 req ''admin-account.create'' (''admin:'' @ ac_id ?a) Success None"
  have e: "execute_approval ?s3 k = (s', Inr ())" "a = ?a"
    using assms p d i by (auto simp: create_account_def Let_def split: if_splits prod.splits sum.splits)
  moreover have "accounts ?s3 = accounts s @ [?a]" "approvals ?s3 = approvals s" using i by (auto simp: insert_account_def split: if_splits)
  ultimately show ?thesis using that [of k dates ?s3] p by simp
qed

text \<open>The states the server reaches after a first start with the initial administrator configured: further starts, every
  handler that writes accounts, by anybody and in any order, and any change of other tables. New accounts have
  identifiers that are not in use.\<close>

inductive accounts_reachable :: "db \<Rightarrow> bool" where
  first_start: "accounts s = [] \<Longrightarrow> Option.bind (map_option trim (ia_username I)) or_null \<noteq> None \<Longrightarrow> Option.bind (ia_password I) or_null \<noteq> None \<Longrightarrow>
    onModuleInit E D salt I s = (s', Inr ()) \<Longrightarrow> accounts_reachable s'"
| start: "accounts_reachable s \<Longrightarrow> accounts_reachable (fst (onModuleInit E D salt I s))"
| create: "accounts_reachable s \<Longrightarrow> uuid E (uuid_next s) \<notin> ac_id ` set (accounts s) \<Longrightarrow> accounts_reachable (fst (create_account E D salt s req body))"
| review: "accounts_reachable s \<Longrightarrow> accounts_reachable (fst (reviewAccount E s req i))"
| permissions: "accounts_reachable s \<Longrightarrow> accounts_reachable (fst (updateModeratorPermissions E s req i rights))"
| profile: "accounts_reachable s \<Longrightarrow> accounts_reachable (fst (profile_update E s req name photo))"
| password: "accounts_reachable s \<Longrightarrow> accounts_reachable (fst (change_password E D salt s req old new))"
| mfa_setup: "accounts_reachable s \<Longrightarrow> accounts_reachable (fst (setupMfa s req random))"
| mfa_confirm: "accounts_reachable s \<Longrightarrow> accounts_reachable (fst (confirmMfa E D s req code))"
| mfa_disable: "accounts_reachable s \<Longrightarrow> accounts_reachable (fst (disableMfa E s req))"
| removal: "accounts_reachable s \<Longrightarrow> accounts_reachable (fst (remove_account E s req i))"
| activation: "accounts_reachable s \<Longrightarrow> accounts_reachable (fst (setActive E s req i active))"
| sign_in: "accounts_reachable s \<Longrightarrow> accounts_reachable (fst (login E D s u p c tok r))"
| directory_sign_in: "accounts_reachable s \<Longrightarrow> accounts_reachable (fst (directoryLogin E D s lg pw remember tok))"
| admin_session: "accounts_reachable s \<Longrightarrow> accounts_reachable (fst (adminSessionIdentity E s r))"
| enrichment: "accounts_reachable s \<Longrightarrow> accounts_reachable (fst (snd (enrichSsoIdentity E D X c s ident force)))"
| other: "accounts_reachable s \<Longrightarrow> accounts s' = accounts s \<Longrightarrow> accounts_reachable s'"

lemma create_staffed:
  assumes "staffed (accounts s)" and "uuid E (uuid_next s) \<notin> ac_id ` set (accounts s)"
  shows "staffed (accounts (fst (create_account E D salt s req body)))"
proof (cases "create_account E D salt s req body")
  case (Pair s' res)
  show ?thesis
  proof (cases res)
    case (Inr a)
    obtain k dates s3 where "a = created_account E D salt s body dates" "accounts s3 = accounts s @ [a]" "execute_approval s3 k = (s', Inr ())"
      using Pair Inr by (auto elim: create_account_Inr)
    moreover from this have "ac_id a = uuid E (uuid_next s)" by (simp add: created_account_def new_account_def split: prod.split)
    moreover have "accounts s' = accounts s3" using execute_approval_accounts [of s3 k] \<open>execute_approval s3 k = _\<close> by simp
    ultimately show ?thesis using assms Pair staffed_add by simp
  next
    case (Inl e)
    have "accounts s' = accounts s \<or> (\<exists>a. accounts s' = accounts s @ [a] \<and> ac_id a = uuid E (uuid_next s))"
    proof -
      obtain s1 v where v: "privilege_approval E s req (ab_role body) ''ADMIN_ACCOUNT'' (toLowerCase (trim (ab_username body))) (trim (ab_justification body)) = (s1, v)"
        by fastforce
      then have s1: "accounts s1 = accounts s" by (rule privilege_approval_accounts)
      show ?thesis
      proof (cases v)
        case (Inr k)
        then have [simp]: "s1 = s" using v privilege_approval_Inr by blast
        have "\<And>s3 k. accounts (fst (execute_approval s3 k)) = accounts s3" by simp
        then show ?thesis using Pair Inl Inr v
          by (auto simp: create_account_def Let_def insert_account_def created_account_def new_account_def execute_approval_def
              split: if_splits sum.splits prod.splits)
      qed (use Pair v s1 in \<open>auto simp: create_account_def split: if_splits\<close>)
    qed
    then show ?thesis using assms Pair staffed_add by auto
  qed
qed

lemma onModuleInit_accounts: "accounts (fst (onModuleInit E D salt I s)) = accounts s \<or>
    (\<exists>a. accounts (fst (onModuleInit E D salt I s)) = accounts s @ [a] \<and> chief a \<and> \<not> (\<exists>b\<in>set (accounts s). ac_primary b))"
  by (auto simp: onModuleInit_def Let_def insert_account_def new_account_def chief_def split: option.splits sum.splits)

lemma login_accounts: "staffed (accounts s) \<Longrightarrow> staffed (accounts (fst (login E D s u p c tok r)))"
  by (auto simp: login_def failed_login_def reset_login_def chief_def Let_def intro!: staffed_update split: option.split sum.split bool.split)

lemma enrich_accounts: "accounts (fst (snd (enrichSsoIdentity E D X c s i force))) = accounts s \<or>
    (\<exists>p. accounts (fst (snd (enrichSsoIdentity E D X c s i force))) = update_rows p (\<lambda>y. y\<lparr>ac_lastAuthorizedAt := Some (now E)\<rparr>) (accounts s))"
  by (auto simp: enrichSsoIdentity_def touch_roles_def Let_def split: sum.split prod.split option.split)

lemma accounts_staffed: "accounts_reachable s \<Longrightarrow> staffed (accounts s)"
proof (induction rule: accounts_reachable.induct)
  case (first_start s I E D salt s')
  then show ?case
    by (auto simp: onModuleInit_def Let_def insert_account_def new_account_def staffed_def chief_def split: if_splits option.splits)
next
  case (start s E D salt I)
  then show ?case using onModuleInit_accounts [of E D salt I s] by (auto simp: staffed_def chief_def)
next
  case (create s E D salt req body)
  then show ?case by (intro create_staffed)
next
  case (removal s E req i)
  then show ?case by (auto simp: remove_account_def intro: staffed_delete split: option.split)
next
  case (activation s E req i active)
  then show ?case by (auto simp: setActive_def change_account_def Let_def intro: staffed_activate split: option.split)
next
  case (sign_in s E D u p c tok r)
  then show ?case by (intro login_accounts)
next
  case (enrichment s E D X c ident force)
  show ?case using enrich_accounts [of E D X c s ident force]
  proof
    assume "\<exists>p. accounts (fst (snd (enrichSsoIdentity E D X c s ident force))) = update_rows p (\<lambda>y. y\<lparr>ac_lastAuthorizedAt := Some (now E)\<rparr>) (accounts s)"
    then obtain p where "accounts (fst (snd (enrichSsoIdentity E D X c s ident force))) = update_rows p (\<lambda>y. y\<lparr>ac_lastAuthorizedAt := Some (now E)\<rparr>) (accounts s)" ..
    then show ?thesis using enrichment by (auto simp: chief_def intro!: staffed_update)
  qed (use enrichment in simp)
next
  case (admin_session s E r)
  then show ?case by (auto simp: adminSessionIdentity_def touch_session_def chief_def intro!: staffed_update split: option.split)
next
  case (directory_sign_in s E D lg pw remember tok)
  then show ?case
    by (auto simp: directoryLogin_def reconcileDirectoryAdministratorIdentity_def Let_def chief_def intro!: staffed_update split: option.split sum.split)
next
  case (review s E req i)
  then show ?case by (auto simp: reviewAccount_def change_account_def chief_def intro!: staffed_update)
next
  case (permissions s E req i rights)
  then show ?case by (auto simp: updateModeratorPermissions_def change_account_def chief_def intro!: staffed_update)
next
  case (profile s E req name photo)
  then show ?case by (auto simp: profile_update_def change_account_def put_preference_def chief_def Let_def intro!: staffed_update split: option.split)
next
  case (password s E D salt req old new)
  then show ?case by (auto simp: change_password_def change_account_def chief_def Let_def intro!: staffed_update split: option.split)
next
  case (mfa_setup s req random)
  then show ?case by (auto simp: setupMfa_def change_account_def chief_def intro!: staffed_update)
next
  case (mfa_confirm s E D req code)
  then show ?case by (auto simp: confirmMfa_def change_account_def chief_def intro!: staffed_update split: option.split sum.split bool.split)
next
  case (mfa_disable s E req)
  then show ?case by (auto simp: disableMfa_def change_account_def chief_def intro!: staffed_update)
qed simp

text \<open>C7: the portal is never without its administrator. Once the server has started with an initial administrator, whatever
  administrators do afterwards, in any order, there is a primary administrator account that is active, local
  with a password, without an end of validity and with all rights.\<close>

theorem primary_administrator_stays:
  assumes "accounts_reachable s"
  shows "\<exists>a\<in>set (accounts s). ac_primary a \<and> ac_active a \<and> ac_source a = LOCAL \<and> ac_role a = ADMIN \<and>
    ac_validFrom a = None \<and> ac_validUntil a = None \<and> ac_passwordHash a \<noteq> None"
  using accounts_staffed [OF assms] by (auto simp: staffed_def chief_def)

section \<open>New administrators\<close>

text \<open>C8: an administrator is made by two persons. In every reachable state, an account with all rights is created only where
  there is a single holder of privileges, or on a request for this very name whose status is APPROVED and
  that somebody other than the creator has approved; the approval is used up.\<close>

theorem administrator_needs_two_persons:
  assumes "approvals_reachable s" and "create_account E D salt s req body = (s', Inr a)" and "ac_role a = ADMIN"
  shows "sole_administrator s \<or>
    (\<exists>p\<in>set (approvals s). ap_operation p = ''BROAD_PRIVILEGE'' \<and> ap_targetType p = ''ADMIN_ACCOUNT'' \<and>
       ap_targetId p = toLowerCase (ac_username a) \<and> ap_requestedBy p = rq_username req \<and>
       ap_status p = ApApproved \<and> (\<exists>b. ap_approvedBy p = Some b \<and> \<not> same_identity b (rq_username req)) \<and>
       (ap_id p = [] \<or> p\<lparr>ap_status := ApExecuted\<rparr> \<in> set (approvals s')))"
  using assms(2)
proof (cases rule: create_account_Inr)
  case (1 k dates s3)
  have name: "ac_username a = trim (ab_username body)" and role: "ac_role a = (case ab_role body of None \<Rightarrow> ADMIN | Some r \<Rightarrow> r)"
    unfolding 1(2) by (simp_all add: created_account_def new_account_def split: prod.split)
  then have "ab_role body \<noteq> Some MODERATOR" using assms(3) by auto
  then have req: "require_approval E s req ''BROAD_PRIVILEGE'' ''ADMIN_ACCOUNT'' (toLowerCase (trim (ab_username body))) (trim (ab_justification body)) = (s, Inr k)"
    using 1(1) by (simp add: privilege_approval_def)
  from req show ?thesis
  proof (cases rule: require_approval_Inr)
    case (2 p)
    have "second_person p" using approvals_invariant [OF assms(1)] 2(2) by blast
    moreover have "ap_id p = [] \<or> p\<lparr>ap_status := ApExecuted\<rparr> \<in> set (approvals s')"
    proof (cases "k = []")
      case False
      then have "approvals s' = update_rows (\<lambda>a. ap_id a = k) (\<lambda>a. a\<lparr>ap_status := ApExecuted\<rparr>) (approvals s)"
        using execute_approval_rows [of s3 k] 1(4,5) by simp
      then show ?thesis using 2(2,3) by (auto simp: set_update_rows)
    qed (use 2 in simp)
    ultimately show ?thesis using 2 name by (intro disjI2 bexI [of _ p]) (auto simp: second_person_def approval_for_def)
  qed simp
qed

section \<open>Passwords and second factors\<close>

lemma own_account_state: "own_account s req = account_state s (rq_username req)"
  by (simp add: own_account_def account_state_def)

text \<open>C38: changing the password takes effect at once. Afterwards no session of the account gives an identity, and a password is
  accepted exactly when the key derived from it is that of the new password.\<close>

theorem password_change_effective:
  assumes "change_password E D salt s req old new = (s', Inr ())" and "salt \<noteq> []" and "\<forall>n\<in>set salt. n < 256"
    and "\<And>p. length (di_scrypt D p salt 64) = 64 \<and> (\<forall>n\<in>set (di_scrypt D p salt 64). n < 256)"
  shows "\<exists>a b. own_account s req = Some a \<and> own_account s' req = Some b \<and> ac_id b = ac_id a \<and>
    (\<forall>E' token x c. session_account E' s' token = Some (x, c) \<longrightarrow> ac_id c \<noteq> ac_id a) \<and>
    (\<forall>p. verifyPassword (di_scrypt D) p (ac_passwordHash b) \<longleftrightarrow> di_scrypt D p salt 64 = di_scrypt D new salt 64)"
proof -
  obtain a where a: "own_account s req = Some a" using assms(1) by (auto simp: change_password_def split: option.splits)
  let ?f = "\<lambda>y. y\<lparr>ac_passwordHash := Some (hashPassword (di_scrypt D) salt new)\<rparr>"
  have rows: "accounts s' = update_rows (\<lambda>y. ac_id y = ac_id a) ?f (accounts s)"
    and left: "adminsessions s' = delete_rows (\<lambda>x. as_adminAccountId x = ac_id a) (adminsessions s)"
    using assms(1) a by (auto simp: change_password_def change_account_def Let_def split: if_splits)
  have b: "own_account s' req = Some (?f a)"
    using find_update_own [of "rq_username req" "accounts s" a ?f] a by (simp add: own_account_def rows)
  have "ac_id c \<noteq> ac_id a" if "session_account E' s' token = Some (x, c)" for E' token x c
  proof -
    from that have "find_first (\<lambda>x. as_tokenHash x = hashToken E' token) (adminsessions s') = Some x" "find_first (\<lambda>a. ac_id a = as_adminAccountId x) (accounts s') = Some c"
      by (auto simp: session_account_def bind_eq_Some_conv split: if_splits)
    then have "x \<in> set (adminsessions s')" "ac_id c = as_adminAccountId x" by (auto dest!: find_first_Some)
    then show ?thesis by (auto simp: left set_delete_rows)
  qed
  then show ?thesis using a b password_roundtrip [of salt "di_scrypt D", OF assms(2-4)] by (intro exI [of _ a] exI [of _ "?f a"]) simp
qed

lemma find_update_name:
  assumes "find_first (\<lambda>a. ac_username a = u) rows = Some a" and "\<And>y. ac_username (f y) = ac_username y"
  shows "find_first (\<lambda>a. ac_username a = u) (update_rows (\<lambda>y. ac_username y = u) f rows) = Some (f a)"
  using assms(1)
proof (induction rows)
  case (Cons r rows)
  then show ?case by (auto simp: assms(2))
qed simp

lemma setupMfa_own:
  assumes "own_account s req = Some a" and "setupMfa s req random = (s1, Inr secret)"
  shows "own_account s1 req = Some (a\<lparr>ac_mfaSecret := Some secret, ac_mfaEnabled := False\<rparr>) \<and> secret = newMfaSecret random \<and> audits s1 = audits s"
  using assms find_update_name [of "rq_username req" "accounts s" a "\<lambda>a. a\<lparr>ac_mfaSecret := Some secret, ac_mfaEnabled := False\<rparr>"]
  by (auto simp: setupMfa_def own_account_def change_account_def split: if_splits)

text \<open>Preparing a second factor switches the present one off. Without any code, and without a trace in the audit journal, the
  preparation of a new secret leaves the account open to its password alone.\<close>

theorem mfa_setup_disarms:
  assumes "own_account s req = Some a" and "password_valid E D a p" and "ac_lockedUntil a = None"
  shows "\<exists>s'. setupMfa s req random = (s', Inr (newMfaSecret random)) \<and> audits s' = audits s \<and>
    snd (login E D s' (rq_username req) p None tok r) = Inr (tok, False)"
proof -
  obtain s' where s': "setupMfa s req random = (s', Inr (newMfaSecret random))" using assms(1) by (simp add: setupMfa_def)
  let ?b = "a\<lparr>ac_mfaSecret := Some (newMfaSecret random), ac_mfaEnabled := False\<rparr>"
  have b: "own_account s' req = Some ?b" "audits s' = audits s" using setupMfa_own [OF assms(1) s'] by simp_all
  moreover have "password_valid E D ?b p" "mfa_valid E D ?b None = Inr True" using assms(2) by (simp_all add: password_valid_def mfa_valid_def)
  ultimately show ?thesis using s' assms(3) by (simp add: login_def own_account_def)
qed

lemma totp_total:
  assumes "decodeBase32 secret = Some key" and "0 \<le> t" and "\<And>k m. length (hmac k m) = 20"
  shows "\<exists>code. totp hmac secret t = Some code"
proof -
  let ?d = "hmac key (uint64_be (nat (t div 30000)))"
  have "unat (last ?d AND 0x0f) \<le> unat (0x0f :: 8 word)" by (rule word_le_nat_alt [THEN iffD1]) (rule word_and_le1)
  then have "\<not> length ?d < unat (last ?d AND 0x0f) + 4" using assms(3) by simp
  moreover have "?d \<noteq> []" using assms(3) [of key "uint64_be (nat (t div 30000))"] by auto
  moreover have "\<not> t div 30000 < 0" using assms(2) by (simp add: not_less)
  ultimately show ?thesis using assms(1) by (simp add: totp_def Let_def)
qed

lemma verifyTotp_own:
  assumes "decodeBase32 secret = Some key" and "30000 \<le> t" and "\<And>k m. length (hmac k m) = 20" and "totp hmac secret t = Some code"
  shows "verifyTotp hmac t secret code = Inr True"
proof -
  obtain early where "totp hmac secret (t - 30000) = Some early" using totp_total [of secret key "t - 30000" hmac, OF assms(1) _ assms(3)] assms(2) by auto
  moreover have "six_digits code" using totp_six_digits [of hmac secret t code] assms(4) by simp
  ultimately show ?thesis using assms(4) by (simp add: verifyTotp_def)
qed

text \<open>C39: a second factor that was set up protects the account. After the preparation, the code of an authenticator that
  was given the secret shown is confirmed, and from then on a sign-in with the right password and no code
  is refused.\<close>

theorem mfa_enrolment:
  assumes "own_account s req = Some a" and "setupMfa s req random = (s1, Inr secret)" and "random \<noteq> []" and "30000 \<le> now E"
    and "\<And>k m. length (di_hmac D k m) = 20" and "totp (di_hmac D) secret (now E) = Some code"
    and "password_valid E' D a p" and "ac_lockedUntil a = None"
  shows "\<exists>s2. confirmMfa E D s1 req code = (s2, Inr ()) \<and>
    login E' D s2 (rq_username req) p None tok r = (s2, Inl (Unauthorized ''MFA code required or invalid''))"
proof -
  let ?b = "a\<lparr>ac_mfaSecret := Some secret, ac_mfaEnabled := False\<rparr>" and ?f = "\<lambda>y. y\<lparr>ac_mfaEnabled := True\<rparr>"
  have b: "own_account s1 req = Some ?b" and sec: "secret = newMfaSecret random" using setupMfa_own [OF assms(1,2)] by simp_all
  have key: "decodeBase32 secret = Some random" unfolding sec newMfaSecret_def by (rule base32_roundtrip)
  have "secret \<noteq> []"
  proof
    assume "secret = []"
    moreover have "decodeBase32 [] = Some []" by code_simp
    ultimately show False using key assms(3) by simp
  qed
  moreover have "verifyTotp (di_hmac D) (now E) secret code = Inr True" using verifyTotp_own [OF key assms(4) assms(5) assms(6)] by simp
  ultimately obtain s2 where s2: "confirmMfa E D s1 req code = (s2, Inr ())" "accounts s2 = update_rows (\<lambda>y. ac_id y = ac_id ?b) ?f (accounts s1)"
    using b by (simp add: confirmMfa_def or_null_def change_account_def)
  have "find_first (\<lambda>a. ac_username a = rq_username req) (accounts s2) = Some (?f ?b)"
    using find_update_own [of "rq_username req" "accounts s1" ?b ?f] b unfolding s2(2) by (simp add: own_account_def)
  moreover have "password_valid E' D (?f ?b) p" "mfa_valid E' D (?f ?b) None = Inr False" using assms(7) by (simp_all add: password_valid_def mfa_valid_def)
  ultimately show ?thesis using s2(1) assms(8) by (simp add: login_def)
qed

section \<open>Witnesses\<close>

definition start_settings :: initial_admin where
  "start_settings = \<lparr>ia_username = Some ''root'', ia_password = Some ''a long password'', ia_displayName = None\<rparr>"

definition started :: db where
  "started = fst (onModuleInit sample_env sample_auth_io [7] start_settings empty_db)"

lemma start_ok: "onModuleInit sample_env sample_auth_io [7] start_settings empty_db = (started, Inr ())"
proof -
  have "Option.bind (map_option trim (ia_username start_settings)) or_null = Some ''root''" by code_simp
  moreover have "Option.bind (ia_password start_settings) or_null = Some ''a long password''" by code_simp
  ultimately show ?thesis by (simp add: started_def onModuleInit_def Let_def insert_account_def empty_db_def)
qed

lemma started_reachable: "accounts_reachable started"
proof (rule accounts_reachable.first_start [OF _ _ _ start_ok])
  show "Option.bind (map_option trim (ia_username start_settings)) or_null \<noteq> None" by code_simp
qed (simp_all add: empty_db_def start_settings_def or_null_def)

theorem primary_administrator_stays_witness:
  "\<exists>a\<in>set (accounts (fst (setActive sample_env (fst (remove_account sample_env started (admin_request ''root'') ''id0'')) (admin_request ''root'') ''id0'' False))).
     ac_primary a \<and> ac_active a"
  using primary_administrator_stays [OF accounts_reachable.activation [OF accounts_reachable.removal [OF started_reachable]],
      of sample_env sample_env "admin_request ''root''" "''id0''" "admin_request ''root''" "''id0''" False] by blast

definition own_request :: request where
  "own_request = sample_request ''root'' [''ISMS-LOCAL-ADMINS'']"

lemma own_sample: "own_account sample_auth_db own_request = Some sample_account"
  by (simp add: own_account_def own_request_def sample_request_def sample_identity_def sample_auth_db_def sample_account_def)

theorem mfa_setup_disarms_witness:
  "ac_mfaEnabled sample_account \<and>
   (\<exists>s'. setupMfa sample_auth_db own_request [1, 2] = (s', Inr (newMfaSecret [1, 2])) \<and> audits s' = audits sample_auth_db \<and>
     snd (login sample_late sample_auth_io s' ''root'' ''secret'' None ''t'' (sample_http [])) = Inr (''t'', False))"
proof -
  have "rq_username own_request = ''root''" by (simp add: own_request_def sample_request_def sample_identity_def)
  moreover have "password_valid sample_late sample_auth_io sample_account ''secret''" by (simp add: sample_password)
  ultimately show ?thesis
    using mfa_setup_disarms [OF own_sample, of sample_late sample_auth_io "''secret''" "[1, 2]" "''t''" "sample_http []"] sample_unlocked by simp
qed

definition strict_io :: auth_io where
  "strict_io = sample_auth_io\<lparr>di_scrypt := \<lambda>p salt n. replicate n (length p mod 256)\<rparr>"

lemma strict_password: "verifyPassword (di_scrypt strict_io) ''secret'' (ac_passwordHash sample_account)"
  by code_simp

theorem password_change_effective_witness:
  "\<exists>b. own_account (fst (change_password sample_late strict_io [7] sample_auth_db own_request ''secret'' ''new password'')) own_request = Some b \<and>
     verifyPassword (di_scrypt strict_io) ''new password'' (ac_passwordHash b) \<and> \<not> verifyPassword (di_scrypt strict_io) ''secret'' (ac_passwordHash b)"
proof -
  let ?c = "change_password sample_late strict_io [7] sample_auth_db own_request ''secret'' ''new password''"
  have c: "?c = (fst ?c, Inr ())" using strict_password by (simp add: change_password_def own_sample Let_def)
  have keys: "length (di_scrypt strict_io p [7] 64) = 64 \<and> (\<forall>n\<in>set (di_scrypt strict_io p [7] 64). n < 256)" for p by (simp add: strict_io_def)
  have "\<exists>b. own_account (fst ?c) own_request = Some b \<and>
      (\<forall>p. verifyPassword (di_scrypt strict_io) p (ac_passwordHash b) \<longleftrightarrow> di_scrypt strict_io p [7] 64 = di_scrypt strict_io ''new password'' [7] 64)"
    using password_change_effective [OF c _ _ keys] by auto
  then show ?thesis by (auto simp: strict_io_def)
qed

theorem mfa_enrolment_witness:
  "\<exists>s2. confirmMfa sample_late sample_auth_io (fst (setupMfa sample_auth_db own_request [1])) own_request ''000000'' = (s2, Inr ()) \<and>
     snd (login sample_late sample_auth_io s2 ''root'' ''secret'' None ''t'' (sample_http [])) = Inl (Unauthorized ''MFA code required or invalid'')"
proof -
  have root: "rq_username own_request = ''root''" by (simp add: own_request_def sample_request_def sample_identity_def)
  obtain s1 where s1: "setupMfa sample_auth_db own_request [1] = (s1, Inr (newMfaSecret [1]))" by (simp add: setupMfa_def own_sample)
  have key: "decodeBase32 (newMfaSecret [1]) = Some [1]" unfolding newMfaSecret_def by (rule base32_roundtrip)
  have "padStart 6 CHR ''0'' (string_of_nat 0) = ''000000''" by code_simp
  moreover have "bytes_value 0 (replicate 4 0) = 0" by (simp add: bytes_value_def eval_nat_numeral)
  ultimately have code: "totp (di_hmac sample_auth_io) (newMfaSecret [1]) (now sample_late) = Some ''000000''"
    by (simp add: totp_def key sample_auth_io_def sample_late_def Let_def)
  have "\<exists>s2. confirmMfa sample_late sample_auth_io s1 own_request ''000000'' = (s2, Inr ()) \<and>
      login sample_late sample_auth_io s2 (rq_username own_request) ''secret'' None ''t'' (sample_http []) = (s2, Inl (Unauthorized ''MFA code required or invalid''))"
    by (rule mfa_enrolment [OF own_sample s1 _ _ _ code]) (simp_all add: sample_late_def sample_auth_io_def sample_password [unfolded sample_late_def sample_auth_io_def] sample_unlocked)
  then show ?thesis using s1 root by auto
qed

definition staff_db :: db where
  "staff_db = empty_db\<lparr>accounts := [sample_account, sample_account\<lparr>ac_id := ''a2'', ac_username := ''bob'', ac_primary := False\<rparr>]\<rparr>"

definition privilege_trace :: db where
  "privilege_trace =
     (let s1 = fst (require_approval sample_env staff_db own_request ''BROAD_PRIVILEGE'' ''ADMIN_ACCOUNT'' ''carl'' ''deputy'')
      in fst (decide_approval sample_env s1 (admin_request ''bob'') ''id0'' (Some ''APPROVED'')))"

definition carl :: account_body where
  "carl = \<lparr>ab_username = ''Carl'', ab_displayName = ''Carl'', ab_source = DIRECTORY, ab_password = None, ab_justification = ''deputy'',
     ab_validFrom = None, ab_validUntil = None, ab_role = None\<rparr>"

lemma privilege_reachable: "approvals_reachable privilege_trace"
proof -
  have start: "approvals_reachable staff_db" by (rule approvals_reachable.start) (simp add: staff_db_def empty_db_def)
  have "uuid sample_env (uuid_next staff_db) \<notin> ap_id ` set (approvals staff_db)" by (simp add: staff_db_def empty_db_def)
  then show ?thesis unfolding privilege_trace_def Let_def by (intro approvals_reachable.decide approvals_reachable.require start)
qed

lemma privilege_ready: "require_approval sample_env privilege_trace own_request ''BROAD_PRIVILEGE'' ''ADMIN_ACCOUNT'' ''carl'' ''deputy'' = (privilege_trace, Inr ''id0'')"
proof -
  have "snd (require_approval sample_env privilege_trace own_request ''BROAD_PRIVILEGE'' ''ADMIN_ACCOUNT'' ''carl'' ''deputy'') = Inr ''id0''" by code_simp
  then obtain s' where r: "require_approval sample_env privilege_trace own_request ''BROAD_PRIVILEGE'' ''ADMIN_ACCOUNT'' ''carl'' ''deputy'' = (s', Inr ''id0'')"
    by (metis prod.collapse)
  then have "s' = privilege_trace" by (cases rule: require_approval_Inr) auto
  with r show ?thesis by simp
qed

theorem administrator_needs_two_persons_witness:
  "\<exists>s' a. create_account sample_env sample_auth_io [7] privilege_trace own_request carl = (s', Inr a) \<and> ac_role a = ADMIN \<and>
     (\<exists>p\<in>set (approvals privilege_trace). ap_targetId p = ''carl'' \<and> (\<exists>b. ap_approvedBy p = Some b \<and> \<not> same_identity b ''root''))"
proof -
  have few: "\<not> sole_administrator privilege_trace" by code_simp
  have names: "list_all (\<lambda>b. ac_username b \<noteq> ''Carl'') (accounts privilege_trace)" by code_simp
  have there: "\<exists>p\<in>set (approvals privilege_trace). ap_id p = ''id0''" using privilege_ready by (cases rule: require_approval_Inr) auto
  have texts: "trim ''Carl'' = ''Carl''" "toLowerCase ''Carl'' = ''carl''" "trim ''deputy'' = ''deputy''" by code_simp+
  obtain s' a where c: "create_account sample_env sample_auth_io [7] privilege_trace own_request carl = (s', Inr a)" and role: "ac_role a = ADMIN"
    using names there privilege_ready
    by (simp add: create_account_def carl_def texts privilege_approval_def lifecycle_def insert_account_def created_account_def new_account_def
        execute_approval_def Let_def list_all_iff)
  have name: "ac_username a = ''Carl''" using c by (cases rule: create_account_Inr) (simp add: created_account_def new_account_def carl_def texts split: prod.split)
  have root: "rq_username own_request = ''root''" by (simp add: own_request_def sample_request_def sample_identity_def)
  have "\<exists>p\<in>set (approvals privilege_trace). ap_targetId p = ''carl'' \<and> (\<exists>b. ap_approvedBy p = Some b \<and> \<not> same_identity b ''root'')"
    using administrator_needs_two_persons [OF privilege_reachable c role] few unfolding name texts root by blast
  then show ?thesis using c role by blast
qed

end
