(* ===== verification/Document_Diff.thy ===== *)
theory Document_Diff
  imports Js_Dates "HOL-Library.Word" "HOL-Library.Sublist" "HOL-Library.Multiset"
begin

text \<open>
  Comparing two versions of a document (\<^verbatim>\<open>apps/api/src/document-diff.ts\<close>): the lines of a file, the table of longest common
  subsequences in 16-bit cells, the walk through it that collects added, removed and modified lines,
  and the summary. Reading archives and PDF pages and decoding bytes are parameters.
\<close>

section \<open>Text\<close>

type_synonym buffer = "8 word list"

declare length_dropWhile_le [termination_simp]

lemma tl_dropWhile_less [termination_simp]: "length (dropWhile P xs) - Suc 0 < Suc (length xs)"
  using length_dropWhile_le [of P xs] by linarith

text \<open>\<open>s.replace(/p/g, r)\<close> for a literal pattern.\<close>

function replace_all :: "string \<Rightarrow> string \<Rightarrow> string \<Rightarrow> string" where
  "replace_all p r [] = []"
| "replace_all p r (c # cs) =
     (if p \<noteq> [] \<and> take (length p) (c # cs) = p then r @ replace_all p r (drop (length p) (c # cs)) else c # replace_all p r cs)"
  by pat_completeness auto
termination by (relation "measure (\<lambda>(p, r, s). length s)") (auto simp: length_greater_0_conv [symmetric] simp del: length_greater_0_conv)

definition decodeXml :: "string \<Rightarrow> string" where
  "decodeXml v = replace_all ''&#39;'' [CHR 39] (replace_all ''&quot;'' [CHR 34] (replace_all ''&amp;'' ''&''
     (replace_all ''&gt;'' ''>'' (replace_all ''&lt;'' ''<'' v))))"

text \<open>\<open>s.replace(/\s+/g, " ")\<close>.\<close>

fun collapse :: "string \<Rightarrow> string" where
  "collapse [] = []"
| "collapse (c # cs) = (if is_space c then CHR '' '' # collapse (dropWhile is_space cs) else c # collapse cs)"

definition normalize :: "string list \<Rightarrow> string list" where
  "normalize vs = take 500 (new_set (filter (\<lambda>v. 2 \<le> length v) (map (\<lambda>v. trim (collapse v)) vs)))"

text \<open>\<open>s.replace(/<[^>]+>/g, "")\<close>.\<close>

fun strip_tags :: "string \<Rightarrow> string" where
  "strip_tags [] = []"
| "strip_tags (c # cs) =
     (if c = CHR ''<'' \<and> \<not> startsWith cs ''>'' \<and> CHR ''>'' \<in> set cs then strip_tags (tl (dropWhile (\<lambda>d. d \<noteq> CHR ''>'') cs))
      else c # strip_tags cs)"

definition xmlText :: "string \<Rightarrow> string \<Rightarrow> string list" where
  "xmlText xml paragraphTag =
     map decodeXml (split_on (\<lambda>c. c = CHR 10) (strip_tags (replace_all (''</'' @ paragraphTag @ ''>'') [CHR 10] xml)))"

section \<open>Lines of a file\<close>

datatype pdf_item = Marked_Content | Text_Item string bool

text \<open>The archive of an office file as names and texts, the decoded text of a plain file without its byte order
  mark, the items of the pages of a PDF, and the readings of the clock: the first one sets the deadline, the
  next ones are taken before each page.\<close>

record file_io =
  fi_unzip :: "buffer \<Rightarrow> (string \<times> string) list option"
  fi_utf8 :: "buffer \<Rightarrow> string"
  fi_pages :: "buffer \<Rightarrow> pdf_item list list option"
  fi_clock :: "nat \<Rightarrow> time"

text \<open>The number in a name such as \<open>ppt/slides/slide12.xml\<close>.\<close>

definition numbered :: "string \<Rightarrow> string \<Rightarrow> string \<Rightarrow> nat option" where
  "numbered p q name =
     (let mid = take (length name - length p - length q) (drop (length p) name)
      in if name = p @ mid @ q \<and> mid \<noteq> [] \<and> list_all is_digit mid then Some (digits_value mid) else None)"

definition officeText :: "(string \<times> string) list \<Rightarrow> string \<Rightarrow> string list" where
  "officeText archive extension =
     (if extension = ''.pptx''
      then (let slide = numbered ''ppt/slides/slide'' ''.xml''
            in concat (map (\<lambda>(_, content). xmlText content ''a:p'')
                 (sort_key (\<lambda>(name, _). the (slide name)) (filter (\<lambda>(name, _). slide name \<noteq> None) archive))))
      else if extension = ''.docx''
      then (case map_of archive ''word/document.xml'' of None \<Rightarrow> [] | Some xml \<Rightarrow> xmlText xml ''w:p'')
      else (case map_of archive ''xl/sharedStrings.xml'' of None \<Rightarrow> [] | Some xml \<Rightarrow> xmlText xml ''si'') @
           concat (map (\<lambda>(_, content). xmlText content ''row'')
             (filter (\<lambda>(name, _). numbered ''xl/worksheets/sheet'' ''.xml'' name \<noteq> None) archive)))"

fun page_lines :: "string \<Rightarrow> pdf_item list \<Rightarrow> string list" where
  "page_lines line [] = (if line = [] then [] else [line])"
| "page_lines line (Marked_Content # items) = page_lines line items"
| "page_lines line (Text_Item str eol # items) =
     (if eol then (line @ str) # page_lines [] items else page_lines (line @ str) items)"

fun pdf_loop :: "(nat \<Rightarrow> time) \<Rightarrow> time \<Rightarrow> nat \<Rightarrow> pdf_item list list \<Rightarrow> string list" where
  "pdf_loop clock deadline k [] = []"
| "pdf_loop clock deadline k (p # ps) = (if clock k < deadline then page_lines [] p @ pdf_loop clock deadline (Suc k) ps else [])"

definition pdfText :: "file_io \<Rightarrow> buffer \<Rightarrow> (string list \<times> nat) option" where
  "pdfText io buffer = map_option (\<lambda>document.
     let pages = min (length document) 300
     in (pdf_loop (fi_clock io) (fi_clock io 0 + 20000) 1 (take pages document), pages)) (fi_pages io buffer)"

text \<open>\<open>text.split(/\r?\n/u)\<close>.\<close>

definition split_lines :: "string \<Rightarrow> string list" where
  "split_lines text =
     (let parts = split_on (\<lambda>c. c = CHR 10) text
      in map (\<lambda>l. if l \<noteq> [] \<and> last l = CHR 13 then butlast l else l) (butlast parts) @ [last parts])"

definition documentLines :: "file_io \<Rightarrow> buffer \<Rightarrow> string \<Rightarrow> (string list \<times> nat) option" where
  "documentLines io buffer extension =
     (if extension \<in> {''.docx'', ''.xlsx'', ''.pptx''} then map_option (\<lambda>a. (officeText a extension, 0)) (fi_unzip io buffer)
      else if extension \<in> {''.txt'', ''.csv''} then Some (split_lines (fi_utf8 io buffer), 0)
      else if extension = ''.pdf'' then pdfText io buffer
      else Some ([], 0))"

definition extractDocumentParagraphs :: "file_io \<Rightarrow> buffer \<Rightarrow> string \<Rightarrow> string list" where
  "extractDocumentParagraphs io buffer extension =
     (case documentLines io buffer extension of None \<Rightarrow> [] | Some (ls, _) \<Rightarrow> normalize ls)"

definition extractDocumentText :: "file_io \<Rightarrow> buffer \<Rightarrow> string \<Rightarrow> (string \<times> nat) option" where
  "extractDocumentText io buffer extension =
     map_option (\<lambda>(ls, pages). (join [CHR 10] (filter (\<lambda>l. l \<noteq> []) (map (\<lambda>l. trim (collapse l)) ls)), pages))
       (documentLines io buffer extension)"

section \<open>The comparison\<close>

record change_details =
  cd_added :: "string list"
  cd_removed :: "string list"
  cd_modified :: "(string \<times> string) list"

text \<open>One row of the table, from the row below it; the cells are those of a \<open>Uint16Array\<close>.\<close>

fun next_row :: "string \<Rightarrow> string list \<Rightarrow> 16 word list \<Rightarrow> 16 word list" where
  "next_row x (y # ys) (b # bs) =
     (let r = next_row x ys bs in (if x = y then hd bs + 1 else max b (hd r)) # r)"
| "next_row x _ _ = [0]"

fun common_table :: "string list \<Rightarrow> string list \<Rightarrow> 16 word list list" where
  "common_table [] after = [replicate (length after + 1) 0]"
| "common_table (x # xs) after = (let t = common_table xs after in next_row x after (hd t) # t)"

definition flush :: "string list \<Rightarrow> string list \<Rightarrow> string list \<Rightarrow> string list \<Rightarrow> change_details \<Rightarrow> change_details" where
  "flush before after removedRun addedRun result =
     (let removed = filter (\<lambda>l. l \<notin> set after) removedRun;
          added = filter (\<lambda>l. l \<notin> set before) addedRun;
          pairs = min (length removed) (length added)
      in \<lparr>cd_added = cd_added result @ drop pairs added,
          cd_removed = cd_removed result @ drop pairs removed,
          cd_modified = cd_modified result @ map (\<lambda>k. (removed ! k, added ! k)) [0..<pairs]\<rparr>)"

text \<open>The loop \<open>while (i < before.length || j < after.length)\<close>.\<close>

function walk :: "string list \<Rightarrow> string list \<Rightarrow> 16 word list list \<Rightarrow> nat \<Rightarrow> nat \<Rightarrow> string list \<Rightarrow> string list \<Rightarrow> change_details \<Rightarrow> change_details" where
  "walk before after common i j removedRun addedRun result =
     (if i < length before \<or> j < length after
      then (if i < length before \<and> j < length after \<and> before ! i = after ! j
            then walk before after common (Suc i) (Suc j) [] [] (flush before after removedRun addedRun result)
            else if j < length after \<and> (length before \<le> i \<or> common ! (i + 1) ! j \<le> common ! i ! (j + 1))
            then walk before after common i (Suc j) removedRun (addedRun @ [after ! j]) result
            else walk before after common (Suc i) j (removedRun @ [before ! i]) addedRun result)
      else flush before after removedRun addedRun result)"
  by pat_completeness auto
termination by (relation "measure (\<lambda>(b, a, c, i, j, r, s, res). (length b - i) + (length a - j))") auto

declare walk.simps [simp del]

definition diffLines :: "string list \<Rightarrow> string list \<Rightarrow> change_details" where
  "diffLines before after =
     walk before after (common_table before after) 0 0 [] [] \<lparr>cd_added = [], cd_removed = [], cd_modified = []\<rparr>"

definition compareDocumentVersions :: "file_io \<Rightarrow> buffer \<Rightarrow> buffer \<Rightarrow> string \<Rightarrow> change_details \<times> string" where
  "compareDocumentVersions io previous current extension =
     (let changes = diffLines (extractDocumentParagraphs io previous extension) (extractDocumentParagraphs io current extension);
          details = \<lparr>cd_added = take 100 (cd_added changes), cd_removed = take 100 (cd_removed changes),
                     cd_modified = take 100 (cd_modified changes)\<rparr>
      in (details, string_of_nat (length (cd_added details)) @ '' added, '' @ string_of_nat (length (cd_removed details)) @
            '' removed, '' @ string_of_nat (length (cd_modified details)) @ '' modified''))"

section \<open>The reference: longest common subsequences\<close>

fun lcs :: "'a list \<Rightarrow> 'a list \<Rightarrow> nat" where
  "lcs [] ys = 0"
| "lcs (x # xs) [] = 0"
| "lcs (x # xs) (y # ys) = (if x = y then Suc (lcs xs ys) else max (lcs xs (y # ys)) (lcs (x # xs) ys))"

lemma lcs_Nil2 [simp]: "lcs xs [] = 0"
  by (cases xs) simp_all

lemma lcs_upper: "subseq zs xs \<Longrightarrow> subseq zs ys \<Longrightarrow> length zs \<le> lcs xs ys"
proof (induction xs ys arbitrary: zs rule: lcs.induct)
  case (3 x xs y ys)
  show ?case
  proof (cases zs)
    case zs: (Cons z zs')
    show ?thesis
    proof (cases "x = y")
      case True
      show ?thesis
      proof (cases "z = x")
        case True
        with \<open>x = y\<close> 3(1) [of zs'] 3(4,5) zs show ?thesis by simp
      next
        case False
        with \<open>x = y\<close> 3(4,5) zs have "subseq zs xs" "subseq zs ys" by (auto dest: subseq_Cons2_neq)
        with 3(1) \<open>x = y\<close> show ?thesis by fastforce
      qed
    next
      case False
      show ?thesis
      proof (cases "z = x")
        case True
        with False 3(5) zs have "subseq zs ys" by (auto dest: subseq_Cons2_neq)
        with 3(3) [OF False 3(4)] False show ?thesis by simp
      next
        case neq: False
        with 3(4) zs have "subseq zs xs" by (auto dest: subseq_Cons2_neq)
        with 3(2) [OF False _ 3(5)] False show ?thesis by simp
      qed
    qed
  qed simp
qed simp_all

lemma lcs_achieved: "\<exists>zs. subseq zs xs \<and> subseq zs ys \<and> length zs = lcs xs ys"
proof (induction xs ys rule: lcs.induct)
  case (3 x xs y ys)
  show ?case
  proof (cases "x = y")
    case True
    with 3(1) obtain zs where "subseq zs xs" "subseq zs ys" "length zs = lcs xs ys" by blast
    with True show ?thesis by (intro exI [of _ "x # zs"]) simp
  next
    case False
    with 3(2,3) obtain zs zs' where "subseq zs xs" "subseq zs (y # ys)" "length zs = lcs xs (y # ys)"
      "subseq zs' (x # xs)" "subseq zs' ys" "length zs' = lcs (x # xs) ys" by blast
    then have "subseq zs (x # xs) \<and> subseq zs (y # ys)" "subseq zs' (x # xs) \<and> subseq zs' (y # ys)" by (auto intro: list_emb_Cons)
    with False show ?thesis by (cases "lcs (x # xs) ys \<le> lcs xs (y # ys)")
        (use \<open>length zs = _\<close> \<open>length zs' = _\<close> in \<open>auto simp: max_def\<close>)
  qed
qed simp_all

lemma lcs_mono: "subseq a b \<Longrightarrow> subseq c d \<Longrightarrow> lcs a c \<le> lcs b d"
  using lcs_achieved [of a c] lcs_upper [of _ b d] by (metis subseq_order.order_trans)

lemma lcs_append: "lcs a c + lcs b d \<le> lcs (a @ b) (c @ d)"
proof -
  obtain z w where "subseq z a" "subseq z c" "length z = lcs a c" "subseq w b" "subseq w d" "length w = lcs b d"
    using lcs_achieved by metis
  then show ?thesis using lcs_upper [of "z @ w" "a @ b" "c @ d"] by (simp add: list_emb_append_mono)
qed

lemma lcs_le: "lcs xs ys \<le> length ys"
  using lcs_achieved [of xs ys] by (metis list_emb_length)

section \<open>The table\<close>

fun rests :: "'a list \<Rightarrow> 'a list list" where
  "rests [] = [[]]"
| "rests (x # xs) = (x # xs) # rests xs"

definition lcs_row :: "string list \<Rightarrow> string list \<Rightarrow> 16 word list" where
  "lcs_row xs ys = map (\<lambda>s. word_of_nat (lcs xs s)) (rests ys)"

lemma lcs_row_simps [simp]: "lcs_row xs [] = [0]" "lcs_row xs (y # ys) = word_of_nat (lcs xs (y # ys)) # lcs_row xs ys"
  "hd (lcs_row xs ys) = word_of_nat (lcs xs ys)"
  by (cases ys; simp add: lcs_row_def)+

lemma lcs_row_Nil [simp]: "lcs_row [] ys = replicate (Suc (length ys)) 0"
  by (induction ys) simp_all

lemma lcs_row_nth: "j \<le> length ys \<Longrightarrow> lcs_row xs ys ! j = word_of_nat (lcs xs (drop j ys))"
proof (induction ys arbitrary: j)
  case (Cons y ys)
  then show ?case by (cases j) simp_all
qed simp

lemma word_max: "a < 65536 \<Longrightarrow> b < 65536 \<Longrightarrow> max (word_of_nat a :: 16 word) (word_of_nat b) = word_of_nat (max a b)"
  by (auto simp: max_def word_le_nat_alt unat_of_nat)

lemma next_row_lcs: "length ys < 65536 \<Longrightarrow> next_row x ys (lcs_row xs ys) = lcs_row (x # xs) ys"
proof (induction ys)
  case (Cons y ys)
  then have "lcs xs (y # ys) < 65536" "lcs (x # xs) ys < 65536"
    using lcs_le [of xs "y # ys"] lcs_le [of "x # xs" ys] by auto
  with Cons show ?case by (simp add: word_max Let_def)
qed simp

lemma common_table_row: "length ys < 65536 \<Longrightarrow> i \<le> length xs \<Longrightarrow> common_table xs ys ! i = lcs_row (drop i xs) ys"
proof (induction xs arbitrary: i)
  case (Cons x xs)
  have "hd (common_table xs ys) = lcs_row xs ys" using Cons.IH [of 0] Cons.prems(1) by (cases xs) (simp_all add: Let_def)
  with Cons show ?case by (cases i) (simp_all add: next_row_lcs Let_def)
qed simp

lemma common_table_lcs:
  "length ys < 65536 \<Longrightarrow> i \<le> length xs \<Longrightarrow> j \<le> length ys \<Longrightarrow> unat (common_table xs ys ! i ! j) = lcs (drop i xs) (drop j ys)"
  using lcs_le [of "drop i xs" "drop j ys"] by (simp add: common_table_row lcs_row_nth unat_of_nat)

section \<open>What is reported\<close>

lemma map_nth_upt: "n \<le> length xs \<Longrightarrow> map (\<lambda>k. xs ! k) [0..<n] = take n xs"
  by (intro nth_equalityI) simp_all

lemma mset_drop_take: "mset (drop n xs) + mset (take n xs) = mset xs"
  by (metis append_take_drop_id mset_append union_commute)

abbreviation gone :: "change_details \<Rightarrow> string multiset" where
  "gone c \<equiv> mset (cd_removed c) + mset (map fst (cd_modified c))"

abbreviation come :: "change_details \<Rightarrow> string multiset" where
  "come c \<equiv> mset (cd_added c) + mset (map snd (cd_modified c))"

lemma flush_gone: "gone (flush b a r s res) = gone res + mset (filter (\<lambda>l. l \<notin> set a) r)"
proof -
  let ?r = "filter (\<lambda>l. l \<notin> set a) r" and ?s = "filter (\<lambda>l. l \<notin> set b) s"
  have "map fst (cd_modified (flush b a r s res)) = map fst (cd_modified res) @ take (min (length ?r) (length ?s)) ?r"
    by (simp add: flush_def Let_def comp_def map_nth_upt del: upt_Suc)
  then show ?thesis using mset_drop_take [of "min (length ?r) (length ?s)" ?r] by (simp add: flush_def Let_def ac_simps)
qed

lemma flush_come: "come (flush b a r s res) = come res + mset (filter (\<lambda>l. l \<notin> set b) s)"
proof -
  let ?r = "filter (\<lambda>l. l \<notin> set a) r" and ?s = "filter (\<lambda>l. l \<notin> set b) s"
  have "map snd (cd_modified (flush b a r s res)) = map snd (cd_modified res) @ take (min (length ?r) (length ?s)) ?s"
    by (simp add: flush_def Let_def comp_def map_nth_upt del: upt_Suc)
  then show ?thesis using mset_drop_take [of "min (length ?r) (length ?s)" ?s] by (simp add: flush_def Let_def ac_simps)
qed

text \<open>The four ways of the loop.\<close>

lemma walk_end: "length b \<le> i \<Longrightarrow> length a \<le> j \<Longrightarrow> walk b a t i j r s res = flush b a r s res"
  by (subst walk.simps) simp

lemma walk_keep: "i < length b \<Longrightarrow> j < length a \<Longrightarrow> b ! i = a ! j \<Longrightarrow>
    walk b a t i j r s res = walk b a t (Suc i) (Suc j) [] [] (flush b a r s res)"
  by (subst walk.simps) simp

lemma walk_add: "j < length a \<Longrightarrow> \<not> (i < length b \<and> b ! i = a ! j) \<Longrightarrow> length b \<le> i \<or> t ! (i + 1) ! j \<le> t ! i ! (j + 1) \<Longrightarrow>
    walk b a t i j r s res = walk b a t i (Suc j) r (s @ [a ! j]) res"
  by (subst walk.simps) auto

lemma walk_remove: "i < length b \<Longrightarrow> \<not> (j < length a \<and> b ! i = a ! j) \<Longrightarrow> \<not> (j < length a \<and> t ! (i + 1) ! j \<le> t ! i ! (j + 1)) \<Longrightarrow>
    walk b a t i j r s res = walk b a t (Suc i) j (r @ [b ! i]) s res"
  by (subst walk.simps) auto

lemma walk_induct [case_names stop keep add remove]:
  assumes "\<And>i j r s res. length b \<le> i \<Longrightarrow> length a \<le> j \<Longrightarrow> P i j r s res (flush b a r s res)"
    and "\<And>i j r s res w. i < length b \<Longrightarrow> j < length a \<Longrightarrow> b ! i = a ! j \<Longrightarrow> P (Suc i) (Suc j) [] [] (flush b a r s res) w \<Longrightarrow> P i j r s res w"
    and "\<And>i j r s res w. j < length a \<Longrightarrow> \<not> (i < length b \<and> b ! i = a ! j) \<Longrightarrow> length b \<le> i \<or> t ! (i + 1) ! j \<le> t ! i ! (j + 1) \<Longrightarrow>
      P i (Suc j) r (s @ [a ! j]) res w \<Longrightarrow> P i j r s res w"
    and "\<And>i j r s res w. i < length b \<Longrightarrow> \<not> (j < length a \<and> b ! i = a ! j) \<Longrightarrow> \<not> (j < length a \<and> t ! (i + 1) ! j \<le> t ! i ! (j + 1)) \<Longrightarrow>
      P (Suc i) j (r @ [b ! i]) s res w \<Longrightarrow> P i j r s res w"
  shows "P i j r s res (walk b a t i j r s res)"
proof (induction "(length b - i) + (length a - j)" arbitrary: i j r s res rule: less_induct)
  case less
  consider "length b \<le> i" "length a \<le> j" | "i < length b" "j < length a" "b ! i = a ! j"
    | "j < length a" "\<not> (i < length b \<and> b ! i = a ! j)" "length b \<le> i \<or> t ! (i + 1) ! j \<le> t ! i ! (j + 1)"
    | "i < length b" "\<not> (j < length a \<and> b ! i = a ! j)" "\<not> (j < length a \<and> t ! (i + 1) ! j \<le> t ! i ! (j + 1))"
    by linarith
  then show ?case
  proof cases
    case 1
    then show ?thesis using assms(1) by (simp add: walk_end)
  next
    case 2
    then show ?thesis using assms(2) less by (simp add: walk_keep)
  next
    case 3
    then show ?thesis using assms(3) less by (simp add: walk_add)
  next
    case 4
    then show ?thesis using assms(4) less by (simp add: walk_remove)
  qed
qed

lemma walk_gone: "gone (walk b a t i j r s res) = gone res + mset (filter (\<lambda>l. l \<notin> set a) (r @ drop i b))"
proof (induction rule: walk_induct
    [where b = b and a = a and t = t and P = "\<lambda>i j r s res w. gone w = gone res + mset (filter (\<lambda>l. l \<notin> set a) (r @ drop i b))"])
  case (stop i j r s res)
  then show ?case using flush_gone by simp
next
  case (keep i j r s res w)
  then have "b ! i \<in> set a" by (simp add: nth_mem)
  with keep show ?case using flush_gone [of b a r s res] by (simp add: Cons_nth_drop_Suc [symmetric])
qed (simp_all add: Cons_nth_drop_Suc [symmetric])

lemma walk_come: "come (walk b a t i j r s res) = come res + mset (filter (\<lambda>l. l \<notin> set b) (s @ drop j a))"
proof (induction rule: walk_induct
    [where b = b and a = a and t = t and P = "\<lambda>i j r s res w. come w = come res + mset (filter (\<lambda>l. l \<notin> set b) (s @ drop j a))"])
  case (stop i j r s res)
  then show ?case using flush_come by simp
next
  case (keep i j r s res w)
  then have "a ! j \<in> set b" by (metis nth_mem)
  with keep show ?case using flush_come [of b a r s res] by (simp add: Cons_nth_drop_Suc [symmetric])
qed (simp_all add: Cons_nth_drop_Suc [symmetric])

text \<open>C19: the comparison reports exactly the differences. The lines reported as removed, or as the old side of a
  modification, are the lines of the old version that the new one does not have, each as often as it
  stands there; in the same way for the added lines. So a line that only moved is not reported, and nothing
  is reported twice.\<close>

theorem diff_exact:
  "mset (cd_removed (diffLines before after)) + mset (map fst (cd_modified (diffLines before after))) = mset (filter (\<lambda>l. l \<notin> set after) before) \<and>
   mset (cd_added (diffLines before after)) + mset (map snd (cd_modified (diffLines before after))) = mset (filter (\<lambda>l. l \<notin> set before) after)"
  unfolding diffLines_def by (simp only: walk_gone walk_come) simp

section \<open>Where lines are paired\<close>

text \<open>Two lines stand at the same place when a longest common subsequence leaves both out and passes them in the same gap.\<close>

definition same_place :: "string list \<Rightarrow> string list \<Rightarrow> nat \<Rightarrow> nat \<Rightarrow> bool" where
  "same_place before after p q \<longleftrightarrow> p < length before \<and> q < length after \<and>
     lcs (take p before) (take q after) + lcs (drop (Suc p) before) (drop (Suc q) after) = lcs before after"

lemma subseq_take: "m \<le> n \<Longrightarrow> subseq (take m xs) (take n xs)"
  by (metis le_add_diff_inverse take_add subseq_order.order_refl subseq_rev_drop_many)

lemma subseq_drop: "n \<le> m \<Longrightarrow> subseq (drop m xs) (drop n xs)"
  by (metis append_take_drop_id drop_drop le_add_diff_inverse2 subseq_drop_many subseq_order.order_refl)

lemma same_placeI:
  assumes "p < length b" and "q < length a" and "i0 \<le> p" and "p < i" and "j0 \<le> q" and "q < j"
    and "lcs b a \<le> lcs (take i0 b) (take j0 a) + lcs (drop i b) (drop j a)"
  shows "same_place b a p q"
proof -
  have "lcs (take i0 b) (take j0 a) \<le> lcs (take p b) (take q a)" using assms by (intro lcs_mono subseq_take)
  moreover have "lcs (drop i b) (drop j a) \<le> lcs (drop (Suc p) b) (drop (Suc q) a)" using assms by (intro lcs_mono subseq_drop) simp_all
  moreover have "lcs (take p b) (take q a) + lcs (drop (Suc p) b) (drop (Suc q) a) \<le> lcs b a"
  proof -
    have "subseq (take p b @ drop (Suc p) b) b" "subseq (take q a @ drop (Suc q) a) a"
      using id_take_nth_drop [OF assms(1)] id_take_nth_drop [OF assms(2)]
      by (metis subseq_append' list_emb_Cons subseq_order.order_refl)+
    then show ?thesis using lcs_append lcs_mono le_trans by blast
  qed
  ultimately show ?thesis using assms by (simp add: same_place_def)
qed

definition placed :: "string list \<Rightarrow> string list \<Rightarrow> string \<times> string \<Rightarrow> bool" where
  "placed b a m \<longleftrightarrow> (\<exists>p q. same_place b a p q \<and> m = (b ! p, a ! q))"

lemma mem_slice: "x \<in> set (take (i - i0) (drop i0 xs)) \<Longrightarrow> i \<le> length xs \<Longrightarrow> \<exists>p. i0 \<le> p \<and> p < i \<and> x = xs ! p"
  by (auto simp: in_set_conv_nth) (metis add.commute le_add1 less_diff_conv)

lemma flush_placed:
  assumes "i \<le> length b" and "j \<le> length a" and "r = take (i - i0) (drop i0 b)" and "s = take (j - j0) (drop j0 a)"
    and "lcs b a \<le> lcs (take i0 b) (take j0 a) + lcs (drop i b) (drop j a)" and "\<forall>m\<in>set (cd_modified res). placed b a m"
  shows "\<forall>m\<in>set (cd_modified (flush b a r s res)). placed b a m"
proof -
  have "placed b a (x, y)" if mem: "x \<in> set r" "y \<in> set s" for x y
  proof -
    obtain p q where "i0 \<le> p" "p < i" "x = b ! p" "j0 \<le> q" "q < j" "y = a ! q"
      using mem_slice [OF _ assms(1), of x i0] mem_slice [OF _ assms(2), of y j0] mem unfolding assms(3,4) by blast
    moreover from this have "same_place b a p q" using assms(1,2,5) by (intro same_placeI [of p b q a i0 i j0 j]) simp_all
    ultimately show ?thesis unfolding placed_def by blast
  qed
  moreover have "filter P xs ! k \<in> set xs" if "k < length (filter P xs)" for P k and xs :: "string list"
    using nth_mem [OF that] by simp
  ultimately show ?thesis using assms(6) by (auto simp: flush_def Let_def)
qed

lemma lcs_drop: "i < length b \<Longrightarrow> j < length a \<Longrightarrow> lcs (drop i b) (drop j a) =
    (if b ! i = a ! j then Suc (lcs (drop (Suc i) b) (drop (Suc j) a)) else max (lcs (drop (Suc i) b) (drop j a)) (lcs (drop i b) (drop (Suc j) a)))"
  by (simp add: Cons_nth_drop_Suc [symmetric])

lemma slice_snoc: "i0 \<le> i \<Longrightarrow> i < length xs \<Longrightarrow> take (i - i0) (drop i0 xs) @ [xs ! i] = take (Suc i - i0) (drop i0 xs)"
  by (simp add: Suc_diff_le take_Suc_conv_app_nth)

text \<open>The invariant of the walk: the runs are the lines since the last common one, and the lines kept so far can be completed to
  a longest common subsequence.\<close>

definition aligned :: "string list \<Rightarrow> string list \<Rightarrow> nat \<Rightarrow> nat \<Rightarrow> string list \<Rightarrow> string list \<Rightarrow> bool" where
  "aligned b a i j r s \<longleftrightarrow> i \<le> length b \<and> j \<le> length a \<and> (\<exists>i0\<le>i. \<exists>j0\<le>j.
     r = take (i - i0) (drop i0 b) \<and> s = take (j - j0) (drop j0 a) \<and>
     lcs b a \<le> lcs (take i0 b) (take j0 a) + lcs (drop i b) (drop j a))"

lemma aligned_keep:
  assumes "aligned b a i j r s" and "i < length b" and "j < length a" and "b ! i = a ! j"
  shows "aligned b a (Suc i) (Suc j) [] []"
proof -
  obtain i0 j0 where *: "i0 \<le> i" "j0 \<le> j" "lcs b a \<le> lcs (take i0 b) (take j0 a) + lcs (drop i b) (drop j a)"
    using assms(1) by (auto simp: aligned_def)
  have "lcs (take i0 b) (take j0 a) \<le> lcs (take i b) (take j a)" using * by (intro lcs_mono subseq_take)
  moreover have "lcs (take i b) (take j a) + lcs [b ! i] [a ! j] \<le> lcs (take (Suc i) b) (take (Suc j) a)"
    using lcs_append [of "take i b" "take j a" "[b ! i]" "[a ! j]"] assms(2,3) by (simp only: take_Suc_conv_app_nth)
  moreover have "lcs (drop i b) (drop j a) = Suc (lcs (drop (Suc i) b) (drop (Suc j) a))" using assms(2-4) by (simp add: lcs_drop)
  ultimately have "lcs b a \<le> lcs (take (Suc i) b) (take (Suc j) a) + lcs (drop (Suc i) b) (drop (Suc j) a)"
    using *(3) assms(4) by simp
  then show ?thesis using assms(2,3) unfolding aligned_def by (intro conjI exI [of _ "Suc i"] exI [of _ "Suc j"]) simp_all
qed

lemma aligned_add:
  assumes "aligned b a i j r s" and "j < length a" and "lcs (drop i b) (drop j a) = lcs (drop i b) (drop (Suc j) a)"
  shows "aligned b a i (Suc j) r (s @ [a ! j])"
  using assms slice_snoc [of _ j a] unfolding aligned_def by (metis Suc_leI le_SucI)

lemma aligned_remove:
  assumes "aligned b a i j r s" and "i < length b" and "lcs (drop i b) (drop j a) = lcs (drop (Suc i) b) (drop j a)"
  shows "aligned b a (Suc i) j (r @ [b ! i]) s"
  using assms slice_snoc [of _ i b] unfolding aligned_def by (metis Suc_leI le_SucI)

lemma walk_placed:
  assumes small: "length a < 65536" and "aligned b a i j r s" and "\<forall>m\<in>set (cd_modified res). placed b a m"
  shows "\<forall>m\<in>set (cd_modified (walk b a (common_table b a) i j r s res)). placed b a m"
proof -
  have flushed: "\<forall>m\<in>set (cd_modified (flush b a r s res)). placed b a m"
    if "aligned b a i j r s" "\<forall>m\<in>set (cd_modified res). placed b a m" for i j r s res
    using that(1) flush_placed [OF _ _ _ _ _ that(2)] unfolding aligned_def by blast
  have le: "lcs (drop (Suc i) b) (drop j a) \<le> lcs (drop i b) (drop (Suc j) a) \<longleftrightarrow> common_table b a ! (i + 1) ! j \<le> common_table b a ! i ! (j + 1)"
    if "i < length b" "j < length a" for i j
    using common_table_lcs [OF small, of "i + 1" b j] common_table_lcs [OF small, of i b "j + 1"] that by (simp add: word_le_nat_alt)
  have "aligned b a i j r s \<longrightarrow> (\<forall>m\<in>set (cd_modified res). placed b a m) \<longrightarrow>
      (\<forall>m\<in>set (cd_modified (walk b a (common_table b a) i j r s res)). placed b a m)"
  proof (induction rule: walk_induct [where b = b and a = a and t = "common_table b a" and
        P = "\<lambda>i j r s res w. aligned b a i j r s \<longrightarrow> (\<forall>m\<in>set (cd_modified res). placed b a m) \<longrightarrow> (\<forall>m\<in>set (cd_modified w). placed b a m)"])
    case (stop i j r s res)
    then show ?case using flushed by blast
  next
    case (keep i j r s res w)
    then show ?case using flushed aligned_keep by blast
  next
    case (add i j r s res w)
    from add(1-3) have "lcs (drop i b) (drop j a) = lcs (drop i b) (drop (Suc j) a)"
      using le [of i j] lcs_drop [of i b j a] by (cases "i < length b") (simp_all add: max_def)
    with add show ?case using aligned_add by blast
  next
    case (remove i j r s res w)
    from remove(1-3) have "lcs (drop i b) (drop j a) = lcs (drop (Suc i) b) (drop j a)"
      using le [of i j] lcs_drop [of i b j a] by (cases "j < length a") (simp_all add: max_def)
    with remove show ?case using aligned_remove by blast
  qed
  then show ?thesis using assms(2,3) by blast
qed

text \<open>The table holds the lengths of longest common subsequences, without overflow of its 16-bit cells: as long as the new
  version has fewer than 65536 lines, some common subsequence of the remaining lines has the length in the
  cell, and none is longer.\<close>

theorem table_longest:
  assumes "length after < 65536" and "i \<le> length before" and "j \<le> length after"
  shows "(\<exists>zs. subseq zs (drop i before) \<and> subseq zs (drop j after) \<and> length zs = unat (common_table before after ! i ! j)) \<and>
    (\<forall>zs. subseq zs (drop i before) \<and> subseq zs (drop j after) \<longrightarrow> length zs \<le> unat (common_table before after ! i ! j))"
  unfolding common_table_lcs [OF assms] by (blast intro: lcs_achieved lcs_upper)

lemma normalize_bounds: "length (normalize vs) \<le> 500"
  by (simp add: normalize_def)

lemma paragraphs_bounds: "length (extractDocumentParagraphs io buf ext) \<le> 500"
  by (auto simp: extractDocumentParagraphs_def normalize_bounds split: option.split)

text \<open>C18: a line is called modified only when its removal and its addition happen at the same place. For two files of any
  type, each pair reported as modified stands at positions that one longest common subsequence passes in the
  same gap.\<close>

theorem modified_same_place:
  assumes "(x, y) \<in> set (cd_modified (fst (compareDocumentVersions io previous current extension)))"
  shows "\<exists>p q. same_place (extractDocumentParagraphs io previous extension) (extractDocumentParagraphs io current extension) p q \<and>
    x = extractDocumentParagraphs io previous extension ! p \<and> y = extractDocumentParagraphs io current extension ! q"
proof -
  let ?b = "extractDocumentParagraphs io previous extension" and ?a = "extractDocumentParagraphs io current extension"
  have "(x, y) \<in> set (cd_modified (diffLines ?b ?a))"
    using assms by (auto simp: compareDocumentVersions_def Let_def dest: in_set_takeD)
  moreover have "\<forall>m\<in>set (cd_modified (diffLines ?b ?a)). placed ?b ?a m"
    unfolding diffLines_def
  proof (rule walk_placed)
    show "length ?a < 65536" using paragraphs_bounds [of io current extension] by simp
    show "aligned ?b ?a 0 0 [] []" by (simp add: aligned_def)
  qed simp
  ultimately show ?thesis unfolding placed_def by blast
qed

section \<open>Witnesses\<close>

definition sample_files :: file_io where
  "sample_files = \<lparr>fi_unzip = (\<lambda>_. None), fi_utf8 = (\<lambda>b. if b = [] then ''one'' @ [CHR 10] @ ''two'' else ''one'' @ [CHR 10] @ ''three''),
     fi_pages = (\<lambda>_. None), fi_clock = (\<lambda>_. 0)\<rparr>"

lemma sample_paragraphs: "extractDocumentParagraphs sample_files [] ''.txt'' = [''one'', ''two'']"
  "extractDocumentParagraphs sample_files [1] ''.txt'' = [''one'', ''three'']"
  by code_simp+

lemma sample_diff: "cd_modified (diffLines [''one'', ''two''] [''one'', ''three'']) = [(''two'', ''three'')]"
  by code_simp

theorem table_longest_witness:
  "(\<exists>zs. subseq zs [''one'', ''two''] \<and> subseq zs [''one'', ''three''] \<and>
     length zs = unat (common_table [''one'', ''two''] [''one'', ''three''] ! 0 ! 0))"
  using table_longest [of "[''one'', ''three'']" 0 "[''one'', ''two'']" 0] by auto

theorem modified_same_place_witness:
  "cd_modified (fst (compareDocumentVersions sample_files [] [1] ''.txt'')) = [(''two'', ''three'')] \<and>
   (\<exists>p q. same_place [''one'', ''two''] [''one'', ''three''] p q \<and> ''two'' = [''one'', ''two''] ! p \<and> ''three'' = [''one'', ''three''] ! q)"
proof -
  have "cd_modified (fst (compareDocumentVersions sample_files [] [1] ''.txt'')) = [(''two'', ''three'')]"
    by (simp add: compareDocumentVersions_def Let_def sample_paragraphs sample_diff)
  then show ?thesis using modified_same_place [of "''two''" "''three''" sample_files "[]" "[1]" "''.txt''"] by (simp add: sample_paragraphs)
qed

text \<open>Entities are decoded twice. The reader of office texts turns the text \<open>&amp;quot;\<close>, which stands for the six characters
  \<open>&quot;\<close>, into a single quotation mark, because the ampersand is decoded before the quotation marks; \<open>&amp;lt;\<close>, decoded in the
  right order, gives \<open>&lt;\<close>.\<close>

theorem entities_twice: "decodeXml ''&amp;quot;'' = [CHR 34] \<and> decodeXml ''&amp;#39;'' = [CHR 39] \<and> decodeXml ''&amp;lt;'' = ''&lt;''"
  by code_simp

end
