(* ===== verification/Governance.thy ===== *)
theory Governance
  imports Approvals Audit_Chain Content_Index
begin

text \<open>
  The registers of governance (\<^verbatim>\<open>apps/api/src/governance.controller.ts\<close>): exceptions to rules with their designated approver and
  renewal, reviews asked for by hand with their decision and evidence, certification of access rules,
  controls, incidents with corrective actions, saved views and changes of several incidents at once. Retention
  is in theory \<open>Retention\<close>, the sensitive approvals of the same controller in theory \<open>Approvals\<close>.
\<close>

section \<open>Registers\<close>

datatype risk_status = RkPending | RkApproved | RkRejected | RkReviewDue

record risk_row =
  rk_id :: string
  rk_title :: string
  rk_owner :: string
  rk_justification :: string
  rk_compensatingControl :: string
  rk_approver :: string
  rk_status :: risk_status
  rk_expiresAt :: time
  rk_approvedBy :: "string option"
  rk_approvedAt :: "time option"
  rk_reviewNotifiedAt :: "time option"

record control_row =
  co_id :: string
  co_framework :: string
  co_reference :: string
  co_title :: string
  co_applicability :: string
  co_implementationStatus :: string
  co_owner :: string
  co_justification :: "string option"
  co_evidenceDocumentId :: "string option"

record incident_row =
  in_id :: string
  in_reference :: string
  in_title :: string
  in_severity :: string
  in_status :: string
  in_owner :: string
  in_occurredAt :: time
  in_rootCause :: "string option"
  in_lessonsLearned :: "string option"

record action_row =
  ca_id :: string
  ca_incidentId :: string
  ca_description :: string
  ca_owner :: string
  ca_dueAt :: time
  ca_status :: string
  ca_completedAt :: "time option"

record view_row =
  vw_id :: string
  vw_identity :: string
  vw_section :: string
  vw_name :: string
  vw_config :: json

record registers =
  rg_db :: db
  rg_risks :: "risk_row list"
  rg_controls :: "control_row list"
  rg_incidents :: "incident_row list"
  rg_actions :: "action_row list"
  rg_views :: "view_row list"

definition clean :: "string option \<Rightarrow> string option" where
  "clean v = Option.bind v (\<lambda>t. or_null (trim t))"

definition audited :: "env \<Rightarrow> registers \<Rightarrow> request \<Rightarrow> string \<Rightarrow> string \<Rightarrow> json option \<Rightarrow> registers" where
  "audited E g req action resource details = g\<lparr>rg_db := record_audit E (rg_db g) req action resource Success details\<rparr>"

text \<open>The identifier of the next row, and the database after it was taken.\<close>

definition fresh :: "env \<Rightarrow> registers \<Rightarrow> string" where
  "fresh E g = uuid E (uuid_next (rg_db g))"

definition take_id :: "registers \<Rightarrow> registers" where
  "take_id g = g\<lparr>rg_db := (rg_db g)\<lparr>uuid_next := Suc (uuid_next (rg_db g))\<rparr>\<rparr>"

section \<open>Exceptions\<close>

definition renewal_title :: string where
  "renewal_title = ''D'' @ [CHR 0xC3, CHR 0xA9] @ ''rogation '' @ [CHR 0xC3, CHR 0xA0] @ '' renouveler''"

definition renewal_due :: "env \<Rightarrow> risk_row \<Rightarrow> bool" where
  "renewal_due E r = (rk_status r = RkApproved \<and> rk_reviewNotifiedAt r = None \<and> rk_expiresAt r \<le> now E + 30 * 86400000)"

definition renewal_notices :: "risk_row \<Rightarrow> notice_row list" where
  "renewal_notices r =
     map (\<lambda>u. \<lparr>un_identity = u, un_title = renewal_title, un_message = rk_title r @ '' expire le '' @ toISOString (rk_expiresAt r),
               un_resourceType = Some ''risk-exception'', un_resourceId = Some (rk_id r), un_mandatory = True\<rparr>)
       (new_set [rk_owner r, rk_approver r])"

fun refresh_loop :: "env \<Rightarrow> registers \<Rightarrow> risk_row list \<Rightarrow> registers" where
  "refresh_loop E g [] = g"
| "refresh_loop E g (item # rest) =
     refresh_loop E (g\<lparr>rg_risks := update_rows (\<lambda>r. rk_id r = rk_id item)
                          (\<lambda>r. r\<lparr>rk_status := RkReviewDue, rk_reviewNotifiedAt := Some (now E)\<rparr>) (rg_risks g),
                       rg_db := (rg_db g)\<lparr>notices := notices (rg_db g) @ renewal_notices item\<rparr>\<rparr>) rest"

definition refreshRiskExceptions :: "env \<Rightarrow> registers \<Rightarrow> registers" where
  "refreshRiskExceptions E g = refresh_loop E g (take 100 (filter (renewal_due E) (rg_risks g)))"

record risk_body =
  rb_title :: string
  rb_owner :: string
  rb_justification :: string
  rb_compensatingControl :: string
  rb_approver :: string
  rb_expiresAt :: time

definition createRiskException :: "env \<Rightarrow> registers \<Rightarrow> request \<Rightarrow> risk_body \<Rightarrow> registers \<times> risk_row outcome" where
  "createRiskException E g req body =
     (if toLowerCase (trim (rb_owner body)) = toLowerCase (trim (rb_approver body))
      then (g, Inl (BadRequest ''Owner and approver must be distinct''))
      else if rb_expiresAt body \<le> now E then (g, Inl (BadRequest ''Expiry must be in the future''))
      else (let item = \<lparr>rk_id = fresh E g, rk_title = trim (rb_title body), rk_owner = trim (rb_owner body),
                        rk_justification = trim (rb_justification body), rk_compensatingControl = trim (rb_compensatingControl body),
                        rk_approver = trim (rb_approver body), rk_status = RkPending, rk_expiresAt = rb_expiresAt body,
                        rk_approvedBy = None, rk_approvedAt = None, rk_reviewNotifiedAt = None\<rparr>
            in (audited E (take_id (g\<lparr>rg_risks := rg_risks g @ [item]\<rparr>)) req ''risk-exception.create'' (''risk-exception:'' @ rk_id item)
                  (Some (JObj [(''expiresAt'', JDate (rk_expiresAt item))])), Inr item)))"

definition decideRiskException ::
    "env \<Rightarrow> registers \<Rightarrow> request \<Rightarrow> string \<Rightarrow> bool \<Rightarrow> time option \<Rightarrow> registers \<times> unit outcome" where
  "decideRiskException E g req i approve expiresValue =
     (case find_first (\<lambda>r. rk_id r = i) (rg_risks g) of
        None \<Rightarrow> (g, Inl NotFound)
      | Some existing \<Rightarrow>
          if rk_status existing \<notin> {RkPending, RkReviewDue} then (g, Inl (Conflict ''Exception already decided''))
          else if toLowerCase (rk_approver existing) \<noteq> toLowerCase (rq_username req)
          then (g, Inl (Conflict ''Only the designated approver can decide''))
          else (let expiresAt = (case expiresValue of Some t \<Rightarrow> t | None \<Rightarrow> rk_expiresAt existing);
                    status = (if approve then RkApproved else RkRejected)
                in if approve \<and> rk_status existing = RkReviewDue \<and> expiresAt \<le> now E + 30 * 86400000
                   then (g, Inl (BadRequest ''Renewal expiry must be more than 30 days away''))
                   else (audited E (g\<lparr>rg_risks := update_rows (\<lambda>r. rk_id r = i)
                            (\<lambda>r. r\<lparr>rk_status := status, rk_approvedBy := Some (rq_username req), rk_approvedAt := Some (now E),
                                   rk_expiresAt := expiresAt, rk_reviewNotifiedAt := None\<rparr>) (rg_risks g)\<rparr>) req
                           ''risk-exception.decision'' (''risk-exception:'' @ i)
                           (Some (JObj [(''status'', JStr (if approve then ''APPROVED'' else ''REJECTED''))])), Inr ())))"

section \<open>Reviews\<close>

record review_body =
  vb_documentId :: string
  vb_versionId :: "string option"
  vb_owner :: string
  vb_reviewer :: string
  vb_approver :: string
  vb_dueAt :: time

definition assigned_title :: string where
  "assigned_title = ''Revue documentaire assign'' @ [CHR 0xC3, CHR 0xA9] @ ''e''"

definition assigned_message :: "time \<Rightarrow> string" where
  "assigned_message due = ''Une revue documentaire vous a '' @ [CHR 0xC3, CHR 0xA9] @ ''t'' @ [CHR 0xC3, CHR 0xA9] @ '' assign'' @
     [CHR 0xC3, CHR 0xA9] @ ''e avec une '' @ [CHR 0xC3, CHR 0xA9] @ ''ch'' @ [CHR 0xC3, CHR 0xA9] @ ''ance au '' @ toISOString due @ ''.''"

definition newest_version :: "db \<Rightarrow> string \<Rightarrow> version_row option" where
  "newest_version s d = find_first_by (\<lambda>v. - ver_version v) (\<lambda>v. ver_documentId v = d) (versions s)"

definition asked_review :: "env \<Rightarrow> db \<Rightarrow> review_body \<Rightarrow> review_row" where
  "asked_review E s body =
     \<lparr>rv_id = uuid E (uuid_next s), rv_documentId = vb_documentId body,
      rv_versionId = (case Option.bind (vb_versionId body) or_null of Some v \<Rightarrow> Some v | None \<Rightarrow> map_option ver_id (newest_version s (vb_documentId body))),
      rv_owner = trim (vb_owner body), rv_reviewer = trim (vb_reviewer body), rv_approver = trim (vb_approver body),
      rv_status = RvPending, rv_dueAt = vb_dueAt body, rv_decisionComment = None, rv_decidedBy = None, rv_decidedAt = None,
      rv_automaticAnnual = False, rv_automaticPublication = False, rv_createdAt = now E, rv_evidenceObjectKey = None,
      rv_evidenceOriginalName = None, rv_evidenceMimeType = None, rv_evidenceSize = None, rv_evidenceSha256 = None\<rparr>"

definition createReview :: "env \<Rightarrow> db \<Rightarrow> request \<Rightarrow> review_body \<Rightarrow> db \<times> review_row outcome" where
  "createReview E s req body =
     (let participants = map (\<lambda>v. toLowerCase (trim v)) [vb_owner body, vb_reviewer body, vb_approver body]
      in if length (new_set participants) \<noteq> 3 then (s, Inl (BadRequest ''Owner, reviewer and approver must be distinct''))
         else if vb_dueAt body \<le> now E then (s, Inl (BadRequest ''Review due date must be in the future''))
         else if \<forall>d\<in>set (documents s). \<not> (doc_id d = vb_documentId body \<and> doc_deletedAt d = None) then (s, Inl NotFound)
         else if some_and (\<lambda>v. v \<noteq> [] \<and> (\<forall>w\<in>set (versions s). \<not> (ver_id w = v \<and> ver_documentId w = vb_documentId body))) (vb_versionId body)
         then (s, Inl (BadRequest ''Version does not belong to document''))
         else (let review = asked_review E s body;
                   s1 = s\<lparr>reviews := reviews s @ [review], uuid_next := Suc (uuid_next s),
                          notices := notices s @ map (\<lambda>u. \<lparr>un_identity = u, un_title = assigned_title, un_message = assigned_message (rv_dueAt review),
                              un_resourceType = Some ''document-review'', un_resourceId = Some (rv_id review), un_mandatory = True\<rparr>)
                            (new_set [rv_owner review, rv_reviewer review, rv_approver review])\<rparr>;
                   s2 = record_audit E s1 req ''document-review.create'' (''document-review:'' @ rv_id review) Success
                          (Some (JObj [(''documentId'', JStr (rv_documentId review)), (''versionId'', json_opt JStr (rv_versionId review)),
                                       (''dueAt'', JDate (rv_dueAt review))]));
                   (s3, queued) = enqueue E s2 \<lparr>jb_action = ''document-review.create'', jb_resource = ''document-review:'' @ rv_id review,
                                       jb_actor = rq_username req, jb_at = toISOString (now E)\<rparr> (''document-review-create-'' @ rv_id review)
               in (s3, if queued then Inr review else Inl (InternalError ''queue''))))"

definition decision_notices :: "review_row \<Rightarrow> review_row \<Rightarrow> notice_row list" where
  "decision_notices existing review =
     map (\<lambda>u. \<lparr>un_identity = u,
               un_title = (if rv_status review = RvApproved then ''Revue documentaire approuv'' @ [CHR 0xC3, CHR 0xA9] @ ''e''
                           else ''Revue documentaire refus'' @ [CHR 0xC3, CHR 0xA9] @ ''e''),
               un_message = (case Option.bind (rv_decisionComment review) or_null of
                   Some t \<Rightarrow> t | None \<Rightarrow> ''D'' @ [CHR 0xC3, CHR 0xA9] @ ''cision enregistr'' @ [CHR 0xC3, CHR 0xA9] @ ''e''),
               un_resourceType = Some ''document-review'', un_resourceId = Some (rv_id review), un_mandatory = (rv_status review = RvRejected)\<rparr>)
       (new_set [rv_owner existing, rv_reviewer existing, rv_approver existing])"

definition decideReview :: "env \<Rightarrow> db \<Rightarrow> request \<Rightarrow> string \<Rightarrow> review_status \<Rightarrow> string \<Rightarrow> db \<times> review_row outcome" where
  "decideReview E s req i st comment =
     (case canActivate ApproverOnly AdminOnly (rq_groups req) of
        Inl e \<Rightarrow> (s, Inl e)
      | Inr _ \<Rightarrow>
         (case find_first (\<lambda>r. rv_id r = i) (reviews s) of
            None \<Rightarrow> (s, Inl NotFound)
          | Some existing \<Rightarrow>
              if \<not> review_open existing then (s, Inl (Conflict ''Review is already closed''))
              else if same_identity (rv_owner existing) (rq_username req) then (s, Inl (Forbidden ''The owner cannot approve their own review''))
              else (case recordReviewDecision s i (rv_documentId existing)
                      \<lparr>rd_status = st, rd_comment = comment, rd_actor = rq_username req, rd_at = now E\<rparr> of
                  (s1, Inl e) \<Rightarrow> (s1, Inl e)
                | (s1, Inr (review, archived)) \<Rightarrow>
                    (let closed = (st \<noteq> RvInReview);
                         s2 = (if closed then s1\<lparr>notices := notices s1 @ decision_notices existing review\<rparr> else s1);
                         s3 = record_audit E s2 req ''document-review.decision'' (''document-review:'' @ i) Success
                                (Some (JObj [(''before'', JStr (review_status_text (rv_status existing))), (''after'', JStr (review_status_text (rv_status review)))]));
                         s4 = (if archived then record_audit E s3 req ''document.archive'' (''document:'' @ rv_documentId existing) Success
                                 (Some (JObj [(''reason'', JStr ''review.rejected''), (''reviewId'', JStr i)])) else s3);
                         (s5, queued) = (if closed then enqueue E s4 \<lparr>jb_action = ''document-review.decision'', jb_resource = ''document-review:'' @ i,
                                             jb_actor = rq_username req, jb_at = toISOString (now E)\<rparr> (''document-review-decision-'' @ i) else (s4, True))
                     in (s5, if queued then Inr review else Inl (InternalError ''queue''))))))"

section \<open>Evidence of a decision\<close>

definition reviewEvidenceTypes :: "string \<Rightarrow> string list" where
  "reviewEvidenceTypes ext = (if ext = ''.png'' then [''image/png''] else if ext \<in> {''.jpg'', ''.jpeg''} then [''image/jpeg''] else [])"

definition validReviewEvidence :: "string \<Rightarrow> string \<Rightarrow> bool" where
  "validReviewEvidence buffer ext =
     (if ext = ''.png'' then take 8 buffer = [CHR 0x89, CHR 0x50, CHR 0x4E, CHR 0x47, CHR 0x0D, CHR 0x0A, CHR 0x1A, CHR 0x0A]
      else take 2 buffer = [CHR 0xFF, CHR 0xD8])"

record upload =
  uf_originalname :: string
  uf_mimetype :: string
  uf_buffer :: string

text \<open>\<open>basename(name).replace(/[^a-zA-Z0-9._ -]/g, "_")\<close>.\<close>

definition evidence_name :: "string \<Rightarrow> string" where
  "evidence_name name =
     map (\<lambda>c. if is_digit c \<or> (CHR ''A'' \<le> c \<and> c \<le> CHR ''Z'') \<or> (CHR ''a'' \<le> c \<and> c \<le> CHR ''z'') \<or> c \<in> {CHR ''.'', CHR ''_'', CHR '' '', CHR ''-''}
              then c else CHR ''_'')
       (let parts = filter (\<lambda>p. p \<noteq> []) (split_on (\<lambda>c. c = CHR ''/'') name) in if parts = [] then [] else last parts)"

text \<open>\<open>scan\<close> says whether the antivirus calls a file clean, \<open>put\<close> whether the store accepts an object.\<close>

definition attachReviewEvidence ::
    "env \<Rightarrow> (string \<Rightarrow> bool) \<Rightarrow> (string \<Rightarrow> bool) \<Rightarrow> db \<Rightarrow> request \<Rightarrow> string \<Rightarrow> upload option \<Rightarrow> db \<times> unit outcome" where
  "attachReviewEvidence E scan put s req i evidence =
     (case evidence of
        None \<Rightarrow> (s, Inl (BadRequest ''A PNG or JPEG evidence file is required''))
      | Some f \<Rightarrow>
          (case find_first (\<lambda>r. rv_id r = i) (reviews s) of
             None \<Rightarrow> (s, Inl NotFound)
           | Some review \<Rightarrow>
               if rv_decidedAt review = None \<or> map_option toLowerCase (rv_decidedBy review) \<noteq> Some (toLowerCase (rq_username req))
               then (s, Inl (Forbidden ''Only the decision author can attach evidence''))
               else (let ext = toLowerCase (extname (uf_originalname f))
                     in if uf_mimetype f \<notin> set (reviewEvidenceTypes ext) \<or> \<not> validReviewEvidence (uf_buffer f) ext
                        then (s, Inl (BadRequest ''Evidence must be a PNG or JPEG image''))
                        else if \<not> scan (uf_buffer f) then (s, Inl (BadRequest ''Evidence was rejected by antivirus''))
                        else (let key = ''review-evidence/'' @ rv_id review @ ''/'' @ uuid E (uuid_next s) @ ext; digest = sha256 E (uf_buffer f)
                              in if \<not> put key then (s, Inl (InternalError ''storage''))
                                 else (let s1 = s\<lparr>reviews := update_rows (\<lambda>r. rv_id r = i)
                                            (\<lambda>r. r\<lparr>rv_evidenceObjectKey := Some key, rv_evidenceOriginalName := Some (evidence_name (uf_originalname f)),
                                                   rv_evidenceMimeType := Some (uf_mimetype f), rv_evidenceSize := Some (int (length (uf_buffer f))),
                                                   rv_evidenceSha256 := Some digest\<rparr>) (reviews s),
                                          uuid_next := Suc (uuid_next s),
                                          removedobjects := removedobjects s @ (case Option.bind (rv_evidenceObjectKey review) or_null of Some k \<Rightarrow> [k] | None \<Rightarrow> [])\<rparr>
                                       in (record_audit E s1 req ''document-review.evidence'' (''document-review:'' @ i) Success
                                             (Some (JObj [(''size'', JNum (int (length (uf_buffer f)))), (''sha256'', JStr digest)])), Inr ()))))))"

section \<open>Certification of access\<close>

record certification_body =
  cb_lifetime :: bool
  cb_validUntil :: "time option"
  cb_certificationDueAt :: "time option"
  cb_justification :: string

definition certifyAccess :: "env \<Rightarrow> db \<Rightarrow> request \<Rightarrow> string \<Rightarrow> certification_body \<Rightarrow> db \<times> unit outcome" where
  "certifyAccess E s req i body =
     (if \<forall>r\<in>set (rules s). ar_id r \<noteq> i then (s, Inl NotFound)
      else if \<not> cb_lifetime body \<and> (cb_certificationDueAt body = None \<or> cb_validUntil body = None)
      then (s, Inl (BadRequest ''Expiring access requires an expiry and certification due date''))
      else (let dueAt = (if cb_lifetime body then None else cb_certificationDueAt body);
                validUntil = (if cb_lifetime body then None else cb_validUntil body)
            in if some_and (\<lambda>t. t \<le> now E) dueAt then (s, Inl (BadRequest ''Certification due date must be in the future''))
               else if some_and (\<lambda>t. t \<le> now E) validUntil then (s, Inl (BadRequest ''Access expiry date must be in the future''))
               else (record_audit E (s\<lparr>rules := update_rows (\<lambda>r. ar_id r = i)
                         (\<lambda>r. r\<lparr>ar_lifetime := cb_lifetime body, ar_validUntil := validUntil, ar_lastCertifiedAt := Some (now E),
                                ar_lastCertifiedBy := Some (rq_username req), ar_certificationDueAt := dueAt,
                                ar_justification := Some (trim (cb_justification body))\<rparr>) (rules s)\<rparr>) req
                       ''access-rule.certify'' (''access-rule:'' @ i) Success
                       (Some (JObj [(''lifetime'', JBool (cb_lifetime body)), (''certificationDueAt'', json_opt JDate dueAt)])), Inr ())))"

section \<open>Controls\<close>

record control_body =
  kb_framework :: string
  kb_reference :: string
  kb_title :: string
  kb_applicability :: string
  kb_implementationStatus :: string
  kb_owner :: string
  kb_justification :: "string option"
  kb_evidenceDocumentId :: "string option"

definition requireDocument :: "db \<Rightarrow> string \<Rightarrow> bool" where
  "requireDocument s i = (\<exists>d\<in>set (documents s). doc_id d = i \<and> doc_deletedAt d = None)"

definition control_refusal :: "db \<Rightarrow> control_body \<Rightarrow> http_error option" where
  "control_refusal s body =
     (if kb_applicability body = ''NOT_APPLICABLE'' \<and> clean (kb_justification body) = None
      then Some (BadRequest ''Non-applicability requires a justification'')
      else if some_and (\<lambda>d. d \<noteq> [] \<and> \<not> requireDocument s d) (kb_evidenceDocumentId body) then Some NotFound
      else None)"

definition fill_control :: "control_body \<Rightarrow> string \<Rightarrow> control_row" where
  "fill_control body i =
     \<lparr>co_id = i, co_framework = trim (kb_framework body), co_reference = trim (kb_reference body), co_title = trim (kb_title body),
      co_applicability = kb_applicability body, co_implementationStatus = kb_implementationStatus body, co_owner = trim (kb_owner body),
      co_justification = clean (kb_justification body), co_evidenceDocumentId = Option.bind (kb_evidenceDocumentId body) or_null\<rparr>"

definition control_taken :: "registers \<Rightarrow> control_row \<Rightarrow> bool" where
  "control_taken g c = (\<exists>d\<in>set (rg_controls g). co_id d \<noteq> co_id c \<and> co_framework d = co_framework c \<and> co_reference d = co_reference c)"

definition createControl :: "env \<Rightarrow> registers \<Rightarrow> request \<Rightarrow> control_body \<Rightarrow> registers \<times> control_row outcome" where
  "createControl E g req body =
     (case control_refusal (rg_db g) body of
        Some e \<Rightarrow> (g, Inl e)
      | None \<Rightarrow>
          (let c = fill_control body (fresh E g)
           in if \<exists>d\<in>set (rg_controls g). co_framework d = co_framework c \<and> co_reference d = co_reference c
              then (g, Inl (Conflict ''Control reference already exists in framework''))
              else (audited E (take_id (g\<lparr>rg_controls := rg_controls g @ [c]\<rparr>)) req ''compliance-control.create'' (''compliance-control:'' @ co_id c)
                      (Some (JObj [(''framework'', JStr (co_framework c)), (''reference'', JStr (co_reference c))])), Inr c)))"

definition control_state :: "control_row \<Rightarrow> json" where
  "control_state c = JObj [(''applicability'', JStr (co_applicability c)), (''status'', JStr (co_implementationStatus c))]"

definition updateControl :: "env \<Rightarrow> registers \<Rightarrow> request \<Rightarrow> string \<Rightarrow> control_body \<Rightarrow> registers \<times> control_row outcome" where
  "updateControl E g req i body =
     (case find_first (\<lambda>c. co_id c = i) (rg_controls g) of
        None \<Rightarrow> (g, Inl NotFound)
      | Some existing \<Rightarrow>
          (case control_refusal (rg_db g) body of
             Some e \<Rightarrow> (g, Inl e)
           | None \<Rightarrow>
               (let c = fill_control body i
                in if control_taken g c then (g, Inl (InternalError ''Unique constraint failed''))
                   else (audited E (g\<lparr>rg_controls := update_rows (\<lambda>d. co_id d = i) (\<lambda>_. c) (rg_controls g)\<rparr>) req ''compliance-control.update''
                           (''compliance-control:'' @ i) (Some (JObj [(''before'', control_state existing), (''after'', control_state c)])), Inr c))))"

section \<open>Incidents\<close>

record incident_body =
  ib_reference :: string
  ib_title :: string
  ib_severity :: string
  ib_status :: string
  ib_owner :: string
  ib_occurredAt :: time
  ib_rootCause :: "string option"
  ib_lessonsLearned :: "string option"

definition upper_case :: "string \<Rightarrow> string" where
  "upper_case s = map (\<lambda>c. if CHR ''a'' \<le> c \<and> c \<le> CHR ''z'' then char_of (of_char c - 32 :: nat) else c) s"

definition fill_incident :: "incident_body \<Rightarrow> string \<Rightarrow> incident_row" where
  "fill_incident body i =
     \<lparr>in_id = i, in_reference = upper_case (trim (ib_reference body)), in_title = trim (ib_title body), in_severity = ib_severity body,
      in_status = ib_status body, in_owner = trim (ib_owner body), in_occurredAt = ib_occurredAt body,
      in_rootCause = clean (ib_rootCause body), in_lessonsLearned = clean (ib_lessonsLearned body)\<rparr>"

definition settled :: "string \<Rightarrow> bool" where
  "settled status = (status \<in> {''RESOLVED'', ''CLOSED''})"

definition createIncident :: "env \<Rightarrow> registers \<Rightarrow> request \<Rightarrow> incident_body \<Rightarrow> registers \<times> incident_row outcome" where
  "createIncident E g req body =
     (let c = fill_incident body (fresh E g)
      in if \<exists>d\<in>set (rg_incidents g). in_reference d = in_reference c then (g, Inl (Conflict ''Incident reference already exists''))
         else (audited E (take_id (g\<lparr>rg_incidents := rg_incidents g @ [c]\<rparr>)) req ''incident-case.create'' (''incident-case:'' @ in_id c)
                 (Some (JObj [(''reference'', JStr (in_reference c)), (''severity'', JStr (in_severity c))])), Inr c))"

definition updateIncident :: "env \<Rightarrow> registers \<Rightarrow> request \<Rightarrow> string \<Rightarrow> incident_body \<Rightarrow> registers \<times> incident_row outcome" where
  "updateIncident E g req i body =
     (case find_first (\<lambda>c. in_id c = i) (rg_incidents g) of
        None \<Rightarrow> (g, Inl NotFound)
      | Some existing \<Rightarrow>
          if settled (ib_status body) \<and> clean (ib_rootCause body) = None then (g, Inl (BadRequest ''Resolved incidents require a root cause''))
          else (let c = fill_incident body i
                in if \<exists>d\<in>set (rg_incidents g). in_id d \<noteq> i \<and> in_reference d = in_reference c then (g, Inl (InternalError ''Unique constraint failed''))
                   else (audited E (g\<lparr>rg_incidents := update_rows (\<lambda>d. in_id d = i) (\<lambda>_. c) (rg_incidents g)\<rparr>) req ''incident-case.update''
                           (''incident-case:'' @ i) (Some (JObj [(''before'', JStr (in_status existing)), (''after'', JStr (in_status c))])), Inr c)))"

record action_body =
  tb_description :: string
  tb_owner :: string
  tb_dueAt :: time
  tb_status :: string

definition createCorrectiveAction :: "env \<Rightarrow> registers \<Rightarrow> request \<Rightarrow> string \<Rightarrow> action_body \<Rightarrow> registers \<times> action_row outcome" where
  "createCorrectiveAction E g req i body =
     (if \<forall>c\<in>set (rg_incidents g). in_id c \<noteq> i then (g, Inl NotFound)
      else (let a = \<lparr>ca_id = fresh E g, ca_incidentId = i, ca_description = trim (tb_description body), ca_owner = trim (tb_owner body),
                     ca_dueAt = tb_dueAt body, ca_status = tb_status body, ca_completedAt = (if tb_status body = ''DONE'' then Some (now E) else None)\<rparr>
            in (audited E (take_id (g\<lparr>rg_actions := rg_actions g @ [a]\<rparr>)) req ''corrective-action.create'' (''corrective-action:'' @ ca_id a)
                  (Some (JObj [(''incidentId'', JStr i), (''dueAt'', JDate (ca_dueAt a))])), Inr a)))"

section \<open>Several incidents at once\<close>

record bulk_body =
  lb_kind :: string
  lb_ids :: "string list"
  lb_value :: string
  lb_confirmed :: bool

definition previewBulk :: "registers \<Rightarrow> bulk_body \<Rightarrow> incident_row list outcome" where
  "previewBulk g body =
     (let ids = new_set (lb_ids body); targets = filter (\<lambda>c. in_id c \<in> set ids) (rg_incidents g)
      in if ids = [] then Inl (BadRequest ''Select at least one item'')
         else if lb_kind body \<noteq> ''INCIDENT_STATUS'' then Inl (BadRequest ''Reviews must be decided individually with a justification'')
         else if lb_value body \<notin> {''OPEN'', ''INVESTIGATING'', ''CONTAINED'', ''RESOLVED'', ''CLOSED''} then Inl (BadRequest ''Invalid incident status'')
         else if length targets \<noteq> length ids then Inl NotFound
         else if settled (lb_value body) \<and> (\<exists>c\<in>set targets. clean (in_rootCause c) = None)
         then Inl (BadRequest ''Every resolved incident requires a root cause'')
         else Inr targets)"

definition bulkApply :: "env \<Rightarrow> registers \<Rightarrow> request \<Rightarrow> bulk_body \<Rightarrow> registers \<times> incident_row list outcome" where
  "bulkApply E g req body =
     (if \<not> lb_confirmed body then (g, Inl (BadRequest ''Bulk operation requires confirmation''))
      else (case previewBulk g body of
          Inl e \<Rightarrow> (g, Inl e)
        | Inr targets \<Rightarrow>
            (audited E (g\<lparr>rg_incidents := update_rows (\<lambda>c. in_id c \<in> set (lb_ids body)) (\<lambda>c. c\<lparr>in_status := lb_value body\<rparr>) (rg_incidents g)\<rparr>)
               req ''governance.bulk'' (lb_kind body) (Some (JObj [(''count'', JNum (int (length targets))), (''value'', JStr (lb_value body))])),
             Inr targets)))"

section \<open>Saved views\<close>

text \<open>\<open>JSON.stringify\<close>, and \<open>/"(?:__proto__|prototype|constructor)"\s*:/\<close> on its result.\<close>

function stringify :: "json \<Rightarrow> string" where
  "stringify JNull = ''null''"
| "stringify (JBool b) = (if b then ''true'' else ''false'')"
| "stringify (JNum n) = string_of_int n"
| "stringify (JStr t) = json_string t"
| "stringify (JArr vs) = ''['' @ join '','' (map stringify vs) @ '']''"
| "stringify (JObj kvs) = ''{'' @ join '','' (map (\<lambda>kv. json_string (fst kv) @ '':'' @ stringify (snd kv)) kvs) @ ''}''"
  by pat_completeness auto
termination
proof (relation "measure size", goal_cases)
  case 1
  show ?case by simp
next
  case (2 vs x)
  then show ?case by (induction vs) auto
next
  case (3 kvs x)
  then show ?case by (induction kvs) (auto simp: case_prod_beta)
qed

definition forbidden_at :: "string \<Rightarrow> bool" where
  "forbidden_at t = list_ex (\<lambda>k. let p = [CHR 0x22] @ k @ [CHR 0x22] in startsWith t p \<and> startsWith (dropWhile is_space (drop (length p) t)) '':'')
     [''__proto__'', ''prototype'', ''constructor'']"

fun forbidden_key :: "string \<Rightarrow> bool" where
  "forbidden_key [] = False"
| "forbidden_key (c # cs) = (forbidden_at (c # cs) \<or> forbidden_key cs)"

definition saveView :: "env \<Rightarrow> registers \<Rightarrow> request \<Rightarrow> string \<Rightarrow> string \<Rightarrow> json \<Rightarrow> registers \<times> unit outcome" where
  "saveView E g req sectionValue nameValue config =
     (let serialized = stringify config; sec = trim sectionValue; name = trim nameValue;
          own = (\<lambda>v. vw_identity v = rq_username req \<and> vw_section v = sec \<and> vw_name v = name)
      in if 10000 < length serialized \<or> forbidden_key serialized then (g, Inl (BadRequest ''Saved view configuration is invalid''))
         else (let g1 = (if \<exists>v\<in>set (rg_views g). own v then g\<lparr>rg_views := update_rows own (\<lambda>v. v\<lparr>vw_config := config\<rparr>) (rg_views g)\<rparr>
                         else take_id (g\<lparr>rg_views := rg_views g @ [\<lparr>vw_id = fresh E g, vw_identity = rq_username req, vw_section = sec, vw_name = name,
                                                                     vw_config = config\<rparr>]\<rparr>));
                   i = (case find_first own (rg_views g1) of Some v \<Rightarrow> vw_id v | None \<Rightarrow> [])
               in (audited E g1 req ''admin-view.save'' (''admin-view:'' @ i) (Some (JObj [(''section'', JStr sec)])), Inr ())))"

definition deleteView :: "env \<Rightarrow> registers \<Rightarrow> request \<Rightarrow> string \<Rightarrow> registers \<times> unit outcome" where
  "deleteView E g req i =
     (let own = (\<lambda>v. vw_id v = i \<and> vw_identity v = rq_username req)
      in if \<forall>v\<in>set (rg_views g). \<not> own v then (g, Inl NotFound)
         else (audited E (g\<lparr>rg_views := delete_rows own (rg_views g)\<rparr>) req ''admin-view.delete'' (''admin-view:'' @ i) None, Inr ()))"

section \<open>Who decides an exception\<close>

lemma audited_tables [simp]:
  "rg_risks (audited E g req a r d) = rg_risks g" "rg_controls (audited E g req a r d) = rg_controls g"
  "rg_incidents (audited E g req a r d) = rg_incidents g" "rg_actions (audited E g req a r d) = rg_actions g"
  "rg_views (audited E g req a r d) = rg_views g"
  by (simp_all add: audited_def)

lemma take_id_tables [simp]:
  "rg_risks (take_id g) = rg_risks g" "rg_controls (take_id g) = rg_controls g" "rg_incidents (take_id g) = rg_incidents g"
  "rg_actions (take_id g) = rg_actions g" "rg_views (take_id g) = rg_views g"
  by (simp_all add: take_id_def)

text \<open>
  The calls on the register of exceptions in any order. The identifier of a new exception is new; every other
  route leaves the register alone.
\<close>

inductive risks_reachable :: "registers \<Rightarrow> bool" where
  start: "rg_risks g = [] \<Longrightarrow> risks_reachable g"
| create: "risks_reachable g \<Longrightarrow> fresh E g \<notin> rk_id ` set (rg_risks g) \<Longrightarrow> risks_reachable (fst (createRiskException E g req body))"
| refresh: "risks_reachable g \<Longrightarrow> risks_reachable (refreshRiskExceptions E g)"
| decide: "risks_reachable g \<Longrightarrow> risks_reachable (fst (decideRiskException E g req i approve expires))"
| other: "risks_reachable g \<Longrightarrow> rg_risks g' = rg_risks g \<Longrightarrow> risks_reachable g'"

definition sound_exception :: "risk_row \<Rightarrow> bool" where
  "sound_exception r =
     (toLowerCase (rk_owner r) \<noteq> toLowerCase (rk_approver r) \<and>
      (if rk_status r = RkPending then rk_approvedBy r = None \<and> rk_approvedAt r = None
       else map_option toLowerCase (rk_approvedBy r) = Some (toLowerCase (rk_approver r)) \<and> rk_approvedAt r \<noteq> None) \<and>
      (rk_status r = RkReviewDue \<longleftrightarrow> rk_reviewNotifiedAt r \<noteq> None))"

definition sound_exceptions :: "risk_row list \<Rightarrow> bool" where
  "sound_exceptions rows = (distinct (map rk_id rows) \<and> (\<forall>r\<in>set rows. sound_exception r))"

lemma sound_update:
  assumes "sound_exceptions rows" and "\<And>r. p r \<Longrightarrow> rk_id (f r) = rk_id r"
    and "\<And>r. r \<in> set rows \<Longrightarrow> p r \<Longrightarrow> sound_exception (f r)"
  shows "sound_exceptions (update_rows p f rows)"
  using assms by (auto simp: sound_exceptions_def map_update_rows set_update_rows)

definition mark_due :: "env \<Rightarrow> risk_row \<Rightarrow> risk_row" where
  "mark_due E r = r\<lparr>rk_status := RkReviewDue, rk_reviewNotifiedAt := Some (now E)\<rparr>"

lemma refresh_loop_risks:
  "rg_risks (refresh_loop E g due) = map (\<lambda>r. if rk_id r \<in> rk_id ` set due then mark_due E r else r) (rg_risks g)"
proof (induction due arbitrary: g)
  case (Cons item due)
  show ?case unfolding refresh_loop.simps Cons.IH by (auto simp: update_rows_def mark_due_def)
qed simp

lemma refresh_loop_notices:
  "notices (rg_db (refresh_loop E g due)) = notices (rg_db g) @ concat (map renewal_notices due)"
  by (induction due arbitrary: g) auto

text \<open>What one run selects, at most a hundred, and the rows it leaves.\<close>

definition selected :: "env \<Rightarrow> registers \<Rightarrow> risk_row list" where
  "selected E g = take 100 (filter (renewal_due E) (rg_risks g))"

lemma selected_subset: "r \<in> set (selected E g) \<Longrightarrow> r \<in> set (rg_risks g) \<and> renewal_due E r"
  unfolding selected_def by (auto dest: in_set_takeD)

lemma refresh_rows:
  assumes "distinct (map rk_id (rg_risks g))"
  shows "rg_risks (refreshRiskExceptions E g) = map (\<lambda>r. if r \<in> set (selected E g) then mark_due E r else r) (rg_risks g)"
proof -
  have "rk_id r \<in> rk_id ` set (selected E g) \<longleftrightarrow> r \<in> set (selected E g)" if "r \<in> set (rg_risks g)" for r
    using selected_subset key_unique [OF assms _ that] by (metis (no_types, lifting) image_iff)
  then show ?thesis by (simp add: refreshRiskExceptions_def refresh_loop_risks selected_def)
qed

lemma refresh_sound:
  assumes "sound_exceptions (rg_risks g)"
  shows "sound_exceptions (rg_risks (refreshRiskExceptions E g))"
proof -
  have rows: "rg_risks (refreshRiskExceptions E g) = update_rows (\<lambda>r. r \<in> set (selected E g)) (mark_due E) (rg_risks g)"
    using assms refresh_rows by (simp add: sound_exceptions_def update_rows_def)
  show ?thesis unfolding rows
  proof (rule sound_update [OF assms])
    fix r assume "r \<in> set (rg_risks g)" "r \<in> set (selected E g)"
    then show "sound_exception (mark_due E r)"
      using assms selected_subset [of r E g] by (auto simp: sound_exceptions_def sound_exception_def mark_due_def renewal_due_def)
  qed (simp add: mark_due_def)
qed

lemma decide_exception_cases:
  assumes "rg_risks (fst (decideRiskException E g req i approve expires)) \<noteq> rg_risks g"
  obtains ex t where "find_first (\<lambda>r. rk_id r = i) (rg_risks g) = Some ex" and "rk_status ex = RkPending \<or> rk_status ex = RkReviewDue"
    and "toLowerCase (rk_approver ex) = toLowerCase (rq_username req)"
    and "rg_risks (fst (decideRiskException E g req i approve expires)) = update_rows (\<lambda>r. rk_id r = i)
      (\<lambda>r. r\<lparr>rk_status := (if approve then RkApproved else RkRejected), rk_approvedBy := Some (rq_username req), rk_approvedAt := Some (now E),
             rk_expiresAt := t, rk_reviewNotifiedAt := None\<rparr>) (rg_risks g)"
  using assms by (auto simp: decideRiskException_def Let_def split: if_splits option.splits)

lemma decide_sound:
  assumes "sound_exceptions (rg_risks g)"
  shows "sound_exceptions (rg_risks (fst (decideRiskException E g req i approve expires)))"
proof (cases "rg_risks (fst (decideRiskException E g req i approve expires)) = rg_risks g")
  case False
  then obtain ex t where d: "find_first (\<lambda>r. rk_id r = i) (rg_risks g) = Some ex"
    "toLowerCase (rk_approver ex) = toLowerCase (rq_username req)"
    and rows: "rg_risks (fst (decideRiskException E g req i approve expires)) = update_rows (\<lambda>r. rk_id r = i)
      (\<lambda>r. r\<lparr>rk_status := (if approve then RkApproved else RkRejected), rk_approvedBy := Some (rq_username req), rk_approvedAt := Some (now E),
             rk_expiresAt := t, rk_reviewNotifiedAt := None\<rparr>) (rg_risks g)"
    by (rule decide_exception_cases)
  have only: "r = ex" if "r \<in> set (rg_risks g)" "rk_id r = i" for r
    using assms that find_first_Some [OF d(1)] by (auto simp: sound_exceptions_def intro: key_unique)
  show ?thesis unfolding rows
  proof (rule sound_update [OF assms])
    fix r assume "r \<in> set (rg_risks g)" "rk_id r = i"
    then have "r = ex" "sound_exception r" using only assms by (auto simp: sound_exceptions_def)
    with d(2) show "sound_exception (r\<lparr>rk_status := (if approve then RkApproved else RkRejected), rk_approvedBy := Some (rq_username req),
        rk_approvedAt := Some (now E), rk_expiresAt := t, rk_reviewNotifiedAt := None\<rparr>)"
      by (simp add: sound_exception_def)
  qed simp
qed (use assms in simp)

lemma create_sound:
  assumes "sound_exceptions (rg_risks g)" and "fresh E g \<notin> rk_id ` set (rg_risks g)"
  shows "sound_exceptions (rg_risks (fst (createRiskException E g req body)))"
  using assms by (auto simp: createRiskException_def Let_def sound_exceptions_def sound_exception_def)

lemma exceptions_invariant: "risks_reachable g \<Longrightarrow> sound_exceptions (rg_risks g)"
proof (induction rule: risks_reachable.induct)
  case (start g)
  then show ?case by (simp add: sound_exceptions_def)
qed (simp_all add: create_sound refresh_sound decide_sound)

text \<open>C11: Separation of duties in the register of exceptions. In every reachable state an exception that was ever decided, one
  that waits for its renewal included, was decided by its designated approver, who is not its owner.\<close>

theorem exception_second_person:
  assumes "risks_reachable g" and "r \<in> set (rg_risks g)" and "rk_status r \<noteq> RkPending"
  shows "\<exists>u. rk_approvedBy r = Some u \<and> same_identity u (rk_approver r) \<and> \<not> same_identity u (rk_owner r)"
proof -
  have "sound_exception r" using exceptions_invariant [OF assms(1)] assms(2) by (simp add: sound_exceptions_def)
  then show ?thesis using assms(3) by (auto simp: sound_exception_def same_identity_def)
qed

definition sample_registers :: registers where
  "sample_registers = \<lparr>rg_db = sample_db, rg_risks = [], rg_controls = [], rg_incidents = [], rg_actions = [], rg_views = []\<rparr>"

definition sample_exception :: risk_body where
  "sample_exception = \<lparr>rb_title = ''Legacy TLS'', rb_owner = ''Ann '', rb_justification = ''supplier'', rb_compensatingControl = ''segment'',
     rb_approver = ''bob'', rb_expiresAt = 2000\<rparr>"

definition exception_start :: registers where
  "exception_start = fst (createRiskException sample_env sample_registers (sample_request ''ann'' []) sample_exception)"

definition exception_trace :: registers where
  "exception_trace = fst (decideRiskException sample_env exception_start (sample_request ''Bob'' []) ''id0'' True None)"

definition exception_row :: risk_row where
  "exception_row = \<lparr>rk_id = ''id0'', rk_title = ''Legacy TLS'', rk_owner = ''Ann'', rk_justification = ''supplier'', rk_compensatingControl = ''segment'',
     rk_approver = ''bob'', rk_status = RkPending, rk_expiresAt = 2000, rk_approvedBy = None, rk_approvedAt = None, rk_reviewNotifiedAt = None\<rparr>"

lemma sample_times: "now sample_env = 1000" "rq_username (sample_request u gs) = u"
  by (simp_all add: sample_env_def sample_request_def sample_identity_def)

lemma exception_names:
  "toLowerCase ''Ann'' \<noteq> toLowerCase ''bob''" "toLowerCase ''bob'' = toLowerCase ''Bob''" "trim ''Ann '' = ''Ann''" "trim ''bob'' = ''bob''"
  "trim ''Legacy TLS'' = ''Legacy TLS''" "trim ''supplier'' = ''supplier''" "trim ''segment'' = ''segment''"
  by code_simp+

lemma exception_start_rows: "rg_risks exception_start = [exception_row]"
proof -
  have f: "fresh sample_env sample_registers = ''id0''" "rg_risks sample_registers = []" by code_simp+
  have "toLowerCase ''Ann'' \<noteq> toLowerCase ''Bob''" using exception_names(1,2) by simp
  then show ?thesis
    by (simp add: exception_start_def createRiskException_def Let_def f exception_names sample_exception_def sample_times exception_row_def)
qed

lemma exception_trace_rows:
  "rg_risks exception_trace = [exception_row\<lparr>rk_status := RkApproved, rk_approvedBy := Some ''Bob'', rk_approvedAt := Some 1000\<rparr>]"
  by (simp add: exception_trace_def decideRiskException_def Let_def exception_start_rows exception_names sample_times exception_row_def)

lemma exception_trace_reachable: "risks_reachable exception_trace"
  unfolding exception_trace_def exception_start_def
  by (intro risks_reachable.decide risks_reachable.create risks_reachable.start) (simp_all add: sample_registers_def)

theorem exception_second_person_witness:
  "\<exists>r\<in>set (rg_risks exception_trace). \<exists>u. rk_approvedBy r = Some u \<and> same_identity u (rk_approver r) \<and> \<not> same_identity u (rk_owner r)"
  using exception_second_person [OF exception_trace_reachable] by (simp add: exception_trace_rows exception_row_def)

section \<open>Renewal\<close>

lemma mark_due_not_due [simp]: "\<not> renewal_due E' (mark_due E r)"
  by (simp add: renewal_due_def mark_due_def)

text \<open>The refresh is complete and happens once: if at most a hundred exceptions are due, afterwards none is, owner and approver of
  each got a mandatory notice, every other exception is as it was, and a second run changes nothing.\<close>

theorem refresh_complete:
  assumes "risks_reachable g" and "count_rows (renewal_due E) (rg_risks g) \<le> 100"
  defines "g' \<equiv> refreshRiskExceptions E g"
  shows "rg_risks g' = update_rows (renewal_due E) (mark_due E) (rg_risks g)"
    and "notices (rg_db g') = notices (rg_db g) @ concat (map renewal_notices (filter (renewal_due E) (rg_risks g)))"
    and "refreshRiskExceptions E g' = g'"
proof -
  have all: "selected E g = filter (renewal_due E) (rg_risks g)" using assms(2) by (simp add: selected_def count_rows_def)
  have d: "distinct (map rk_id (rg_risks g))" using exceptions_invariant [OF assms(1)] by (simp add: sound_exceptions_def)
  show rows: "rg_risks g' = update_rows (renewal_due E) (mark_due E) (rg_risks g)"
    using refresh_rows [OF d] by (simp add: g'_def all update_rows_def)
  show "notices (rg_db g') = notices (rg_db g) @ concat (map renewal_notices (filter (renewal_due E) (rg_risks g)))"
    using all by (simp add: g'_def refreshRiskExceptions_def refresh_loop_notices selected_def)
  have "filter (renewal_due E) (rg_risks g') = []" by (auto simp: rows filter_empty_conv set_update_rows)
  then show "refreshRiskExceptions E g' = g'" by (simp add: refreshRiskExceptions_def)
qed

theorem refresh_complete_witness:
  "rg_risks (refreshRiskExceptions sample_env exception_trace) = update_rows (renewal_due sample_env) (mark_due sample_env) (rg_risks exception_trace) \<and>
   renewal_due sample_env (hd (rg_risks exception_trace))"
  using refresh_complete(1) [OF exception_trace_reachable, of sample_env]
  by (simp add: exception_trace_rows exception_row_def renewal_due_def sample_times)

text \<open>A renewal lasts: what an approver prolongs after it came up for review is not due again at the same moment.\<close>

theorem renewal_lasts:
  assumes "decideRiskException E g req i True expires = (g', Inr ())" and "find_first (\<lambda>r. rk_id r = i) (rg_risks g) = Some ex"
    and "rk_status ex = RkReviewDue" and "r \<in> set (rg_risks g')" and "rk_id r = i"
  shows "rk_status r = RkApproved \<and> \<not> renewal_due E r"
proof -
  let ?t = "case expires of Some t \<Rightarrow> t | None \<Rightarrow> rk_expiresAt ex"
  have t: "now E + 30 * 86400000 < ?t" using assms(1-3) by (simp add: decideRiskException_def Let_def split: if_splits)
  have "rg_risks g' = update_rows (\<lambda>r. rk_id r = i) (\<lambda>r. r\<lparr>rk_status := RkApproved, rk_approvedBy := Some (rq_username req),
      rk_approvedAt := Some (now E), rk_expiresAt := ?t, rk_reviewNotifiedAt := None\<rparr>) (rg_risks g)"
    using assms(1-3) by (auto simp: decideRiskException_def Let_def split: if_splits)
  then obtain x where "r = x\<lparr>rk_status := RkApproved, rk_approvedBy := Some (rq_username req),
      rk_approvedAt := Some (now E), rk_expiresAt := ?t, rk_reviewNotifiedAt := None\<rparr>"
    using assms(4,5) by (auto simp: set_update_rows split: if_splits)
  then show ?thesis using t by (simp add: renewal_due_def)
qed

definition renewal_trace :: registers where
  "renewal_trace = refreshRiskExceptions sample_env exception_trace"

theorem renewal_lasts_witness:
  "\<exists>r\<in>set (rg_risks (fst (decideRiskException sample_env renewal_trace (sample_request ''Bob'' []) ''id0'' True (Some 9999999999)))).
     rk_status r = RkApproved \<and> \<not> renewal_due sample_env r"
proof -
  let ?d = "decideRiskException sample_env renewal_trace (sample_request ''Bob'' []) ''id0'' True (Some 9999999999)"
  have rows: "rg_risks renewal_trace = map (mark_due sample_env) (rg_risks exception_trace)"
    unfolding renewal_trace_def refreshRiskExceptions_def refresh_loop_risks
    by (simp add: exception_trace_rows exception_row_def renewal_due_def sample_times)
  have first: "find_first (\<lambda>r. rk_id r = ''id0'') (rg_risks renewal_trace) = Some (mark_due sample_env (hd (rg_risks exception_trace)))"
    by (simp add: rows exception_trace_rows exception_row_def mark_due_def)
  have res: "snd ?d = Inr ()" and one: "\<exists>r. r \<in> set (rg_risks (fst ?d)) \<and> rk_id r = ''id0''"
    by (simp_all add: decideRiskException_def Let_def first rows exception_trace_rows exception_row_def mark_due_def exception_names sample_times)
  have ok: "?d = (fst ?d, Inr ())" using res by (cases ?d) simp
  from one obtain r where r: "r \<in> set (rg_risks (fst ?d))" "rk_id r = ''id0''" by blast
  show ?thesis using renewal_lasts [OF ok first _ r] r(1) by (auto simp: mark_due_def)
qed

text \<open>The first approval has no such bound: an approver may accept an exception with an end that has already passed,
  which the creation refuses.\<close>

theorem exception_approved_expired:
  assumes "find_first (\<lambda>r. rk_id r = i) (rg_risks g) = Some ex" and "rk_status ex = RkPending"
    and "same_identity (rk_approver ex) (rq_username req)" and "t < now E"
  shows "\<exists>g' r. decideRiskException E g req i True (Some t) = (g', Inr ()) \<and> r \<in> set (rg_risks g') \<and> rk_id r = i \<and>
    rk_status r = RkApproved \<and> rk_expiresAt r < now E"
proof -
  have ex: "ex \<in> set (rg_risks g)" "rk_id ex = i" using find_first_Some [OF assms(1)] by simp_all
  then show ?thesis using assms
    by (auto simp: decideRiskException_def Let_def same_identity_def set_update_rows intro!: image_eqI [of _ _ ex])
qed

theorem exception_approved_expired_witness:
  "\<exists>g r. decideRiskException sample_env exception_start (sample_request ''bob'' []) ''id0'' True (Some 5) = (g, Inr ()) \<and>
     r \<in> set (rg_risks g) \<and> rk_id r = ''id0'' \<and> rk_status r = RkApproved \<and> rk_expiresAt r < now sample_env"
proof -
  have "find_first (\<lambda>r. rk_id r = ''id0'') (rg_risks exception_start) = Some exception_row"
    by (simp add: exception_start_rows exception_row_def)
  from exception_approved_expired [OF this, of "sample_request ''bob'' []" 5 sample_env] show ?thesis
    by (simp add: exception_row_def same_identity_def sample_times)
qed

section \<open>Constraints of the registers\<close>

text \<open>
  What holds of the rows: identifiers are unique, a control is unique in its framework and an incident by its reference, a control that does not
  apply is justified, an action belongs to an incident and is complete exactly when it is done, and a person has one view of
  a name in a section.
\<close>

definition control_key :: "control_row \<Rightarrow> string \<times> string" where
  "control_key c = (co_framework c, co_reference c)"

definition view_key :: "view_row \<Rightarrow> string \<times> string \<times> string" where
  "view_key v = (vw_identity v, vw_section v, vw_name v)"

definition controls_wf :: "control_row list \<Rightarrow> bool" where
  "controls_wf cs = (distinct (map co_id cs) \<and> distinct (map control_key cs) \<and>
     (\<forall>c\<in>set cs. co_applicability c = ''NOT_APPLICABLE'' \<longrightarrow> co_justification c \<noteq> None))"

definition incidents_wf :: "incident_row list \<Rightarrow> bool" where
  "incidents_wf cs = (distinct (map in_id cs) \<and> distinct (map in_reference cs))"

definition actions_wf :: "incident_row list \<Rightarrow> action_row list \<Rightarrow> bool" where
  "actions_wf cs as = (\<forall>a\<in>set as. ca_incidentId a \<in> in_id ` set cs \<and> (ca_status a = ''DONE'' \<longleftrightarrow> ca_completedAt a \<noteq> None))"

definition registers_wf :: "registers \<Rightarrow> bool" where
  "registers_wf g = (controls_wf (rg_controls g) \<and> incidents_wf (rg_incidents g) \<and> actions_wf (rg_incidents g) (rg_actions g) \<and>
     distinct (map view_key (rg_views g)))"

inductive registers_reachable :: "registers \<Rightarrow> bool" where
  start: "rg_controls g = [] \<Longrightarrow> rg_incidents g = [] \<Longrightarrow> rg_actions g = [] \<Longrightarrow> rg_views g = [] \<Longrightarrow> registers_reachable g"
| create_control: "registers_reachable g \<Longrightarrow> fresh E g \<notin> co_id ` set (rg_controls g) \<Longrightarrow> registers_reachable (fst (createControl E g req kb))"
| update_control: "registers_reachable g \<Longrightarrow> registers_reachable (fst (updateControl E g req i kb))"
| create_incident: "registers_reachable g \<Longrightarrow> fresh E g \<notin> in_id ` set (rg_incidents g) \<Longrightarrow> registers_reachable (fst (createIncident E g req ib))"
| update_incident: "registers_reachable g \<Longrightarrow> registers_reachable (fst (updateIncident E g req i ib))"
| create_action: "registers_reachable g \<Longrightarrow> registers_reachable (fst (createCorrectiveAction E g req i tb))"
| bulk: "registers_reachable g \<Longrightarrow> registers_reachable (fst (bulkApply E g req lb))"
| save_view: "registers_reachable g \<Longrightarrow> registers_reachable (fst (saveView E g req sec name config))"
| delete_view: "registers_reachable g \<Longrightarrow> registers_reachable (fst (deleteView E g req i))"
| other: "registers_reachable g \<Longrightarrow> rg_controls g' = rg_controls g \<Longrightarrow> rg_incidents g' = rg_incidents g \<Longrightarrow>
    rg_actions g' = rg_actions g \<Longrightarrow> rg_views g' = rg_views g \<Longrightarrow> registers_reachable g'"

text \<open>Replacing the row with a given identifier by one whose second key nobody else has keeps that key unique.\<close>

lemma replace_keeps_distinct:
  assumes "distinct (map key rows)" and "distinct (map uniq rows)" and "\<forall>d\<in>set rows. key d \<noteq> i \<longrightarrow> uniq d \<noteq> uniq c"
  shows "distinct (map uniq (update_rows (\<lambda>d. key d = i) (\<lambda>_. c) rows))"
  using assms
proof (induction rows)
  case (Cons r rows)
  show ?case
  proof (cases "key r = i")
    case True
    then have "\<forall>d\<in>set rows. key d \<noteq> i" using Cons.prems(1) by (auto simp: image_iff)
    then show ?thesis using Cons.prems True by (auto simp: update_rows_none)
  next
    case False
    then show ?thesis using Cons by (auto simp: set_update_rows)
  qed
qed simp

lemma controls_wf_append:
  "controls_wf cs \<Longrightarrow> co_id c \<notin> co_id ` set cs \<Longrightarrow> control_key c \<notin> control_key ` set cs \<Longrightarrow>
   (co_applicability c = ''NOT_APPLICABLE'' \<longrightarrow> co_justification c \<noteq> None) \<Longrightarrow> controls_wf (cs @ [c])"
  by (auto simp: controls_wf_def)

lemma controls_wf_replace:
  assumes "controls_wf cs" and "co_id c = i" and "\<forall>d\<in>set cs. co_id d \<noteq> i \<longrightarrow> control_key d \<noteq> control_key c"
    and "co_applicability c = ''NOT_APPLICABLE'' \<longrightarrow> co_justification c \<noteq> None"
  shows "controls_wf (update_rows (\<lambda>d. co_id d = i) (\<lambda>_. c) cs)"
  using assms replace_keeps_distinct [of co_id cs control_key i c]
  by (auto simp: controls_wf_def map_update_rows set_update_rows)

lemma control_refusal_None:
  "control_refusal s body = None \<Longrightarrow> co_applicability (fill_control body i) = ''NOT_APPLICABLE'' \<longrightarrow> co_justification (fill_control body i) \<noteq> None"
  by (auto simp: control_refusal_def fill_control_def split: if_splits)

lemma createControl_wf:
  assumes "registers_wf g" and "fresh E g \<notin> co_id ` set (rg_controls g)"
  shows "registers_wf (fst (createControl E g req body))"
  using assms control_refusal_None [of "rg_db g" body "fresh E g"]
  by (auto simp: createControl_def Let_def registers_wf_def control_key_def fill_control_def
      intro!: controls_wf_append split: option.splits)

lemma updateControl_wf: "registers_wf g \<Longrightarrow> registers_wf (fst (updateControl E g req i body))"
  using control_refusal_None [of "rg_db g" body i]
  by (auto simp: updateControl_def Let_def registers_wf_def control_taken_def control_key_def fill_control_def
      intro!: controls_wf_replace split: option.splits)

lemma incidents_wf_replace:
  assumes "incidents_wf cs" and "in_id c = i" and "\<forall>d\<in>set cs. in_id d \<noteq> i \<longrightarrow> in_reference d \<noteq> in_reference c"
  shows "incidents_wf (update_rows (\<lambda>d. in_id d = i) (\<lambda>_. c) cs)"
  using assms replace_keeps_distinct [of in_id cs in_reference i c]
  by (auto simp: incidents_wf_def map_update_rows)

lemma actions_wf_ids: "actions_wf cs as \<Longrightarrow> in_id ` set cs \<subseteq> in_id ` set ds \<Longrightarrow> actions_wf ds as"
  by (auto simp: actions_wf_def)

lemma update_incident_ids: "(\<And>c. p c \<Longrightarrow> in_id (f c) = in_id c) \<Longrightarrow> in_id ` set (update_rows p f cs) = in_id ` set cs"
  by (metis (mono_tags) list.set_map map_update_rows)

lemma createIncident_wf:
  assumes "registers_wf g" and "fresh E g \<notin> in_id ` set (rg_incidents g)"
  shows "registers_wf (fst (createIncident E g req body))"
  using assms by (auto simp: createIncident_def Let_def registers_wf_def incidents_wf_def fill_incident_def elim: actions_wf_ids)

lemma updateIncident_wf:
  assumes "registers_wf g"
  shows "registers_wf (fst (updateIncident E g req i body))"
  using assms
  by (auto simp: updateIncident_def Let_def registers_wf_def fill_incident_def update_incident_ids
      intro!: incidents_wf_replace elim!: actions_wf_ids split: option.splits)

lemma bulkApply_wf:
  assumes "registers_wf g"
  shows "registers_wf (fst (bulkApply E g req body))"
  using assms
  by (auto simp: bulkApply_def registers_wf_def incidents_wf_def map_update_rows update_incident_ids
      elim!: actions_wf_ids split: sum.splits)

lemma createCorrectiveAction_wf: "registers_wf g \<Longrightarrow> registers_wf (fst (createCorrectiveAction E g req i body))"
  by (auto simp: createCorrectiveAction_def Let_def registers_wf_def actions_wf_def)

lemma saveView_wf:
  assumes "registers_wf g"
  shows "registers_wf (fst (saveView E g req sec name config))"
  using assms by (auto simp: saveView_def Let_def registers_wf_def view_key_def map_update_rows)

lemma deleteView_wf: "registers_wf g \<Longrightarrow> registers_wf (fst (deleteView E g req i))"
  by (auto simp: deleteView_def Let_def registers_wf_def delete_rows_def distinct_map inj_on_def)

text \<open>The registers stay well formed under every sequence of calls.\<close>

lemma registers_reachable_wf: "registers_reachable g \<Longrightarrow> registers_wf g"
proof (induction rule: registers_reachable.induct)
  case (start g)
  then show ?case by (simp add: registers_wf_def controls_wf_def incidents_wf_def actions_wf_def)
next
  case (other g g')
  then show ?case by (simp add: registers_wf_def)
qed (simp_all add: createControl_wf updateControl_wf createIncident_wf updateIncident_wf createCorrectiveAction_wf bulkApply_wf saveView_wf deleteView_wf)

section \<open>Several incidents at once\<close>

lemma targets_ids:
  assumes "distinct (map in_id rows)" and "length (filter (\<lambda>c. in_id c \<in> set ids) rows) = length (new_set ids)"
  shows "in_id ` set (filter (\<lambda>c. in_id c \<in> set ids) rows) = set ids"
proof (rule card_subset_eq)
  let ?t = "filter (\<lambda>c. in_id c \<in> set ids) rows"
  have "distinct (map in_id ?t)" using assms(1) by (simp add: distinct_map_filter)
  then have "card (in_id ` set ?t) = length ?t" by (metis distinct_card length_map list.set_map)
  also have "\<dots> = card (set ids)" using assms(2) distinct_card [of "new_set ids"] by simp
  finally show "card (in_id ` set ?t) = card (set ids)" .
qed auto

text \<open>C21: The registers and changes of several incidents. In every reachable state the registers are well formed; a change of several incidents
  either changes nothing or gives every chosen incident, all of which exist, the new status and touches nothing else, and an
  incident is settled this way only with a root cause.\<close>

theorem bulk_all_or_none:
  assumes "registers_reachable g"
  shows "registers_wf g \<and>
    (case bulkApply E g req body of
       (g', Inl e) \<Rightarrow> g' = g
     | (g', Inr targets) \<Rightarrow> lb_confirmed body \<and> in_id ` set targets = set (lb_ids body) \<and> set targets \<subseteq> set (rg_incidents g) \<and>
         rg_incidents g' = map (\<lambda>c. if c \<in> set targets then c\<lparr>in_status := lb_value body\<rparr> else c) (rg_incidents g) \<and>
         (lb_value body = ''RESOLVED'' \<or> lb_value body = ''CLOSED'' \<longrightarrow> (\<forall>c\<in>set targets. clean (in_rootCause c) \<noteq> None)))"
proof -
  have wf: "registers_wf g" using assms by (rule registers_reachable_wf)
  show ?thesis
  proof (cases "lb_confirmed body \<and> (\<exists>targets. previewBulk g body = Inr targets)")
    case False
    then show ?thesis using wf by (auto simp: bulkApply_def split: sum.splits)
  next
    case True
    then obtain targets where p: "previewBulk g body = Inr targets" by blast
    then have t: "targets = filter (\<lambda>c. in_id c \<in> set (lb_ids body)) (rg_incidents g)" "length targets = length (new_set (lb_ids body))"
      "settled (lb_value body) \<Longrightarrow> \<forall>c\<in>set targets. clean (in_rootCause c) \<noteq> None"
      by (auto simp: previewBulk_def Let_def split: if_splits)
    have "in_id ` set targets = set (lb_ids body)"
      using targets_ids [of "rg_incidents g" "lb_ids body"] wf t(1,2) by (simp add: registers_wf_def incidents_wf_def)
    then show ?thesis using wf True p t(3) by (auto simp: bulkApply_def t(1) update_rows_def settled_def)
  qed
qed

definition sample_incident :: "string \<Rightarrow> string option \<Rightarrow> incident_body" where
  "sample_incident status cause = \<lparr>ib_reference = ''inc-1'', ib_title = ''Phishing'', ib_severity = ''HIGH'', ib_status = status, ib_owner = ''ann'',
     ib_occurredAt = 900, ib_rootCause = cause, ib_lessonsLearned = None\<rparr>"

definition incident_trace :: registers where
  "incident_trace = fst (createIncident sample_env sample_registers (sample_request ''ann'' []) (sample_incident ''OPEN'' (Some ''mail'')))"

lemma incident_trace_reachable: "registers_reachable incident_trace"
  unfolding incident_trace_def by (intro registers_reachable.create_incident registers_reachable.start) (simp_all add: sample_registers_def)

definition sample_bulk :: bulk_body where
  "sample_bulk = \<lparr>lb_kind = ''INCIDENT_STATUS'', lb_ids = [''id0'', ''id0''], lb_value = ''CLOSED'', lb_confirmed = True\<rparr>"

theorem bulk_all_or_none_witness:
  "\<exists>targets. snd (bulkApply sample_env incident_trace (sample_request ''ann'' []) sample_bulk) = Inr targets \<and> in_id ` set targets = {''id0''}"
proof -
  have f: "fresh sample_env sample_registers = ''id0''" "rg_incidents sample_registers = []" "clean (clean (Some ''mail'')) = Some ''mail''" by code_simp+
  have rows: "\<exists>c. rg_incidents incident_trace = [c] \<and> in_id c = ''id0'' \<and> in_rootCause c = clean (Some ''mail'')"
    by (simp add: incident_trace_def createIncident_def Let_def f fill_incident_def sample_incident_def)
  then have "\<exists>targets. snd (bulkApply sample_env incident_trace (sample_request ''ann'' []) sample_bulk) = Inr targets"
    by (auto simp: bulkApply_def previewBulk_def Let_def sample_bulk_def settled_def f)
  then show ?thesis
    using bulk_all_or_none [OF incident_trace_reachable, where E = sample_env and req = "sample_request ''ann'' []" and body = sample_bulk]
    by (auto simp: sample_bulk_def split: prod.splits)
qed

text \<open>The creation of an incident has no such test: it is accepted as resolved without a cause, although the change of the same
  incident to the same content is refused.\<close>

theorem incident_without_cause:
  assumes "settled (ib_status body)" and "clean (ib_rootCause body) = None" and "\<forall>d\<in>set (rg_incidents g). in_reference d \<noteq> upper_case (trim (ib_reference body))"
  shows "\<exists>g' c. createIncident E g req body = (g', Inr c) \<and> c \<in> set (rg_incidents g') \<and> settled (in_status c) \<and> in_rootCause c = None \<and>
    snd (updateIncident E g' req (in_id c) body) = Inl (BadRequest ''Resolved incidents require a root cause'')"
proof -
  obtain g' c where c: "createIncident E g req body = (g', Inr c)" "c = fill_incident body (fresh E g)" "c \<in> set (rg_incidents g')"
    using assms(3) by (force simp: createIncident_def Let_def fill_incident_def)
  moreover have "\<exists>d. find_first (\<lambda>d. in_id d = in_id c) (rg_incidents g') = Some d"
    using c(3) by (metis (mono_tags, lifting) find_first_None_iff option.exhaust)
  ultimately show ?thesis using assms(1,2) by (auto simp: fill_incident_def updateIncident_def)
qed

theorem incident_without_cause_witness:
  "\<exists>g c. createIncident sample_env sample_registers (sample_request ''ann'' []) (sample_incident ''CLOSED'' None) = (g, Inr c) \<and>
     c \<in> set (rg_incidents g) \<and> settled (in_status c) \<and> in_rootCause c = None"
  using incident_without_cause [of "sample_incident ''CLOSED'' None" sample_registers sample_env "sample_request ''ann'' []"]
  by (auto simp: sample_incident_def settled_def clean_def sample_registers_def)

section \<open>Saved views\<close>

primrec json_keys :: "json \<Rightarrow> string list" where
  "json_keys JNull = []"
| "json_keys (JBool b) = []"
| "json_keys (JNum n) = []"
| "json_keys (JStr t) = []"
| "json_keys (JArr vs) = concat (map json_keys vs)"
| "json_keys (JObj kvs) = map fst kvs @ concat (map snd (map (map_prod id json_keys) kvs))"

definition inside :: "string \<Rightarrow> string \<Rightarrow> bool" where
  "inside x t = (\<exists>u w. t = u @ x @ w)"

lemma inside_append: "inside x t \<Longrightarrow> inside x (a @ t @ b)"
  unfolding inside_def by (metis append.assoc)

lemma inside_trans: "inside x y \<Longrightarrow> inside y t \<Longrightarrow> inside x t"
  unfolding inside_def by (metis append.assoc)

lemma inside_join: "x \<in> set ws \<Longrightarrow> inside x (join sep ws)"
proof (cases ws)
  case (Cons w vs)
  assume "x \<in> set ws"
  then consider "x = w" | "x \<in> set vs" using Cons by auto
  then show ?thesis
  proof cases
    case 1
    then show ?thesis using Cons by (auto simp: join_def inside_def intro: exI [of _ "[]"])
  next
    case 2
    then obtain as bs where "vs = as @ x # bs" by (meson split_list)
    then have "join sep ws = (w @ concat (map (\<lambda>v. sep @ v) as) @ sep) @ x @ concat (map (\<lambda>v. sep @ v) bs)"
      using Cons by (simp add: join_def)
    then show ?thesis unfolding inside_def by blast
  qed
qed simp

lemma key_written: "k \<in> set (json_keys v) \<Longrightarrow> inside (json_string k @ '':'') (stringify v)"
proof (induction v)
  case (JArr vs)
  then obtain v where v: "v \<in> set vs" "k \<in> set (json_keys v)" by auto
  have "inside (stringify v) (join '','' (map stringify vs))" using v(1) by (intro inside_join) simp
  with JArr.IH [OF v] have "inside (json_string k @ '':'') (join '','' (map stringify vs))" by (rule inside_trans)
  from inside_append [OF this, of "''[''" "'']''"] show ?case by simp
next
  case (JObj kvs)
  let ?f = "\<lambda>kv. json_string (fst kv) @ '':'' @ stringify (snd kv)"
  have step: "inside (json_string k @ '':'') (stringify (JObj kvs))" if "kv \<in> set kvs" "inside (json_string k @ '':'') (?f kv)" for kv
  proof -
    have "inside (?f kv) (join '','' (map ?f kvs))" using that(1) by (intro inside_join) simp
    with that(2) have "inside (json_string k @ '':'') (join '','' (map ?f kvs))" by (rule inside_trans)
    from inside_append [OF this, of "''{''" "''}''"] show ?thesis by simp
  qed
  from JObj.prems consider (key) kv where "kv \<in> set kvs" "fst kv = k" | (deep) kv where "kv \<in> set kvs" "k \<in> set (json_keys (snd kv))"
    by auto
  then show ?case
  proof cases
    case key
    have "?f kv = [] @ (json_string k @ '':'') @ stringify (snd kv)" using key(2) by simp
    then have "inside (json_string k @ '':'') (?f kv)" unfolding inside_def by blast
    with key(1) show ?thesis by (rule step)
  next
    case deep
    have "inside (json_string k @ '':'') (stringify (snd kv))"
      by (rule JObj.IH [OF deep(1) _ deep(2)]) (simp add: snds.simps)
    from inside_append [OF this, of "json_string (fst kv) @ '':''" "[]"] have "inside (json_string k @ '':'') (?f kv)" by simp
    with deep(1) show ?thesis by (rule step)
  qed
qed simp_all

lemma forbidden_key_append: "forbidden_key t \<Longrightarrow> forbidden_key (u @ t)"
  by (induction u) auto

lemma forbidden_written:
  assumes "k \<in> {''__proto__'', ''prototype'', ''constructor''}" and "inside (json_string k @ '':'') t"
  shows "forbidden_key t"
proof -
  obtain u w where t: "t = u @ (json_string k @ '':'') @ w" using assms(2) unfolding inside_def by blast
  have j: "json_string k = [CHR 0x22] @ k @ [CHR 0x22]" using assms(1) by (auto simp: json_string_def json_escape_def)
  have "forbidden_at ((json_string k @ '':'') @ w)"
    using assms(1) by (auto simp: forbidden_at_def j startsWith_def is_space_def)
  then have "forbidden_key ((json_string k @ '':'') @ w)" by (simp add: j)
  then show ?thesis unfolding t by (rule forbidden_key_append)
qed

text \<open>C40: Saved views. A view that was accepted is found again under the name and section with the given content, its content has at no depth a key
  that reaches the prototype of an object, it is the only view of that name, and the views of other persons are untouched.\<close>

theorem view_saved:
  assumes "saveView E g req sec name config = (g', Inr ())"
  shows "find_first (\<lambda>v. view_key v = (rq_username req, trim sec, trim name)) (rg_views g') \<noteq> None \<and>
    (\<forall>v\<in>set (rg_views g'). view_key v = (rq_username req, trim sec, trim name) \<longrightarrow> vw_config v = config) \<and>
    filter (\<lambda>v. vw_identity v \<noteq> rq_username req) (rg_views g') = filter (\<lambda>v. vw_identity v \<noteq> rq_username req) (rg_views g) \<and>
    set (json_keys config) \<inter> {''__proto__'', ''prototype'', ''constructor''} = {}"
proof -
  let ?own = "\<lambda>v. vw_identity v = rq_username req \<and> vw_section v = trim sec \<and> vw_name v = trim name"
  have ok: "\<not> forbidden_key (stringify config)"
    using assms by (auto simp: saveView_def Let_def split: if_splits)
  have rows: "rg_views g' = (if \<exists>v\<in>set (rg_views g). ?own v then update_rows ?own (\<lambda>v. v\<lparr>vw_config := config\<rparr>) (rg_views g)
      else rg_views g @ [\<lparr>vw_id = fresh E g, vw_identity = rq_username req, vw_section = trim sec, vw_name = trim name, vw_config = config\<rparr>])"
    using assms by (auto simp: saveView_def Let_def split: if_splits)
  have others: "filter (\<lambda>v. vw_identity v \<noteq> rq_username req) (update_rows ?own (\<lambda>v. v\<lparr>vw_config := config\<rparr>) vs) =
      filter (\<lambda>v. vw_identity v \<noteq> rq_username req) vs" for vs :: "view_row list"
    by (induction vs) auto
  have "filter (\<lambda>v. vw_identity v \<noteq> rq_username req) (rg_views g') = filter (\<lambda>v. vw_identity v \<noteq> rq_username req) (rg_views g)"
    by (simp add: rows others)
  moreover have "set (json_keys config) \<inter> {''__proto__'', ''prototype'', ''constructor''} = {}"
    using ok key_written forbidden_written by blast
  moreover have "\<exists>v\<in>set (rg_views g'). view_key v = (rq_username req, trim sec, trim name)"
  proof (cases "\<exists>v\<in>set (rg_views g). ?own v")
    case True
    then obtain v where "v \<in> set (rg_views g)" "?own v" by blast
    then have "v\<lparr>vw_config := config\<rparr> \<in> set (rg_views g')" using True by (simp only: rows if_True set_update_rows) force
    then show ?thesis using \<open>?own v\<close> by (intro bexI) (simp_all add: view_key_def)
  next
    case False
    then show ?thesis by (simp only: rows if_False) (simp add: view_key_def)
  qed
  moreover have "\<forall>v\<in>set (rg_views g'). view_key v = (rq_username req, trim sec, trim name) \<longrightarrow> vw_config v = config"
    by (auto simp: rows view_key_def set_update_rows)
  ultimately show ?thesis by (auto simp: find_first_None_iff)
qed

theorem view_saved_witness:
  "find_first (\<lambda>v. view_key v = (''ann'', trim ''risks'', trim ''open'')) (rg_views (fst (saveView sample_env sample_registers (sample_request ''ann'' []) ''risks'' ''open''
     (JObj [(''columns'', JArr [JStr ''constructor'', JNum 3])])))) \<noteq> None"
proof -
  let ?c = "JObj [(''columns'', JArr [JStr ''constructor'', JNum 3])]"
  let ?s = "saveView sample_env sample_registers (sample_request ''ann'' []) ''risks'' ''open'' ?c"
  have "\<not> (10000 < length (stringify ?c) \<or> forbidden_key (stringify ?c))" by code_simp
  then have "snd ?s = Inr ()" by (simp add: saveView_def Let_def)
  then have "?s = (fst ?s, Inr ())" by (cases ?s) simp
  from view_saved [OF this] show ?thesis unfolding sample_times by (rule conjunct1)
qed

section \<open>Reviews and their evidence\<close>

text \<open>Evidence is attached only by the author of a closed decision; the file is an image by its extension, its declared type and its first
  bytes, was found clean, and the review carries its digest and size. Of all reviews only this one changes.\<close>

theorem evidence_checked:
  assumes "attachReviewEvidence E scan put s req i evidence = (s', Inr ())"
  shows "\<exists>f r. evidence = Some f \<and> find_first (\<lambda>r. rv_id r = i) (reviews s) = Some r \<and> rv_decidedAt r \<noteq> None \<and>
    map_option toLowerCase (rv_decidedBy r) = Some (toLowerCase (rq_username req)) \<and> scan (uf_buffer f) \<and>
    (take 2 (uf_buffer f) = [CHR 0xFF, CHR 0xD8] \<or> take 4 (uf_buffer f) = [CHR 0x89, CHR ''P'', CHR ''N'', CHR ''G'']) \<and>
    (\<forall>q\<in>set (reviews s'). rv_id q = i \<longrightarrow> rv_evidenceSha256 q = Some (sha256 E (uf_buffer f)) \<and>
       rv_evidenceSize q = Some (int (length (uf_buffer f)))) \<and>
    filter (\<lambda>q. rv_id q \<noteq> i) (reviews s') = filter (\<lambda>q. rv_id q \<noteq> i) (reviews s)"
proof -
  obtain f where f: "evidence = Some f" using assms by (cases evidence) (simp_all add: attachReviewEvidence_def)
  obtain r where r: "find_first (\<lambda>r. rv_id r = i) (reviews s) = Some r"
    using assms by (cases "find_first (\<lambda>r. rv_id r = i) (reviews s)") (simp_all add: attachReviewEvidence_def f)
  have author: "rv_decidedAt r \<noteq> None \<and> map_option toLowerCase (rv_decidedBy r) = Some (toLowerCase (rq_username req))"
    using assms by (simp add: attachReviewEvidence_def f r split: if_splits)
  have valid: "validReviewEvidence (uf_buffer f) (toLowerCase (extname (uf_originalname f))) \<and> scan (uf_buffer f)"
    using assms author by (simp add: attachReviewEvidence_def f r Let_def del: map_option_eq_Some split: if_splits)
  let ?key = "''review-evidence/'' @ rv_id r @ ''/'' @ uuid E (uuid_next s) @ toLowerCase (extname (uf_originalname f))"
  let ?f = "\<lambda>q. q\<lparr>rv_evidenceObjectKey := Some ?key, rv_evidenceOriginalName := Some (evidence_name (uf_originalname f)),
      rv_evidenceMimeType := Some (uf_mimetype f), rv_evidenceSize := Some (int (length (uf_buffer f))),
      rv_evidenceSha256 := Some (sha256 E (uf_buffer f))\<rparr>"
  have rows: "reviews s' = update_rows (\<lambda>q. rv_id q = i) ?f (reviews s)"
    using assms author valid by (simp add: attachReviewEvidence_def f r Let_def del: map_option_eq_Some split: if_splits) (erule subst, simp)
  have "filter (\<lambda>q. rv_id q \<noteq> i) (update_rows (\<lambda>q. rv_id q = i) ?f qs) = filter (\<lambda>q. rv_id q \<noteq> i) qs" for qs
    by (induction qs) auto
  moreover have "\<forall>q\<in>set (reviews s'). rv_id q = i \<longrightarrow> rv_evidenceSha256 q = Some (sha256 E (uf_buffer f)) \<and>
       rv_evidenceSize q = Some (int (length (uf_buffer f)))"
  proof (intro ballI impI)
    fix q assume mem: "q \<in> set (reviews s')" and q: "rv_id q = i"
    from mem obtain x where x: "q = (if rv_id x = i then ?f x else x)" unfolding rows by (rule update_rows_origin)
    then have "q = ?f x" using q by (cases "rv_id x = i") simp_all
    then show "rv_evidenceSha256 q = Some (sha256 E (uf_buffer f)) \<and> rv_evidenceSize q = Some (int (length (uf_buffer f)))" by simp
  qed
  moreover have "take 2 (uf_buffer f) = [CHR 0xFF, CHR 0xD8] \<or> take 4 (uf_buffer f) = [CHR 0x89, CHR ''P'', CHR ''N'', CHR ''G'']"
    using valid by (auto simp: validReviewEvidence_def split: if_splits dest: arg_cong [of _ _ "take 4"])
  ultimately show ?thesis using f r author valid unfolding rows by blast
qed

definition manual_review :: review_row where
  "manual_review = \<lparr>rv_id = ''w1'', rv_documentId = ''d1'', rv_versionId = None, rv_owner = ''ann'', rv_reviewer = ''bob'', rv_approver = ''carl'',
     rv_status = RvPending, rv_dueAt = 2000, rv_decisionComment = None, rv_decidedBy = None, rv_decidedAt = None, rv_automaticAnnual = False,
     rv_automaticPublication = False, rv_createdAt = 500, rv_evidenceObjectKey = None, rv_evidenceOriginalName = None, rv_evidenceMimeType = None,
     rv_evidenceSize = None, rv_evidenceSha256 = None\<rparr>"

definition sample_image :: upload where
  "sample_image = \<lparr>uf_originalname = ''sign.JPG'', uf_mimetype = ''image/jpeg'', uf_buffer = [CHR 0xFF, CHR 0xD8, CHR 0xFF]\<rparr>"

theorem evidence_checked_witness:
  "\<exists>s. attachReviewEvidence sample_env (\<lambda>_. True) (\<lambda>_. True)
        (sample_db\<lparr>reviews := [manual_review\<lparr>rv_status := RvApproved, rv_decidedBy := Some ''carl'', rv_decidedAt := Some 900\<rparr>]\<rparr>)
        (sample_request ''Carl'' []) ''w1'' (Some sample_image) = (s, Inr ()) \<and>
      (\<forall>q\<in>set (reviews s). rv_id q = ''w1'' \<longrightarrow> rv_evidenceSize q = Some 3)"
proof -
  let ?s = "sample_db\<lparr>reviews := [manual_review\<lparr>rv_status := RvApproved, rv_decidedBy := Some ''carl'', rv_decidedAt := Some 900\<rparr>]\<rparr>"
  let ?a = "attachReviewEvidence sample_env (\<lambda>_. True) (\<lambda>_. True) ?s (sample_request ''Carl'' []) ''w1'' (Some sample_image)"
  have e: "toLowerCase (extname ''sign.JPG'') = ''.jpg''" "toLowerCase ''carl'' = toLowerCase ''Carl''" by code_simp+
  have "snd ?a = Inr ()"
    by (simp add: attachReviewEvidence_def Let_def manual_review_def sample_image_def e sample_times reviewEvidenceTypes_def validReviewEvidence_def)
  then have "?a = (fst ?a, Inr ())" by (cases ?a) simp
  with evidence_checked [OF this] show ?thesis by (auto simp: sample_image_def)
qed

text \<open>The two routes that decide a review disagree: a moderator who is not the named approver of a review asked for by hand is refused in
  the inbox and may approve the same review through the governance route.\<close>

theorem review_routes_disagree:
  assumes "find_first (\<lambda>r. rv_id r = i) (reviews s) = Some r" and "distinct (map rv_id (reviews s))" and "review_open r"
    and "isModeratorIdentity (rq_groups req)" and "\<not> isAdminIdentity (rq_groups req)"
    and "\<not> rv_automaticAnnual r" and "\<not> rv_automaticPublication r"
    and "\<not> same_identity (rv_approver r) (rq_username req)" and "\<not> same_identity (rv_owner r) (rq_username req)"
  shows "snd (decide_inbox_review E s req i RvApproved comment) = Inl (Forbidden []) \<and>
    (\<exists>r'\<in>set (reviews (fst (decideReview E s req i RvApproved comment))). rv_id r' = i \<and> rv_status r' = RvApproved)"
proof
  show "snd (decide_inbox_review E s req i RvApproved comment) = Inl (Forbidden [])"
    using assms by (simp add: decide_inbox_review_def may_close_review_def)
  let ?d = "\<lparr>rd_status = RvApproved, rd_comment = comment, rd_actor = rq_username req, rd_at = now E\<rparr>"
  have r: "r \<in> set (reviews s)" "rv_id r = i" using find_first_Some [OF assms(1)] by simp_all
  have "count_rows (\<lambda>q. rv_id q = i \<and> review_open q) (reviews s) = 1"
    using count_rows_key_le_1 [OF assms(2), of i review_open] count_rows_key_pos [OF assms(2) r(1), of review_open] r(2) assms(3) by simp
  then obtain rows where c: "claim (\<lambda>q. rv_id q = i \<and> review_open q) (decide_review ?d) (reviews s) = Some rows"
    and rows: "rows = update_rows (\<lambda>q. rv_id q = i \<and> review_open q) (decide_review ?d) (reviews s)"
    by (simp add: claim_def)
  have ids: "map rv_id rows = map rv_id (reviews s)" using review.claim_keeps_keys [OF c] .
  have mem: "decide_review ?d r \<in> set rows" unfolding rows set_update_rows using r assms(3) by force
  have new: "rv_id (decide_review ?d r) = i" "rv_status (decide_review ?d r) = RvApproved" "\<not> rv_automaticAnnual (decide_review ?d r)"
    "\<not> rv_automaticPublication (decide_review ?d r)" using r(2) assms(6,7) by (simp_all add: decide_review_def)
  have "find_first (\<lambda>q. rv_id q = i) rows = Some (decide_review ?d r)"
    using find_first_key [of rv_id rows "decide_review ?d r" "\<lambda>_. True"] ids assms(2) mem new(1) by simp
  then have rec: "recordReviewDecision s i (rv_documentId r) ?d = (s\<lparr>reviews := rows\<rparr>, Inr (decide_review ?d r, False))"
    using c new by (simp add: recordReviewDecision_def)
  have "reviews (fst (decideReview E s req i RvApproved comment)) = rows"
    using assms rec by (auto simp: decideReview_def guard_approver_handler Let_def enqueue_def split: prod.splits)
  then show "\<exists>r'\<in>set (reviews (fst (decideReview E s req i RvApproved comment))). rv_id r' = i \<and> rv_status r' = RvApproved"
    using mem new by auto
qed

theorem review_routes_disagree_witness:
  "\<exists>r\<in>set (reviews (fst (decideReview sample_env (sample_db\<lparr>reviews := [manual_review]\<rparr>) (sample_request ''Mod'' [''ISMS-MODERATOR-MANAGE''])
      ''w1'' RvApproved ''fine''))). rv_id r = ''w1'' \<and> rv_status r = RvApproved"
proof -
  let ?s = "sample_db\<lparr>reviews := [manual_review]\<rparr>" and ?m = "sample_request ''Mod'' [''ISMS-MODERATOR-MANAGE'']"
  have m: "isModeratorIdentity (rq_groups ?m)" "\<not> isAdminIdentity (rq_groups ?m)" "\<not> same_identity ''carl'' (rq_username ?m)"
    "\<not> same_identity ''ann'' (rq_username ?m)" "review_open manual_review" by code_simp+
  have "snd (decide_inbox_review sample_env ?s ?m ''w1'' RvApproved ''fine'') = Inl (Forbidden []) \<and>
    (\<exists>r'\<in>set (reviews (fst (decideReview sample_env ?s ?m ''w1'' RvApproved ''fine''))). rv_id r' = ''w1'' \<and> rv_status r' = RvApproved)"
    by (rule review_routes_disagree [of _ _ manual_review]) (use m in \<open>simp_all add: manual_review_def\<close>)
  then show ?thesis by (rule conjunct2)
qed

end
