(* ===== verification/User_Requests.thy ===== *)
theory User_Requests
  imports Governance
begin

text \<open>
  What users ask of the administration (\<^verbatim>\<open>apps/api/src/user-tools.controller.ts\<close>): temporary access to a space, reports on documents and
  on security, acknowledgements of versions and saved searches, and the routes by which administrators work them off.
  An accepted request for access becomes a temporary grant, which theory \<open>Authorization\<close> reads.
\<close>

section \<open>Tables\<close>

datatype request_status = QPending | QApproved | QRejected

record access_request =
  aq_id :: string
  aq_identity :: string
  aq_documentId :: "string option"
  aq_spaceId :: string
  aq_groupId :: "string option"
  aq_requestedUntil :: "time option"
  aq_justification :: string
  aq_status :: request_status
  aq_decision :: "string option"
  aq_reviewedBy :: "string option"
  aq_reviewedAt :: "time option"
  aq_createdAt :: time

record report_row =
  dr_id :: string
  dr_identity :: string
  dr_documentId :: string
  dr_reason :: string
  dr_message :: "string option"
  dr_open :: bool
  dr_resolutionComment :: "string option"
  dr_resolvedBy :: "string option"
  dr_resolvedAt :: "time option"

record security_row =
  sy_id :: string
  sy_identity :: string
  sy_category :: string
  sy_urgency :: string
  sy_description :: string
  sy_open :: bool
  sy_reference :: string
  sy_attachmentObjectKey :: "string option"
  sy_attachmentOriginalName :: "string option"
  sy_attachmentMimeType :: "string option"
  sy_attachmentSize :: "int option"
  sy_attachmentSha256 :: "string option"

record ack_row =
  ak_identity :: string
  ak_documentId :: string
  ak_versionId :: string
  ak_version :: int
  ak_locale :: string
  ak_sha256 :: string
  ak_acknowledgedAt :: time

record search_row =
  sq_id :: string
  sq_identity :: string
  sq_name :: string
  sq_filters :: json

record desk =
  dk_db :: db
  dk_requests :: "access_request list"
  dk_reports :: "report_row list"
  dk_security :: "security_row list"
  dk_acks :: "ack_row list"
  dk_searches :: "search_row list"

definition desk_audit :: "env \<Rightarrow> desk \<Rightarrow> request \<Rightarrow> string \<Rightarrow> string \<Rightarrow> audit_result \<Rightarrow> json option \<Rightarrow> desk" where
  "desk_audit E d req action resource res details = d\<lparr>dk_db := record_audit E (dk_db d) req action resource res details\<rparr>"

definition next_id :: "env \<Rightarrow> desk \<Rightarrow> string" where
  "next_id E d = uuid E (uuid_next (dk_db d))"

definition use_ids :: "nat \<Rightarrow> desk \<Rightarrow> desk" where
  "use_ids n d = d\<lparr>dk_db := (dk_db d)\<lparr>uuid_next := n + uuid_next (dk_db d)\<rparr>\<rparr>"

definition desk_notice :: "desk \<Rightarrow> notice_row \<Rightarrow> desk" where
  "desk_notice d n = d\<lparr>dk_db := (dk_db d)\<lparr>notices := notices (dk_db d) @ [n]\<rparr>\<rparr>"

section \<open>Recent documents and searches\<close>

definition clearRecent :: "env \<Rightarrow> db \<Rightarrow> request \<Rightarrow> db \<times> nat" where
  "clearRecent E s req =
     (let own = (\<lambda>a. ua_identity a = rq_username req); n = count_rows own (activities s)
      in (record_audit E (s\<lparr>activities := delete_rows own (activities s)\<rparr>) req ''user-recent.clear'' ''user-document-activity'' Success
            (Some (JObj [(''count'', JNum (int n))])), n))"

definition allowedFilterKeys :: "string list" where
  "allowedFilterKeys = [''q'', ''space'', ''categoryId'', ''format'', ''locale'', ''sensitive'', ''sort'', ''favorites'', ''reference'', ''owner'',
     ''documentType'', ''keywords'', ''reviewFrom'', ''reviewTo'']"

text \<open>\<open>String(value).slice(0, 200)\<close> of texts and truth values; every other entry is dropped. Lengths are exact for ASCII.\<close>

definition filter_value :: "json \<Rightarrow> json option" where
  "filter_value v = (case v of JStr t \<Rightarrow> Some (JStr (take 200 t)) | JBool b \<Rightarrow> Some (JStr (if b then ''true'' else ''false'')) | _ \<Rightarrow> None)"

definition search_filters :: "(string \<times> json) list \<Rightarrow> json" where
  "search_filters kvs = JObj (List.map_filter (\<lambda>(k, v). if k \<in> set allowedFilterKeys then map_option (Pair k) (filter_value v) else None) kvs)"

definition saveSearch :: "env \<Rightarrow> desk \<Rightarrow> request \<Rightarrow> string \<Rightarrow> (string \<times> json) list \<Rightarrow> desk" where
  "saveSearch E d req nameValue kvs =
     (let name = trim nameValue; filters = search_filters kvs; own = (\<lambda>v. sq_identity v = rq_username req \<and> sq_name v = name)
      in if \<exists>v\<in>set (dk_searches d). own v then d\<lparr>dk_searches := update_rows own (\<lambda>v. v\<lparr>sq_filters := filters\<rparr>) (dk_searches d)\<rparr>
         else use_ids 1 (d\<lparr>dk_searches := dk_searches d @ [\<lparr>sq_id = next_id E d, sq_identity = rq_username req, sq_name = name, sq_filters = filters\<rparr>]\<rparr>))"

definition deleteSearch :: "desk \<Rightarrow> request \<Rightarrow> string \<Rightarrow> desk" where
  "deleteSearch d req i = d\<lparr>dk_searches := delete_rows (\<lambda>v. sq_id v = i \<and> sq_identity v = rq_username req) (dk_searches d)\<rparr>"

section \<open>Temporary access\<close>

record access_body =
  qb_spaceId :: string
  qb_documentId :: "string option"
  qb_justification :: string
  qb_requestedUntil :: "time option"

definition matchedGroup :: "db \<Rightarrow> string list \<Rightarrow> group_row option" where
  "matchedGroup s gs = find_first_by grp_name (groupFilter gs) (groups s)"

definition eligibleGroup :: "db \<Rightarrow> request \<Rightarrow> group_row option" where
  "eligibleGroup s req =
     (case matchedGroup s (rq_groups req) of
        Some g \<Rightarrow> Some g
      | None \<Rightarrow> if id_source (rq_identity req) = LocalAdmin then find_first_by grp_name grp_active (groups s) else None)"

definition request_end :: "env \<Rightarrow> access_body \<Rightarrow> time" where
  "request_end E body = (case qb_requestedUntil body of Some t \<Rightarrow> t | None \<Rightarrow> now E + 30 * 86400000)"

definition requestAccess :: "env \<Rightarrow> desk \<Rightarrow> request \<Rightarrow> access_body \<Rightarrow> desk \<times> access_request outcome" where
  "requestAccess E d req body =
     (let s = dk_db d; requestedUntil = request_end E body
      in if requestedUntil \<le> now E \<or> now E + 90 * 86400000 < requestedUntil
         then (d, Inl (BadRequest ''Requested access expiry must be within the next 90 days''))
         else (case eligibleGroup s req of
             None \<Rightarrow> (d, Inl (BadRequest ''No application AD group is available for temporary access''))
           | Some g \<Rightarrow>
               if (\<forall>sp\<in>set (spaces s). \<not> (sp_id sp = qb_spaceId body \<and> sp_deletedAt sp = None)) \<or>
                  \<not> can E s (rq_groups req) (qb_spaceId body) ShowMenu NoCategory \<or>
                  some_and (\<lambda>i. i \<noteq> [] \<and> (\<forall>x\<in>set (documents s). \<not> (doc_id x = i \<and> doc_spaceId x = qb_spaceId body \<and> doc_deletedAt x = None)))
                    (qb_documentId body)
               then (d, Inl NotFound)
               else if \<exists>q\<in>set (dk_requests d). aq_identity q = rq_username req \<and> aq_spaceId q = qb_spaceId body \<and>
                         aq_documentId q = Option.bind (qb_documentId body) or_null \<and> aq_status q = QPending
               then (d, Inl (BadRequest ''An access request is already pending''))
               else (let q = \<lparr>aq_id = next_id E d, aq_identity = rq_username req, aq_documentId = qb_documentId body, aq_spaceId = qb_spaceId body,
                              aq_groupId = Some (grp_id g), aq_requestedUntil = Some requestedUntil, aq_justification = trim (qb_justification body),
                              aq_status = QPending, aq_decision = None, aq_reviewedBy = None, aq_reviewedAt = None, aq_createdAt = now E\<rparr>
                     in (desk_audit E (use_ids 1 (d\<lparr>dk_requests := dk_requests d @ [q]\<rparr>)) req ''access-request.create'' (''access-request:'' @ aq_id q) Success None,
                         Inr q))))"

datatype verdict = Verdict_Approved | Verdict_Rejected | Verdict_Resolved

definition verdict_text :: "verdict \<Rightarrow> string" where
  "verdict_text v = (case v of Verdict_Approved \<Rightarrow> ''APPROVED'' | Verdict_Rejected \<Rightarrow> ''REJECTED'' | Verdict_Resolved \<Rightarrow> ''RESOLVED'')"

definition handled_title :: string where
  "handled_title = ''Demande d'' @ [CHR 0xE2, CHR 0x80, CHR 0x99] @ ''acc'' @ [CHR 0xC3, CHR 0xA8] @ ''s trait'' @ [CHR 0xC3, CHR 0xA9] @ ''e''"

text \<open>The transaction: the request is closed, and an approved one becomes a grant. The keys of the grant (one for each request, an existing
  group and space) are constraints of the table; a violation undoes the transaction.\<close>

definition close_access_request :: "env \<Rightarrow> request \<Rightarrow> bool \<Rightarrow> string option \<Rightarrow> access_request \<Rightarrow> access_request" where
  "close_access_request E req approve decision q =
     q\<lparr>aq_status := (if approve then QApproved else QRejected), aq_decision := Option.bind decision or_null,
       aq_reviewedBy := Some (rq_username req), aq_reviewedAt := Some (now E)\<rparr>"

definition grant_of :: "env \<Rightarrow> desk \<Rightarrow> request \<Rightarrow> access_request \<Rightarrow> grant_row" where
  "grant_of E d req q = \<lparr>tg_id = next_id E d, tg_requestId = aq_id q, tg_groupId = the (aq_groupId q), tg_spaceId = aq_spaceId q,
     tg_validUntil = the (aq_requestedUntil q), tg_createdBy = rq_username req\<rparr>"

definition grant_refused :: "db \<Rightarrow> grant_row \<Rightarrow> bool" where
  "grant_refused s g = ((\<exists>h\<in>set (grants s). tg_requestId h = tg_requestId g) \<or> find_group s (tg_groupId g) = None \<or>
     (\<forall>sp\<in>set (spaces s). sp_id sp \<noteq> tg_spaceId g))"

definition reviewAccess :: "env \<Rightarrow> desk \<Rightarrow> request \<Rightarrow> string \<Rightarrow> verdict \<Rightarrow> string option \<Rightarrow> desk \<times> unit outcome" where
  "reviewAccess E d req i v decision =
     (if v = Verdict_Resolved then (d, Inl (BadRequest ''Invalid access request status''))
      else (case find_first (\<lambda>q. aq_id q = i) (dk_requests d) of
          None \<Rightarrow> (d, Inl NotFound)
        | Some q \<Rightarrow>
            if aq_status q \<noteq> QPending then (d, Inl (BadRequest ''Access request is already decided''))
            else if v = Verdict_Approved \<and> (aq_groupId q = None \<or> aq_requestedUntil q = None)
            then (d, Inl (BadRequest ''Access request has no temporary grant target''))
            else (let g = grant_of E d req q; approve = (v = Verdict_Approved);
                      d1 = d\<lparr>dk_requests := update_rows (\<lambda>r. aq_id r = i) (close_access_request E req approve decision) (dk_requests d)\<rparr>
                  in if approve \<and> grant_refused (dk_db d) g then (d, Inl (InternalError ''Constraint failed''))
                     else (let d2 = (if approve then use_ids 1 (d1\<lparr>dk_db := (dk_db d1)\<lparr>grants := grants (dk_db d1) @ [g]\<rparr>\<rparr>) else d1);
                               d3 = desk_notice d2 \<lparr>un_identity = aq_identity q, un_title = handled_title,
                                      un_message = (case Option.bind decision or_null of Some t \<Rightarrow> t | None \<Rightarrow> ''Statut : '' @ verdict_text v),
                                      un_resourceType = Some ''access-request'', un_resourceId = Some (aq_id q), un_mandatory = False\<rparr>
                           in (desk_audit E d3 req ''access-request.review'' (''access-request:'' @ i) Success
                                 (Some (JObj [(''status'', JStr (verdict_text v))])), Inr ())))))"

section \<open>Reports on documents\<close>

definition may_report :: "env \<Rightarrow> db \<Rightarrow> request \<Rightarrow> document_row \<Rightarrow> bool" where
  "may_report E s req x =
     (if doc_status x = PUBLISHED then can E s (rq_groups req) (doc_spaceId x) Read (InCategory (doc_categoryId x))
      else list_ex (\<lambda>p. can E s (rq_groups req) (doc_spaceId x) p (InCategory (doc_categoryId x))) [Edit, Publish, Archive])"

definition report :: "env \<Rightarrow> desk \<Rightarrow> request \<Rightarrow> string \<Rightarrow> string \<Rightarrow> string option \<Rightarrow> desk \<times> report_row outcome" where
  "report E d req i reason message =
     (case find_first (\<lambda>x. doc_id x = i \<and> doc_deletedAt x = None) (documents (dk_db d)) of
        None \<Rightarrow> (d, Inl NotFound)
      | Some x \<Rightarrow>
          if \<not> may_report E (dk_db d) req x then (d, Inl NotFound)
          else (let r = \<lparr>dr_id = next_id E d, dr_identity = rq_username req, dr_documentId = doc_id x, dr_reason = reason, dr_message = clean message,
                         dr_open = True, dr_resolutionComment = None, dr_resolvedBy = None, dr_resolvedAt = None\<rparr>
                in (desk_audit E (use_ids 1 (d\<lparr>dk_reports := dk_reports d @ [r]\<rparr>)) req ''document-report.create'' (''document-report:'' @ dr_id r) Success
                      (Some (JObj [(''reason'', JStr reason)])), Inr r)))"

definition resolved_title :: string where
  "resolved_title = ''Signalement trait'' @ [CHR 0xC3, CHR 0xA9]"

definition resolveReport :: "env \<Rightarrow> desk \<Rightarrow> request \<Rightarrow> string \<Rightarrow> verdict \<Rightarrow> string option \<Rightarrow> desk \<times> unit outcome" where
  "resolveReport E d req i v decision =
     (if v \<noteq> Verdict_Resolved then (d, Inl (BadRequest ''Report status must be RESOLVED''))
      else (case clean decision of
          None \<Rightarrow> (d, Inl (BadRequest ''A resolution comment is required''))
        | Some comment \<Rightarrow>
            (case find_first (\<lambda>r. dr_id r = i) (dk_reports d) of
               None \<Rightarrow> (d, Inl (InternalError ''Record to update not found''))
             | Some r \<Rightarrow>
                 (let d1 = d\<lparr>dk_reports := update_rows (\<lambda>r. dr_id r = i)
                             (\<lambda>r. r\<lparr>dr_open := False, dr_resolutionComment := Some comment, dr_resolvedBy := Some (rq_username req),
                                    dr_resolvedAt := Some (now E)\<rparr>) (dk_reports d)\<rparr>;
                      d2 = desk_notice d1 \<lparr>un_identity = dr_identity r, un_title = resolved_title, un_message = comment,
                             un_resourceType = Some ''document-report'', un_resourceId = Some (dr_id r), un_mandatory = False\<rparr>
                  in (desk_audit E d2 req ''document-report.resolve'' (''document-report:'' @ i) Success
                        (Some (JObj [(''resolutionComment'', JStr comment)])), Inr ())))))"

definition deleteReport :: "env \<Rightarrow> desk \<Rightarrow> request \<Rightarrow> string \<Rightarrow> desk \<times> unit outcome" where
  "deleteReport E d req i =
     (case find_first (\<lambda>r. dr_id r = i) (dk_reports d) of
        None \<Rightarrow> (d, Inl NotFound)
      | Some r \<Rightarrow> (desk_audit E (d\<lparr>dk_reports := delete_rows (\<lambda>r. dr_id r = i) (dk_reports d)\<rparr>) req ''document-report.delete''
                     (''document-report:'' @ i) Success (Some (JObj [(''reporter'', JStr (dr_identity r))])), Inr ()))"

section \<open>Acknowledgements\<close>

definition may_acknowledge :: "env \<Rightarrow> db \<Rightarrow> request \<Rightarrow> document_row \<Rightarrow> bool" where
  "may_acknowledge E s req x =
     (doc_deletedAt x = None \<and> doc_status x = PUBLISHED \<and>
      (id_source (rq_identity req) = LocalAdmin \<or> can E s (rq_groups req) (doc_spaceId x) Read (InCategory (doc_categoryId x))))"

definition acknowledgeDocument :: "env \<Rightarrow> desk \<Rightarrow> request \<Rightarrow> string \<Rightarrow> string \<Rightarrow> desk \<times> unit outcome" where
  "acknowledgeDocument E d req documentId versionId =
     (let s = dk_db d
      in case find_first (\<lambda>v. ver_id v = versionId \<and> ver_documentId v = documentId) (versions s) of
           None \<Rightarrow> (d, Inl NotFound)
         | Some v \<Rightarrow>
             (case (find_first (\<lambda>x. doc_id x = ver_documentId v) (documents s), find_first (\<lambda>f. sf_id f = ver_storedFileId v) (storedfiles s)) of
                (Some x, Some f) \<Rightarrow>
                  if \<not> may_acknowledge E s req x then (d, Inl NotFound)
                  else (let own = (\<lambda>a. ak_identity a = rq_username req \<and> ak_versionId a = ver_id v);
                            d1 = (if \<exists>a\<in>set (dk_acks d). own a
                                  then d\<lparr>dk_acks := update_rows own (\<lambda>a. a\<lparr>ak_acknowledgedAt := now E, ak_sha256 := sf_sha256 f\<rparr>) (dk_acks d)\<rparr>
                                  else use_ids 1 (d\<lparr>dk_acks := dk_acks d @ [\<lparr>ak_identity = rq_username req, ak_documentId = documentId, ak_versionId = ver_id v,
                                         ak_version = ver_version v, ak_locale = ver_locale v, ak_sha256 = sf_sha256 f, ak_acknowledgedAt = now E\<rparr>]\<rparr>))
                        in (desk_audit E d1 req ''document.acknowledge'' (''document:'' @ documentId) Success
                              (Some (JObj [(''versionId'', JStr (ver_id v)), (''version'', JNum (ver_version v)), (''sha256'', JStr (sf_sha256 f))])), Inr ()))
              | _ \<Rightarrow> (d, Inl (InternalError ''Inconsistent query result''))))"

section \<open>Reports on security\<close>

definition securityAttachmentTypes :: "string \<Rightarrow> string list" where
  "securityAttachmentTypes ext =
     (if ext = ''.pdf'' then [''application/pdf''] else if ext = ''.png'' then [''image/png'']
      else if ext \<in> {''.jpg'', ''.jpeg''} then [''image/jpeg''] else if ext = ''.txt'' then [''text/plain''] else [])"

definition validSecurityAttachmentMagic :: "string \<Rightarrow> string \<Rightarrow> bool" where
  "validSecurityAttachmentMagic buffer ext =
     (if ext = ''.pdf'' then take 5 buffer = ''%PDF-''
      else if ext = ''.png'' then take 8 buffer = [CHR 0x89, CHR 0x50, CHR 0x4E, CHR 0x47, CHR 0x0D, CHR 0x0A, CHR 0x1A, CHR 0x0A]
      else if ext \<in> {''.jpg'', ''.jpeg''} then take 2 buffer = [CHR 0xFF, CHR 0xD8]
      else ext = ''.txt'' \<and> CHR 0x00 \<notin> set buffer)"

record security_body =
  sb_category :: string
  sb_urgency :: string
  sb_description :: string

definition security_reference :: "env \<Rightarrow> desk \<Rightarrow> string" where
  "security_reference E d = ''SEC-'' @ string_of_int (fst (civil_from_days (now E div day_ms))) @ ''-'' @ upper_case (take 8 (next_id E d))"

definition attachment_refusal :: "(string \<Rightarrow> bool) \<Rightarrow> upload option \<Rightarrow> http_error option" where
  "attachment_refusal scan attachment =
     (case attachment of
        None \<Rightarrow> None
      | Some f \<Rightarrow>
          (let ext = toLowerCase (extname (uf_originalname f))
           in if uf_mimetype f \<notin> set (securityAttachmentTypes ext) \<or> \<not> validSecurityAttachmentMagic (uf_buffer f) ext
              then Some (BadRequest ''Invalid security attachment'')
              else if \<not> scan (uf_buffer f) then Some (BadRequest ''Security attachment was rejected by antivirus'')
              else None))"

text \<open>The identifiers are taken in the order of the calls: reference, report, object.\<close>

definition attachment_key :: "env \<Rightarrow> desk \<Rightarrow> upload \<Rightarrow> string" where
  "attachment_key E d f = ''security-reports/'' @ uuid E (Suc (uuid_next (dk_db d))) @ ''/'' @ uuid E (Suc (Suc (uuid_next (dk_db d)))) @
     toLowerCase (extname (uf_originalname f))"

definition new_security_report :: "env \<Rightarrow> desk \<Rightarrow> request \<Rightarrow> security_body \<Rightarrow> upload option \<Rightarrow> security_row" where
  "new_security_report E d req body attachment =
     \<lparr>sy_id = uuid E (Suc (uuid_next (dk_db d))), sy_identity = rq_username req, sy_category = sb_category body, sy_urgency = sb_urgency body,
      sy_description = trim (sb_description body), sy_open = True, sy_reference = security_reference E d,
      sy_attachmentObjectKey = map_option (attachment_key E d) attachment,
      sy_attachmentOriginalName = map_option (\<lambda>f. evidence_name (uf_originalname f)) attachment,
      sy_attachmentMimeType = map_option uf_mimetype attachment, sy_attachmentSize = map_option (\<lambda>f. int (length (uf_buffer f))) attachment,
      sy_attachmentSha256 = map_option (\<lambda>f. sha256 E (uf_buffer f)) attachment\<rparr>"

definition securityReport ::
    "env \<Rightarrow> (string \<Rightarrow> bool) \<Rightarrow> (string \<Rightarrow> bool) \<Rightarrow> desk \<Rightarrow> request \<Rightarrow> security_body \<Rightarrow> upload option \<Rightarrow> desk \<times> string outcome" where
  "securityReport E scan put d req body attachment =
     (case attachment_refusal scan attachment of
        Some e \<Rightarrow> (d, Inl e)
      | None \<Rightarrow>
          if some_and (\<lambda>f. \<not> put (attachment_key E d f)) attachment then (d, Inl (InternalError ''storage''))
          else (let r = new_security_report E d req body attachment
                in if \<exists>q\<in>set (dk_security d). sy_reference q = sy_reference r
                   then (use_ids 3 (d\<lparr>dk_db := (dk_db d)\<lparr>removedobjects := removedobjects (dk_db d) @
                           (case sy_attachmentObjectKey r of Some k \<Rightarrow> [k] | None \<Rightarrow> [])\<rparr>\<rparr>), Inl (InternalError ''Unique constraint failed''))
                   else (desk_audit E (use_ids 3 (d\<lparr>dk_security := dk_security d @ [r]\<rparr>)) req ''security-report.create'' (''security-report:'' @ sy_id r) Success
                           (Some (JObj [(''reference'', JStr (sy_reference r)), (''urgency'', JStr (sb_urgency body)), (''category'', JStr (sb_category body))])),
                         Inr (sy_reference r))))"

definition resolveSecurityReport :: "env \<Rightarrow> desk \<Rightarrow> request \<Rightarrow> string \<Rightarrow> verdict \<Rightarrow> desk \<times> unit outcome" where
  "resolveSecurityReport E d req i v =
     (if v \<noteq> Verdict_Resolved then (d, Inl (BadRequest ''Security report status must be RESOLVED''))
      else (case find_first (\<lambda>r. sy_id r = i) (dk_security d) of
          None \<Rightarrow> (d, Inl (InternalError ''Record to update not found''))
        | Some r \<Rightarrow> (desk_audit E (d\<lparr>dk_security := update_rows (\<lambda>r. sy_id r = i) (\<lambda>r. r\<lparr>sy_open := False\<rparr>) (dk_security d)\<rparr>) req
                       ''security-report.resolve'' (''security-report:'' @ i) Success (Some (JObj [(''reference'', JStr (sy_reference r))])), Inr ())))"

section \<open>Clearing everything\<close>

definition cleared_notice :: "notice_row \<Rightarrow> bool" where
  "cleared_notice n = some_and (\<lambda>t. t \<in> {''access-request'', ''document-report'', ''security-report''}) (un_resourceType n)"

text \<open>Deleting the requests deletes their grants with them (\<open>onDelete: Cascade\<close> of the table). \<open>remove\<close> says whether the object store
  removes an object.\<close>

definition deleteAllWorkItems :: "env \<Rightarrow> (string \<Rightarrow> bool) \<Rightarrow> desk \<Rightarrow> request \<Rightarrow> desk \<times> nat" where
  "deleteAllWorkItems E remove d req =
     (let s = dk_db d;
          keys = filter (\<lambda>k. k \<noteq> []) (List.map_filter sy_attachmentObjectKey (dk_security d));
          failures = length (filter (\<lambda>k. \<not> remove k) keys);
          s1 = s\<lparr>notices := delete_rows cleared_notice (notices s),
                 grants := delete_rows (\<lambda>g. \<exists>q\<in>set (dk_requests d). aq_id q = tg_requestId g) (grants s),
                 removedobjects := removedobjects s @ filter remove keys\<rparr>;
          d1 = d\<lparr>dk_db := s1, dk_requests := [], dk_reports := [], dk_security := []\<rparr>
      in (desk_audit E d1 req ''user-requests.delete-all'' ''user-requests:all'' (if failures = 0 then Success else Failure)
            (Some (JObj [(''accessRequests'', JNum (int (length (dk_requests d)))), (''documentReports'', JNum (int (length (dk_reports d)))),
                         (''securityReports'', JNum (int (length (dk_security d)))), (''notifications'', JNum (int (count_rows cleared_notice (notices s)))),
                         (''attachmentFailures'', JNum (int failures))])), failures))"

section \<open>Where a grant comes from\<close>

lemma desk_audit_tables [simp]:
  "dk_requests (desk_audit E d req a r v x) = dk_requests d" "dk_reports (desk_audit E d req a r v x) = dk_reports d"
  "dk_security (desk_audit E d req a r v x) = dk_security d" "dk_acks (desk_audit E d req a r v x) = dk_acks d"
  "dk_searches (desk_audit E d req a r v x) = dk_searches d" "grants (dk_db (desk_audit E d req a r v x)) = grants (dk_db d)"
  "groups (dk_db (desk_audit E d req a r v x)) = groups (dk_db d)" "spaces (dk_db (desk_audit E d req a r v x)) = spaces (dk_db d)"
  by (simp_all add: desk_audit_def)

lemma desk_audit_notices:
  "a \<notin> {''document.publish'', ''document.published''} \<Longrightarrow> notices (dk_db (desk_audit E d req a r Success x)) = notices (dk_db d)"
  by (simp add: desk_audit_def record_audit_def evaluate_def persistAudit_def notify_publication_def audit_event_def Let_def)

lemma use_ids_tables [simp]:
  "dk_requests (use_ids n d) = dk_requests d" "dk_reports (use_ids n d) = dk_reports d" "dk_security (use_ids n d) = dk_security d"
  "dk_acks (use_ids n d) = dk_acks d" "dk_searches (use_ids n d) = dk_searches d" "grants (dk_db (use_ids n d)) = grants (dk_db d)"
  "groups (dk_db (use_ids n d)) = groups (dk_db d)" "spaces (dk_db (use_ids n d)) = spaces (dk_db d)"
  by (simp_all add: use_ids_def)

lemma desk_notice_tables [simp]:
  "dk_requests (desk_notice d n) = dk_requests d" "dk_reports (desk_notice d n) = dk_reports d"
  "grants (dk_db (desk_notice d n)) = grants (dk_db d)" "groups (dk_db (desk_notice d n)) = groups (dk_db d)"
  "spaces (dk_db (desk_notice d n)) = spaces (dk_db d)"
  by (simp_all add: desk_notice_def)

text \<open>The calls that write requests or grants, in any order; identifiers of new requests are new. The database removes
  the grants of a space or of a group together with it.\<close>

inductive desk_reachable :: "desk \<Rightarrow> bool" where
  start: "dk_requests d = [] \<Longrightarrow> grants (dk_db d) = [] \<Longrightarrow> desk_reachable d"
| ask: "desk_reachable d \<Longrightarrow> next_id E d \<notin> aq_id ` set (dk_requests d) \<Longrightarrow> desk_reachable (fst (requestAccess E d req body))"
| review: "desk_reachable d \<Longrightarrow> desk_reachable (fst (reviewAccess E d req i v decision))"
| clear: "desk_reachable d \<Longrightarrow> desk_reachable (fst (deleteAllWorkItems E remove d req))"
| cascade: "desk_reachable d \<Longrightarrow> dk_requests d' = dk_requests d \<Longrightarrow>
    grants (dk_db d') = delete_rows (\<lambda>g. tg_spaceId g = i \<or> tg_groupId g = j) (grants (dk_db d)) \<Longrightarrow> desk_reachable d'"
| other: "desk_reachable d \<Longrightarrow> dk_requests d' = dk_requests d \<Longrightarrow> grants (dk_db d') = grants (dk_db d) \<Longrightarrow> desk_reachable d'"

definition backs :: "access_request \<Rightarrow> grant_row \<Rightarrow> bool" where
  "backs q g = (aq_id q = tg_requestId g \<and> aq_status q = QApproved \<and> aq_reviewedBy q = Some (tg_createdBy g) \<and>
     aq_groupId q = Some (tg_groupId g) \<and> aq_spaceId q = tg_spaceId g \<and> aq_requestedUntil q = Some (tg_validUntil g))"

definition bounded_request :: "access_request \<Rightarrow> bool" where
  "bounded_request q = (\<exists>t. aq_requestedUntil q = Some t \<and> aq_createdAt q < t \<and> t \<le> aq_createdAt q + 90 * 86400000)"

definition desk_wf :: "desk \<Rightarrow> bool" where
  "desk_wf d = (distinct (map aq_id (dk_requests d)) \<and> distinct (map tg_requestId (grants (dk_db d))) \<and>
     (\<forall>q\<in>set (dk_requests d). bounded_request q) \<and> (\<forall>g\<in>set (grants (dk_db d)). \<exists>q\<in>set (dk_requests d). backs q g))"

lemma requestAccess_rows:
  assumes "dk_requests (fst (requestAccess E d req body)) \<noteq> dk_requests d"
  obtains q where "dk_requests (fst (requestAccess E d req body)) = dk_requests d @ [q]" and "aq_id q = next_id E d" and "bounded_request q"
  using assms by (fastforce simp: requestAccess_def Let_def bounded_request_def split: if_splits option.splits)

lemma requestAccess_grants [simp]: "grants (dk_db (fst (requestAccess E d req body))) = grants (dk_db d)"
  by (auto simp: requestAccess_def Let_def split: option.splits)

lemma requestAccess_wf:
  assumes "desk_wf d" and "next_id E d \<notin> aq_id ` set (dk_requests d)"
  shows "desk_wf (fst (requestAccess E d req body))"
proof (cases "dk_requests (fst (requestAccess E d req body)) = dk_requests d")
  case False
  then show ?thesis using assms by (rule_tac requestAccess_rows) (auto simp: desk_wf_def)
qed (use assms(1) in \<open>simp add: desk_wf_def\<close>)

lemma reviewAccess_cases:
  assumes "reviewAccess E d req i v decision = (d', Inr ())"
  obtains (reject) q where "find_first (\<lambda>q. aq_id q = i) (dk_requests d) = Some q" and "aq_status q = QPending" and "v = Verdict_Rejected"
      and "dk_requests d' = update_rows (\<lambda>r. aq_id r = i) (close_access_request E req False decision) (dk_requests d)"
      and "grants (dk_db d') = grants (dk_db d)" and "groups (dk_db d') = groups (dk_db d)" and "spaces (dk_db d') = spaces (dk_db d)"
    | (approve) q where "find_first (\<lambda>q. aq_id q = i) (dk_requests d) = Some q" and "aq_status q = QPending" and "v = Verdict_Approved"
      and "aq_groupId q \<noteq> None" and "aq_requestedUntil q \<noteq> None" and "\<not> grant_refused (dk_db d) (grant_of E d req q)"
      and "dk_requests d' = update_rows (\<lambda>r. aq_id r = i) (close_access_request E req True decision) (dk_requests d)"
      and "grants (dk_db d') = grants (dk_db d) @ [grant_of E d req q]" and "groups (dk_db d') = groups (dk_db d)" and "spaces (dk_db d') = spaces (dk_db d)"
proof -
  obtain q where q: "find_first (\<lambda>q. aq_id q = i) (dk_requests d) = Some q"
    using assms by (cases "find_first (\<lambda>q. aq_id q = i) (dk_requests d)") (auto simp: reviewAccess_def split: if_splits)
  have p: "aq_status q = QPending" "v \<noteq> Verdict_Resolved" using assms by (auto simp: reviewAccess_def q split: if_splits)
  show thesis
  proof (cases v)
    case Verdict_Approved
    have "aq_groupId q \<noteq> None \<and> aq_requestedUntil q \<noteq> None" and n: "\<not> grant_refused (dk_db d) (grant_of E d req q)"
      using assms p Verdict_Approved by (simp_all add: reviewAccess_def q Let_def split: if_splits)
    then obtain gid t where g: "aq_groupId q = Some gid" "aq_requestedUntil q = Some t" by auto
    have "d' = fst (reviewAccess E d req i v decision)" using assms by simp
    with n g p Verdict_Approved q show thesis by (intro approve [of q]) (simp_all add: reviewAccess_def Let_def)
  next
    case Verdict_Rejected
    with assms have "d' = fst (reviewAccess E d req i v decision)" by simp
    with p Verdict_Rejected q show thesis by (intro reject [of q]) (simp_all add: reviewAccess_def Let_def)
  qed (use p in simp)
qed

lemma reviewAccess_refused: "snd (reviewAccess E d req i v decision) \<noteq> Inr () \<Longrightarrow> fst (reviewAccess E d req i v decision) = d"
  by (auto simp: reviewAccess_def Let_def split: option.splits if_splits)

lemma pending_not_backing: "aq_status q = QPending \<Longrightarrow> \<not> backs q g"
  by (simp add: backs_def)

text \<open>Closing a pending request keeps every grant backed by the request that backed it before.\<close>

lemma close_keeps_backing:
  assumes "distinct (map aq_id rows)" and "find_first (\<lambda>q. aq_id q = i) rows = Some q" and "aq_status q = QPending"
    and "x \<in> set rows" and "backs x g"
  shows "x \<in> set (update_rows (\<lambda>r. aq_id r = i) f rows)"
proof (rule update_rows_frame [OF assms(4)])
  show "aq_id x \<noteq> i"
    using find_first_Some [OF assms(2)] key_unique [OF assms(1) assms(4), of q] assms(3,5) pending_not_backing by auto
qed

lemma close_bounded: "\<forall>q\<in>set rows. bounded_request q \<Longrightarrow> \<forall>q\<in>set (update_rows p (close_access_request E req a dec) rows). bounded_request q"
  by (auto simp: set_update_rows bounded_request_def close_access_request_def)

lemma reviewAccess_wf:
  assumes "desk_wf d"
  shows "desk_wf (fst (reviewAccess E d req i v decision))"
proof (cases "snd (reviewAccess E d req i v decision) = Inr ()")
  case False
  then show ?thesis using reviewAccess_refused assms by metis
next
  case True
  let ?d = "fst (reviewAccess E d req i v decision)"
  have ids: "map aq_id (update_rows (\<lambda>r. aq_id r = i) (close_access_request E req a decision) (dk_requests d)) = map aq_id (dk_requests d)" for a
    by (rule map_update_rows) (simp add: close_access_request_def)
  have wf: "distinct (map aq_id (dk_requests d))" "distinct (map tg_requestId (grants (dk_db d)))" "\<forall>q\<in>set (dk_requests d). bounded_request q"
    "\<forall>g\<in>set (grants (dk_db d)). \<exists>q\<in>set (dk_requests d). backs q g" using assms by (simp_all add: desk_wf_def)
  have "reviewAccess E d req i v decision = (?d, Inr ())" using True by (cases "reviewAccess E d req i v decision") simp
  then show ?thesis
  proof (cases rule: reviewAccess_cases)
    case (reject q)
    then show ?thesis using wf ids close_bounded [OF wf(3)] close_keeps_backing [OF wf(1) reject(1,2)]
      by (simp add: desk_wf_def) blast
  next
    case (approve q)
    have q: "q \<in> set (dk_requests d)" "aq_id q = i" using find_first_Some [OF approve(1)] by simp_all
    then have "close_access_request E req True decision q \<in> set (dk_requests ?d)" unfolding approve(7) by (force simp: set_update_rows)
    moreover have "backs (close_access_request E req True decision q) (grant_of E d req q)"
      using approve(4,5) by (simp add: backs_def close_access_request_def grant_of_def)
    moreover have "tg_requestId (grant_of E d req q) \<notin> tg_requestId ` set (grants (dk_db d))"
      using approve(6) by (auto simp: grant_refused_def)
    moreover have "\<exists>x\<in>set (dk_requests ?d). backs x g" if "g \<in> set (grants (dk_db d))" for g
      using wf(4) that close_keeps_backing [OF wf(1) approve(1,2)] unfolding approve(7) by blast
    ultimately show ?thesis using wf ids close_bounded [OF wf(3)] by (auto simp: desk_wf_def approve(7,8))
  qed
qed

lemma deleteAll_grants:
  "grants (dk_db (fst (deleteAllWorkItems E remove d req))) = delete_rows (\<lambda>g. \<exists>q\<in>set (dk_requests d). aq_id q = tg_requestId g) (grants (dk_db d))"
  by (simp add: deleteAllWorkItems_def Let_def)

lemma deleteAll_requests [simp]: "dk_requests (fst (deleteAllWorkItems E remove d req)) = []"
  by (simp add: deleteAllWorkItems_def Let_def)

lemma deleteAll_none: "desk_wf d \<Longrightarrow> grants (dk_db (fst (deleteAllWorkItems E remove d req))) = []"
  unfolding deleteAll_grants by (fastforce simp: delete_rows_def filter_empty_conv desk_wf_def backs_def)

lemma desk_reachable_wf: "desk_reachable d \<Longrightarrow> desk_wf d"
proof (induction rule: desk_reachable.induct)
  case (start d)
  then show ?case by (simp add: desk_wf_def)
next
  case (clear d E remove req)
  then show ?case using deleteAll_none by (simp add: desk_wf_def)
next
  case (cascade d d' i j)
  then show ?case by (auto simp: desk_wf_def delete_rows_def distinct_map_filter)
next
  case (other d d')
  then show ?case by (simp add: desk_wf_def)
qed (simp_all add: requestAccess_wf reviewAccess_wf)

text \<open>C12: Every temporary access was asked for and decided. In every reachable state a grant belongs to exactly one request, which an administrator
  approved, for the group, the space and the end that were asked for, and it ends within ninety days of the request.\<close>

theorem grant_asked_and_approved:
  assumes "desk_reachable d" and "g \<in> set (grants (dk_db d))"
  shows "\<exists>!q. q \<in> set (dk_requests d) \<and> aq_id q = tg_requestId g \<and> aq_status q = QApproved \<and> aq_reviewedBy q = Some (tg_createdBy g) \<and>
    aq_groupId q = Some (tg_groupId g) \<and> aq_spaceId q = tg_spaceId g \<and>
    aq_requestedUntil q = Some (tg_validUntil g) \<and> tg_validUntil g \<le> aq_createdAt q + 90 * 86400000"
proof -
  have wf: "desk_wf d" using assms(1) by (rule desk_reachable_wf)
  then obtain q where q: "q \<in> set (dk_requests d)" "backs q g" using assms(2) by (auto simp: desk_wf_def)
  have only: "r = q" if "r \<in> set (dk_requests d)" "aq_id r = tg_requestId g" for r
    using wf q that by (auto simp: desk_wf_def backs_def intro: key_unique)
  obtain t where "aq_requestedUntil q = Some t" "t \<le> aq_createdAt q + 90 * 86400000"
    using wf q(1) unfolding desk_wf_def bounded_request_def by blast
  with q(2) have "aq_status q = QApproved \<and> aq_id q = tg_requestId g \<and> aq_reviewedBy q = Some (tg_createdBy g) \<and> aq_groupId q = Some (tg_groupId g) \<and>
    aq_spaceId q = tg_spaceId g \<and> aq_requestedUntil q = Some (tg_validUntil g) \<and> tg_validUntil g \<le> aq_createdAt q + 90 * 86400000"
    by (simp add: backs_def)
  then show ?thesis using q(1) only by blast
qed

section \<open>What an approval opens\<close>

text \<open>What the rules on categories make of a space that is open at its root: walking up from the category, the first
  category with rules decides, those of every group added up; without any, the category is open.\<close>

definition open_branch :: "env \<Rightarrow> db \<Rightarrow> string list \<Rightarrow> permission \<Rightarrow> space_row \<Rightarrow> string \<Rightarrow> bool" where
  "open_branch E s gs p sp c \<longleftrightarrow>
     (\<exists>n. decided (map (\<lambda>c. (cat_id c, cat_parentId c)) (included_categories s sp))
        (overrides_of (map (\<lambda>r. (ar_categoryId r, matches s gs r \<and> rule_perm r p)) (included_rules E s sp)) (\<lambda>_. None))
        True n c True)"

text \<open>C13: an approved request opens the space. After an approval, until the asked end, every caller in the group of the
  request may see the space, read, search and preview outside every category; and inside a category exactly if
  the nearest rules on its branch allow it or there are none (for administrators, moderators and owners of the
  space as always).\<close>

theorem approved_request_opens:
  assumes "reviewAccess E d req i Verdict_Approved decision = (d', Inr ())" and "find_first (\<lambda>q. aq_id q = i) (dk_requests d) = Some q"
    and "sp \<in> set (spaces (dk_db d))" and "sp_id sp = aq_spaceId q" and "sp_deletedAt sp = None" and "aq_spaceId q \<noteq> []"
    and "distinct (map sp_id (spaces (dk_db d)))"
    and "find_group (dk_db d) (the (aq_groupId q)) = Some grp" and "groupFilter gs grp"
    and "now E' < the (aq_requestedUntil q)" and "p \<in> {ShowMenu, Read, Search, Preview}"
  shows "can E' (dk_db d') gs (aq_spaceId q) p (InCategory None) \<and>
    (\<forall>c. c \<noteq> [] \<longrightarrow>
       (can E' (dk_db d') gs (aq_spaceId q) p (InCategory (Some c)) \<longleftrightarrow>
        isAdminIdentity gs \<or> moderatorCan gs p \<or>
        (if space_owner (dk_db d') gs p sp then c \<in> cat_id ` set (included_categories (dk_db d') sp)
         else open_branch E' (dk_db d') gs p sp c)))"
proof -
  from assms(1) obtain q' where q': "find_first (\<lambda>q. aq_id q = i) (dk_requests d) = Some q'"
    and g: "grants (dk_db d') = grants (dk_db d) @ [grant_of E d req q']" and t: "groups (dk_db d') = groups (dk_db d)" "spaces (dk_db d') = spaces (dk_db d)"
    by (cases rule: reviewAccess_cases) auto
  have eq: "q' = q" using q' assms(2) by simp
  show ?thesis
  proof (cases "isAdminIdentity gs \<or> moderatorCan gs p")
    case True
    then show ?thesis by (auto simp: can_def)
  next
    case False
    then have n: "\<not> isAdminIdentity gs" "\<not> moderatorCan gs p" by simp_all
    have "find_group (dk_db d') (the (aq_groupId q)) = Some grp" using assms(8) t(1) by (simp add: find_group_def)
    then have root: "aclRoot E' (dk_db d') gs p sp"
      unfolding aclRoot_sources [OF n] g eq using assms(4,9,10,11) by (auto simp: grant_of_def temporaryGrantPermissions_def)
    have "distinct (map sp_id (spaces (dk_db d')))" "sp \<in> set (spaces (dk_db d'))" using assms(3,7) t(2) by simp_all
    then have eq: "can E' (dk_db d') gs (aq_spaceId q) p (InCategory cid) \<longleftrightarrow>
        (if truthy cid then the cid \<in> set (aclCategories E' (dk_db d') gs p sp) else aclRoot E' (dk_db d') gs p sp)" for cid
      using can_InCategory_eq [of "dk_db d'" sp "aq_spaceId q" gs p E' cid] assms(4,5,6) n groupFilter_nonempty [OF assms(9)] by simp
    show ?thesis
      unfolding eq open_branch_def using root n by (simp add: truthy_def aclCategories_def resolveCategories_iff)
  qed
qed

text \<open>Clearing the list of work items revokes access: in every reachable state the deletion of all requests deletes every temporary
  grant with them, also those that still run.\<close>

theorem clearing_revokes:
  assumes "desk_reachable d"
  shows "grants (dk_db (fst (deleteAllWorkItems E remove d req))) = []"
  using deleteAll_none desk_reachable_wf [OF assms] by blast

text \<open>A local account that belongs to no directory group asks for a group it is not in: the alphabetically first active one, whose members get
  the access.\<close>

theorem local_request_other_group:
  assumes "requestAccess E d req body = (d', Inr q)" and "\<forall>g\<in>set (groups (dk_db d)). \<not> groupFilter (rq_groups req) g"
  shows "id_source (rq_identity req) = LocalAdmin \<and>
    (\<exists>g\<in>set (groups (dk_db d)). aq_groupId q = Some (grp_id g) \<and> grp_active g \<and> \<not> name_in (rq_groups req) (grp_name g) \<and>
       (\<forall>h\<in>set (groups (dk_db d)). grp_active h \<longrightarrow> grp_name g \<le> grp_name h))"
proof -
  obtain g where g: "eligibleGroup (dk_db d) req = Some g" "aq_groupId q = Some (grp_id g)"
    using assms(1) by (auto simp: requestAccess_def Let_def split: option.splits if_splits)
  have "matchedGroup (dk_db d) (rq_groups req) = None" using assms(2) by (simp add: matchedGroup_def find_first_by_None_iff)
  with g(1) have l: "id_source (rq_identity req) = LocalAdmin" and f: "find_first_by grp_name grp_active (groups (dk_db d)) = Some g"
    by (auto simp: eligibleGroup_def split: if_splits)
  have "g \<in> set (groups (dk_db d)) \<and> grp_active g" using find_first_by_Some [OF f] .
  with assms(2) g(2) l find_first_by_least [OF f] show ?thesis by (auto simp: groupFilter_def)
qed

section \<open>A run\<close>

definition sample_desk :: desk where
  "sample_desk = \<lparr>dk_db = sample_db, dk_requests = [], dk_reports = [], dk_security = [], dk_acks = [], dk_searches = []\<rparr>"

definition sample_ask :: access_body where
  "sample_ask = \<lparr>qb_spaceId = ''s1'', qb_documentId = None, qb_justification = ''audit'', qb_requestedUntil = None\<rparr>"

definition asked_desk :: desk where
  "asked_desk = fst (requestAccess sample_env sample_desk (sample_request ''ann'' [''staff'']) sample_ask)"

definition granted_desk :: desk where
  "granted_desk = fst (reviewAccess sample_env asked_desk (sample_request ''root'' []) ''id0'' Verdict_Approved None)"

definition asked_row :: access_request where
  "asked_row = \<lparr>aq_id = ''id0'', aq_identity = ''ann'', aq_documentId = None, aq_spaceId = ''s1'', aq_groupId = Some ''g1'', aq_requestedUntil = Some 2592001000,
     aq_justification = ''audit'', aq_status = QPending, aq_decision = None, aq_reviewedBy = None, aq_reviewedAt = None, aq_createdAt = 1000\<rparr>"

lemma sample_desk_facts:
  "next_id sample_env sample_desk = ''id0''" "dk_requests sample_desk = []" "eligibleGroup sample_db (sample_request ''ann'' [''staff'']) = Some sample_group"
  "can sample_env sample_db [''staff''] ''s1'' ShowMenu NoCategory" "spaces sample_db = [sample_space]" "trim ''audit'' = ''audit''"
  "grants sample_db = []" "find_group sample_db ''g1'' = Some sample_group" "groupFilter [''staff''] sample_group"
  by code_simp+

lemma sample_desk_db: "dk_db sample_desk = sample_db"
  by (simp add: sample_desk_def)

lemma sample_groups: "rq_groups (sample_request u gs) = gs"
  by (simp add: sample_request_def sample_identity_def)

lemma asked_desk_rows: "snd (requestAccess sample_env sample_desk (sample_request ''ann'' [''staff'']) sample_ask) = Inr asked_row"
  "dk_requests asked_desk = [asked_row]" "grants (dk_db asked_desk) = []" "groups (dk_db asked_desk) = groups sample_db" "spaces (dk_db asked_desk) = [sample_space]"
  unfolding asked_desk_def
  by (simp_all add: requestAccess_def Let_def sample_desk_db sample_desk_facts sample_groups sample_ask_def request_end_def sample_times asked_row_def)
    (simp_all add: sample_space_def sample_group_def)

lemma granted_desk_ok: "reviewAccess sample_env asked_desk (sample_request ''root'' []) ''id0'' Verdict_Approved None = (granted_desk, Inr ())"
proof -
  have "find_group (dk_db asked_desk) ''g1'' = Some sample_group" using asked_desk_rows(4) sample_desk_facts(8) by (simp add: find_group_def)
  then have "snd (reviewAccess sample_env asked_desk (sample_request ''root'' []) ''id0'' Verdict_Approved None) = Inr ()"
    by (simp add: reviewAccess_def Let_def asked_desk_rows asked_row_def grant_refused_def grant_of_def) (simp add: sample_space_def)
  then show ?thesis
    unfolding granted_desk_def by (cases "reviewAccess sample_env asked_desk (sample_request ''root'' []) ''id0'' Verdict_Approved None") simp
qed

lemma granted_desk_reachable: "desk_reachable granted_desk"
  unfolding granted_desk_def asked_desk_def
  by (intro desk_reachable.review desk_reachable.ask desk_reachable.start) (simp_all add: sample_desk_facts sample_desk_db)

lemma granted_desk_grants: "grants (dk_db granted_desk) = [grant_of sample_env asked_desk (sample_request ''root'' []) asked_row]"
  using granted_desk_ok by (cases rule: reviewAccess_cases) (simp_all add: asked_desk_rows asked_row_def)

theorem grant_asked_and_approved_witness:
  "\<exists>g\<in>set (grants (dk_db granted_desk)). \<exists>q\<in>set (dk_requests granted_desk). aq_id q = tg_requestId g \<and> aq_status q = QApproved"
  using grant_asked_and_approved [OF granted_desk_reachable, of "grant_of sample_env asked_desk (sample_request ''root'' []) asked_row"]
  by (auto simp: granted_desk_grants)

theorem approved_request_opens_witness:
  "can (sample_env\<lparr>now := 9000\<rparr>) (dk_db granted_desk) [''staff''] ''s1'' Preview (InCategory None) \<and>
   (can (sample_env\<lparr>now := 9000\<rparr>) (dk_db granted_desk) [''staff''] ''s1'' Preview (InCategory (Some ''c1'')) \<longleftrightarrow>
    open_branch (sample_env\<lparr>now := 9000\<rparr>) (dk_db granted_desk) [''staff''] Preview sample_space ''c1'')"
proof -
  have g: "find_group (dk_db asked_desk) ''g1'' = Some sample_group" using asked_desk_rows(4) sample_desk_facts(8) by (simp add: find_group_def)
  have r: "\<not> isAdminIdentity [''staff'']" "\<not> moderatorCan [''staff''] Preview"
    "\<not> space_owner (dk_db granted_desk) [''staff''] Preview sample_space"
    by (simp_all add: isAdminIdentity_def moderatorCan_def isModeratorIdentity_def space_owner_def ownerGroup_def sample_space_def)
  note opens = approved_request_opens [OF granted_desk_ok, of asked_row sample_space sample_group "[''staff'']" "sample_env\<lparr>now := 9000\<rparr>" Preview]
  show ?thesis
    using opens g r by (simp add: asked_desk_rows asked_row_def sample_desk_facts(9)) (simp add: sample_space_def)
qed

theorem clearing_revokes_witness:
  "grants (dk_db granted_desk) \<noteq> [] \<and> grants (dk_db (fst (deleteAllWorkItems sample_env (\<lambda>_. True) granted_desk (sample_request ''root'' [])))) = []"
  using clearing_revokes [OF granted_desk_reachable] by (simp add: granted_desk_grants)

definition local_request :: request where
  "local_request = (sample_request ''root'' [''ISMS-LOCAL-ADMINS''])\<lparr>rq_identity := (sample_identity ''root'' [''ISMS-LOCAL-ADMINS''])\<lparr>id_source := LocalAdmin\<rparr>\<rparr>"

theorem local_request_other_group_witness:
  "\<exists>q. snd (requestAccess sample_env sample_desk local_request sample_ask) = Inr q \<and> aq_groupId q \<noteq> None"
proof -
  let ?a = "requestAccess sample_env sample_desk local_request sample_ask"
  have f: "eligibleGroup sample_db local_request = Some sample_group" "can sample_env sample_db (rq_groups local_request) ''s1'' ShowMenu NoCategory"
    "\<forall>g\<in>set (groups sample_db). \<not> groupFilter (rq_groups local_request) g" by code_simp+
  have "\<exists>q. snd ?a = Inr q"
    by (simp add: requestAccess_def Let_def sample_desk_db sample_desk_facts f sample_ask_def request_end_def sample_times) (simp add: sample_space_def)
  then obtain q where s: "snd ?a = Inr q" by blast
  then have "?a = (fst ?a, Inr q)" by (cases ?a) simp
  from local_request_other_group [OF this] f(3) have "aq_groupId q \<noteq> None" by (auto simp: sample_desk_db)
  with s show ?thesis by blast
qed

section \<open>Searches, acknowledgements and reports\<close>

text \<open>A stored search has only the known filters, each a text of at most two hundred characters.\<close>

theorem search_filters_bounded:
  "\<exists>kvs'. search_filters kvs = JObj kvs' \<and> (\<forall>(k, v)\<in>set kvs'. k \<in> set allowedFilterKeys \<and> (\<exists>t. v = JStr t \<and> length t \<le> 200))"
  unfolding search_filters_def
  by (auto simp: List.map_filter_def filter_value_def split: if_splits json.splits)

text \<open>An acknowledgement is of the file that was read: it names the version, its number and the digest of its stored file, the document was published
  and readable, and there is one acknowledgement of each person and version.\<close>

theorem acknowledged_version:
  assumes "acknowledgeDocument E d req documentId versionId = (d', Inr ())" and "distinct (map (\<lambda>a. (ak_identity a, ak_versionId a)) (dk_acks d))"
  shows "distinct (map (\<lambda>a. (ak_identity a, ak_versionId a)) (dk_acks d')) \<and>
    (\<exists>a\<in>set (dk_acks d'). ak_identity a = rq_username req \<and> ak_versionId a = versionId \<and> ak_acknowledgedAt a = now E \<and>
       (\<exists>v\<in>set (versions (dk_db d)). \<exists>f\<in>set (storedfiles (dk_db d)). \<exists>x\<in>set (documents (dk_db d)).
          ver_id v = versionId \<and> ver_documentId v = documentId \<and> sf_id f = ver_storedFileId v \<and> ak_sha256 a = sf_sha256 f \<and>
          doc_id x = documentId \<and> doc_status x = PUBLISHED \<and> doc_deletedAt x = None))"
proof -
  let ?s = "dk_db d"
  obtain v where v: "find_first (\<lambda>v. ver_id v = versionId \<and> ver_documentId v = documentId) (versions ?s) = Some v"
    using assms(1) by (cases "find_first (\<lambda>v. ver_id v = versionId \<and> ver_documentId v = documentId) (versions ?s)") (auto simp: acknowledgeDocument_def Let_def)
  then have vm: "v \<in> set (versions ?s)" "ver_id v = versionId" "ver_documentId v = documentId" by (auto dest: find_first_Some)
  obtain x f where xf: "find_first (\<lambda>x. doc_id x = ver_documentId v) (documents ?s) = Some x" "find_first (\<lambda>f. sf_id f = ver_storedFileId v) (storedfiles ?s) = Some f"
    using assms(1) by (auto simp: acknowledgeDocument_def Let_def v split: option.splits)
  have may: "may_acknowledge E ?s req x" using assms(1) by (simp add: acknowledgeDocument_def Let_def v xf split: if_splits)
  let ?own = "\<lambda>a. ak_identity a = rq_username req \<and> ak_versionId a = versionId"
  let ?new = "\<lparr>ak_identity = rq_username req, ak_documentId = documentId, ak_versionId = versionId, ak_version = ver_version v,
      ak_locale = ver_locale v, ak_sha256 = sf_sha256 f, ak_acknowledgedAt = now E\<rparr>"
  have rows: "dk_acks d' = (if \<exists>a\<in>set (dk_acks d). ?own a
      then update_rows ?own (\<lambda>a. a\<lparr>ak_acknowledgedAt := now E, ak_sha256 := sf_sha256 f\<rparr>) (dk_acks d) else dk_acks d @ [?new])"
    using assms(1) may vm(2) by (auto simp: acknowledgeDocument_def Let_def v xf)
  have "\<exists>a\<in>set (dk_acks d'). ?own a \<and> ak_acknowledgedAt a = now E \<and> ak_sha256 a = sf_sha256 f"
  proof (cases "\<exists>a\<in>set (dk_acks d). ?own a")
    case True
    then obtain a where a: "a \<in> set (dk_acks d)" "?own a" by blast
    then have "a\<lparr>ak_acknowledgedAt := now E, ak_sha256 := sf_sha256 f\<rparr> \<in> set (dk_acks d')"
      using True by (simp only: rows if_True set_update_rows) force
    then show ?thesis using a(2) by (intro bexI) simp_all
  next
    case False
    then show ?thesis by (simp only: rows if_False) simp
  qed
  moreover have "distinct (map (\<lambda>a. (ak_identity a, ak_versionId a)) (dk_acks d'))"
    using assms(2) by (auto simp: rows map_update_rows)
  moreover have "x \<in> set (documents ?s) \<and> f \<in> set (storedfiles ?s) \<and> doc_id x = documentId \<and> sf_id f = ver_storedFileId v"
    using xf vm(3) by (auto dest!: find_first_Some)
  ultimately show ?thesis using vm may by (auto simp: may_acknowledge_def)
qed

theorem acknowledged_version_witness:
  "\<exists>a\<in>set (dk_acks (fst (acknowledgeDocument sample_env sample_desk (sample_request ''ann'' [''staff'']) ''d1'' ''v1''))). ak_sha256 a = ''ab''"
proof -
  let ?a = "acknowledgeDocument sample_env sample_desk (sample_request ''ann'' [''staff'']) ''d1'' ''v1''"
  have m: "may_acknowledge sample_env sample_db (sample_request ''ann'' [''staff'']) sample_document" by code_simp
  have t: "versions sample_db = [sample_version]" "documents sample_db = [sample_document]" "storedfiles sample_db = [sample_file]" "dk_acks sample_desk = []"
    "ver_id sample_version = ''v1''" "ver_documentId sample_version = ''d1''" "ver_storedFileId sample_version = ''f1''" "doc_id sample_document = ''d1''"
    "sf_id sample_file = ''f1''" "sf_sha256 sample_file = ''ab''" by code_simp+
  have "snd ?a = Inr ()" by (simp add: acknowledgeDocument_def Let_def sample_desk_db t m)
  then have "?a = (fst ?a, Inr ())" by (cases ?a) simp
  from acknowledged_version [OF this] show ?thesis by (auto simp: sample_desk_db t)
qed

text \<open>A report is closed only with a comment, which its author receives.\<close>

theorem report_resolution:
  assumes "resolveReport E d req i v decision = (d', Inr ())"
  shows "\<exists>r comment. find_first (\<lambda>r. dr_id r = i) (dk_reports d) = Some r \<and> comment \<noteq> [] \<and> v = Verdict_Resolved \<and>
    (\<exists>n\<in>set (notices (dk_db d')). un_identity n = dr_identity r \<and> un_message n = comment \<and> un_resourceId n = Some i) \<and>
    (\<forall>q\<in>set (dk_reports d'). dr_id q = i \<longrightarrow> \<not> dr_open q \<and> dr_resolutionComment q = Some comment \<and> dr_resolvedBy q = Some (rq_username req))"
proof -
  obtain comment where c: "clean decision = Some comment" "v = Verdict_Resolved"
    using assms by (cases "clean decision") (auto simp: resolveReport_def split: if_splits)
  obtain r where r: "find_first (\<lambda>r. dr_id r = i) (dk_reports d) = Some r"
    using assms c by (cases "find_first (\<lambda>r. dr_id r = i) (dk_reports d)") (auto simp: resolveReport_def)
  have "comment \<noteq> []" using c(1) by (auto simp: clean_def or_null_def split: if_splits option.splits bind_splits)
  moreover have "dr_id r = i" using find_first_Some [OF r] by simp
  ultimately show ?thesis using assms c r
    by (auto simp: resolveReport_def Let_def desk_audit_notices desk_notice_def set_update_rows intro!: exI [of _ r] exI [of _ comment])
qed

definition reported_desk :: desk where
  "reported_desk = sample_desk\<lparr>dk_reports := [\<lparr>dr_id = ''r1'', dr_identity = ''ann'', dr_documentId = ''d1'', dr_reason = ''OUTDATED'', dr_message = None,
     dr_open = True, dr_resolutionComment = None, dr_resolvedBy = None, dr_resolvedAt = None\<rparr>]\<rparr>"

theorem report_resolution_witness:
  "\<exists>n\<in>set (notices (dk_db (fst (resolveReport sample_env reported_desk (sample_request ''root'' []) ''r1'' Verdict_Resolved (Some ''fixed''))))). un_identity n = ''ann''"
proof -
  let ?a = "resolveReport sample_env reported_desk (sample_request ''root'' []) ''r1'' Verdict_Resolved (Some ''fixed'')"
  have c: "clean (Some ''fixed'') = Some ''fixed''" by code_simp
  have "snd ?a = Inr ()" by (simp add: resolveReport_def Let_def c reported_desk_def)
  then have "?a = (fst ?a, Inr ())" by (cases ?a) simp
  from report_resolution [OF this] show ?thesis by (auto simp: reported_desk_def)
qed

end
