(* ===== verification/Document_Management.thy ===== *)
theory Document_Management
  imports Approvals
begin

text \<open>
  Metadata of documents (\<^verbatim>\<open>apps/api/src/document-management.ts\<close>, \<^verbatim>\<open>document-management.controller.ts\<close> and the rule on metadata in
  \<^verbatim>\<open>admin.dto.ts\<close>): the search filters, the refusal of duplicates, the change of several documents with a preview and an optimistic
  lock, and the settings of the reminders. The time of the last change, which the database keeps for every document, is a field of the state here.
\<close>

section \<open>Rules on metadata\<close>

text \<open>\<open>/^(?!0000)\d{4}-\d{2}-\d{2}$/\<close>, and the day that is read prints as the same text.\<close>

definition review_day :: "string \<Rightarrow> bool" where
  "review_day t =
     (let part = (\<lambda>i n. take n (drop i t)); num = (\<lambda>i n. int (digits_value (part i n)))
      in length t = 10 \<and> part 4 1 = ''-'' \<and> part 7 1 = ''-'' \<and> list_all is_digit (part 0 4 @ part 5 2 @ part 8 2) \<and> part 0 4 \<noteq> ''0000'' \<and>
         take 10 (toISOString (days_from_civil (num 0 4) (num 5 2) (num 8 2) * day_ms)) = t)"

definition supported_types :: "string list" where
  "supported_types = [''policy'', ''procedure'', ''guide'', ''evidence'', ''record'']"

text \<open>\<open>key_ok\<close> is the pattern of Unicode letters and digits for names of fields. Lengths are exact for ASCII.\<close>

definition valid_field :: "(string \<Rightarrow> bool) \<Rightarrow> string \<times> json \<Rightarrow> bool" where
  "valid_field key_ok kv =
     (case kv of
        (k, JStr t) \<Rightarrow>
          key_ok k \<and> k \<notin> {''__proto__'', ''constructor'', ''prototype''} \<and> length t \<le> 1000 \<and>
          (k \<noteq> ''ged.documentType'' \<or> t \<in> set ([] # supported_types)) \<and> (k \<noteq> ''ged.reviewDate'' \<or> t = [] \<or> review_day t)
      | _ \<Rightarrow> False)"

definition valid_metadata :: "(string \<Rightarrow> bool) \<Rightarrow> json \<Rightarrow> bool" where
  "valid_metadata key_ok m = (case m of JObj kvs \<Rightarrow> length kvs \<le> 20 \<and> list_all (valid_field key_ok) kvs | _ \<Rightarrow> False)"

definition spread :: "json \<Rightarrow> (string \<times> string) list \<Rightarrow> json" where
  "spread m patch = foldl (\<lambda>acc kv. json_set (fst kv) (JStr (snd kv)) acc) (case m of JObj kvs \<Rightarrow> JObj kvs | _ \<Rightarrow> JObj []) patch"

definition mergeMetadata :: "(string \<Rightarrow> bool) \<Rightarrow> json \<Rightarrow> (string \<times> string) list \<Rightarrow> json outcome" where
  "mergeMetadata key_ok previous patch =
     (let merged = spread previous patch
      in if valid_metadata key_ok merged then Inr merged else Inl (BadRequest ''Invalid metadata: maximum 20 optional text fields''))"

section \<open>Filters and duplicates\<close>

datatype clause = Review_From string | Review_To string | Field_Equals string string | Field_Contains string string

definition documentFilterKeys :: "string list" where
  "documentFilterKeys = [''reference'', ''owner'', ''documentType'', ''keywords'', ''reviewFrom'', ''reviewTo'']"

definition filter_clause :: "string \<Rightarrow> string \<Rightarrow> clause outcome" where
  "filter_clause k v =
     (if 200 < length v then Inl (BadRequest ''Invalid document filter'')
      else if k \<in> {''reviewFrom'', ''reviewTo''}
      then (if \<not> review_day v then Inl (BadRequest ''Invalid review date'') else Inr (if k = ''reviewFrom'' then Review_From v else Review_To v))
      else if k = ''documentType'' \<and> v \<notin> set supported_types then Inl (BadRequest ''Invalid document type'')
      else Inr (if k = ''documentType'' then Field_Equals k v else Field_Contains k v))"

fun filter_clauses :: "(string \<Rightarrow> string option) \<Rightarrow> string list \<Rightarrow> clause list outcome" where
  "filter_clauses filters [] = Inr []"
| "filter_clauses filters (k # ks) =
     (case Option.bind (filters k) or_null of
        None \<Rightarrow> filter_clauses filters ks
      | Some v \<Rightarrow>
          (case filter_clause k v of
             Inl e \<Rightarrow> Inl e
           | Inr c \<Rightarrow> (case filter_clauses filters ks of Inl e \<Rightarrow> Inl e | Inr cs \<Rightarrow> Inr (c # cs))))"

definition metadataWhere :: "(string \<Rightarrow> string option) \<Rightarrow> clause list outcome" where
  "metadataWhere filters =
     (case filter_clauses filters documentFilterKeys of
        Inl e \<Rightarrow> Inl e
      | Inr cs \<Rightarrow>
          (case (Option.bind (filters ''reviewFrom'') or_null, Option.bind (filters ''reviewTo'') or_null) of
             (Some a, Some b) \<Rightarrow> if b < a then Inl (BadRequest ''Invalid review date range'') else Inr cs
           | _ \<Rightarrow> Inr cs))"

definition rejectDuplicate :: "db \<Rightarrow> string \<Rightarrow> (document_row \<Rightarrow> bool) \<Rightarrow> unit outcome" where
  "rejectDuplicate s sha scope =
     (case find_first (\<lambda>d. doc_deletedAt d = None \<and> scope d \<and>
              (\<exists>v\<in>set (versions s). ver_documentId v = doc_id d \<and> (\<exists>f\<in>set (storedfiles s). sf_id f = ver_storedFileId v \<and> sf_sha256 f = sha))) (documents s) of
        Some d \<Rightarrow> Inl (Conflict ''This file already exists. Open the existing document or upload a new version.'')
      | None \<Rightarrow> Inr ())"

section \<open>Changes of several documents\<close>

record mgmt =
  mg_db :: db
  mg_updatedAt :: "string \<Rightarrow> time"

record bulk_documents =
  bd_documents :: "(string \<times> string option) list"
  bd_metadata :: "(string \<times> string) list"
  bd_category :: category_arg

record change =
  bc_id :: string
  bc_title :: string
  bc_expected :: time
  bc_categoryBefore :: "string option"
  bc_categoryAfter :: "string option"
  bc_metadataBefore :: json
  bc_metadataAfter :: json
  bc_fields :: "string list"

definition first_title :: "db \<Rightarrow> string \<Rightarrow> string" where
  "first_title s i = (case Option.bind (find_first (\<lambda>t. tr_documentId t = i) (titles s)) (\<lambda>t. or_null (tr_title t)) of Some t \<Rightarrow> t | None \<Rightarrow> i)"

definition change_of :: "mgmt \<Rightarrow> bulk_documents \<Rightarrow> document_row \<Rightarrow> json \<Rightarrow> change" where
  "change_of g body x metadata =
     \<lparr>bc_id = doc_id x, bc_title = first_title (mg_db g) (doc_id x), bc_expected = mg_updatedAt g (doc_id x), bc_categoryBefore = doc_categoryId x,
      bc_categoryAfter = (case bd_category body of NoCategory \<Rightarrow> doc_categoryId x | InCategory c \<Rightarrow> c),
      bc_metadataBefore = doc_metadata x, bc_metadataAfter = metadata,
      bc_fields = filter (\<lambda>k. json_get k (doc_metadata x) \<noteq> json_get k metadata) (new_set (map fst (bd_metadata body)))\<rparr>"

definition may_move :: "env \<Rightarrow> db \<Rightarrow> request \<Rightarrow> string option \<Rightarrow> bulk_documents \<Rightarrow> document_row \<Rightarrow> bool" where
  "may_move E s req targetSpace body x =
     (can E s (rq_groups req) (doc_spaceId x) Edit (InCategory (doc_categoryId x)) \<and>
      (case bd_category body of
         NoCategory \<Rightarrow> True
       | InCategory c \<Rightarrow> can E s (rq_groups req) (doc_spaceId x) Edit (InCategory c) \<and> null_or (\<lambda>sp. sp = doc_spaceId x) targetSpace))"

fun preview_loop :: "(string \<Rightarrow> bool) \<Rightarrow> env \<Rightarrow> mgmt \<Rightarrow> request \<Rightarrow> string option \<Rightarrow> bulk_documents \<Rightarrow> document_row list \<Rightarrow> change list outcome" where
  "preview_loop key_ok E g req targetSpace body [] = Inr []"
| "preview_loop key_ok E g req targetSpace body (x # xs) =
     (if \<not> may_move E (mg_db g) req targetSpace body x then Inl NotFound
      else (case mergeMetadata key_ok (doc_metadata x) (bd_metadata body) of
          Inl e \<Rightarrow> Inl e
        | Inr m \<Rightarrow>
            (case preview_loop key_ok E g req targetSpace body xs of
               Inl e \<Rightarrow> Inl e
             | Inr cs \<Rightarrow> Inr (change_of g body x m # cs))))"

definition target_category :: "db \<Rightarrow> category_arg \<Rightarrow> category_row option" where
  "target_category s arg =
     (case arg of
        InCategory (Some c) \<Rightarrow> if c = [] then None else find_first (\<lambda>r. cat_id r = c \<and> cat_deletedAt r = None) (categories s)
      | _ \<Rightarrow> None)"

definition wants_category :: "category_arg \<Rightarrow> bool" where
  "wants_category arg = (case arg of InCategory (Some c) \<Rightarrow> c \<noteq> [] | _ \<Rightarrow> False)"

definition bulk_preview :: "(string \<Rightarrow> bool) \<Rightarrow> env \<Rightarrow> mgmt \<Rightarrow> request \<Rightarrow> bulk_documents \<Rightarrow> change list outcome" where
  "bulk_preview key_ok E g req body =
     (let ids = map fst (bd_documents body); s = mg_db g; xs = filter (\<lambda>x. doc_id x \<in> set ids \<and> doc_deletedAt x = None) (documents s);
          target = target_category s (bd_category body)
      in if length (new_set ids) \<noteq> length ids then Inl (BadRequest ''Duplicate document selection'')
         else if bd_category body = NoCategory \<and> bd_metadata body = [] then Inl (BadRequest ''Select a metadata or category change'')
         else if length xs \<noteq> length ids then Inl NotFound
         else if wants_category (bd_category body) \<and> target = None then Inl (BadRequest ''Invalid category'')
         else preview_loop key_ok E g req (map_option cat_spaceId target) body xs)"

text \<open>The transaction, on the state it finds: between the preview and the transaction other requests may have been served.\<close>

definition commit_change :: "env \<Rightarrow> mgmt \<Rightarrow> request \<Rightarrow> change \<Rightarrow> mgmt outcome" where
  "commit_change E g req c =
     (case applyDocumentType (mg_db g) (bc_metadataAfter c) of
        (s1, Inl e) \<Rightarrow> Inl e
      | (s1, Inr m) \<Rightarrow>
          (let p = (\<lambda>x. doc_id x = bc_id c \<and> doc_deletedAt x = None \<and> mg_updatedAt g (doc_id x) = bc_expected c);
               s2 = s1\<lparr>documents := update_rows p (\<lambda>x. x\<lparr>doc_metadata := m, doc_categoryId := bc_categoryAfter c\<rparr>) (documents s1)\<rparr>
           in if count_rows p (documents s1) \<noteq> 1 then Inl (Conflict ''Document changed; preview the changes again'')
              else Inr \<lparr>mg_db = fst (persistAudit E s2 req ''document.metadata.bulk'' (''document:'' @ bc_id c) Success
                            (Some (JObj [(''fields'', JArr (map JStr (bc_fields c))), (''categoryChanged'', JBool (bc_categoryBefore c \<noteq> bc_categoryAfter c))])) False),
                        mg_updatedAt = (mg_updatedAt g)(bc_id c := max (now E) (bc_expected c + 1))\<rparr>))"

fun commit_loop :: "env \<Rightarrow> mgmt \<Rightarrow> request \<Rightarrow> change list \<Rightarrow> mgmt outcome" where
  "commit_loop E g req [] = Inr g"
| "commit_loop E g req (c # cs) = (case commit_change E g req c of Inl e \<Rightarrow> Inl e | Inr g' \<Rightarrow> commit_loop E g' req cs)"

definition commit_changes :: "env \<Rightarrow> mgmt \<Rightarrow> request \<Rightarrow> change list \<Rightarrow> mgmt \<times> nat outcome" where
  "commit_changes E g req cs = (case commit_loop E g req cs of Inl e \<Rightarrow> (g, Inl e) | Inr g' \<Rightarrow> (g', Inr (length cs)))"

definition stale :: "bulk_documents \<Rightarrow> change \<Rightarrow> bool" where
  "stale body c = (Option.bind (find_first (\<lambda>kv. fst kv = bc_id c) (bd_documents body)) snd \<noteq> Some (toISOString (bc_expected c)))"

definition apply_bulk :: "(string \<Rightarrow> bool) \<Rightarrow> env \<Rightarrow> mgmt \<Rightarrow> request \<Rightarrow> bulk_documents \<Rightarrow> mgmt \<times> nat outcome" where
  "apply_bulk key_ok E g req body =
     (case bulk_preview key_ok E g req body of
        Inl e \<Rightarrow> (g, Inl e)
      | Inr cs \<Rightarrow> if list_ex (stale body) cs then (g, Inl (Conflict ''Document changed; preview the changes again'')) else commit_changes E g req cs)"

section \<open>Reminders\<close>

record reminders =
  rm_enabled :: bool
  rm_leadDays :: int
  rm_overdueDays :: int
  rm_publicationRepeatDays :: int

definition reminderDefaults :: reminders where
  "reminderDefaults = \<lparr>rm_enabled = True, rm_leadDays = 30, rm_overdueDays = 7, rm_publicationRepeatDays = 0\<rparr>"

definition days_setting :: "json \<Rightarrow> string \<Rightarrow> int \<Rightarrow> int" where
  "days_setting data k dflt = (case json_get k data of Some (JNum n) \<Rightarrow> if 0 \<le> n \<and> n \<le> 365 then n else dflt | _ \<Rightarrow> dflt)"

definition readReminderSettings :: "json \<Rightarrow> reminders" where
  "readReminderSettings data =
     \<lparr>rm_enabled = (case json_get ''enabled'' data of Some (JBool b) \<Rightarrow> b | _ \<Rightarrow> True),
      rm_leadDays = days_setting data ''leadDays'' (rm_leadDays reminderDefaults),
      rm_overdueDays = days_setting data ''overdueDays'' (rm_overdueDays reminderDefaults),
      rm_publicationRepeatDays = days_setting data ''publicationRepeatDays'' (rm_publicationRepeatDays reminderDefaults)\<rparr>"

definition reminders_json :: "reminders \<Rightarrow> json" where
  "reminders_json r = JObj [(''enabled'', JBool (rm_enabled r)), (''leadDays'', JNum (rm_leadDays r)), (''overdueDays'', JNum (rm_overdueDays r)),
     (''publicationRepeatDays'', JNum (rm_publicationRepeatDays r))]"

definition reminders_of :: "db \<Rightarrow> reminders" where
  "reminders_of s = readReminderSettings (case get_setting s ''documents.reminders'' of Some v \<Rightarrow> v | None \<Rightarrow> JNull)"

definition saveReminders :: "env \<Rightarrow> db \<Rightarrow> request \<Rightarrow> reminders \<Rightarrow> db \<times> reminders" where
  "saveReminders E s req body =
     (let r = readReminderSettings (reminders_json body)
      in (fst (persistAudit E (put_setting s ''documents.reminders'' (reminders_json r)) req ''documents.reminders.update'' ''documents:reminders'' Success
            (Some (reminders_json r)) False), r))"

section \<open>No lost update\<close>

lemma applyDocumentType_documents: "applyDocumentType s m = (s', r) \<Longrightarrow> documents s' = documents s \<and> audits s' = audits s"
  by (auto simp: applyDocumentType_def Let_def split: option.splits if_splits)

lemma commit_change_Inr:
  assumes "commit_change E g req c = Inr g'"
  shows "mg_updatedAt g (bc_id c) = bc_expected c" and "mg_updatedAt g' = (mg_updatedAt g)(bc_id c := max (now E) (bc_expected c + 1))"
    and "\<exists>x\<in>set (documents (mg_db g)). doc_id x = bc_id c \<and> doc_deletedAt x = None"
    and "\<exists>m. documents (mg_db g') = update_rows (\<lambda>x. doc_id x = bc_id c \<and> doc_deletedAt x = None \<and> mg_updatedAt g (doc_id x) = bc_expected c)
      (\<lambda>x. x\<lparr>doc_metadata := m, doc_categoryId := bc_categoryAfter c\<rparr>) (documents (mg_db g))"
    and "\<exists>e. audits (mg_db g') = audits (mg_db g) @ [e] \<and> ae_action e = ''document.metadata.bulk'' \<and> ae_resource e = ''document:'' @ bc_id c \<and>
      ae_identity e = rq_username req"
proof -
  let ?p = "\<lambda>x. doc_id x = bc_id c \<and> doc_deletedAt x = None \<and> mg_updatedAt g (doc_id x) = bc_expected c"
  obtain s1 m where a: "applyDocumentType (mg_db g) (bc_metadataAfter c) = (s1, Inr m)"
    using assms by (auto simp: commit_change_def split: prod.splits sum.splits)
  then have t: "documents s1 = documents (mg_db g)" "audits s1 = audits (mg_db g)" using applyDocumentType_documents by blast+
  have n: "count_rows ?p (documents (mg_db g)) = 1" using assms by (simp add: commit_change_def a Let_def t split: if_splits)
  then have "0 < count_rows ?p (documents (mg_db g))" by simp
  then obtain x where x: "x \<in> set (documents (mg_db g))" "?p x" unfolding count_rows_pos_iff by blast
  then show "mg_updatedAt g (bc_id c) = bc_expected c" "\<exists>x\<in>set (documents (mg_db g)). doc_id x = bc_id c \<and> doc_deletedAt x = None" by auto
  have g': "g' = \<lparr>mg_db = fst (persistAudit E (s1\<lparr>documents := update_rows ?p (\<lambda>x. x\<lparr>doc_metadata := m, doc_categoryId := bc_categoryAfter c\<rparr>) (documents s1)\<rparr>)
      req ''document.metadata.bulk'' (''document:'' @ bc_id c) Success
      (Some (JObj [(''fields'', JArr (map JStr (bc_fields c))), (''categoryChanged'', JBool (bc_categoryBefore c \<noteq> bc_categoryAfter c))])) False),
      mg_updatedAt = (mg_updatedAt g)(bc_id c := max (now E) (bc_expected c + 1))\<rparr>"
    using assms n by (simp add: commit_change_def a Let_def t)
  show "mg_updatedAt g' = (mg_updatedAt g)(bc_id c := max (now E) (bc_expected c + 1))"
    and "\<exists>m. documents (mg_db g') = update_rows ?p (\<lambda>x. x\<lparr>doc_metadata := m, doc_categoryId := bc_categoryAfter c\<rparr>) (documents (mg_db g))"
    and "\<exists>e. audits (mg_db g') = audits (mg_db g) @ [e] \<and> ae_action e = ''document.metadata.bulk'' \<and> ae_resource e = ''document:'' @ bc_id c \<and>
      ae_identity e = rq_username req"
    by (auto simp: g' t audit_event_def)
qed

lemma commit_loop_times:
  assumes "commit_loop E g req cs = Inr g'" and "distinct (map bc_id cs)"
  shows "(\<forall>c\<in>set cs. mg_updatedAt g (bc_id c) = bc_expected c \<and> bc_expected c < mg_updatedAt g' (bc_id c)) \<and>
    (\<forall>i. i \<notin> bc_id ` set cs \<longrightarrow> mg_updatedAt g' i = mg_updatedAt g i)"
  using assms
proof (induction cs arbitrary: g)
  case (Cons c cs)
  from Cons.prems(1) obtain g1 where g1: "commit_change E g req c = Inr g1" "commit_loop E g1 req cs = Inr g'" by (auto split: sum.splits)
  note IH = Cons.IH [OF g1(2)] and one = commit_change_Inr [OF g1(1)]
  have fresh: "bc_id c \<notin> bc_id ` set cs" and d: "distinct (map bc_id cs)" using Cons.prems(2) by simp_all
  have "mg_updatedAt g' (bc_id c) = max (now E) (bc_expected c + 1)" using IH [OF d] fresh one(2) by simp
  moreover have "mg_updatedAt g (bc_id x) = bc_expected x \<and> bc_expected x < mg_updatedAt g' (bc_id x)" if "x \<in> set cs" for x
  proof -
    have "bc_id x \<noteq> bc_id c" using fresh that by (metis imageI)
    then show ?thesis using IH [OF d] that one(2) by auto
  qed
  ultimately show ?case using IH [OF d] one(1,2) by auto
qed simp

text \<open>C28: No update is lost. A committed change of several documents found each of them with exactly the time of last change that was
  previewed, and raised it. Any other change that shares a document with it and was previewed before, so that its time of that document is
  at most the one the commit found, fails afterwards and changes nothing, in every later state in which the time of last change of the shared
  document is not below the one the commit wrote. (The commit writes at least one millisecond more than it found; the other
  writers write the clock.)\<close>

theorem bulk_no_lost_update:
  assumes "commit_changes E g req cs = (g1, Inr n)" and "distinct (map bc_id cs)"
  shows "(\<forall>c\<in>set cs. mg_updatedAt g (bc_id c) = bc_expected c \<and> bc_expected c < mg_updatedAt g1 (bc_id c)) \<and>
    (\<forall>cs2 c2 E2 g2 req2. distinct (map bc_id cs2) \<and> c2 \<in> set cs2 \<and> bc_id c2 \<in> bc_id ` set cs \<and>
       bc_expected c2 \<le> mg_updatedAt g (bc_id c2) \<and> mg_updatedAt g1 (bc_id c2) \<le> mg_updatedAt g2 (bc_id c2) \<longrightarrow>
       (\<exists>e. commit_changes E2 g2 req2 cs2 = (g2, Inl e)))"
proof (intro conjI allI impI)
  have l: "commit_loop E g req cs = Inr g1" using assms(1) by (auto simp: commit_changes_def split: sum.splits)
  show times: "\<forall>c\<in>set cs. mg_updatedAt g (bc_id c) = bc_expected c \<and> bc_expected c < mg_updatedAt g1 (bc_id c)"
    using commit_loop_times [OF l assms(2)] by blast
  fix cs2 :: "change list" and c2 :: change and E2 :: env and g2 :: mgmt and req2 :: request
  assume a: "distinct (map bc_id cs2) \<and> c2 \<in> set cs2 \<and> bc_id c2 \<in> bc_id ` set cs \<and>
    bc_expected c2 \<le> mg_updatedAt g (bc_id c2) \<and> mg_updatedAt g1 (bc_id c2) \<le> mg_updatedAt g2 (bc_id c2)"
  then obtain c where c: "c \<in> set cs" "bc_id c2 = bc_id c" by auto
  show "\<exists>e. commit_changes E2 g2 req2 cs2 = (g2, Inl e)"
  proof (cases "commit_loop E2 g2 req2 cs2")
    case (Inr g3)
    then have "mg_updatedAt g2 (bc_id c2) = bc_expected c2" using commit_loop_times [OF Inr] a by blast
    with a c times show ?thesis by fastforce
  qed (simp add: commit_changes_def)
qed

lemma commit_loop_audits:
  "commit_loop E g req cs = Inr g' \<Longrightarrow> \<exists>es. audits (mg_db g') = audits (mg_db g) @ es \<and> map ae_resource es = map (\<lambda>c. ''document:'' @ bc_id c) cs \<and>
     (\<forall>e\<in>set es. ae_action e = ''document.metadata.bulk'' \<and> ae_identity e = rq_username req)"
proof (induction cs arbitrary: g)
  case (Cons c cs)
  from Cons.prems obtain g1 where g1: "commit_change E g req c = Inr g1" "commit_loop E g1 req cs = Inr g'" by (auto split: sum.splits)
  from commit_change_Inr(5) [OF g1(1)] obtain e where e: "audits (mg_db g1) = audits (mg_db g) @ [e]" "ae_action e = ''document.metadata.bulk''"
    "ae_resource e = ''document:'' @ bc_id c" "ae_identity e = rq_username req" by blast
  from Cons.IH [OF g1(2)] obtain es where "audits (mg_db g') = audits (mg_db g1) @ es" "map ae_resource es = map (\<lambda>c. ''document:'' @ bc_id c) cs"
    "\<forall>e\<in>set es. ae_action e = ''document.metadata.bulk'' \<and> ae_identity e = rq_username req" by blast
  with e show ?case by (intro exI [of _ "e # es"]) simp
qed simp

lemma commit_loop_frame:
  "commit_loop E g req cs = Inr g' \<Longrightarrow> filter (\<lambda>x. doc_id x \<notin> bc_id ` set cs) (documents (mg_db g')) = filter (\<lambda>x. doc_id x \<notin> bc_id ` set cs) (documents (mg_db g))"
proof (induction cs arbitrary: g)
  case (Cons c cs)
  from Cons.prems obtain g1 where g1: "commit_change E g req c = Inr g1" "commit_loop E g1 req cs = Inr g'" by (auto split: sum.splits)
  let ?q = "\<lambda>x. doc_id x \<notin> bc_id ` set (c # cs)"
  from commit_change_Inr(4) [OF g1(1)] obtain m where m: "documents (mg_db g1) = update_rows (\<lambda>x. doc_id x = bc_id c \<and> doc_deletedAt x = None \<and>
      mg_updatedAt g (doc_id x) = bc_expected c) (\<lambda>x. x\<lparr>doc_metadata := m, doc_categoryId := bc_categoryAfter c\<rparr>) (documents (mg_db g))" by blast
  have q: "filter ?q xs = filter (\<lambda>x. doc_id x \<noteq> bc_id c) (filter (\<lambda>x. doc_id x \<notin> bc_id ` set cs) xs)" for xs :: "document_row list"
    by (auto intro: filter_cong)
  have "filter ?q (update_rows (\<lambda>x. doc_id x = bc_id c \<and> P x) (\<lambda>x. x\<lparr>doc_metadata := m, doc_categoryId := b\<rparr>) xs) = filter ?q xs"
    for P b and xs :: "document_row list" by (induction xs) auto
  then have "filter ?q (documents (mg_db g1)) = filter ?q (documents (mg_db g))" unfolding m .
  moreover have "filter ?q (documents (mg_db g')) = filter ?q (documents (mg_db g1))" unfolding q using Cons.IH [OF g1(2)] by simp
  ultimately show ?case by simp
qed simp

lemma preview_loop_Inr:
  "preview_loop key_ok E g req tsp body xs = Inr cs \<Longrightarrow> map bc_id cs = map doc_id xs \<and> (\<forall>x\<in>set xs. may_move E (mg_db g) req tsp body x) \<and>
     (\<forall>c\<in>set cs. valid_metadata key_ok (bc_metadataAfter c))"
proof (induction xs arbitrary: cs)
  case (Cons x xs)
  then obtain m cs' where "may_move E (mg_db g) req tsp body x" "mergeMetadata key_ok (doc_metadata x) (bd_metadata body) = Inr m"
    "preview_loop key_ok E g req tsp body xs = Inr cs'" "cs = change_of g body x m # cs'"
    by (auto split: if_splits sum.splits)
  with Cons.IH [of cs'] show ?case by (auto simp: change_of_def mergeMetadata_def Let_def split: if_splits)
qed simp

text \<open>A change of several documents is authorised, complete and recorded: it happens for all chosen documents or not at all; the caller may edit each
  of them where it is and where it goes, and saw its present state; one event is written for each document, and no other document changes.\<close>

theorem bulk_authorised:
  assumes "distinct (map doc_id (documents (mg_db g)))"
  shows "case apply_bulk key_ok E g req body of
      (g', Inl e) \<Rightarrow> g' = g
    | (g', Inr n) \<Rightarrow>
        (\<exists>xs cs es. n = length xs \<and> map doc_id xs = map bc_id cs \<and> set (map doc_id xs) = set (map fst (bd_documents body)) \<and> set xs \<subseteq> set (documents (mg_db g)) \<and>
           (\<forall>x\<in>set xs. doc_deletedAt x = None \<and> can E (mg_db g) (rq_groups req) (doc_spaceId x) Edit (InCategory (doc_categoryId x)) \<and>
              (\<forall>c. bd_category body = InCategory c \<longrightarrow> can E (mg_db g) (rq_groups req) (doc_spaceId x) Edit (InCategory c))) \<and>
           (\<forall>c\<in>set cs. \<not> stale body c \<and> bc_expected c = mg_updatedAt g (bc_id c) \<and> valid_metadata key_ok (bc_metadataAfter c)) \<and>
           audits (mg_db g') = audits (mg_db g) @ es \<and> map ae_resource es = map (\<lambda>x. ''document:'' @ doc_id x) xs \<and>
           filter (\<lambda>x. doc_id x \<notin> fst ` set (bd_documents body)) (documents (mg_db g')) =
             filter (\<lambda>x. doc_id x \<notin> fst ` set (bd_documents body)) (documents (mg_db g)))"
proof (cases "\<exists>g' n. apply_bulk key_ok E g req body = (g', Inr n)")
  case False
  then show ?thesis
    by (auto simp: apply_bulk_def commit_changes_def split: prod.splits sum.splits if_splits)
next
  case True
  then obtain g' n where r: "apply_bulk key_ok E g req body = (g', Inr n)" by blast
  then obtain cs where p: "bulk_preview key_ok E g req body = Inr cs" and st: "\<not> list_ex (stale body) cs" and c: "commit_loop E g req cs = Inr g'" "n = length cs"
    by (auto simp: apply_bulk_def commit_changes_def split: sum.splits if_splits)
  let ?ids = "map fst (bd_documents body)" and ?tsp = "map_option cat_spaceId (target_category (mg_db g) (bd_category body))"
  define xs where "xs = filter (\<lambda>x. doc_id x \<in> set ?ids \<and> doc_deletedAt x = None) (documents (mg_db g))"
  have l: "length (new_set ?ids) = length ?ids" "length xs = length ?ids" and pl: "preview_loop key_ok E g req ?tsp body xs = Inr cs"
    using p by (simp_all add: bulk_preview_def Let_def xs_def split: if_splits)
  note pre = preview_loop_Inr [OF pl]
  have dx: "distinct (map doc_id xs)" using assms by (simp add: xs_def distinct_map_filter)
  have ids: "set (map doc_id xs) = set ?ids"
  proof (rule card_subset_eq)
    have "card (set (map doc_id xs)) = length ?ids" using distinct_card [OF dx] l(2) by simp
    also have "\<dots> = card (set ?ids)" using distinct_card [of "new_set ?ids"] l(1) by simp
    finally show "card (set (map doc_id xs)) = card (set ?ids)" .
  qed (auto simp: xs_def)
  have dc: "distinct (map bc_id cs)" and bi: "bc_id ` set cs = fst ` set (bd_documents body)" using dx pre ids by (metis, metis list.set_map)
  from commit_loop_audits [OF c(1)] obtain es where es: "audits (mg_db g') = audits (mg_db g) @ es" "map ae_resource es = map (\<lambda>c. ''document:'' @ bc_id c) cs" by blast
  have "map (\<lambda>c. ''document:'' @ bc_id c) cs = map ((@) ''document:'') (map bc_id cs)" by simp
  also have "\<dots> = map (\<lambda>x. ''document:'' @ doc_id x) xs" using pre by simp
  finally have res: "map ae_resource es = map (\<lambda>x. ''document:'' @ doc_id x) xs" using es(2) by simp
  have len: "n = length xs" using pre c(2) by (metis length_map)
  have may: "\<forall>x\<in>set xs. doc_deletedAt x = None \<and> can E (mg_db g) (rq_groups req) (doc_spaceId x) Edit (InCategory (doc_categoryId x)) \<and>
      (\<forall>c. bd_category body = InCategory c \<longrightarrow> can E (mg_db g) (rq_groups req) (doc_spaceId x) Edit (InCategory c))"
    using pre by (auto simp: may_move_def xs_def)
  have chg: "\<forall>c\<in>set cs. \<not> stale body c \<and> bc_expected c = mg_updatedAt g (bc_id c) \<and> valid_metadata key_ok (bc_metadataAfter c)"
    using pre st commit_loop_times [OF c(1) dc] by (auto simp: list_ex_iff)
  have "set xs \<subseteq> set (documents (mg_db g))" by (auto simp: xs_def)
  then show ?thesis
    unfolding r prod.case sum.case using len pre ids may chg es(1) res commit_loop_frame [OF c(1)] unfolding bi by (intro exI [of _ xs] exI [of _ cs] exI [of _ es]) simp
qed

section \<open>A run\<close>

definition sample_mgmt :: mgmt where
  "sample_mgmt = \<lparr>mg_db = sample_db, mg_updatedAt = (\<lambda>_. 100)\<rparr>"

definition sample_selection :: bulk_documents where
  "sample_selection = \<lparr>bd_documents = [(''d1'', Some (toISOString 100))], bd_metadata = [(''ged.owner'', ''ann'')], bd_category = NoCategory\<rparr>"

definition sample_change :: change where
  "sample_change = \<lparr>bc_id = ''d1'', bc_title = ''d1'', bc_expected = 100, bc_categoryBefore = None, bc_categoryAfter = None,
     bc_metadataBefore = JObj [], bc_metadataAfter = JObj [(''ged.owner'', JStr ''ann'')], bc_fields = [''ged.owner'']\<rparr>"

lemma sample_bulk_preview:
  "bulk_preview (\<lambda>_. True) sample_env sample_mgmt (sample_request ''ann'' [''staff'']) sample_selection = Inr [sample_change]"
proof -
  have d: "documents sample_db = [sample_document]" "doc_id sample_document = ''d1''" "doc_deletedAt sample_document = None" "doc_metadata sample_document = JObj []"
    "doc_categoryId sample_document = None" "doc_spaceId sample_document = ''s1''" "titles sample_db = []" by code_simp+
  have merged: "mergeMetadata (\<lambda>_. True) (JObj []) [(''ged.owner'', ''ann'')] = Inr (JObj [(''ged.owner'', JStr ''ann'')])"
    by (simp add: mergeMetadata_def spread_def json_set_def valid_metadata_def valid_field_def)
  have c: "can sample_env sample_db [''staff''] ''s1'' Edit (InCategory None)"
    "filter (\<lambda>k. json_get k (JObj []) \<noteq> json_get k (JObj [(''ged.owner'', JStr ''ann'')])) (new_set (map fst [(''ged.owner'', ''ann'')])) = [''ged.owner'']"
    by code_simp+
  show ?thesis using c(2)
    by (simp add: bulk_preview_def Let_def sample_mgmt_def sample_selection_def d c(1) merged may_move_def change_of_def sample_change_def first_title_def
        wants_category_def sample_request_def sample_identity_def)
qed

lemma sample_commit: "\<exists>g. commit_changes sample_env sample_mgmt (sample_request ''ann'' [''staff'']) [sample_change] = (g, Inr 1)"
proof -
  have a: "applyDocumentType sample_db (JObj [(''ged.owner'', JStr ''ann'')]) = (sample_db, Inr (JObj [(''ged.owner'', JStr ''ann'')]))"
    by (simp add: applyDocumentType_def findType_def metadata_text_def json_get_def DOCUMENT_TYPE_KEY_def)
  have d: "documents sample_db = [sample_document]" "doc_id sample_document = ''d1''" "doc_deletedAt sample_document = None" by code_simp+
  show ?thesis by (simp add: commit_changes_def commit_change_def sample_change_def sample_mgmt_def a d Let_def)
qed

theorem bulk_no_lost_update_witness:
  "\<exists>g. commit_changes sample_env sample_mgmt (sample_request ''ann'' [''staff'']) [sample_change] = (g, Inr 1) \<and>
     (\<exists>e. commit_changes sample_env g (sample_request ''bob'' [''staff'']) [sample_change] = (g, Inl e))"
proof -
  obtain g where g: "commit_changes sample_env sample_mgmt (sample_request ''ann'' [''staff'']) [sample_change] = (g, Inr 1)" using sample_commit by blast
  have "\<exists>e. commit_changes sample_env g (sample_request ''bob'' [''staff'']) [sample_change] = (g, Inl e)"
  proof -
    have late: "distinct (map bc_id cs2) \<Longrightarrow> c2 \<in> set cs2 \<Longrightarrow> bc_id c2 = bc_id sample_change \<Longrightarrow>
        bc_expected c2 \<le> mg_updatedAt sample_mgmt (bc_id c2) \<Longrightarrow> mg_updatedAt g (bc_id c2) \<le> mg_updatedAt g2 (bc_id c2) \<Longrightarrow>
        \<exists>e. commit_changes E2 g2 req2 cs2 = (g2, Inl e)" for cs2 c2 E2 g2 req2
      using conjunct2 [OF bulk_no_lost_update [OF g]] by fastforce
    have "bc_expected sample_change \<le> mg_updatedAt sample_mgmt (bc_id sample_change)"
      using conjunct1 [OF bulk_no_lost_update [OF g]] by simp
    then show ?thesis by (intro late [of _ sample_change]) simp_all
  qed
  with g show ?thesis by blast
qed

theorem bulk_authorised_witness:
  "\<exists>g es. apply_bulk (\<lambda>_. True) sample_env sample_mgmt (sample_request ''ann'' [''staff'']) sample_selection = (g, Inr 1) \<and>
     audits (mg_db g) = audits sample_db @ es \<and> map ae_resource es = [''document:d1'']"
proof -
  obtain g where g: "commit_changes sample_env sample_mgmt (sample_request ''ann'' [''staff'']) [sample_change] = (g, Inr 1)" using sample_commit by blast
  have s: "\<not> stale sample_selection sample_change" by (simp add: stale_def sample_selection_def sample_change_def)
  have r: "apply_bulk (\<lambda>_. True) sample_env sample_mgmt (sample_request ''ann'' [''staff'']) sample_selection = (g, Inr 1)"
    by (simp add: apply_bulk_def sample_bulk_preview s g)
  have d: "distinct (map doc_id (documents (mg_db sample_mgmt)))" by (simp add: sample_mgmt_def sample_db_def)
  obtain xs :: "document_row list" and es :: "audit_row list" where x: "1 = length xs" "set (map doc_id xs) = set (map fst (bd_documents sample_selection))"
    "audits (mg_db g) = audits (mg_db sample_mgmt) @ es" "map ae_resource es = map (\<lambda>x. ''document:'' @ doc_id x) xs"
    using bulk_authorised [OF d, where key_ok = "\<lambda>_. True" and E = sample_env and req = "sample_request ''ann'' [''staff'']" and body = sample_selection]
    unfolding r prod.case sum.case by (elim exE conjE) blast
  then obtain y where y: "xs = [y]" by (metis One_nat_def length_0_conv length_Suc_conv)
  have "doc_id y = ''d1''" using x(2) by (simp add: y sample_selection_def)
  with x(3,4) r show ?thesis by (simp add: y sample_mgmt_def)
qed

section \<open>Filters and reminders\<close>

lemma review_day_length: "review_day t \<Longrightarrow> length t = 10"
  by (simp add: review_day_def Let_def)

lemma filter_clauses_valid:
  "filter_clauses filters ks = Inr cs \<Longrightarrow> c \<in> set cs \<Longrightarrow>
     (\<exists>k\<in>set ks. \<exists>v. filters k = Some v \<and> v \<noteq> [] \<and> filter_clause k v = Inr c)"
proof (induction ks arbitrary: cs)
  case (Cons k ks)
  show ?case
  proof (cases "Option.bind (filters k) or_null")
    case None
    then show ?thesis using Cons by auto
  next
    case (Some v)
    then have v: "filters k = Some v" "v \<noteq> []" by (auto simp: or_null_def split: bind_splits if_splits)
    from Cons.prems(1) Some obtain b bs where b: "filter_clause k v = Inr b" "filter_clauses filters ks = Inr bs" "cs = b # bs"
      by (auto split: sum.splits)
    show ?thesis using Cons.IH [OF b(2)] Cons.prems(2) b v by auto
  qed
qed simp

lemma filter_clause_Inr:
  "filter_clause k v = Inr c \<Longrightarrow> length v \<le> 200 \<and>
     (if k = ''reviewFrom'' then c = Review_From v \<and> review_day v
      else if k = ''reviewTo'' then c = Review_To v \<and> review_day v
      else if k = ''documentType'' then c = Field_Equals k v \<and> v \<in> set supported_types
      else c = Field_Contains k v)"
  by (simp add: filter_clause_def split: if_splits)

text \<open>A query on metadata searches only for real calendar days in the right order and for known types.\<close>

theorem metadata_query_valid:
  assumes "metadataWhere filters = Inr cs"
  shows "(\<forall>c\<in>set cs. case c of Review_From d \<Rightarrow> filters ''reviewFrom'' = Some d \<and> review_day d
      | Review_To d \<Rightarrow> filters ''reviewTo'' = Some d \<and> review_day d
      | Field_Equals k v \<Rightarrow> k = ''documentType'' \<and> v \<in> set supported_types
      | Field_Contains k v \<Rightarrow> k \<in> {''reference'', ''owner'', ''keywords''} \<and> length v \<le> 200) \<and>
    (\<forall>a b. filters ''reviewFrom'' = Some a \<and> filters ''reviewTo'' = Some b \<and> a \<noteq> [] \<and> b \<noteq> [] \<longrightarrow> a \<le> b)"
proof -
  have f: "filter_clauses filters documentFilterKeys = Inr cs" using assms by (auto simp: metadataWhere_def split: sum.splits option.splits if_splits)
  have "a \<le> b" if "filters ''reviewFrom'' = Some a" "filters ''reviewTo'' = Some b" "a \<noteq> []" "b \<noteq> []" for a b
    using assms that by (auto simp: metadataWhere_def or_null_def f split: if_splits)
  moreover have "case c of Review_From d \<Rightarrow> filters ''reviewFrom'' = Some d \<and> review_day d
      | Review_To d \<Rightarrow> filters ''reviewTo'' = Some d \<and> review_day d
      | Field_Equals k v \<Rightarrow> k = ''documentType'' \<and> v \<in> set supported_types
      | Field_Contains k v \<Rightarrow> k \<in> {''reference'', ''owner'', ''keywords''} \<and> length v \<le> 200" if "c \<in> set cs" for c
  proof -
    from filter_clauses_valid [OF f that] obtain k v where "k \<in> set documentFilterKeys" "filters k = Some v" "filter_clause k v = Inr c" by blast
    note k = this(1,2) filter_clause_Inr [OF this(3)]
    show ?thesis using k(1) unfolding documentFilterKeys_def list.set insert_iff empty_iff
      by (elim disjE) (use k(2,3) in simp_all)
  qed
  ultimately show ?thesis by blast
qed

theorem metadata_query_valid_witness:
  "metadataWhere [''documentType'' \<mapsto> ''policy'', ''owner'' \<mapsto> ''ann''] = Inr [Field_Contains ''owner'' ''ann'', Field_Equals ''documentType'' ''policy''] \<and>
   ''policy'' \<in> set supported_types"
proof -
  let ?f = "[''documentType'' \<mapsto> ''policy'', ''owner'' \<mapsto> ''ann'']"
  have e: "metadataWhere ?f = Inr [Field_Contains ''owner'' ''ann'', Field_Equals ''documentType'' ''policy'']"
    by (simp add: metadataWhere_def documentFilterKeys_def filter_clause_def supported_types_def or_null_def)
  from metadata_query_valid [OF e] have "''policy'' \<in> set supported_types" by simp
  with e show ?thesis by blast
qed

lemma days_setting_bounds: "0 \<le> dflt \<Longrightarrow> dflt \<le> 365 \<Longrightarrow> 0 \<le> days_setting m k dflt \<and> days_setting m k dflt \<le> 365"
  by (auto simp: days_setting_def split: option.splits json.splits)

lemma reminders_read_back:
  "rm_leadDays r \<in> {0..365} \<Longrightarrow> rm_overdueDays r \<in> {0..365} \<Longrightarrow> rm_publicationRepeatDays r \<in> {0..365} \<Longrightarrow>
     readReminderSettings (reminders_json r) = r"
  by (simp add: readReminderSettings_def reminders_json_def json_get_def days_setting_def)

text \<open>The reminder settings are always usable and what is saved is what is read: whatever stands in the database, the numbers of days are between 0 and
  365; settings within these bounds are read back as they were saved.\<close>

theorem reminders_roundtrip:
  "rm_leadDays (reminders_of s) \<in> {0..365} \<and> rm_overdueDays (reminders_of s) \<in> {0..365} \<and> rm_publicationRepeatDays (reminders_of s) \<in> {0..365} \<and>
   reminders_of (fst (saveReminders E s' req body)) = snd (saveReminders E s' req body)"
proof -
  have bounds: "rm_leadDays (readReminderSettings m) \<in> {0..365} \<and> rm_overdueDays (readReminderSettings m) \<in> {0..365} \<and>
      rm_publicationRepeatDays (readReminderSettings m) \<in> {0..365}" for m
    by (simp add: readReminderSettings_def reminderDefaults_def days_setting_bounds)
  have again: "readReminderSettings (reminders_json (readReminderSettings m)) = readReminderSettings m" for m
    using bounds [of m] by (intro reminders_read_back) simp_all
  have "get_setting (fst (persistAudit E (put_setting s' k v) req a r res x n)) k = get_setting (put_setting s' k v) k" for k v a r res x n
    by (simp add: get_setting_def persistAudit_def Let_def notify_publication_def notifySubscribers_def)
  then show ?thesis using bounds by (simp add: reminders_of_def saveReminders_def Let_def again)
qed

end
