(* ===== verification/Ged_Admin.thy ===== *)
theory Ged_Admin
  imports Sign_Share Document_Management
begin

text \<open>
  The administration of document control (\<^verbatim>\<open>apps/api/src/ged-admin.controller.ts\<close>): options, external sharing, time stamping and document
  types, and the cells of the exported inventory. The export of the files themselves is a stream and not modelled.
\<close>

section \<open>Options\<close>

definition saveTimestamp :: "env \<Rightarrow> tsa_env \<Rightarrow> cipher \<Rightarrow> db \<Rightarrow> request \<Rightarrow> timestamp_input \<Rightarrow> db \<times> timestamp_view" where
  "saveTimestamp E V C s req body =
     (let (s1, v) = saveTimestampSettings V C s body
      in (record_quiet E s1 req ''ged.timestamp.update'' ''settings:ged.timestamp'' Success
            (Some (JObj [(''enabled'', JBool (tv_enabled v)), (''url'', JStr (tv_url v)), (''username'', JStr (tv_username v)),
                         (''policyOid'', JStr (tv_policyOid v)),
                         (''passwordChanged'', JBool (non_empty (ti_password body) \<noteq> None \<or> ti_clearPassword body))])), v))"

definition sharing_value :: "bool \<Rightarrow> int \<Rightarrow> json" where
  "sharing_value enabled maxDays = JObj [(''enabled'', JBool enabled), (''maxDays'', JNum maxDays)]"

definition saveSharing :: "env \<Rightarrow> db \<Rightarrow> request \<Rightarrow> bool \<Rightarrow> int \<Rightarrow> db \<times> SharingSettings" where
  "saveSharing E s req enabled maxDays =
     (let s1 = put_setting s SHARING_SETTING (sharing_value enabled maxDays);
          s2 = (if enabled then s1 else s1\<lparr>sharelinks := update_rows link_open (revoke_link_row (now E)) (sharelinks s1)\<rparr>);
          s3 = record_quiet E s2 req ''ged.sharing.update'' ''settings:ged.externalSharing'' Success (Some (sharing_value enabled maxDays))
      in (s3, sharingSettings s3))"

definition features_value :: "bool \<Rightarrow> bool \<Rightarrow> bool \<Rightarrow> json" where
  "features_value ls cs ss = JObj [(''links'', JBool ls), (''comments'', JBool cs), (''signatures'', JBool ss)]"

definition saveFeatures :: "env \<Rightarrow> db \<Rightarrow> request \<Rightarrow> bool \<Rightarrow> bool \<Rightarrow> bool \<Rightarrow> db" where
  "saveFeatures E s req ls cs ss =
     record_quiet E (put_setting s FEATURES_SETTING (features_value ls cs ss)) req ''ged.features.update'' (''settings:'' @ FEATURES_SETTING) Success
       (Some (features_value ls cs ss))"

section \<open>Document types\<close>

record doctype_body =
  ty_slug :: string
  ty_nameFr :: string
  ty_nameEn :: string
  ty_requiredFields :: "string list"
  ty_referencePrefix :: "string option"

definition type_details :: "doctype_body \<Rightarrow> json" where
  "type_details body = JObj ([(''slug'', JStr (ty_slug body)), (''nameFr'', JStr (ty_nameFr body)), (''nameEn'', JStr (ty_nameEn body)),
     (''requiredFields'', JArr (map JStr (ty_requiredFields body)))] @ json_field ''referencePrefix'' (ty_referencePrefix body))"

definition createType :: "env \<Rightarrow> db \<Rightarrow> request \<Rightarrow> doctype_body \<Rightarrow> db \<times> doctype_row outcome" where
  "createType E s req body =
     (if \<exists>t\<in>set (doctypes s). dt_slug t = ty_slug body then (s, Inl (Conflict ''This document type already exists''))
      else (let t = \<lparr>dt_id = uuid E (uuid_next s), dt_slug = ty_slug body, dt_nameFr = trim (ty_nameFr body), dt_nameEn = trim (ty_nameEn body),
                     dt_requiredFields = new_set (ty_requiredFields body), dt_referencePrefix = Option.bind (ty_referencePrefix body) or_null,
                     dt_nextNumber = 1, dt_deletedAt = None\<rparr>
            in (record_quiet E (s\<lparr>doctypes := doctypes s @ [t], uuid_next := Suc (uuid_next s)\<rparr>) req ''document-type.create'' (''document-type:'' @ dt_id t)
                  Success (Some (type_details body)), Inr t)))"

definition updateType :: "env \<Rightarrow> db \<Rightarrow> request \<Rightarrow> string \<Rightarrow> doctype_body \<Rightarrow> db \<times> unit outcome" where
  "updateType E s req i body =
     (case find_first (\<lambda>t. dt_id t = i \<and> dt_deletedAt t = None) (doctypes s) of
        None \<Rightarrow> (s, Inl NotFound)
      | Some t \<Rightarrow>
          if dt_slug t \<noteq> ty_slug body then (s, Inl (BadRequest ''The identifier is stored in documents and cannot change''))
          else (record_quiet E (s\<lparr>doctypes := update_rows (\<lambda>t. dt_id t = i)
                    (\<lambda>t. t\<lparr>dt_nameFr := trim (ty_nameFr body), dt_nameEn := trim (ty_nameEn body), dt_requiredFields := new_set (ty_requiredFields body),
                           dt_referencePrefix := Option.bind (ty_referencePrefix body) or_null\<rparr>) (doctypes s)\<rparr>) req ''document-type.update''
                  (''document-type:'' @ i) Success (Some (type_details body)), Inr ()))"

definition type_live :: "doctype_row \<Rightarrow> bool" where
  "type_live t = (dt_deletedAt t = None)"

definition remove_type :: "time \<Rightarrow> doctype_row \<Rightarrow> doctype_row" where
  "remove_type at t = t\<lparr>dt_deletedAt := Some at\<rparr>"

definition deleteType :: "env \<Rightarrow> db \<Rightarrow> request \<Rightarrow> string \<Rightarrow> db \<times> unit outcome" where
  "deleteType E s req i =
     (case claim (\<lambda>t. dt_id t = i \<and> type_live t) (remove_type (now E)) (doctypes s) of
        None \<Rightarrow> (s, Inl NotFound)
      | Some ts \<Rightarrow> (record_quiet E (s\<lparr>doctypes := ts\<rparr>) req ''document-type.delete'' (''document-type:'' @ i) Success None, Inr ()))"

section \<open>The inventory\<close>

definition formula_start :: "string \<Rightarrow> bool" where
  "formula_start t = (case t of [] \<Rightarrow> False | c # _ \<Rightarrow> c \<in> {CHR ''='', CHR ''+'', CHR ''-'', CHR ''@'', CHR 0x09, CHR 0x0D})"

definition csvCell :: "string \<Rightarrow> string" where
  "csvCell t = (let safe = (if formula_start t then CHR 0x27 # t else t)
     in [CHR 0x22] @ concat (map (\<lambda>c. if c = CHR 0x22 then [CHR 0x22, CHR 0x22] else [c]) safe) @ [CHR 0x22])"

text \<open>How a reader of comma-separated values takes one quoted cell: the text up to a quotation mark that is not doubled, and what follows.\<close>

fun read_quoted :: "string \<Rightarrow> (string \<times> string) option" where
  "read_quoted [] = None"
| "read_quoted [c] = (if c = CHR 0x22 then Some ([], []) else None)"
| "read_quoted (c # d # cs) =
     (if c = CHR 0x22 then (if d = CHR 0x22 then map_option (\<lambda>(t, r). (c # t, r)) (read_quoted cs) else Some ([], d # cs))
      else map_option (\<lambda>(t, r). (c # t, r)) (read_quoted (d # cs)))"

definition read_cell :: "string \<Rightarrow> (string \<times> string) option" where
  "read_cell t = (case t of c # cs \<Rightarrow> if c = CHR 0x22 then read_quoted cs else None | [] \<Rightarrow> None)"

section \<open>Sharing switched off\<close>

interpretation type_removal: claim_once dt_id type_live "\<lambda>_ :: time. True" remove_type
  by unfold_locales (simp_all add: type_live_def remove_type_def)

lemma record_quiet_settings: "settings (record_quiet E s req a r Success x) = settings s"
  by (simp add: record_quiet_def evaluate_def persistAudit_def Let_def notify_publication_def notifySubscribers_def)

lemma put_setting_sharelinks [simp]: "sharelinks (put_setting s k v) = sharelinks s"
  by (simp add: put_setting_def)

lemma saveSharing_links:
  "sharelinks (fst (saveSharing E s req enabled days)) = (if enabled then sharelinks s else update_rows link_open (revoke_link_row (now E)) (sharelinks s))"
  by (simp add: saveSharing_def Let_def)

lemma all_revoked_refuse:
  assumes "\<forall>l\<in>set (sharelinks s). sl_revokedAt l \<noteq> None"
  shows "\<nexists>f. snd (download E ok s req token) = Inr f"
proof -
  have "\<not> link_valid E s l d vf" if "find_first (\<lambda>l. sl_tokenHash l = tokenHash E token) (sharelinks s) = Some l" for l d vf
    using find_first_Some [OF that] assms by (auto simp: link_valid_def)
  then show ?thesis by (auto simp: download_def consume_def Let_def split: option.splits)
qed

text \<open>C32: Switching external sharing off ends every link for good. After it no address that was handed out serves a file, not even once sharing is
  switched on again.\<close>

theorem sharing_off_final:
  "(\<nexists>f. snd (download E1 ok1 (fst (saveSharing E s req False days)) req1 token) = Inr f) \<and>
   (\<nexists>f. snd (download E2 ok2 (fst (saveSharing E3 (fst (saveSharing E s req False days)) req3 True days3)) req2 token) = Inr f)"
proof -
  have "\<forall>l\<in>set (sharelinks (fst (saveSharing E s req False days))). sl_revokedAt l \<noteq> None"
    by (auto simp: saveSharing_links set_update_rows link_open_def revoke_link_row_def)
  then show ?thesis using all_revoked_refuse by (simp add: saveSharing_links)
qed

text \<open>What is saved is what is read: the options of sharing and of the three features, within the bounds of the form.\<close>

theorem options_roundtrip:
  assumes "1 \<le> days" and "days \<le> 90"
  shows "snd (saveSharing E s req on days) = \<lparr>xs_enabled = on, xs_maxDays = (days, 0)\<rparr> \<and>
    gedFeatures (saveFeatures E s req ls cs ss) Links = ls \<and> gedFeatures (saveFeatures E s req ls cs ss) Comments = cs \<and>
    gedFeatures (saveFeatures E s req ls cs ss) Signatures = ss"
proof -
  have q: "get_setting (record_quiet E t req a r Success x) k = get_setting t k" for t a r x k
    by (simp add: get_setting_def record_quiet_settings)
  have l: "get_setting (t\<lparr>sharelinks := u\<rparr>) k = get_setting t k" for t u k by (simp add: get_setting_def)
  have g: "get_setting (fst (saveSharing E s req on days)) SHARING_SETTING = Some (sharing_value on days)"
    by (simp add: saveSharing_def Let_def q l)
  have "snd (saveSharing E s req on days) = sharingSettings (fst (saveSharing E s req on days))" by (simp add: saveSharing_def Let_def)
  also have "\<dots> = \<lparr>xs_enabled = on, xs_maxDays = (days, 0)\<rparr>"
    using assms by (simp add: sharingSettings_def g sharing_value_def json_get_def clamp_days_def)
  finally show ?thesis
    by (simp add: saveFeatures_def gedFeatures_def q features_value_def json_get_def)
qed

theorem options_roundtrip_witness:
  "snd (saveSharing sample_env sample_db (sample_request ''root'' []) True 14) = \<lparr>xs_enabled = True, xs_maxDays = (14, 0)\<rparr>"
  using options_roundtrip [of 14 sample_env sample_db "sample_request ''root'' []" True] by simp

section \<open>Types\<close>

definition types_ok :: "db \<Rightarrow> bool" where
  "types_ok s = (distinct (map dt_id (doctypes s)) \<and> distinct (map dt_slug (doctypes s)))"

text \<open>The identifier of a document type is unique and stays what it was, through creation, change and removal.\<close>

theorem types_stable:
  assumes "types_ok s" and "uuid E (uuid_next s) \<notin> dt_id ` set (doctypes s)"
  shows "types_ok (fst (createType E s req body)) \<and> types_ok (fst (updateType E s req i body)) \<and> types_ok (fst (deleteType E s req i)) \<and>
    map dt_slug (doctypes (fst (updateType E s req i body))) = map dt_slug (doctypes s) \<and>
    map dt_slug (doctypes (fst (deleteType E s req i))) = map dt_slug (doctypes s)"
proof -
  have u: "map dt_slug (doctypes (fst (updateType E s req i body))) = map dt_slug (doctypes s)"
    "map dt_id (doctypes (fst (updateType E s req i body))) = map dt_id (doctypes s)"
    by (auto simp: updateType_def map_update_rows split: option.splits)
  have d: "map dt_slug (doctypes (fst (deleteType E s req i))) = map dt_slug (doctypes s)"
    "map dt_id (doctypes (fst (deleteType E s req i))) = map dt_id (doctypes s)"
    by (auto simp: deleteType_def claim_Some_iff map_update_rows remove_type_def split: option.splits)
  have "types_ok (fst (createType E s req body))"
    using assms by (auto simp: createType_def Let_def types_ok_def)
  with u d assms(1) show ?thesis by (simp add: types_ok_def)
qed

definition sample_type :: doctype_body where
  "sample_type = \<lparr>ty_slug = ''contract'', ty_nameFr = ''Contrat'', ty_nameEn = ''Contract'', ty_requiredFields = [], ty_referencePrefix = None\<rparr>"

theorem types_stable_witness:
  "types_ok (fst (createType sample_env sample_db (sample_request ''root'' []) sample_type))"
proof -
  have "types_ok sample_db" "doctypes sample_db = []" by code_simp+
  then show ?thesis using types_stable [of sample_db sample_env] by simp
qed

text \<open>A declared type outside the five built-in ones cannot be given to a document: the rule on metadata refuses its identifier, and the filter
  of the search refuses it too.\<close>

theorem declared_type_unusable:
  assumes "slug \<notin> set supported_types" and "slug \<noteq> []" and "length slug \<le> 200"
  shows "(\<exists>e. mergeMetadata key_ok m [(''ged.documentType'', slug)] = Inl e) \<and>
    (\<exists>e. metadataWhere [''documentType'' \<mapsto> slug] = Inl e)"
proof
  let ?m = "spread m [(''ged.documentType'', slug)]"
  obtain kvs where k: "?m = JObj kvs" by (cases m) (auto simp: spread_def json_set_def)
  have "json_get ''ged.documentType'' ?m = Some (JStr slug)" by (simp add: spread_def json_get_set)
  then have "(''ged.documentType'', JStr slug) \<in> set kvs" by (auto simp: k json_get_def dest: map_of_SomeD)
  moreover have "\<not> valid_field key_ok (''ged.documentType'', JStr slug)" using assms(1,2) by (simp add: valid_field_def)
  ultimately have "\<not> list_all (valid_field key_ok) kvs" unfolding list_all_iff by blast
  then show "\<exists>e. mergeMetadata key_ok m [(''ged.documentType'', slug)] = Inl e" by (simp add: mergeMetadata_def k valid_metadata_def)
  show "\<exists>e. metadataWhere [''documentType'' \<mapsto> slug] = Inl e"
    using assms by (simp add: metadataWhere_def documentFilterKeys_def filter_clause_def or_null_def)
qed

theorem declared_type_unusable_witness:
  "\<exists>e. mergeMetadata (\<lambda>_. True) (JObj []) [(''ged.documentType'', ''contract'')] = Inl e"
  using declared_type_unusable [of "''contract''"] by (auto simp: supported_types_def)

section \<open>Cells\<close>

lemma read_quoted_escaped:
  "(case rest of [] \<Rightarrow> True | c # _ \<Rightarrow> c \<noteq> CHR 0x22) \<Longrightarrow>
     read_quoted (concat (map (\<lambda>c. if c = CHR 0x22 then [CHR 0x22, CHR 0x22] else [c]) t) @ CHR 0x22 # rest) = Some (t, rest)"
proof (induction t)
  case Nil
  then show ?case by (cases rest) simp_all
next
  case (Cons c t)
  let ?e = "concat (map (\<lambda>c. if c = CHR 0x22 then [CHR 0x22, CHR 0x22] else [c]) t) @ CHR 0x22 # rest"
  obtain d ds where d: "?e = d # ds" by (cases ?e) simp_all
  show ?case
  proof (cases "c = CHR 0x22")
    case True
    then show ?thesis using Cons by simp
  next
    case False
    then have "read_quoted (c # ?e) = map_option (\<lambda>(t, r). (c # t, r)) (read_quoted ?e)" unfolding d by simp
    then show ?thesis using Cons False by simp
  qed
qed

text \<open>A cell of the inventory is read back whole by every reader of comma-separated values, whatever it contains, and what is read never starts like
  a formula.\<close>

theorem csv_cell_safe:
  "\<exists>t'. read_cell (csvCell t @ '','' @ rest) = Some (t', '','' @ rest) \<and> \<not> formula_start t' \<and> (t' = t \<or> t' = CHR 0x27 # t)"
proof -
  let ?t = "if formula_start t then CHR 0x27 # t else t"
  have "read_cell (csvCell t @ '','' @ rest) = Some (?t, '','' @ rest)"
    using read_quoted_escaped [of "'','' @ rest" ?t] by (simp add: read_cell_def csvCell_def Let_def)
  moreover have "\<not> formula_start ?t" by (simp add: formula_start_def)
  ultimately show ?thesis by (intro exI [of _ ?t]) simp
qed

end
