(* ===== verification/Spec2Isabelle.thy ===== *)
theory Spec2Isabelle
  imports Approvals Audit_Journal Sensitive_Sharing Retention Content_Index Document_Control Sign_Share Watermark Reader Lifecycle Timestamp Identity
    Accounts Document_Diff Governance User_Requests Ged_Admin
begin

text \<open>
  Verification of the ISMS Portal, a document portal for an information security management system:
  documents in spaces and categories with group permissions, a publication and review workflow,
  two-person approval of sensitive operations, retention and destruction, signatures, sharing, and
  a tamper-evident audit journal. The sources are \<^verbatim>\<open>apps/api/src\<close> (a NestJS server over a PostgreSQL
  database through Prisma) and \<^verbatim>\<open>apps/web\<close> (a Next.js front end). The development models the
  server, where every rule is enforced.

  \<^bold>\<open>How the program is read.\<close> A handler is a function of the surroundings (\<open>env\<close>: one clock reading,
  the generated identifiers, the digest, whether the queue and the alert channels answer), the
  database (\<open>db\<close>: one list of records per table of \<^verbatim>\<open>prisma/schema.prisma\<close>) and the request; it
  returns the new database and an outcome, whose left values are the exceptions of the framework
  with their messages. A transaction that raises returns the old database. Queries of the
  object-relational client are read with their documented meaning (theory \<open>Prelude\<close>). Strings are
  the lists of their UTF-8 bytes; integers are unbounded, as JavaScript numbers are exact in the
  ranges used. External services are parameters: SHA-256, the cipher, the time-stamping authority,
  mail transport, the object store, text extraction and optical recognition.

  \<^bold>\<open>The theories.\<close>
  \<^item> \<open>Prelude\<close>: instants, errors, tables and queries, and the locale \<open>claim_once\<close>, the contract of the
    conditional updates (\<open>updateMany\<close> on an identifier and an open state, then a test of the count)
    that all workflows rely on; it is interpreted for reviews, approvals, shares, depositors,
    destructions, indexing and signatures.
  \<^item> \<open>Js_Runtime\<close>, \<open>Js_Dates\<close>: the JavaScript library that the sources use (strings, JSON, calendar
    dates, ISO dates and their round trip). \<open>Schema\<close>: the tables. \<open>Samples\<close>: data for the witnesses.
  \<^item> \<open>Security\<close>, \<open>Category_Permissions\<close>, \<open>Authorization\<close> (\<^verbatim>\<open>security.ts\<close>, \<^verbatim>\<open>category-permissions.ts\<close>,
    \<^verbatim>\<open>authorization.service.ts\<close>): who may do what where. The loop over the category tree computes an
    inductively defined nearest-rule decision, also on trees with cycles; nothing is permitted
    without a source of the permission; the database filters agree with the decision function.
  \<^item> \<open>Alerts\<close>, \<open>Audit_Event\<close>, \<open>Mail\<close> (\<^verbatim>\<open>alert-delivery.service.ts\<close>, \<^verbatim>\<open>health-alerts.ts\<close>,
    \<^verbatim>\<open>audit-event.ts\<close>, \<^verbatim>\<open>audit.service.ts\<close>, \<^verbatim>\<open>notification-outbox.ts\<close>, \<^verbatim>\<open>notification.service.ts\<close>,
    \<^verbatim>\<open>notification-email.ts\<close>): what an audit writes, the transactional outbox that loses nothing and
    drains, cool-downs of alerts, and mails whose markup does not depend on user text.
  \<^item> \<open>Audit_Chain\<close>, \<open>Audit_Journal\<close> (\<^verbatim>\<open>audit-chain.ts\<close>): the hash chain, seals and verification; a journal
    written with strictly increasing times verifies as long as retention leaves an event, and two
    verified journals with a common digest agree on their past, or else they hold, at one position, two
    different hashed texts with the same digest.
  \<^item> \<open>Document_Workflow\<close> (\<^verbatim>\<open>version-label.ts\<close>, \<^verbatim>\<open>document-types.ts\<close>, \<^verbatim>\<open>publication-review.ts\<close>,
    \<^verbatim>\<open>review-decision.ts\<close>): labels, numbering, publication and reviews.
  \<^item> \<open>Approvals\<close> (\<^verbatim>\<open>approvals.controller.ts\<close>, \<^verbatim>\<open>sensitive-approval.service.ts\<close> and the deletion of
    spaces in \<^verbatim>\<open>controllers.ts\<close>): the two-person rule as an
    invariant of the reachable states, and approvals that are decided once and used once.
  \<^item> \<open>Sensitive_Sharing\<close> (\<^verbatim>\<open>sensitive-sharing.ts\<close>): shares of sensitive documents refine an abstract access
    list from persons and documents to an end of access.
  \<^item> \<open>Ged_Settings\<close>, \<open>Document_Control\<close>, \<open>Content_Index\<close>, \<open>Retention\<close>, \<open>Sign_Share\<close> (\<^verbatim>\<open>ged-settings.ts\<close>,
    \<^verbatim>\<open>ged.controller.ts\<close>, \<^verbatim>\<open>ged-worker.ts\<close>, the retention routes of \<^verbatim>\<open>governance.controller.ts\<close>,
    \<^verbatim>\<open>ged-sign-share.controller.ts\<close>): options, check-out, restoring, links, indexing, destruction by two
    persons, electronic signatures with evidence, and external download links.
  \<^item> \<open>Storage\<close>, \<open>Watermark\<close>, \<open>Timestamp\<close>, \<open>Document_Diff\<close> (\<^verbatim>\<open>storage.service.ts\<close>, \<^verbatim>\<open>watermark.service.ts\<close>,
    \<^verbatim>\<open>timestamp.ts\<close>, \<^verbatim>\<open>document-diff.ts\<close>): keys that stay below the storage root; where and how copies of sensitive files are
    marked; the DER encoding of time-stamp requests and its reading; the comparison of two versions, whose table of 16-bit cells
    holds the lengths of longest common subsequences.
  \<^item> \<open>Reader\<close>, \<open>Lifecycle\<close> (the document routes of \<^verbatim>\<open>controllers.ts\<close>): page, preview and download with favourites, and the life of a
    document from draft over publication, archive and trash to deletion. The calls of users, administrators and the
    worker refine a machine of phases.
  \<^item> \<open>Auth\<close>, \<open>Identity\<close>, \<open>Accounts\<close> (\<^verbatim>\<open>auth.service.ts\<close>, \<^verbatim>\<open>identity.provider.ts\<close>, \<^verbatim>\<open>sso-mailbox-policy.ts\<close>,
    \<^verbatim>\<open>auth.controller.ts\<close>): passwords, one-time codes, locks and sessions; identities from the headers of a trusted proxy, from
    local sessions and from the directory; the administration of accounts with the primary administrator and the second person.
  \<^item> \<open>Governance\<close> (\<^verbatim>\<open>governance.controller.ts\<close>): exceptions, reviews asked for by hand with their evidence, certifications of access,
    controls, incidents, bulk changes and saved views. Exceptions are decided by a second person in every reachable state, the registers keep
    their constraints, and a stored view has no key that reaches the prototype of an object.
  \<^item> \<open>User_Requests\<close> (\<^verbatim>\<open>user-tools.controller.ts\<close>): temporary access that is asked for, decided and read by \<open>Authorization\<close>, reports,
    acknowledgements and searches. Every running grant was asked for and approved, and an approval opens what was asked.
  \<^item> \<open>Document_Management\<close>, \<open>Ged_Admin\<close> (\<^verbatim>\<open>document-management.ts\<close>, \<^verbatim>\<open>document-management.controller.ts\<close>, the rule on metadata of
    \<^verbatim>\<open>admin.dto.ts\<close>, \<^verbatim>\<open>ged-admin.controller.ts\<close>): metadata, filters, changes of several documents that are previewed and committed
    without lost updates, reminders, document types, the options of document control, and links that end when sharing is switched off.

  \<^bold>\<open>Reachable states.\<close> The invariants that span several operations are proved by rule induction over
  inductive predicates (\<open>approvals_reachable\<close>, \<open>journal_reachable\<close>, \<open>sensitive_reachable\<close>,
  \<open>retention_reachable\<close>, \<open>signature_run\<close>, \<open>accounts_reachable\<close>, \<open>risks_reachable\<close>, \<open>registers_reachable\<close>,
  \<open>desk_reachable\<close>): a starting table, the modelled operations that write it, each a constructor, and any change of
  other tables. An invariant says nothing of writers that are not modelled. Their premises on generated identifiers
  say that these are unused; other premises (the order of clock readings, what retention leaves) are repeated with
  the properties that rest on them. \<open>document_op\<close> of \<open>Lifecycle\<close> enumerates the calls on existing documents; the upload of
  versions and the creation of documents are not among them.

  \<^bold>\<open>Bounds and termination.\<close> No fuel is used: every loop of the sources runs over a finite list or tree
  and is a recursive function with a termination proof. Limits of the sources (batches of 10, 100,
  1000 rows, 15 minutes, 8 hours, 90 days) are written out in the definitions.

  \<^bold>\<open>Limits of the reading.\<close> \<open>date_parse\<close> reads the ISO format with 24 characters only, \<open>js_number\<close> no exponent, hexadecimal or infinite
  form, and \<open>json\<close> numbers are integers. The review date a year ahead is computed in UTC, where the code uses the local calendar. Limits of
  text lengths (a line of \<open>Document_Diff.normalize\<close>, a saved view, the indexed text) count the bytes of UTF-8, where the code counts the units
  of UTF-16; they agree on ASCII text.

  \<^bold>\<open>Not modelled.\<close> Interleavings inside a handler: handlers are taken one after the other, apart from the conditional updates and the split of
  the decision and the cancellation of a signature request and of the change of several documents into reading and committing; the delivery protocols (SMTP, Graph,
  webhooks), LDAP, object storage, antivirus, text extraction and PDF rendering, which are calls to
  external code; the validation decorators of request bodies, whose accepted shapes are the types of
  the bodies; the pages, styles and translations of the front end, which hold no rule that the
  server does not enforce; the lists that only read, the indicators of governance (rounded floating-point numbers) and the health page;
  upload, creation of documents, search and the administration of groups and rules in \<^verbatim>\<open>controllers.ts\<close>, and of its spaces all but the
  permanent deletion; concurrent lookups in the caches of profiles
  and mailboxes; marking of notifications, personal preferences and the settings of integrations in \<^verbatim>\<open>user-tools.controller.ts\<close>; the stream of
  the export and the test of the time-stamping authority in \<^verbatim>\<open>ged-admin.controller.ts\<close>.
\<close>

end
